(* ===== verification/Prelude.thy ===== *)
theory Prelude
  imports Main "HOL-Library.Word"
begin

text \<open>
  Shared vocabulary of the development: the machine integers of the profiler's interfaces, HRESULT
  values, reachability of a step relation with the interface every invariant proof goes through,
  and the generic lemmas on words, lists and options that the component theories use.
\<close>

unbundle bit_operations_syntax

section \<open>Machine integers\<close>

type_synonym u8 = "8 word"
type_synonym u16 = "16 word"
type_synonym u32 = "32 word"
type_synonym u64 = "64 word"
type_synonym byte = "8 word"

text \<open>A UTF-16 string (\<open>WSTRING\<close>) is a list of code units.\<close>

type_synonym wstring = "16 word list"

type_synonym thread_id = nat

section \<open>Decimal text\<close>

text \<open>Decimal text of a number, as a stream writes it.\<close>

fun decimal :: "nat \<Rightarrow> string" where
  "decimal n = (if n < 10 then [char_of (48 + n)] else decimal (n div 10) @ [char_of (48 + n mod 10)])"

declare decimal.simps [simp del]

lemma decimal_chars: "\<forall>c \<in> set (decimal n). 48 \<le> (of_char c :: nat) \<and> (of_char c :: nat) \<le> 57"
proof (induction n rule: decimal.induct)
  case (1 n)
  then show ?case by (subst decimal.simps) auto
qed

section \<open>HRESULT values\<close>

text \<open>
  An HRESULT is a 32-bit integer, negative (top bit set) on failure. \<open>SUCCEEDED\<close> and \<open>FAILED\<close> are
  the macros of \<open>pal.h\<close>, the codes those of \<open>palrt.h\<close> and \<open>corerror.h\<close>.
\<close>

type_synonym hresult = "32 word"

definition SUCCEEDED :: "hresult \<Rightarrow> bool" where
  "SUCCEEDED hr \<longleftrightarrow> 0 \<le> sint hr"

definition FAILED :: "hresult \<Rightarrow> bool" where
  "FAILED hr \<longleftrightarrow> sint hr < 0"

definition S_OK :: hresult where "S_OK = 0"
definition S_FALSE :: hresult where "S_FALSE = 1"
definition E_FAIL :: hresult where "E_FAIL = 0x80004005"
definition E_INVALIDARG :: hresult where "E_INVALIDARG = 0x80070057"
definition CORPROF_E_STACKSNAPSHOT_ABORTED :: hresult where
  "CORPROF_E_STACKSNAPSHOT_ABORTED = 0x80131361"

lemma FAILED_iff [simp]: "FAILED hr \<longleftrightarrow> \<not> SUCCEEDED hr"
  by (auto simp: FAILED_def SUCCEEDED_def)

lemma hresult_codes [simp]:
  "SUCCEEDED S_OK" "SUCCEEDED S_FALSE" "\<not> SUCCEEDED E_FAIL" "\<not> SUCCEEDED E_INVALIDARG"
  by (simp_all add: SUCCEEDED_def S_OK_def S_FALSE_def E_FAIL_def E_INVALIDARG_def)

section \<open>Reachable states\<close>

inductive reach :: "('s \<Rightarrow> bool) \<Rightarrow> ('s \<Rightarrow> 's \<Rightarrow> bool) \<Rightarrow> 's \<Rightarrow> bool" for init step where
  reach_init: "init s \<Longrightarrow> reach init step s"
| reach_step: "reach init step s \<Longrightarrow> step s t \<Longrightarrow> reach init step t"

text \<open>
  The interface of an invariant proof: a transition system with a predicate that holds initially
  and is kept by every step. What the client gets back is the predicate in every reachable state.
\<close>

locale step_invariant =
  fixes init :: "'s \<Rightarrow> bool"
    and step :: "'s \<Rightarrow> 's \<Rightarrow> bool"
    and inv :: "'s \<Rightarrow> bool"
  assumes inv_init: "init s \<Longrightarrow> inv s"
    and inv_step: "inv s \<Longrightarrow> step s t \<Longrightarrow> inv t"
begin

lemma reach_inv: "reach init step s \<Longrightarrow> inv s"
  by (induction rule: reach.induct) (auto intro: inv_init inv_step)

lemma steps_inv: "inv s \<Longrightarrow> step\<^sup>*\<^sup>* s t \<Longrightarrow> inv t"
  by (rotate_tac, induction rule: rtranclp_induct) (auto intro: inv_step)

end

text \<open>
  A latch is a predicate that no step can undo; once it holds, it holds along every later run.
\<close>

locale step_latch =
  fixes step :: "'s \<Rightarrow> 's \<Rightarrow> bool"
    and latched :: "'s \<Rightarrow> bool"
  assumes latch_step: "latched s \<Longrightarrow> step s t \<Longrightarrow> latched t"
begin

lemma latch_forever: "step\<^sup>*\<^sup>* s t \<Longrightarrow> latched s \<Longrightarrow> latched t"
  by (induction rule: rtranclp_induct) (auto intro: latch_step)

end

lemma reach_steps: "reach init step s \<Longrightarrow> step\<^sup>*\<^sup>* s t \<Longrightarrow> reach init step t"
  by (rotate_tac, induction rule: rtranclp_induct) (auto intro: reach.intros)

section \<open>Words\<close>

lemma word_eq_unat_iff: "(x :: 'a::len word) = y \<longleftrightarrow> unat x = unat y"
  by (simp add: word_unat_eq_iff)

lemma unat_plus_one:
  fixes x :: "'a::len word"
  assumes "unat x + 1 < 2 ^ LENGTH('a)"
  shows "unat (x + 1) = unat x + 1"
  using assms by (simp add: unat_word_ariths)

lemma unat_minus_one':
  fixes x :: "'a::len word"
  assumes "x \<noteq> 0"
  shows "unat (x - 1) = unat x - 1"
  using assms by (simp add: unat_minus_one)

text \<open>The top bit of a 64-bit word and the 63 bits below it.\<close>

lemma u64_bound: "unat (g :: u64) < 2 ^ 64"
  using unsigned_less [of g, where 'a = nat] by simp

lemma nat_top_digit:
  fixes n :: nat
  assumes "n < 2 * k"
  shows "odd (n div k) \<longleftrightarrow> k \<le> n"
proof (cases "k \<le> n")
  case True
  then have "n div k = 1"
    using assms by (intro div_nat_eqI) auto
  with True show ?thesis by simp
qed simp

lemma bit_top_iff_unat: "bit (g :: u64) 63 \<longleftrightarrow> 2 ^ 63 \<le> unat g"
proof -
  have "bit g 63 \<longleftrightarrow> bit (unat g) 63"
    by (simp add: bit_unsigned_iff)
  also have "\<dots> \<longleftrightarrow> odd (unat g div 2 ^ 63)"
    by (simp only: bit_iff_odd)
  also have "\<dots> \<longleftrightarrow> 2 ^ 63 \<le> unat g"
    using u64_bound [of g] by (intro nat_top_digit) simp
  finally show ?thesis .
qed

text \<open>Masking with the low 63 bits, and setting the top bit, read as naturals.\<close>

lemma u64_and_top: "(g :: u64) AND push_bit 63 1 \<noteq> 0 \<longleftrightarrow> 2 ^ 63 \<le> unat g"
  by (simp only: bit_iff_and_push_bit_not_eq_0 [symmetric] bit_top_iff_unat)

lemma u64_not_top: "NOT (push_bit 63 1) = (mask 63 :: u64)"
  by (rule bit_word_eqI)
    (simp only: bit_not_iff bit_push_bit_iff bit_mask_iff bit_1_iff possible_bit_word, auto)

lemma u64_and_low: "unat ((g :: u64) AND NOT (push_bit 63 1)) = unat g mod 2 ^ 63"
proof -
  have "unat (g AND NOT (push_bit 63 1)) = unat (take_bit 63 g)"
    by (simp only: u64_not_top take_bit_eq_mask)
  also have "\<dots> = take_bit 63 (unat g)" by (rule unsigned_take_bit_eq)
  also have "\<dots> = unat g mod 2 ^ 63" by (simp only: take_bit_eq_mod)
  finally show ?thesis .
qed

lemma u64_or_top: "unat ((g :: u64) OR push_bit 63 1) = unat g mod 2 ^ 63 + 2 ^ 63"
proof -
  have "g OR push_bit 63 1 = (g AND NOT (push_bit 63 1)) OR push_bit 63 1"
    by (rule bit_word_eqI) (auto simp only: bit_or_iff bit_and_iff bit_not_iff possible_bit_word)
  also have "\<dots> = (g AND NOT (push_bit 63 1)) + push_bit 63 1"
    by (rule disjunctive_add_eq_or [symmetric])
      (simp only: and.assoc and.commute [of "NOT (push_bit 63 1)"] and.left_commute, simp)
  finally have "g OR push_bit 63 1 = (g AND NOT (push_bit 63 1)) + push_bit 63 1" .
  then have "unat (g OR push_bit 63 1) = (unat g mod 2 ^ 63 + 2 ^ 63) mod 2 ^ 64"
    by (simp only: unat_word_ariths u64_and_low) simp
  also have "\<dots> = unat g mod 2 ^ 63 + 2 ^ 63"
    by (rule mod_less) (use mod_less_divisor [of "2 ^ 63" "unat g"] in simp)
  finally show ?thesis .
qed

section \<open>Bytes of a word, most significant first\<close>

definition be_byte :: "nat \<Rightarrow> 'a::len word \<Rightarrow> byte" where
  "be_byte k v = ucast (drop_bit k v AND 0xFF)"

lemma be_byte_eq: "be_byte k v = ucast (drop_bit k v)"
proof (rule bit_word_eqI)
  fix n assume n: "n < LENGTH(8)"
  have m: "(0xFF :: 'a word) = mask 8" by (simp add: mask_eq_exp_minus_1)
  from n show "bit (be_byte k v) n = bit (ucast (drop_bit k v) :: byte) n"
    unfolding be_byte_def m
    by (auto simp: bit_unsigned_iff bit_and_iff bit_mask_iff dest: bit_imp_possible_bit)
qed

lemma unat_be_byte: "unat (be_byte k v) = unat v div 2 ^ k mod 256"
proof -
  have "unat (be_byte k v) = take_bit 8 (drop_bit k (unat v))"
    unfolding be_byte_eq unsigned_ucast_eq by (simp only: unat_drop_bit_eq len_num0 len_num1 len_bit0 len_bit1) simp
  then show ?thesis by (simp only: take_bit_eq_mod drop_bit_eq_div) simp
qed

lemma ucast_unat: "(ucast (b :: 'b::len word) :: 'a::len word) = of_nat (unat b)"
  by (simp add: unsigned_of_nat)

lemma push_be_byte: "push_bit k (ucast (be_byte k v)) = (of_nat (unat v div 2 ^ k mod 256 * 2 ^ k) :: 'a::len word)"
  by (simp add: ucast_unat unat_be_byte push_bit_eq_mult)

lemma base_256_digit: "(n :: nat) mod (k * 256) = n div k mod 256 * k + n mod k"
  by (simp add: mod_mult2_eq)

lemma four_digits:
  fixes n :: nat
  assumes "n < 2 ^ 32"
  shows "n div 2 ^ 24 mod 256 * 2 ^ 24 + n div 2 ^ 16 mod 256 * 2 ^ 16 + n div 2 ^ 8 mod 256 * 2 ^ 8 + n mod 256 = n"
  using assms base_256_digit [of n "2^8"] base_256_digit [of n "2^16"] base_256_digit [of n "2^24"] by simp

lemma eight_digits:
  fixes n :: nat
  assumes "n < 2 ^ 64"
  shows "n div 2 ^ 56 mod 256 * 2 ^ 56 + n div 2 ^ 48 mod 256 * 2 ^ 48 + n div 2 ^ 40 mod 256 * 2 ^ 40 +
    n div 2 ^ 32 mod 256 * 2 ^ 32 + n div 2 ^ 24 mod 256 * 2 ^ 24 + n div 2 ^ 16 mod 256 * 2 ^ 16 +
    n div 2 ^ 8 mod 256 * 2 ^ 8 + n mod 256 = n"
  using assms base_256_digit [of n "2^8"] base_256_digit [of n "2^16"] base_256_digit [of n "2^24"] base_256_digit [of n "2^32"] base_256_digit [of n "2^40"] base_256_digit [of n "2^48"] base_256_digit [of n "2^56"] by simp

end
