(* ===== verification/Shutdown_Admission.thy ===== *)
theory Shutdown_Admission
  imports Prelude
begin

text \<open>
  The process-wide shutdown gate of \<open>shutdown_admission.cpp\<close>: one 64-bit atomic whose top bit is the
  terminal closing flag and whose low 63 bits count the operations that were admitted before it, and
  a drained flag that \<open>WaitForShutdownAdmissions\<close> sleeps on. Every thread runs the gate's functions
  one atomic access at a time, so a step of the system is one atomic access of one thread, in any
  interleaving. The theorems: a waiter that returned never coexists with an admitted operation, now or
  later; the count never runs into the closing bit; a closed gate with nobody inside always gets its
  drained signal.
\<close>

section \<open>The gate word\<close>

definition kShutdownAdmissionClosingBit :: u64 where
  "kShutdownAdmissionClosingBit = push_bit 63 1"

definition kShutdownAdmissionCountMask :: u64 where
  "kShutdownAdmissionCountMask = NOT kShutdownAdmissionClosingBit"

text \<open>The guard of the admission loop: closed, or the count is at its maximum.\<close>

definition enter_refused :: "u64 \<Rightarrow> bool" where
  "enter_refused st \<longleftrightarrow>
     st AND kShutdownAdmissionClosingBit \<noteq> 0 \<or>
     st AND kShutdownAdmissionCountMask = kShutdownAdmissionCountMask"

text \<open>What \<open>LeaveShutdownAdmission\<close> and \<open>CloseShutdownAdmissions\<close> test on the previous value.\<close>

definition leave_drains :: "u64 \<Rightarrow> bool" where
  "leave_drains previous \<longleftrightarrow>
     previous AND kShutdownAdmissionCountMask = 1 \<and> previous AND kShutdownAdmissionClosingBit \<noteq> 0"

definition close_drains :: "u64 \<Rightarrow> bool" where
  "close_drains previous \<longleftrightarrow> previous AND kShutdownAdmissionCountMask = 0"

section \<open>Threads over the gate\<close>

text \<open>
  Where a thread is. \<open>Loaded st\<close> is the head of the loop of \<open>TryEnterShutdownAdmission\<close> with its local
  \<open>state\<close>; \<open>Admitted\<close> holds a live \<open>ShutdownAdmission\<close> whose \<open>admitted_\<close> is true, \<open>Refused\<close> one whose
  \<open>admitted_\<close> is false; \<open>Left\<close> and \<open>Closed\<close> carry the value fetched by the atomic of the destructor
  and of \<open>CloseShutdownAdmissions\<close>, before it is tested; \<open>Waited\<close> has returned from
  \<open>WaitForShutdownAdmissions\<close>.
\<close>

datatype adm_pc =
    Outside
  | Loaded u64
  | Admitted
  | Refused
  | Left u64
  | Closed u64
  | Waited

record adm_state =
  shutdown_admission_gate :: u64
  shutdown_admissions_drained :: bool
  adm_pcs :: "thread_id \<Rightarrow> adm_pc"

definition adm_init :: "adm_state \<Rightarrow> bool" where
  "adm_init s \<longleftrightarrow> shutdown_admission_gate s = 0 \<and> \<not> shutdown_admissions_drained s \<and>
     (\<forall>t. adm_pcs s t = Outside)"

definition set_adm_pc :: "thread_id \<Rightarrow> adm_pc \<Rightarrow> adm_state \<Rightarrow> adm_state" where
  "set_adm_pc t p s = s\<lparr>adm_pcs := (adm_pcs s)(t := p)\<rparr>"

text \<open>
  The atomic accesses. A weak compare-exchange that fails, spuriously or not, reloads \<open>state\<close> with the
  gate's current value. The lock-protected store of the drained flag is one step.
\<close>

definition try_enter_load :: "thread_id \<Rightarrow> adm_state \<Rightarrow> adm_state" where
  "try_enter_load t s = set_adm_pc t (Loaded (shutdown_admission_gate s)) s"

definition try_enter_cas :: "thread_id \<Rightarrow> u64 \<Rightarrow> adm_state \<Rightarrow> adm_state" where
  "try_enter_cas t st s =
     (if shutdown_admission_gate s = st
      then set_adm_pc t Admitted (s\<lparr>shutdown_admission_gate := st + 1\<rparr>)
      else set_adm_pc t (Loaded (shutdown_admission_gate s)) s)"

definition leave_fetch_sub :: "thread_id \<Rightarrow> adm_state \<Rightarrow> adm_state" where
  "leave_fetch_sub t s =
     set_adm_pc t (Left (shutdown_admission_gate s))
       (s\<lparr>shutdown_admission_gate := shutdown_admission_gate s - 1\<rparr>)"

definition leave_finish :: "thread_id \<Rightarrow> u64 \<Rightarrow> adm_state \<Rightarrow> adm_state" where
  "leave_finish t previous s =
     set_adm_pc t Outside
       (if leave_drains previous then s\<lparr>shutdown_admissions_drained := True\<rparr> else s)"

definition close_fetch_or :: "thread_id \<Rightarrow> adm_state \<Rightarrow> adm_state" where
  "close_fetch_or t s =
     set_adm_pc t (Closed (shutdown_admission_gate s))
       (s\<lparr>shutdown_admission_gate :=
          shutdown_admission_gate s OR kShutdownAdmissionClosingBit\<rparr>)"

definition close_finish :: "thread_id \<Rightarrow> u64 \<Rightarrow> adm_state \<Rightarrow> adm_state" where
  "close_finish t previous s =
     set_adm_pc t Outside
       (if close_drains previous then s\<lparr>shutdown_admissions_drained := True\<rparr> else s)"

inductive adm_step :: "adm_state \<Rightarrow> adm_state \<Rightarrow> bool" where
  enter_load: "adm_pcs s t = Outside \<Longrightarrow> adm_step s (try_enter_load t s)"
| enter_refuse: "adm_pcs s t = Loaded st \<Longrightarrow> enter_refused st \<Longrightarrow> adm_step s (set_adm_pc t Refused s)"
| enter_cas: "adm_pcs s t = Loaded st \<Longrightarrow> \<not> enter_refused st \<Longrightarrow> adm_step s (try_enter_cas t st s)"
| enter_cas_spurious: "adm_pcs s t = Loaded st \<Longrightarrow> \<not> enter_refused st \<Longrightarrow> adm_step s (try_enter_load t s)"
| leave_admitted: "adm_pcs s t = Admitted \<Longrightarrow> adm_step s (leave_fetch_sub t s)"
| leave_refused: "adm_pcs s t = Refused \<Longrightarrow> adm_step s (set_adm_pc t Outside s)"
| leave_test: "adm_pcs s t = Left previous \<Longrightarrow> adm_step s (leave_finish t previous s)"
| close_gate: "adm_pcs s t = Outside \<Longrightarrow> adm_step s (close_fetch_or t s)"
| close_test: "adm_pcs s t = Closed previous \<Longrightarrow> adm_step s (close_finish t previous s)"
| wait_returns: "adm_pcs s t = Outside \<Longrightarrow> shutdown_admissions_drained s \<Longrightarrow>
     adm_step s (set_adm_pc t Waited s)"

abbreviation adm_reach :: "adm_state \<Rightarrow> bool" where
  "adm_reach \<equiv> reach adm_init adm_step"

text \<open>The flag and the count that a gate word stands for.\<close>

definition gate_top :: "u64 \<Rightarrow> bool" where
  "gate_top g \<longleftrightarrow> 2 ^ 63 \<le> unat g"

definition gate_low :: "u64 \<Rightarrow> nat" where
  "gate_low g = unat g mod 2 ^ 63"

abbreviation gate_closing :: "adm_state \<Rightarrow> bool" where
  "gate_closing s \<equiv> gate_top (shutdown_admission_gate s)"

abbreviation gate_count :: "adm_state \<Rightarrow> nat" where
  "gate_count s \<equiv> gate_low (shutdown_admission_gate s)"

definition admitted_threads :: "adm_state \<Rightarrow> thread_id set" where
  "admitted_threads s = {t. adm_pcs s t = Admitted}"

text \<open>A thread that holds the obligation to publish the drained flag.\<close>

fun pc_drains :: "adm_pc \<Rightarrow> bool" where
  "pc_drains (Left previous) = leave_drains previous"
| "pc_drains (Closed previous) = close_drains previous"
| "pc_drains _ = False"

definition drain_pending :: "adm_state \<Rightarrow> bool" where
  "drain_pending s \<longleftrightarrow> (\<exists>t. pc_drains (adm_pcs s t))"

section \<open>The gate word as a flag and a count\<close>

lemma mask_unat: "unat kShutdownAdmissionCountMask = 2 ^ 63 - 1"
  by (simp add: kShutdownAdmissionCountMask_def kShutdownAdmissionClosingBit_def)

lemmas gate_word =
  u64_and_top [folded kShutdownAdmissionClosingBit_def]
  u64_and_low [folded kShutdownAdmissionClosingBit_def, folded kShutdownAdmissionCountMask_def]
  u64_or_top [folded kShutdownAdmissionClosingBit_def]

lemma gate_low_eq: "g AND kShutdownAdmissionCountMask = w \<longleftrightarrow> gate_low g = unat w"
  by (simp only: word_eq_unat_iff gate_word gate_low_def)

lemma gate_top_eq: "g AND kShutdownAdmissionClosingBit \<noteq> 0 \<longleftrightarrow> gate_top g"
  by (simp only: gate_word gate_top_def)

lemma leave_drains_iff: "leave_drains g \<longleftrightarrow> gate_top g \<and> gate_low g = 1"
  by (auto simp only: leave_drains_def gate_low_eq gate_top_eq unat_1)

lemma close_drains_iff: "close_drains g \<longleftrightarrow> gate_low g = 0"
  by (simp only: close_drains_def gate_low_eq unat_0)

lemma enter_refused_iff: "enter_refused g \<longleftrightarrow> gate_top g \<or> gate_low g = 2 ^ 63 - 1"
  by (simp only: enter_refused_def gate_low_eq gate_top_eq mask_unat)

lemma gate_low_bound: "gate_low g < 2 ^ 63"
  by (simp add: gate_low_def)

lemma gate_split: "unat g = (if gate_top g then 2 ^ 63 else 0) + gate_low g"
proof (cases "gate_top g")
  case True
  then show ?thesis using u64_bound [of g] by (auto simp: gate_top_def gate_low_def mod_if)
qed (simp add: gate_top_def gate_low_def)

lemma gate_of_split:
  assumes "unat h = (if b then 2 ^ 63 else 0) + n" "n < 2 ^ 63"
  shows "gate_top h = b" "gate_low h = n"
  using assms by (auto simp: gate_top_def gate_low_def split: if_splits)

lemma gate_or: "gate_top (g OR kShutdownAdmissionClosingBit)"
  "gate_low (g OR kShutdownAdmissionClosingBit) = gate_low g"
proof -
  have "unat (g OR kShutdownAdmissionClosingBit) = (if True then 2 ^ 63 else 0) + gate_low g"
    by (simp only: gate_word gate_low_def if_True add.commute)
  from gate_of_split [OF this gate_low_bound]
  show "gate_top (g OR kShutdownAdmissionClosingBit)"
    "gate_low (g OR kShutdownAdmissionClosingBit) = gate_low g" by auto
qed

lemma gate_sub_one:
  assumes "gate_low g \<noteq> 0"
  shows "gate_top (g - 1) = gate_top g" "gate_low (g - 1) = gate_low g - 1"
proof -
  have "g \<noteq> 0" using assms by (auto simp: gate_low_def)
  then have "unat (g - 1) = (if gate_top g then 2 ^ 63 else 0) + (gate_low g - 1)"
    using assms gate_split [of g] by (simp add: unat_minus_one')
  moreover have "gate_low g - 1 < 2 ^ 63" using gate_low_bound [of g] by simp
  ultimately show "gate_top (g - 1) = gate_top g" "gate_low (g - 1) = gate_low g - 1"
    by (rule gate_of_split)+
qed

lemma gate_add_one:
  assumes "\<not> enter_refused g"
  shows "\<not> gate_top g" "\<not> gate_top (g + 1)" "gate_low (g + 1) = gate_low g + 1"
proof -
  show top: "\<not> gate_top g" using assms by (simp add: enter_refused_iff)
  have low: "gate_low g + 1 < 2 ^ 63"
    using assms gate_low_bound [of g] by (simp add: enter_refused_iff)
  with top have "unat (g + 1) = (if False then 2 ^ 63 else 0) + (gate_low g + 1)"
    using gate_split [of g] by (subst unat_plus_one) simp_all
  from gate_of_split [OF this low]
  show "\<not> gate_top (g + 1)" "gate_low (g + 1) = gate_low g + 1" by auto
qed

section \<open>Counting\<close>

lemma set_adm_pc_simps [simp]:
  "shutdown_admission_gate (set_adm_pc t p s) = shutdown_admission_gate s"
  "shutdown_admissions_drained (set_adm_pc t p s) = shutdown_admissions_drained s"
  "adm_pcs (set_adm_pc t p s) = (adm_pcs s)(t := p)"
  by (simp_all add: set_adm_pc_def)

lemma admitted_threads_set [simp]:
  "admitted_threads (set_adm_pc t p s) =
     (if p = Admitted then insert t (admitted_threads s) else admitted_threads s - {t})"
  by (auto simp: admitted_threads_def)

lemma admitted_threads_frame [simp]:
  "admitted_threads (s\<lparr>shutdown_admission_gate := g\<rparr>) = admitted_threads s"
  "admitted_threads (s\<lparr>shutdown_admissions_drained := d\<rparr>) = admitted_threads s"
  by (simp_all add: admitted_threads_def)

lemma not_admitted [simp]: "adm_pcs s t = p \<Longrightarrow> p \<noteq> Admitted \<Longrightarrow> admitted_threads s - {t} = admitted_threads s"
  by (auto simp: admitted_threads_def)

lemmas adm_ops = try_enter_load_def try_enter_cas_def leave_fetch_sub_def leave_finish_def
  close_fetch_or_def close_finish_def

text \<open>The low bits of the gate count exactly the live admissions.\<close>

definition count_inv :: "adm_state \<Rightarrow> bool" where
  "count_inv s \<longleftrightarrow> finite (admitted_threads s) \<and> card (admitted_threads s) = gate_count s"

lemma count_inv_init: "adm_init s \<Longrightarrow> count_inv s"
  by (simp add: adm_init_def count_inv_def gate_low_def admitted_threads_def)

lemma admitted_pos: "count_inv s \<Longrightarrow> adm_pcs s t = Admitted \<Longrightarrow> gate_count s \<noteq> 0"
  using card_0_eq [of "admitted_threads s"] by (auto simp: count_inv_def admitted_threads_def)

lemma count_inv_step: "count_inv s \<Longrightarrow> adm_step s s' \<Longrightarrow> count_inv s'"
proof (erule adm_step.cases; clarify)
  fix t st
  assume inv: "count_inv s" and pc: "adm_pcs s t = Loaded st" and ok: "\<not> enter_refused st"
  have "t \<notin> admitted_threads s" using pc by (simp add: admitted_threads_def)
  with inv pc gate_add_one [OF ok] show "count_inv (try_enter_cas t st s)"
    by (simp add: adm_ops count_inv_def)
next
  fix t
  assume inv: "count_inv s" and pc: "adm_pcs s t = Admitted"
  then have "t \<in> admitted_threads s" by (simp add: admitted_threads_def)
  with inv admitted_pos [OF inv pc] show "count_inv (leave_fetch_sub t s)"
    by (simp add: adm_ops count_inv_def gate_sub_one)
next
  fix t
  assume "count_inv s" "adm_pcs s t = Outside"
  then show "count_inv (close_fetch_or t s)"
    by (simp add: adm_ops count_inv_def gate_or)
qed (simp_all add: adm_ops count_inv_def)

interpretation gate_counting: step_invariant adm_init adm_step count_inv
  by unfold_locales (rule count_inv_init count_inv_step; assumption)+

section \<open>Draining\<close>

text \<open>
  The drained flag is published, or some thread is about to publish it, exactly when the gate is
  closed and nobody is inside.
\<close>

definition closed_empty :: "adm_state \<Rightarrow> bool" where
  "closed_empty s \<longleftrightarrow> gate_closing s \<and> admitted_threads s = {}"

definition drain_inv :: "adm_state \<Rightarrow> bool" where
  "drain_inv s \<longleftrightarrow> count_inv s \<and>
     (shutdown_admissions_drained s \<or> drain_pending s \<longleftrightarrow> closed_empty s) \<and>
     (\<forall>t. adm_pcs s t = Waited \<longrightarrow> shutdown_admissions_drained s)"

lemma drain_pending_upd:
  "adm_pcs s' = (adm_pcs s)(t := p) \<Longrightarrow> \<not> pc_drains (adm_pcs s t) \<Longrightarrow>
     drain_pending s' \<longleftrightarrow> pc_drains p \<or> drain_pending s"
  by (auto simp: drain_pending_def)

lemma drain_pending_done:
  "adm_pcs s' = (adm_pcs s)(t := Outside) \<Longrightarrow> \<not> pc_drains (adm_pcs s t) \<Longrightarrow> drain_pending s' = drain_pending s"
  by (simp add: drain_pending_upd)

lemma closed_empty_step: "closed_empty s \<Longrightarrow> adm_step s s' \<Longrightarrow> closed_empty s'"
proof (erule adm_step.cases; clarify)
  fix t st
  assume "closed_empty s" "adm_pcs s t = Loaded st" "\<not> enter_refused st"
  then show "closed_empty (try_enter_cas t st s)"
    by (cases "shutdown_admission_gate s = st") (simp_all add: adm_ops closed_empty_def enter_refused_iff)
next
  fix t assume "closed_empty s" "adm_pcs s t = Admitted"
  then show "closed_empty (leave_fetch_sub t s)"
    by (auto simp: closed_empty_def admitted_threads_def)
next
  fix t assume "closed_empty s" "adm_pcs s t = Outside"
  then show "closed_empty (close_fetch_or t s)"
    by (simp add: adm_ops closed_empty_def gate_or)
qed (simp_all add: adm_ops closed_empty_def)

text \<open>A step that leaves the gate's flag, the admissions and the drained flag alone keeps the invariant.\<close>

lemma drain_inv_idle:
  assumes "drain_inv s" "count_inv s'"
    and "gate_closing s' = gate_closing s" "admitted_threads s' = admitted_threads s"
    and "shutdown_admissions_drained s' = shutdown_admissions_drained s"
    and "adm_pcs s' = (adm_pcs s)(t := p)" "\<not> pc_drains (adm_pcs s t)" "\<not> pc_drains p"
    and "p = Waited \<Longrightarrow> shutdown_admissions_drained s"
  shows "drain_inv s'"
  using assms drain_pending_upd [of s' s t p] by (auto simp: drain_inv_def closed_empty_def)

text \<open>A step that publishes the flag, or that has nothing to publish, after the fetched value is tested.\<close>

lemma drain_inv_finish:
  assumes "drain_inv s" "count_inv s'"
    and "s' = set_adm_pc t Outside (if pc_drains (adm_pcs s t) then s\<lparr>shutdown_admissions_drained := True\<rparr> else s)"
    and "adm_pcs s t \<noteq> Admitted"
  shows "drain_inv s'"
proof (cases "pc_drains (adm_pcs s t)")
  case True
  then have "drain_pending s" by (auto simp: drain_pending_def)
  with assms True show ?thesis by (auto simp: drain_inv_def closed_empty_def)
next
  case False
  with assms show ?thesis by (intro drain_inv_idle [of s s' t Outside]) auto
qed

lemma drain_inv_enter_cas:
  assumes inv: "drain_inv s" and pc: "adm_pcs s t = Loaded (shutdown_admission_gate s)"
    and ok: "\<not> enter_refused (shutdown_admission_gate s)"
  shows "drain_inv (try_enter_cas t (shutdown_admission_gate s) s)" (is "drain_inv ?s'")
proof -
  have "count_inv ?s'"
    using assms by (auto simp: drain_inv_def intro: count_inv_step adm_step.enter_cas)
  moreover have "drain_pending ?s' = drain_pending s"
    using pc by (subst drain_pending_upd [of _ s t Admitted]) (auto simp: adm_ops)
  moreover have "\<not> gate_closing s" "\<not> gate_closing ?s'"
    using gate_add_one [OF ok] by (simp_all add: adm_ops)
  moreover have "shutdown_admissions_drained ?s' = shutdown_admissions_drained s"
    "\<forall>t'. adm_pcs ?s' t' = Waited \<longrightarrow> adm_pcs s t' = Waited"
    by (simp_all add: adm_ops)
  ultimately show ?thesis
    using inv unfolding drain_inv_def closed_empty_def by blast
qed

lemma drain_inv_reload:
  assumes "drain_inv s" "adm_pcs s t = Loaded st \<or> adm_pcs s t = Outside" "count_inv (try_enter_load t s)"
  shows "drain_inv (try_enter_load t s)"
  using assms(1,3)
proof (rule drain_inv_idle)
  show "adm_pcs (try_enter_load t s) = (adm_pcs s)(t := Loaded (shutdown_admission_gate s))"
    by (simp add: adm_ops)
  show "admitted_threads (try_enter_load t s) = admitted_threads s"
    using assms(2) by (auto simp: adm_ops admitted_threads_def)
qed (use assms(2) in \<open>auto simp: adm_ops\<close>)

lemma drain_inv_enter:
  assumes "drain_inv s" "adm_pcs s t = Loaded st" "\<not> enter_refused st"
  shows "drain_inv (try_enter_cas t st s)"
proof (cases "shutdown_admission_gate s = st")
  case True
  from assms(2,3) have "drain_inv (try_enter_cas t (shutdown_admission_gate s) s)"
    unfolding True [symmetric] by (rule drain_inv_enter_cas [OF assms(1)])
  then show ?thesis by (simp only: True)
next
  case False
  have "count_inv (try_enter_cas t st s)"
    using assms by (auto simp: drain_inv_def intro: count_inv_step adm_step.enter_cas)
  moreover from False have "try_enter_cas t st s = try_enter_load t s" by (simp add: adm_ops)
  ultimately show ?thesis using drain_inv_reload assms by simp
qed

lemma drain_inv_leave:
  assumes inv: "drain_inv s" and pc: "adm_pcs s t = Admitted"
  shows "drain_inv (leave_fetch_sub t s)"
proof -
  let ?s' = "leave_fetch_sub t s" and ?g = "shutdown_admission_gate s"
  have count: "count_inv s" "count_inv ?s'"
    using assms by (auto simp: drain_inv_def intro: count_inv_step adm_step.leave_admitted)
  have t: "t \<in> admitted_threads s" using pc by (simp add: admitted_threads_def)
  have pos: "gate_low ?g \<noteq> 0" using count pc by (simp add: admitted_pos)
  have "card (admitted_threads ?s') = gate_low ?g - 1" "finite (admitted_threads ?s')"
    using count t by (simp_all add: adm_ops count_inv_def)
  then have "admitted_threads ?s' = {} \<longleftrightarrow> gate_low ?g = 1"
    using pos by (auto simp: card_eq_0_iff [symmetric])
  moreover have "gate_closing ?s' = gate_closing s"
    using gate_sub_one [OF pos] by (simp add: adm_ops)
  moreover have "drain_pending ?s' \<longleftrightarrow> leave_drains ?g \<or> drain_pending s"
    using pc by (subst drain_pending_upd [of _ s t "Left ?g"]) (auto simp: adm_ops)
  moreover have "shutdown_admissions_drained ?s' = shutdown_admissions_drained s"
    "\<forall>t'. adm_pcs ?s' t' = Waited \<longrightarrow> adm_pcs s t' = Waited"
    by (simp_all add: adm_ops)
  ultimately show ?thesis
    using inv count t by (auto simp: drain_inv_def closed_empty_def leave_drains_iff)
qed

lemma drain_inv_close:
  assumes inv: "drain_inv s" and pc: "adm_pcs s t = Outside"
  shows "drain_inv (close_fetch_or t s)"
proof -
  let ?s' = "close_fetch_or t s" and ?g = "shutdown_admission_gate s"
  have count: "count_inv s" "count_inv ?s'"
    using assms by (auto simp: drain_inv_def intro: count_inv_step adm_step.close_gate)
  have "drain_pending ?s' \<longleftrightarrow> close_drains ?g \<or> drain_pending s"
    using pc by (subst drain_pending_upd [of _ s t "Closed ?g"]) (auto simp: adm_ops)
  moreover have "close_drains ?g \<longleftrightarrow> admitted_threads s = {}"
    using count by (auto simp: close_drains_iff count_inv_def)
  moreover have "admitted_threads ?s' = admitted_threads s" "gate_closing ?s'"
    using pc by (simp_all add: adm_ops gate_or)
  ultimately show ?thesis
    using inv count pc by (auto simp: drain_inv_def closed_empty_def adm_ops)
qed

lemma drain_inv_init: "adm_init s \<Longrightarrow> drain_inv s"
  by (auto simp: drain_inv_def count_inv_init drain_pending_def closed_empty_def)
    (simp_all add: adm_init_def gate_top_def)

lemma drain_inv_step:
  assumes inv: "drain_inv s" and step: "adm_step s s'"
  shows "drain_inv s'"
proof -
  have count: "count_inv s'"
    using assms by (auto simp: drain_inv_def intro: count_inv_step)
  from step show ?thesis
  proof cases
    case (enter_load t)
    with inv count show ?thesis by (simp add: drain_inv_reload)
  next
    case (enter_cas_spurious t st)
    with inv count show ?thesis by (simp add: drain_inv_reload)
  next
    case (enter_refuse t st)
    with inv count show ?thesis
      by (intro drain_inv_idle [of s s' t Refused]) simp_all
  next
    case (leave_refused t)
    with inv count show ?thesis
      by (intro drain_inv_idle [of s s' t Outside]) simp_all
  next
    case (wait_returns t)
    with inv count show ?thesis
      by (intro drain_inv_idle [of s s' t Waited]) simp_all
  next
    case (leave_test t previous)
    with inv count show ?thesis
      by (intro drain_inv_finish [of s s' t]) (simp_all add: leave_finish_def)
  next
    case (close_test t previous)
    with inv count show ?thesis
      by (intro drain_inv_finish [of s s' t]) (simp_all add: close_finish_def)
  qed (use inv in \<open>simp_all add: drain_inv_enter drain_inv_leave drain_inv_close\<close>)
qed

interpretation gate_draining: step_invariant adm_init adm_step drain_inv
  by unfold_locales (rule drain_inv_init drain_inv_step; assumption)+

interpretation gate_closed: step_latch adm_step closed_empty
  by unfold_locales (rule closed_empty_step)

section \<open>Properties of the gate\<close>

text \<open>A run used by the witnesses: one admission, the gate closes, the admission leaves, a wait returns.\<close>

definition adm_zero :: adm_state where
  "adm_zero = \<lparr>shutdown_admission_gate = 0, shutdown_admissions_drained = False, adm_pcs = (\<lambda>_. Outside)\<rparr>"

definition adm_entered :: adm_state where
  "adm_entered = try_enter_cas 0 0 (try_enter_load 0 adm_zero)"

definition adm_closing :: adm_state where
  "adm_closing = close_finish 1 1 (close_fetch_or 1 adm_entered)"

definition adm_waited :: adm_state where
  "adm_waited = set_adm_pc 2 Waited
     (leave_finish 0 (kShutdownAdmissionClosingBit OR 1) (leave_fetch_sub 0 adm_closing))"

lemmas adm_run_defs = adm_zero_def adm_entered_def adm_closing_def adm_waited_def adm_ops set_adm_pc_def
  close_drains_def leave_drains_def enter_refused_def kShutdownAdmissionClosingBit_def
  kShutdownAdmissionCountMask_def

lemma adm_entered_reach: "adm_reach adm_entered"
proof -
  have "adm_reach adm_zero" by (rule reach_init) (simp add: adm_init_def adm_zero_def)
  then have "adm_reach (try_enter_load 0 adm_zero)"
    by (rule reach_step) (rule adm_step.enter_load, simp add: adm_zero_def)
  then show ?thesis unfolding adm_entered_def
    by (rule reach_step) (rule adm_step.enter_cas, simp_all add: adm_run_defs)
qed

lemma adm_closing_reach: "adm_reach adm_closing"
proof -
  have "adm_reach (close_fetch_or 1 adm_entered)"
    using adm_entered_reach by (rule reach_step) (rule adm_step.close_gate, simp add: adm_run_defs)
  then show ?thesis unfolding adm_closing_def
    by (rule reach_step) (rule adm_step.close_test, simp add: adm_run_defs)
qed

lemma adm_waited_reach: "adm_reach adm_waited"
proof -
  have "adm_reach (leave_fetch_sub 0 adm_closing)"
    using adm_closing_reach by (rule reach_step) (rule adm_step.leave_admitted, simp add: adm_run_defs)
  then have "adm_reach (leave_finish 0 (kShutdownAdmissionClosingBit OR 1) (leave_fetch_sub 0 adm_closing))"
    by (rule reach_step) (rule adm_step.leave_test, simp add: adm_run_defs)
  then show ?thesis unfolding adm_waited_def
    by (rule reach_step) (rule adm_step.wait_returns, simp_all add: adm_run_defs)
qed

text \<open>C33: once some thread has returned from \<open>WaitForShutdownAdmissions\<close>, no operation holds an
  admission, and none ever will, whatever the threads do afterwards.\<close>

theorem shutdown_wait_excludes_admissions:
  assumes "adm_reach s" and "adm_pcs s w = Waited" and "adm_step\<^sup>*\<^sup>* s s'"
  shows "admitted_threads s' = {}"
proof -
  have "drain_inv s" using assms(1) by (rule gate_draining.reach_inv)
  with assms(2) have "closed_empty s" by (auto simp: drain_inv_def)
  with assms(3) have "closed_empty s'" by (rule gate_closed.latch_forever)
  then show ?thesis by (simp add: closed_empty_def)
qed

theorem shutdown_wait_excludes_admissions_witness:
  "adm_reach adm_waited \<and> adm_pcs adm_waited 2 = Waited \<and> admitted_threads (try_enter_load 5 adm_waited) = {}"
proof -
  have w: "adm_pcs adm_waited 2 = Waited" by (simp add: adm_waited_def)
  have "adm_step adm_waited (try_enter_load 5 adm_waited)"
    by (rule adm_step.enter_load) (simp add: adm_run_defs)
  then have "adm_step\<^sup>*\<^sup>* adm_waited (try_enter_load 5 adm_waited)" by (rule r_into_rtranclp)
  from shutdown_wait_excludes_admissions [OF adm_waited_reach w this] adm_waited_reach w
  show ?thesis by simp
qed

text \<open>In every interleaving the low 63 bits of the gate are exactly the number of live admissions,
  so an increment never carries into the closing bit and a decrement never borrows from it.\<close>

theorem gate_counts_admissions:
  assumes "adm_reach s"
  shows "finite (admitted_threads s) \<and> card (admitted_threads s) = gate_count s \<and>
    unat (shutdown_admission_gate s) = (if gate_closing s then 2 ^ 63 else 0) + card (admitted_threads s)"
  using gate_counting.reach_inv [OF assms] gate_split [of "shutdown_admission_gate s"]
  by (simp add: count_inv_def)

theorem gate_counts_admissions_witness:
  "adm_reach adm_entered \<and> unat (shutdown_admission_gate adm_entered) = 1 \<and> card (admitted_threads adm_entered) = 1"
proof -
  have g: "unat (shutdown_admission_gate adm_entered) = 1" by (simp add: adm_run_defs)
  then have "\<not> gate_closing adm_entered" by (simp add: gate_top_def)
  with g gate_counts_admissions [OF adm_entered_reach] adm_entered_reach show ?thesis by simp
qed

text \<open>C34: no lost wake-up. In every reachable state the drained flag is set, or a thread that has yet to
  set it exists, exactly when the gate is closed and no admission is live; so a waiter cannot sleep
  forever on a closed, empty gate.\<close>

theorem closed_gate_drains:
  assumes "adm_reach s"
  shows "shutdown_admissions_drained s \<or> drain_pending s \<longleftrightarrow> gate_closing s \<and> admitted_threads s = {}"
  using gate_draining.reach_inv [OF assms] by (simp add: drain_inv_def closed_empty_def)

theorem closed_gate_drains_witness:
  "adm_reach adm_closing \<and> \<not> shutdown_admissions_drained adm_closing \<and> \<not> drain_pending adm_closing"
proof -
  have "0 \<in> admitted_threads adm_closing" by (simp add: admitted_threads_def adm_run_defs)
  with closed_gate_drains [OF adm_closing_reach] adm_closing_reach show ?thesis by auto
qed

end
