(* ===== verification/Allocation_Sampler.thy ===== *)
theory Allocation_Sampler
  imports Prelude
begin

text \<open>
  \<open>AllocationSubSampler\<close> of \<open>continuous_profiler.cpp\<close>: the rate limiter between the runtime's
  AllocationTick events and the allocation samples that are captured. Clocks and the die roll are
  inputs of each call: the system clock in milliseconds, the steady clock in nanoseconds, and the draw
  of \<open>std::uniform_int_distribution\<close> as a function of its bounds. The theorems bound the samples of a
  cycle by the target over any sequence of events, give the spacing of samples during startup, and show
  that sampling loses nothing when the last cycle was under its target.
\<close>

section \<open>State and operations\<close>

definition kStartupAllocationPacedCycles :: u32 where
  "kStartupAllocationPacedCycles = 10"

record sub_sampler =
  targetPerCycle :: u32
  secondsPerCycle :: u32
  seenThisCycle :: u32
  sampledThisCycle :: u32
  seenLastCycle :: u32
  startupCyclesRemaining :: u32
  startupNextSampleAllowedAt :: int
  nextCycleStartMillis :: int

record clocks =
  system_now :: int
  steady_now :: int

definition AllocationSubSampler :: "u32 \<Rightarrow> u32 \<Rightarrow> clocks \<Rightarrow> sub_sampler" where
  "AllocationSubSampler target seconds c =
     \<lparr>targetPerCycle = target, secondsPerCycle = seconds, seenThisCycle = 0, sampledThisCycle = 0,
      seenLastCycle = 0, startupCyclesRemaining = kStartupAllocationPacedCycles,
      startupNextSampleAllowedAt = steady_now c, nextCycleStartMillis = system_now c\<rparr>"

definition SetTargetPerCycle :: "u32 \<Rightarrow> clocks \<Rightarrow> sub_sampler \<Rightarrow> sub_sampler" where
  "SetTargetPerCycle target c s =
     (if targetPerCycle s = target then s
      else (if target \<noteq> 0
            then s\<lparr>seenThisCycle := 0, sampledThisCycle := 0, seenLastCycle := 0,
                   startupCyclesRemaining := kStartupAllocationPacedCycles,
                   startupNextSampleAllowedAt := steady_now c,
                   nextCycleStartMillis := system_now c + 1000 * uint (secondsPerCycle s)\<rparr>
            else s)\<lparr>targetPerCycle := target\<rparr>)"

definition TargetPerCycle :: "sub_sampler \<Rightarrow> u32" where
  "TargetPerCycle s = targetPerCycle s"

definition AdvanceCycle :: "int \<Rightarrow> sub_sampler \<Rightarrow> sub_sampler" where
  "AdvanceCycle now s =
     s\<lparr>nextCycleStartMillis := now + 1000 * uint (secondsPerCycle s),
       seenLastCycle := seenThisCycle s, seenThisCycle := 0, sampledThisCycle := 0,
       startupCyclesRemaining :=
         (if startupCyclesRemaining s > 0 then startupCyclesRemaining s - 1
          else startupCyclesRemaining s)\<rparr>"

text \<open>The spacing in nanoseconds: a millisecond duration divided by the target, truncated.\<close>

definition minimumSampleSpacing :: "sub_sampler \<Rightarrow> int" where
  "minimumSampleSpacing s = 1000000 * (1000 * uint (secondsPerCycle s) div uint (targetPerCycle s))"

text \<open>The part of \<open>ShouldSample\<close> that rolls the cycle over and counts the event.\<close>

definition see_event :: "clocks \<Rightarrow> sub_sampler \<Rightarrow> sub_sampler" where
  "see_event c s =
     (let s1 = (if system_now c > nextCycleStartMillis s then AdvanceCycle (system_now c) s else s)
      in s1\<lparr>seenThisCycle := seenThisCycle s1 + 1\<rparr>)"

definition ShouldSample :: "(u32 \<Rightarrow> u32 \<Rightarrow> u32) \<Rightarrow> clocks \<Rightarrow> sub_sampler \<Rightarrow> bool \<times> sub_sampler" where
  "ShouldSample rando c s =
     (if targetPerCycle s = 0 then (False, s)
      else
        let s2 = see_event c s
        in if sampledThisCycle s2 \<ge> targetPerCycle s then (False, s2)
           else if startupCyclesRemaining s2 > 0 \<and> steady_now c < startupNextSampleAllowedAt s2
           then (False, s2)
           else if rando 1 (max (seenLastCycle s2) 1) \<le> targetPerCycle s
           then (True,
             (if startupCyclesRemaining s2 > 0
              then s2\<lparr>sampledThisCycle := sampledThisCycle s2 + 1,
                      startupNextSampleAllowedAt := steady_now c + minimumSampleSpacing s2\<rparr>
              else s2\<lparr>sampledThisCycle := sampledThisCycle s2 + 1\<rparr>))
           else (False, s2))"

text \<open>An AllocationTick: the draw and the clock readings of its call.\<close>

type_synonym tick = "(u32 \<Rightarrow> u32 \<Rightarrow> u32) \<times> clocks"

fun run_ticks :: "sub_sampler \<Rightarrow> tick list \<Rightarrow> bool list \<times> sub_sampler" where
  "run_ticks s [] = ([], s)"
| "run_ticks s ((rando, c) # ts) =
     (let (b, s1) = ShouldSample rando c s; (bs, s2) = run_ticks s1 ts in (b # bs, s2))"

section \<open>The per-cycle bound\<close>

definition sampler_ok :: "sub_sampler \<Rightarrow> bool" where
  "sampler_ok s \<longleftrightarrow> targetPerCycle s \<noteq> 0 \<longrightarrow> sampledThisCycle s \<le> targetPerCycle s"

lemma sampler_ok_new [simp]: "sampler_ok (AllocationSubSampler target seconds c)"
  by (simp add: sampler_ok_def AllocationSubSampler_def)

lemma sampler_ok_SetTargetPerCycle [simp]: "sampler_ok s \<Longrightarrow> sampler_ok (SetTargetPerCycle target c s)"
  by (auto simp: sampler_ok_def SetTargetPerCycle_def)

lemma AdvanceCycle_simps [simp]:
  "targetPerCycle (AdvanceCycle now s) = targetPerCycle s"
  "secondsPerCycle (AdvanceCycle now s) = secondsPerCycle s"
  "sampledThisCycle (AdvanceCycle now s) = 0"
  by (simp_all add: AdvanceCycle_def)

lemma unat_inc_below:
  assumes "(x :: u32) < y" shows "unat (x + 1) = unat x + 1"
proof -
  have "unat y < 2 ^ 32" using unsigned_less [of y, where 'a = nat] by simp
  with assms have "unat x + 1 < 2 ^ LENGTH(32)" by (simp add: word_less_nat_alt)
  then show ?thesis by (rule unat_plus_one)
qed

lemma inc_below_le: "(x :: u32) < y \<Longrightarrow> x + 1 \<le> y"
  by (simp add: word_le_nat_alt unat_inc_below) (simp add: word_less_nat_alt)

lemma see_event_simps [simp]:
  "targetPerCycle (see_event c s) = targetPerCycle s"
  "secondsPerCycle (see_event c s) = secondsPerCycle s"
  "sampledThisCycle (see_event c s) =
     (if system_now c > nextCycleStartMillis s then 0 else sampledThisCycle s)"
  "system_now c \<le> nextCycleStartMillis s \<Longrightarrow> nextCycleStartMillis (see_event c s) = nextCycleStartMillis s"
  by (simp_all add: see_event_def Let_def)

lemma ShouldSample_target [simp]:
  "targetPerCycle (snd (ShouldSample rando c s)) = targetPerCycle s"
  "secondsPerCycle (snd (ShouldSample rando c s)) = secondsPerCycle s"
  by (simp_all add: ShouldSample_def Let_def)

lemma ShouldSample_sampled:
  "sampledThisCycle (snd (ShouldSample rando c s)) =
     (if targetPerCycle s = 0 then sampledThisCycle s
      else sampledThisCycle (see_event c s) + (if fst (ShouldSample rando c s) then 1 else 0))"
  by (simp add: ShouldSample_def Let_def)

lemma ShouldSample_accepts:
  "fst (ShouldSample rando c s) \<Longrightarrow> targetPerCycle s \<noteq> 0 \<and> sampledThisCycle (see_event c s) < targetPerCycle s"
  by (auto simp: ShouldSample_def Let_def not_le split: if_splits)

lemma sampler_ok_ShouldSample:
  assumes "sampler_ok s" shows "sampler_ok (snd (ShouldSample rando c s))"
proof (cases "fst (ShouldSample rando c s)")
  case True
  from ShouldSample_accepts [OF this] True show ?thesis
    by (simp add: sampler_ok_def ShouldSample_sampled inc_below_le del: see_event_simps(3))
next
  case False
  with assms show ?thesis by (simp add: sampler_ok_def ShouldSample_sampled)
qed

text \<open>Without a new cycle, the count of accepted samples is exactly the growth of \<open>sampledThisCycle\<close>.\<close>

lemma ShouldSample_counts:
  assumes "system_now c \<le> nextCycleStartMillis s"
  shows "unat (sampledThisCycle (snd (ShouldSample rando c s))) =
           unat (sampledThisCycle s) + (if fst (ShouldSample rando c s) then 1 else 0)"
    and "nextCycleStartMillis (snd (ShouldSample rando c s)) = nextCycleStartMillis s"
proof -
  show "unat (sampledThisCycle (snd (ShouldSample rando c s))) =
           unat (sampledThisCycle s) + (if fst (ShouldSample rando c s) then 1 else 0)"
    using assms ShouldSample_accepts [of rando c s] by (auto simp: ShouldSample_sampled unat_inc_below)
  show "nextCycleStartMillis (snd (ShouldSample rando c s)) = nextCycleStartMillis s"
    using assms by (simp add: ShouldSample_def Let_def)
qed

lemma run_ticks_counts:
  assumes "\<forall>(rando, c) \<in> set ts. system_now c \<le> nextCycleStartMillis s"
  shows "unat (sampledThisCycle (snd (run_ticks s ts))) =
           unat (sampledThisCycle s) + length (filter id (fst (run_ticks s ts)))"
  using assms
proof (induction ts arbitrary: s)
  case (Cons t ts)
  obtain rando c where t: "t = (rando, c)" by (cases t)
  let ?r = "ShouldSample rando c s"
  from Cons.prems t have now: "system_now c \<le> nextCycleStartMillis s" by simp
  then have "nextCycleStartMillis (snd ?r) = nextCycleStartMillis s" by (rule ShouldSample_counts)
  with Cons.prems t have "\<forall>(rando, c) \<in> set ts. system_now c \<le> nextCycleStartMillis (snd ?r)" by simp
  from Cons.IH [OF this] ShouldSample_counts(1) [OF now, of rando] t show ?case
    by (simp add: case_prod_beta)
qed simp

lemma run_ticks_Cons:
  "run_ticks s (t # ts) =
     (let r = ShouldSample (fst t) (snd t) s; q = run_ticks (snd r) ts in (fst r # fst q, snd q))"
  by (cases t) (simp add: case_prod_beta Let_def)

lemma run_ticks_ok:
  "sampler_ok s \<Longrightarrow> sampler_ok (snd (run_ticks s ts)) \<and> targetPerCycle (snd (run_ticks s ts)) = targetPerCycle s"
  by (induction ts arbitrary: s) (simp_all add: run_ticks_Cons Let_def sampler_ok_ShouldSample del: run_ticks.simps(2))

lemma run_ticks_off: "targetPerCycle s = 0 \<Longrightarrow> run_ticks s ts = (replicate (length ts) False, s)"
  by (induction ts) (simp_all add: run_ticks_Cons ShouldSample_def del: run_ticks.simps(2))

section \<open>Properties of the rate limiter\<close>

text \<open>Within one cycle, however many allocation ticks arrive and whatever is drawn, at most
  \<open>targetPerCycle\<close> of them are accepted; a zero target accepts none.\<close>

theorem samples_per_cycle_bounded:
  assumes "sampler_ok s" and "\<forall>(rando, c) \<in> set ts. system_now c \<le> nextCycleStartMillis s"
  shows "length (filter id (fst (run_ticks s ts))) \<le> unat (targetPerCycle s)"
proof (cases "targetPerCycle s = 0")
  case True
  then show ?thesis by (simp add: run_ticks_off)
next
  case False
  with run_ticks_ok [OF assms(1), of ts]
  have "unat (sampledThisCycle (snd (run_ticks s ts))) \<le> unat (targetPerCycle s)"
    by (auto simp: sampler_ok_def word_le_nat_alt)
  with run_ticks_counts [OF assms(2)] show ?thesis by simp
qed

definition tick_at :: "int \<Rightarrow> tick" where
  "tick_at n = ((\<lambda>a b. a), \<lparr>system_now = 0, steady_now = n\<rparr>)"

theorem samples_per_cycle_bounded_witness:
  "fst (run_ticks (AllocationSubSampler 2 60 (snd (tick_at 0)))
      [tick_at 0, tick_at 1, tick_at 30000000000, tick_at 70000000000])
     = [True, False, True, False] \<and> length (filter id [True, False, True, False]) \<le> unat (2 :: u32)"
proof -
  let ?s = "AllocationSubSampler 2 60 (snd (tick_at 0))"
  let ?ts = "[tick_at 0, tick_at 1, tick_at 30000000000, tick_at 70000000000]"
  have run: "fst (run_ticks ?s ?ts) = [True, False, True, False]" by code_simp
  have "\<forall>(rando, c) \<in> set ?ts. system_now c \<le> nextCycleStartMillis ?s"
    by (simp add: tick_at_def AllocationSubSampler_def)
  from samples_per_cycle_bounded [OF sampler_ok_new this] run show ?thesis
    by (simp add: AllocationSubSampler_def)
qed

text \<open>During the startup cycles an accepted sample closes the sampler for
  \<open>1000 * secondsPerCycle / targetPerCycle\<close> milliseconds of steady clock: no tick of the same cycle
  before that is accepted.\<close>

theorem startup_samples_are_spaced:
  assumes accepted: "ShouldSample rando c s = (True, s')"
    and startup: "startupCyclesRemaining s' > 0"
    and same_cycle: "system_now c' \<le> nextCycleStartMillis s'"
    and early: "steady_now c' < steady_now c + minimumSampleSpacing s"
  shows "\<not> fst (ShouldSample rando' c' s')"
proof -
  have "startupNextSampleAllowedAt s' = steady_now c + minimumSampleSpacing s"
    using accepted startup
    by (auto simp: ShouldSample_def Let_def minimumSampleSpacing_def split: if_splits)
  moreover have "startupCyclesRemaining (see_event c' s') = startupCyclesRemaining s'"
    "startupNextSampleAllowedAt (see_event c' s') = startupNextSampleAllowedAt s'"
    using same_cycle by (simp_all add: see_event_def)
  ultimately show ?thesis using startup early by (simp add: ShouldSample_def Let_def)
qed

theorem startup_samples_are_spaced_witness:
  "fst (ShouldSample (\<lambda>a b. a) (snd (tick_at 0)) (AllocationSubSampler 2 60 (snd (tick_at 0)))) \<and>
   \<not> fst (ShouldSample (\<lambda>a b. b) (snd (tick_at 29999999999))
       (snd (ShouldSample (\<lambda>a b. a) (snd (tick_at 0)) (AllocationSubSampler 2 60 (snd (tick_at 0))))))"
proof -
  let ?s = "AllocationSubSampler 2 60 (snd (tick_at 0))"
  let ?r = "ShouldSample (\<lambda>a b. a) (snd (tick_at 0)) ?s"
  have r: "?r = (True, snd ?r)" by code_simp
  have "startupCyclesRemaining (snd ?r) > 0" by code_simp
  moreover have "system_now (snd (tick_at 29999999999)) \<le> nextCycleStartMillis (snd ?r)" by code_simp
  moreover have "steady_now (snd (tick_at 29999999999)) < steady_now (snd (tick_at 0)) + minimumSampleSpacing ?s"
    by (simp add: tick_at_def minimumSampleSpacing_def AllocationSubSampler_def)
  ultimately have "\<not> fst (ShouldSample (\<lambda>a b. b) (snd (tick_at 29999999999)) (snd ?r))"
    by (rule startup_samples_are_spaced [OF r])
  with r show ?thesis by (metis fst_conv)
qed

text \<open>After startup, when the last cycle saw no more events than the target, every tick is
  accepted until the target is reached: the limiter drops nothing it need not drop.\<close>

theorem quiet_cycles_sample_everything:
  assumes "targetPerCycle s \<noteq> 0" "startupCyclesRemaining s = 0"
    and "system_now c \<le> nextCycleStartMillis s"
    and "sampledThisCycle s < targetPerCycle s" "seenLastCycle s \<le> targetPerCycle s"
    and draw: "\<And>a b. a \<le> b \<Longrightarrow> a \<le> rando a b \<and> rando a b \<le> b"
  shows "fst (ShouldSample rando c s)"
proof -
  have "(1 :: u32) \<le> targetPerCycle s"
    using assms(1) by (simp add: word_le_nat_alt unat_gt_0 Suc_le_eq)
  then have "max (seenLastCycle s) 1 \<le> targetPerCycle s" using assms(5) by simp
  moreover have "rando 1 (max (seenLastCycle s) 1) \<le> max (seenLastCycle s) 1" using draw by simp
  ultimately have "rando 1 (max (seenLastCycle s) 1) \<le> targetPerCycle s" by (rule order_trans [rotated])
  with assms(1-4) show ?thesis by (simp add: ShouldSample_def see_event_def Let_def)
qed

definition quiet_sampler :: sub_sampler where
  "quiet_sampler = (AllocationSubSampler 100 60 \<lparr>system_now = 5, steady_now = 5\<rparr>)
     \<lparr>startupCyclesRemaining := 0, seenLastCycle := 40, sampledThisCycle := 99\<rparr>"

theorem quiet_cycles_sample_everything_witness:
  "fst (ShouldSample (\<lambda>a b. b) \<lparr>system_now = 5, steady_now = 9\<rparr> quiet_sampler)"
  by (rule quiet_cycles_sample_everything) (simp_all add: quiet_sampler_def AllocationSubSampler_def)

end
