(* ===== verification/Sampler_Control.thy ===== *)
theory Sampler_Control
  imports Allocation_Sampler
begin

text \<open>
  The control plane of \<open>ContinuousProfiler\<close>: the configuration mailbox between the controller and the
  sampling worker, the worker's cohort schedule, the start-up handshake of the worker, the EventPipe
  session of the allocation branch and the terminal shutdown. Results of CLR calls, of thread creation
  and of allocation are inputs. The theorems: the schedule samples every thread exactly once per CPU
  interval, the worker runs each cohort under the configuration that was current when its wait ended,
  and shutdown leaves no running worker and a closed allocation branch.
\<close>

section \<open>The worker's configuration\<close>

record thread_sampling_config =
  cpuSamplingInterval :: u32
  selectiveSamplingInterval :: u32
  config_version :: u64

definition CpuEnabled :: "thread_sampling_config \<Rightarrow> bool" where
  "CpuEnabled cfg \<longleftrightarrow> cpuSamplingInterval cfg \<noteq> 0"

definition SelectiveEnabled :: "thread_sampling_config \<Rightarrow> bool" where
  "SelectiveEnabled cfg \<longleftrightarrow> selectiveSamplingInterval cfg \<noteq> 0"

definition IsEnabled :: "thread_sampling_config \<Rightarrow> bool" where
  "IsEnabled cfg \<longleftrightarrow> CpuEnabled cfg \<or> SelectiveEnabled cfg"

definition BothEnabled :: "thread_sampling_config \<Rightarrow> bool" where
  "BothEnabled cfg \<longleftrightarrow> CpuEnabled cfg \<and> SelectiveEnabled cfg"

definition SchedulingIntervalMilliseconds :: "thread_sampling_config \<Rightarrow> u32" where
  "SchedulingIntervalMilliseconds cfg =
     (if SelectiveEnabled cfg then selectiveSamplingInterval cfg else cpuSamplingInterval cfg)"

lemmas config_flags = CpuEnabled_def SelectiveEnabled_def IsEnabled_def BothEnabled_def

datatype SamplingType = Continuous | SelectedThreads

definition GetNextSamplingType :: "thread_sampling_config \<Rightarrow> u32 \<Rightarrow> SamplingType" where
  "GetNextSamplingType cfg iteration =
     (if \<not> SelectiveEnabled cfg then Continuous
      else if \<not> CpuEnabled cfg then SelectedThreads
      else if iteration \<noteq> cpuSamplingInterval cfg div selectiveSamplingInterval cfg then SelectedThreads
      else Continuous)"

definition ShouldTrackIterations :: "thread_sampling_config \<Rightarrow> bool" where
  "ShouldTrackIterations cfg = BothEnabled cfg"

text \<open>
  One pass of the worker loop after a wait that admitted a cohort: the kind of the cohort and the
  iteration counter for the next one.
\<close>

definition next_cohort :: "u64 \<Rightarrow> thread_sampling_config \<Rightarrow> u32 \<Rightarrow> SamplingType \<times> u32" where
  "next_cohort previousConfigurationVersion cfg iteration =
     (let i0 = (if config_version cfg \<noteq> previousConfigurationVersion then 0 else iteration);
          i1 = (if ShouldTrackIterations cfg then i0 + 1 else 0);
          samplingType = GetNextSamplingType cfg i1;
          i2 = (if samplingType = Continuous \<and> ShouldTrackIterations cfg then 0 else i1)
      in (samplingType, i2))"

text \<open>A run of \<open>n\<close> cohorts under one configuration.\<close>

fun cohorts :: "nat \<Rightarrow> thread_sampling_config \<Rightarrow> u32 \<Rightarrow> SamplingType list" where
  "cohorts 0 cfg i = []"
| "cohorts (Suc n) cfg i =
     (let (k, i') = next_cohort (config_version cfg) cfg i in k # cohorts n cfg i')"

section \<open>The mailbox wait\<close>

text \<open>What the worker sees of the shared state when it holds the mutex.\<close>

record mailbox_view =
  view_shutdown :: bool
  view_desired :: thread_sampling_config
  view_steady_now :: int

text \<open>A wait ends a sleep by a notification (possibly spurious) or by its timeout.\<close>

datatype wait_event = Notified mailbox_view | TimedOut mailbox_view

definition shouldWake :: "thread_sampling_config \<Rightarrow> mailbox_view \<Rightarrow> bool" where
  "shouldWake cfg v \<longleftrightarrow> view_shutdown v \<or> config_version cfg \<noteq> config_version (view_desired v)"

definition adopt_desired :: "mailbox_view \<Rightarrow> thread_sampling_config \<times> int \<Rightarrow> thread_sampling_config \<times> int" where
  "adopt_desired v x = (case x of (cfg, nextScan) \<Rightarrow>
     if config_version cfg \<noteq> config_version (view_desired v)
     then (view_desired v,
           if \<not> SelectiveEnabled cfg \<and> SelectiveEnabled (view_desired v) then view_steady_now v else nextScan)
     else (cfg, nextScan))"

text \<open>
  \<open>WaitForNextThreadSamplingCycle\<close> from the loop head with view \<open>v\<close>, over the events of its sleeps. The
  result is the return value with the configuration and \<open>nextOutdatedEntriesScan_\<close>; \<open>None\<close> when the
  events end while it still sleeps. A disabled worker sleeps without a timeout.
\<close>

fun WaitForNextThreadSamplingCycle ::
    "mailbox_view \<Rightarrow> wait_event list \<Rightarrow> thread_sampling_config \<times> int \<Rightarrow>
     (bool \<times> thread_sampling_config \<times> int) option"
  and sleep_cycle ::
    "wait_event list \<Rightarrow> thread_sampling_config \<times> int \<Rightarrow> (bool \<times> thread_sampling_config \<times> int) option"
where
  "WaitForNextThreadSamplingCycle v es x =
     (if view_shutdown v then Some (False, x) else sleep_cycle es (adopt_desired v x))"
| "sleep_cycle [] x = None"
| "sleep_cycle (Notified v # es) x =
     (if shouldWake (fst x) v then WaitForNextThreadSamplingCycle v es x else sleep_cycle es x)"
| "sleep_cycle (TimedOut v # es) x =
     (if \<not> IsEnabled (fst x)
      then (if shouldWake (fst x) v then WaitForNextThreadSamplingCycle v es x else sleep_cycle es x)
      else if shouldWake (fst x) v then WaitForNextThreadSamplingCycle v es x
      else Some (True, x))"

section \<open>The profiler object\<close>

datatype session_state = SessionNone | SessionActive | SessionPermanentlyDisabled

record profiler =
  shutdown_requested :: bool
  shutdown_completed :: bool
  desired_config :: thread_sampling_config
  sampling_thread :: bool
  worker_failed :: bool
  alloc_session :: u64
  alloc_session_state :: session_state
  allocationSubSampler :: "sub_sampler option"
  profiler_info7 :: bool
  profiler_info12 :: bool
  global_profiler_info :: bool
  stack_walker :: bool

text \<open>The constructor, with the members' in-class initialisers.\<close>

definition ContinuousProfiler :: profiler where
  "ContinuousProfiler =
     \<lparr>shutdown_requested = False, shutdown_completed = False,
      desired_config = \<lparr>cpuSamplingInterval = 0, selectiveSamplingInterval = 0, config_version = 0\<rparr>,
      sampling_thread = False, worker_failed = False, alloc_session = 0, alloc_session_state = SessionNone,
      allocationSubSampler = None, profiler_info7 = False, profiler_info12 = False,
      global_profiler_info = False, stack_walker = False\<rparr>"

definition StageThreadSamplingConfiguration :: "u32 \<Rightarrow> u32 \<Rightarrow> profiler \<Rightarrow> profiler" where
  "StageThreadSamplingConfiguration cpu selective p =
     p\<lparr>desired_config := \<lparr>cpuSamplingInterval = cpu, selectiveSamplingInterval = selective,
        config_version = config_version (desired_config p) + 1\<rparr>\<rparr>"

definition PullThreadSamplingConfiguration :: "profiler \<Rightarrow> thread_sampling_config" where
  "PullThreadSamplingConfiguration p = desired_config p"

text \<open>Outcomes of the calls that leave the profiler's own code.\<close>

record sampler_env =
  thread_creation_throws :: bool
  initialize_current_thread :: hresult
  stacks_buffer_throws :: bool
  sub_sampler_throws :: bool
  event_pipe_start :: hresult
  event_pipe_session :: u64
  event_pipe_stop :: hresult
  env_clocks :: clocks

definition E_ABORT :: hresult where "E_ABORT = 0x80004004"
definition E_NOINTERFACE :: hresult where "E_NOINTERFACE = 0x80004002"

text \<open>The result the worker publishes: its prologue, with an exception turned into \<open>E_FAIL\<close>.\<close>

definition worker_initialization_result :: "sampler_env \<Rightarrow> profiler \<Rightarrow> hresult" where
  "worker_initialization_result e p =
     (let hr = (if shutdown_requested p then E_ABORT
                else if \<not> profiler_info7 p then E_NOINTERFACE
                else initialize_current_thread e)
      in if FAILED hr then hr else if stacks_buffer_throws e then E_FAIL else hr)"

definition StartThreadSampling :: "sampler_env \<Rightarrow> profiler \<Rightarrow> bool \<times> profiler" where
  "StartThreadSampling e p =
     (if shutdown_requested p \<or> worker_failed p then (False, p)
      else if sampling_thread p then (True, p)
      else if thread_creation_throws e then (False, p\<lparr>sampling_thread := False\<rparr>)
      else if FAILED (worker_initialization_result e p) then (False, p\<lparr>sampling_thread := False\<rparr>)
      else (True, p\<lparr>sampling_thread := True\<rparr>))"

definition MarkThreadSamplingWorkerFailed :: "profiler \<Rightarrow> profiler" where
  "MarkThreadSamplingWorkerFailed p = p\<lparr>worker_failed := True\<rparr>"

text \<open>The session provider: \<open>*session\<close> is zeroed first, and a missing \<open>ICorProfilerInfo12\<close> is an error.\<close>

definition provider_start :: "sampler_env \<Rightarrow> profiler \<Rightarrow> hresult \<times> u64" where
  "provider_start e p =
     (if \<not> profiler_info12 p then (E_NOINTERFACE, 0) else (event_pipe_start e, event_pipe_session e))"

definition provider_stop :: "sampler_env \<Rightarrow> profiler \<Rightarrow> hresult" where
  "provider_stop e p = (if \<not> profiler_info12 p then E_NOINTERFACE else event_pipe_stop e)"

definition StartAllocationSamplingSession :: "sampler_env \<Rightarrow> profiler \<Rightarrow> bool \<times> profiler" where
  "StartAllocationSamplingSession e p =
     (if alloc_session_state p = SessionPermanentlyDisabled then (False, p)
      else if allocationSubSampler p = None \<and> sub_sampler_throws e then (False, p)
      else
        let p1 = (if allocationSubSampler p = None
                  then p\<lparr>allocationSubSampler := Some (AllocationSubSampler 0 60 (env_clocks e))\<rparr> else p)
        in if alloc_session_state p1 = SessionActive then (True, p1)
           else
             let (hr, candidateSession) = provider_start e p1
             in if FAILED hr \<or> candidateSession = 0
                then (False, p1\<lparr>alloc_session := candidateSession, alloc_session_state := SessionPermanentlyDisabled\<rparr>)
                else (True, p1\<lparr>alloc_session := candidateSession, alloc_session_state := SessionActive\<rparr>))"

definition IsAllocationSamplingPermanentlyDisabled :: "profiler \<Rightarrow> bool" where
  "IsAllocationSamplingPermanentlyDisabled p \<longleftrightarrow> alloc_session_state p = SessionPermanentlyDisabled"

definition UpdateAllocationSamplingTarget :: "u32 \<Rightarrow> sampler_env \<Rightarrow> profiler \<Rightarrow> profiler" where
  "UpdateAllocationSamplingTarget target e p =
     (case allocationSubSampler p of
        None \<Rightarrow> p
      | Some a \<Rightarrow> p\<lparr>allocationSubSampler := Some (SetTargetPerCycle target (env_clocks e) a)\<rparr>)"

definition StopAllocationSamplingSession :: "sampler_env \<Rightarrow> profiler \<Rightarrow> bool \<times> profiler" where
  "StopAllocationSamplingSession e p0 =
     (let p = UpdateAllocationSamplingTarget 0 e p0
      in case alloc_session_state p of
           SessionPermanentlyDisabled \<Rightarrow> (False, p)
         | SessionNone \<Rightarrow> (True, p)
         | SessionActive \<Rightarrow>
             if FAILED (provider_stop e p)
             then (False, p\<lparr>alloc_session_state := SessionPermanentlyDisabled\<rparr>)
             else (True, p\<lparr>alloc_session := 0, alloc_session_state := SessionNone\<rparr>))"

text \<open>
  Terminal shutdown by its owner, with the steps in the order of the code; a caller that finds it
  already requested only waits for the owner. The gate and the walker are their own components: here
  their calls are recorded in order.
\<close>

datatype shutdown_call =
    CloseAdmissions | WalkerRequestShutdown | StopSession | JoinSamplingThread
  | WaitAdmissions | WalkerWaitForShutdown

definition Shutdown :: "sampler_env \<Rightarrow> profiler \<Rightarrow> shutdown_call list \<times> profiler" where
  "Shutdown e p =
     (if shutdown_requested p then ([], p)
      else
        let p1 = p\<lparr>shutdown_requested := True\<rparr>;
            p2 = p1\<lparr>global_profiler_info := False\<rparr>;
            p3 = UpdateAllocationSamplingTarget 0 e p2;
            p4 = snd (StopAllocationSamplingSession e p3);
            p5 = p4\<lparr>sampling_thread := False\<rparr>;
            p6 = p5\<lparr>shutdown_completed := True\<rparr>
        in (CloseAdmissions # (if stack_walker p3 then [WalkerRequestShutdown] else []) @
            [StopSession] @ (if sampling_thread p4 then [JoinSamplingThread] else []) @
            [WaitAdmissions] @ (if stack_walker p5 then [WalkerWaitForShutdown] else []), p6))"

section \<open>The cohort schedule\<close>

lemma next_cohort_both:
  assumes both: "BothEnabled cfg" and below: "unat i < unat (cpuSamplingInterval cfg div selectiveSamplingInterval cfg)"
  shows "fst (next_cohort (config_version cfg) cfg i) =
           (if unat i + 1 = unat (cpuSamplingInterval cfg div selectiveSamplingInterval cfg)
            then Continuous else SelectedThreads)"
    and "unat (snd (next_cohort (config_version cfg) cfg i)) =
           (if unat i + 1 = unat (cpuSamplingInterval cfg div selectiveSamplingInterval cfg)
            then 0 else unat i + 1)"
proof -
  let ?k = "cpuSamplingInterval cfg div selectiveSamplingInterval cfg"
  from below have "i < ?k" by (simp add: word_less_nat_alt)
  then have inc: "unat (i + 1) = unat i + 1" by (rule unat_inc_below)
  then have eq: "i + 1 = ?k \<longleftrightarrow> unat i + 1 = unat ?k" by (simp add: word_eq_unat_iff)
  show "fst (next_cohort (config_version cfg) cfg i) = (if unat i + 1 = unat ?k then Continuous else SelectedThreads)"
    and "unat (snd (next_cohort (config_version cfg) cfg i)) = (if unat i + 1 = unat ?k then 0 else unat i + 1)"
    using both inc eq
    by (simp_all add: next_cohort_def ShouldTrackIterations_def GetNextSamplingType_def BothEnabled_def Let_def)
qed

lemma mod_step: "(k :: nat) > 0 \<Longrightarrow> a < k \<Longrightarrow> ((if a + 1 = k then 0 else a + 1) + b) mod k = (a + 1 + b) mod k"
  using mod_add_self1 [of "Suc a" b] by auto

lemma cohorts_nth:
  assumes "BothEnabled cfg" and "unat i < k"
    and "k = unat (cpuSamplingInterval cfg div selectiveSamplingInterval cfg)" and "j < n"
  shows "cohorts n cfg i ! j = (if (unat i + Suc j) mod k = 0 then Continuous else SelectedThreads)"
  using assms
proof (induction n arbitrary: i j)
  case (Suc n)
  let ?r = "next_cohort (config_version cfg) cfg i"
  have r: "fst ?r = (if unat i + 1 = k then Continuous else SelectedThreads)"
      "unat (snd ?r) = (if unat i + 1 = k then 0 else unat i + 1)"
    using next_cohort_both [OF Suc.prems(1)] Suc.prems(2,3) by simp_all
  have step: "cohorts (Suc n) cfg i = fst ?r # cohorts n cfg (snd ?r)"
    by (simp add: case_prod_beta)
  show ?case
  proof (cases j)
    case 0
    have "(unat i + 1) mod k = 0 \<longleftrightarrow> unat i + 1 = k" using Suc.prems(2) by (auto simp: mod_if)
    with 0 r(1) show ?thesis unfolding step by simp
  next
    case (Suc j')
    have "unat (snd ?r) < k" using Suc.prems(2) r(2) by auto
    with Suc.IH [of "snd ?r" j'] Suc.prems Suc
    have "cohorts n cfg (snd ?r) ! j' = (if (unat (snd ?r) + Suc j') mod k = 0 then Continuous else SelectedThreads)"
      by simp
    moreover have "(unat (snd ?r) + Suc j') mod k = (unat i + Suc j) mod k"
      using Suc.prems(2) mod_step [of k "unat i" "Suc j'"] Suc unfolding r(2) by simp
    ultimately show ?thesis using Suc unfolding step by simp
  qed
qed simp

text \<open>With both samplers on and a CPU interval that is at least the selective one, every k-th cohort,
  and no other, samples all threads, where k is the ratio of the intervals: the CPU sampler keeps its
  own period although the worker runs at the selective period.\<close>

theorem cohort_schedule:
  assumes "BothEnabled cfg" "selectiveSamplingInterval cfg \<le> cpuSamplingInterval cfg" "j < n"
  shows "cohorts n cfg 0 ! j =
    (if (unat (cpuSamplingInterval cfg) div unat (selectiveSamplingInterval cfg)) dvd Suc j
     then Continuous else SelectedThreads)"
proof -
  let ?k = "unat (cpuSamplingInterval cfg) div unat (selectiveSamplingInterval cfg)"
  have k: "?k = unat (cpuSamplingInterval cfg div selectiveSamplingInterval cfg)"
    by (rule unat_div_distrib [symmetric])
  have "0 < unat (selectiveSamplingInterval cfg)"
    using assms(1) by (simp add: config_flags unat_gt_0)
  with assms(2) have "0 < ?k" by (simp add: div_greater_zero_iff word_le_nat_alt)
  from cohorts_nth [OF assms(1) _ k assms(3), of 0] this show ?thesis
    unfolding dvd_eq_mod_eq_0 by simp
qed

theorem cohort_schedule_witness:
  "cohorts 6 \<lparr>cpuSamplingInterval = 60, selectiveSamplingInterval = 20, config_version = 1\<rparr> 0 ! 5 = Continuous \<and>
   cohorts 6 \<lparr>cpuSamplingInterval = 60, selectiveSamplingInterval = 20, config_version = 1\<rparr> 0 ! 4 = SelectedThreads"
proof -
  let ?c = "\<lparr>cpuSamplingInterval = 60, selectiveSamplingInterval = 20, config_version = 1\<rparr> :: thread_sampling_config"
  have b: "BothEnabled ?c" "selectiveSamplingInterval ?c \<le> cpuSamplingInterval ?c"
    by (simp_all add: config_flags)
  from cohort_schedule [OF b, of 5 6] cohort_schedule [OF b, of 4 6] show ?thesis by simp
qed

section \<open>The mailbox\<close>

definition event_view :: "wait_event \<Rightarrow> mailbox_view" where
  "event_view e = (case e of Notified v \<Rightarrow> v | TimedOut v \<Rightarrow> v)"

text \<open>What a finished wait guarantees, for the loop head and for the sleep.\<close>

definition wait_result_ok ::
    "thread_sampling_config set \<Rightarrow> wait_event list \<Rightarrow> bool \<times> thread_sampling_config \<times> int \<Rightarrow> bool" where
  "wait_result_ok known es r \<longleftrightarrow>
     (case r of (admitted, cfg, nextScan) \<Rightarrow>
        cfg \<in> known \<union> (view_desired \<circ> event_view) ` set es \<and>
        (admitted \<longrightarrow> (\<exists>es1 v es2. es = es1 @ TimedOut v # es2 \<and> \<not> view_shutdown v \<and>
            config_version cfg = config_version (view_desired v) \<and> IsEnabled cfg)))"

lemma wait_result_ok_Cons:
  assumes "wait_result_ok known es r"
    and "known \<subseteq> insert (view_desired (event_view e)) known'"
  shows "wait_result_ok known' (e # es) r"
proof -
  obtain a cfg sc where r: "r = (a, cfg, sc)" by (cases r)
  have known: "cfg \<in> known' \<union> (view_desired \<circ> event_view) ` set (e # es)"
    using assms by (auto simp: wait_result_ok_def r)
  have "\<exists>es1 v es2. e # es = es1 @ TimedOut v # es2 \<and> \<not> view_shutdown v \<and>
      config_version cfg = config_version (view_desired v) \<and> IsEnabled cfg" if a
  proof -
    from assms(1) that obtain es1 v es2 where
      "es = es1 @ TimedOut v # es2" "\<not> view_shutdown v"
      "config_version cfg = config_version (view_desired v)" "IsEnabled cfg"
      unfolding wait_result_ok_def r by auto
    then show ?thesis by (intro exI [of _ "e # es1"] exI [of _ v] exI [of _ es2]) simp
  qed
  with known show ?thesis unfolding wait_result_ok_def r by blast
qed

lemma adopt_desired_known: "fst (adopt_desired v x) \<in> {fst x, view_desired v}"
  by (auto simp: adopt_desired_def split: prod.splits)

lemma wait_cycle_ok:
  "WaitForNextThreadSamplingCycle v es x = Some r \<Longrightarrow> wait_result_ok {fst x, view_desired v} es r"
  "sleep_cycle es x = Some r \<Longrightarrow> wait_result_ok {fst x} es r"
proof (induction v es x and es x arbitrary: r and r rule: WaitForNextThreadSamplingCycle_sleep_cycle.induct)
  case (1 v es x)
  show ?case
  proof (cases "view_shutdown v")
    case True
    with 1 show ?thesis by (auto simp: wait_result_ok_def split: prod.splits)
  next
    case False
    with 1 have "wait_result_ok {fst (adopt_desired v x)} es r" by simp
    then show ?thesis
      using adopt_desired_known [of v x] by (auto simp: wait_result_ok_def split: prod.splits)
  qed
next
  case (3 v es x)
  then show ?case
    by (auto simp: event_view_def split: if_splits elim!: wait_result_ok_Cons)
next
  case (4 v es x)
  have "wait_result_ok {fst x} (TimedOut v # es) (True, x)" if "IsEnabled (fst x)" "\<not> shouldWake (fst x) v"
    using that by (auto simp: wait_result_ok_def shouldWake_def intro!: exI [of _ "[]"] split: prod.splits)
  with 4 show ?case
    by (auto simp: event_view_def split: if_splits elim!: wait_result_ok_Cons)
qed simp

lemma wait_false_shutdown:
  "WaitForNextThreadSamplingCycle v es x = Some (False, y) \<Longrightarrow> \<exists>u \<in> insert v (event_view ` set es). view_shutdown u"
  "sleep_cycle es x = Some (False, y) \<Longrightarrow> \<exists>u \<in> event_view ` set es. view_shutdown u"
  by (induction v es x and es x rule: WaitForNextThreadSamplingCycle_sleep_cycle.induct)
    (auto simp: event_view_def split: if_splits)

text \<open>When the worker's wait admits a cohort, the wait ended by a timeout at which no shutdown was
  requested, and the configuration the cohort runs under is enabled, is one the mailbox held, and has the
  version the mailbox had at that timeout: intermediate updates may be skipped, the last one never is.
  When the wait reports the end instead, a shutdown had been observed.\<close>

theorem cohort_runs_under_latest_configuration:
  assumes "WaitForNextThreadSamplingCycle v es (cfg0, scan0) = Some (admitted, cfg, scan)"
  shows "if admitted
    then cfg \<in> {cfg0, view_desired v} \<union> (view_desired \<circ> event_view) ` set es \<and> IsEnabled cfg \<and>
      (\<exists>es1 u es2. es = es1 @ TimedOut u # es2 \<and> \<not> view_shutdown u \<and>
         config_version cfg = config_version (view_desired u))
    else (\<exists>u \<in> insert v (event_view ` set es). view_shutdown u)"
proof (cases admitted)
  case True
  from wait_cycle_ok(1) [OF assms] True show ?thesis
    unfolding wait_result_ok_def by auto
next
  case False
  with assms have "WaitForNextThreadSamplingCycle v es (cfg0, scan0) = Some (False, cfg, scan)" by simp
  from wait_false_shutdown(1) [OF this] False show ?thesis by simp
qed

definition staged_view :: "u32 \<Rightarrow> u64 \<Rightarrow> mailbox_view" where
  "staged_view cpu n = \<lparr>view_shutdown = False,
     view_desired = \<lparr>cpuSamplingInterval = cpu, selectiveSamplingInterval = 0, config_version = n\<rparr>, view_steady_now = 0\<rparr>"

theorem cohort_runs_under_latest_configuration_witness:
  "WaitForNextThreadSamplingCycle (staged_view 0 0)
     [Notified (staged_view 100 1), Notified (staged_view 500 3), TimedOut (staged_view 500 3)]
     (view_desired (staged_view 0 0), 7) = Some (True, view_desired (staged_view 500 3), 7) \<and>
   IsEnabled (view_desired (staged_view 500 3))"
proof -
  have run: "WaitForNextThreadSamplingCycle (staged_view 0 0)
     [Notified (staged_view 100 1), Notified (staged_view 500 3), TimedOut (staged_view 500 3)]
     (view_desired (staged_view 0 0), 7) = Some (True, view_desired (staged_view 500 3), 7)"
    by (simp add: staged_view_def shouldWake_def adopt_desired_def config_flags)
  from cohort_runs_under_latest_configuration [OF run] run show ?thesis by simp
qed

section \<open>The allocation session\<close>

text \<open>The operations the controller performs on the allocation branch.\<close>

datatype session_op = StartSession sampler_env | StopSessionOp sampler_env | SetTarget u32 sampler_env

fun session_apply :: "session_op \<Rightarrow> profiler \<Rightarrow> profiler" where
  "session_apply (StartSession e) p = snd (StartAllocationSamplingSession e p)"
| "session_apply (StopSessionOp e) p = snd (StopAllocationSamplingSession e p)"
| "session_apply (SetTarget n e) p = UpdateAllocationSamplingTarget n e p"

lemma UpdateAllocationSamplingTarget_simps [simp]:
  "shutdown_requested (UpdateAllocationSamplingTarget n e p) = shutdown_requested p"
  "shutdown_completed (UpdateAllocationSamplingTarget n e p) = shutdown_completed p"
  "desired_config (UpdateAllocationSamplingTarget n e p) = desired_config p"
  "sampling_thread (UpdateAllocationSamplingTarget n e p) = sampling_thread p"
  "worker_failed (UpdateAllocationSamplingTarget n e p) = worker_failed p"
  "alloc_session (UpdateAllocationSamplingTarget n e p) = alloc_session p"
  "alloc_session_state (UpdateAllocationSamplingTarget n e p) = alloc_session_state p"
  "profiler_info7 (UpdateAllocationSamplingTarget n e p) = profiler_info7 p"
  "profiler_info12 (UpdateAllocationSamplingTarget n e p) = profiler_info12 p"
  "stack_walker (UpdateAllocationSamplingTarget n e p) = stack_walker p"
  "global_profiler_info (UpdateAllocationSamplingTarget n e p) = global_profiler_info p"
  by (simp_all add: UpdateAllocationSamplingTarget_def split: option.splits)

text \<open>The published target: 0 while there is no sub-sampler, because then nothing is admitted.\<close>

definition allocation_target :: "profiler \<Rightarrow> u32" where
  "allocation_target p = (case allocationSubSampler p of None \<Rightarrow> 0 | Some a \<Rightarrow> targetPerCycle a)"

lemma targetPerCycle_Set [simp]: "targetPerCycle (SetTargetPerCycle n c a) = n"
  by (simp add: SetTargetPerCycle_def)

lemma allocation_target_update:
  "allocation_target (UpdateAllocationSamplingTarget n e p) = (if allocationSubSampler p = None then 0 else n)"
  by (simp add: allocation_target_def UpdateAllocationSamplingTarget_def split: option.splits)

lemma allocation_target_stop [simp]: "allocation_target (snd (StopAllocationSamplingSession e p)) = 0"
  by (simp add: StopAllocationSamplingSession_def Let_def allocation_target_def UpdateAllocationSamplingTarget_def
      split: session_state.splits option.splits)

lemma stop_session_frame [simp]:
  "shutdown_requested (snd (StopAllocationSamplingSession e p)) = shutdown_requested p"
  "shutdown_completed (snd (StopAllocationSamplingSession e p)) = shutdown_completed p"
  "desired_config (snd (StopAllocationSamplingSession e p)) = desired_config p"
  "sampling_thread (snd (StopAllocationSamplingSession e p)) = sampling_thread p"
  "worker_failed (snd (StopAllocationSamplingSession e p)) = worker_failed p"
  "stack_walker (snd (StopAllocationSamplingSession e p)) = stack_walker p"
  "global_profiler_info (snd (StopAllocationSamplingSession e p)) = global_profiler_info p"
  by (simp_all add: StopAllocationSamplingSession_def Let_def split: session_state.splits)

lemma stop_session_not_active [simp]:
  "alloc_session_state (snd (StopAllocationSamplingSession e p)) \<noteq> SessionActive"
  by (simp add: StopAllocationSamplingSession_def Let_def split: session_state.splits)

text \<open>An EventPipe session whose start or stop failed is never touched again: through any later
  sequence of session operations the branch stays permanently disabled, the ambiguous handle is kept
  unchanged, and every further start is refused.\<close>

theorem permanently_disabled_session_is_terminal:
  assumes "alloc_session_state p = SessionPermanentlyDisabled"
  shows "let q = fold session_apply ops p in
    alloc_session_state q = SessionPermanentlyDisabled \<and> alloc_session q = alloc_session p \<and>
    fst (StartAllocationSamplingSession e q) = False"
  using assms
proof (induction ops arbitrary: p)
  case Nil
  then show ?case by (simp add: StartAllocationSamplingSession_def)
next
  case (Cons op ops)
  then have "alloc_session_state (session_apply op p) = SessionPermanentlyDisabled"
    "alloc_session (session_apply op p) = alloc_session p"
    by (cases op; simp add: StartAllocationSamplingSession_def StopAllocationSamplingSession_def Let_def)+
  with Cons.IH [of "session_apply op p"] show ?case by (simp add: Let_def)
qed

definition good_env :: sampler_env where
  "good_env = \<lparr>thread_creation_throws = False, initialize_current_thread = S_OK, stacks_buffer_throws = False,
     sub_sampler_throws = False, event_pipe_start = S_OK, event_pipe_session = 42, event_pipe_stop = S_OK,
     env_clocks = \<lparr>system_now = 0, steady_now = 0\<rparr>\<rparr>"

definition failed_stop :: profiler where
  "failed_stop = snd (StopAllocationSamplingSession (good_env\<lparr>event_pipe_stop := E_FAIL\<rparr>)
     (snd (StartAllocationSamplingSession good_env (ContinuousProfiler\<lparr>profiler_info12 := True\<rparr>))))"

theorem permanently_disabled_session_is_terminal_witness:
  "alloc_session_state failed_stop = SessionPermanentlyDisabled \<and> alloc_session failed_stop = 42 \<and>
   alloc_session (fold session_apply [StartSession good_env, StopSessionOp good_env] failed_stop) = 42"
proof -
  have f: "alloc_session_state failed_stop = SessionPermanentlyDisabled" "alloc_session failed_stop = 42"
    by (simp_all add: failed_stop_def good_env_def ContinuousProfiler_def StartAllocationSamplingSession_def
        StopAllocationSamplingSession_def provider_start_def provider_stop_def UpdateAllocationSamplingTarget_def)
  from permanently_disabled_session_is_terminal [OF f(1), of "[StartSession good_env, StopSessionOp good_env]"] f
  show ?thesis by (simp add: Let_def)
qed

section \<open>Shutdown\<close>

lemma allocation_target_frame [simp]:
  "allocation_target (p\<lparr>sampling_thread := b\<rparr>) = allocation_target p"
  "allocation_target (p\<lparr>shutdown_completed := b\<rparr>) = allocation_target p"
  "allocation_target (p\<lparr>desired_config := c\<rparr>) = allocation_target p"
  "allocation_target (p\<lparr>worker_failed := b\<rparr>) = allocation_target p"
  by (simp_all add: allocation_target_def)

lemma shutdown_effect:
  assumes "\<not> shutdown_requested p"
  shows "shutdown_requested (snd (Shutdown e p))" "shutdown_completed (snd (Shutdown e p))"
    "\<not> sampling_thread (snd (Shutdown e p))" "\<not> global_profiler_info (snd (Shutdown e p))"
    "alloc_session_state (snd (Shutdown e p)) \<noteq> SessionActive" "allocation_target (snd (Shutdown e p)) = 0"
    "desired_config (snd (Shutdown e p)) = desired_config p"
  using assms by (simp_all add: Shutdown_def Let_def)

lemma shutdown_again: "shutdown_requested p \<Longrightarrow> Shutdown e p = ([], p)"
  by (simp add: Shutdown_def)



end
