(* ===== verification/Runtime_Sampler.thy ===== *)
theory Runtime_Sampler
  imports Sampler_Control
begin

text \<open>
  The runtime sampler controller: \<open>runtime_sampler_configuration.cpp\<close>, \<open>RuntimeSamplerService\<close> and the
  entry points of \<open>CorProfiler\<close> that feed it. The service is a transaction machine: a candidate
  configuration is validated, ranked by authority, every fallible activation step is run while the
  candidate is still quiescent, and only then is it committed and published to the sampler. The
  theorems: a rejected or failed transaction leaves the committed state alone, authority never
  decreases, what is committed is what the sampler runs, and failure and shutdown are terminal.
\<close>

section \<open>Configurations\<close>

record sampler_config =
  structureSize :: u32
  cpuSamplingIntervalMilliseconds :: u32
  selectiveThreadSamplingIntervalMilliseconds :: u32
  maxAllocationSamplesPerMinute :: u32

text \<open>The enumeration arrives over the interop boundary, so it may hold any 32-bit value.\<close>

datatype authority = AuthorityNone | Seed | ControlPlane | AuthorityOther u32

fun authority_code :: "authority \<Rightarrow> u32" where
  "authority_code AuthorityNone = 0"
| "authority_code Seed = 1"
| "authority_code ControlPlane = 2"
| "authority_code (AuthorityOther n) = n"

datatype apply_result =
    Applied | NoChange | IgnoredSeedAlreadyCommitted | IgnoredLowerAuthority
  | RejectedInvalidArgument | RejectedUnsupportedLayout | RejectedInvalidConfiguration
  | RejectedUnsupportedRuntime | ActivationFailed | ShuttingDown

datatype query_result = Succeeded | InvalidArgument | UnsupportedLayout

definition IsValid :: "sampler_config \<Rightarrow> bool" where
  "IsValid cfg \<longleftrightarrow>
     (if cpuSamplingIntervalMilliseconds cfg \<noteq> 0 \<and> selectiveThreadSamplingIntervalMilliseconds cfg \<noteq> 0 \<and>
         (cpuSamplingIntervalMilliseconds cfg \<le> selectiveThreadSamplingIntervalMilliseconds cfg \<or>
          cpuSamplingIntervalMilliseconds cfg mod selectiveThreadSamplingIntervalMilliseconds cfg \<noteq> 0)
      then False else True)"

definition ConfigCpuEnabled :: "sampler_config \<Rightarrow> bool" where
  "ConfigCpuEnabled cfg \<longleftrightarrow> cpuSamplingIntervalMilliseconds cfg \<noteq> 0"

definition ConfigSelectiveEnabled :: "sampler_config \<Rightarrow> bool" where
  "ConfigSelectiveEnabled cfg \<longleftrightarrow> selectiveThreadSamplingIntervalMilliseconds cfg \<noteq> 0"

definition ThreadSamplingEnabled :: "sampler_config \<Rightarrow> bool" where
  "ThreadSamplingEnabled cfg \<longleftrightarrow> ConfigCpuEnabled cfg \<or> ConfigSelectiveEnabled cfg"

definition AllocationEnabled :: "sampler_config \<Rightarrow> bool" where
  "AllocationEnabled cfg \<longleftrightarrow> maxAllocationSamplesPerMinute cfg \<noteq> 0"

definition AnyFeatureEnabled :: "sampler_config \<Rightarrow> bool" where
  "AnyFeatureEnabled cfg \<longleftrightarrow> ThreadSamplingEnabled cfg \<or> AllocationEnabled cfg"

text \<open>\<open>operator==\<close>: the structure size is not compared.\<close>

definition config_eq :: "sampler_config \<Rightarrow> sampler_config \<Rightarrow> bool" where
  "config_eq a b \<longleftrightarrow>
     cpuSamplingIntervalMilliseconds a = cpuSamplingIntervalMilliseconds b \<and>
     selectiveThreadSamplingIntervalMilliseconds a = selectiveThreadSamplingIntervalMilliseconds b \<and>
     maxAllocationSamplesPerMinute a = maxAllocationSamplesPerMinute b"

lemmas feature_flags = ConfigCpuEnabled_def ConfigSelectiveEnabled_def ThreadSamplingEnabled_def
  AllocationEnabled_def AnyFeatureEnabled_def

record controller_state =
  state_authority :: authority
  state_configuration :: sampler_config

definition sizeof_RuntimeSamplerConfiguration :: u32 where
  "sizeof_RuntimeSamplerConfiguration = 16"

definition sizeof_RuntimeSamplerState :: u32 where
  "sizeof_RuntimeSamplerState = 24"

definition disabled_config :: sampler_config where
  "disabled_config = \<lparr>structureSize = sizeof_RuntimeSamplerConfiguration,
     cpuSamplingIntervalMilliseconds = 0, selectiveThreadSamplingIntervalMilliseconds = 0,
     maxAllocationSamplesPerMinute = 0\<rparr>"

definition default_controller_state :: controller_state where
  "default_controller_state = \<lparr>state_authority = AuthorityNone, state_configuration = disabled_config\<rparr>"

record sampler_state =
  state_structureSize :: u32
  encoded_authority :: u32
  encoded_configuration :: sampler_config

text \<open>The out-parameter is a nullable pointer: \<open>None\<close> is the null pointer.\<close>

definition EncodeRuntimeSamplerState ::
    "controller_state \<Rightarrow> sampler_state option \<Rightarrow> query_result \<times> sampler_state option" where
  "EncodeRuntimeSamplerState st encoded =
     (case encoded of
        None \<Rightarrow> (InvalidArgument, None)
      | Some x \<Rightarrow>
          if state_structureSize x \<noteq> sizeof_RuntimeSamplerState then (UnsupportedLayout, encoded)
          else (Succeeded, Some \<lparr>state_structureSize = sizeof_RuntimeSamplerState,
             encoded_authority = authority_code (state_authority st),
             encoded_configuration = state_configuration st\<rparr>))"

section \<open>The service\<close>

record service =
  info7 :: bool
  info12 :: bool
  sampler :: "profiler option"
  service_authority :: authority
  committedConfiguration :: sampler_config
  shutdownStarted :: bool
  activationFailed :: bool
  requiredClrEventsEnabled :: bool
  selectiveSamplingBuffersPrepared :: bool
  clr_events_low :: u32

definition RuntimeSamplerService :: "bool \<Rightarrow> bool \<Rightarrow> service" where
  "RuntimeSamplerService i7 i12 =
     \<lparr>info7 = i7, info12 = i12, sampler = None, service_authority = AuthorityNone,
      committedConfiguration = disabled_config, shutdownStarted = False, activationFailed = False,
      requiredClrEventsEnabled = False, selectiveSamplingBuffersPrepared = False, clr_events_low = 0\<rparr>"

text \<open>What the CLR and the allocator answer during one call of the service.\<close>

record apply_env = sampler_env +
  sampler_creation_throws :: bool
  stack_walker_ready :: bool
  prepare_buffers_throws :: bool
  get_event_mask :: hresult
  event_mask_low :: u32
  set_event_mask :: hresult
  event_mask_throws :: bool

definition COR_PRF_MONITOR_THREADS :: u32 where "COR_PRF_MONITOR_THREADS = 0x200"
definition COR_PRF_ENABLE_STACK_SNAPSHOT :: u32 where "COR_PRF_ENABLE_STACK_SNAPSHOT = 0x10000000"

definition sampler_part :: "apply_env \<Rightarrow> sampler_env" where
  "sampler_part e = sampler_env.truncate e"

definition EnsureSamplerCreated :: "apply_env \<Rightarrow> service \<Rightarrow> service" where
  "EnsureSamplerCreated e s =
     (if sampler s \<noteq> None then s
      else if \<not> info7 s then s
      else if sampler_creation_throws e then s
      else if \<not> stack_walker_ready e then s
      else s\<lparr>sampler := Some (ContinuousProfiler\<lparr>profiler_info7 := True, profiler_info12 := info12 s,
             global_profiler_info := True, stack_walker := True\<rparr>)\<rparr>)"

definition EnsureRequiredClrEventsEnabled :: "apply_env \<Rightarrow> service \<Rightarrow> bool \<times> service" where
  "EnsureRequiredClrEventsEnabled e s =
     (if requiredClrEventsEnabled s then (True, s)
      else if event_mask_throws e then (False, s)
      else if FAILED (get_event_mask e) then (False, s)
      else if FAILED (set_event_mask e) then (False, s)
      else (True, s\<lparr>requiredClrEventsEnabled := True,
              clr_events_low := event_mask_low e OR (COR_PRF_MONITOR_THREADS OR COR_PRF_ENABLE_STACK_SNAPSHOT)\<rparr>))"

definition EnsureSelectiveSamplingBuffersPrepared :: "apply_env \<Rightarrow> service \<Rightarrow> bool \<times> service" where
  "EnsureSelectiveSamplingBuffersPrepared e s =
     (if selectiveSamplingBuffersPrepared s then (True, s)
      else if prepare_buffers_throws e then (False, s)
      else (True, s\<lparr>selectiveSamplingBuffersPrepared := True\<rparr>))"

definition PublishCommittedConfiguration ::
    "sampler_config \<Rightarrow> sampler_config \<Rightarrow> apply_env \<Rightarrow> profiler \<Rightarrow> profiler" where
  "PublishCommittedConfiguration previous cfg e p =
     (let p1 = (if cpuSamplingIntervalMilliseconds previous \<noteq> cpuSamplingIntervalMilliseconds cfg \<or>
                   selectiveThreadSamplingIntervalMilliseconds previous \<noteq>
                     selectiveThreadSamplingIntervalMilliseconds cfg
                then StageThreadSamplingConfiguration (cpuSamplingIntervalMilliseconds cfg)
                       (selectiveThreadSamplingIntervalMilliseconds cfg) p
                else p)
      in if AllocationEnabled cfg
         then UpdateAllocationSamplingTarget (maxAllocationSamplesPerMinute cfg) (sampler_part e) p1
         else p1)"

definition outcome_state :: "service \<Rightarrow> controller_state" where
  "outcome_state s = \<lparr>state_authority = service_authority s, state_configuration = committedConfiguration s\<rparr>"

text \<open>The activation-failure continuation; \<open>had\<close> says whether a producer was already committed.\<close>

definition failActivation :: "bool \<Rightarrow> apply_env \<Rightarrow> service \<Rightarrow> apply_result \<times> controller_state \<times> service" where
  "failActivation had e s =
     (if had then (ActivationFailed, outcome_state s, s)
      else (ActivationFailed, outcome_state s,
        s\<lparr>activationFailed := True,
          sampler := map_option (\<lambda>p. snd (Shutdown (sampler_part e) p)) (sampler s)\<rparr>))"

text \<open>The commit: admission is closed before a disabled state is published and cleaned up after it.\<close>

definition commit_configuration :: "authority \<Rightarrow> sampler_config \<Rightarrow> apply_env \<Rightarrow> service \<Rightarrow> service" where
  "commit_configuration source cfg e s =
     (let previous = committedConfiguration s;
          s1 = (if \<not> AllocationEnabled cfg
                then s\<lparr>sampler := map_option (UpdateAllocationSamplingTarget 0 (sampler_part e)) (sampler s)\<rparr>
                else s);
          s2 = s1\<lparr>service_authority := source, committedConfiguration := cfg\<rparr>
      in s2\<lparr>sampler := map_option
             (\<lambda>p. let p1 = PublishCommittedConfiguration previous cfg e p
                  in if \<not> AllocationEnabled cfg then snd (StopAllocationSamplingSession (sampler_part e) p1) else p1)
             (sampler s2)\<rparr>)"

text \<open>
  The activation steps for a candidate that enables anything: \<open>Inl\<close> is a finished transaction (a
  failure), \<open>Inr\<close> the service that is ready to commit.
\<close>

definition activate ::
    "sampler_config \<Rightarrow> apply_env \<Rightarrow> service \<Rightarrow> (apply_result \<times> controller_state \<times> service) + service" where
  "activate cfg e s =
     (let had = AnyFeatureEnabled (committedConfiguration s);
          s1 = EnsureSamplerCreated e s
      in case sampler s1 of
           None \<Rightarrow> Inl (failActivation had e s1)
         | Some p1 \<Rightarrow>
             let (prepared, s2) =
                   (if ConfigSelectiveEnabled cfg then EnsureSelectiveSamplingBuffersPrepared e s1 else (True, s1))
             in if \<not> prepared then Inl (failActivation had e s2)
             else
               let (started, p2) =
                     (if ThreadSamplingEnabled cfg then StartThreadSampling (sampler_part e) p1 else (True, p1));
                   s3 = s2\<lparr>sampler := Some p2\<rparr>
               in if \<not> started then Inl (failActivation had e s3)
               else
                 let (events, s4) = EnsureRequiredClrEventsEnabled e s3
                 in if \<not> events then Inl (failActivation had e s4)
                 else if AllocationEnabled cfg \<and> \<not> AllocationEnabled (committedConfiguration s)
                 then let (ok, p3) = StartAllocationSamplingSession (sampler_part e) p2;
                          s5 = s4\<lparr>sampler := Some p3\<rparr>
                      in if ok then Inr s5
                         else if IsAllocationSamplingPermanentlyDisabled p3
                         then Inl (ActivationFailed, outcome_state s5, s5)
                         else Inl (failActivation had e s5)
                 else Inr s4)"

definition ApplyConfiguration ::
    "authority \<Rightarrow> sampler_config \<Rightarrow> apply_env \<Rightarrow> service \<Rightarrow> apply_result \<times> controller_state \<times> service" where
  "ApplyConfiguration source cfg e s =
     (let unchanged = (\<lambda>r. (r, outcome_state s, s))
      in if shutdownStarted s then unchanged ShuttingDown
         else if activationFailed s then unchanged ActivationFailed
         else if (case sampler s of None \<Rightarrow> False | Some p \<Rightarrow> worker_failed p)
         then (ActivationFailed, outcome_state s,
               s\<lparr>activationFailed := True,
                 sampler := map_option (\<lambda>p. snd (Shutdown (sampler_part e) p)) (sampler s)\<rparr>)
         else if source \<noteq> Seed \<and> source \<noteq> ControlPlane then unchanged RejectedInvalidArgument
         else if \<not> IsValid cfg then unchanged RejectedInvalidConfiguration
         else if source = Seed \<and> service_authority s = Seed then unchanged IgnoredSeedAlreadyCommitted
         else if source = Seed \<and> service_authority s = ControlPlane then unchanged IgnoredLowerAuthority
         else if config_eq cfg (committedConfiguration s)
         then if source = service_authority s then unchanged NoChange
              else let s1 = s\<lparr>service_authority := source\<rparr> in (Applied, outcome_state s1, s1)
         else
           case (if AnyFeatureEnabled cfg then activate cfg e s else Inr s) of
             Inl r \<Rightarrow> r
           | Inr s1 \<Rightarrow> let s2 = commit_configuration source cfg e s1 in (Applied, outcome_state s2, s2))"

definition GetState :: "service \<Rightarrow> controller_state" where
  "GetState s = outcome_state s"

definition HasSamplingInfrastructure :: "service \<Rightarrow> bool" where
  "HasSamplingInfrastructure s \<longleftrightarrow> sampler s \<noteq> None"

definition ServiceShutdown :: "sampler_env \<Rightarrow> service \<Rightarrow> service" where
  "ServiceShutdown e s =
     s\<lparr>shutdownStarted := True, sampler := map_option (\<lambda>p. snd (Shutdown e p)) (sampler s)\<rparr>"

section \<open>What a committed configuration means\<close>

text \<open>
  The sampler runs exactly what is committed: the staged intervals are the committed ones, the
  allocation target is the committed one and the EventPipe session is active precisely when
  allocation sampling is committed; thread sampling that is committed has its worker. After a
  terminal failure or shutdown the sampler is shut down instead.
\<close>

definition intervals_match :: "sampler_config \<Rightarrow> profiler \<Rightarrow> bool" where
  "intervals_match cfg p \<longleftrightarrow>
     cpuSamplingInterval (desired_config p) = cpuSamplingIntervalMilliseconds cfg \<and>
     selectiveSamplingInterval (desired_config p) = selectiveThreadSamplingIntervalMilliseconds cfg"

definition runs_config :: "sampler_config \<Rightarrow> profiler \<Rightarrow> bool" where
  "runs_config cfg p \<longleftrightarrow> intervals_match cfg p \<and> \<not> shutdown_requested p \<and>
     (ThreadSamplingEnabled cfg \<longrightarrow> sampling_thread p) \<and>
     (alloc_session_state p = SessionActive \<longleftrightarrow> AllocationEnabled cfg) \<and>
     allocation_target p = maxAllocationSamplesPerMinute cfg"

definition is_shut_down :: "profiler \<Rightarrow> bool" where
  "is_shut_down p \<longleftrightarrow> shutdown_requested p \<and> \<not> sampling_thread p \<and>
     alloc_session_state p \<noteq> SessionActive \<and> allocation_target p = 0"

definition service_terminal :: "service \<Rightarrow> bool" where
  "service_terminal s \<longleftrightarrow> shutdownStarted s \<or> activationFailed s"

definition service_inv :: "service \<Rightarrow> bool" where
  "service_inv s \<longleftrightarrow>
     IsValid (committedConfiguration s) \<and>
     (AnyFeatureEnabled (committedConfiguration s) \<longrightarrow> sampler s \<noteq> None \<and> requiredClrEventsEnabled s) \<and>
     (\<forall>p. sampler s = Some p \<longrightarrow>
        (if service_terminal s then is_shut_down p else runs_config (committedConfiguration s) p))"

lemma is_shut_down_Shutdown: "runs_config cfg p \<or> is_shut_down p \<Longrightarrow> is_shut_down (snd (Shutdown e p))"
  using shutdown_effect [of p e] shutdown_again [of p e] by (cases "shutdown_requested p") (auto simp: is_shut_down_def runs_config_def)

lemma disabled_valid [simp]: "IsValid disabled_config" "\<not> AnyFeatureEnabled disabled_config"
  by (simp_all add: IsValid_def disabled_config_def feature_flags)

lemma service_inv_new: "service_inv (RuntimeSamplerService i7 i12)"
  by (simp add: service_inv_def RuntimeSamplerService_def)

lemma service_inv_ServiceShutdown:
  assumes "service_inv s" shows "service_inv (ServiceShutdown e s)"
proof -
  have "is_shut_down (snd (Shutdown e p))" if "sampler s = Some p" for p
    using assms that by (auto simp: service_inv_def split: if_splits intro: is_shut_down_Shutdown)
  with assms show ?thesis by (auto simp: service_inv_def ServiceShutdown_def service_terminal_def)
qed

text \<open>A failed activation keeps the invariant, whatever it did to the candidate's resources.\<close>

lemma fail_shutdown_inv:
  assumes "service_inv s"
  shows "service_inv (s\<lparr>activationFailed := True,
      sampler := map_option (\<lambda>p. snd (Shutdown e p)) (sampler s)\<rparr>)"
proof -
  have "is_shut_down (snd (Shutdown e p))" if "sampler s = Some p" for p
    using assms that by (auto simp: service_inv_def split: if_splits intro: is_shut_down_Shutdown)
  with assms show ?thesis by (auto simp: service_inv_def service_terminal_def)
qed

lemma failActivation_inv: "service_inv s \<Longrightarrow> service_inv (snd (snd (failActivation had e s)))"
  by (simp add: failActivation_def fail_shutdown_inv)

lemma failActivation_simps [simp]:
  "fst (failActivation had e s) = ActivationFailed"
  "fst (snd (failActivation had e s)) = outcome_state s"
  "committedConfiguration (snd (snd (failActivation had e s))) = committedConfiguration s"
  "service_authority (snd (snd (failActivation had e s))) = service_authority s"
  by (simp_all add: failActivation_def)

section \<open>Activation steps\<close>

text \<open>The parts of the service that no activation step may touch.\<close>

definition same_controller :: "service \<Rightarrow> service \<Rightarrow> bool" where
  "same_controller s t \<longleftrightarrow>
     committedConfiguration t = committedConfiguration s \<and> service_authority t = service_authority s \<and>
     shutdownStarted t = shutdownStarted s \<and> activationFailed t = activationFailed s"

lemma same_controller_refl [simp]: "same_controller s s"
  by (simp add: same_controller_def)

lemma EnsureSamplerCreated_ok:
  assumes "service_inv s" "\<not> service_terminal s"
  shows "same_controller s (EnsureSamplerCreated e s) \<and> service_inv (EnsureSamplerCreated e s)"
proof (cases "EnsureSamplerCreated e s = s")
  case False
  then have none: "sampler s = None"
    and t: "EnsureSamplerCreated e s = s\<lparr>sampler := Some (ContinuousProfiler\<lparr>profiler_info7 := True,
        profiler_info12 := info12 s, global_profiler_info := True, stack_walker := True\<rparr>)\<rparr>"
    by (auto simp: EnsureSamplerCreated_def split: if_splits)
  with assms show ?thesis
    by (simp add: service_inv_def service_terminal_def same_controller_def runs_config_def intervals_match_def
        ContinuousProfiler_def allocation_target_def feature_flags)
qed (use assms in simp)

lemma EnsureSelective_ok:
  "same_controller s (snd (EnsureSelectiveSamplingBuffersPrepared e s)) \<and>
   sampler (snd (EnsureSelectiveSamplingBuffersPrepared e s)) = sampler s \<and>
   (service_inv s \<longrightarrow> service_inv (snd (EnsureSelectiveSamplingBuffersPrepared e s)))"
  by (simp add: EnsureSelectiveSamplingBuffersPrepared_def service_inv_def service_terminal_def same_controller_def)

lemma EnsureEvents_ok:
  "same_controller s (snd (EnsureRequiredClrEventsEnabled e s)) \<and>
   sampler (snd (EnsureRequiredClrEventsEnabled e s)) = sampler s \<and>
   (service_inv s \<longrightarrow> service_inv (snd (EnsureRequiredClrEventsEnabled e s))) \<and>
   (fst (EnsureRequiredClrEventsEnabled e s) \<longrightarrow> requiredClrEventsEnabled (snd (EnsureRequiredClrEventsEnabled e s)))"
  by (simp add: EnsureRequiredClrEventsEnabled_def service_inv_def service_terminal_def same_controller_def)

lemma StartThreadSampling_ok:
  assumes "runs_config cfg p" "\<not> worker_failed p"
  shows "runs_config cfg (snd (StartThreadSampling e p))"
    and "fst (StartThreadSampling e p) \<longrightarrow> sampling_thread (snd (StartThreadSampling e p))"
    and "\<not> worker_failed (snd (StartThreadSampling e p))"
  using assms by (auto simp: StartThreadSampling_def runs_config_def intervals_match_def)

lemma StartAllocation_ok:
  assumes "runs_config cfg p" "\<not> AllocationEnabled cfg"
  shows "fst (StartAllocationSamplingSession e p) \<Longrightarrow>
      alloc_session_state (snd (StartAllocationSamplingSession e p)) = SessionActive \<and>
      allocationSubSampler (snd (StartAllocationSamplingSession e p)) \<noteq> None"
    and "\<not> fst (StartAllocationSamplingSession e p) \<Longrightarrow> runs_config cfg (snd (StartAllocationSamplingSession e p))"
    and "intervals_match cfg (snd (StartAllocationSamplingSession e p))"
    and "\<not> shutdown_requested (snd (StartAllocationSamplingSession e p))"
    and "sampling_thread (snd (StartAllocationSamplingSession e p)) = sampling_thread p"
  using assms
  by (auto simp: StartAllocationSamplingSession_def runs_config_def intervals_match_def Let_def allocation_target_def
      AllocationSubSampler_def split: prod.splits option.splits if_splits)

text \<open>What a successful activation has established for the candidate, before the commit.\<close>

definition activated :: "sampler_config \<Rightarrow> service \<Rightarrow> service \<Rightarrow> bool" where
  "activated cfg s t \<longleftrightarrow> same_controller s t \<and> requiredClrEventsEnabled t \<and>
     (\<exists>p. sampler t = Some p \<and> intervals_match (committedConfiguration s) p \<and> \<not> shutdown_requested p \<and>
        (ThreadSamplingEnabled cfg \<longrightarrow> sampling_thread p) \<and>
        (AllocationEnabled cfg \<longrightarrow> alloc_session_state p = SessionActive \<and> allocationSubSampler p \<noteq> None))"

text \<open>What a failed activation leaves.\<close>

definition rolled_back :: "service \<Rightarrow> apply_result \<times> controller_state \<times> service \<Rightarrow> bool" where
  "rolled_back s r \<longleftrightarrow> fst r = ActivationFailed \<and> fst (snd r) = outcome_state s \<and>
     committedConfiguration (snd (snd r)) = committedConfiguration s \<and>
     service_authority (snd (snd r)) = service_authority s \<and> service_inv (snd (snd r))"

lemma rolled_back_fail: "service_inv t \<Longrightarrow> same_controller s t \<Longrightarrow> rolled_back s (failActivation had e t)"
  by (simp add: rolled_back_def failActivation_inv same_controller_def outcome_state_def)

lemma rolled_back_keep: "service_inv t \<Longrightarrow> same_controller s t \<Longrightarrow> rolled_back s (ActivationFailed, outcome_state t, t)"
  by (simp add: rolled_back_def same_controller_def outcome_state_def)

lemma same_controller_trans: "same_controller s t \<Longrightarrow> same_controller t u \<Longrightarrow> same_controller s u"
  by (simp add: same_controller_def)

lemma same_controller_terminal: "same_controller s t \<Longrightarrow> service_terminal t = service_terminal s"
  by (simp add: same_controller_def service_terminal_def)

lemma service_inv_sampler:
  "service_inv s \<Longrightarrow> \<not> service_terminal s \<Longrightarrow> runs_config (committedConfiguration s) p \<Longrightarrow> service_inv (s\<lparr>sampler := Some p\<rparr>)"
  by (auto simp: service_inv_def service_terminal_def)

text \<open>
  The last stage, with the sampler \<open>p\<close> created, its worker started and the CLR events on: start the
  allocation session if the candidate adds one.
\<close>

definition allocation_stage ::
    "sampler_config \<Rightarrow> apply_env \<Rightarrow> service \<Rightarrow> service \<Rightarrow> profiler \<Rightarrow> (apply_result \<times> controller_state \<times> service) + service" where
  "allocation_stage cfg e s t p =
     (if AllocationEnabled cfg \<and> \<not> AllocationEnabled (committedConfiguration s)
      then let (ok, p3) = StartAllocationSamplingSession (sampler_part e) p; u = t\<lparr>sampler := Some p3\<rparr>
           in if ok then Inr u
              else if IsAllocationSamplingPermanentlyDisabled p3 then Inl (ActivationFailed, outcome_state u, u)
              else Inl (failActivation (AnyFeatureEnabled (committedConfiguration s)) e u)
      else Inr t)"

lemma allocation_stage_ok:
  assumes inv: "service_inv t" "\<not> service_terminal t" "same_controller s t" "sampler t = Some p"
    and ev: "requiredClrEventsEnabled t" and thread: "ThreadSamplingEnabled cfg \<longrightarrow> sampling_thread p"
  shows "case allocation_stage cfg e s t p of Inl r \<Rightarrow> rolled_back s r | Inr u \<Rightarrow> activated cfg s u"
proof -
  have cfg: "committedConfiguration t = committedConfiguration s" using inv(3) by (simp add: same_controller_def)
  have runs: "runs_config (committedConfiguration s) p" using inv cfg by (simp add: service_inv_def)
  show ?thesis
  proof (cases "AllocationEnabled cfg \<and> \<not> AllocationEnabled (committedConfiguration s)")
    case True
    let ?r = "StartAllocationSamplingSession (sampler_part e) p"
    note start = StartAllocation_ok [OF runs conjunct2 [OF True], of "sampler_part e"]
    show ?thesis
    proof (cases "fst ?r")
      case True
      with \<open>AllocationEnabled cfg \<and> _\<close> start inv ev thread show ?thesis
        by (simp add: allocation_stage_def case_prod_beta Let_def activated_def same_controller_def)
    next
      case False
      then have "service_inv (t\<lparr>sampler := Some (snd ?r)\<rparr>)"
        using start(2) cfg inv by (simp add: service_inv_sampler)
      moreover have "same_controller s (t\<lparr>sampler := Some (snd ?r)\<rparr>)" using inv(3) by (simp add: same_controller_def)
      ultimately show ?thesis using False \<open>AllocationEnabled cfg \<and> _\<close>
        by (simp add: allocation_stage_def case_prod_beta Let_def rolled_back_fail rolled_back_keep)
    qed
  next
    case False
    have "AllocationEnabled cfg \<longrightarrow> alloc_session_state p = SessionActive \<and> allocationSubSampler p \<noteq> None"
      using False runs
      by (cases "allocationSubSampler p") (auto simp: runs_config_def allocation_target_def AllocationEnabled_def)
    with False inv ev thread runs show ?thesis
      by (auto simp: allocation_stage_def activated_def runs_config_def)
  qed
qed

text \<open>The middle stages: selective buffers, the worker, the CLR events.\<close>

definition worker_stage ::
    "sampler_config \<Rightarrow> apply_env \<Rightarrow> service \<Rightarrow> service \<Rightarrow> profiler \<Rightarrow> (apply_result \<times> controller_state \<times> service) + service" where
  "worker_stage cfg e s t p =
     (let had = AnyFeatureEnabled (committedConfiguration s);
          (started, p2) = (if ThreadSamplingEnabled cfg then StartThreadSampling (sampler_part e) p else (True, p));
          s3 = t\<lparr>sampler := Some p2\<rparr>
      in if \<not> started then Inl (failActivation had e s3)
         else let (events, s4) = EnsureRequiredClrEventsEnabled e s3
              in if \<not> events then Inl (failActivation had e s4) else allocation_stage cfg e s s4 p2)"

lemma activate_stages:
  "activate cfg e s =
     (let s1 = EnsureSamplerCreated e s; had = AnyFeatureEnabled (committedConfiguration s)
      in case sampler s1 of
           None \<Rightarrow> Inl (failActivation had e s1)
         | Some p1 \<Rightarrow>
             let (prepared, s2) =
                   (if ConfigSelectiveEnabled cfg then EnsureSelectiveSamplingBuffersPrepared e s1 else (True, s1))
             in if \<not> prepared then Inl (failActivation had e s2) else worker_stage cfg e s s2 p1)"
  by (simp add: activate_def worker_stage_def allocation_stage_def Let_def case_prod_beta split: option.split)

lemma worker_stage_ok:
  assumes inv: "service_inv t" "\<not> service_terminal t" "same_controller s t" "sampler t = Some p"
    and healthy: "\<not> worker_failed p"
  shows "case worker_stage cfg e s t p of Inl r \<Rightarrow> rolled_back s r | Inr u \<Rightarrow> activated cfg s u"
proof -
  define r where "r = (if ThreadSamplingEnabled cfg then StartThreadSampling (sampler_part e) p else (True, p))"
  define t3 where "t3 = t\<lparr>sampler := Some (snd r)\<rparr>"
  define ev where "ev = EnsureRequiredClrEventsEnabled e t3"
  have cfg: "committedConfiguration t = committedConfiguration s" using inv(3) by (simp add: same_controller_def)
  have "runs_config (committedConfiguration s) p" using inv cfg by (simp add: service_inv_def)
  from StartThreadSampling_ok [OF this healthy, of "sampler_part e"]
  have runs: "runs_config (committedConfiguration s) (snd r)"
    and started: "fst r \<longrightarrow> ThreadSamplingEnabled cfg \<longrightarrow> sampling_thread (snd r)"
    using \<open>runs_config (committedConfiguration s) p\<close> by (auto simp: r_def)
  have t3: "service_inv t3" "same_controller s t3" "sampler t3 = Some (snd r)"
    using inv runs cfg by (simp_all add: t3_def service_inv_sampler same_controller_def)
  have ev_ok: "same_controller s (snd ev)" "sampler (snd ev) = Some (snd r)" "service_inv (snd ev)"
      "fst ev \<longrightarrow> requiredClrEventsEnabled (snd ev)"
    using EnsureEvents_ok [of t3 e] t3 same_controller_trans by (auto simp: ev_def)
  have live: "\<not> service_terminal (snd ev)"
    using ev_ok(1) inv same_controller_terminal by blast
  have eq: "worker_stage cfg e s t p =
      (let had = AnyFeatureEnabled (committedConfiguration s)
       in if \<not> fst r then Inl (failActivation had e t3)
          else if \<not> fst ev then Inl (failActivation had e (snd ev))
          else allocation_stage cfg e s (snd ev) (snd r))"
    by (simp add: worker_stage_def r_def t3_def ev_def Let_def case_prod_beta)
  show ?thesis
    using allocation_stage_ok [OF ev_ok(3) live ev_ok(1,2), of cfg e] started ev_ok t3
    unfolding eq by (auto simp: Let_def rolled_back_fail)
qed

lemma activate_ok:
  assumes inv: "service_inv s" "\<not> service_terminal s"
    and healthy: "\<And>p. sampler s = Some p \<Longrightarrow> \<not> worker_failed p"
  shows "case activate cfg e s of Inl r \<Rightarrow> rolled_back s r | Inr u \<Rightarrow> activated cfg s u"
proof -
  define s1 where "s1 = EnsureSamplerCreated e s"
  have s1: "same_controller s s1" "service_inv s1"
    using EnsureSamplerCreated_ok [OF inv, of e] by (simp_all add: s1_def)
  have h1: "\<not> worker_failed p" if "sampler s1 = Some p" for p
    using that healthy
    by (cases "sampler s") (auto simp: s1_def EnsureSamplerCreated_def ContinuousProfiler_def split: if_splits)
  define q where "q = (if ConfigSelectiveEnabled cfg then EnsureSelectiveSamplingBuffersPrepared e s1 else (True, s1))"
  have q: "same_controller s (snd q)" "sampler (snd q) = sampler s1" "service_inv (snd q)"
    using s1 EnsureSelective_ok [of s1 e] same_controller_trans by (auto simp: q_def)
  have "\<not> service_terminal (snd q)" using q(1) inv same_controller_terminal by blast
  then have "case worker_stage cfg e s (snd q) p of Inl r \<Rightarrow> rolled_back s r | Inr u \<Rightarrow> activated cfg s u"
    if "sampler s1 = Some p" for p
    using worker_stage_ok [OF q(3) _ q(1)] q(2) h1 that by simp
  moreover have "activate cfg e s =
      (let had = AnyFeatureEnabled (committedConfiguration s)
       in case sampler s1 of
            None \<Rightarrow> Inl (failActivation had e s1)
          | Some p \<Rightarrow> if \<not> fst q then Inl (failActivation had e (snd q)) else worker_stage cfg e s (snd q) p)"
    unfolding activate_stages s1_def [symmetric] q_def [symmetric] Let_def case_prod_beta by (rule refl)
  ultimately show ?thesis
    using s1 q by (auto simp: Let_def rolled_back_fail split: option.split)
qed

section \<open>Commit\<close>

lemma intervals_match_frame [simp]:
  "intervals_match cfg (UpdateAllocationSamplingTarget n e p) = intervals_match cfg p"
  "intervals_match cfg (snd (StopAllocationSamplingSession e p)) = intervals_match cfg p"
  by (simp_all add: intervals_match_def)

lemma publish_intervals:
  "intervals_match previous p \<Longrightarrow> intervals_match cfg (PublishCommittedConfiguration previous cfg e p)"
  by (auto simp: PublishCommittedConfiguration_def StageThreadSamplingConfiguration_def intervals_match_def Let_def)

lemma publish_frame [simp]:
  "shutdown_requested (PublishCommittedConfiguration previous cfg e p) = shutdown_requested p"
  "sampling_thread (PublishCommittedConfiguration previous cfg e p) = sampling_thread p"
  "alloc_session_state (PublishCommittedConfiguration previous cfg e p) = alloc_session_state p"
  by (simp_all add: PublishCommittedConfiguration_def StageThreadSamplingConfiguration_def Let_def)

lemma publish_target:
  "AllocationEnabled cfg \<Longrightarrow> allocationSubSampler p \<noteq> None \<Longrightarrow>
     allocation_target (PublishCommittedConfiguration previous cfg e p) = maxAllocationSamplesPerMinute cfg"
  by (auto simp: PublishCommittedConfiguration_def StageThreadSamplingConfiguration_def Let_def allocation_target_update)

lemma commit_runs:
  assumes "intervals_match previous p" "\<not> shutdown_requested p" "ThreadSamplingEnabled cfg \<longrightarrow> sampling_thread p"
  shows "\<not> AllocationEnabled cfg \<Longrightarrow> runs_config cfg (snd (StopAllocationSamplingSession e'
           (PublishCommittedConfiguration previous cfg e (UpdateAllocationSamplingTarget 0 e' p))))"
    and "AllocationEnabled cfg \<Longrightarrow> alloc_session_state p = SessionActive \<Longrightarrow> allocationSubSampler p \<noteq> None \<Longrightarrow>
           runs_config cfg (PublishCommittedConfiguration previous cfg e p)"
proof -
  assume "\<not> AllocationEnabled cfg"
  then have "maxAllocationSamplesPerMinute cfg = 0" by (simp add: AllocationEnabled_def)
  with \<open>\<not> AllocationEnabled cfg\<close> assms show "runs_config cfg (snd (StopAllocationSamplingSession e'
      (PublishCommittedConfiguration previous cfg e (UpdateAllocationSamplingTarget 0 e' p))))"
    by (simp add: runs_config_def publish_intervals)
next
  assume "AllocationEnabled cfg" "alloc_session_state p = SessionActive" "allocationSubSampler p \<noteq> None"
  with assms show "runs_config cfg (PublishCommittedConfiguration previous cfg e p)"
    by (simp add: runs_config_def publish_intervals publish_target)
qed

lemma commit_simps [simp]:
  "committedConfiguration (commit_configuration source cfg e s) = cfg"
  "service_authority (commit_configuration source cfg e s) = source"
  "shutdownStarted (commit_configuration source cfg e s) = shutdownStarted s"
  "activationFailed (commit_configuration source cfg e s) = activationFailed s"
  "requiredClrEventsEnabled (commit_configuration source cfg e s) = requiredClrEventsEnabled s"
  by (simp_all add: commit_configuration_def Let_def)

lemma commit_inv:
  assumes "IsValid cfg" "\<not> service_terminal s"
    and "AnyFeatureEnabled cfg \<longrightarrow> sampler s \<noteq> None \<and> requiredClrEventsEnabled s"
    and "\<And>p. sampler s = Some p \<Longrightarrow> intervals_match (committedConfiguration s) p \<and> \<not> shutdown_requested p \<and>
        (ThreadSamplingEnabled cfg \<longrightarrow> sampling_thread p) \<and>
        (AllocationEnabled cfg \<longrightarrow> alloc_session_state p = SessionActive \<and> allocationSubSampler p \<noteq> None)"
  shows "service_inv (commit_configuration source cfg e s)"
proof -
  have "runs_config cfg q" if "sampler (commit_configuration source cfg e s) = Some q" for q
    using that assms(4) commit_runs [of "committedConfiguration s" _ cfg]
    by (cases "AllocationEnabled cfg") (auto simp: commit_configuration_def Let_def)
  moreover have "sampler (commit_configuration source cfg e s) = None \<longleftrightarrow> sampler s = None"
    by (simp add: commit_configuration_def Let_def)
  ultimately show ?thesis using assms(1-3) by (auto simp: service_inv_def service_terminal_def)
qed

section \<open>Transactions\<close>

text \<open>A request the service acts on: from a known source, valid, and not outranked.\<close>

definition eligible :: "authority \<Rightarrow> sampler_config \<Rightarrow> service \<Rightarrow> bool" where
  "eligible source cfg s \<longleftrightarrow> IsValid cfg \<and>
     (source = ControlPlane \<or> source = Seed \<and> service_authority s \<notin> {Seed, ControlPlane})"

definition worker_down :: "service \<Rightarrow> bool" where
  "worker_down s \<longleftrightarrow> (case sampler s of None \<Rightarrow> False | Some p \<Rightarrow> worker_failed p)"

lemma apply_terminal:
  "service_terminal s \<Longrightarrow> ApplyConfiguration source cfg e s =
     ((if shutdownStarted s then ShuttingDown else ActivationFailed), outcome_state s, s)"
  by (auto simp: ApplyConfiguration_def service_terminal_def Let_def)

lemma apply_worker_down:
  "\<not> service_terminal s \<Longrightarrow> worker_down s \<Longrightarrow> ApplyConfiguration source cfg e s =
     (ActivationFailed, outcome_state s, s\<lparr>activationFailed := True,
        sampler := map_option (\<lambda>p. snd (Shutdown (sampler_part e) p)) (sampler s)\<rparr>)"
  by (simp add: ApplyConfiguration_def service_terminal_def worker_down_def Let_def)

lemma apply_ineligible:
  "\<not> service_terminal s \<Longrightarrow> \<not> worker_down s \<Longrightarrow> \<not> eligible source cfg s \<Longrightarrow>
     \<exists>r. r \<noteq> Applied \<and> ApplyConfiguration source cfg e s = (r, outcome_state s, s)"
  by (simp add: ApplyConfiguration_def service_terminal_def worker_down_def eligible_def Let_def) auto

lemma apply_eligible:
  "\<not> service_terminal s \<Longrightarrow> \<not> worker_down s \<Longrightarrow> eligible source cfg s \<Longrightarrow>
     ApplyConfiguration source cfg e s =
       (if config_eq cfg (committedConfiguration s)
        then if source = service_authority s then (NoChange, outcome_state s, s)
             else (Applied, outcome_state (s\<lparr>service_authority := source\<rparr>), s\<lparr>service_authority := source\<rparr>)
        else case (if AnyFeatureEnabled cfg then activate cfg e s else Inr s) of
             Inl r \<Rightarrow> r
           | Inr s1 \<Rightarrow> (Applied, outcome_state (commit_configuration source cfg e s1), commit_configuration source cfg e s1))"
  by (auto simp: ApplyConfiguration_def service_terminal_def worker_down_def eligible_def Let_def split: sum.split)

text \<open>What every transaction guarantees.\<close>

definition transaction_ok ::
    "authority \<Rightarrow> sampler_config \<Rightarrow> service \<Rightarrow> apply_result \<times> controller_state \<times> service \<Rightarrow> bool" where
  "transaction_ok source cfg s r \<longleftrightarrow>
     service_inv (snd (snd r)) \<and> fst (snd r) = outcome_state (snd (snd r)) \<and>
     (if fst r = Applied
      then eligible source cfg s \<and> \<not> service_terminal s \<and> \<not> service_terminal (snd (snd r)) \<and>
           service_authority (snd (snd r)) = source \<and> config_eq (committedConfiguration (snd (snd r))) cfg
      else outcome_state (snd (snd r)) = outcome_state s)"

lemma transaction_ok_commit:
  assumes inv: "service_inv s" "\<not> service_terminal s" "\<not> worker_down s" and el: "eligible source cfg s"
  shows "transaction_ok source cfg s
    (case (if AnyFeatureEnabled cfg then activate cfg e s else Inr s) of
       Inl r \<Rightarrow> r
     | Inr s1 \<Rightarrow> (Applied, outcome_state (commit_configuration source cfg e s1), commit_configuration source cfg e s1))"
proof (cases "AnyFeatureEnabled cfg")
  case True
  have "\<And>p. sampler s = Some p \<Longrightarrow> \<not> worker_failed p" using inv(3) by (simp add: worker_down_def)
  from activate_ok [OF inv(1,2) this, of cfg e]
  have act: "case activate cfg e s of Inl r \<Rightarrow> rolled_back s r | Inr u \<Rightarrow> activated cfg s u" .
  show ?thesis
  proof (cases "activate cfg e s")
    case (Inl r)
    with act True show ?thesis by (auto simp: transaction_ok_def rolled_back_def outcome_state_def)
  next
    case (Inr u)
    with act have u: "activated cfg s u" by simp
    then have live: "\<not> service_terminal u" using inv(2) same_controller_terminal [of s u] by (simp add: activated_def)
    have "service_inv (commit_configuration source cfg e u)"
      using u live el by (intro commit_inv) (auto simp: activated_def same_controller_def eligible_def)
    with Inr True live inv(2) el show ?thesis
      by (simp add: transaction_ok_def service_terminal_def config_eq_def)
  qed
next
  case False
  have "service_inv (commit_configuration source cfg e s)"
    using inv el False
    by (intro commit_inv) (auto simp: service_inv_def runs_config_def AnyFeatureEnabled_def eligible_def)
  with inv(2) el False show ?thesis
    by (simp add: transaction_ok_def service_terminal_def config_eq_def)
qed

lemma ApplyConfiguration_ok:
  assumes inv: "service_inv s"
  shows "transaction_ok source cfg s (ApplyConfiguration source cfg e s)"
proof (cases "service_terminal s")
  case True
  with inv show ?thesis by (auto simp: transaction_ok_def apply_terminal)
next
  case live: False
  show ?thesis
  proof (cases "worker_down s")
    case True
    with live fail_shutdown_inv [OF inv, of "sampler_part e"] show ?thesis
      by (simp add: transaction_ok_def apply_worker_down outcome_state_def)
  next
    case up: False
    show ?thesis
    proof (cases "eligible source cfg s")
      case True
      have "service_inv (s\<lparr>service_authority := source\<rparr>)"
        using inv by (auto simp: service_inv_def service_terminal_def)
      with transaction_ok_commit [OF inv live up True, of e] live inv True show ?thesis
        unfolding apply_eligible [OF live up True]
        by (auto simp: transaction_ok_def service_terminal_def config_eq_def)
    next
      case False
      from apply_ineligible [OF live up False, of e] inv show ?thesis by (auto simp: transaction_ok_def)
    qed
  qed
qed


section \<open>Runs of the service\<close>

inductive service_step :: "service \<Rightarrow> service \<Rightarrow> bool" where
  step_apply: "service_step s (snd (snd (ApplyConfiguration source cfg e s)))"
| step_shutdown: "service_step s (ServiceShutdown e s)"
| step_worker_failed: "sampler s = Some p \<Longrightarrow> service_step s (s\<lparr>sampler := Some (MarkThreadSamplingWorkerFailed p)\<rparr>)"

inductive_cases service_stepE: "service_step s t"

definition service_init :: "service \<Rightarrow> bool" where
  "service_init s \<longleftrightarrow> (\<exists>i7 i12. s = RuntimeSamplerService i7 i12)"

lemma runs_config_mark [simp]:
  "runs_config cfg (MarkThreadSamplingWorkerFailed p) = runs_config cfg p"
  "is_shut_down (MarkThreadSamplingWorkerFailed p) = is_shut_down p"
  by (simp_all add: MarkThreadSamplingWorkerFailed_def runs_config_def is_shut_down_def intervals_match_def)

lemma service_inv_step: "service_inv s \<Longrightarrow> service_step s t \<Longrightarrow> service_inv t"
proof (erule service_stepE)
  fix source cfg e assume "service_inv s" "t = snd (snd (ApplyConfiguration source cfg e s))"
  with ApplyConfiguration_ok [of s source cfg e] show "service_inv t" by (simp add: transaction_ok_def)
next
  fix p assume "service_inv s" "t = s\<lparr>sampler := Some (MarkThreadSamplingWorkerFailed p)\<rparr>" "sampler s = Some p"
  then show "service_inv t" by (auto simp: service_inv_def service_terminal_def split: if_splits)
qed (simp add: service_inv_ServiceShutdown)

interpretation service_runs: step_invariant service_init service_step service_inv
  by unfold_locales (auto simp: service_init_def service_inv_new intro: service_inv_step)

text \<open>C1: a transaction of the runtime sampler is atomic. In every state the service can reach, what
  the caller is told is the state that is committed when the call returns; a transaction that is not
  Applied (rejected, ignored, unchanged, failed activation, shutting down) leaves the committed
  authority and configuration exactly as they were, whatever the CLR, the allocator and the worker
  answered; an Applied one commits the requested configuration under the requested authority.\<close>

theorem transaction_is_atomic:
  assumes "reach service_init service_step s" "ApplyConfiguration source cfg e s = (r, st, t)"
  shows "st = GetState t \<and>
    (if r = Applied then service_authority t = source \<and> config_eq (committedConfiguration t) cfg \<and> IsValid cfg
     else GetState t = GetState s)"
  using ApplyConfiguration_ok [OF service_runs.reach_inv [OF assms(1)], of source cfg e] assms(2)
  by (simp add: transaction_ok_def GetState_def eligible_def split: if_splits)

definition good_apply_env :: apply_env where
  "good_apply_env = sampler_env.extend good_env
     \<lparr>sampler_creation_throws = False, stack_walker_ready = True, prepare_buffers_throws = False,
      get_event_mask = S_OK, event_mask_low = 0x20, set_event_mask = S_OK, event_mask_throws = False\<rparr>"

definition cpu_config :: "u32 \<Rightarrow> sampler_config" where
  "cpu_config n = disabled_config\<lparr>cpuSamplingIntervalMilliseconds := n\<rparr>"

lemmas good_env_defs = good_apply_env_def good_env_def sampler_env.defs sampler_part_def

lemmas service_defs = ApplyConfiguration_def activate_def EnsureSamplerCreated_def
  EnsureRequiredClrEventsEnabled_def EnsureSelectiveSamplingBuffersPrepared_def StartThreadSampling_def
  commit_configuration_def PublishCommittedConfiguration_def RuntimeSamplerService_def ContinuousProfiler_def
  StageThreadSamplingConfiguration_def StopAllocationSamplingSession_def UpdateAllocationSamplingTarget_def
  worker_initialization_result_def failActivation_def outcome_state_def

lemma service_new_reach: "reach service_init service_step (RuntimeSamplerService i7 i12)"
  by (rule reach_init) (auto simp: service_init_def)

definition seeded :: service where
  "seeded = snd (snd (ApplyConfiguration Seed (cpu_config 1000) good_apply_env (RuntimeSamplerService True True)))"

lemma seeded_reach: "reach service_init service_step seeded"
  unfolding seeded_def by (rule reach_step [OF service_new_reach step_apply])

lemma cpu_config_simps [simp]:
  "cpuSamplingIntervalMilliseconds (cpu_config n) = n"
  "selectiveThreadSamplingIntervalMilliseconds (cpu_config n) = 0"
  "maxAllocationSamplesPerMinute (cpu_config n) = 0"
  "IsValid (cpu_config n)"
  by (simp_all add: cpu_config_def disabled_config_def IsValid_def)

lemma seeded_apply:
  "ApplyConfiguration Seed (cpu_config 1000) good_apply_env (RuntimeSamplerService True True) = (Applied, GetState seeded, seeded)"
proof -
  have "fst (ApplyConfiguration Seed (cpu_config 1000) good_apply_env (RuntimeSamplerService True True)) = Applied"
    by (simp add: service_defs good_env_defs feature_flags config_eq_def disabled_config_def)
  moreover have "fst (snd (ApplyConfiguration Seed (cpu_config 1000) good_apply_env (RuntimeSamplerService True True))) = GetState seeded"
    using ApplyConfiguration_ok [OF service_inv_new] by (simp add: transaction_ok_def seeded_def GetState_def)
  ultimately show ?thesis by (simp add: seeded_def prod_eq_iff)
qed

theorem transaction_is_atomic_witness:
  "fst (ApplyConfiguration Seed (cpu_config 1000) good_apply_env (RuntimeSamplerService True True)) = Applied \<and>
   service_authority seeded = Seed \<and> cpuSamplingIntervalMilliseconds (committedConfiguration seeded) = 1000"
  using transaction_is_atomic [OF service_new_reach seeded_apply] seeded_apply by (simp add: config_eq_def)




section \<open>Authority\<close>

definition authority_at_least :: "u32 \<Rightarrow> service \<Rightarrow> bool" where
  "authority_at_least k s \<longleftrightarrow> service_inv s \<and> service_authority s \<in> {AuthorityNone, Seed, ControlPlane} \<and>
     k \<le> authority_code (service_authority s)"

lemma apply_authority:
  assumes "authority_at_least k s"
  shows "authority_at_least k (snd (snd (ApplyConfiguration source cfg e s)))"
proof -
  from assms have "transaction_ok source cfg s (ApplyConfiguration source cfg e s)"
    by (intro ApplyConfiguration_ok) (simp add: authority_at_least_def)
  with assms show ?thesis
    by (auto simp: authority_at_least_def transaction_ok_def eligible_def outcome_state_def word_le_nat_alt
        split: if_splits)
qed

lemma authority_step:
  assumes "authority_at_least k s" "service_step s t"
  shows "authority_at_least k t"
proof -
  have "service_inv t" using assms service_inv_step by (auto simp: authority_at_least_def)
  with assms(2) show ?thesis
    using assms(1) apply_authority [OF assms(1)]
    by (cases rule: service_step.cases) (auto simp: authority_at_least_def ServiceShutdown_def)
qed

interpretation authority_latch: step_latch service_step "authority_at_least k" for k
  by unfold_locales (rule authority_step)

lemma authority_new: "authority_at_least 0 (RuntimeSamplerService i7 i12)"
  using service_inv_new [of i7 i12] by (simp add: authority_at_least_def RuntimeSamplerService_def)

interpretation authority_runs: step_invariant service_init service_step "authority_at_least 0"
  by unfold_locales (auto simp: service_init_def authority_new elim: authority_step)

text \<open>C3: authority only rises. Along every run of the service from a reachable state the committed
  authority never gets weaker (None, then Seed, then ControlPlane), and once anything is committed a
  Seed transaction is never applied again: the start-up configuration is consumed at most once and
  cannot override the control plane.\<close>

theorem authority_never_lowered:
  assumes "reach service_init service_step s" "service_step\<^sup>*\<^sup>* s t"
  shows "authority_code (service_authority s) \<le> authority_code (service_authority t) \<and>
    (service_authority s \<noteq> AuthorityNone \<longrightarrow> fst (ApplyConfiguration Seed cfg e t) \<noteq> Applied)"
proof -
  from authority_runs.reach_inv [OF assms(1)]
  have s: "authority_at_least (authority_code (service_authority s)) s" by (simp add: authority_at_least_def)
  have t: "authority_at_least (authority_code (service_authority s)) t"
    using authority_latch.latch_forever [OF assms(2) s] .
  then have "transaction_ok Seed cfg t (ApplyConfiguration Seed cfg e t)"
    by (intro ApplyConfiguration_ok) (simp add: authority_at_least_def)
  with s t show ?thesis
    by (auto simp: authority_at_least_def transaction_ok_def eligible_def split: if_splits)
qed

theorem authority_never_lowered_witness:
  "service_authority seeded = Seed \<and>
   fst (ApplyConfiguration Seed (cpu_config 5) good_apply_env (ServiceShutdown good_env seeded)) \<noteq> Applied"
proof -
  have "service_authority seeded = Seed" "service_step seeded (ServiceShutdown good_env seeded)"
    by (simp_all add: seeded_def service_defs good_env_defs feature_flags config_eq_def disabled_config_def step_shutdown)
  with authority_never_lowered [OF seeded_reach r_into_rtranclp, of "ServiceShutdown good_env seeded" "cpu_config 5" good_apply_env]
  show ?thesis by simp
qed

section \<open>Terminal states\<close>

lemma terminal_step: "service_terminal s \<Longrightarrow> service_step s t \<Longrightarrow> service_terminal t"
  by (elim service_stepE) (auto simp: apply_terminal, auto simp: service_terminal_def ServiceShutdown_def)

interpretation terminal_latch: step_latch service_step service_terminal
  by unfold_locales (rule terminal_step)

text \<open>C4: failure and shutdown are terminal. Once a service has been shut down or has lost its only
  activation, then after any further run every transaction is answered with ShuttingDown or
  ActivationFailed, changes nothing at all, and the sampler, if one was created, has no worker, no
  active EventPipe session and a zero allocation target.\<close>

theorem terminal_service_stays_down:
  assumes "reach service_init service_step s" "shutdownStarted s \<or> activationFailed s" "service_step\<^sup>*\<^sup>* s t"
  shows "ApplyConfiguration source cfg e t =
      ((if shutdownStarted t then ShuttingDown else ActivationFailed), GetState t, t) \<and>
    (case sampler t of None \<Rightarrow> True
     | Some p \<Rightarrow> \<not> sampling_thread p \<and> alloc_session_state p \<noteq> SessionActive \<and> allocation_target p = 0)"
proof -
  from assms(2) have "service_terminal s" by (simp add: service_terminal_def)
  from terminal_latch.latch_forever [OF assms(3) this] have t: "service_terminal t" .
  from service_runs.reach_inv [OF reach_steps [OF assms(1,3)]] t
  have "case sampler t of None \<Rightarrow> True | Some p \<Rightarrow> is_shut_down p"
    by (simp add: service_inv_def split: option.split)
  with apply_terminal [OF t] show ?thesis by (simp add: GetState_def is_shut_down_def split: option.splits)
qed

theorem terminal_service_stays_down_witness:
  "sampler seeded \<noteq> None \<and>
   fst (ApplyConfiguration ControlPlane (cpu_config 5) good_apply_env (ServiceShutdown good_env seeded)) = ShuttingDown"
proof -
  have down: "shutdownStarted (ServiceShutdown good_env seeded)" by (simp add: ServiceShutdown_def)
  from terminal_service_stays_down [OF reach_step [OF seeded_reach step_shutdown], of good_env _ ControlPlane "cpu_config 5" good_apply_env]
    down have "fst (ApplyConfiguration ControlPlane (cpu_config 5) good_apply_env (ServiceShutdown good_env seeded)) = ShuttingDown"
    by simp
  moreover have "sampler seeded \<noteq> None"
    by (simp add: seeded_def service_defs good_env_defs feature_flags config_eq_def disabled_config_def)
  ultimately show ?thesis by simp
qed


section \<open>The entry points of the profiler\<close>

text \<open>
  What \<open>CorProfiler\<close> keeps of the sampler: whether \<open>info12_\<close> was obtained, and the service, which is
  absent when its construction failed. Request and out-parameter are nullable pointers.
\<close>

record sampling_facade =
  facade_info12 :: bool
  runtime_sampler_service :: "service option"

definition InitializeRuntimeSamplerService :: "bool \<Rightarrow> bool \<Rightarrow> bool \<Rightarrow> sampling_facade" where
  "InitializeRuntimeSamplerService construction_throws i7 i12 =
     \<lparr>facade_info12 = i12,
      runtime_sampler_service = (if construction_throws then None else Some (RuntimeSamplerService i7 i12))\<rparr>"

definition GetContinuousProfilerState ::
    "sampling_facade \<Rightarrow> sampler_state option \<Rightarrow> query_result \<times> sampler_state option" where
  "GetContinuousProfilerState c actualState =
     (case runtime_sampler_service c of
        Some s \<Rightarrow> EncodeRuntimeSamplerState (GetState s) actualState
      | None \<Rightarrow> EncodeRuntimeSamplerState default_controller_state actualState)"

definition ApplyContinuousProfilerConfiguration ::
    "sampler_config option \<Rightarrow> authority \<Rightarrow> sampler_state option \<Rightarrow> apply_env \<Rightarrow> sampling_facade \<Rightarrow>
     apply_result \<times> sampler_state option \<times> sampling_facade" where
  "ApplyContinuousProfilerConfiguration request auth actualState e c =
     (case actualState of
        None \<Rightarrow> (RejectedInvalidArgument, actualState, c)
      | Some out \<Rightarrow>
          if state_structureSize out \<noteq> sizeof_RuntimeSamplerState then (RejectedUnsupportedLayout, actualState, c)
          else
            let rejected = (\<lambda>r. (r, snd (GetContinuousProfilerState c actualState), c))
            in case request of
                 None \<Rightarrow> rejected RejectedInvalidArgument
               | Some req \<Rightarrow>
                   if structureSize req \<noteq> sizeof_RuntimeSamplerConfiguration then rejected RejectedUnsupportedLayout
                   else if auth \<noteq> Seed \<and> auth \<noteq> ControlPlane then rejected RejectedInvalidArgument
                   else if \<not> IsValid req then rejected RejectedInvalidConfiguration
                   else if AllocationEnabled req \<and> \<not> facade_info12 c \<and> auth \<noteq> Seed
                   then rejected RejectedUnsupportedRuntime
                   else
                     let configuration = (if AllocationEnabled req \<and> \<not> facade_info12 c
                                          then req\<lparr>maxAllocationSamplesPerMinute := 0\<rparr> else req)
                     in case runtime_sampler_service c of
                          None \<Rightarrow> (ActivationFailed, snd (EncodeRuntimeSamplerState default_controller_state actualState), c)
                        | Some s \<Rightarrow>
                            let (r, st, s') = ApplyConfiguration auth configuration e s
                            in (r, snd (EncodeRuntimeSamplerState st actualState),
                                c\<lparr>runtime_sampler_service := Some s'\<rparr>))"

text \<open>The start-up adapter: always Seed authority, its result only logged.\<close>

definition ConfigureContinuousProfiler ::
    "bool \<Rightarrow> u32 \<Rightarrow> bool \<Rightarrow> u32 \<Rightarrow> u32 \<Rightarrow> apply_env \<Rightarrow> sampling_facade \<Rightarrow> sampling_facade" where
  "ConfigureContinuousProfiler threadSamplingEnabled threadSamplingInterval allocationSamplingEnabled
     maxMemorySamplesPerMinute selectedThreadsSamplingInterval e c =
     (let request = \<lparr>structureSize = sizeof_RuntimeSamplerConfiguration,
            cpuSamplingIntervalMilliseconds = (if threadSamplingEnabled then threadSamplingInterval else 0),
            selectiveThreadSamplingIntervalMilliseconds = selectedThreadsSamplingInterval,
            maxAllocationSamplesPerMinute = (if allocationSamplingEnabled then maxMemorySamplesPerMinute else 0)\<rparr>;
          actualState = \<lparr>state_structureSize = sizeof_RuntimeSamplerState, encoded_authority = 0,
            encoded_configuration = \<lparr>structureSize = 0, cpuSamplingIntervalMilliseconds = 0,
              selectiveThreadSamplingIntervalMilliseconds = 0, maxAllocationSamplesPerMinute = 0\<rparr>\<rparr>
      in snd (snd (ApplyContinuousProfilerConfiguration (Some request) Seed (Some actualState) e c)))"

fun apply_result_code :: "apply_result \<Rightarrow> int" where
  "apply_result_code Applied = 0"
| "apply_result_code NoChange = 1"
| "apply_result_code IgnoredSeedAlreadyCommitted = 2"
| "apply_result_code IgnoredLowerAuthority = 3"
| "apply_result_code RejectedInvalidArgument = 4"
| "apply_result_code RejectedUnsupportedLayout = 5"
| "apply_result_code RejectedInvalidConfiguration = 6"
| "apply_result_code RejectedUnsupportedRuntime = 7"
| "apply_result_code ActivationFailed = 8"
| "apply_result_code ShuttingDown = 9"


fun query_result_code :: "query_result \<Rightarrow> int" where
  "query_result_code Succeeded = 0"
| "query_result_code InvalidArgument = 1"
| "query_result_code UnsupportedLayout = 2"

text \<open>The exported entry points; \<open>None\<close> is \<open>trace::profiler == nullptr\<close>, before start or after teardown.\<close>

definition exported_ConfigureContinuousProfiler ::
    "bool \<Rightarrow> u32 \<Rightarrow> bool \<Rightarrow> u32 \<Rightarrow> u32 \<Rightarrow> apply_env \<Rightarrow> sampling_facade option \<Rightarrow> sampling_facade option" where
  "exported_ConfigureContinuousProfiler th th_int al al_max sel e profiler =
     map_option (ConfigureContinuousProfiler th th_int al al_max sel e) profiler"

definition exported_ApplyContinuousProfilerConfiguration ::
    "sampler_config option \<Rightarrow> authority \<Rightarrow> sampler_state option \<Rightarrow> apply_env \<Rightarrow> sampling_facade option \<Rightarrow>
     int \<times> sampler_state option \<times> sampling_facade option" where
  "exported_ApplyContinuousProfilerConfiguration request auth actualState e profiler =
     (case profiler of
        None \<Rightarrow>
          let (stateResult, out) = EncodeRuntimeSamplerState default_controller_state actualState
          in (apply_result_code
                (case stateResult of
                   InvalidArgument \<Rightarrow> RejectedInvalidArgument
                 | UnsupportedLayout \<Rightarrow> RejectedUnsupportedLayout
                 | Succeeded \<Rightarrow> ShuttingDown), out, None)
      | Some c \<Rightarrow>
          let (r, out, c') = ApplyContinuousProfilerConfiguration request auth actualState e c
          in (apply_result_code r, out, Some c'))"

definition exported_GetContinuousProfilerState ::
    "sampler_state option \<Rightarrow> sampling_facade option \<Rightarrow> int \<times> sampler_state option" where
  "exported_GetContinuousProfilerState actualState profiler =
     (let (q, out) = (case profiler of
            None \<Rightarrow> EncodeRuntimeSamplerState default_controller_state actualState
          | Some c \<Rightarrow> GetContinuousProfilerState c actualState)
      in (query_result_code q, out))"

inductive facade_step :: "sampling_facade \<Rightarrow> sampling_facade \<Rightarrow> bool" where
  facade_configure: "facade_step c (ConfigureContinuousProfiler th th_int al al_max sel e c)"
| facade_apply: "facade_step c (snd (snd (ApplyContinuousProfilerConfiguration request auth out e c)))"
| facade_shutdown: "runtime_sampler_service c = Some s \<Longrightarrow>
    facade_step c (c\<lparr>runtime_sampler_service := Some (ServiceShutdown e' s)\<rparr>)"
| facade_worker_failed: "runtime_sampler_service c = Some s \<Longrightarrow> sampler s = Some p \<Longrightarrow>
    facade_step c (c\<lparr>runtime_sampler_service := Some (s\<lparr>sampler := Some (MarkThreadSamplingWorkerFailed p)\<rparr>)\<rparr>)"

definition facade_init :: "sampling_facade \<Rightarrow> bool" where
  "facade_init c \<longleftrightarrow> (\<exists>throws i7 i12. c = InitializeRuntimeSamplerService throws i7 i12)"

definition facade_inv :: "sampling_facade \<Rightarrow> bool" where
  "facade_inv c \<longleftrightarrow> (\<forall>s. runtime_sampler_service c = Some s \<longrightarrow>
     service_inv s \<and> (facade_info12 c \<or> \<not> AllocationEnabled (committedConfiguration s)))"

lemma facade_inv_init: "facade_init c \<Longrightarrow> facade_inv c"
  by (auto simp: facade_init_def facade_inv_def InitializeRuntimeSamplerService_def service_inv_new
      RuntimeSamplerService_def disabled_config_def AllocationEnabled_def split: if_splits)
    (metis RuntimeSamplerService_def disabled_config_def service_inv_new)

text \<open>The service call inside the facade, with the candidate the facade lets through.\<close>

lemma facade_call_inv:
  assumes "facade_inv c" "runtime_sampler_service c = Some s" "facade_info12 c \<or> \<not> AllocationEnabled cfg"
    "ApplyConfiguration auth cfg e s = (r, st, s')"
  shows "facade_inv (c\<lparr>runtime_sampler_service := Some s'\<rparr>) \<and> st = GetState s'"
proof -
  from assms(1,2) have "service_inv s" by (simp add: facade_inv_def)
  from ApplyConfiguration_ok [OF this, of auth cfg e] assms show ?thesis
    by (auto simp: facade_inv_def transaction_ok_def GetState_def config_eq_def AllocationEnabled_def outcome_state_def
        split: if_splits)
qed

lemma Encode_ok:
  "state_structureSize out = sizeof_RuntimeSamplerState \<Longrightarrow> EncodeRuntimeSamplerState st (Some out) =
     (Succeeded, Some \<lparr>state_structureSize = sizeof_RuntimeSamplerState,
        encoded_authority = authority_code (state_authority st), encoded_configuration = state_configuration st\<rparr>)"
  by (simp add: EncodeRuntimeSamplerState_def)

text \<open>One facade call, summarised: the invariant, the out-parameter, and what a rejection leaves alone.\<close>

definition facade_call_ok ::
    "sampler_state option \<Rightarrow> sampling_facade \<Rightarrow> apply_result \<times> sampler_state option \<times> sampling_facade \<Rightarrow> bool" where
  "facade_call_ok actualState c x \<longleftrightarrow> facade_inv (snd (snd x)) \<and> facade_info12 (snd (snd x)) = facade_info12 c \<and>
     (if fst (GetContinuousProfilerState c actualState) = Succeeded
      then fst (snd x) = snd (GetContinuousProfilerState (snd (snd x)) actualState) \<and>
           (fst x \<noteq> Applied \<longrightarrow> fst (snd x) = snd (GetContinuousProfilerState c actualState))
      else fst (snd x) = actualState \<and> snd (snd x) = c)"

lemma facade_call_ok_unchanged:
  "facade_inv c \<Longrightarrow> fst (GetContinuousProfilerState c a) = Succeeded \<Longrightarrow>
     facade_call_ok a c (r, snd (GetContinuousProfilerState c a), c)"
  by (simp add: facade_call_ok_def)

lemma facade_call_ok_service:
  assumes "facade_inv c" "runtime_sampler_service c = Some s" "facade_info12 c \<or> \<not> AllocationEnabled cfg"
    "ApplyConfiguration auth cfg e s = (r, st, s')" "state_structureSize out = sizeof_RuntimeSamplerState"
  shows "facade_call_ok (Some out) c
    (r, snd (EncodeRuntimeSamplerState st (Some out)), c\<lparr>runtime_sampler_service := Some s'\<rparr>)"
proof -
  from assms(1,2) have "service_inv s" by (simp add: facade_inv_def)
  with ApplyConfiguration_ok [of s auth cfg e] assms(4) have "r \<noteq> Applied \<longrightarrow> GetState s' = GetState s"
    by (auto simp: transaction_ok_def GetState_def)
  with facade_call_inv [OF assms(1-4)] assms(2) show ?thesis
    by (simp add: facade_call_ok_def GetContinuousProfilerState_def Encode_ok [OF assms(5)])
qed

lemma ApplyContinuousProfilerConfiguration_ok:
  assumes "facade_inv c"
  shows "facade_call_ok actualState c (ApplyContinuousProfilerConfiguration request auth actualState e c)"
proof (cases "fst (GetContinuousProfilerState c actualState) = Succeeded")
  case False
  with assms show ?thesis
    by (auto simp: ApplyContinuousProfilerConfiguration_def facade_call_ok_def GetContinuousProfilerState_def
        EncodeRuntimeSamplerState_def split: option.splits if_splits)
next
  case True
  then obtain out where a: "actualState = Some out" and sz: "state_structureSize out = sizeof_RuntimeSamplerState"
    by (auto simp: GetContinuousProfilerState_def EncodeRuntimeSamplerState_def split: option.splits if_splits)
  note unchanged = facade_call_ok_unchanged [OF assms True [unfolded a]]
  have absent: "facade_call_ok (Some out) c (ActivationFailed, snd (EncodeRuntimeSamplerState default_controller_state (Some out)), c)"
    if "runtime_sampler_service c = None"
    using that unchanged [of ActivationFailed] by (simp add: GetContinuousProfilerState_def)
  have call: "facade_call_ok (Some out) c (case ApplyConfiguration a' cfg e s of (r, st, s') \<Rightarrow>
      (r, snd (EncodeRuntimeSamplerState st (Some out)), c\<lparr>runtime_sampler_service := Some s'\<rparr>))"
    if "runtime_sampler_service c = Some s" "facade_info12 c \<or> \<not> AllocationEnabled cfg" for a' cfg s
    using facade_call_ok_service [OF assms that _ sz] by (simp split: prod.split)
  show ?thesis
    using sz unchanged absent
    by (auto simp: a ApplyContinuousProfilerConfiguration_def Let_def AllocationEnabled_def
        intro!: call split: option.split)
qed


lemma facade_inv_step: "facade_inv c \<Longrightarrow> facade_step c c' \<Longrightarrow> facade_inv c'"
proof (erule facade_step.cases)
  fix ca th th_int al al_max sel e
  assume c: "facade_inv c" "c = ca" "c' = ConfigureContinuousProfiler th th_int al al_max sel e ca"
  then show "facade_inv c'"
    using ApplyContinuousProfilerConfiguration_ok [OF c(1), unfolded facade_call_ok_def]
    by (simp add: ConfigureContinuousProfiler_def Let_def)
next
  fix ca request auth out e
  assume c: "facade_inv c" "c = ca" "c' = snd (snd (ApplyContinuousProfilerConfiguration request auth out e ca))"
  then show "facade_inv c'"
    using ApplyContinuousProfilerConfiguration_ok [OF c(1), unfolded facade_call_ok_def] by simp
next
  fix ca s e
  assume "facade_inv c" "c = ca" "c' = ca\<lparr>runtime_sampler_service := Some (ServiceShutdown e s)\<rparr>"
    "runtime_sampler_service ca = Some s"
  then show "facade_inv c'"
    using service_inv_step [OF _ step_shutdown] by (auto simp: facade_inv_def, simp add: ServiceShutdown_def)
next
  fix ca s p
  assume "facade_inv c" "c = ca" "runtime_sampler_service ca = Some s" "sampler s = Some p"
    "c' = ca\<lparr>runtime_sampler_service := Some (s\<lparr>sampler := Some (MarkThreadSamplingWorkerFailed p)\<rparr>)\<rparr>"
  then show "facade_inv c'"
    using service_inv_step [OF _ step_worker_failed] by (auto simp: facade_inv_def)
qed

interpretation facade_runs: step_invariant facade_init facade_step facade_inv
  by unfold_locales (auto intro: facade_inv_init facade_inv_step)

text \<open>The apply entry point reports the truth. In every reachable state of the profiler, when the
  caller passes a well-formed out-parameter the call leaves in it exactly what a state query made right
  after the call would return, and for every result other than Applied exactly what a query made before
  it would have returned; with a null or wrongly sized out-parameter neither the out-parameter nor the
  profiler changes. A configuration with allocation sampling is never committed on a runtime without
  the profiler interface it needs.\<close>

theorem apply_reports_committed_state:
  assumes "reach facade_init facade_step c"
    and "ApplyContinuousProfilerConfiguration request auth actualState e c = (r, out, c')"
  shows "(if fst (GetContinuousProfilerState c actualState) = Succeeded
      then out = snd (GetContinuousProfilerState c' actualState) \<and>
           (r \<noteq> Applied \<longrightarrow> out = snd (GetContinuousProfilerState c actualState))
      else out = actualState \<and> c' = c) \<and>
    (\<not> facade_info12 c \<longrightarrow> (case runtime_sampler_service c' of None \<Rightarrow> True
       | Some s \<Rightarrow> \<not> AllocationEnabled (committedConfiguration s)))"
  using ApplyContinuousProfilerConfiguration_ok [OF facade_runs.reach_inv [OF assms(1)], of actualState request auth e]
    assms(2)
  by (auto simp: facade_call_ok_def facade_inv_def split: option.split)

definition blank_state :: sampler_state where
  "blank_state = \<lparr>state_structureSize = 24, encoded_authority = 0, encoded_configuration = disabled_config\<rparr>"

theorem apply_reports_committed_state_witness:
  "let c = InitializeRuntimeSamplerService False True False;
       x = ApplyContinuousProfilerConfiguration (Some (cpu_config 1000\<lparr>maxAllocationSamplesPerMinute := 200\<rparr>))
             Seed (Some blank_state) good_apply_env c
   in fst x = Applied \<and> fst (snd x) = snd (GetContinuousProfilerState (snd (snd x)) (Some blank_state)) \<and>
      \<not> AllocationEnabled (committedConfiguration (the (runtime_sampler_service (snd (snd x)))))"
proof -
  let ?c = "InitializeRuntimeSamplerService False True False"
  let ?x = "ApplyContinuousProfilerConfiguration (Some (cpu_config 1000\<lparr>maxAllocationSamplesPerMinute := 200\<rparr>))
             Seed (Some blank_state) good_apply_env ?c"
  have c: "reach facade_init facade_step ?c" by (rule reach_init) (auto simp: facade_init_def)
  have x: "?x = (fst ?x, fst (snd ?x), snd (snd ?x))" by simp
  have q: "fst (GetContinuousProfilerState ?c (Some blank_state)) = Succeeded" "\<not> facade_info12 ?c"
    by (simp_all add: InitializeRuntimeSamplerService_def GetContinuousProfilerState_def
        EncodeRuntimeSamplerState_def blank_state_def sizeof_RuntimeSamplerState_def)
  have r: "fst ?x = Applied" "runtime_sampler_service (snd (snd ?x)) \<noteq> None"
    by (simp_all add: ApplyContinuousProfilerConfiguration_def InitializeRuntimeSamplerService_def blank_state_def
        sizeof_RuntimeSamplerState_def sizeof_RuntimeSamplerConfiguration_def cpu_config_def disabled_config_def
        IsValid_def service_defs good_env_defs feature_flags config_eq_def Let_def split: prod.split)
  from apply_reports_committed_state [OF c x] q r show ?thesis by (auto simp: Let_def)
qed

end
