(* ===== verification/Stack_Walk_Guard.thy ===== *)
theory Stack_Walk_Guard
  imports Prelude
begin

text \<open>
  The stack-walk safety gate: \<open>stack_walk_guard.cpp\<close> in its x64 build. A caller that has suspended a
  thread schedules a probe; the guard's worker runs every hazardous call on the caller's behalf; the
  caller waits with a timeout and abandons the round when the worker is blocked. Everything done under
  \<open>mutex_\<close> is one atomic step, the worker's hazardous calls are separate steps, and caller, worker and
  shutdown interleave freely. The theorems: caller memory is written only by a successful round that
  the caller is still waiting for; a Success verdict means every hazardous call of the probe completed;
  a timeout names the call the worker is in; Stopping is terminal and the worker then ends.
\<close>

section \<open>Data\<close>

datatype ProbeResult =
    ProbeSuccess | ProbeFailed | ProbeStopping | HeapOrStlLockTimeout | CanaryDssTimeout
  | RtlLookupTimeout | ClrIpMapTimeout | LoaderLockTimeout | RtlUnwindTimeout

datatype State = Starting | Idle | Scheduled | Running | Stopping

datatype ProbeKind = KindNone | KindCanaryDss | KindRtlFrame0

datatype ProbeStage =
    StageNone | HeapOrStlGate | CanaryDss | RtlLookup | ClrIpMap | LoaderLock | RtlUnwind

definition ProbeResultName :: "ProbeResult \<Rightarrow> string" where
  "ProbeResultName result =
     (case result of
        ProbeSuccess \<Rightarrow> ''Success''
      | ProbeFailed \<Rightarrow> ''Failed''
      | ProbeStopping \<Rightarrow> ''Stopping''
      | HeapOrStlLockTimeout \<Rightarrow> ''HeapOrStlLockTimeout''
      | CanaryDssTimeout \<Rightarrow> ''CanaryDssTimeout''
      | RtlLookupTimeout \<Rightarrow> ''RtlLookupTimeout''
      | ClrIpMapTimeout \<Rightarrow> ''ClrIpMapTimeout''
      | LoaderLockTimeout \<Rightarrow> ''LoaderLockTimeout''
      | RtlUnwindTimeout \<Rightarrow> ''RtlUnwindTimeout'')"

definition TimeoutResultForStage :: "ProbeStage \<Rightarrow> ProbeResult" where
  "TimeoutResultForStage stage =
     (case stage of
        HeapOrStlGate \<Rightarrow> HeapOrStlLockTimeout
      | CanaryDss \<Rightarrow> CanaryDssTimeout
      | RtlLookup \<Rightarrow> RtlLookupTimeout
      | ClrIpMap \<Rightarrow> ClrIpMapTimeout
      | LoaderLock \<Rightarrow> LoaderLockTimeout
      | RtlUnwind \<Rightarrow> RtlUnwindTimeout
      | StageNone \<Rightarrow> ProbeFailed)"

text \<open>The register context: the two registers the probe reads and the ones it only hands on.\<close>

record cpu_context =
  Rip :: u64
  Rsp :: u64
  other_registers :: "u64 list"

record captured_frame =
  functionId :: u64
  instructionPointer :: u64
  frameInfo :: u64
  contextSize :: u32
  frame_threadId :: u64
  isUnmanagedFrame :: bool

definition empty_frame :: captured_frame where
  "empty_frame = \<lparr>functionId = 0, instructionPointer = 0, frameInfo = 0, contextSize = 0, frame_threadId = 0,
     isUnmanagedFrame = False\<rparr>"

definition empty_context :: cpu_context where
  "empty_context = \<lparr>Rip = 0, Rsp = 0, other_registers = []\<rparr>"

text \<open>Addresses of caller memory are naturals; 0 is the null pointer.\<close>

record probe_request =
  probe_kind :: ProbeKind
  canary :: u64
  ctx_inout :: nat
  frame_out :: nat
  staged_ctx :: cpu_context
  staged_frame :: captured_frame

definition empty_request :: probe_request where
  "empty_request = \<lparr>probe_kind = KindNone, canary = 0, ctx_inout = 0, frame_out = 0,
     staged_ctx = empty_context, staged_frame = empty_frame\<rparr>"

text \<open>The result of the function-table lookup: the image base and the entry's begin address, if any.\<close>

record rtl_lookup =
  imageBase :: u64
  rtFunc :: "u32 option"

section \<open>The guard\<close>

text \<open>Where the worker is: inside a call, or between two of its critical sections.\<close>

datatype worker_pc =
    WStart | WInit | WInitDone hresult | WWait | WPicked | WGate | WGateThrew | WGatePassed | WDispatch
  | WCanary | WCanaryDone
  | WLookup | WLooked rtl_lookup | WIpMap rtl_lookup | WMapped rtl_lookup hresult u64
  | WLoader rtl_lookup | WLoaded rtl_lookup bool | WUnwind rtl_lookup | WFinal
  | WPublish bool | WExit

datatype client_pc = ClientIdle | ClientWaiting

text \<open>
  The object's members, the worker's local request and position, the caller's position and the caller
  memory the request points to. \<open>completed\<close> lists the hazardous calls of the round that have returned;
  it has no counterpart in the code and is never read by the model.
\<close>

record guard =
  guard_state :: State
  guard_req :: probe_request
  abandon :: bool
  guard_result :: ProbeResult
  active_stage :: ProbeStage
  worker_at :: worker_pc
  worker_req :: probe_request
  completed :: "ProbeStage list"
  client_at :: client_pc
  ctx_mem :: "nat \<Rightarrow> cpu_context"
  frame_mem :: "nat \<Rightarrow> captured_frame"

definition StackWalkGuard :: "(nat \<Rightarrow> cpu_context) \<Rightarrow> (nat \<Rightarrow> captured_frame) \<Rightarrow> guard" where
  "StackWalkGuard cm fm =
     \<lparr>guard_state = Starting, guard_req = empty_request, abandon = False, guard_result = ProbeFailed,
      active_stage = StageNone, worker_at = WStart, worker_req = empty_request, completed = [],
      client_at = ClientIdle, ctx_mem = cm, frame_mem = fm\<rparr>"

definition RequestShutdown :: "guard \<Rightarrow> guard" where
  "RequestShutdown g =
     (if guard_state g = Stopping then g else g\<lparr>abandon := True, guard_state := Stopping\<rparr>)"

text \<open>The value \<open>WaitForInitialization\<close> returns once its wait is over; \<open>None\<close> while it waits.\<close>

definition WaitForInitialization :: "guard \<Rightarrow> bool option" where
  "WaitForInitialization g = (if guard_state g = Starting then None else Some (guard_state g = Idle))"

definition IsIdle :: "guard \<Rightarrow> bool" where
  "IsIdle g \<longleftrightarrow> guard_state g = Idle"

text \<open>\<open>Schedule\<close> at the end of its bounded wait: the wait's predicate decides between latch and refusal.\<close>

definition Schedule :: "probe_request \<Rightarrow> guard \<Rightarrow> bool \<times> guard" where
  "Schedule req g =
     (let ready = (guard_state g = Idle \<or> guard_state g = Stopping)
      in if \<not> ready \<or> guard_state g = Stopping then (False, g)
         else (True, g\<lparr>guard_req := req, abandon := False, guard_result := ProbeFailed,
                 active_stage := StageNone, guard_state := Scheduled\<rparr>))"

definition ScheduleDssProbe :: "u64 \<Rightarrow> guard \<Rightarrow> bool \<times> guard" where
  "ScheduleDssProbe cn g = Schedule (empty_request\<lparr>probe_kind := KindCanaryDss, canary := cn\<rparr>) g"

definition ScheduleRtlFrame0Probe :: "nat \<Rightarrow> nat \<Rightarrow> guard \<Rightarrow> bool \<times> guard" where
  "ScheduleRtlFrame0Probe ctx frame g =
     (if ctx = 0 \<or> frame = 0 then (False, g)
      else Schedule (empty_request\<lparr>probe_kind := KindRtlFrame0, ctx_inout := ctx, frame_out := frame,
             staged_ctx := ctx_mem g ctx\<rparr>) g)"

text \<open>\<open>AwaitProbeResult\<close> at the end of its bounded wait.\<close>

definition AwaitProbeResult :: "guard \<Rightarrow> ProbeResult \<times> guard" where
  "AwaitProbeResult g =
     (let finished = (guard_state g = Idle \<or> guard_state g = Stopping)
      in if guard_state g = Stopping then (ProbeStopping, g\<lparr>abandon := True\<rparr>)
         else if \<not> finished
         then let timeoutResult = TimeoutResultForStage (active_stage g)
              in (timeoutResult, g\<lparr>abandon := True, guard_result := timeoutResult\<rparr>)
         else (guard_result g, g))"

definition AwaitRtlFrame0ProbeResult :: "guard \<Rightarrow> ProbeResult \<times> guard" where
  "AwaitRtlFrame0ProbeResult g = AwaitProbeResult g"

section \<open>The worker\<close>

text \<open>
  What the calls that leave the guard answer. \<open>None\<close> is a C++ exception or a structured exception; the
  profiler interface may be absent, the module path may be unavailable and its classification unknown.
\<close>

record probe_env =
  api_present :: bool
  InitializeCurrentThread :: "hresult option"
  stl_gate_throws :: bool
  DoStackSnapshotUnseeded :: "(bool \<times> hresult) option"
  RtlLookupFunctionEntry :: "rtl_lookup option"
  GetFunctionFromIP :: "(hresult \<times> u64) option"
  GetModuleFileNameW :: "u32 option"
  IsSystemModuleFromPath :: "bool option"
  stack_word :: "u64 option"
  RtlVirtualUnwind :: "cpu_context option"

definition initializeResult :: "probe_env \<Rightarrow> hresult" where
  "initializeResult e =
     (if api_present e then (case InitializeCurrentThread e of None \<Rightarrow> E_FAIL | Some hr \<Rightarrow> hr) else E_INVALIDARG)"

text \<open>The exception boundary of the worker thread.\<close>

definition WorkerLoop_failed :: "guard \<Rightarrow> guard" where
  "WorkerLoop_failed g =
     g\<lparr>guard_result := ProbeFailed, guard_state := Stopping, active_stage := StageNone, worker_at := WExit\<rparr>"

text \<open>Dispatch on the request's kind: the answer of \<open>RunChecks\<close>, or the first hazardous call.\<close>

definition RunChecks :: "guard \<Rightarrow> guard" where
  "RunChecks g =
     (case probe_kind (worker_req g) of
        KindCanaryDss \<Rightarrow>
          if canary (worker_req g) = 0 then g\<lparr>worker_at := WPublish True\<rparr>
          else g\<lparr>active_stage := CanaryDss, worker_at := WCanary\<rparr>
      | KindRtlFrame0 \<Rightarrow>
          if ctx_inout (worker_req g) = 0 \<or> frame_out (worker_req g) = 0 then g\<lparr>worker_at := WPublish False\<rparr>
          else if Rip (staged_ctx (worker_req g)) = 0 then g\<lparr>worker_at := WPublish False\<rparr>
          else g\<lparr>active_stage := RtlLookup, worker_at := WLookup\<rparr>
      | KindNone \<Rightarrow> g\<lparr>worker_at := WPublish False\<rparr>)"

text \<open>The canary snapshot: the callback must have fired and its abort must be what the CLR reports.\<close>

definition RunCanaryChecks :: "probe_env \<Rightarrow> guard \<Rightarrow> guard" where
  "RunCanaryChecks e g =
     (case DoStackSnapshotUnseeded e of
        None \<Rightarrow> g\<lparr>worker_at := WPublish False\<rparr>
      | Some (fired, hr) \<Rightarrow>
          if \<not> fired \<or> hr \<noteq> CORPROF_E_STACKSNAPSHOT_ABORTED then g\<lparr>worker_at := WPublish False\<rparr>
          else g\<lparr>completed := completed g @ [CanaryDss], worker_at := WCanaryDone\<rparr>)"

text \<open>The address under which a native frame is reported.\<close>

definition frameIp :: "rtl_lookup \<Rightarrow> bool option \<Rightarrow> u64 \<Rightarrow> u64" where
  "frameIp l classification rip =
     (case classification of
        Some isSystemModule \<Rightarrow>
          if \<not> isSystemModule then imageBase l
          else (case rtFunc l of Some rtFuncBegin \<Rightarrow> imageBase l + ucast rtFuncBegin | None \<Rightarrow> rip)
      | None \<Rightarrow>
          if imageBase l \<noteq> 0
          then (case rtFunc l of Some rtFuncBegin \<Rightarrow> imageBase l + ucast rtFuncBegin | None \<Rightarrow> rip)
          else rip)"

definition set_staged_frame :: "captured_frame \<Rightarrow> guard \<Rightarrow> guard" where
  "set_staged_frame f g = g\<lparr>worker_req := (worker_req g)\<lparr>staged_frame := f\<rparr>\<rparr>"

text \<open>Step 3 of the frame-0 probe: the frame is decoded; a native frame goes on to the loader lock.\<close>

definition stage_frame :: "rtl_lookup \<Rightarrow> hresult \<Rightarrow> u64 \<Rightarrow> guard \<Rightarrow> guard" where
  "stage_frame l fnHr managedFuncId g =
     (let isManaged = (SUCCEEDED fnHr \<and> managedFuncId \<noteq> 0);
          f = (staged_frame (worker_req g))\<lparr>frameInfo := 0, contextSize := 0,
                instructionPointer := Rip (staged_ctx (worker_req g))\<rparr>
      in if isManaged
         then (set_staged_frame (f\<lparr>functionId := managedFuncId, isUnmanagedFrame := False\<rparr>) g)\<lparr>worker_at := WFinal\<rparr>
         else (set_staged_frame (f\<lparr>functionId := 0, isUnmanagedFrame := True\<rparr>) g)
                \<lparr>active_stage := LoaderLock, worker_at := WLoader l\<rparr>)"

text \<open>The native frame's address is settled and the unwind begins.\<close>

definition stage_native :: "rtl_lookup \<Rightarrow> bool option \<Rightarrow> guard \<Rightarrow> guard" where
  "stage_native l classification g =
     (set_staged_frame ((staged_frame (worker_req g))
        \<lparr>instructionPointer := frameIp l classification (Rip (staged_ctx (worker_req g)))\<rparr>) g)
       \<lparr>active_stage := RtlUnwind, worker_at := WUnwind l\<rparr>"

text \<open>Step 4: unwind one frame in place; \<open>None\<close> is a fault or a null stack pointer.\<close>

definition unwind_frame :: "probe_env \<Rightarrow> rtl_lookup \<Rightarrow> cpu_context \<Rightarrow> cpu_context option" where
  "unwind_frame e l ctx =
     (case rtFunc l of
        None \<Rightarrow>
          if Rsp ctx = 0 then None
          else map_option (\<lambda>w. ctx\<lparr>Rip := w, Rsp := Rsp ctx + 8\<rparr>) (stack_word e)
      | Some b \<Rightarrow> RtlVirtualUnwind e)"

definition unwind_step :: "probe_env \<Rightarrow> rtl_lookup \<Rightarrow> guard \<Rightarrow> guard" where
  "unwind_step e l g =
     (case unwind_frame e l (staged_ctx (worker_req g)) of
        None \<Rightarrow> g\<lparr>worker_at := WPublish False\<rparr>
      | Some ctx' \<Rightarrow>
          let g1 = g\<lparr>worker_req := (worker_req g)\<lparr>staged_ctx := ctx'\<rparr>, completed := completed g @ [RtlUnwind]\<rparr>
          in if Rip ctx' = Rip (staged_ctx (worker_req g)) then g1\<lparr>worker_at := WPublish False\<rparr>
             else g1\<lparr>worker_at := WFinal\<rparr>)"

text \<open>A cooperative checkpoint: give the round up when it has been abandoned, else go on.\<close>

definition checkpoint :: "(guard \<Rightarrow> guard) \<Rightarrow> guard \<Rightarrow> guard" where
  "checkpoint next g = (if abandon g then g\<lparr>worker_at := WPublish False\<rparr> else next g)"

fun RunRtlFrame0Checks :: "probe_env \<Rightarrow> worker_pc \<Rightarrow> guard \<Rightarrow> guard" where
  "RunRtlFrame0Checks e WLookup g =
     (case RtlLookupFunctionEntry e of
        None \<Rightarrow> g\<lparr>worker_at := WPublish False\<rparr>
      | Some l \<Rightarrow> g\<lparr>completed := completed g @ [RtlLookup], worker_at := WLooked l\<rparr>)"
| "RunRtlFrame0Checks e (WLooked l) g =
     checkpoint (\<lambda>g. g\<lparr>active_stage := ClrIpMap, worker_at := WIpMap l\<rparr>) g"
| "RunRtlFrame0Checks e (WIpMap l) g =
     (case GetFunctionFromIP e of
        None \<Rightarrow> g\<lparr>worker_at := WPublish False\<rparr>
      | Some (hr, fid) \<Rightarrow> g\<lparr>completed := completed g @ [ClrIpMap], worker_at := WMapped l hr fid\<rparr>)"
| "RunRtlFrame0Checks e (WMapped l hr fid) g = checkpoint (stage_frame l hr fid) g"
| "RunRtlFrame0Checks e (WLoader l) g =
     (if imageBase l = 0 then stage_native l None g
      else g\<lparr>completed := completed g @ [LoaderLock],
             worker_at := WLoaded l (case GetModuleFileNameW e of None \<Rightarrow> False | Some pathLen \<Rightarrow> pathLen \<noteq> 0)\<rparr>)"
| "RunRtlFrame0Checks e (WLoaded l havePath) g =
     checkpoint (stage_native l (if havePath then IsSystemModuleFromPath e else None)) g"
| "RunRtlFrame0Checks e (WUnwind l) g = unwind_step e l g"
| "RunRtlFrame0Checks e WFinal g = checkpoint (\<lambda>g. g\<lparr>worker_at := WPublish True\<rparr>) g"
| "RunRtlFrame0Checks e pc g = g"

text \<open>
  The publication step: the only place where caller memory is written, under the mutex, for a round
  that succeeded and was not abandoned.
\<close>

definition publish :: "bool \<Rightarrow> guard \<Rightarrow> guard" where
  "publish ok g =
     (if guard_state g = Stopping then g\<lparr>worker_at := WExit\<rparr>
      else
        let success = (ok \<and> \<not> abandon g);
            r = worker_req g;
            g1 = (if success \<and> probe_kind r = KindRtlFrame0 \<and> ctx_inout r \<noteq> 0 \<and> frame_out r \<noteq> 0
                  then g\<lparr>ctx_mem := (ctx_mem g)(ctx_inout r := staged_ctx r),
                         frame_mem := (frame_mem g)(frame_out r := staged_frame r)\<rparr>
                  else g)
        in g1\<lparr>guard_result := (if success then ProbeSuccess else ProbeFailed), guard_state := Idle,
              active_stage := StageNone, worker_at := WWait\<rparr>)"

text \<open>One step of \<open>WorkerLoopCore\<close>; \<open>None\<close> when the worker waits for a request or has ended.\<close>

definition worker_step :: "probe_env \<Rightarrow> guard \<Rightarrow> guard option" where
  "worker_step e g =
     (case worker_at g of
        WStart \<Rightarrow> Some (if guard_state g = Stopping then g\<lparr>worker_at := WExit\<rparr> else g\<lparr>worker_at := WInit\<rparr>)
      | WInit \<Rightarrow> Some (g\<lparr>worker_at := WInitDone (initializeResult e)\<rparr>)
      | WInitDone hr \<Rightarrow>
          Some (if guard_state g = Stopping then g\<lparr>worker_at := WExit\<rparr>
                else if FAILED hr
                then g\<lparr>guard_result := ProbeFailed, guard_state := Stopping, worker_at := WExit\<rparr>
                else g\<lparr>guard_state := Idle, worker_at := WWait\<rparr>)
      | WWait \<Rightarrow>
          if guard_state g = Stopping then Some (g\<lparr>worker_at := WExit\<rparr>)
          else if guard_state g = Scheduled
          then Some (g\<lparr>worker_req := guard_req g, completed := [], guard_state := Running, worker_at := WPicked\<rparr>)
          else None
      | WPicked \<Rightarrow> Some (g\<lparr>active_stage := HeapOrStlGate, worker_at := WGate\<rparr>)
      | WGate \<Rightarrow>
          Some (if stl_gate_throws e then g\<lparr>worker_at := WGateThrew\<rparr>
                else g\<lparr>completed := completed g @ [HeapOrStlGate], worker_at := WGatePassed\<rparr>)
      | WGateThrew \<Rightarrow>
          Some (if guard_state g = Stopping then g\<lparr>worker_at := WExit\<rparr>
                else g\<lparr>guard_result := ProbeFailed, guard_state := Idle, active_stage := StageNone, worker_at := WWait\<rparr>)
      | WGatePassed \<Rightarrow> Some (checkpoint (\<lambda>g. g\<lparr>worker_at := WDispatch\<rparr>) g)
      | WDispatch \<Rightarrow> Some (RunChecks g)
      | WCanary \<Rightarrow> Some (RunCanaryChecks e g)
      | WCanaryDone \<Rightarrow> Some (checkpoint (\<lambda>g. g\<lparr>worker_at := WPublish True\<rparr>) g)
      | WPublish ok \<Rightarrow> Some (publish ok g)
      | WExit \<Rightarrow> None
      | pc \<Rightarrow> Some (RunRtlFrame0Checks e pc g))"

text \<open>The points of the loop that can raise a C++ exception: those that take the mutex or wait on it.\<close>

definition may_throw :: "worker_pc \<Rightarrow> bool" where
  "may_throw pc = (case pc of WStart \<Rightarrow> True | WInitDone _ \<Rightarrow> True | WWait \<Rightarrow> True | WGateThrew \<Rightarrow> True
     | WGatePassed \<Rightarrow> True | WPublish _ \<Rightarrow> True | _ \<Rightarrow> False)"

section \<open>Interleavings\<close>

text \<open>
  The caller side follows the documented single-flight protocol: one await for each successful schedule,
  and the caller leaves the memory it lent alone while it waits.
\<close>

inductive client_step :: "guard \<Rightarrow> guard \<Rightarrow> bool" where
  client_dss: "client_at g = ClientIdle \<Longrightarrow> ScheduleDssProbe cn g = (ok, g') \<Longrightarrow>
    client_step g (if ok then g'\<lparr>client_at := ClientWaiting\<rparr> else g')"
| client_rtl: "client_at g = ClientIdle \<Longrightarrow> ScheduleRtlFrame0Probe ctx frame g = (ok, g') \<Longrightarrow>
    client_step g (if ok then g'\<lparr>client_at := ClientWaiting\<rparr> else g')"
| client_await: "client_at g = ClientWaiting \<Longrightarrow> AwaitProbeResult g = (r, g') \<Longrightarrow>
    client_step g (g'\<lparr>client_at := ClientIdle\<rparr>)"
| client_write: "client_at g = ClientIdle \<Longrightarrow> client_step g (g\<lparr>ctx_mem := cm, frame_mem := fm\<rparr>)"
| client_shutdown: "client_step g (RequestShutdown g)"

inductive worker_moves :: "guard \<Rightarrow> guard \<Rightarrow> bool" where
  worker_runs: "worker_step e g = Some g' \<Longrightarrow> worker_moves g g'"
| worker_throws: "may_throw (worker_at g) \<Longrightarrow> worker_moves g (WorkerLoop_failed g)"

definition guard_step :: "guard \<Rightarrow> guard \<Rightarrow> bool" where
  "guard_step g g' \<longleftrightarrow> client_step g g' \<or> worker_moves g g'"

definition guard_init :: "guard \<Rightarrow> bool" where
  "guard_init g \<longleftrightarrow> (\<exists>cm fm. g = StackWalkGuard cm fm)"

section \<open>The invariant\<close>

definition same_target :: "probe_request \<Rightarrow> probe_request \<Rightarrow> bool" where
  "same_target r w \<longleftrightarrow> probe_kind w = probe_kind r \<and> canary w = canary r \<and>
     ctx_inout w = ctx_inout r \<and> frame_out w = frame_out r"

text \<open>
  What a successful round has done for its request: every hazardous call of the probe returned, and the
  staged outputs are the seed of a managed frame or the unwound context of a native one.
\<close>

definition round_done :: "probe_request \<Rightarrow> probe_request \<Rightarrow> ProbeStage list \<Rightarrow> bool" where
  "round_done r w calls \<longleftrightarrow> same_target r w \<and>
     (case probe_kind r of
        KindNone \<Rightarrow> False
      | KindCanaryDss \<Rightarrow> calls = HeapOrStlGate # (if canary r = 0 then [] else [CanaryDss])
      | KindRtlFrame0 \<Rightarrow>
          ctx_inout r \<noteq> 0 \<and> frame_out r \<noteq> 0 \<and> Rip (staged_ctx r) \<noteq> 0 \<and>
          (if isUnmanagedFrame (staged_frame w)
           then calls \<in> {[HeapOrStlGate, RtlLookup, ClrIpMap, LoaderLock, RtlUnwind],
                         [HeapOrStlGate, RtlLookup, ClrIpMap, RtlUnwind]} \<and>
                functionId (staged_frame w) = 0 \<and> Rip (staged_ctx w) \<noteq> Rip (staged_ctx r)
           else calls = [HeapOrStlGate, RtlLookup, ClrIpMap] \<and> functionId (staged_frame w) \<noteq> 0 \<and>
                staged_ctx w = staged_ctx r \<and> instructionPointer (staged_frame w) = Rip (staged_ctx r)))"

definition rtl_started :: "probe_request \<Rightarrow> probe_request \<Rightarrow> bool" where
  "rtl_started r w \<longleftrightarrow> same_target r w \<and> staged_ctx w = staged_ctx r \<and> probe_kind r = KindRtlFrame0 \<and>
     ctx_inout r \<noteq> 0 \<and> frame_out r \<noteq> 0 \<and> Rip (staged_ctx r) \<noteq> 0"

definition native_staged :: "probe_request \<Rightarrow> bool" where
  "native_staged w \<longleftrightarrow> isUnmanagedFrame (staged_frame w) \<and> functionId (staged_frame w) = 0"

text \<open>The progress of a round at each point of the worker.\<close>

fun round_ok :: "worker_pc \<Rightarrow> probe_request \<Rightarrow> probe_request \<Rightarrow> ProbeStage list \<Rightarrow> bool" where
  "round_ok WPicked r w calls = (w = r \<and> calls = [])"
| "round_ok WGate r w calls = (w = r \<and> calls = [])"
| "round_ok WGateThrew r w calls = True"
| "round_ok WGatePassed r w calls = (w = r \<and> calls = [HeapOrStlGate])"
| "round_ok WDispatch r w calls = (w = r \<and> calls = [HeapOrStlGate])"
| "round_ok WCanary r w calls = (w = r \<and> calls = [HeapOrStlGate] \<and> probe_kind r = KindCanaryDss \<and> canary r \<noteq> 0)"
| "round_ok WCanaryDone r w calls = round_done r w calls"
| "round_ok WLookup r w calls = (rtl_started r w \<and> calls = [HeapOrStlGate])"
| "round_ok (WLooked l) r w calls = (rtl_started r w \<and> calls = [HeapOrStlGate, RtlLookup])"
| "round_ok (WIpMap l) r w calls = (rtl_started r w \<and> calls = [HeapOrStlGate, RtlLookup])"
| "round_ok (WMapped l hr fid) r w calls = (rtl_started r w \<and> calls = [HeapOrStlGate, RtlLookup, ClrIpMap])"
| "round_ok (WLoader l) r w calls =
     (rtl_started r w \<and> native_staged w \<and> calls = [HeapOrStlGate, RtlLookup, ClrIpMap])"
| "round_ok (WLoaded l b) r w calls =
     (rtl_started r w \<and> native_staged w \<and> calls = [HeapOrStlGate, RtlLookup, ClrIpMap, LoaderLock])"
| "round_ok (WUnwind l) r w calls =
     (rtl_started r w \<and> native_staged w \<and>
      calls \<in> {[HeapOrStlGate, RtlLookup, ClrIpMap, LoaderLock], [HeapOrStlGate, RtlLookup, ClrIpMap]})"
| "round_ok WFinal r w calls = round_done r w calls"
| "round_ok (WPublish ok) r w calls = (ok \<longrightarrow> round_done r w calls)"
| "round_ok pc r w calls = False"

fun stage_fits :: "worker_pc \<Rightarrow> ProbeStage \<Rightarrow> bool" where
  "stage_fits WGate s = (s = HeapOrStlGate)"
| "stage_fits WGateThrew s = (s = HeapOrStlGate)"
| "stage_fits WGatePassed s = (s = HeapOrStlGate)"
| "stage_fits WDispatch s = (s = HeapOrStlGate)"
| "stage_fits WCanary s = (s = CanaryDss)"
| "stage_fits WCanaryDone s = (s = CanaryDss)"
| "stage_fits WLookup s = (s = RtlLookup)"
| "stage_fits (WLooked l) s = (s = RtlLookup)"
| "stage_fits (WIpMap l) s = (s = ClrIpMap)"
| "stage_fits (WMapped l hr fid) s = (s = ClrIpMap)"
| "stage_fits (WLoader l) s = (s = LoaderLock)"
| "stage_fits (WLoaded l b) s = (s = LoaderLock)"
| "stage_fits (WUnwind l) s = (s = RtlUnwind)"
| "stage_fits WFinal s = (s = ClrIpMap \<or> s = RtlUnwind)"
| "stage_fits (WPublish ok) s = True"
| "stage_fits pc s = (s = StageNone)"

definition pc_fits :: "State \<Rightarrow> worker_pc \<Rightarrow> bool" where
  "pc_fits st pc \<longleftrightarrow>
     (case st of
        Starting \<Rightarrow> (case pc of WStart \<Rightarrow> True | WInit \<Rightarrow> True | WInitDone _ \<Rightarrow> True | _ \<Rightarrow> False)
      | Idle \<Rightarrow> pc = WWait
      | Scheduled \<Rightarrow> pc = WWait
      | Running \<Rightarrow> (case pc of WStart \<Rightarrow> False | WInit \<Rightarrow> False | WInitDone _ \<Rightarrow> False | WWait \<Rightarrow> False
          | WExit \<Rightarrow> False | _ \<Rightarrow> True)
      | Stopping \<Rightarrow> True)"

definition outputs_delivered :: "guard \<Rightarrow> bool" where
  "outputs_delivered g \<longleftrightarrow> (probe_kind (guard_req g) = KindRtlFrame0 \<longrightarrow>
     ctx_mem g (ctx_inout (guard_req g)) = staged_ctx (worker_req g) \<and>
     frame_mem g (frame_out (guard_req g)) = staged_frame (worker_req g))"

definition guard_inv :: "guard \<Rightarrow> bool" where
  "guard_inv g \<longleftrightarrow>
     pc_fits (guard_state g) (worker_at g) \<and>
     (client_at g = ClientIdle \<and> guard_state g \<in> {Scheduled, Running} \<longrightarrow> abandon g) \<and>
     (guard_state g \<noteq> Stopping \<longrightarrow> stage_fits (worker_at g) (active_stage g)) \<and>
     (guard_state g = Running \<longrightarrow> round_ok (worker_at g) (guard_req g) (worker_req g) (completed g)) \<and>
     (guard_state g = Starting \<longrightarrow> guard_result g \<noteq> ProbeSuccess) \<and>
     (guard_state g = Idle \<and> guard_result g = ProbeSuccess \<longrightarrow>
        round_done (guard_req g) (worker_req g) (completed g) \<and>
        (client_at g = ClientWaiting \<longrightarrow> outputs_delivered g))"

lemma guard_inv_init: "guard_init g \<Longrightarrow> guard_inv g"
  by (auto simp: guard_init_def StackWalkGuard_def guard_inv_def pc_fits_def)

lemma timeout_not_success [simp]: "TimeoutResultForStage st \<noteq> ProbeSuccess"
  by (simp add: TimeoutResultForStage_def split: ProbeStage.split)

lemma guard_inv_schedule:
  assumes "guard_inv g" "Schedule r g = (ok, g')"
  shows "guard_inv (if ok then g'\<lparr>client_at := ClientWaiting\<rparr> else g')"
  using assms by (auto simp: Schedule_def guard_inv_def pc_fits_def Let_def split: if_splits)

lemma guard_inv_await:
  assumes "guard_inv g" "AwaitProbeResult g = (r, g')"
  shows "guard_inv (g'\<lparr>client_at := ClientIdle\<rparr>)"
  using assms by (cases "guard_state g") (auto simp: AwaitProbeResult_def guard_inv_def pc_fits_def Let_def)

lemma guard_inv_client:
  assumes "guard_inv g" "client_step g g'"
  shows "guard_inv g'"
  using assms(2)
proof cases
  case (client_dss cn ok g1)
  then show ?thesis using guard_inv_schedule [OF assms(1)] by (simp add: ScheduleDssProbe_def)
next
  case (client_rtl ctx frame ok g1)
  then show ?thesis
    using guard_inv_schedule [OF assms(1)] assms(1)
    by (cases "ctx = 0 \<or> frame = 0") (auto simp: ScheduleRtlFrame0Probe_def simp del: if_split split: if_splits(2))
next
  case (client_await r g1)
  then show ?thesis using guard_inv_await [OF assms(1)] by simp
next
  case client_write
  then show ?thesis using assms(1) by (auto simp: guard_inv_def)
next
  case client_shutdown
  then show ?thesis using assms(1) by (auto simp: guard_inv_def RequestShutdown_def pc_fits_def)
qed

text \<open>
  The worker's steps within a round keep the caller-visible members; what they change of the round is
  its progress. Publication and the other steps that leave \<open>Running\<close> are treated separately.
\<close>

definition in_round :: "worker_pc \<Rightarrow> bool" where
  "in_round pc = (case pc of WStart \<Rightarrow> False | WInit \<Rightarrow> False | WInitDone _ \<Rightarrow> False | WWait \<Rightarrow> False
     | WGateThrew \<Rightarrow> False | WPublish _ \<Rightarrow> False | WExit \<Rightarrow> False | _ \<Rightarrow> True)"

definition same_shared :: "guard \<Rightarrow> guard \<Rightarrow> bool" where
  "same_shared g g' \<longleftrightarrow> guard_state g' = guard_state g \<and> guard_req g' = guard_req g \<and> abandon g' = abandon g \<and>
     guard_result g' = guard_result g \<and> client_at g' = client_at g \<and> ctx_mem g' = ctx_mem g \<and> frame_mem g' = frame_mem g"

lemmas worker_defs = worker_step_def checkpoint_def RunChecks_def RunCanaryChecks_def stage_frame_def
  stage_native_def set_staged_frame_def unwind_step_def Let_def

lemma in_round_shared:
  assumes "in_round (worker_at g)" "worker_step e g = Some g'"
  shows "same_shared g g'"
  using assms
  by (cases "worker_at g")
    (auto simp: in_round_def same_shared_def worker_defs split: if_splits option.splits prod.splits ProbeKind.splits)

lemma in_round_stage:
  assumes "in_round (worker_at g)" "worker_step e g = Some g'" "stage_fits (worker_at g) (active_stage g)"
  shows "stage_fits (worker_at g') (active_stage g') \<and> pc_fits Running (worker_at g')"
  using assms
  by (cases "worker_at g")
    (auto simp: in_round_def pc_fits_def worker_defs split: if_splits option.splits prod.splits ProbeKind.splits)

lemma in_round_progress:
  assumes "in_round (worker_at g)" "worker_step e g = Some g'"
    and "round_ok (worker_at g) (guard_req g) (worker_req g) (completed g)"
  shows "round_ok (worker_at g') (guard_req g') (worker_req g') (completed g')"
  using assms
  by (cases "worker_at g")
    (auto simp: in_round_def worker_defs round_done_def rtl_started_def same_target_def native_staged_def
      split: if_splits option.splits prod.splits ProbeKind.splits)

lemma guard_inv_in_round:
  assumes "guard_inv g" "in_round (worker_at g)" "worker_step e g = Some g'"
  shows "guard_inv g'"
proof -
  have sh: "same_shared g g'" using in_round_shared [OF assms(2,3)] .
  have st: "guard_state g = Running \<or> guard_state g = Stopping"
    using assms(1,2)
    by (cases "guard_state g"; cases "worker_at g") (auto simp: guard_inv_def pc_fits_def in_round_def)
  then show ?thesis
    using sh in_round_stage [OF assms(2,3)] in_round_progress [OF assms(2,3)] assms(1)
    by (auto simp: guard_inv_def same_shared_def pc_fits_def)
qed

lemma round_done_target:
  "round_done r w calls \<Longrightarrow> probe_kind w = probe_kind r \<and> ctx_inout w = ctx_inout r \<and> frame_out w = frame_out r \<and>
     (probe_kind r = KindRtlFrame0 \<longrightarrow> ctx_inout r \<noteq> 0 \<and> frame_out r \<noteq> 0)"
  by (cases "probe_kind r") (simp_all add: round_done_def same_target_def)

lemma publish_cases:
  assumes "guard_state g \<noteq> Stopping"
  shows "guard_state (publish ok g) = Idle" "worker_at (publish ok g) = WWait" "active_stage (publish ok g) = StageNone"
    "guard_result (publish ok g) = (if ok \<and> \<not> abandon g then ProbeSuccess else ProbeFailed)"
    "guard_req (publish ok g) = guard_req g" "worker_req (publish ok g) = worker_req g"
    "completed (publish ok g) = completed g" "client_at (publish ok g) = client_at g" "abandon (publish ok g) = abandon g"
    "ok \<Longrightarrow> \<not> abandon g \<Longrightarrow> round_done (guard_req g) (worker_req g) (completed g) \<Longrightarrow> outputs_delivered (publish ok g)"
  using assms round_done_target [of "guard_req g" "worker_req g" "completed g"]
  by (auto simp: publish_def Let_def outputs_delivered_def)

lemma guard_inv_publish:
  assumes "guard_inv g" "worker_at g = WPublish ok"
  shows "guard_inv (publish ok g)"
proof (cases "guard_state g = Stopping")
  case True
  with assms show ?thesis by (simp add: guard_inv_def publish_def pc_fits_def)
next
  case False
  with assms have run: "guard_state g = Running" by (cases "guard_state g") (simp_all add: guard_inv_def pc_fits_def)
  with assms have "ok \<longrightarrow> round_done (guard_req g) (worker_req g) (completed g)" by (simp add: guard_inv_def)
  with publish_cases [OF False, of ok] show ?thesis by (simp add: guard_inv_def pc_fits_def)
qed

lemma guard_inv_other:
  assumes "guard_inv g" "\<not> in_round (worker_at g)" "worker_step e g = Some g'" "\<And>ok. worker_at g \<noteq> WPublish ok"
  shows "guard_inv g'"
  using assms
  by (cases "worker_at g"; cases "guard_state g")
    (auto simp: in_round_def worker_step_def guard_inv_def pc_fits_def split: if_splits)

lemma guard_inv_worker:
  assumes "guard_inv g" "worker_moves g g'"
  shows "guard_inv g'"
  using assms(2)
proof cases
  case (worker_runs e)
  show ?thesis
  proof (cases "\<exists>ok. worker_at g = WPublish ok")
    case True
    then obtain ok where ok: "worker_at g = WPublish ok" ..
    with worker_runs have "g' = publish ok g" by (simp add: worker_step_def)
    with guard_inv_publish [OF assms(1) ok] show ?thesis by simp
  next
    case False
    with guard_inv_other [OF assms(1) _ worker_runs] guard_inv_in_round [OF assms(1) _ worker_runs]
    show ?thesis by blast
  qed
next
  case worker_throws
  with assms(1) show ?thesis by (simp add: guard_inv_def WorkerLoop_failed_def pc_fits_def)
qed

interpretation guard_runs: step_invariant guard_init guard_step guard_inv
  by unfold_locales (auto simp: guard_inv_init guard_step_def intro: guard_inv_client guard_inv_worker)


section \<open>Properties\<close>

lemma worker_memory:
  assumes "worker_moves g g'" "ctx_mem g' \<noteq> ctx_mem g \<or> frame_mem g' \<noteq> frame_mem g"
  shows "\<exists>ok. worker_at g = WPublish ok \<and> g' = publish ok g"
  using assms(1)
proof cases
  case (worker_runs e)
  have "\<not> in_round (worker_at g)" using in_round_shared [OF _ worker_runs] assms(2) by (auto simp: same_shared_def)
  with worker_runs assms(2) show ?thesis
    by (cases "worker_at g") (auto simp: in_round_def worker_step_def split: if_splits)
next
  case worker_throws
  with assms(2) show ?thesis by (simp add: WorkerLoop_failed_def)
qed

text \<open>C16: the guard writes caller memory only for a live, successful round. In every reachable state,
  if a step of the worker changes caller memory at all, then the caller is still waiting in its await,
  the round has not been abandoned or stopped, only the two cells its frame-0 request lent are changed,
  they receive the staged outputs, and the very state produced answers the waiting caller with Success.
  So after an await has returned anything else, nothing it lent is ever written.\<close>

theorem caller_memory_written_only_for_live_round:
  assumes "reach guard_init guard_step g" "worker_moves g g'"
    and "ctx_mem g' \<noteq> ctx_mem g \<or> frame_mem g' \<noteq> frame_mem g"
  shows "client_at g = ClientWaiting \<and> \<not> abandon g \<and> guard_state g = Running \<and>
    probe_kind (guard_req g) = KindRtlFrame0 \<and>
    ctx_mem g' = (ctx_mem g)(ctx_inout (guard_req g) := staged_ctx (worker_req g)) \<and>
    frame_mem g' = (frame_mem g)(frame_out (guard_req g) := staged_frame (worker_req g)) \<and>
    fst (AwaitProbeResult g') = ProbeSuccess"
proof -
  have inv: "guard_inv g" using guard_runs.reach_inv [OF assms(1)] .
  obtain ok where ok: "worker_at g = WPublish ok" and g': "g' = publish ok g"
    using worker_memory [OF assms(2,3)] by blast
  have live: "guard_state g \<noteq> Stopping" "ok" "\<not> abandon g" "probe_kind (worker_req g) = KindRtlFrame0"
    using assms(3) by (auto simp: g' publish_def Let_def split: if_splits)
  with inv ok have run: "guard_state g = Running" by (cases "guard_state g") (simp_all add: guard_inv_def pc_fits_def)
  with inv ok live have "round_done (guard_req g) (worker_req g) (completed g)" by (simp add: guard_inv_def)
  from round_done_target [OF this] live run inv show ?thesis
    by (cases "client_at g") (simp_all add: g' publish_def Let_def AwaitProbeResult_def guard_inv_def)
qed

text \<open>C18: a Success verdict is a proof that the probe ran. In every reachable state in which a waiting
  caller is answered with Success, the heap gate and every hazardous call the request asks for have
  returned for this very request; for a frame-0 probe the caller's memory holds the decoded frame with
  either the untouched seed context of a managed frame, or the context of a native frame unwound to a
  different instruction pointer.\<close>

theorem success_means_every_call_returned:
  assumes "reach guard_init guard_step g" "client_at g = ClientWaiting" "fst (AwaitProbeResult g) = ProbeSuccess"
  shows "case probe_kind (guard_req g) of
      KindNone \<Rightarrow> False
    | KindCanaryDss \<Rightarrow> completed g = HeapOrStlGate # (if canary (guard_req g) = 0 then [] else [CanaryDss])
    | KindRtlFrame0 \<Rightarrow>
        (let seed = staged_ctx (guard_req g); ctx = ctx_mem g (ctx_inout (guard_req g));
             frame = frame_mem g (frame_out (guard_req g))
         in if isUnmanagedFrame frame
            then completed g \<in> {[HeapOrStlGate, RtlLookup, ClrIpMap, LoaderLock, RtlUnwind],
                                [HeapOrStlGate, RtlLookup, ClrIpMap, RtlUnwind]} \<and>
                 functionId frame = 0 \<and> Rip ctx \<noteq> Rip seed
            else completed g = [HeapOrStlGate, RtlLookup, ClrIpMap] \<and> functionId frame \<noteq> 0 \<and>
                 ctx = seed \<and> instructionPointer frame = Rip seed)"
proof -
  have inv: "guard_inv g" using guard_runs.reach_inv [OF assms(1)] .
  from assms(3) have "guard_state g = Idle" "guard_result g = ProbeSuccess"
    by (cases "guard_state g"; simp add: AwaitProbeResult_def Let_def)+
  with inv assms(2) have "round_done (guard_req g) (worker_req g) (completed g)" "outputs_delivered g"
    by (simp_all add: guard_inv_def)
  then show ?thesis
    by (cases "probe_kind (guard_req g)") (auto simp: round_done_def outputs_delivered_def Let_def split: if_splits)
qed

text \<open>The hazardous call the worker is inside, if it is inside one.\<close>

definition call_at :: "worker_pc \<Rightarrow> ProbeStage option" where
  "call_at pc = (case pc of WGate \<Rightarrow> Some HeapOrStlGate | WCanary \<Rightarrow> Some CanaryDss | WLookup \<Rightarrow> Some RtlLookup
     | WIpMap _ \<Rightarrow> Some ClrIpMap | WLoader _ \<Rightarrow> Some LoaderLock | WUnwind _ \<Rightarrow> Some RtlUnwind | _ \<Rightarrow> None)"

text \<open>C36: a timeout names its cause. When an await times out in a reachable state while the worker is
  inside a hazardous call, the result is the timeout of exactly that call, and the round is abandoned:
  whatever the worker's call returns, the verdict it publishes for this round is not Success.\<close>

theorem timeout_names_the_blocking_call:
  assumes "reach guard_init guard_step g" "guard_state g = Running" "call_at (worker_at g) = Some st"
  shows "AwaitProbeResult g = (TimeoutResultForStage st, g\<lparr>abandon := True, guard_result := TimeoutResultForStage st\<rparr>) \<and>
    TimeoutResultForStage st \<notin> {ProbeSuccess, ProbeFailed, ProbeStopping} \<and>
    guard_result (publish ok (snd (AwaitProbeResult g))) = ProbeFailed"
proof -
  have "guard_inv g" using guard_runs.reach_inv [OF assms(1)] .
  with assms(2,3) have "active_stage g = st \<and> st \<noteq> StageNone"
    by (cases "worker_at g") (auto simp: guard_inv_def call_at_def)
  with assms(2) show ?thesis
    by (cases st) (simp_all add: AwaitProbeResult_def publish_def TimeoutResultForStage_def Let_def)
qed


section \<open>Stopping\<close>

text \<open>An upper bound on the worker's remaining steps once the guard is stopping.\<close>

fun worker_rank :: "worker_pc \<Rightarrow> nat" where
  "worker_rank WStart = 1"
| "worker_rank WInit = 2"
| "worker_rank (WInitDone hr) = 1"
| "worker_rank WWait = 1"
| "worker_rank WPicked = 14"
| "worker_rank WGate = 13"
| "worker_rank WGateThrew = 1"
| "worker_rank WGatePassed = 12"
| "worker_rank WDispatch = 11"
| "worker_rank WCanary = 3"
| "worker_rank WCanaryDone = 2"
| "worker_rank WLookup = 9"
| "worker_rank (WLooked l) = 8"
| "worker_rank (WIpMap l) = 7"
| "worker_rank (WMapped l hr fid) = 6"
| "worker_rank (WLoader l) = 5"
| "worker_rank (WLoaded l b) = 4"
| "worker_rank (WUnwind l) = 3"
| "worker_rank WFinal = 2"
| "worker_rank (WPublish ok) = 1"
| "worker_rank WExit = 0"

lemma stopping_client: "guard_state g = Stopping \<Longrightarrow> client_step g g' \<Longrightarrow> guard_state g' = Stopping"
  by (erule client_step.cases)
    (auto simp: ScheduleDssProbe_def ScheduleRtlFrame0Probe_def Schedule_def AwaitProbeResult_def RequestShutdown_def
      split: if_splits)

lemma stopping_worker_step:
  assumes "guard_state g = Stopping" "worker_step e g = Some g'"
  shows "guard_state g' = Stopping \<and> ctx_mem g' = ctx_mem g \<and> frame_mem g' = frame_mem g"
proof (cases "in_round (worker_at g)")
  case True
  with in_round_shared [OF True assms(2)] assms(1) show ?thesis by (simp add: same_shared_def)
next
  case False
  with assms show ?thesis by (cases "worker_at g") (auto simp: in_round_def worker_step_def publish_def)
qed

lemma stopping_rank:
  assumes "guard_state g = Stopping" "worker_step e g = Some g'"
  shows "worker_rank (worker_at g') < worker_rank (worker_at g)"
  using assms
  by (cases "worker_at g")
    (auto simp: worker_defs publish_def split: if_splits option.splits prod.splits ProbeKind.splits)

lemma stopping_worker:
  assumes "guard_state g = Stopping" "worker_moves g g'"
  shows "guard_state g' = Stopping \<and> ctx_mem g' = ctx_mem g \<and> frame_mem g' = frame_mem g \<and>
    worker_rank (worker_at g') < worker_rank (worker_at g)"
  using assms(2)
proof cases
  case (worker_runs e)
  with stopping_worker_step stopping_rank assms(1) show ?thesis by blast
next
  case worker_throws
  then show ?thesis by (cases "worker_at g") (simp_all add: WorkerLoop_failed_def may_throw_def)
qed

interpretation stopping_latch: step_latch guard_step "\<lambda>g. guard_state g = Stopping"
  by unfold_locales (unfold guard_step_def, blast dest: stopping_client stopping_worker)

lemma worker_can_move: "worker_at g \<noteq> WExit \<Longrightarrow> guard_state g = Stopping \<Longrightarrow> \<exists>g'. worker_moves g g'"
proof -
  assume "worker_at g \<noteq> WExit" "guard_state g = Stopping"
  then have "worker_step e g \<noteq> None" for e by (cases "worker_at g") (simp_all add: worker_step_def)
  then show ?thesis using worker_runs by blast
qed

text \<open>Shutting the guard down is terminal and is not held up by it. Along every run from a stopping
  guard it stays stopping; every schedule is refused, every await is answered with Stopping and the
  start-up wait with false; the worker writes no caller memory any more; and as long as its pending call
  returns the worker can always go on, each of its steps bringing it closer to its exit, which it
  reaches within fourteen of them.\<close>

theorem stopping_guard_drains:
  assumes "guard_state g = Stopping" "guard_step\<^sup>*\<^sup>* g h"
  shows "guard_state h = Stopping \<and> Schedule r h = (False, h) \<and> fst (AwaitProbeResult h) = ProbeStopping \<and>
    WaitForInitialization h = Some False \<and> worker_rank (worker_at h) \<le> 14 \<and>
    (worker_at h \<noteq> WExit \<longrightarrow> (\<exists>h'. worker_moves h h')) \<and>
    (\<forall>h'. worker_moves h h' \<longrightarrow> worker_rank (worker_at h') < worker_rank (worker_at h) \<and>
       ctx_mem h' = ctx_mem h \<and> frame_mem h' = frame_mem h)"
proof -
  have h: "guard_state h = Stopping" using stopping_latch.latch_forever [OF assms(2)] assms(1) .
  have "worker_rank (worker_at h) \<le> 14" by (cases "worker_at h") simp_all
  with h stopping_worker [OF h] worker_can_move [of h] show ?thesis
    by (auto simp: Schedule_def AwaitProbeResult_def WaitForInitialization_def)
qed

section \<open>A concrete round\<close>

primrec worker_n :: "probe_env \<Rightarrow> nat \<Rightarrow> guard \<Rightarrow> guard" where
  "worker_n e 0 g = g"
| "worker_n e (Suc n) g = (case worker_step e g of None \<Rightarrow> g | Some g' \<Rightarrow> worker_n e n g')"

lemma worker_n_numeral:
  "worker_n e (numeral k) g = (case worker_step e g of None \<Rightarrow> g | Some g' \<Rightarrow> worker_n e (pred_numeral k) g')"
  by (simp add: numeral_eq_Suc)

lemma reach_worker_n: "reach guard_init guard_step g \<Longrightarrow> reach guard_init guard_step (worker_n e n g)"
proof (induction n arbitrary: g)
  case (Suc n)
  show ?case
  proof (cases "worker_step e g")
    case (Some g')
    have "guard_step g g'" using worker_runs [OF Some] by (simp add: guard_step_def)
    from Suc.IH [OF reach_step [OF Suc.prems this]] Some show ?thesis by simp
  qed (use Suc.prems in simp)
qed simp

text \<open>A managed frame 0, and an unwind that would move the instruction pointer.\<close>

definition calm_env :: probe_env where
  "calm_env = \<lparr>api_present = True, InitializeCurrentThread = Some S_OK, stl_gate_throws = False,
     DoStackSnapshotUnseeded = Some (True, CORPROF_E_STACKSNAPSHOT_ABORTED),
     RtlLookupFunctionEntry = Some \<lparr>imageBase = 0x1000, rtFunc = Some 0x20\<rparr>,
     GetFunctionFromIP = Some (S_OK, 77), GetModuleFileNameW = Some 12, IsSystemModuleFromPath = Some False,
     stack_word = Some 5, RtlVirtualUnwind = Some \<lparr>Rip = 9, Rsp = 16, other_registers = []\<rparr>\<rparr>"

definition ready_guard :: guard where
  "ready_guard = worker_n calm_env 3
     (StackWalkGuard (\<lambda>a. \<lparr>Rip = 0x1030, Rsp = 8, other_registers = []\<rparr>) (\<lambda>a. empty_frame))"

definition waiting_guard :: guard where
  "waiting_guard = (snd (ScheduleRtlFrame0Probe 1 2 ready_guard))\<lparr>client_at := ClientWaiting\<rparr>"

lemma ready_guard_simp [simp]:
  "ready_guard = (StackWalkGuard (\<lambda>a. \<lparr>Rip = 0x1030, Rsp = 8, other_registers = []\<rparr>) (\<lambda>a. empty_frame))
     \<lparr>guard_state := Idle, worker_at := WWait\<rparr>"
  by (simp add: ready_guard_def worker_n_numeral StackWalkGuard_def worker_step_def calm_env_def initializeResult_def)

lemma ready_guard_reach: "reach guard_init guard_step ready_guard"
  unfolding ready_guard_def by (intro reach_worker_n reach_init) (auto simp: guard_init_def)

lemma waiting_guard_reach: "reach guard_init guard_step waiting_guard"
proof (rule reach_step [OF ready_guard_reach])
  have "client_step ready_guard (if True then waiting_guard else snd (ScheduleRtlFrame0Probe 1 2 ready_guard))"
    unfolding waiting_guard_def
    by (rule client_rtl [of _ 1 2]) (simp_all add: StackWalkGuard_def ScheduleRtlFrame0Probe_def Schedule_def)
  then show "guard_step ready_guard waiting_guard" by (simp add: guard_step_def)
qed

lemmas round_defs = worker_n_numeral waiting_guard_def StackWalkGuard_def ScheduleRtlFrame0Probe_def Schedule_def
  worker_defs calm_env_def empty_request_def empty_frame_def publish_def

lemma managed_publish:
  "worker_n calm_env 10 waiting_guard =
     waiting_guard\<lparr>guard_state := Running, active_stage := ClrIpMap, worker_at := WPublish True,
       worker_req := (guard_req waiting_guard)\<lparr>staged_frame := empty_frame\<lparr>functionId := 77, instructionPointer := 0x1030\<rparr>\<rparr>,
       completed := [HeapOrStlGate, RtlLookup, ClrIpMap]\<rparr>"
  by (simp add: round_defs)

definition published_guard :: guard where
  "published_guard = publish True (worker_n calm_env 10 waiting_guard)"

lemma published_step: "worker_moves (worker_n calm_env 10 waiting_guard) published_guard"
  unfolding published_guard_def managed_publish by (rule worker_runs [of calm_env]) (simp add: worker_step_def)

lemma published_facts:
  "frame_mem (worker_n calm_env 10 waiting_guard) 2 = empty_frame"
  "frame_mem published_guard 2 = empty_frame\<lparr>functionId := 77, instructionPointer := 0x1030\<rparr>"
  "client_at published_guard = ClientWaiting" "fst (AwaitProbeResult published_guard) = ProbeSuccess"
  "probe_kind (guard_req published_guard) = KindRtlFrame0" "frame_out (guard_req published_guard) = 2"
  unfolding published_guard_def managed_publish
  by (simp_all add: waiting_guard_def StackWalkGuard_def ScheduleRtlFrame0Probe_def Schedule_def publish_def empty_request_def AwaitProbeResult_def Let_def)

lemma published_reach: "reach guard_init guard_step published_guard"
  using published_step unfolding guard_step_def [symmetric]
  by (intro reach_step [OF reach_worker_n [OF waiting_guard_reach, of calm_env 10]]) (simp add: guard_step_def)

theorem caller_memory_written_only_for_live_round_witness:
  "frame_mem published_guard 2 \<noteq> frame_mem (worker_n calm_env 10 waiting_guard) 2 \<and>
   client_at (worker_n calm_env 10 waiting_guard) = ClientWaiting \<and> fst (AwaitProbeResult published_guard) = ProbeSuccess"
proof -
  have neq: "frame_mem published_guard 2 \<noteq> frame_mem (worker_n calm_env 10 waiting_guard) 2"
    by (simp only: published_facts) (simp add: empty_frame_def)
  then have "ctx_mem published_guard \<noteq> ctx_mem (worker_n calm_env 10 waiting_guard) \<or>
      frame_mem published_guard \<noteq> frame_mem (worker_n calm_env 10 waiting_guard)" by metis
  from caller_memory_written_only_for_live_round [OF reach_worker_n [OF waiting_guard_reach] published_step this] neq
  show ?thesis by blast
qed

theorem success_means_every_call_returned_witness:
  "completed published_guard = [HeapOrStlGate, RtlLookup, ClrIpMap] \<and>
   functionId (frame_mem published_guard 2) \<noteq> 0"
  using success_means_every_call_returned [OF published_reach published_facts(3,4)] published_facts(2)
  by (simp add: published_facts Let_def empty_frame_def)

theorem timeout_names_the_blocking_call_witness:
  "fst (AwaitProbeResult (worker_n calm_env 5 waiting_guard)) = RtlLookupTimeout"
proof -
  have "worker_at (worker_n calm_env 5 waiting_guard) = WLookup" "guard_state (worker_n calm_env 5 waiting_guard) = Running"
    by (simp_all add: round_defs)
  from timeout_names_the_blocking_call [OF reach_worker_n [OF waiting_guard_reach] this(2), of RtlLookup] this(1)
  show ?thesis by (simp only: call_at_def worker_pc.case, simp add: TimeoutResultForStage_def)
qed

theorem stopping_guard_drains_witness:
  "fst (AwaitProbeResult (RequestShutdown waiting_guard)) = ProbeStopping \<and>
   (\<exists>h'. worker_moves (RequestShutdown waiting_guard) h')"
proof -
  have "guard_state (RequestShutdown waiting_guard) = Stopping" "worker_at (RequestShutdown waiting_guard) \<noteq> WExit"
    by (simp_all add: RequestShutdown_def waiting_guard_def StackWalkGuard_def ScheduleRtlFrame0Probe_def Schedule_def)
  with stopping_guard_drains [OF this(1) rtranclp.rtrancl_refl] show ?thesis by blast
qed

end
