(* ===== verification/Type_Name_Parser.thy ===== *)
theory Type_Name_Parser
  imports Prelude
begin

text \<open>
  The reflection type-name parser: \<open>type_name_assembly_reference_parser.cpp\<close> and \<open>ascii_string_utils.h\<close>.
  It finds every assembly qualification in a serialized type name, including those of nested generic
  arguments, as positions into the original bytes. The theorems: parsing always ends, every position it
  reports lies inside the name and in order, and a well-formed qualified name is read exactly.
\<close>

section \<open>Characters and spans\<close>

text \<open>A byte string is a list of characters; every byte of a UTF-8 sequence beyond ASCII is above 127.\<close>

definition chr_backslash :: char where "chr_backslash = CHR 0x5C"
definition chr_quote :: char where "chr_quote = CHR 0x27"
definition chr_dquote :: char where "chr_dquote = CHR 0x22"

definition ToAsciiLower :: "char \<Rightarrow> char" where
  "ToAsciiLower c = (if of_char c \<ge> (65 :: nat) \<and> of_char c \<le> (90 :: nat) then char_of (of_char c - 65 + (97 :: nat)) else c)"

definition EqualsIgnoreAsciiCase :: "string \<Rightarrow> string \<Rightarrow> bool" where
  "EqualsIgnoreAsciiCase left right \<longleftrightarrow>
     length left = length right \<and> list_all2 (\<lambda>l r. ToAsciiLower l = ToAsciiLower r) left right"

record span =
  span_begin :: nat
  span_end :: nat

abbreviation Span :: "nat \<Rightarrow> nat \<Rightarrow> span" where
  "Span b e \<equiv> \<lparr>span_begin = b, span_end = e\<rparr>"

definition Empty :: "span \<Rightarrow> bool" where
  "Empty s \<longleftrightarrow> span_begin s \<ge> span_end s"

definition View :: "string \<Rightarrow> span \<Rightarrow> string" where
  "View value s = take (span_end s - span_begin s) (drop (span_begin s) value)"

definition is_ascii_space :: "char \<Rightarrow> bool" where
  "is_ascii_space c \<longleftrightarrow> c \<in> {CHR 0x20, CHR 0x09, CHR 0x0A, CHR 0x0B, CHR 0x0C, CHR 0x0D}"

function trim_left :: "string \<Rightarrow> nat \<Rightarrow> nat \<Rightarrow> nat" where
  "trim_left v b e = (if b < e \<and> is_ascii_space (v ! b) then trim_left v (b + 1) e else b)"
  by pat_completeness auto
termination by (relation "measure (\<lambda>(v, b, e). e - b)") auto

fun trim_right :: "string \<Rightarrow> nat \<Rightarrow> nat \<Rightarrow> nat" where
  "trim_right v b e = (if b < e \<and> is_ascii_space (v ! (e - 1)) then trim_right v b (e - 1) else e)"

declare trim_left.simps [simp del] trim_right.simps [simp del]

definition Trimmed :: "string \<Rightarrow> span \<Rightarrow> span" where
  "Trimmed value s =
     (let b = trim_left value (span_begin s) (span_end s)
      in Span b (trim_right value b (span_end s)))"

section \<open>Scanning\<close>

text \<open>
  The scanners share their treatment of quotes: \<open>None\<close> is outside quotes, otherwise the active quote.
  The result of the two searches is \<open>None\<close> for malformed syntax, else the optional position.
\<close>

definition toggle_quote :: "char \<Rightarrow> char option \<Rightarrow> char option" where
  "toggle_quote c active_quote =
     (if active_quote = None then Some c else if active_quote = Some c then None else active_quote)"

definition is_quote :: "char \<Rightarrow> bool" where
  "is_quote c \<longleftrightarrow> c = chr_quote \<or> c = chr_dquote"

function find_unescaped :: "string \<Rightarrow> nat \<Rightarrow> char \<Rightarrow> char option \<Rightarrow> nat \<Rightarrow> nat option option" where
  "find_unescaped value e expected q pos =
     (if pos < e then
        let c = value ! pos
        in if c = chr_backslash
           then (if pos + 1 = e then None else find_unescaped value e expected q (pos + 2))
           else if is_quote c then find_unescaped value e expected (toggle_quote c q) (pos + 1)
           else if c = CHR ''['' \<or> c = CHR '']''
           then (if q = None then None else find_unescaped value e expected q (pos + 1))
           else if q = None \<and> c = expected then Some (Some pos)
           else find_unescaped value e expected q (pos + 1)
      else if q = None then Some None else None)"
  by pat_completeness auto
termination by (relation "measure (\<lambda>(v, e, x, q, pos). e - pos)") auto

definition TryFindUnescaped :: "string \<Rightarrow> span \<Rightarrow> char \<Rightarrow> nat option option" where
  "TryFindUnescaped value s expected = find_unescaped value (span_end s) expected None (span_begin s)"

function find_separator :: "string \<Rightarrow> nat \<Rightarrow> char \<Rightarrow> nat \<Rightarrow> char option \<Rightarrow> nat \<Rightarrow> nat option option" where
  "find_separator v e separator depth q pos =
     (if pos < e then
        let c = v ! pos
        in if c = chr_backslash
           then (if pos + 1 = e then None else find_separator v e separator depth q (pos + 2))
           else if is_quote c then find_separator v e separator depth (toggle_quote c q) (pos + 1)
           else if c = CHR ''[''
           then find_separator v e separator (if q = None then depth + 1 else depth) q (pos + 1)
           else if c = CHR '']''
           then (if q = None
                 then (if depth = 0 then None else find_separator v e separator (depth - 1) q (pos + 1))
                 else find_separator v e separator depth q (pos + 1))
           else if q = None \<and> c = separator \<and> depth = 0 then Some (Some pos)
           else find_separator v e separator depth q (pos + 1)
      else if q = None \<and> depth = 0 then Some None else None)"
  by pat_completeness auto
termination by (relation "measure (\<lambda>(v, e, x, d, q, pos). e - pos)") auto

definition TryFindTopLevelSeparator :: "string \<Rightarrow> span \<Rightarrow> char \<Rightarrow> nat option option" where
  "TryFindTopLevelSeparator v s separator = find_separator v (span_end s) separator 0 None (span_begin s)"

function find_closing :: "string \<Rightarrow> nat \<Rightarrow> nat \<Rightarrow> char option \<Rightarrow> nat \<Rightarrow> nat option" where
  "find_closing v e depth q pos =
     (if pos < e then
        let c = v ! pos
        in if c = chr_backslash
           then (if pos + 1 = e then None else find_closing v e depth q (pos + 2))
           else if is_quote c then find_closing v e depth (toggle_quote c q) (pos + 1)
           else if c = CHR ''['' then find_closing v e (if q = None then depth + 1 else depth) q (pos + 1)
           else if c = CHR '']''
           then (if q = None
                 then (if depth - 1 = 0 then Some pos else find_closing v e (depth - 1) q (pos + 1))
                 else find_closing v e depth q (pos + 1))
           else find_closing v e depth q (pos + 1)
      else None)"
  by pat_completeness auto
termination by (relation "measure (\<lambda>(v, e, d, q, pos). e - pos)") auto

declare find_unescaped.simps [simp del] find_separator.simps [simp del] find_closing.simps [simp del]

definition FindClosingBracket :: "string \<Rightarrow> nat \<Rightarrow> nat \<Rightarrow> nat option" where
  "FindClosingBracket v opening_bracket e =
     (if opening_bracket \<ge> e \<or> v ! opening_bracket \<noteq> CHR ''['' then None
      else find_closing v e 1 None (opening_bracket + 1))"

text \<open>\<open>None\<close> is a misquoted entry; otherwise the entry without its quotes.\<close>

definition TryGetUnquoted :: "string \<Rightarrow> span \<Rightarrow> span option" where
  "TryGetUnquoted value entry =
     (if Empty entry then Some entry
      else let quote = value ! span_begin entry
           in if \<not> is_quote quote then (if list_ex is_quote (View value entry) then None else Some entry)
              else if span_end entry - span_begin entry < 2 \<or> value ! (span_end entry - 1) \<noteq> quote then None
              else Some (Span (span_begin entry + 1) (span_end entry - 1)))"

text \<open>\<open>None\<close> is malformed; otherwise what remains and the trimmed part.\<close>

definition TryGetNextQualifierPart :: "string \<Rightarrow> span \<Rightarrow> (span \<times> span) option" where
  "TryGetNextQualifierPart value remaining =
     (case TryFindUnescaped value remaining (CHR '','') of
        None \<Rightarrow> None
      | Some separator_position \<Rightarrow>
          let part = Span (span_begin remaining) (case separator_position of None \<Rightarrow> span_end remaining | Some p \<Rightarrow> p);
              rest = Span (case separator_position of None \<Rightarrow> span_end remaining | Some p \<Rightarrow> p + 1) (span_end remaining)
          in Some (rest, Trimmed value part))"

function unescape_from :: "string \<Rightarrow> nat \<Rightarrow> string" where
  "unescape_from value position =
     (if position < length value
      then let p = (if value ! position = chr_backslash \<and> position + 1 < length value then position + 1 else position)
           in value ! p # unescape_from value (p + 1)
      else [])"
  by pat_completeness auto
termination by (relation "measure (\<lambda>(v, p). length v - p)") (auto simp: Let_def)

declare unescape_from.simps [simp del]

definition Unescape :: "string \<Rightarrow> string" where
  "Unescape value = unescape_from value 0"

section \<open>Bounds of the scanners\<close>

lemma trim_left_bounds: "b \<le> trim_left v b e \<and> (b \<le> e \<longrightarrow> trim_left v b e \<le> e)"
proof (induction v b e rule: trim_left.induct)
  case (1 v b e)
  then show ?case by (subst (1 2) trim_left.simps) auto
qed

lemma trim_right_bounds: "trim_right v b e \<le> e \<and> (b \<le> e \<longrightarrow> b \<le> trim_right v b e)"
proof (induction v b e rule: trim_right.induct)
  case (1 v b e)
  then show ?case by (subst (1 2) trim_right.simps) auto
qed

lemma Trimmed_bounds:
  "span_begin s \<le> span_begin (Trimmed v s)" "span_end (Trimmed v s) \<le> span_end s"
  "span_begin s \<le> span_end s \<Longrightarrow> span_begin (Trimmed v s) \<le> span_end (Trimmed v s)"
proof -
  note l = trim_left_bounds [of "span_begin s" v "span_end s"]
  note r = trim_right_bounds [of v "trim_left v (span_begin s) (span_end s)" "span_end s"]
  show "span_begin s \<le> span_begin (Trimmed v s)" "span_end (Trimmed v s) \<le> span_end s"
    "span_begin s \<le> span_end s \<Longrightarrow> span_begin (Trimmed v s) \<le> span_end (Trimmed v s)"
    using l r by (simp_all add: Trimmed_def Let_def)
qed

lemma find_unescaped_bounds: "find_unescaped v e x q pos = Some (Some p) \<Longrightarrow> pos \<le> p \<and> p < e"
proof (induction "e - pos" arbitrary: q pos rule: less_induct)
  case less
  have IH: "find_unescaped v e x q' pos' = Some (Some p) \<Longrightarrow> pos < pos' \<Longrightarrow> pos < e \<Longrightarrow> pos \<le> p \<and> p < e" for q' pos'
    using less.hyps [of pos' q'] diff_less_mono2 [of pos pos' e] by fastforce
  from less.prems show ?case
    unfolding find_unescaped.simps [of v e x q pos] by (auto simp: Let_def split: if_splits dest: IH)
qed

lemma find_separator_bounds: "find_separator v e x d q pos = Some (Some p) \<Longrightarrow> pos \<le> p \<and> p < e"
proof (induction "e - pos" arbitrary: d q pos rule: less_induct)
  case less
  have IH: "find_separator v e x d' q' pos' = Some (Some p) \<Longrightarrow> pos < pos' \<Longrightarrow> pos < e \<Longrightarrow> pos \<le> p \<and> p < e" for d' q' pos'
    using less.hyps [of pos' d' q'] diff_less_mono2 [of pos pos' e] by fastforce
  from less.prems show ?case
    unfolding find_separator.simps [of v e x d q pos] by (auto simp: Let_def split: if_splits dest: IH)
qed

lemma find_closing_bounds: "find_closing v e d q pos = Some p \<Longrightarrow> pos \<le> p \<and> p < e"
proof (induction "e - pos" arbitrary: d q pos rule: less_induct)
  case less
  have IH: "find_closing v e d' q' pos' = Some p \<Longrightarrow> pos < pos' \<Longrightarrow> pos < e \<Longrightarrow> pos \<le> p \<and> p < e" for d' q' pos'
    using less.hyps [of pos' d' q'] diff_less_mono2 [of pos pos' e] by fastforce
  from less.prems show ?case
    unfolding find_closing.simps [of v e d q pos] by (auto simp: Let_def split: if_splits dest: IH)
qed

lemma FindClosingBracket_bounds: "FindClosingBracket v ob e = Some p \<Longrightarrow> ob < p \<and> p < e"
  using find_closing_bounds [of v e 1 None "ob + 1" p] by (simp add: FindClosingBracket_def split: if_splits)

lemma TryFindTopLevelSeparator_bounds:
  "TryFindTopLevelSeparator v s x = Some (Some p) \<Longrightarrow> span_begin s \<le> p \<and> p < span_end s"
  by (auto simp: TryFindTopLevelSeparator_def dest: find_separator_bounds)

lemma TryFindUnescaped_bounds:
  "TryFindUnescaped v s x = Some (Some p) \<Longrightarrow> span_begin s \<le> p \<and> p < span_end s"
  by (auto simp: TryFindUnescaped_def dest: find_unescaped_bounds)

lemma TryGetNextQualifierPart_progress:
  assumes "TryGetNextQualifierPart v r = Some (r', part)" "span_begin r < span_end r"
  shows "span_begin r < span_begin r' \<and> span_begin r' \<le> span_end r' \<and> span_end r' = span_end r"
  using assms
  by (auto simp: TryGetNextQualifierPart_def Let_def dest: TryFindUnescaped_bounds split: option.splits)

section \<open>Assembly qualifications\<close>

record parsed_reference =
  assembly_name :: string
  insert_version_at :: nat
  version_span :: "span option"

text \<open>One qualifier \<open>key=value\<close> of the reference: the first \<open>Version\<close> is kept.\<close>

definition parse_qualifier :: "string \<Rightarrow> span \<Rightarrow> parsed_reference \<Rightarrow> parsed_reference option" where
  "parse_qualifier type_name qualifier reference =
     (case TryFindUnescaped type_name qualifier (CHR ''='') of
        None \<Rightarrow> None
      | Some equals \<Rightarrow>
          let key = Trimmed type_name (Span (span_begin qualifier)
                      (case equals of None \<Rightarrow> span_end qualifier | Some p \<Rightarrow> p))
          in case TryGetUnquoted type_name key of
               None \<Rightarrow> None
             | Some key \<Rightarrow>
                 (case equals of
                    None \<Rightarrow> Some reference
                  | Some p \<Rightarrow>
                      if version_span reference = None \<and> EqualsIgnoreAsciiCase (View type_name key) ''Version''
                      then (case TryGetUnquoted type_name (Trimmed type_name (Span (p + 1) (span_end qualifier))) of
                              None \<Rightarrow> None
                            | Some value \<Rightarrow> Some (reference\<lparr>version_span := Some value\<rparr>))
                      else Some reference))"

function parse_qualifiers :: "string \<Rightarrow> span \<Rightarrow> parsed_reference \<Rightarrow> parsed_reference option" where
  "parse_qualifiers type_name qualification reference =
     (if Empty qualification then Some reference
      else case TryGetNextQualifierPart type_name qualification of
             None \<Rightarrow> None
           | Some (qualification', qualifier) \<Rightarrow>
               (case parse_qualifier type_name qualifier reference of
                  None \<Rightarrow> None
                | Some reference' \<Rightarrow> parse_qualifiers type_name qualification' reference'))"
  by pat_completeness auto
termination
  by (relation "measure (\<lambda>(v, s, r). span_end s - span_begin s)")
    (auto simp: Empty_def not_le dest!: TryGetNextQualifierPart_progress)

declare parse_qualifiers.simps [simp del]

definition ParseAssemblyQualification ::
    "string \<Rightarrow> span \<Rightarrow> parsed_reference list \<Rightarrow> parsed_reference list option" where
  "ParseAssemblyQualification type_name qualification references =
     (case TryGetNextQualifierPart type_name qualification of
        None \<Rightarrow> None
      | Some (qualification', name) \<Rightarrow>
          if Empty name then Some references
          else (case TryGetUnquoted type_name name of
                  None \<Rightarrow> None
                | Some name' \<Rightarrow>
                    (case parse_qualifiers type_name qualification'
                            \<lparr>assembly_name = Unescape (View type_name name'), insert_version_at = span_end name,
                             version_span = None\<rparr> of
                       None \<Rightarrow> None
                     | Some reference \<Rightarrow> Some (references @ [reference]))))"

section \<open>Types and generic arguments\<close>

definition max_generic_nesting_depth :: nat where "max_generic_nesting_depth = 64"

text \<open>An assembly-qualified argument has brackets of its own, which must enclose all of it.\<close>

definition argument_type :: "string \<Rightarrow> span \<Rightarrow> span option" where
  "argument_type type_name argument =
     (if type_name ! span_begin argument = CHR ''[''
      then (case FindClosingBracket type_name (span_begin argument) (span_end argument) of
              None \<Rightarrow> None
            | Some closing_bracket \<Rightarrow>
                if closing_bracket \<noteq> span_end argument - 1 then None
                else Some (Span (span_begin argument + 1) closing_bracket))
      else Some argument)"

lemma argument_bounds:
  assumes "\<not> Empty a" "TryFindTopLevelSeparator v a (CHR '','') = Some sep"
    and "arg = Trimmed v (Span (span_begin a) (case sep of None \<Rightarrow> span_end a | Some p \<Rightarrow> p))"
  shows "span_begin a \<le> span_begin arg" "span_end arg \<le> span_end a"
    "span_begin a < (case sep of None \<Rightarrow> span_end a | Some p \<Rightarrow> p + 1)"
    "(case sep of None \<Rightarrow> span_end a | Some p \<Rightarrow> p + 1) \<le> span_end a"
    "span_begin arg \<le> span_end arg" "span_end arg \<le> (case sep of None \<Rightarrow> span_end a | Some p \<Rightarrow> p)"
proof -
  let ?s = "Span (span_begin a) (case sep of None \<Rightarrow> span_end a | Some p \<Rightarrow> p)"
  have "span_begin ?s \<le> span_end ?s" "span_end ?s \<le> span_end a"
    using TryFindTopLevelSeparator_bounds [of v a "CHR '',''"] assms(1,2)
    by (cases sep; simp add: Empty_def less_imp_le)+
  with Trimmed_bounds [where s = ?s and v = v] show "span_begin a \<le> span_begin arg" "span_end arg \<le> span_end a"
    "span_begin arg \<le> span_end arg" "span_end arg \<le> (case sep of None \<Rightarrow> span_end a | Some p \<Rightarrow> p)"
    by (auto simp: assms(3))
  show "span_begin a < (case sep of None \<Rightarrow> span_end a | Some p \<Rightarrow> p + 1)"
    "(case sep of None \<Rightarrow> span_end a | Some p \<Rightarrow> p + 1) \<le> span_end a"
    using TryFindTopLevelSeparator_bounds [of v a "CHR '',''"] assms(1,2)
    by (cases sep; simp add: Empty_def less_imp_le)+
qed

lemma argument_type_bounds:
  "argument_type v a = Some a' \<Longrightarrow> span_begin a \<le> span_begin a' \<and> span_end a' \<le> span_end a"
  by (auto simp: argument_type_def split: if_splits option.splits)

lemma type_end_bounds:
  assumes "TryFindTopLevelSeparator v (Trimmed v ty) x = Some sep"
  shows "(case sep of None \<Rightarrow> span_end (Trimmed v ty) | Some p \<Rightarrow> p) - span_begin (Trimmed v ty) \<le> span_end ty - span_begin ty"
    "(case sep of None \<Rightarrow> span_end (Trimmed v ty) | Some p \<Rightarrow> p) \<le> span_end ty"
  using assms Trimmed_bounds(1,2) [where s = ty and v = v] TryFindTopLevelSeparator_bounds [of v "Trimmed v ty" x]
  by (cases sep; fastforce)+

text \<open>
  The three mutually recursive walks: a type, the scan of its name for argument lists, and the loop over
  the arguments of one list. The references found so far are threaded through; \<open>None\<close> is malformed.
\<close>

function (sequential)
  CollectTypeAssemblyReferences ::
    "string \<Rightarrow> span \<Rightarrow> nat \<Rightarrow> parsed_reference list \<Rightarrow> parsed_reference list option"
  and scan_type_name ::
    "string \<Rightarrow> nat \<Rightarrow> nat \<Rightarrow> nat \<Rightarrow> parsed_reference list \<Rightarrow> parsed_reference list option"
  and CollectGenericTypeArgumentAssemblyReferences ::
    "string \<Rightarrow> span \<Rightarrow> nat \<Rightarrow> parsed_reference list \<Rightarrow> parsed_reference list option"
where
  "CollectTypeAssemblyReferences type_name ty depth references =
     (let ty = Trimmed type_name ty
      in if Empty ty then Some references
         else case TryFindTopLevelSeparator type_name ty (CHR '','') of
                None \<Rightarrow> None
              | Some assembly_separator \<Rightarrow>
                  let type_name_end = (case assembly_separator of None \<Rightarrow> span_end ty | Some p \<Rightarrow> p)
                  in case scan_type_name type_name (span_begin ty) type_name_end depth references of
                       None \<Rightarrow> None
                     | Some references' \<Rightarrow>
                         (case assembly_separator of
                            None \<Rightarrow> Some references'
                          | Some p \<Rightarrow> ParseAssemblyQualification type_name (Span (p + 1) (span_end ty)) references'))"
| "scan_type_name type_name position type_name_end depth references =
     (if position < type_name_end then
        let c = type_name ! position
        in if c = chr_backslash
           then (if position + 1 = type_name_end then None
                 else scan_type_name type_name (position + 2) type_name_end depth references)
           else if c = CHR ''[''
           then (case FindClosingBracket type_name position type_name_end of
                   None \<Rightarrow> None
                 | Some closing_bracket \<Rightarrow>
                     if depth = max_generic_nesting_depth then None
                     else (case CollectGenericTypeArgumentAssemblyReferences type_name
                                  (Span (position + 1) closing_bracket) (depth + 1) references of
                             None \<Rightarrow> None
                           | Some references' \<Rightarrow>
                               scan_type_name type_name (closing_bracket + 1) type_name_end depth references'))
           else scan_type_name type_name (position + 1) type_name_end depth references
      else Some references)"
| "CollectGenericTypeArgumentAssemblyReferences type_name arguments depth references =
     (if Empty arguments then Some references
      else case TryFindTopLevelSeparator type_name arguments (CHR '','') of
             None \<Rightarrow> None
           | Some separator \<Rightarrow>
               let argument = Trimmed type_name (Span (span_begin arguments)
                                (case separator of None \<Rightarrow> span_end arguments | Some p \<Rightarrow> p));
                   arguments' = Span (case separator of None \<Rightarrow> span_end arguments | Some p \<Rightarrow> p + 1) (span_end arguments)
               in if Empty argument
                  then CollectGenericTypeArgumentAssemblyReferences type_name arguments' depth references
                  else
                    (case argument_type type_name argument of
                       None \<Rightarrow> None
                     | Some argument' \<Rightarrow>
                         (case CollectTypeAssemblyReferences type_name argument' depth references of
                            None \<Rightarrow> None
                          | Some references' \<Rightarrow>
                              CollectGenericTypeArgumentAssemblyReferences type_name arguments' depth references')))"
  by pat_completeness auto
termination
proof (relation "measure (\<lambda>x. case x of
    Inl (v, ty, d, r) \<Rightarrow> 3 * (span_end ty - span_begin ty) + 1
  | Inr (Inl (v, pos, e, d, r)) \<Rightarrow> 3 * (e - pos)
  | Inr (Inr (v, a, d, r)) \<Rightarrow> 3 * (span_end a - span_begin a) + 2)",
  simp_all only: in_measure sum.case prod.case span.select_convs wf_measure, goal_cases)
  case (1 v ty d r x sep xa)
  then show ?case using type_end_bounds(1) [of v ty "CHR '',''" sep] by simp
next
  case (2 v pos e d r x p)
  then have "pos < p" "p < e" using FindClosingBracket_bounds [of v pos e p] by simp_all
  then show ?case by linarith
next
  case (3 v pos e d r x p r')
  then have "pos < p" "p < e" using FindClosingBracket_bounds [of v pos e p] by simp_all
  then show ?case by linarith
next
  case (4 v a d r sep x xa)
  then show ?case using argument_bounds(3,4) [of a v sep] by simp
next
  case (5 v a d r sep x xa a')
  from argument_bounds(1,2) [OF 5(1,2) refl] argument_type_bounds [of v x a'] 5
  have "span_begin a \<le> span_begin a'" "span_end a' \<le> span_end a" by simp_all
  then show ?case by linarith
next
  case (6 v a d r sep x xa a' r')
  then show ?case using argument_bounds(3,4) [of a v sep] by simp
qed


declare CollectTypeAssemblyReferences.simps [simp del] scan_type_name.simps [simp del]
  CollectGenericTypeArgumentAssemblyReferences.simps [simp del]

definition ParseTypeNameAssemblyReferences :: "string \<Rightarrow> parsed_reference list option" where
  "ParseTypeNameAssemblyReferences type_name =
     CollectTypeAssemblyReferences type_name (Span 0 (length type_name)) 0 []"

section \<open>Positions are in range and in order\<close>

text \<open>Where a reference ends in the name: at its version if it has one, else at its assembly name.\<close>

definition ref_end :: "parsed_reference \<Rightarrow> nat" where
  "ref_end r = (case version_span r of None \<Rightarrow> insert_version_at r | Some s \<Rightarrow> span_end s)"

definition ref_ok :: "parsed_reference \<Rightarrow> bool" where
  "ref_ok r \<longleftrightarrow> (case version_span r of None \<Rightarrow> True
     | Some s \<Rightarrow> insert_version_at r \<le> span_begin s \<and> span_begin s \<le> span_end s)"

text \<open>The references follow each other between two positions, without overlap.\<close>

fun in_order :: "nat \<Rightarrow> parsed_reference list \<Rightarrow> nat \<Rightarrow> bool" where
  "in_order lo [] hi = (lo \<le> hi)"
| "in_order lo (r # rs) hi = (lo < insert_version_at r \<and> ref_ok r \<and> in_order (ref_end r) rs hi)"

lemma ref_end_ge: "ref_ok r \<Longrightarrow> insert_version_at r \<le> ref_end r"
  by (auto simp: ref_ok_def ref_end_def split: option.splits)

lemma in_order_le: "in_order lo rs hi \<Longrightarrow> lo \<le> hi"
  by (induction lo rs hi rule: in_order.induct) (auto dest: ref_end_ge)

lemma in_order_low: "in_order lo rs hi \<Longrightarrow> lo' \<le> lo \<Longrightarrow> in_order lo' rs hi"
  by (cases rs) auto

lemma in_order_high: "in_order lo rs hi \<Longrightarrow> hi \<le> hi' \<Longrightarrow> in_order lo rs hi'"
  by (induction lo rs hi rule: in_order.induct) auto

lemma in_order_append: "in_order lo xs m \<Longrightarrow> in_order m ys hi \<Longrightarrow> in_order lo (xs @ ys) hi"
  by (induction lo xs m rule: in_order.induct) (auto elim: in_order_low)

lemma TryGetUnquoted_bounds:
  assumes "TryGetUnquoted v s = Some s'" "span_begin s \<le> span_end s"
  shows "span_begin s \<le> span_begin s' \<and> span_begin s' \<le> span_end s' \<and> span_end s' \<le> span_end s"
  using assms by (auto simp: TryGetUnquoted_def Let_def Empty_def split: if_splits)

lemma TryGetNextQualifierPart_bounds:
  assumes "TryGetNextQualifierPart v r = Some (r', part)" "span_begin r \<le> span_end r"
  shows "span_begin r \<le> span_begin part \<and> span_begin part \<le> span_end part \<and> span_end part \<le> span_begin r' \<and>
    span_begin r' \<le> span_end r' \<and> span_end r' = span_end r"
proof -
  obtain sep where sep: "TryFindUnescaped v r (CHR '','') = Some sep"
    and part: "part = Trimmed v (Span (span_begin r) (case sep of None \<Rightarrow> span_end r | Some p \<Rightarrow> p))"
    and r': "r' = Span (case sep of None \<Rightarrow> span_end r | Some p \<Rightarrow> p + 1) (span_end r)"
    using assms(1) by (auto simp: TryGetNextQualifierPart_def Let_def split: option.splits)
  show ?thesis
    using Trimmed_bounds [where v = v and s = "Span (span_begin r) (case sep of None \<Rightarrow> span_end r | Some p \<Rightarrow> p)"]
      TryFindUnescaped_bounds [of v r "CHR '',''"] sep assms(2)
    by (cases sep) (fastforce simp: part r')+
qed

definition version_within :: "nat \<Rightarrow> nat \<Rightarrow> parsed_reference \<Rightarrow> bool" where
  "version_within lo hi r \<longleftrightarrow> (case version_span r of None \<Rightarrow> True
     | Some s \<Rightarrow> lo \<le> span_begin s \<and> span_begin s \<le> span_end s \<and> span_end s \<le> hi)"

lemma parse_qualifier_within:
  assumes "parse_qualifier v q r = Some r'" "span_begin q \<le> span_end q"
    and "version_within lo hi r" "lo \<le> span_begin q" "span_end q \<le> hi"
  shows "version_within lo hi r' \<and> insert_version_at r' = insert_version_at r \<and> assembly_name r' = assembly_name r"
proof (cases "r' = r")
  case False
  with assms(1) obtain p val where p: "TryFindUnescaped v q (CHR ''='') = Some (Some p)"
    and val: "TryGetUnquoted v (Trimmed v (Span (p + 1) (span_end q))) = Some val"
    and r': "r' = r\<lparr>version_span := Some val\<rparr>"
    by (auto simp: parse_qualifier_def Let_def split: option.splits if_splits)
  have pq: "span_begin q \<le> p" "p < span_end q" using TryFindUnescaped_bounds [OF p] by simp_all
  note t = Trimmed_bounds [where v = v and s = "Span (p + 1) (span_end q)"]
  have "p + 1 \<le> span_begin val \<and> span_begin val \<le> span_end val \<and> span_end val \<le> span_end q"
    using TryGetUnquoted_bounds [OF val] t pq by simp
  with pq assms(4,5) show ?thesis by (simp add: r' version_within_def)
qed (use assms in simp)

lemma parse_qualifiers_within:
  assumes "parse_qualifiers v q r = Some r'" "span_begin q \<le> span_end q"
    and "version_within lo hi r" "lo \<le> span_begin q" "span_end q \<le> hi"
  shows "version_within lo hi r' \<and> insert_version_at r' = insert_version_at r \<and> assembly_name r' = assembly_name r"
  using assms
proof (induction v q r rule: parse_qualifiers.induct)
  case (1 v q r)
  show ?case
  proof (cases "Empty q")
    case True
    with 1 show ?thesis by (simp add: parse_qualifiers.simps [of v q r])
  next
    case False
    with "1.prems"(1) obtain q1 part r1 where n: "TryGetNextQualifierPart v q = Some (q1, part)"
      and one: "parse_qualifier v part r = Some r1" and rest: "parse_qualifiers v q1 r1 = Some r'"
      by (auto simp: parse_qualifiers.simps [of v q r] split: option.splits prod.splits)
    note b = TryGetNextQualifierPart_bounds [OF n "1.prems"(2)]
    have w: "version_within lo hi r1 \<and> insert_version_at r1 = insert_version_at r \<and> assembly_name r1 = assembly_name r"
      using b "1.prems"(3-5) by (intro parse_qualifier_within [OF one]) auto
    with "1.IH" [OF False n refl one rest] b "1.prems" show ?thesis by auto
  qed
qed

lemma ParseAssemblyQualification_in_order:
  assumes "ParseAssemblyQualification v q refs = Some refs'" "span_begin q \<le> span_end q"
  shows "\<exists>new. refs' = refs @ new \<and> in_order (span_begin q) new (span_end q)"
proof -
  obtain q1 name where n: "TryGetNextQualifierPart v q = Some (q1, name)"
    using assms(1) by (auto simp: ParseAssemblyQualification_def split: option.splits)
  note b = TryGetNextQualifierPart_bounds [OF n assms(2)]
  show ?thesis
  proof (cases "Empty name")
    case True
    with assms n show ?thesis by (auto simp: ParseAssemblyQualification_def)
  next
    case False
    with assms(1) n obtain name' ref where
      ref: "parse_qualifiers v q1 \<lparr>assembly_name = Unescape (View v name'), insert_version_at = span_end name,
          version_span = None\<rparr> = Some ref" and refs': "refs' = refs @ [ref]"
      by (auto simp: ParseAssemblyQualification_def split: option.splits)
    from parse_qualifiers_within [OF ref, of "span_begin q1" "span_end q1"] b
    have "version_within (span_begin q1) (span_end q1) ref" "insert_version_at ref = span_end name"
      by (auto simp: version_within_def)
    with b False have "in_order (span_begin q) [ref] (span_end q)"
      by (auto simp: Empty_def version_within_def ref_ok_def ref_end_def split: option.splits)
    with refs' show ?thesis by blast
  qed
qed


text \<open>What one of the walks adds to the references found so far.\<close>

definition adds_in_order ::
    "nat \<Rightarrow> nat \<Rightarrow> parsed_reference list \<Rightarrow> parsed_reference list option \<Rightarrow> bool" where
  "adds_in_order lo hi refs result \<longleftrightarrow> (case result of None \<Rightarrow> True
     | Some refs' \<Rightarrow> \<exists>new. refs' = refs @ new \<and> in_order lo new hi)"

lemma adds_in_order_None [simp]: "adds_in_order lo hi refs None"
  by (simp add: adds_in_order_def)

lemma adds_in_order_none_new: "lo \<le> hi \<Longrightarrow> adds_in_order lo hi refs (Some refs)"
  by (simp add: adds_in_order_def)

lemma adds_in_order_weaken:
  "adds_in_order lo hi refs r \<Longrightarrow> lo' \<le> lo \<Longrightarrow> hi \<le> hi' \<Longrightarrow> adds_in_order lo' hi' refs r"
  by (cases r) (auto simp: adds_in_order_def dest: in_order_low [where lo' = lo'] in_order_high [where hi' = hi'])

lemma adds_in_order_bind:
  assumes "adds_in_order lo m refs r" "\<And>refs1. r = Some refs1 \<Longrightarrow> adds_in_order m hi refs1 (f refs1)"
  shows "adds_in_order lo hi refs (case r of None \<Rightarrow> None | Some refs1 \<Rightarrow> f refs1)"
proof (cases r)
  case (Some refs1)
  with assms obtain new1 where "refs1 = refs @ new1" "in_order lo new1 m" by (auto simp: adds_in_order_def)
  with assms(2) [OF Some] Some show ?thesis
    by (auto simp: adds_in_order_def intro: in_order_append split: option.splits)
qed simp

lemma adds_in_order_qualification:
  "span_begin q \<le> span_end q \<Longrightarrow>
     adds_in_order (span_begin q) (span_end q) refs (ParseAssemblyQualification v q refs)"
  using ParseAssemblyQualification_in_order [of v q refs] by (auto simp: adds_in_order_def split: option.split)

lemma argument_type_nonempty: "argument_type v a = Some a' \<Longrightarrow> \<not> Empty a \<Longrightarrow> span_begin a' \<le> span_end a'"
  by (auto simp: argument_type_def Empty_def dest: FindClosingBracket_bounds split: if_splits option.splits)

lemma adds_in_order_after_comma:
  "p < e \<Longrightarrow> adds_in_order p e refs (ParseAssemblyQualification v (Span (p + 1) e) refs)"
  using adds_in_order_weaken [OF adds_in_order_qualification [of "Span (p + 1) e" refs v], of p e] by simp

text \<open>One unfolding of each walk, given what the walks it calls add.\<close>

lemma type_in_order:
  assumes "span_begin ty \<le> span_end ty"
    and scan: "\<And>sep e. TryFindTopLevelSeparator v (Trimmed v ty) (CHR '','') = Some sep \<Longrightarrow>
      e = (case sep of None \<Rightarrow> span_end (Trimmed v ty) | Some p \<Rightarrow> p) \<Longrightarrow> span_begin (Trimmed v ty) \<le> e \<Longrightarrow>
      \<not> Empty (Trimmed v ty) \<Longrightarrow> adds_in_order (span_begin (Trimmed v ty)) e refs (scan_type_name v (span_begin (Trimmed v ty)) e d refs)"
  shows "adds_in_order (span_begin ty) (span_end ty) refs (CollectTypeAssemblyReferences v ty d refs)"
proof (cases "Empty (Trimmed v ty) \<or> TryFindTopLevelSeparator v (Trimmed v ty) (CHR '','') = None")
  case True
  with assms(1) show ?thesis
    by (auto simp: CollectTypeAssemblyReferences.simps [of v ty d refs] Let_def adds_in_order_none_new)
next
  case False
  let ?t = "Trimmed v ty"
  from False obtain sep where sep: "TryFindTopLevelSeparator v ?t (CHR '','') = Some sep" and ne: "\<not> Empty ?t" by auto
  let ?e = "case sep of None \<Rightarrow> span_end ?t | Some p \<Rightarrow> p"
  note t = Trimmed_bounds [where v = v and s = ty]
  note b = TryFindTopLevelSeparator_bounds [of v ?t "CHR '',''"]
  have e: "span_begin ?t \<le> ?e" using b sep t(3) assms(1) by (cases sep) auto
  have eq: "CollectTypeAssemblyReferences v ty d refs =
      (case scan_type_name v (span_begin ?t) ?e d refs of None \<Rightarrow> None
       | Some refs1 \<Rightarrow> (case sep of None \<Rightarrow> Some refs1
           | Some p \<Rightarrow> ParseAssemblyQualification v (Span (p + 1) (span_end ?t)) refs1))"
    using ne sep by (simp add: CollectTypeAssemblyReferences.simps [of v ty d refs] Let_def)
  have "adds_in_order ?e (span_end ?t) refs1 (case sep of None \<Rightarrow> Some refs1
      | Some p \<Rightarrow> ParseAssemblyQualification v (Span (p + 1) (span_end ?t)) refs1)" for refs1
    using b sep adds_in_order_after_comma by (cases sep) (simp_all add: adds_in_order_none_new)
  from adds_in_order_bind [OF scan [OF sep refl e ne] this] show ?thesis
    unfolding eq by (rule adds_in_order_weaken) (use t in auto)
qed

lemma scan_open_in_order:
  assumes "pos < e" "v ! pos \<noteq> chr_backslash" "v ! pos = CHR ''[''"
    and args: "\<And>p. FindClosingBracket v pos e = Some p \<Longrightarrow> d \<noteq> max_generic_nesting_depth \<Longrightarrow>
      adds_in_order (pos + 1) p refs (CollectGenericTypeArgumentAssemblyReferences v (Span (pos + 1) p) (d + 1) refs)"
    and rest: "\<And>p refs1. FindClosingBracket v pos e = Some p \<Longrightarrow> d \<noteq> max_generic_nesting_depth \<Longrightarrow>
      CollectGenericTypeArgumentAssemblyReferences v (Span (pos + 1) p) (d + 1) refs = Some refs1 \<Longrightarrow>
      adds_in_order (p + 1) e refs1 (scan_type_name v (p + 1) e d refs1)"
  shows "adds_in_order pos e refs (scan_type_name v pos e d refs)"
proof (cases "FindClosingBracket v pos e = None \<or> d = max_generic_nesting_depth")
  case True
  with assms(1-3) show ?thesis
    by (auto simp: scan_type_name.simps [of v pos e d refs] Let_def split: option.split)
next
  case False
  then obtain p where p: "FindClosingBracket v pos e = Some p" and d: "d \<noteq> max_generic_nesting_depth" by auto
  have b: "pos < p" "p < e" using FindClosingBracket_bounds [OF p] by auto
  have eq: "scan_type_name v pos e d refs =
      (case CollectGenericTypeArgumentAssemblyReferences v (Span (pos + 1) p) (d + 1) refs of None \<Rightarrow> None
       | Some refs1 \<Rightarrow> scan_type_name v (p + 1) e d refs1)"
    using assms(1-3) p d by (simp add: scan_type_name.simps [of v pos e d refs] Let_def)
  have "adds_in_order p e refs1 (scan_type_name v (p + 1) e d refs1)"
    if "CollectGenericTypeArgumentAssemblyReferences v (Span (pos + 1) p) (d + 1) refs = Some refs1" for refs1
    using rest [OF p d that] by (auto elim!: adds_in_order_weaken)
  from adds_in_order_bind [OF args [OF p d] this] show ?thesis
    unfolding eq by (rule adds_in_order_weaken) auto
qed

lemma arguments_in_order:
  assumes a: "span_begin a \<le> span_end a"
    and skip: "\<And>sep. \<not> Empty a \<Longrightarrow> TryFindTopLevelSeparator v a (CHR '','') = Some sep \<Longrightarrow>
      Empty (Trimmed v (Span (span_begin a) (case sep of None \<Rightarrow> span_end a | Some p \<Rightarrow> p))) \<Longrightarrow>
      adds_in_order (case sep of None \<Rightarrow> span_end a | Some p \<Rightarrow> p + 1) (span_end a) refs
        (CollectGenericTypeArgumentAssemblyReferences v (Span (case sep of None \<Rightarrow> span_end a | Some p \<Rightarrow> p + 1) (span_end a)) d refs)"
    and type: "\<And>sep arg a'. \<not> Empty a \<Longrightarrow> TryFindTopLevelSeparator v a (CHR '','') = Some sep \<Longrightarrow>
      arg = Trimmed v (Span (span_begin a) (case sep of None \<Rightarrow> span_end a | Some p \<Rightarrow> p)) \<Longrightarrow> \<not> Empty arg \<Longrightarrow>
      argument_type v arg = Some a' \<Longrightarrow> span_begin a' \<le> span_end a' \<Longrightarrow>
      adds_in_order (span_begin a') (span_end a') refs (CollectTypeAssemblyReferences v a' d refs)"
    and rest: "\<And>sep arg a' refs1. \<not> Empty a \<Longrightarrow> TryFindTopLevelSeparator v a (CHR '','') = Some sep \<Longrightarrow>
      arg = Trimmed v (Span (span_begin a) (case sep of None \<Rightarrow> span_end a | Some p \<Rightarrow> p)) \<Longrightarrow> \<not> Empty arg \<Longrightarrow>
      argument_type v arg = Some a' \<Longrightarrow> CollectTypeAssemblyReferences v a' d refs = Some refs1 \<Longrightarrow>
      adds_in_order (case sep of None \<Rightarrow> span_end a | Some p \<Rightarrow> p + 1) (span_end a) refs1
        (CollectGenericTypeArgumentAssemblyReferences v (Span (case sep of None \<Rightarrow> span_end a | Some p \<Rightarrow> p + 1) (span_end a)) d refs1)"
  shows "adds_in_order (span_begin a) (span_end a) refs (CollectGenericTypeArgumentAssemblyReferences v a d refs)"
proof (cases "Empty a \<or> TryFindTopLevelSeparator v a (CHR '','') = None")
  case True
  with a show ?thesis
    by (auto simp: CollectGenericTypeArgumentAssemblyReferences.simps [of v a d refs] adds_in_order_none_new)
next
  case False
  then obtain sep where sep: "TryFindTopLevelSeparator v a (CHR '','') = Some sep" and ne: "\<not> Empty a" by auto
  let ?arg = "Trimmed v (Span (span_begin a) (case sep of None \<Rightarrow> span_end a | Some p \<Rightarrow> p))"
  let ?b = "case sep of None \<Rightarrow> span_end a | Some p \<Rightarrow> p + 1"
  note b = argument_bounds [OF ne sep refl]
  note unfolded = CollectGenericTypeArgumentAssemblyReferences.simps [of v a d refs]
  show ?thesis
  proof (cases "Empty ?arg")
    case True
    then have "CollectGenericTypeArgumentAssemblyReferences v a d refs =
        CollectGenericTypeArgumentAssemblyReferences v (Span ?b (span_end a)) d refs"
      using ne sep by (simp add: unfolded Let_def)
    with skip [OF ne sep True] b(3) show ?thesis by (auto elim!: adds_in_order_weaken)
  next
    case arg: False
    show ?thesis
    proof (cases "argument_type v ?arg")
      case None
      with ne sep arg show ?thesis by (simp add: unfolded Let_def)
    next
      case (Some a')
      have a': "span_begin ?arg \<le> span_begin a'" "span_end a' \<le> span_end ?arg" "span_begin a' \<le> span_end a'"
        using argument_type_bounds [OF Some] argument_type_nonempty [OF Some] arg by auto
      have le: "span_end a' \<le> ?b" using a'(2) b(6) by (auto split: option.splits)
      have "adds_in_order (span_end a') (span_end a) refs1
          (CollectGenericTypeArgumentAssemblyReferences v (Span ?b (span_end a)) d refs1)"
        if "CollectTypeAssemblyReferences v a' d refs = Some refs1" for refs1
        using rest [OF ne sep refl arg Some that] le by (auto elim!: adds_in_order_weaken)
      from adds_in_order_bind [OF type [OF ne sep refl arg Some a'(3)] this]
      have "adds_in_order (span_begin a') (span_end a) refs (CollectGenericTypeArgumentAssemblyReferences v a d refs)"
        using ne sep arg Some by (simp add: unfolded Let_def)
      then show ?thesis by (rule adds_in_order_weaken) (use b(1) a'(1) in auto)
    qed
  qed
qed

lemma collect_in_order:
  "span_begin ty \<le> span_end ty \<Longrightarrow>
     adds_in_order (span_begin ty) (span_end ty) refs (CollectTypeAssemblyReferences v ty d refs)"
  "pos \<le> e \<Longrightarrow> adds_in_order pos e refs (scan_type_name v pos e d refs)"
  "span_begin a \<le> span_end a \<Longrightarrow>
     adds_in_order (span_begin a) (span_end a) refs (CollectGenericTypeArgumentAssemblyReferences v a d refs)"
proof (induction v ty d refs and v pos e d refs and v a d refs
    rule: CollectTypeAssemblyReferences_scan_type_name_CollectGenericTypeArgumentAssemblyReferences.induct)
  case (1 v ty d refs)
  show ?case using "1.prems" by (rule type_in_order) (rule "1.IH" [OF refl]; assumption)
next
  case (2 v pos e d refs)
  consider (over) "\<not> pos < e" | (esc) "pos < e" "v ! pos = chr_backslash"
    | (bracket) "pos < e" "v ! pos \<noteq> chr_backslash" "v ! pos = CHR ''[''"
    | (other) "pos < e" "v ! pos \<noteq> chr_backslash" "v ! pos \<noteq> CHR ''[''" by blast
  then show ?case
  proof cases
    case bracket
    note args = "2.IH"(2) [OF bracket(1) refl bracket(2,3)] and rest = "2.IH"(3) [OF bracket(1) refl bracket(2,3)]
    show ?thesis
      by (rule scan_open_in_order [OF bracket])
        (use args rest FindClosingBracket_bounds [of v pos e] in simp_all)
  next
    case esc
    with "2.IH"(1) [OF esc(1) refl esc(2)] show ?thesis
      by (cases "pos + 1 = e")
        (auto simp: scan_type_name.simps [of v pos e d refs] elim!: adds_in_order_weaken)
  next
    case over
    with "2.prems" show ?thesis by (subst scan_type_name.simps) (simp add: adds_in_order_none_new)
  next
    case other
    from "2.IH"(4) [OF other(1) refl other(2,3)] other show ?thesis
      by (simp add: scan_type_name.simps [of v pos e d refs] Let_def) (erule adds_in_order_weaken; simp)
  qed
next
  case (3 v a d refs)
  note IH = "3.IH"
  show ?case
  proof (rule arguments_in_order [OF "3.prems"], goal_cases)
    case (1 sep)
    show ?case using IH(1) [OF 1(1,2) refl refl 1(3)] argument_bounds(4) [OF 1(1,2) refl] by simp
  next
    case (2 sep arg a')
    show ?case by (rule IH(2) [OF 2(1,2,3) refl 2(4,5,6)])
  next
    case (3 sep arg a' refs1)
    show ?case using IH(3) [OF 3(1,2,3) refl 3(4,5,6)] argument_bounds(4) [OF 3(1,2) refl] by simp
  qed
qed


text \<open>Every position the parser reports is usable. Parsing always returns; when it accepts a type name
  of any shape, the references come in the strict order of the name without overlapping, each insertion point
  and each version span lies inside the name, and a version comes after the assembly name it belongs to.\<close>

theorem parsed_positions_in_order:
  assumes "ParseTypeNameAssemblyReferences type_name = Some refs"
  shows "in_order 0 refs (length type_name)"
  using collect_in_order(1) [of "Span 0 (length type_name)" "[]" type_name 0] assms
  by (simp add: ParseTypeNameAssemblyReferences_def adds_in_order_def)

section \<open>Plain names are read exactly\<close>

text \<open>A character with no meaning to the parser.\<close>

definition plain_char :: "char \<Rightarrow> bool" where
  "plain_char c \<longleftrightarrow> c \<notin> {chr_backslash, chr_quote, chr_dquote, CHR ''['', CHR '']'', CHR '','', CHR ''=''} \<and>
     \<not> is_ascii_space c"

definition plain :: "string \<Rightarrow> bool" where
  "plain s \<longleftrightarrow> s \<noteq> [] \<and> list_all plain_char s"

definition plain_range :: "string \<Rightarrow> nat \<Rightarrow> nat \<Rightarrow> bool" where
  "plain_range v b e \<longleftrightarrow> (\<forall>i. b \<le> i \<and> i < e \<longrightarrow> plain_char (v ! i))"

lemma plain_rangeD: "plain_range v b e \<Longrightarrow> b < e \<Longrightarrow> plain_char (v ! b) \<and> plain_range v (b + 1) e"
  by (simp add: plain_range_def)

lemma plain_charD:
  assumes "plain_char c"
  shows "c \<noteq> chr_backslash" "\<not> is_quote c" "c \<noteq> CHR ''[''" "c \<noteq> CHR '']''" "c \<noteq> CHR '',''" "c \<noteq> CHR ''=''" "\<not> is_ascii_space c"
  using assms by (auto simp: plain_char_def is_quote_def)

text \<open>A scanner passes over a plain stretch.\<close>

lemma find_unescaped_plain:
  assumes "plain_range v b m" "b \<le> m" "m \<le> e" "x \<in> {CHR '','', CHR ''=''}"
  shows "find_unescaped v e x None b = find_unescaped v e x None m"
  using assms
proof (induction "m - b" arbitrary: b)
  case (Suc n)
  then have "b < m" by simp
  with plain_rangeD [OF Suc.prems(1)] have c: "plain_char (v ! b)" "plain_range v (b + 1) m" by auto
  have x: "v ! b \<noteq> x" using plain_charD(5,6) [OF c(1)] Suc.prems(4) by blast
  have "find_unescaped v e x None b = find_unescaped v e x None (b + 1)"
    unfolding find_unescaped.simps [of v e x None b]
    using plain_charD [OF c(1)] \<open>b < m\<close> Suc.prems(3) x by (simp add: Let_def)
  also have "\<dots> = find_unescaped v e x None m" using Suc c(2) \<open>b < m\<close> by (intro Suc.hyps) auto
  finally show ?case .
qed simp

lemma find_separator_plain:
  assumes "plain_range v b m" "b \<le> m" "m \<le> e"
  shows "find_separator v e (CHR '','') 0 None b = find_separator v e (CHR '','') 0 None m"
  using assms
proof (induction "m - b" arbitrary: b)
  case (Suc n)
  then have "b < m" by simp
  with plain_rangeD [OF Suc.prems(1)] have c: "plain_char (v ! b)" "plain_range v (b + 1) m" by auto
  have "find_separator v e (CHR '','') 0 None b = find_separator v e (CHR '','') 0 None (b + 1)"
    unfolding find_separator.simps [of v e "CHR '',''" 0 None b]
    using plain_charD [OF c(1)] \<open>b < m\<close> Suc.prems(3) by (simp add: Let_def)
  also have "\<dots> = find_separator v e (CHR '','') 0 None m" using Suc c(2) \<open>b < m\<close> by (intro Suc.hyps) auto
  finally show ?case .
qed simp

lemma scan_type_name_plain:
  assumes "plain_range v b e"
  shows "scan_type_name v b e d refs = Some refs"
  using assms
proof (induction "e - b" arbitrary: b)
  case 0
  then show ?case by (subst scan_type_name.simps) simp
next
  case (Suc n)
  then have "b < e" by simp
  with plain_rangeD [OF Suc.prems] have c: "plain_char (v ! b)" "plain_range v (b + 1) e" by auto
  from Suc.hyps(1) [of "b + 1"] c(2) Suc.hyps(2) have "scan_type_name v (b + 1) e d refs = Some refs" by simp
  with \<open>b < e\<close> c(1) plain_charD [OF c(1)] show ?case by (subst scan_type_name.simps) (simp add: Let_def)
qed

lemma Trimmed_plain:
  assumes "b < e" "\<not> is_ascii_space (v ! b)" "\<not> is_ascii_space (v ! (e - 1))"
  shows "Trimmed v (Span b e) = Span b e"
  using assms by (simp add: Trimmed_def Let_def trim_left.simps [of v b e] trim_right.simps [of v b e])

lemma Trimmed_space:
  assumes "b < e" "is_ascii_space (v ! b)"
  shows "Trimmed v (Span b e) = Trimmed v (Span (b + 1) e)"
  using assms by (simp add: Trimmed_def Let_def trim_left.simps [of v b e])


lemma find_unescaped_other:
  assumes "b < e" "v ! b \<notin> {chr_backslash, chr_quote, chr_dquote, CHR ''['', CHR '']'', x}"
  shows "find_unescaped v e x None b = find_unescaped v e x None (b + 1)"
  unfolding find_unescaped.simps [of v e x None b] using assms by (simp add: Let_def is_quote_def)

lemma find_unescaped_hit:
  assumes "b < e" "v ! b = x" "x \<in> {CHR '','', CHR ''=''}"
  shows "find_unescaped v e x None b = Some (Some b)"
  unfolding find_unescaped.simps [of v e x None b]
  using assms by (auto simp: Let_def is_quote_def chr_backslash_def chr_quote_def chr_dquote_def)

lemma find_unescaped_end: "find_unescaped v e x None e = Some None"
  by (subst find_unescaped.simps) simp

lemma plain_spaces: "\<not> plain_char (CHR '' '')" "is_ascii_space (CHR '' '')"
  by (simp_all add: plain_char_def is_ascii_space_def)

lemma TryGetUnquoted_plain:
  assumes "plain_range v b e" "b < e" "e \<le> length v"
  shows "TryGetUnquoted v (Span b e) = Some (Span b e)"
proof -
  have "\<not> list_ex is_quote (View v (Span b e))"
    using assms plain_charD(2) by (auto simp: View_def list_ex_length plain_range_def)
  moreover have "\<not> is_quote (v ! b)" using assms plain_charD(2) by (simp add: plain_range_def)
  ultimately show ?thesis using assms(2) by (simp add: TryGetUnquoted_def Empty_def)
qed

lemma Trimmed_plain_range:
  assumes "plain_range v b e" "b < e"
  shows "Trimmed v (Span b e) = Span b e"
  using assms plain_charD(7) by (intro Trimmed_plain) (auto simp: plain_range_def)

text \<open>A part that starts after a comma and a space and runs to the next comma or to the end.\<close>

lemma next_part_comma:
  assumes "v ! b = CHR '' ''" "plain_range v (b + 1) m" "b + 1 < m" "m < e" "v ! m = CHR '',''"
  shows "TryGetNextQualifierPart v (Span b e) = Some (Span (m + 1) e, Span (b + 1) m)"
proof -
  have "find_unescaped v e (CHR '','') None b = find_unescaped v e (CHR '','') None (b + 1)"
    using assms by (intro find_unescaped_other) (auto simp: chr_backslash_def chr_quote_def chr_dquote_def)
  also have "\<dots> = find_unescaped v e (CHR '','') None m" using assms by (intro find_unescaped_plain) auto
  also have "\<dots> = Some (Some m)" using assms by (intro find_unescaped_hit) auto
  finally have f: "find_unescaped v e (CHR '','') None b = Some (Some m)" .
  have "Trimmed v (Span b m) = Span (b + 1) m"
    using Trimmed_space [of b m v] Trimmed_plain_range [OF assms(2,3)] assms plain_spaces by simp
  with f show ?thesis by (simp add: TryGetNextQualifierPart_def TryFindUnescaped_def Let_def)
qed

lemma next_part_end:
  assumes "v ! b = CHR '' ''" "plain_range v (b + 1) q" "b + 1 < q" "v ! q = CHR ''=''" "plain_range v (q + 1) e" "q + 1 < e"
  shows "TryGetNextQualifierPart v (Span b e) = Some (Span e e, Span (b + 1) e)"
proof -
  have "find_unescaped v e (CHR '','') None b = find_unescaped v e (CHR '','') None (b + 1)"
    using assms by (intro find_unescaped_other) (auto simp: chr_backslash_def chr_quote_def chr_dquote_def)
  also have "\<dots> = find_unescaped v e (CHR '','') None q" using assms by (intro find_unescaped_plain) auto
  also have "\<dots> = find_unescaped v e (CHR '','') None (q + 1)"
    using assms by (intro find_unescaped_other) (auto simp: chr_backslash_def chr_quote_def chr_dquote_def)
  also have "\<dots> = find_unescaped v e (CHR '','') None e" using assms by (intro find_unescaped_plain) auto
  finally have f: "find_unescaped v e (CHR '','') None b = Some None" by (simp add: find_unescaped_end)
  have "\<not> is_ascii_space (v ! (b + 1))" "\<not> is_ascii_space (v ! (e - 1))"
    using assms plain_charD(7) by (auto simp: plain_range_def)
  then have "Trimmed v (Span b e) = Span (b + 1) e"
    using Trimmed_space [of b e v] Trimmed_plain [of "b + 1" e v] assms plain_spaces by simp
  with f show ?thesis by (simp add: TryGetNextQualifierPart_def TryFindUnescaped_def Let_def)
qed

lemma version_qualifier:
  assumes "plain_range v b q" "b < q" "v ! q = CHR ''=''" "plain_range v (q + 1) e" "q + 1 < e" "e \<le> length v"
    and "EqualsIgnoreAsciiCase (View v (Span b q)) ''Version''" "version_span r = None"
  shows "parse_qualifier v (Span b e) r = Some (r\<lparr>version_span := Some (Span (q + 1) e)\<rparr>)"
proof -
  have "find_unescaped v e (CHR ''='') None b = find_unescaped v e (CHR ''='') None q"
    using assms by (intro find_unescaped_plain) auto
  also have "\<dots> = Some (Some q)" using assms by (intro find_unescaped_hit) auto
  finally have f: "find_unescaped v e (CHR ''='') None b = Some (Some q)" .
  show ?thesis
    using f assms Trimmed_plain_range [OF assms(1,2)] Trimmed_plain_range [OF assms(4,5)]
      TryGetUnquoted_plain [OF assms(1,2)] TryGetUnquoted_plain [OF assms(4,5)]
    by (simp add: parse_qualifier_def TryFindUnescaped_def Let_def)
qed


lemma unescape_from_plain: "chr_backslash \<notin> set s \<Longrightarrow> unescape_from s i = drop i s"
proof (induction "length s - i" arbitrary: i)
  case 0
  then show ?case by (subst unescape_from.simps) simp
next
  case (Suc n)
  then have "i < length s" by simp
  with Suc.prems have "s ! i \<noteq> chr_backslash" using nth_mem [of i s] by metis
  with Suc \<open>i < length s\<close> show ?case
    by (subst unescape_from.simps) (simp add: Let_def Cons_nth_drop_Suc)
qed

lemma qualified_read:
  assumes len: "e = length v" and t: "plain_range v 0 c1" "0 < c1" "v ! c1 = CHR '',''"
    and a: "v ! (c1 + 1) = CHR '' ''" "plain_range v (c1 + 2) c2" "c1 + 2 < c2" "v ! c2 = CHR '',''"
    and k: "v ! (c2 + 1) = CHR '' ''" "plain_range v (c2 + 2) q" "c2 + 2 < q" "v ! q = CHR ''=''"
    and w: "plain_range v (q + 1) e" "q + 1 < e"
    and key: "EqualsIgnoreAsciiCase (View v (Span (c2 + 2) q)) ''Version''"
  shows "ParseTypeNameAssemblyReferences v =
    Some [\<lparr>assembly_name = Unescape (View v (Span (c1 + 2) c2)), insert_version_at = c2,
           version_span = Some (Span (q + 1) e)\<rparr>]"
proof -
  have trim: "Trimmed v (Span 0 e) = Span 0 e"
    using t a k w plain_charD(7) by (intro Trimmed_plain) (auto simp: plain_range_def)
  have "find_separator v e (CHR '','') 0 None 0 = find_separator v e (CHR '','') 0 None c1"
    using t a k w by (intro find_separator_plain) auto
  also have "\<dots> = Some (Some c1)"
    unfolding find_separator.simps [of v e "CHR '',''" 0 None c1]
    using t a k w by (simp add: Let_def is_quote_def chr_backslash_def chr_quote_def chr_dquote_def)
  finally have sep: "find_separator v e (CHR '','') 0 None 0 = Some (Some c1)" .
  have name: "TryGetNextQualifierPart v (Span (c1 + 1) e) = Some (Span (c2 + 1) e, Span (c1 + 2) c2)"
    using next_part_comma [of v "c1 + 1" c2 e] a k w by simp
  have rest: "TryGetNextQualifierPart v (Span (c2 + 1) e) = Some (Span e e, Span (c2 + 2) e)"
    using next_part_end [of v "c2 + 1" q e] k w by simp
  let ?r = "\<lparr>assembly_name = Unescape (View v (Span (c1 + 2) c2)), insert_version_at = c2, version_span = None\<rparr>"
  have "parse_qualifiers v (Span (c2 + 1) e) ?r = parse_qualifiers v (Span e e) (?r\<lparr>version_span := Some (Span (q + 1) e)\<rparr>)"
    using rest version_qualifier [OF k(2-4) w _ key, of ?r] k w
    by (subst parse_qualifiers.simps) (simp add: Empty_def len)
  also have "\<dots> = Some (?r\<lparr>version_span := Some (Span (q + 1) e)\<rparr>)"
    by (subst parse_qualifiers.simps) (simp add: Empty_def)
  finally have quals: "parse_qualifiers v (Span (c2 + 1) e) ?r = Some (?r\<lparr>version_span := Some (Span (q + 1) e)\<rparr>)" .
  have "ParseAssemblyQualification v (Span (c1 + 1) e) [] = Some [?r\<lparr>version_span := Some (Span (q + 1) e)\<rparr>]"
    using name quals TryGetUnquoted_plain [OF a(2,3)] a k w
    by (simp add: ParseAssemblyQualification_def Empty_def len)
  with trim sep scan_type_name_plain [OF t(1)] t a k w show ?thesis
    unfolding ParseTypeNameAssemblyReferences_def CollectTypeAssemblyReferences.simps
    by (simp add: len [symmetric] Let_def Empty_def TryFindTopLevelSeparator_def)
qed

lemma View_append: "b = length p \<Longrightarrow> e = length p + length m \<Longrightarrow> View (p @ m @ s) (Span b e) = m"
  by (simp add: View_def)

lemma plain_name_parsed:
  assumes "plain t" "plain a" "plain w"
  shows "ParseTypeNameAssemblyReferences (t @ '', '' @ a @ '', Version='' @ w) =
    Some [\<lparr>assembly_name = a, insert_version_at = length t + 2 + length a,
           version_span = Some (Span (length t + length a + 12) (length t + length a + 12 + length w))\<rparr>]"
proof -
  define v where "v = t @ '', '' @ a @ '', Version='' @ w"
  define c1 where "c1 = length t"
  define c2 where "c2 = c1 + 2 + length a"
  note defs = v_def c1_def c2_def nth_append plain_range_def
  have pl: "plain_char (t ! i)" if "i < length t" for i using assms(1) that by (simp add: plain_def list_all_length)
  have pa: "plain_char (a ! i)" if "i < length a" for i using assms(2) that by (simp add: plain_def list_all_length)
  have pw: "plain_char (w ! i)" if "i < length w" for i using assms(3) that by (simp add: plain_def list_all_length)
  have len: "length v = c2 + 10 + length w" by (simp add: defs)
  have view_a: "View v (Span (c1 + 2) c2) = a"
    using View_append [of "c1 + 2" "t @ '', ''" c2 a "'', Version='' @ w"] by (simp add: v_def c1_def c2_def)
  have view_k: "View v (Span (c2 + 2) (c2 + 9)) = ''Version''"
    using View_append [of "c2 + 2" "t @ '', '' @ a @ '', ''" "c2 + 9" "''Version''" "''='' @ w"] by (simp add: v_def c1_def c2_def)
  have pk: "plain_char c" if "c \<in> set ''Version''" for c
    using that by (auto simp: plain_char_def is_ascii_space_def chr_backslash_def chr_quote_def chr_dquote_def)
  have key: "plain_range v (c2 + 2) (c2 + 9)"
  proof (unfold plain_range_def, intro allI impI)
    fix i assume i: "c2 + 2 \<le> i \<and> i < c2 + 9"
    define j where "j = i - (c2 + 2)"
    then have j: "i = c2 + 2 + j" "j < 7" using i by auto
    then have "v ! i = View v (Span (c2 + 2) (c2 + 9)) ! j"
      using len by (simp add: View_def)
    also have "\<dots> \<in> set ''Version''" unfolding view_k using j by (intro nth_mem) simp
    finally show "plain_char (v ! i)" by (rule pk)
  qed
  have parse: "ParseTypeNameAssemblyReferences v = Some [\<lparr>assembly_name = Unescape (View v (Span (c1 + 2) c2)),
      insert_version_at = c2, version_span = Some (Span (c2 + 9 + 1) (length v))\<rparr>]"
  proof (rule qualified_read [OF refl])
    show "plain_range v 0 c1" using pl by (simp add: defs)
    show "plain_range v (c1 + 2) c2" using pa by (auto simp: defs)
    show "plain_range v (c2 + 9 + 1) (length v)" using pw by (auto simp: defs)
    show "EqualsIgnoreAsciiCase (View v (Span (c2 + 2) (c2 + 9))) ''Version''"
      unfolding view_k EqualsIgnoreAsciiCase_def by simp
  qed (use assms key in \<open>auto simp: defs plain_def\<close>)
  have "chr_backslash \<notin> set a" using assms(2) plain_charD(1) by (auto simp: plain_def list_all_iff)
  then have "Unescape a = a" by (simp add: Unescape_def unescape_from_plain)
  with parse [unfolded view_a] show ?thesis
    unfolding v_def [symmetric] by (simp add: add.assoc len) (simp add: c1_def c2_def)
qed

lemma plain_version_view:
  "View (t @ '', '' @ a @ '', Version='' @ w) (Span (length t + length a + 12) (length t + length a + 12 + length w)) = w"
  using View_append [of "length t + length a + 12" "t @ '', '' @ a @ '', Version=''" "length t + length a + 12 + length w" w "[]"] by simp

text \<open>A plain assembly-qualified name is read exactly. For a type name, an assembly name and a version
  text without reserved characters, parsing \<open>Type, Assembly, Version=1.2.3.4\<close> finds exactly one reference:
  that assembly, with a version span that covers precisely the version text.\<close>

theorem plain_qualified_name_read:
  assumes "plain t" "plain a" "plain w"
  shows "let type_name = t @ '', '' @ a @ '', Version='' @ w in
    \<exists>at s. ParseTypeNameAssemblyReferences type_name =
        Some [\<lparr>assembly_name = a, insert_version_at = at, version_span = Some s\<rparr>] \<and>
      take at type_name = t @ '', '' @ a \<and> View type_name s = w \<and> span_end s = length type_name"
  unfolding Let_def plain_name_parsed [OF assms] using plain_version_view [of t a w] by simp

definition sample_name :: string where
  "sample_name = ''N.T'' @ '', '' @ ''My.Lib'' @ '', Version='' @ ''1.2.3.4''"

lemma sample_plain: "plain ''N.T''" "plain ''My.Lib''" "plain ''1.2.3.4''"
  by (simp_all add: plain_def plain_char_def is_ascii_space_def chr_backslash_def chr_quote_def chr_dquote_def)

theorem plain_qualified_name_read_witness:
  "\<exists>at s. ParseTypeNameAssemblyReferences sample_name =
      Some [\<lparr>assembly_name = ''My.Lib'', insert_version_at = at, version_span = Some s\<rparr>] \<and> View sample_name s = ''1.2.3.4''"
  using plain_qualified_name_read [OF sample_plain] unfolding sample_name_def Let_def by blast

lemma sample_parse:
  "ParseTypeNameAssemblyReferences sample_name =
     Some [\<lparr>assembly_name = ''My.Lib'', insert_version_at = 11, version_span = Some (Span 21 28)\<rparr>]"
  unfolding sample_name_def by code_simp

theorem parsed_positions_in_order_witness:
  "in_order 0 [\<lparr>assembly_name = ''My.Lib'', insert_version_at = 11, version_span = Some (Span 21 28)\<rparr>] (length sample_name)"
  using parsed_positions_in_order [OF sample_parse] .

end
