(* ===== verification/Cor_Sig.thy ===== *)
theory Cor_Sig
  imports Prelude
begin

text \<open>
  The compressed integers of CLR signatures: the inline functions of \<open>cor.h\<close> that every signature the
  profiler reads or writes goes through. A signature pointer is the list of bytes readable from it; a
  read past that list is \<open>None\<close>. The theorems: every value in range survives compression and
  decompression at its exact length, for unsigned, signed and token data, and the checked decoder
  never consumes more than the length it is given.
\<close>

definition META_E_BAD_SIGNATURE :: hresult where "META_E_BAD_SIGNATURE = 0x80131192"

definition mdtTypeRef :: u32 where "mdtTypeRef = 0x01000000"
definition mdtTypeDef :: u32 where "mdtTypeDef = 0x02000000"
definition mdtTypeSpec :: u32 where "mdtTypeSpec = 0x1b000000"
definition mdtBaseType :: u32 where "mdtBaseType = 0x72000000"
definition mdTokenNil :: u32 where "mdTokenNil = 0"

definition TokenFromRid :: "u32 \<Rightarrow> u32 \<Rightarrow> u32" where
  "TokenFromRid rid tktype = rid OR tktype"

definition RidFromToken :: "u32 \<Rightarrow> u32" where
  "RidFromToken tk = tk AND 0x00ffffff"

definition TypeFromToken :: "u32 \<Rightarrow> u32" where
  "TypeFromToken tk = tk AND 0xff000000"

section \<open>Decompression\<close>

definition CorSigUncompressedDataSize :: "byte \<Rightarrow> u32" where
  "CorSigUncompressedDataSize b =
     (if b AND 0x80 = 0 then 1 else if b AND 0xC0 = 0x80 then 2 else 4)"

definition two_bytes :: "byte \<Rightarrow> byte \<Rightarrow> u32" where
  "two_bytes b0 b1 = push_bit 8 (ucast (b0 AND 0x3f)) OR ucast b1"

definition four_bytes :: "byte \<Rightarrow> byte \<Rightarrow> byte \<Rightarrow> byte \<Rightarrow> u32" where
  "four_bytes b0 b1 b2 b3 =
     push_bit 24 (ucast (b0 AND 0x1f)) OR push_bit 16 (ucast b1) OR push_bit 8 (ucast b2) OR ucast b3"

text \<open>The unchecked decoders take the pointer by reference: the rest of the bytes is returned.\<close>

fun CorSigUncompressBigData :: "byte list \<Rightarrow> (u32 \<times> byte list) option" where
  "CorSigUncompressBigData [] = None"
| "CorSigUncompressBigData (b0 # bs) =
     (if b0 AND 0xC0 = 0x80
      then (case bs of b1 # rest \<Rightarrow> Some (two_bytes b0 b1, rest) | _ \<Rightarrow> None)
      else (case bs of b1 # b2 # b3 # rest \<Rightarrow> Some (four_bytes b0 b1 b2 b3, rest) | _ \<Rightarrow> None))"

fun CorSigUncompressData :: "byte list \<Rightarrow> (u32 \<times> byte list) option" where
  "CorSigUncompressData [] = None"
| "CorSigUncompressData (b0 # bs) =
     (if b0 AND 0x80 = 0 then Some (ucast b0, bs) else CorSigUncompressBigData (b0 # bs))"

text \<open>
  The checked decoder: result, value and length. It looks at the first byte before it looks at \<open>len\<close>,
  so an empty readable range is a fault even when \<open>len\<close> is 0.
\<close>

fun CorSigUncompressData_checked :: "byte list \<Rightarrow> u32 \<Rightarrow> (hresult \<times> u32 \<times> u32) option" where
  "CorSigUncompressData_checked [] len = None"
| "CorSigUncompressData_checked (b0 # bs) len =
     (if b0 AND 0x80 = 0
      then (if len < 1 then Some (META_E_BAD_SIGNATURE, 0, 0) else Some (S_OK, ucast b0, 1))
      else if b0 AND 0xC0 = 0x80
      then (if len < 2 then Some (META_E_BAD_SIGNATURE, 0, 0)
            else case bs of b1 # _ \<Rightarrow> Some (S_OK, two_bytes b0 b1, 2) | _ \<Rightarrow> None)
      else if b0 AND 0xE0 = 0xC0
      then (if len < 4 then Some (META_E_BAD_SIGNATURE, 0, 0)
            else case bs of b1 # b2 # b3 # _ \<Rightarrow> Some (S_OK, four_bytes b0 b1 b2 b3, 4) | _ \<Rightarrow> None)
      else Some (META_E_BAD_SIGNATURE, 0, 0))"

text \<open>The variant that trusts the buffer and returns the length, \<open>-1\<close> for bad data.\<close>

definition CorSigUncompressData_size :: "byte list \<Rightarrow> (u32 \<times> u32) option" where
  "CorSigUncompressData_size pData =
     (case CorSigUncompressData_checked pData 0xff of
        None \<Rightarrow> None
      | Some (hr, x, n) \<Rightarrow> if FAILED hr then Some (- 1, 0) else Some (n, x))"

definition CorSigDecodeTokenType :: "u32 \<Rightarrow> u32" where
  "CorSigDecodeTokenType encoded =
     (if encoded = 0 then mdtTypeDef else if encoded = 1 then mdtTypeRef
      else if encoded = 2 then mdtTypeSpec else mdtBaseType)"

definition decode_token :: "u32 \<Rightarrow> u32" where
  "decode_token tk = TokenFromRid (drop_bit 2 tk) (CorSigDecodeTokenType (tk AND 3))"

definition CorSigUncompressToken :: "byte list \<Rightarrow> (u32 \<times> byte list) option" where
  "CorSigUncompressToken pData = map_option (\<lambda>(tk, rest). (decode_token tk, rest)) (CorSigUncompressData pData)"

definition CorSigUncompressToken_size :: "byte list \<Rightarrow> (u32 \<times> u32) option" where
  "CorSigUncompressToken_size pData = map_option (\<lambda>(cb, tk). (cb, decode_token tk)) (CorSigUncompressData_size pData)"

definition CorSigUncompressToken_checked :: "byte list \<Rightarrow> u32 \<Rightarrow> (hresult \<times> u32 \<times> u32) option" where
  "CorSigUncompressToken_checked pData dwLen =
     map_option (\<lambda>(hr, tk, n). (hr, if SUCCEEDED hr then decode_token tk else mdTokenNil, n))
       (CorSigUncompressData_checked pData dwLen)"

fun CorSigUncompressCallingConv :: "byte list \<Rightarrow> (u32 \<times> byte list) option" where
  "CorSigUncompressCallingConv [] = None"
| "CorSigUncompressCallingConv (b # bs) = Some (ucast b, bs)"

definition CorSigUncompressCallingConv_checked :: "byte list \<Rightarrow> u32 \<Rightarrow> (hresult \<times> u32) option" where
  "CorSigUncompressCallingConv_checked pData dwLen =
     (if 0 < dwLen then (case pData of [] \<Rightarrow> None | b # _ \<Rightarrow> Some (S_OK, ucast b))
      else Some (META_E_BAD_SIGNATURE, 0))"

definition SIGN_MASK_ONEBYTE :: u32 where "SIGN_MASK_ONEBYTE = 0xffffffc0"
definition SIGN_MASK_TWOBYTE :: u32 where "SIGN_MASK_TWOBYTE = 0xffffe000"
definition SIGN_MASK_FOURBYTE :: u32 where "SIGN_MASK_FOURBYTE = 0xf0000000"

text \<open>A signed integer is the 32-bit pattern of the \<open>int\<close>; the output is untouched on failure.\<close>

definition CorSigUncompressSignedInt :: "byte list \<Rightarrow> (u32 \<times> u32 option) option" where
  "CorSigUncompressSignedInt pData =
     (case CorSigUncompressData_size pData of
        None \<Rightarrow> None
      | Some (cb, iData) \<Rightarrow>
          if cb = - 1 then Some (cb, None)
          else let ulSigned = iData AND 1;
                   d = drop_bit 1 iData;
                   d' = (if ulSigned \<noteq> 0
                         then d OR (if cb = 1 then SIGN_MASK_ONEBYTE else if cb = 2 then SIGN_MASK_TWOBYTE
                                    else SIGN_MASK_FOURBYTE)
                         else d)
               in Some (cb, Some d'))"

fun CorSigUncompressElementType :: "byte list \<Rightarrow> (byte \<times> byte list) option" where
  "CorSigUncompressElementType [] = None"
| "CorSigUncompressElementType (b # bs) = Some (b, bs)"

fun CorSigUncompressElementType_size :: "byte list \<Rightarrow> (u32 \<times> byte) option" where
  "CorSigUncompressElementType_size [] = None"
| "CorSigUncompressElementType_size (b # bs) = Some (1, b AND 0x7f)"

section \<open>Compression\<close>

text \<open>The bytes written; \<open>None\<close> is the return value \<open>-1\<close>, nothing written.\<close>

definition CorSigCompressData :: "u32 \<Rightarrow> byte list option" where
  "CorSigCompressData iLen =
     (if iLen \<le> 0x7F then Some [ucast iLen]
      else if iLen \<le> 0x3FFF then Some [ucast (drop_bit 8 iLen OR 0x80), ucast (iLen AND 0xff)]
      else if iLen \<le> 0x1FFFFFFF
      then Some [ucast (drop_bit 24 iLen OR 0xC0), ucast (drop_bit 16 iLen AND 0xff),
                 ucast (drop_bit 8 iLen AND 0xff), ucast (iLen AND 0xff)]
      else None)"

definition CorSigCompressToken :: "u32 \<Rightarrow> byte list option" where
  "CorSigCompressToken tk =
     (let rid = RidFromToken tk; ulTyp = TypeFromToken tk
      in if rid > 0x3FFFFFF then None
         else let r = push_bit 2 rid;
                  r' = (if ulTyp = CorSigDecodeTokenType 1 then r OR 1
                        else if ulTyp = CorSigDecodeTokenType 2 then r OR 2
                        else if ulTyp = CorSigDecodeTokenType 3 then r OR 3 else r)
              in CorSigCompressData r')"

definition CorSigCompressSignedInt :: "u32 \<Rightarrow> byte list option" where
  "CorSigCompressSignedInt iData =
     (let isSigned = (if sint iData < 0 then 1 else 0)
      in if iData AND SIGN_MASK_ONEBYTE = 0 \<or> iData AND SIGN_MASK_ONEBYTE = SIGN_MASK_ONEBYTE
         then let d = push_bit 1 (iData AND NOT SIGN_MASK_ONEBYTE) OR isSigned in Some [ucast d]
         else if iData AND SIGN_MASK_TWOBYTE = 0 \<or> iData AND SIGN_MASK_TWOBYTE = SIGN_MASK_TWOBYTE
         then let d = push_bit 1 (iData AND NOT SIGN_MASK_TWOBYTE) OR isSigned
              in Some [ucast (drop_bit 8 d OR 0x80), ucast (d AND 0xff)]
         else if iData AND SIGN_MASK_FOURBYTE = 0 \<or> iData AND SIGN_MASK_FOURBYTE = SIGN_MASK_FOURBYTE
         then let d = push_bit 1 (iData AND NOT SIGN_MASK_FOURBYTE) OR isSigned
              in Some [ucast (drop_bit 24 d OR 0xC0), ucast (drop_bit 16 d AND 0xff),
                       ucast (drop_bit 8 d AND 0xff), ucast (d AND 0xff)]
         else None)"

definition CorSigCompressElementType :: "byte \<Rightarrow> byte list" where
  "CorSigCompressElementType et = [et]"

section \<open>Words bit by bit\<close>

lemma u8_bits: "(a :: u8) = b \<longleftrightarrow> list_all (\<lambda>n. bit a n = bit b n) [0, 1, 2, 3, 4, 5, 6, 7]"
proof
  assume *: "list_all (\<lambda>n. bit a n = bit b n) [0, 1, 2, 3, 4, 5, 6, 7]"
  show "a = b"
  proof (rule bit_word_eqI)
    fix n assume "n < LENGTH(8)"
    then have "n \<in> {0, 1, 2, 3, 4, 5, 6, 7}" by auto
    with * show "bit a n = bit b n" by auto
  qed
qed simp

lemma u32_bits: "(a :: u32) = b \<longleftrightarrow> list_all (\<lambda>n. bit a n = bit b n) [0, 1, 2, 3, 4, 5, 6, 7, 8, 9, 10, 11, 12, 13, 14,
    15, 16, 17, 18, 19, 20, 21, 22, 23, 24, 25, 26, 27, 28, 29, 30, 31]"
proof
  assume *: "list_all (\<lambda>n. bit a n = bit b n) [0, 1, 2, 3, 4, 5, 6, 7, 8, 9, 10, 11, 12, 13, 14,
    15, 16, 17, 18, 19, 20, 21, 22, 23, 24, 25, 26, 27, 28, 29, 30, 31]"
  have upto: "[0..<32] = [0, 1, 2, 3, 4, 5, 6, 7, 8, 9, 10, 11, 12, 13, 14,
    15, 16, 17, 18, 19, 20, 21, 22, 23, 24, 25, 26, 27, 28, 29, 30, 31]" by code_simp
  show "a = b"
  proof (rule bit_word_eqI)
    fix n assume "n < LENGTH(32)"
    then have "n \<in> set [0..<32]" by simp
    with * show "bit a n = bit b n" unfolding upto [symmetric] by (simp add: list_all_iff)
  qed
qed simp

lemmas byte_bits = bit_and_iff bit_or_iff bit_not_iff bit_push_bit_iff bit_drop_bit_eq bit_unsigned_iff

lemma byte_classes:
  fixes b :: byte
  shows "b AND 0x80 = 0 \<longleftrightarrow> \<not> bit b 7"
    and "b AND 0xC0 = 0x80 \<longleftrightarrow> bit b 7 \<and> \<not> bit b 6"
    and "b AND 0xE0 = 0xC0 \<longleftrightarrow> bit b 7 \<and> bit b 6 \<and> \<not> bit b 5"
  by (auto simp: u8_bits byte_bits)

text \<open>A word below a power of two has no bits above it.\<close>

lemma small_no_bit: "unat (x :: 'a::len word) < 2 ^ k \<Longrightarrow> k \<le> n \<Longrightarrow> \<not> bit x n"
proof
  assume "unat x < 2 ^ k" "k \<le> n" "bit x n"
  then have "bit (unat x) n" by (simp add: bit_unsigned_iff)
  then have "2 ^ n \<le> unat x" by (metis bit_iff_odd div_less even_zero not_le)
  moreover have "(2 :: nat) ^ k \<le> 2 ^ n" using \<open>k \<le> n\<close> by (rule power_increasing) simp
  ultimately show False using \<open>unat x < 2 ^ k\<close> by simp
qed


lemma two_bytes_compress:
  fixes x :: u32
  assumes "unat x < 2 ^ 14"
  shows "two_bytes (ucast (drop_bit 8 x OR 0x80)) (ucast (x AND 0xff)) = x"
proof -
  have "\<not> bit x n" if "14 \<le> n" for n using small_no_bit [OF assms that] .
  then show ?thesis by (simp add: two_bytes_def u32_bits byte_bits)
qed

lemma four_bytes_compress:
  fixes x :: u32
  assumes "unat x < 2 ^ 29"
  shows "four_bytes (ucast (drop_bit 24 x OR 0xC0)) (ucast (drop_bit 16 x AND 0xff))
     (ucast (drop_bit 8 x AND 0xff)) (ucast (x AND 0xff)) = x"
proof -
  have "\<not> bit x n" if "29 \<le> n" for n using small_no_bit [OF assms that] .
  then show ?thesis by (simp add: four_bytes_def u32_bits byte_bits)
qed


lemma one_byte_compress:
  fixes x :: u32
  assumes "unat x < 2 ^ 7"
  shows "ucast (ucast x :: byte) = x"
proof -
  have "\<not> bit x n" if "7 \<le> n" for n using small_no_bit [OF assms that] .
  then show ?thesis by (simp add: u32_bits byte_bits)
qed

text \<open>The three shapes a compressed value can have, with the class of the first byte.\<close>

lemma compress_shape:
  assumes "CorSigCompressData x = Some bs"
  obtains (small) b where "bs = [b]" "\<not> bit b 7" "ucast b = x"
    | (medium) b0 b1 where "bs = [b0, b1]" "bit b0 7" "\<not> bit b0 6" "two_bytes b0 b1 = x"
    | (large) b0 b1 b2 b3 where "bs = [b0, b1, b2, b3]" "bit b0 7" "bit b0 6" "\<not> bit b0 5" "four_bytes b0 b1 b2 b3 = x"
proof -
  consider (1) "x \<le> 0x7F" | (2) "\<not> x \<le> 0x7F" "x \<le> 0x3FFF" | (3) "\<not> x \<le> 0x3FFF" "x \<le> 0x1FFFFFFF" | (4) "\<not> x \<le> 0x1FFFFFFF"
    by blast
  then show thesis
  proof cases
    case 1
    then have u: "unat x < 2 ^ 7" by (simp add: word_le_nat_alt)
    then have "\<not> bit x 7" by (rule small_no_bit) simp
    with 1 assms one_byte_compress [OF u] show thesis
      by (intro small [of "ucast x"]) (simp_all add: CorSigCompressData_def bit_unsigned_iff)
  next
    case 2
    then have u: "unat x < 2 ^ 14" by (simp add: word_le_nat_alt)
    then have "\<not> bit x 14" by (rule small_no_bit) simp
    with 2 assms two_bytes_compress [OF u] show thesis
      by (intro medium [of "ucast (drop_bit 8 x OR 0x80)" "ucast (x AND 0xff)"])
        (simp_all add: CorSigCompressData_def byte_bits)
  next
    case 3
    then have u: "unat x < 2 ^ 29" by (simp add: word_le_nat_alt)
    then have "\<not> bit x 29" by (rule small_no_bit) simp
    moreover from 3 have "\<not> x \<le> 0x7F" by (simp add: word_le_nat_alt)
    ultimately show thesis using 3 assms four_bytes_compress [OF u]
      by (intro large [of "ucast (drop_bit 24 x OR 0xC0)" "ucast (drop_bit 16 x AND 0xff)"
            "ucast (drop_bit 8 x AND 0xff)" "ucast (x AND 0xff)"])
        (simp_all add: CorSigCompressData_def byte_bits)
  next
    case 4
    then have "\<not> x \<le> 0x7F" "\<not> x \<le> 0x3FFF" by (simp_all add: word_le_nat_alt)
    with 4 assms show thesis by (simp add: CorSigCompressData_def)
  qed
qed

lemma compress_defined: "CorSigCompressData x \<noteq> None \<longleftrightarrow> x \<le> 0x1FFFFFFF"
  by (auto simp: CorSigCompressData_def word_le_nat_alt)

lemma uncompress_compress:
  "CorSigCompressData x = Some bs \<Longrightarrow> CorSigUncompressData (bs @ rest) = Some (x, rest)"
  by (erule compress_shape) (auto simp: byte_classes)

lemma uncompress_checked_compress:
  assumes "CorSigCompressData x = Some bs" "length bs \<le> unat len"
  shows "CorSigUncompressData_checked (bs @ rest) len = Some (S_OK, x, of_nat (length bs))"
  using assms by (elim compress_shape) (auto simp: byte_classes word_less_nat_alt)

lemma compress_length: "CorSigCompressData x = Some bs \<Longrightarrow> length bs \<in> {1, 2, 4}"
  by (auto simp: CorSigCompressData_def split: if_splits)

text \<open>C39: signature integers survive. Exactly the values up to 0x1FFFFFFF can be compressed, into one,
  two or four bytes; the trusting, the checked and the sizing decoder all give the value back and
  consume exactly the bytes that were written, whatever follows them in the signature.\<close>

theorem compressed_data_roundtrip:
  "(CorSigCompressData x \<noteq> None \<longleftrightarrow> x \<le> 0x1FFFFFFF) \<and>
   (case CorSigCompressData x of None \<Rightarrow> True | Some bs \<Rightarrow>
      length bs \<in> {1, 2, 4} \<and>
      CorSigUncompressData (bs @ rest) = Some (x, rest) \<and>
      CorSigUncompressData_checked (bs @ rest) (of_nat (length bs)) = Some (S_OK, x, of_nat (length bs)) \<and>
      CorSigUncompressData_size (bs @ rest) = Some (of_nat (length bs), x))"
proof (cases "CorSigCompressData x")
  case (Some bs)
  have len: "length bs \<in> {1, 2, 4}" using compress_length [OF Some] .
  then have "length bs \<le> unat (of_nat (length bs) :: u32)" "length bs \<le> unat (0xff :: u32)" by auto
  with uncompress_checked_compress [OF Some] uncompress_compress [OF Some] len compress_defined [of x] Some
  show ?thesis by (simp add: CorSigUncompressData_size_def)
qed (use compress_defined [of x] in simp)

section \<open>Tokens\<close>

lemma rid_small: "unat (RidFromToken tk) < 2 ^ 24"
proof -
  have "RidFromToken tk = take_bit 24 tk"
    by (simp add: RidFromToken_def u32_bits byte_bits bit_take_bit_iff)
  then show ?thesis by (simp only: unsigned_take_bit_eq take_bit_nat_less_exp)
qed

definition encoded_token :: "u32 \<Rightarrow> u32" where
  "encoded_token tk =
     (let r = push_bit 2 (RidFromToken tk); ulTyp = TypeFromToken tk
      in if ulTyp = CorSigDecodeTokenType 1 then r OR 1
         else if ulTyp = CorSigDecodeTokenType 2 then r OR 2
         else if ulTyp = CorSigDecodeTokenType 3 then r OR 3 else r)"

lemma compress_token_eq: "CorSigCompressToken tk = CorSigCompressData (encoded_token tk)"
  using rid_small [of tk]
  by (simp add: CorSigCompressToken_def encoded_token_def Let_def word_less_nat_alt)

lemma tagged_rid:
  assumes "c \<in> {0, 1, 2, 3 :: u32}"
  shows "drop_bit 2 (push_bit 2 (RidFromToken tk) OR c) = RidFromToken tk"
    and "(push_bit 2 (RidFromToken tk) OR c) AND 3 = c"
    and "take_bit 26 (push_bit 2 (RidFromToken tk) OR c) = push_bit 2 (RidFromToken tk) OR c"
  using assms by (elim insertE emptyE; hypsubst; simp add: RidFromToken_def u32_bits byte_bits bit_take_bit_iff)+

lemma encoded_token_tag:
  obtains c where "c \<in> {0, 1, 2, 3}" "encoded_token tk = push_bit 2 (RidFromToken tk) OR c"
proof -
  have "\<exists>c \<in> {0, 1, 2, 3}. encoded_token tk = push_bit 2 (RidFromToken tk) OR c"
    unfolding encoded_token_def Let_def by (simp split: if_split) 
  then show thesis using that by blast
qed

lemma encoded_token_small: "encoded_token tk \<le> 0x1FFFFFFF"
proof -
  obtain c where "c \<in> {0, 1, 2, 3}" "encoded_token tk = push_bit 2 (RidFromToken tk) OR c"
    by (rule encoded_token_tag)
  then have "take_bit 26 (encoded_token tk) = encoded_token tk" using tagged_rid(3) by metis
  then have "unat (encoded_token tk) < 2 ^ 26" by (metis take_bit_nat_less_exp unsigned_take_bit_eq)
  then show ?thesis by (simp add: word_le_nat_alt)
qed

lemma token_parts: "TokenFromRid (RidFromToken tk) (TypeFromToken tk) = tk"
  by (simp add: TokenFromRid_def RidFromToken_def TypeFromToken_def u32_bits byte_bits)

lemma token_types_distinct:
  "mdtTypeDef \<noteq> mdtTypeRef" "mdtTypeDef \<noteq> mdtTypeSpec" "mdtTypeDef \<noteq> mdtBaseType"
  "mdtTypeRef \<noteq> mdtTypeSpec" "mdtTypeRef \<noteq> mdtBaseType" "mdtTypeSpec \<noteq> mdtBaseType"
  by (simp_all add: mdtTypeDef_def mdtTypeRef_def mdtTypeSpec_def mdtBaseType_def)

lemma decode_tagged:
  assumes "c \<in> {0, 1, 2, 3}" "TypeFromToken tk = CorSigDecodeTokenType c"
  shows "decode_token (push_bit 2 (RidFromToken tk) OR c) = tk"
  using tagged_rid(1,2) [OF assms(1), of tk] assms(2) token_parts [of tk] by (simp add: decode_token_def)

lemma decode_encoded_token:
  assumes "TypeFromToken tk \<in> {mdtTypeDef, mdtTypeRef, mdtTypeSpec, mdtBaseType}"
  shows "decode_token (encoded_token tk) = tk"
  using assms decode_tagged [of 0 tk] decode_tagged [of 1 tk] decode_tagged [of 2 tk] decode_tagged [of 3 tk]
    token_types_distinct
  by (auto simp: encoded_token_def Let_def CorSigDecodeTokenType_def)

text \<open>Tokens survive. Every token can be compressed, and when its table is one of the four that a
  signature can encode (type definition, reference, specification, base type) the decoders give the same
  token back, again consuming exactly what was written.\<close>

theorem compressed_token_roundtrip:
  assumes "TypeFromToken tk \<in> {mdtTypeDef, mdtTypeRef, mdtTypeSpec, mdtBaseType}"
  shows "\<exists>bs. CorSigCompressToken tk = Some bs \<and> CorSigUncompressToken (bs @ rest) = Some (tk, rest) \<and>
    CorSigUncompressToken_checked (bs @ rest) (of_nat (length bs)) = Some (S_OK, tk, of_nat (length bs))"
proof -
  obtain bs where bs: "CorSigCompressData (encoded_token tk) = Some bs"
    using compress_defined [of "encoded_token tk"] encoded_token_small [of tk] by auto
  have "length bs \<le> unat (of_nat (length bs) :: u32)" using compress_length [OF bs] by auto
  with uncompress_checked_compress [OF bs] uncompress_compress [OF bs] bs decode_encoded_token [OF assms]
  show ?thesis
    by (intro exI [of _ bs])
      (simp add: compress_token_eq CorSigUncompressToken_def CorSigUncompressToken_checked_def)
qed

theorem compressed_token_roundtrip_witness:
  "CorSigUncompressToken (the (CorSigCompressToken 0x01000123) @ [7]) = Some (0x01000123, [7])"
proof -
  have t: "TypeFromToken 0x01000123 \<in> {mdtTypeDef, mdtTypeRef, mdtTypeSpec, mdtBaseType}"
    by (simp add: TypeFromToken_def mdtTypeRef_def)
  from compressed_token_roundtrip [OF t, of "[7]"] show ?thesis by auto
qed


section \<open>Signed integers\<close>

lemma sign_bit: "sint (x :: u32) < 0 \<longleftrightarrow> bit x 31"
  using bit_last_iff [of x] by simp

text \<open>All bits from \<open>k\<close> on agree with the sign bit: the test the encoder makes with its masks.\<close>

definition sign_extends :: "nat \<Rightarrow> u32 \<Rightarrow> bool" where
  "sign_extends k x \<longleftrightarrow> (\<forall>n. k \<le> n \<longrightarrow> n < 32 \<longrightarrow> (bit x n \<longleftrightarrow> bit x 31))"

lemma mask_test:
  assumes m: "\<And>n. bit m n \<longleftrightarrow> k \<le> n \<and> n < 32" and k: "k < 32"
  shows "(x AND m = 0 \<or> x AND m = (m :: u32)) \<longleftrightarrow> sign_extends k x"
proof
  assume "x AND m = 0 \<or> x AND m = m"
  then show "sign_extends k x"
  proof
    assume "x AND m = 0"
    then have "\<not> bit (x AND m) n" for n by simp
    then have "\<not> bit x n" if "k \<le> n" "n < 32" for n using that by (auto simp: bit_and_iff m)
    then show ?thesis using k by (simp add: sign_extends_def)
  next
    assume "x AND m = m"
    then have "bit (x AND m) n = bit m n" for n by simp
    then have "bit x n" if "k \<le> n" "n < 32" for n using that by (auto simp: bit_and_iff m)
    then show ?thesis using k by (simp add: sign_extends_def)
  qed
next
  assume s: "sign_extends k x"
  show "x AND m = 0 \<or> x AND m = m"
  proof (cases "bit x 31")
    case True
    then have "x AND m = m" using s by (intro bit_word_eqI) (auto simp: bit_and_iff m sign_extends_def)
    then show ?thesis ..
  next
    case False
    then have "x AND m = 0" using s by (intro bit_word_eqI) (auto simp: bit_and_iff m sign_extends_def)
    then show ?thesis ..
  qed
qed

lemma sign_mask_bits:
  "bit SIGN_MASK_ONEBYTE n \<longleftrightarrow> 6 \<le> n \<and> n < 32"
  "bit SIGN_MASK_TWOBYTE n \<longleftrightarrow> 13 \<le> n \<and> n < 32"
  "bit SIGN_MASK_FOURBYTE n \<longleftrightarrow> 28 \<le> n \<and> n < 32"
proof -
  have masks: "SIGN_MASK_ONEBYTE = push_bit 6 (mask 26)" "SIGN_MASK_TWOBYTE = push_bit 13 (mask 19)"
    "SIGN_MASK_FOURBYTE = push_bit 28 (mask 4)"
    by (simp_all add: SIGN_MASK_ONEBYTE_def SIGN_MASK_TWOBYTE_def SIGN_MASK_FOURBYTE_def u32_bits bit_push_bit_iff bit_mask_iff)
  show "bit SIGN_MASK_ONEBYTE n \<longleftrightarrow> 6 \<le> n \<and> n < 32"
    "bit SIGN_MASK_TWOBYTE n \<longleftrightarrow> 13 \<le> n \<and> n < 32"
    "bit SIGN_MASK_FOURBYTE n \<longleftrightarrow> 28 \<le> n \<and> n < 32"
    unfolding masks bit_push_bit_iff bit_mask_iff by auto
qed

lemmas sign_tests = mask_test [OF sign_mask_bits(1)] mask_test [OF sign_mask_bits(2)] mask_test [OF sign_mask_bits(3)]

definition sign_tag :: "u32 \<Rightarrow> u32" where
  "sign_tag x = (if bit x 31 then 1 else 0)"

lemma sign_tag_bit: "bit (sign_tag x) n \<longleftrightarrow> n = 0 \<and> bit x 31"
  by (simp add: sign_tag_def bit_1_iff)

text \<open>The value that is stored, and the value a decoder restores from it with the mask of its size.\<close>

definition signed_code :: "u32 \<Rightarrow> u32 \<Rightarrow> u32" where
  "signed_code m x = push_bit 1 (x AND NOT m) OR sign_tag x"

lemma signed_restore:
  assumes m: "\<And>n. bit m n \<longleftrightarrow> k \<le> n \<and> n < 32" and k: "k < 31" and x: "sign_extends k x"
  shows "(if signed_code m x AND 1 \<noteq> 0 then drop_bit 1 (signed_code m x) OR m else drop_bit 1 (signed_code m x)) = x"
    and "signed_code m x AND 1 \<noteq> 0 \<longleftrightarrow> bit x 31"
proof -
  show odd: "signed_code m x AND 1 \<noteq> 0 \<longleftrightarrow> bit x 31"
  proof -
    have "signed_code m x AND 1 \<noteq> 0 \<longleftrightarrow> bit (signed_code m x) 0"
      using bit_iff_and_push_bit_not_eq_0 [of "signed_code m x" 0] by simp
    also have "\<dots> \<longleftrightarrow> bit x 31" unfolding signed_code_def byte_bits sign_tag_bit by simp
    finally show ?thesis .
  qed
  have low: "bit (drop_bit 1 (signed_code m x)) n \<longleftrightarrow> n < k \<and> bit x n" if "n < 32" for n
    unfolding signed_code_def byte_bits sign_tag_bit m using that k by (cases "n < k") simp_all
  have high: "bit x n \<longleftrightarrow> bit x 31" if "k \<le> n" "n < 32" for n
    using x that unfolding sign_extends_def by blast
  have "drop_bit 1 (signed_code m x) OR m = x" if "bit x 31"
  proof (rule bit_word_eqI)
    fix n assume "n < LENGTH(32)"
    then have n: "n < 32" by simp
    show "bit (drop_bit 1 (signed_code m x) OR m) n = bit x n"
      unfolding bit_or_iff m low [OF n] using that n high [of n] by (cases "k \<le> n") auto
  qed
  moreover have "drop_bit 1 (signed_code m x) = x" if "\<not> bit x 31"
  proof (rule bit_word_eqI)
    fix n assume "n < LENGTH(32)"
    then have n: "n < 32" by simp
    show "bit (drop_bit 1 (signed_code m x)) n = bit x n"
      unfolding low [OF n] using that n high [of n] by (cases "k \<le> n") auto
  qed
  ultimately show "(if signed_code m x AND 1 \<noteq> 0 then drop_bit 1 (signed_code m x) OR m else drop_bit 1 (signed_code m x)) = x"
    by (cases "bit x 31") (simp_all only: odd if_True if_False not_False_eq_True simp_thms)
qed

lemma compress_signed_eq:
  "CorSigCompressSignedInt x =
     (if sign_extends 6 x then Some [ucast (signed_code SIGN_MASK_ONEBYTE x)]
      else if sign_extends 13 x
      then (let d = signed_code SIGN_MASK_TWOBYTE x in Some [ucast (drop_bit 8 d OR 0x80), ucast (d AND 0xff)])
      else if sign_extends 28 x
      then (let d = signed_code SIGN_MASK_FOURBYTE x
            in Some [ucast (drop_bit 24 d OR 0xC0), ucast (drop_bit 16 d AND 0xff),
                     ucast (drop_bit 8 d AND 0xff), ucast (d AND 0xff)])
      else None)"
  unfolding CorSigCompressSignedInt_def Let_def sign_bit
  by (simp add: sign_tests signed_code_def sign_tag_def cong: if_cong)


lemma no_bit_small:
  fixes x :: u32
  assumes "\<And>n. k \<le> n \<Longrightarrow> \<not> bit x n"
  shows "unat x < 2 ^ k"
proof -
  have "bit (take_bit k x) n = bit x n" for n using assms [of n] by (cases "n < k") (auto simp: bit_take_bit_iff)
  then have "take_bit k x = x" by (intro bit_word_eqI)
  then show ?thesis by (metis take_bit_nat_less_exp unsigned_take_bit_eq)
qed

text \<open>Decoding what the two- and four-byte forms of the encoder produce for a small enough code.\<close>

lemma size_of_one: "unat d < 2 ^ 7 \<Longrightarrow> CorSigUncompressData_size (ucast d # rest) = Some (1, d)"
  using one_byte_compress [of d] small_no_bit [of d 7 7]
  by (simp add: CorSigUncompressData_size_def byte_classes bit_unsigned_iff)

lemma size_of_two:
  "unat d < 2 ^ 14 \<Longrightarrow>
     CorSigUncompressData_size (ucast (drop_bit 8 d OR 0x80) # ucast (d AND 0xff) # rest) = Some (2, d)"
  using two_bytes_compress [of d] small_no_bit [of d 14 14]
  by (simp add: CorSigUncompressData_size_def byte_classes byte_bits)

lemma size_of_four:
  "unat d < 2 ^ 29 \<Longrightarrow>
     CorSigUncompressData_size (ucast (drop_bit 24 d OR 0xC0) # ucast (drop_bit 16 d AND 0xff) #
       ucast (drop_bit 8 d AND 0xff) # ucast (d AND 0xff) # rest) = Some (4, d)"
  using four_bytes_compress [of d] small_no_bit [of d 29 29]
  by (simp add: CorSigUncompressData_size_def byte_classes byte_bits)

lemma signed_code_small:
  "unat (signed_code SIGN_MASK_ONEBYTE x) < 2 ^ 7" "unat (signed_code SIGN_MASK_TWOBYTE x) < 2 ^ 14"
  "unat (signed_code SIGN_MASK_FOURBYTE x) < 2 ^ 29"
  by (rule no_bit_small, unfold signed_code_def byte_bits sign_tag_bit sign_mask_bits, force)+

lemma signed_decode:
  assumes "CorSigUncompressData_size bytes = Some (cb, signed_code m x)" "cb \<noteq> - 1"
    and "m = (if cb = 1 then SIGN_MASK_ONEBYTE else if cb = 2 then SIGN_MASK_TWOBYTE else SIGN_MASK_FOURBYTE)"
    and "(if signed_code m x AND 1 \<noteq> 0 then drop_bit 1 (signed_code m x) OR m else drop_bit 1 (signed_code m x)) = x"
  shows "CorSigUncompressSignedInt bytes = Some (cb, Some x)"
proof -
  have "CorSigUncompressSignedInt bytes = Some (cb, Some
      (if signed_code m x AND 1 \<noteq> 0 then drop_bit 1 (signed_code m x) OR m else drop_bit 1 (signed_code m x)))"
    using assms(1,2) by (simp add: CorSigUncompressSignedInt_def Let_def assms(3))
  then show ?thesis by (simp only: assms(4))
qed

lemma sign_extends_range:
  assumes "- (2 ^ 28) \<le> sint x" "sint x < 2 ^ 28"
  shows "sign_extends 28 x"
proof -
  have "bit x n = bit (sint x) n" if "n < 32" for n using that by (simp add: bit_sint_iff)
  moreover have "bit (sint x) n = (sint x < 0)" if "28 \<le> n" for n
  proof -
    have "sint x div 2 ^ n = (if sint x < 0 then - 1 else 0)"
    proof (cases "sint x < 0")
      case True
      have "(2 :: int) ^ 28 \<le> 2 ^ n" using that by (rule power_increasing) simp
      with True assms(1) have "sint x div 2 ^ n = - 1" by (intro int_div_pos_eq [of _ _ _ "sint x + 2 ^ n"]) auto
      with True show ?thesis by simp
    next
      case False
      have "(2 :: int) ^ 28 \<le> 2 ^ n" using that by (rule power_increasing) simp
      with False assms(2) show ?thesis by (simp add: div_pos_pos_trivial)
    qed
    then show ?thesis by (simp add: bit_iff_odd)
  qed
  ultimately show ?thesis by (simp add: sign_extends_def)
qed

text \<open>Signed integers survive. Every value from \<open>-2^28\<close> to \<open>2^28 - 1\<close> is compressed, negative values
  of each size included, and decoding restores it with its sign, consuming exactly what was written.\<close>

theorem compressed_signed_roundtrip:
  assumes "- (2 ^ 28) \<le> sint x" "sint x < 2 ^ 28"
  shows "\<exists>bs. CorSigCompressSignedInt x = Some bs \<and>
    CorSigUncompressSignedInt (bs @ rest) = Some (of_nat (length bs), Some x)"
proof -
  consider (1) "sign_extends 6 x" | (2) "\<not> sign_extends 6 x" "sign_extends 13 x"
    | (4) "\<not> sign_extends 6 x" "\<not> sign_extends 13 x" "sign_extends 28 x"
    using sign_extends_range [OF assms] by blast
  then show ?thesis
  proof cases
    case 1
    have "CorSigUncompressSignedInt (ucast (signed_code SIGN_MASK_ONEBYTE x) # rest) = Some (1, Some x)"
      using signed_decode [OF size_of_one [OF signed_code_small(1)]] signed_restore(1) [OF sign_mask_bits(1) _ 1] by simp
    with 1 show ?thesis by (simp add: compress_signed_eq)
  next
    case 2
    let ?d = "signed_code SIGN_MASK_TWOBYTE x"
    have "CorSigUncompressSignedInt (ucast (drop_bit 8 ?d OR 0x80) # ucast (?d AND 0xff) # rest) = Some (2, Some x)"
      using signed_decode [OF size_of_two [OF signed_code_small(2)]] signed_restore(1) [OF sign_mask_bits(2) _ 2(2)] by simp
    with 2 show ?thesis by (simp add: compress_signed_eq Let_def)
  next
    case 4
    let ?d = "signed_code SIGN_MASK_FOURBYTE x"
    have "CorSigUncompressSignedInt (ucast (drop_bit 24 ?d OR 0xC0) # ucast (drop_bit 16 ?d AND 0xff) #
        ucast (drop_bit 8 ?d AND 0xff) # ucast (?d AND 0xff) # rest) = Some (4, Some x)"
      using signed_decode [OF size_of_four [OF signed_code_small(3)]] signed_restore(1) [OF sign_mask_bits(3) _ 4(3)] by simp
    with 4 show ?thesis by (simp add: compress_signed_eq Let_def)
  qed
qed

theorem compressed_signed_roundtrip_witness:
  "CorSigUncompressSignedInt (the (CorSigCompressSignedInt (- 8192)) @ [9]) = Some (2, Some (- 8192))"
proof -
  have r: "- (2 ^ 28) \<le> sint (- 8192 :: u32)" "sint (- 8192 :: u32) < 2 ^ 28" by simp_all
  obtain bs where bs: "CorSigCompressSignedInt (- 8192) = Some bs"
    "CorSigUncompressSignedInt (bs @ [9]) = Some (of_nat (length bs), Some (- 8192))"
    using compressed_signed_roundtrip [OF r, of "[9]"] by blast
  have "CorSigCompressSignedInt (- 8192) = Some [0x80, 1]"
    by (simp add: CorSigCompressSignedInt_def SIGN_MASK_ONEBYTE_def SIGN_MASK_TWOBYTE_def Let_def)
  then have "bs = [0x80, 1]" using bs(1) by simp
  with bs show ?thesis by simp
qed

end
