(* ===== verification/Mini_Utf.thy ===== *)
theory Mini_Utf
  imports Cor_Sig
begin

text \<open>
  The text conversions of the profiler: \<open>miniutf.cpp\<close> and the conversions of \<open>string_utils.cpp\<close> in the
  non-Windows build. Strings are lists of code units; reading one past the end of a \<open>std::string\<close> yields
  its terminating zero. The theorems: the conversions always end, both encodings decode to what was
  encoded, and text converted to UTF-16 and back is unchanged.
\<close>

section \<open>Encoding\<close>

definition utf8_encode :: "u32 \<Rightarrow> byte list" where
  "utf8_encode pt =
     (if pt < 0x80 then [ucast pt]
      else if pt < 0x800 then [ucast (drop_bit 6 pt OR 0xC0), ucast (pt AND 0x3F OR 0x80)]
      else if pt < 0x10000
      then [ucast (drop_bit 12 pt OR 0xE0), ucast (drop_bit 6 pt AND 0x3F OR 0x80), ucast (pt AND 0x3F OR 0x80)]
      else if pt < 0x110000
      then [ucast (drop_bit 18 pt OR 0xF0), ucast (drop_bit 12 pt AND 0x3F OR 0x80),
            ucast (drop_bit 6 pt AND 0x3F OR 0x80), ucast (pt AND 0x3F OR 0x80)]
      else [0xEF, 0xBF, 0xBD])"

definition utf16_encode :: "u32 \<Rightarrow> wstring" where
  "utf16_encode pt =
     (if pt < 0x10000 then [ucast pt]
      else if pt < 0x110000 then [ucast (drop_bit 10 (pt - 0x10000) + 0xD800), ucast ((pt AND 0x3FF) + 0xDC00)]
      else [0xFFFD])"

section \<open>Decoding\<close>

definition unit_at :: "('a::zero) list \<Rightarrow> nat \<Rightarrow> 'a" where
  "unit_at s i = (if i < length s then s ! i else 0)"

definition is_continuation :: "u32 \<Rightarrow> bool" where
  "is_continuation b \<longleftrightarrow> b AND 0xC0 = 0x80"

text \<open>The number of units consumed and the code point; \<open>None\<close> is \<open>invalid_pt\<close>.\<close>

definition utf8_decode_check :: "byte list \<Rightarrow> nat \<Rightarrow> (nat \<times> u32) option" where
  "utf8_decode_check str i =
     (let b0 = ucast (unit_at str i); b1 = ucast (unit_at str (i + 1));
          b2 = ucast (unit_at str (i + 2)); b3 = ucast (unit_at str (i + 3)) :: u32
      in if b0 < 0x80 then Some (1, b0)
         else if b0 < 0xC0 then None
         else if b0 < 0xE0
         then (if \<not> is_continuation b1 then None
               else let pt = push_bit 6 (b0 AND 0x1F) OR (b1 AND 0x3F)
                    in if pt < 0x80 then None else Some (2, pt))
         else if b0 < 0xF0
         then (if \<not> is_continuation b1 then None
               else if \<not> is_continuation b2 then None
               else let pt = push_bit 12 (b0 AND 0x0F) OR push_bit 6 (b1 AND 0x3F) OR (b2 AND 0x3F)
                    in if pt < 0x800 then None else Some (3, pt))
         else if b0 < 0xF8
         then (if \<not> is_continuation b1 then None
               else if \<not> is_continuation b2 then None
               else if \<not> is_continuation b3 then None
               else let pt = push_bit 18 (b0 AND 0x0F) OR push_bit 12 (b1 AND 0x3F) OR
                             push_bit 6 (b2 AND 0x3F) OR (b3 AND 0x3F)
                    in if pt < 0x10000 \<or> pt \<ge> 0x110000 then None else Some (4, pt))
         else None)"

definition is_high_surrogate :: "16 word \<Rightarrow> bool" where
  "is_high_surrogate c \<longleftrightarrow> c \<ge> 0xD800 \<and> c < 0xDC00"

definition is_low_surrogate :: "16 word \<Rightarrow> bool" where
  "is_low_surrogate c \<longleftrightarrow> c \<ge> 0xDC00 \<and> c < 0xE000"

definition utf16_decode_check :: "wstring \<Rightarrow> nat \<Rightarrow> (nat \<times> u32) option" where
  "utf16_decode_check str i =
     (let c = unit_at str i; d = unit_at str (i + 1)
      in if is_high_surrogate c \<and> is_low_surrogate d
         then Some (2, (push_bit 10 (ucast c - 0xD800) OR (ucast d - 0xDC00)) + 0x10000)
         else if is_high_surrogate c \<or> is_low_surrogate c then None
         else Some (1, ucast c))"

definition utf32_decode_check :: "u32 list \<Rightarrow> nat \<Rightarrow> (nat \<times> u32) option" where
  "utf32_decode_check str i = (if unit_at str i < 0x110000 then Some (1, unit_at str i) else None)"

text \<open>The replacing decoders: the code point and the next index.\<close>

definition utf8_decode :: "byte list \<Rightarrow> nat \<Rightarrow> u32 \<times> nat" where
  "utf8_decode str i = (case utf8_decode_check str i of None \<Rightarrow> (0xFFFD, i + 1) | Some (n, pt) \<Rightarrow> (pt, i + n))"

definition utf16_decode :: "wstring \<Rightarrow> nat \<Rightarrow> u32 \<times> nat" where
  "utf16_decode str i = (case utf16_decode_check str i of None \<Rightarrow> (0xFFFD, i + 1) | Some (n, pt) \<Rightarrow> (pt, i + n))"

lemma utf8_decode_advances: "i < snd (utf8_decode str i)"
  by (auto simp: utf8_decode_def utf8_decode_check_def Let_def split: option.split)

lemma utf16_decode_advances: "i < snd (utf16_decode str i)"
  by (auto simp: utf16_decode_def utf16_decode_check_def Let_def split: option.split)

section \<open>Conversions\<close>

function utf8_points :: "byte list \<Rightarrow> nat \<Rightarrow> u32 list" where
  "utf8_points str i = (if i < length str then let (pt, j) = utf8_decode str i in pt # utf8_points str j else [])"
  by pat_completeness auto
termination
proof (relation "measure (\<lambda>(s, i). length s - i)", goal_cases)
  case (2 str i x pt j)
  then have "i < j" using utf8_decode_advances [of i str] by (metis snd_conv)
  with 2 show ?case by simp
qed simp

function utf16_points :: "wstring \<Rightarrow> nat \<Rightarrow> u32 list" where
  "utf16_points str i = (if i < length str then let (pt, j) = utf16_decode str i in pt # utf16_points str j else [])"
  by pat_completeness auto
termination
proof (relation "measure (\<lambda>(s, i). length s - i)", goal_cases)
  case (2 str i x pt j)
  then have "i < j" using utf16_decode_advances [of i str] by (metis snd_conv)
  with 2 show ?case by simp
qed simp

declare utf8_points.simps [simp del] utf16_points.simps [simp del]

definition to_utf32 :: "byte list \<Rightarrow> u32 list" where
  "to_utf32 str = utf8_points str 0"

definition to_utf16 :: "byte list \<Rightarrow> wstring" where
  "to_utf16 str = concat (map utf16_encode (utf8_points str 0))"

definition to_utf8 :: "wstring \<Rightarrow> byte list" where
  "to_utf8 str = concat (map utf8_encode (utf16_points str 0))"

definition to_utf8_from32 :: "u32 list \<Rightarrow> byte list" where
  "to_utf8_from32 str = concat (map utf8_encode str)"

text \<open>The conversions of the profiler; the result of the first passes through a C string.\<close>

definition char_byte :: "char \<Rightarrow> byte" where
  "char_byte c = of_nat (of_char c)"

definition byte_char :: "byte \<Rightarrow> char" where
  "byte_char b = char_of (unat b)"

definition ToWSTRING :: "string \<Rightarrow> wstring" where
  "ToWSTRING str = takeWhile (\<lambda>c. c \<noteq> 0) (to_utf16 (map char_byte str))"

definition ToString :: "wstring \<Rightarrow> string" where
  "ToString wstr = map byte_char (to_utf8 wstr)"

text \<open>A string literal of 16-bit code units.\<close>

definition WStr :: "string \<Rightarrow> wstring" where
  "WStr s = map (\<lambda>c. of_nat (of_char c)) s"

section \<open>One code point\<close>

definition scalar :: "u32 \<Rightarrow> bool" where
  "scalar pt \<longleftrightarrow> pt < 0x110000 \<and> \<not> (0xD800 \<le> pt \<and> pt < 0xE000)"

text \<open>The ranges of a leading byte, read from its bits.\<close>

lemma leading_byte:
  fixes b :: byte
  shows "(ucast b :: u32) < 0x80 \<longleftrightarrow> \<not> bit b 7"
    and "(ucast b :: u32) < 0xC0 \<longleftrightarrow> \<not> (bit b 7 \<and> bit b 6)"
    and "(ucast b :: u32) < 0xE0 \<longleftrightarrow> \<not> (bit b 7 \<and> bit b 6 \<and> bit b 5)"
    and "(ucast b :: u32) < 0xF0 \<longleftrightarrow> \<not> (bit b 7 \<and> bit b 6 \<and> bit b 5 \<and> bit b 4)"
    and "(ucast b :: u32) < 0xF8 \<longleftrightarrow> \<not> (bit b 7 \<and> bit b 6 \<and> bit b 5 \<and> bit b 4 \<and> bit b 3)"
proof -
  have u: "unat (ucast b :: u32) = unat b"
    using unsigned_less [of b, where 'a = nat] by (simp add: unsigned_ucast_eq take_bit_nat_eq_self)
  have drop: "unat b < k * 2 ^ n \<longleftrightarrow> unat (drop_bit n b) < k" for k n
    unfolding unat_drop_bit_eq unfolding drop_bit_eq_div by (simp add: div_less_iff_less_mult)
  have top: "unat (drop_bit n b) < 2 ^ (8 - n)" if "n \<le> 8" for n
    using drop [of "2 ^ (8 - n)" n] that unsigned_less [of b, where 'a = nat] by (simp add: power_add [symmetric])
  have eq: "unat (drop_bit n b) < k \<longleftrightarrow> drop_bit n b \<noteq> of_nat k" if "n \<le> 8" "k + 1 = 2 ^ (8 - n)" "k < 256" for n k
    using top [OF that(1)] that by (auto simp: word_eq_unat_iff unat_of_nat)
  have beyond: "\<not> bit b n" if "8 \<le> n" for n using that by (auto dest!: bit_imp_possible_bit)
  show "(ucast b :: u32) < 0x80 \<longleftrightarrow> \<not> bit b 7"
    using drop [of 1 7] eq [of 7 1] by (simp add: word_less_nat_alt u u8_bits byte_bits beyond)
  show "(ucast b :: u32) < 0xC0 \<longleftrightarrow> \<not> (bit b 7 \<and> bit b 6)"
    using drop [of 3 6] eq [of 6 3] by (simp add: word_less_nat_alt u u8_bits byte_bits beyond) blast
  show "(ucast b :: u32) < 0xE0 \<longleftrightarrow> \<not> (bit b 7 \<and> bit b 6 \<and> bit b 5)"
    using drop [of 7 5] eq [of 5 7] by (simp add: word_less_nat_alt u u8_bits byte_bits beyond) blast
  show "(ucast b :: u32) < 0xF0 \<longleftrightarrow> \<not> (bit b 7 \<and> bit b 6 \<and> bit b 5 \<and> bit b 4)"
    using drop [of 15 4] eq [of 4 15] by (simp add: word_less_nat_alt u u8_bits byte_bits beyond) blast
  show "(ucast b :: u32) < 0xF8 \<longleftrightarrow> \<not> (bit b 7 \<and> bit b 6 \<and> bit b 5 \<and> bit b 4 \<and> bit b 3)"
    using drop [of 31 3] eq [of 3 31] by (simp add: word_less_nat_alt u u8_bits byte_bits beyond) blast
qed

lemma continuation_byte: "is_continuation (ucast (b :: byte)) \<longleftrightarrow> bit b 7 \<and> \<not> bit b 6"
  by (auto simp: is_continuation_def u32_bits byte_bits)


text \<open>Reading the units of one encoded code point in the middle of a string.\<close>

lemma unit_at_append: "unit_at (p @ xs) (length p + k) = unit_at xs k"
  by (simp add: unit_at_def nth_append)

lemma unit_at_Cons [simp]: "unit_at (x # xs) 0 = x" "unit_at (x # xs) (Suc k) = unit_at xs k"
  by (simp_all add: unit_at_def)

lemma unit_at_numeral [simp]: "unit_at (x # xs) (numeral k) = unit_at xs (pred_numeral k)"
  by (simp add: numeral_eq_Suc)

lemmas unit_at_suffix = unit_at_append unit_at_append [where k = 0, unfolded add_0_right] add_0

lemma decode8_at: "utf8_decode_check (p @ xs) (length p) = utf8_decode_check xs 0"
  by (simp only: utf8_decode_check_def unit_at_suffix)

lemma decode16_at: "utf16_decode_check (p @ xs) (length p) = utf16_decode_check xs 0"
  by (simp only: utf16_decode_check_def unit_at_suffix)

lemma decode_encode8_1:
  assumes "unat pt < 2 ^ 7" shows "utf8_decode_check (ucast pt # rest) 0 = Some (1, pt)"
proof -
  have "pt < 0x80" using assms by (simp add: word_less_nat_alt)
  with one_byte_compress [OF assms] show ?thesis by (simp add: utf8_decode_check_def Let_def)
qed

lemma decode_encode8_2:
  assumes "unat pt < 2 ^ 11" "\<not> pt < 0x80"
  shows "utf8_decode_check (ucast (drop_bit 6 pt OR 0xC0) # ucast (pt AND 0x3F OR 0x80) # rest) 0 = Some (2, pt)"
proof -
  have hi: "\<not> bit pt n" if "11 \<le> n" for n using small_no_bit [OF assms(1) that] .
  have "push_bit 6 (ucast (ucast (drop_bit 6 pt OR 0xC0) :: byte) AND 0x1F) OR
      (ucast (ucast (pt AND 0x3F OR 0x80) :: byte) AND 0x3F) = pt"
    using hi by (simp add: u32_bits byte_bits)
  with assms(2) hi show ?thesis
    unfolding utf8_decode_check_def Let_def leading_byte
    by (simp add: continuation_byte byte_bits)
qed

lemma decode_encode8_3:
  assumes "unat pt < 2 ^ 16" "\<not> pt < 0x800"
  shows "utf8_decode_check (ucast (drop_bit 12 pt OR 0xE0) # ucast (drop_bit 6 pt AND 0x3F OR 0x80) #
    ucast (pt AND 0x3F OR 0x80) # rest) 0 = Some (3, pt)"
proof -
  have hi: "\<not> bit pt n" if "16 \<le> n" for n using small_no_bit [OF assms(1) that] .
  have "push_bit 12 (ucast (ucast (drop_bit 12 pt OR 0xE0) :: byte) AND 0x0F) OR
      push_bit 6 (ucast (ucast (drop_bit 6 pt AND 0x3F OR 0x80) :: byte) AND 0x3F) OR
      (ucast (ucast (pt AND 0x3F OR 0x80) :: byte) AND 0x3F) = pt"
    using hi by (simp add: u32_bits byte_bits)
  with assms(2) hi show ?thesis
    unfolding utf8_decode_check_def Let_def leading_byte
    by (simp add: continuation_byte byte_bits)
qed

lemma decode_encode8_4:
  assumes "pt < 0x110000" "\<not> pt < 0x10000"
  shows "utf8_decode_check (ucast (drop_bit 18 pt OR 0xF0) # ucast (drop_bit 12 pt AND 0x3F OR 0x80) #
    ucast (drop_bit 6 pt AND 0x3F OR 0x80) # ucast (pt AND 0x3F OR 0x80) # rest) 0 = Some (4, pt)"
proof -
  have "unat pt < 2 ^ 21" using assms(1) by (simp add: word_less_nat_alt)
  then have hi: "\<not> bit pt n" if "21 \<le> n" for n using that by (rule small_no_bit)
  have "push_bit 18 (ucast (ucast (drop_bit 18 pt OR 0xF0) :: byte) AND 0x0F) OR
      push_bit 12 (ucast (ucast (drop_bit 12 pt AND 0x3F OR 0x80) :: byte) AND 0x3F) OR
      push_bit 6 (ucast (ucast (drop_bit 6 pt AND 0x3F OR 0x80) :: byte) AND 0x3F) OR
      (ucast (ucast (pt AND 0x3F OR 0x80) :: byte) AND 0x3F) = pt"
    using hi by (simp add: u32_bits byte_bits)
  with assms hi show ?thesis
    unfolding utf8_decode_check_def Let_def leading_byte
    by (simp add: continuation_byte byte_bits not_le)
qed

lemma decode_encode8:
  assumes "pt < 0x110000"
  shows "utf8_decode_check (utf8_encode pt @ rest) 0 = Some (length (utf8_encode pt), pt)"
  using assms decode_encode8_1 [of pt rest] decode_encode8_2 [of pt rest] decode_encode8_3 [of pt rest]
    decode_encode8_4 [of pt rest]
  by (simp add: utf8_encode_def word_less_nat_alt)


lemma ucast16_small: "unat (y :: u32) < 2 ^ 16 \<Longrightarrow> ucast (ucast y :: 16 word) = y"
  and unat_ucast16: "unat (y :: u32) < 2 ^ 16 \<Longrightarrow> unat (ucast y :: 16 word) = unat y"
  by (simp_all add: word_eq_unat_iff unsigned_ucast_eq unsigned_take_bit_eq take_bit_nat_eq_self)

lemma decode_encode16_pair:
  assumes "pt < 0x110000" "\<not> pt < 0x10000"
  shows "utf16_decode_check (ucast (drop_bit 10 (pt - 0x10000) + 0xD800) # ucast ((pt AND 0x3FF) + 0xDC00) # rest) 0 =
    Some (2, pt)"
proof -
  let ?x = "pt - 0x10000"
  let ?h = "drop_bit 10 ?x" and ?l = "pt AND 0x3FF"
  have x: "unat ?x = unat pt - 0x10000" using assms(2) by (simp add: unat_sub word_less_nat_alt word_le_nat_alt)
  have h: "unat ?h < 1024"
    unfolding unat_drop_bit_eq unfolding drop_bit_eq_div using assms(1) x by (simp add: word_less_nat_alt div_less_iff_less_mult)
  have low: "?l = take_bit 10 pt" by (simp add: u32_bits byte_bits bit_take_bit_iff)
  have l: "unat ?l < 1024" unfolding low unsigned_take_bit_eq using take_bit_nat_less_exp [of 10 "unat pt"] by simp
  have hs: "unat (?h + 0xD800) = unat ?h + 0xD800" using h by (simp add: unat_word_ariths)
  have ls: "unat (?l + 0xDC00) = unat ?l + 0xDC00" using l by (simp add: unat_word_ariths)
  have units: "unat (ucast (?h + 0xD800) :: 16 word) = unat ?h + 0xD800" "unat (ucast (?l + 0xDC00) :: 16 word) = unat ?l + 0xDC00"
    using hs ls h l by (simp_all add: unat_ucast16)
  have restored: "ucast (ucast (?h + 0xD800) :: 16 word) = ?h + 0xD800" "ucast (ucast (?l + 0xDC00) :: 16 word) = ?l + 0xDC00"
    using hs ls h l by (simp_all add: ucast16_small)
  have "unat pt = unat ?x + 64 * 1024" using x assms(2) by (simp add: word_less_nat_alt)
  then have "unat pt mod 1024 = unat ?x mod 1024" using mod_mult_self1 [of "unat ?x" 64 1024] by (simp only:)
  moreover have "(1024 :: nat) = 2 ^ 10" by simp
  ultimately have "unat pt mod 2 ^ 10 = unat ?x mod 2 ^ 10" by (simp only:)
  then have "?l = take_bit 10 ?x"
    unfolding low word_eq_unat_iff unsigned_take_bit_eq by (simp only: take_bit_eq_mod)
  then have join: "push_bit 10 ?h OR ?l = ?x"
    by (simp add: bit_eq_iff bit_or_iff bit_push_bit_iff bit_drop_bit_eq bit_take_bit_iff) auto
  have "is_high_surrogate (ucast (?h + 0xD800))" "is_low_surrogate (ucast (?l + 0xDC00))"
    unfolding is_high_surrogate_def is_low_surrogate_def word_less_nat_alt word_le_nat_alt units using h l by simp_all
  then show ?thesis
    unfolding utf16_decode_check_def Let_def by (simp add: restored join)
qed

lemma decode_encode16:
  assumes "scalar pt"
  shows "utf16_decode_check (utf16_encode pt @ rest) 0 = Some (length (utf16_encode pt), pt)"
proof (cases "pt < 0x10000")
  case True
  then have u: "unat pt < 2 ^ 16" by (simp add: word_less_nat_alt)
  have "\<not> is_high_surrogate (ucast pt)" "\<not> is_low_surrogate (ucast pt)"
    using assms unat_ucast16 [OF u]
    by (auto simp: scalar_def is_high_surrogate_def is_low_surrogate_def word_less_nat_alt word_le_nat_alt)
  with True ucast16_small [OF u] show ?thesis by (simp add: utf16_encode_def utf16_decode_check_def Let_def)
next
  case False
  with assms decode_encode16_pair [of pt rest] show ?thesis by (simp add: utf16_encode_def scalar_def)
qed

section \<open>Whole strings\<close>

lemma encode8_nonempty: "utf8_encode pt \<noteq> []" and encode16_nonempty: "utf16_encode pt \<noteq> []"
  by (simp_all add: utf8_encode_def utf16_encode_def)

lemma utf8_points_encode:
  assumes "\<forall>pt \<in> set pts. pt < 0x110000"
  shows "utf8_points (p @ concat (map utf8_encode pts)) (length p) = pts"
  using assms
proof (induction pts arbitrary: p)
  case Nil
  then show ?case by (simp add: utf8_points.simps)
next
  case (Cons pt pts)
  let ?rest = "concat (map utf8_encode pts)"
  have "utf8_decode (p @ utf8_encode pt @ ?rest) (length p) = (pt, length (p @ utf8_encode pt))"
    using decode8_at [of p "utf8_encode pt @ ?rest"] decode_encode8 [of pt ?rest] Cons.prems by (simp add: utf8_decode_def)
  with Cons.IH [of "p @ utf8_encode pt"] Cons.prems encode8_nonempty [of pt] show ?case
    by (subst utf8_points.simps) simp
qed

lemma utf16_points_encode:
  assumes "\<forall>pt \<in> set pts. scalar pt"
  shows "utf16_points (p @ concat (map utf16_encode pts)) (length p) = pts"
  using assms
proof (induction pts arbitrary: p)
  case Nil
  then show ?case by (simp add: utf16_points.simps)
next
  case (Cons pt pts)
  let ?rest = "concat (map utf16_encode pts)"
  have "utf16_decode (p @ utf16_encode pt @ ?rest) (length p) = (pt, length (p @ utf16_encode pt))"
    using decode16_at [of p "utf16_encode pt @ ?rest"] decode_encode16 [of pt ?rest] Cons.prems by (simp add: utf16_decode_def)
  with Cons.IH [of "p @ utf16_encode pt"] Cons.prems encode16_nonempty [of pt] show ?case
    by (subst utf16_points.simps) simp
qed

section \<open>ASCII text\<close>

definition ascii_text :: "string \<Rightarrow> bool" where
  "ascii_text s \<longleftrightarrow> list_all (\<lambda>c. (of_char c :: nat) < 128 \<and> c \<noteq> CHR 0x00) s"

lemma of_char_nonzero: "c \<noteq> CHR 0x00 \<Longrightarrow> (of_char c :: nat) \<noteq> 0"
proof
  assume c: "c \<noteq> CHR 0x00" "of_char c = (0 :: nat)"
  have "of_char (CHR 0x00) = (0 :: nat)" by simp
  with c show False by (metis of_char_eq_iff)
qed

lemma ascii_char:
  assumes "(of_char c :: nat) < 128" and "c \<noteq> CHR 0x00"
  shows "unat (of_nat (of_char c) :: u32) = of_char c" and "(of_nat (of_char c) :: u32) < 0x80"
    and "(of_nat (of_char c) :: 16 word) \<noteq> 0" and "unat (char_byte c) = of_char c"
proof -
  show a: "unat (of_nat (of_char c) :: u32) = of_char c" using assms(1) by (simp add: unat_of_nat)
  then show "(of_nat (of_char c) :: u32) < 0x80" using assms(1) by (simp add: word_less_nat_alt)
  have "unat (of_nat (of_char c) :: 16 word) = of_char c" using assms(1) by (simp add: unat_of_nat)
  moreover have "(of_char c :: nat) \<noteq> 0" using assms(2) by (rule of_char_nonzero)
  ultimately show "(of_nat (of_char c) :: 16 word) \<noteq> 0" by (metis unat_0)
  show "unat (char_byte c) = of_char c" using assms(1) by (simp add: char_byte_def unat_of_nat)
qed

lemma small_point:
  fixes pt :: u32
  assumes "pt < 0x80"
  shows "pt < 0x110000" and "pt < 0x10000" and "scalar pt" and "utf8_encode pt = [ucast pt]" and "utf16_encode pt = [ucast pt]"
proof -
  have n: "unat pt < 128" using assms by (simp add: word_less_nat_alt)
  then show "pt < 0x110000" "pt < 0x10000" "scalar pt" by (simp_all add: scalar_def word_less_nat_alt word_le_nat_alt)
  then show "utf8_encode pt = [ucast pt]" "utf16_encode pt = [ucast pt]"
    using assms by (simp_all add: utf8_encode_def utf16_encode_def)
qed

lemma ucast_small: "n < 128 \<Longrightarrow> (ucast (of_nat n :: u32) :: byte) = of_nat n"
  "n < 128 \<Longrightarrow> (ucast (of_nat n :: u32) :: 16 word) = of_nat n"
  by (simp_all add: word_unat_eq_iff unsigned_ucast_eq unsigned_take_bit_eq unat_of_nat take_bit_eq_mod)

lemma ascii_points:
  assumes "ascii_text s"
  defines "pts \<equiv> map (\<lambda>c. of_nat (of_char c) :: u32) s"
  shows "\<forall>pt \<in> set pts. pt < 0x110000" and "\<forall>pt \<in> set pts. scalar pt"
    and "concat (map utf8_encode pts) = map char_byte s"
    and "concat (map utf16_encode pts) = map (\<lambda>c. of_nat (of_char c)) s"
proof -
  have c: "(of_char c :: nat) < 128" "c \<noteq> CHR 0x00" if "c \<in> set s" for c
    using assms(1) that by (auto simp: ascii_text_def list_all_iff)
  note point = small_point [OF ascii_char(2) [OF c]]
  show "\<forall>pt \<in> set pts. pt < 0x110000" "\<forall>pt \<in> set pts. scalar pt"
    using point(1,3) by (simp_all add: pts_def)
  have "map utf8_encode pts = map (\<lambda>c. [char_byte c]) s" "map utf16_encode pts = map (\<lambda>c. [of_nat (of_char c)]) s"
    using point(4,5) c by (simp_all add: pts_def char_byte_def ucast_small)
  then show "concat (map utf8_encode pts) = map char_byte s" "concat (map utf16_encode pts) = map (\<lambda>c. of_nat (of_char c)) s"
    by simp_all
qed

lemma ToWSTRING_ascii:
  assumes "ascii_text s"
  shows "ToWSTRING s = WStr s"
proof -
  define pts :: "u32 list" where "pts = map (\<lambda>c. of_nat (of_char c)) s"
  note points = ascii_points [OF assms, folded pts_def]
  have c: "(of_char c :: nat) < 128" "c \<noteq> CHR 0x00" if "c \<in> set s" for c
    using assms(1) that by (auto simp: ascii_text_def list_all_iff)
  have "to_utf16 (map char_byte s) = concat (map utf16_encode pts)"
    using utf8_points_encode [OF points(1), of "[]"] by (simp add: to_utf16_def points(3) [symmetric])
  moreover have "takeWhile (\<lambda>c. c \<noteq> 0) (concat (map utf16_encode pts)) = concat (map utf16_encode pts)"
    using ascii_char(3) [OF c] unfolding points(4) by (simp add: takeWhile_eq_all_conv)
  ultimately show ?thesis unfolding points(4) by (simp add: ToWSTRING_def WStr_def)
qed

lemma ToString_ToWSTRING:
  assumes "ascii_text s"
  shows "ToString (ToWSTRING s) = s"
proof -
  define pts :: "u32 list" where "pts = map (\<lambda>c. of_nat (of_char c)) s"
  note points = ascii_points [OF assms, folded pts_def]
  have c: "(of_char c :: nat) < 128" "c \<noteq> CHR 0x00" if "c \<in> set s" for c
    using assms(1) that by (auto simp: ascii_text_def list_all_iff)
  have "ToWSTRING s = concat (map utf16_encode pts)" using ToWSTRING_ascii [OF assms] points(4) by (simp add: WStr_def)
  then have "ToString (ToWSTRING s) = map byte_char (map char_byte s)"
    using utf16_points_encode [OF points(2), of "[]"] points(3) by (simp add: ToString_def to_utf8_def)
  also have "\<dots> = s" using ascii_char(4) [OF c] by (simp add: byte_char_def map_idI)
  finally show ?thesis .
qed

section \<open>Round trip\<close>

text \<open>C40: text survives the conversions. For the UTF-8 encoding of any sequence of Unicode scalar values,
  decoding gives back the code points, conversion to UTF-16 gives their UTF-16 encoding, and converting
  that back gives the original bytes.\<close>

theorem utf_conversions_roundtrip:
  assumes "\<forall>pt \<in> set pts. scalar pt"
  shows "let s = to_utf8_from32 pts in
    to_utf32 s = pts \<and> to_utf16 s = concat (map utf16_encode pts) \<and> to_utf8 (to_utf16 s) = s"
proof -
  have "\<forall>pt \<in> set pts. pt < 0x110000" using assms by (simp add: scalar_def)
  from utf8_points_encode [OF this, of "[]"] utf16_points_encode [OF assms, of "[]"] show ?thesis
    by (simp add: Let_def to_utf8_from32_def to_utf32_def to_utf16_def to_utf8_def)
qed

theorem utf_conversions_roundtrip_witness:
  "to_utf8_from32 [0x41, 0xE9, 0x20AC, 0x1F600] = [0x41, 0xC3, 0xA9, 0xE2, 0x82, 0xAC, 0xF0, 0x9F, 0x98, 0x80] \<and>
   to_utf8 (to_utf16 (to_utf8_from32 [0x41, 0xE9, 0x20AC, 0x1F600])) = to_utf8_from32 [0x41, 0xE9, 0x20AC, 0x1F600]"
proof -
  have "\<forall>pt \<in> set [0x41, 0xE9, 0x20AC, 0x1F600]. scalar pt" by (simp add: scalar_def)
  note roundtrip = utf_conversions_roundtrip [OF this, unfolded Let_def]
  have "to_utf8_from32 [0x41, 0xE9, 0x20AC, 0x1F600] = [0x41, 0xC3, 0xA9, 0xE2, 0x82, 0xAC, 0xF0, 0x9F, 0x98, 0x80]"
    by (simp add: to_utf8_from32_def utf8_encode_def)
  with roundtrip show ?thesis by blast
qed

end
