(* ===== verification/Type_Name_Rewriter.thy ===== *)
theory Type_Name_Rewriter
  imports Type_Name_Parser Mini_Utf "HOL-Library.Product_Lexorder"
begin

text \<open>
  Assembly redirection in type names: \<open>type_name_assembly_redirection_rewriter.cpp\<close> with the version type of
  \<open>clr_helpers.h\<close> and the version text of \<open>util.cpp\<close>. Mapped qualifications with a missing or lower version
  are raised to the configured version. The theorems: rewriting is exactly the in-order splice of the new
  versions into the name, and on a plain name it raises the version, never lowers it, and is idempotent.
\<close>

section \<open>Versions\<close>

record assembly_version =
  usMajorVersion :: u16
  usMinorVersion :: u16
  usBuildNumber :: u16
  usRevisionNumber :: u16

record redirection = assembly_version +
  ulRedirectionCount :: u32

definition AssemblyVersionRedirection :: "u16 \<Rightarrow> u16 \<Rightarrow> u16 \<Rightarrow> u16 \<Rightarrow> redirection" where
  "AssemblyVersionRedirection major minor build revision =
     \<lparr>usMajorVersion = major, usMinorVersion = minor, usBuildNumber = build, usRevisionNumber = revision,
      ulRedirectionCount = 0\<rparr>"

definition CompareToAssemblyVersion :: "'a assembly_version_scheme \<Rightarrow> assembly_version \<Rightarrow> int" where
  "CompareToAssemblyVersion v assembly =
     (if usMajorVersion v \<noteq> usMajorVersion assembly
      then (if usMajorVersion v > usMajorVersion assembly then 1 else - 1)
      else if usMinorVersion v \<noteq> usMinorVersion assembly
      then (if usMinorVersion v > usMinorVersion assembly then 1 else - 1)
      else if usBuildNumber v \<noteq> usBuildNumber assembly
      then (if usBuildNumber v > usBuildNumber assembly then 1 else - 1)
      else if usRevisionNumber v \<noteq> usRevisionNumber assembly
      then (if usRevisionNumber v > usRevisionNumber assembly then 1 else - 1)
      else 0)"

definition version_text :: "'a assembly_version_scheme \<Rightarrow> string" where
  "version_text v = decimal (unat (usMajorVersion v)) @ ''.'' @ decimal (unat (usMinorVersion v)) @ ''.'' @
     decimal (unat (usBuildNumber v)) @ ''.'' @ decimal (unat (usRevisionNumber v))"

definition VersionStr :: "'a assembly_version_scheme \<Rightarrow> wstring" where
  "VersionStr v = ToWSTRING (version_text v)"

definition unspecified_version_component :: nat where "unspecified_version_component = 65535"

definition is_digit :: "char \<Rightarrow> bool" where
  "is_digit c \<longleftrightarrow> 48 \<le> (of_char c :: nat) \<and> (of_char c :: nat) \<le> 57"

definition digits_value :: "string \<Rightarrow> nat" where
  "digits_value s = foldl (\<lambda>n c. n * 10 + (of_char c - 48)) 0 s"

text \<open>
  One component: all of it must be a decimal number that \<open>std::from_chars\<close> reads into an unsigned int
  and that does not exceed 65535.
\<close>

definition parse_component :: "string \<Rightarrow> nat option" where
  "parse_component s =
     (if s = [] \<or> \<not> list_all is_digit s \<or> digits_value s > unspecified_version_component then None
      else Some (digits_value s))"

text \<open>
  The component loop from \<open>index\<close> on; \<open>unspecified\<close> is set from the first component 65535. The result is the
  list of normalised components, \<open>None\<close> when a component is bad or a fifth one follows.
\<close>

fun parse_components :: "nat \<Rightarrow> nat \<Rightarrow> bool \<Rightarrow> string \<Rightarrow> nat list option" where
  "parse_components 0 index unspecified s = None"
| "parse_components (Suc fuel) index unspecified s =
     (let comp = takeWhile (\<lambda>c. c \<noteq> CHR ''.'') s; rest = dropWhile (\<lambda>c. c \<noteq> CHR ''.'') s
      in case parse_component comp of
           None \<Rightarrow> None
         | Some component \<Rightarrow>
             if component = unspecified_version_component \<and> index < 2 then None
             else let u = (unspecified \<or> component = unspecified_version_component);
                      parsed = (if u then 0 else component)
                  in case rest of
                       [] \<Rightarrow> Some [parsed]
                     | _ # rest' \<Rightarrow> map_option ((#) parsed) (parse_components fuel (index + 1) u rest'))"

definition TryParseVersion :: "string \<Rightarrow> assembly_version option" where
  "TryParseVersion value =
     (case parse_components 4 0 False value of
        None \<Rightarrow> None
      | Some parsed \<Rightarrow>
          if length parsed < 2 then None
          else let part = (\<lambda>i. of_nat (if i < length parsed then parsed ! i else 0))
               in Some \<lparr>usMajorVersion = part 0, usMinorVersion = part 1, usBuildNumber = part 2, usRevisionNumber = part 3\<rparr>)"

section \<open>Rewriting\<close>

text \<open>The redirection map in its iteration order.\<close>

type_synonym redirects = "(wstring \<times> redirection) list"

definition wToAsciiLower :: "16 word \<Rightarrow> 16 word" where
  "wToAsciiLower c = (if c \<ge> 65 \<and> c \<le> 90 then c - 65 + 97 else c)"

definition wEqualsIgnoreAsciiCase :: "wstring \<Rightarrow> wstring \<Rightarrow> bool" where
  "wEqualsIgnoreAsciiCase left right \<longleftrightarrow>
     length left = length right \<and> list_all2 (\<lambda>l r. wToAsciiLower l = wToAsciiLower r) left right"

definition find_redirect :: "redirects \<Rightarrow> wstring \<Rightarrow> (wstring \<times> redirection) option" where
  "find_redirect rs name =
     (case find (\<lambda>entry. fst entry = name) rs of
        Some entry \<Rightarrow> Some entry
      | None \<Rightarrow> find (\<lambda>entry. wEqualsIgnoreAsciiCase (fst entry) name) rs)"

record edit =
  edit_begin :: nat
  edit_end :: nat
  edit_value :: string
  edit_assembly :: wstring

text \<open>The edit for one reference: \<open>Inl\<close> when the whole rewrite fails, else the optional edit.\<close>

definition reference_edit :: "string \<Rightarrow> redirects \<Rightarrow> parsed_reference \<Rightarrow> unit + edit option" where
  "reference_edit type_name rs reference =
     (case find_redirect rs (ToWSTRING (assembly_name reference)) of
        None \<Rightarrow> Inr None
      | Some (key, redirect) \<Rightarrow>
          let target_version = ToString (VersionStr redirect)
          in case version_span reference of
               None \<Rightarrow> Inr (Some \<lparr>edit_begin = insert_version_at reference, edit_end = insert_version_at reference,
                        edit_value = '', Version='' @ target_version, edit_assembly = key\<rparr>)
             | Some s \<Rightarrow>
                 (case TryParseVersion (View type_name s) of
                    None \<Rightarrow> Inl ()
                  | Some parsed_version \<Rightarrow>
                      if CompareToAssemblyVersion redirect parsed_version \<le> 0 then Inr None
                      else Inr (Some \<lparr>edit_begin = span_begin s, edit_end = span_end s,
                             edit_value = target_version, edit_assembly = key\<rparr>)))"

fun collect_edits :: "string \<Rightarrow> redirects \<Rightarrow> parsed_reference list \<Rightarrow> edit list option" where
  "collect_edits type_name rs [] = Some []"
| "collect_edits type_name rs (r # refs) =
     (case reference_edit type_name rs r of
        Inl _ \<Rightarrow> None
      | Inr e \<Rightarrow> map_option (\<lambda>es. case e of None \<Rightarrow> es | Some x \<Rightarrow> x # es) (collect_edits type_name rs refs))"

text \<open>The copy loop with its overlap test; \<open>None\<close> is a failed test.\<close>

fun apply_edits :: "string \<Rightarrow> nat \<Rightarrow> edit list \<Rightarrow> string option" where
  "apply_edits type_name copied [] = Some (drop copied type_name)"
| "apply_edits type_name copied (e # es) =
     (if edit_begin e < copied \<or> edit_end e < edit_begin e \<or> edit_end e > length type_name then None
      else map_option (\<lambda>rest. take (edit_begin e - copied) (drop copied type_name) @ edit_value e @ rest)
             (apply_edits type_name (edit_end e) es))"

definition TryRewriteTypeNameAssemblyRedirections :: "string \<Rightarrow> redirects \<Rightarrow> (string \<times> wstring list) option" where
  "TryRewriteTypeNameAssemblyRedirections type_name rs =
     (case ParseTypeNameAssemblyReferences type_name of
        None \<Rightarrow> None
      | Some references \<Rightarrow>
          (case collect_edits type_name rs references of
             None \<Rightarrow> None
           | Some edits \<Rightarrow>
               if edits = [] then None
               else let sorted = sort_key (\<lambda>e. (edit_begin e, edit_end e)) edits
                    in case apply_edits type_name 0 sorted of
                         None \<Rightarrow> None
                       | Some rewritten \<Rightarrow> Some (rewritten, map edit_assembly sorted)))"

section \<open>Rewriting is a splice\<close>

text \<open>The specification: copy up to each edit, write its value, continue after it.\<close>

fun splice :: "string \<Rightarrow> nat \<Rightarrow> edit list \<Rightarrow> string" where
  "splice v copied [] = drop copied v"
| "splice v copied (e # es) = take (edit_begin e - copied) (drop copied v) @ edit_value e @ splice v (edit_end e) es"

fun edits_in_order :: "nat \<Rightarrow> edit list \<Rightarrow> nat \<Rightarrow> bool" where
  "edits_in_order lo [] hi = (lo \<le> hi)"
| "edits_in_order lo (e # es) hi = (lo < edit_begin e \<and> edit_begin e \<le> edit_end e \<and> edits_in_order (edit_end e) es hi)"

lemma edits_in_order_le: "edits_in_order lo es hi \<Longrightarrow> lo \<le> hi"
  by (induction lo es hi rule: edits_in_order.induct) auto

lemma edits_in_order_low: "edits_in_order lo es hi \<Longrightarrow> lo' \<le> lo \<Longrightarrow> edits_in_order lo' es hi"
  by (cases es) auto

lemma collect_edits_in_order:
  "collect_edits v rs refs = Some es \<Longrightarrow> in_order lo refs hi \<Longrightarrow> edits_in_order lo es hi"
proof (induction refs arbitrary: lo es)
  case (Cons r refs)
  then obtain e es' where e: "reference_edit v rs r = Inr e" and es': "collect_edits v rs refs = Some es'"
    and es: "es = (case e of None \<Rightarrow> es' | Some x \<Rightarrow> x # es')"
    by (auto split: sum.splits)
  have rest: "edits_in_order (ref_end r) es' hi" using Cons.IH [OF es'] Cons.prems(2) by simp
  show ?case
  proof (cases e)
    case None
    with es rest Cons.prems(2) ref_end_ge [of r] show ?thesis by (auto elim: edits_in_order_low)
  next
    case (Some x)
    with e Cons.prems(2) have "lo < edit_begin x \<and> edit_begin x \<le> edit_end x \<and> edit_end x = ref_end r"
      by (auto simp: reference_edit_def ref_ok_def ref_end_def Let_def split: option.splits prod.splits if_splits)
    with es Some rest show ?thesis by simp
  qed
qed simp

lemma edits_sorted:
  "edits_in_order lo es hi \<Longrightarrow> sorted (map (\<lambda>e. (edit_begin e, edit_end e)) es) \<and> (\<forall>e \<in> set es. lo < edit_begin e)"
proof (induction lo es hi rule: edits_in_order.induct)
  case (2 lo e es hi)
  then have "\<forall>x \<in> set es. edit_begin e < edit_begin x" by fastforce
  with 2 show ?case by (auto simp: less_eq_prod_def)
qed simp

lemma apply_edits_splice:
  "edits_in_order lo es (length v) \<Longrightarrow> apply_edits v lo es = Some (splice v lo es)"
proof (induction v lo es rule: apply_edits.induct)
  case (2 v lo e es)
  then show ?case using edits_in_order_le [of "edit_end e" es "length v"] by simp
qed simp

text \<open>The rewrite is exactly what it is meant to be. For every type name and every redirection map, the
  result is the splice, in the order of the name, of one new version per mapped reference that needs
  it; the sort and the run-time overlap test never change or reject anything, and the call fails only when
  the name does not parse, a mapped version is invalid, or no reference needs an edit.\<close>

theorem rewrite_is_splice:
  "TryRewriteTypeNameAssemblyRedirections type_name rs =
     (case ParseTypeNameAssemblyReferences type_name of
        None \<Rightarrow> None
      | Some references \<Rightarrow>
          (case collect_edits type_name rs references of
             None \<Rightarrow> None
           | Some edits \<Rightarrow> if edits = [] then None
               else Some (splice type_name 0 edits, map edit_assembly edits)))"
proof (cases "ParseTypeNameAssemblyReferences type_name")
  case (Some refs)
  have order: "in_order 0 refs (length type_name)"
    using collect_in_order(1) [of "Span 0 (length type_name)" "[]" type_name 0] Some
    by (simp add: ParseTypeNameAssemblyReferences_def adds_in_order_def)
  show ?thesis
  proof (cases "collect_edits type_name rs refs")
    case (Some es)
    note io = collect_edits_in_order [OF Some order]
    have "sort_key (\<lambda>e. (edit_begin e, edit_end e)) es = es"
      using edits_sorted [OF io] by (simp add: sorted_sort_id sort_key_id_if_sorted)
    with apply_edits_splice [OF io] Some \<open>ParseTypeNameAssemblyReferences type_name = Some refs\<close> show ?thesis
      by (simp add: TryRewriteTypeNameAssemblyRedirections_def)
  qed (simp add: TryRewriteTypeNameAssemblyRedirections_def Some)
qed (simp add: TryRewriteTypeNameAssemblyRedirections_def)

section \<open>Version texts\<close>

lemma digit_of_char: "k < 10 \<Longrightarrow> of_char (char_of (48 + k)) = 48 + (k :: nat)"
  by simp

lemma decimal_digits: "list_all is_digit (decimal n) \<and> decimal n \<noteq> []"
proof (induction n rule: decimal.induct)
  case (1 n)
  then show ?case by (subst (1 2) decimal.simps) (auto, auto simp: is_digit_def)
qed

lemma digits_value_decimal [simp]: "digits_value (decimal n) = n"
proof (induction n rule: decimal.induct)
  case (1 n)
  then show ?case by (subst decimal.simps) (auto simp: digits_value_def)
qed

lemma is_digit_not_dot: "is_digit c \<Longrightarrow> c \<noteq> CHR ''.''"
  by (auto simp: is_digit_def)

lemma takeWhile_dot: "list_all is_digit d \<Longrightarrow> takeWhile (\<lambda>c. c \<noteq> CHR ''.'') (d @ CHR ''.'' # s) = d"
  "list_all is_digit d \<Longrightarrow> takeWhile (\<lambda>c. c \<noteq> CHR ''.'') d = d"
  by (induction d) (auto dest: is_digit_not_dot)

lemma dropWhile_dot: "list_all is_digit d \<Longrightarrow> dropWhile (\<lambda>c. c \<noteq> CHR ''.'') (d @ CHR ''.'' # s) = CHR ''.'' # s"
  "list_all is_digit d \<Longrightarrow> dropWhile (\<lambda>c. c \<noteq> CHR ''.'') d = []"
  by (induction d) (auto dest: is_digit_not_dot)

lemma parse_component_decimal: "n < 65535 \<Longrightarrow> parse_component (decimal n) = Some n"
  using decimal_digits [of n] by (simp add: parse_component_def unspecified_version_component_def)

lemma parse_components_step:
  "n < 65535 \<Longrightarrow> parse_components (Suc fuel) index False (decimal n @ CHR ''.'' # s) =
     map_option ((#) n) (parse_components fuel (index + 1) False s)"
  "n < 65535 \<Longrightarrow> parse_components (Suc fuel) index False (decimal n) = Some [n]"
  using decimal_digits [of n]
  by (simp_all add: takeWhile_dot dropWhile_dot parse_component_decimal unspecified_version_component_def)

text \<open>A version none of whose components is the reserved 65535.\<close>

definition specified :: "'a assembly_version_scheme \<Rightarrow> bool" where
  "specified v \<longleftrightarrow> usMajorVersion v < 65535 \<and> usMinorVersion v < 65535 \<and> usBuildNumber v < 65535 \<and> usRevisionNumber v < 65535"

lemma unat_specified: "(w :: u16) < 65535 \<Longrightarrow> unat w < 65535"
  by (simp add: word_less_nat_alt)

lemma TryParseVersion_text:
  assumes "specified v"
  shows "TryParseVersion (version_text v) = Some (assembly_version.truncate v)"
proof -
  have four: "(4 :: nat) = Suc (Suc (Suc (Suc 0)))" by simp
  have "parse_components 4 0 False (version_text v) =
      Some [unat (usMajorVersion v), unat (usMinorVersion v), unat (usBuildNumber v), unat (usRevisionNumber v)]"
    unfolding four using assms
    by (simp add: version_text_def specified_def parse_components_step unat_specified del: parse_components.simps)
  then show ?thesis by (simp add: TryParseVersion_def assembly_version.truncate_def)
qed

lemma digit_plain: "is_digit c \<or> c = CHR ''.'' \<Longrightarrow> plain_char c \<and> (of_char c :: nat) < 128 \<and> c \<noteq> CHR 0x00"
  by (auto simp: is_digit_def plain_char_def is_ascii_space_def chr_backslash_def chr_quote_def chr_dquote_def)

lemma version_text_chars: "list_all (\<lambda>c. is_digit c \<or> c = CHR ''.'') (version_text v) \<and> version_text v \<noteq> []"
  using decimal_digits by (auto simp: version_text_def list_all_iff)

lemma version_text_plain: "plain (version_text v)"
  using version_text_chars [of v] digit_plain by (auto simp: plain_def list_all_iff)

lemma version_text_ascii: "ascii_text (version_text v)"
  using version_text_chars [of v] digit_plain by (auto simp: ascii_text_def list_all_iff)

section \<open>Plain names\<close>

lemma plain_name_edit:
  assumes "plain t" "plain a" "plain w" and "find_redirect rs (ToWSTRING a) = Some (key, r)"
    and "TryParseVersion w = Some v"
  shows "TryRewriteTypeNameAssemblyRedirections (t @ '', '' @ a @ '', Version='' @ w) rs =
    (if CompareToAssemblyVersion r v \<le> 0 then None
     else Some (t @ '', '' @ a @ '', Version='' @ version_text r, [key]))"
proof -
  define n p where "n = t @ '', '' @ a @ '', Version='' @ w" and "p = t @ '', '' @ a @ '', Version=''"
  define b where "b = length t + length a + 12"
  have len: "length p = b" "length n = b + length w" and n: "n = p @ w" by (simp_all add: n_def p_def b_def)
  have target: "ToString (VersionStr r) = version_text r"
    using ToString_ToWSTRING [OF version_text_ascii] by (simp add: VersionStr_def)
  have "TryRewriteTypeNameAssemblyRedirections n rs =
      (if CompareToAssemblyVersion r v \<le> 0 then None else Some (p @ version_text r, [key]))"
    using assms(4,5) plain_name_parsed [OF assms(1-3), folded n_def b_def] plain_version_view [of t a w, folded n_def b_def]
    by (simp add: TryRewriteTypeNameAssemblyRedirections_def reference_edit_def target len n)
  then show ?thesis by (simp add: n_def p_def)
qed

text \<open>Versions in their usual order, component by component.\<close>

definition version_key :: "'a assembly_version_scheme \<Rightarrow> u16 \<times> u16 \<times> u16 \<times> u16" where
  "version_key v = (usMajorVersion v, usMinorVersion v, usBuildNumber v, usRevisionNumber v)"

lemma CompareToAssemblyVersion_key:
  "CompareToAssemblyVersion r v \<le> 0 \<longleftrightarrow> version_key r \<le> version_key v"
  by (auto simp: CompareToAssemblyVersion_def version_key_def less_eq_prod_def)

lemma version_key_truncate: "version_key (assembly_version.truncate r) = version_key r"
  by (simp add: version_key_def assembly_version.truncate_def)

definition qualified_name :: "string \<Rightarrow> string \<Rightarrow> string \<Rightarrow> string" where
  "qualified_name t a w = t @ '', '' @ a @ '', Version='' @ w"

text \<open>C27: redirection raises versions and never lowers them. For a plain assembly-qualified name whose assembly
  has a redirection, the version is replaced by the configured one exactly when the configured one
  is greater in the component order; a request for an equal or higher version is left alone, and rewriting a
  rewritten name changes nothing.\<close>

theorem redirection_raises_version:
  assumes "plain t" "plain a" and "specified v" "specified r"
    and "find_redirect rs (ToWSTRING a) = Some (key, r)"
  shows "TryRewriteTypeNameAssemblyRedirections (qualified_name t a (version_text v)) rs =
      (if version_key v < version_key r then Some (qualified_name t a (version_text r), [key]) else None) \<and>
    TryRewriteTypeNameAssemblyRedirections (qualified_name t a (version_text r)) rs = None"
  using plain_name_edit [OF assms(1,2) version_text_plain assms(5) TryParseVersion_text [OF assms(3)]]
    plain_name_edit [OF assms(1,2) version_text_plain assms(5) TryParseVersion_text [OF assms(4)]]
  unfolding CompareToAssemblyVersion_key version_key_truncate qualified_name_def by (simp add: not_less)

definition sample_redirects :: redirects where
  "sample_redirects = [(ToWSTRING ''My.Lib'', AssemblyVersionRedirection 9 0 0 1)]"

definition sample_version :: assembly_version where
  "sample_version = \<lparr>usMajorVersion = 8, usMinorVersion = 12, usBuildNumber = 0, usRevisionNumber = 3\<rparr>"

lemma sample_redirection:
  "find_redirect sample_redirects (ToWSTRING ''My.Lib'') = Some (ToWSTRING ''My.Lib'', AssemblyVersionRedirection 9 0 0 1)"
  "specified sample_version" "specified (AssemblyVersionRedirection 9 0 0 1)"
  "version_key sample_version < version_key (AssemblyVersionRedirection 9 0 0 1)"
  by (simp_all add: find_redirect_def sample_redirects_def sample_version_def specified_def version_key_def AssemblyVersionRedirection_def)

lemma sample_texts: "version_text sample_version = ''8.12.0.3''" "version_text (AssemblyVersionRedirection 9 0 0 1) = ''9.0.0.1''"
  by (simp_all add: version_text_def sample_version_def AssemblyVersionRedirection_def decimal.simps char_of_def bit_0)

theorem redirection_raises_version_witness:
  "TryRewriteTypeNameAssemblyRedirections ''N.T, My.Lib, Version=8.12.0.3'' sample_redirects =
     Some (''N.T, My.Lib, Version=9.0.0.1'', [ToWSTRING ''My.Lib'']) \<and>
   TryRewriteTypeNameAssemblyRedirections ''N.T, My.Lib, Version=9.0.0.1'' sample_redirects = None"
  using redirection_raises_version [OF sample_plain(1,2) sample_redirection(2,3,1)] sample_redirection(4)
  by (simp add: sample_texts qualified_name_def)

lemma sample_rewrite:
  "TryRewriteTypeNameAssemblyRedirections ''N.T, My.Lib, Version=8.12.0.3'' sample_redirects =
     Some (''N.T, My.Lib, Version=9.0.0.1'', [ToWSTRING ''My.Lib''])"
  using plain_name_edit [OF sample_plain(1,2) version_text_plain sample_redirection(1) TryParseVersion_text [OF sample_redirection(2)]]
    sample_redirection(4)
  by (simp add: sample_texts CompareToAssemblyVersion_key version_key_truncate not_le)

end
