(* ===== verification/Attribute_Blob.thy ===== *)
theory Attribute_Blob
  imports Type_Name_Rewriter Cor_Sig
begin

text \<open>
  The custom-attribute blob of \<open>UnsafeAccessorTypeAttribute\<close>:
  \<open>unsafe_accessor_type_attribute_blob_rewriter.cpp\<close>. The blob is a two-byte prolog, one string with
  a compressed length, and the named arguments; the string is a type name whose assembly references are redirected.
  The theorem: on a well-formed blob the rewriter changes the string and its length, and nothing else.
\<close>

section \<open>The rewriter\<close>

definition WritePackedLength :: "byte list \<Rightarrow> nat \<Rightarrow> byte list option" where
  "WritePackedLength blob len =
     (if len > 0x1FFFFFFF then None
      else map_option (\<lambda>encoded. blob @ encoded) (CorSigCompressData (of_nat len)))"

definition custom_attribute_prolog_size :: nat where "custom_attribute_prolog_size = 2"
definition named_argument_count_size :: nat where "named_argument_count_size = 2"

text \<open>
  \<open>None\<close> for the blob is the null pointer; the size argument is the length of the list. A result of \<open>None\<close> is
  \<open>false\<close> with both outputs empty. The decoder's own \<open>None\<close>, a read past the buffer, cannot occur here
  (\<open>uncompress_in_bounds\<close>).
\<close>

definition max_blob_size :: nat where "max_blob_size = 0xFFFFFFFF"

definition rebuild_blob :: "byte list \<Rightarrow> nat \<Rightarrow> nat \<Rightarrow> string \<times> wstring list \<Rightarrow> (byte list \<times> wstring list) option" where
  "rebuild_blob blob string_end trailing_size rewritten =
     (case rewritten of (rewritten_type_name, names) \<Rightarrow>
       case WritePackedLength (take custom_attribute_prolog_size blob) (length rewritten_type_name) of
         None \<Rightarrow> None
       | Some rewritten_blob \<Rightarrow>
           if length rewritten_type_name > max_blob_size - length rewritten_blob \<or>
              trailing_size > max_blob_size - length rewritten_blob - length rewritten_type_name then None
           else Some (rewritten_blob @ map char_byte rewritten_type_name @ drop string_end blob, names))"

definition TryRewriteUnsafeAccessorTypeAttributeBlob ::
    "byte list option \<Rightarrow> redirects \<Rightarrow> (byte list \<times> wstring list) option" where
  "TryRewriteUnsafeAccessorTypeAttributeBlob blob_ptr rs =
     (case blob_ptr of None \<Rightarrow> None
      | Some blob \<Rightarrow>
          if length blob < custom_attribute_prolog_size + 1 + named_argument_count_size \<or>
             blob ! 0 \<noteq> 0x01 \<or> blob ! 1 \<noteq> 0x00 \<or> blob ! custom_attribute_prolog_size = 0xFF then None
          else
            let serialized_string_size = length blob - custom_attribute_prolog_size - named_argument_count_size
            in case CorSigUncompressData_checked (drop custom_attribute_prolog_size blob) (of_nat serialized_string_size) of
                 None \<Rightarrow> None
               | Some (hr, string_length, encoded_length_size) \<Rightarrow>
                   if FAILED hr \<or> unat encoded_length_size > serialized_string_size \<or>
                      unat string_length > serialized_string_size - unat encoded_length_size then None
                   else
                     let string_begin = custom_attribute_prolog_size + unat encoded_length_size;
                         type_name = map byte_char (take (unat string_length) (drop string_begin blob));
                         trailing_size = serialized_string_size - unat encoded_length_size - unat string_length
                                           + named_argument_count_size
                     in case TryRewriteTypeNameAssemblyRedirections type_name rs of
                          None \<Rightarrow> None
                        | Some rewritten \<Rightarrow> rebuild_blob blob (string_begin + unat string_length) trailing_size rewritten)"

lemma uncompress_in_bounds:
  assumes "3 \<le> length bs" "unat len + 2 \<le> length bs"
  shows "CorSigUncompressData_checked bs len \<noteq> None"
proof (cases bs)
  case (Cons b0 r)
  with assms show ?thesis
    by (cases r; cases "tl r"; cases "tl (tl r)") (auto simp: word_less_nat_alt Let_def)
qed (use assms in simp)

section \<open>Well-formed blobs\<close>

text \<open>The blob of a string argument followed by the bytes of the named arguments.\<close>

definition attribute_blob :: "string \<Rightarrow> byte list \<Rightarrow> byte list" where
  "attribute_blob type_name trailing =
     [0x01, 0x00] @ the (CorSigCompressData (of_nat (length type_name))) @ map char_byte type_name @ trailing"

definition fits :: "string \<Rightarrow> byte list \<Rightarrow> bool" where
  "fits type_name trailing \<longleftrightarrow>
     length type_name \<le> 0x1FFFFFFF \<and> 2 \<le> length trailing \<and> length (attribute_blob type_name trailing) \<le> max_blob_size"

lemma byte_char_inverse [simp]: "map byte_char (map char_byte s) = s"
  by (simp add: byte_char_def char_byte_def map_idI unat_of_nat)

lemma packed_length:
  assumes "n \<le> 0x1FFFFFFF"
  obtains bs where "CorSigCompressData (of_nat n) = Some bs" "length bs \<in> {1, 2, 4}" "unat (of_nat n :: u32) = n" "bs ! 0 \<noteq> 0xFF"
proof -
  have n: "unat (of_nat n :: u32) = n" using assms by (simp add: unat_of_nat)
  then have "(of_nat n :: u32) \<le> 0x1FFFFFFF" using assms by (simp add: word_le_nat_alt)
  then obtain bs where bs: "CorSigCompressData (of_nat n) = Some bs" using compress_defined by auto
  moreover have "bs ! 0 \<noteq> 0xFF" using bs by (elim compress_shape) auto
  ultimately show thesis using compress_length n that by blast
qed

lemma rebuild_attribute_blob:
  assumes "take 2 blob = [0x01, 0x00]" "drop string_end blob = trailing" "2 \<le> length trailing"
  shows "rebuild_blob blob string_end (length trailing) (name, names) =
    (if fits name trailing then Some (attribute_blob name trailing, names) else None)"
proof (cases "length name \<le> 0x1FFFFFFF")
  case True
  then obtain bs where bs: "CorSigCompressData (of_nat (length name)) = Some bs" "length bs \<in> {1, 2, 4}"
    using packed_length by blast
  then have "fits name trailing \<longleftrightarrow> 2 + length bs + length name + length trailing \<le> max_blob_size"
    using True assms(3) by (simp add: fits_def attribute_blob_def add.assoc)
  moreover have "2 + length bs \<le> max_blob_size" using bs(2) by (auto simp: max_blob_size_def)
  ultimately have "(length name > max_blob_size - (2 + length bs) \<or>
      length trailing > max_blob_size - (2 + length bs) - length name) \<longleftrightarrow> \<not> fits name trailing"
    by linarith
  moreover have "WritePackedLength [1, 0] (length name) = Some ([1, 0] @ bs)"
    using True bs(1) by (simp add: WritePackedLength_def)
  ultimately show ?thesis
    using assms bs(1) by (auto simp: rebuild_blob_def custom_attribute_prolog_size_def attribute_blob_def)
qed (simp add: rebuild_blob_def WritePackedLength_def fits_def)

text \<open>C28: rewriting an attribute blob changes the type name and nothing else. On every well-formed blob the result
  is exactly the blob of the rewritten type name, with its length re-encoded and the prolog and every
  byte of the named arguments preserved; it fails only when the type name is not rewritten or the new blob would
  exceed the format's limits.\<close>

theorem attribute_blob_rewritten:
  assumes "fits type_name trailing"
  shows "TryRewriteUnsafeAccessorTypeAttributeBlob (Some (attribute_blob type_name trailing)) rs =
    (case TryRewriteTypeNameAssemblyRedirections type_name rs of
       None \<Rightarrow> None
     | Some (rewritten, names) \<Rightarrow>
         if fits rewritten trailing then Some (attribute_blob rewritten trailing, names) else None)"
proof -
  define blob where "blob = attribute_blob type_name trailing"
  define n where "n = length type_name"
  have "length type_name \<le> 0x1FFFFFFF" using assms by (simp add: fits_def)
  then obtain bs where bs: "CorSigCompressData (of_nat n) = Some bs" "length bs \<in> {1, 2, 4}"
      "unat (of_nat n :: u32) = n" "bs ! 0 \<noteq> 0xFF"
    unfolding n_def using packed_length by blast
  have blob: "blob = 0x01 # 0x00 # bs @ map char_byte type_name @ trailing"
    using bs(1) by (simp add: blob_def attribute_blob_def n_def)
  define k where "k = length bs + n + length trailing - 2"
  have len: "length blob = k + 4" "2 \<le> length trailing" and room: "length bs + n \<le> k" and small: "k < 2 ^ 32"
    using assms blob by (auto simp: fits_def blob_def [symmetric] n_def k_def max_blob_size_def)
  have uk: "unat (of_nat k :: u32) = k" using small by (simp add: unat_of_nat)
  have ubs: "unat (of_nat (length bs) :: u32) = length bs" using bs(2) by auto
  have dec: "CorSigUncompressData_checked (drop 2 blob) (of_nat k) = Some (S_OK, of_nat n, of_nat (length bs))"
    using uncompress_checked_compress [OF bs(1), of "of_nat k" "map char_byte type_name @ trailing"] uk room by (simp add: blob)
  have start: "blob ! 0 = 1" "blob ! 1 = 0" "blob ! 2 \<noteq> 0xFF" using bs(2,4) by (auto simp: blob nth_append)
  have name: "map byte_char (take n (drop (2 + length bs) blob)) = type_name"
    using byte_char_inverse [of type_name] by (simp add: blob n_def)
  have rest: "drop (2 + length bs + n) blob = trailing" "take 2 blob = [1, 0]" by (simp_all add: blob n_def)
  have tr: "k - length bs - n + 2 = length trailing" using len(2) by (simp add: k_def)
  have "\<not> k - length bs < n" "0 < k" using room bs(2) by auto
  then show ?thesis
    unfolding blob_def [symmetric] TryRewriteUnsafeAccessorTypeAttributeBlob_def
    using dec start name room tr rebuild_attribute_blob [OF rest(2,1) len(2)] bs(2)
    by (simp add: len(1) Let_def custom_attribute_prolog_size_def named_argument_count_size_def ubs bs(3) split: option.split)
qed


theorem attribute_blob_rewritten_witness:
  "TryRewriteUnsafeAccessorTypeAttributeBlob (Some (attribute_blob (qualified_name ''N.T'' ''My.Lib'' ''8.12.0.3'') [0, 0])) sample_redirects =
     Some (attribute_blob (qualified_name ''N.T'' ''My.Lib'' ''9.0.0.1'') [0, 0], [ToWSTRING ''My.Lib''])"
proof -
  have r: "TryRewriteTypeNameAssemblyRedirections (qualified_name ''N.T'' ''My.Lib'' ''8.12.0.3'') sample_redirects =
      Some (qualified_name ''N.T'' ''My.Lib'' ''9.0.0.1'', [ToWSTRING ''My.Lib''])"
    using sample_rewrite by (simp add: qualified_name_def)
  have "fits (qualified_name ''N.T'' ''My.Lib'' ''8.12.0.3'') [0, 0]" "fits (qualified_name ''N.T'' ''My.Lib'' ''9.0.0.1'') [0, 0]"
    by (simp_all add: fits_def attribute_blob_def qualified_name_def CorSigCompressData_def max_blob_size_def)
  with attribute_blob_rewritten [OF this(1), of sample_redirects] r show ?thesis by simp
qed

end
