(* ===== verification/Signature_Builder.thy ===== *)
theory Signature_Builder
  imports Cor_Sig
begin

text \<open>
  Signatures that the profiler writes: \<open>signature_builder.h\<close>. A signature under construction is its byte
  vector; the \<open>Push\<close> members append to it and the nested classes (\<open>Type\<close>, \<open>Array\<close>, \<open>Method\<close>, ...) are
  their constructors. A value the compressed format cannot hold makes the copy loop of
  \<open>PushCompressedData\<close> and \<open>PushToken\<close> run over its four-byte buffer, which is \<open>None\<close> here. The second part
  is the abstract syntax of types, with the byte sequence that the builder gives each.
\<close>

section \<open>Element types\<close>

abbreviation ELEMENT_TYPE_VOID :: byte where "ELEMENT_TYPE_VOID \<equiv> 0x01"
abbreviation ELEMENT_TYPE_BOOLEAN :: byte where "ELEMENT_TYPE_BOOLEAN \<equiv> 0x02"
abbreviation ELEMENT_TYPE_CHAR :: byte where "ELEMENT_TYPE_CHAR \<equiv> 0x03"
abbreviation ELEMENT_TYPE_I1 :: byte where "ELEMENT_TYPE_I1 \<equiv> 0x04"
abbreviation ELEMENT_TYPE_U1 :: byte where "ELEMENT_TYPE_U1 \<equiv> 0x05"
abbreviation ELEMENT_TYPE_I2 :: byte where "ELEMENT_TYPE_I2 \<equiv> 0x06"
abbreviation ELEMENT_TYPE_U2 :: byte where "ELEMENT_TYPE_U2 \<equiv> 0x07"
abbreviation ELEMENT_TYPE_I4 :: byte where "ELEMENT_TYPE_I4 \<equiv> 0x08"
abbreviation ELEMENT_TYPE_U4 :: byte where "ELEMENT_TYPE_U4 \<equiv> 0x09"
abbreviation ELEMENT_TYPE_I8 :: byte where "ELEMENT_TYPE_I8 \<equiv> 0x0a"
abbreviation ELEMENT_TYPE_U8 :: byte where "ELEMENT_TYPE_U8 \<equiv> 0x0b"
abbreviation ELEMENT_TYPE_R4 :: byte where "ELEMENT_TYPE_R4 \<equiv> 0x0c"
abbreviation ELEMENT_TYPE_R8 :: byte where "ELEMENT_TYPE_R8 \<equiv> 0x0d"
abbreviation ELEMENT_TYPE_STRING :: byte where "ELEMENT_TYPE_STRING \<equiv> 0x0e"
abbreviation ELEMENT_TYPE_PTR :: byte where "ELEMENT_TYPE_PTR \<equiv> 0x0f"
abbreviation ELEMENT_TYPE_BYREF :: byte where "ELEMENT_TYPE_BYREF \<equiv> 0x10"
abbreviation ELEMENT_TYPE_VALUETYPE :: byte where "ELEMENT_TYPE_VALUETYPE \<equiv> 0x11"
abbreviation ELEMENT_TYPE_CLASS :: byte where "ELEMENT_TYPE_CLASS \<equiv> 0x12"
abbreviation ELEMENT_TYPE_VAR :: byte where "ELEMENT_TYPE_VAR \<equiv> 0x13"
abbreviation ELEMENT_TYPE_ARRAY :: byte where "ELEMENT_TYPE_ARRAY \<equiv> 0x14"
abbreviation ELEMENT_TYPE_GENERICINST :: byte where "ELEMENT_TYPE_GENERICINST \<equiv> 0x15"
abbreviation ELEMENT_TYPE_TYPEDBYREF :: byte where "ELEMENT_TYPE_TYPEDBYREF \<equiv> 0x16"
abbreviation ELEMENT_TYPE_I :: byte where "ELEMENT_TYPE_I \<equiv> 0x18"
abbreviation ELEMENT_TYPE_U :: byte where "ELEMENT_TYPE_U \<equiv> 0x19"
abbreviation ELEMENT_TYPE_FNPTR :: byte where "ELEMENT_TYPE_FNPTR \<equiv> 0x1b"
abbreviation ELEMENT_TYPE_OBJECT :: byte where "ELEMENT_TYPE_OBJECT \<equiv> 0x1c"
abbreviation ELEMENT_TYPE_SZARRAY :: byte where "ELEMENT_TYPE_SZARRAY \<equiv> 0x1d"
abbreviation ELEMENT_TYPE_MVAR :: byte where "ELEMENT_TYPE_MVAR \<equiv> 0x1e"
abbreviation ELEMENT_TYPE_CMOD_REQD :: byte where "ELEMENT_TYPE_CMOD_REQD \<equiv> 0x1f"
abbreviation ELEMENT_TYPE_CMOD_OPT :: byte where "ELEMENT_TYPE_CMOD_OPT \<equiv> 0x20"
abbreviation ELEMENT_TYPE_SENTINEL :: byte where "ELEMENT_TYPE_SENTINEL \<equiv> 0x41"
abbreviation ELEMENT_TYPE_PINNED :: byte where "ELEMENT_TYPE_PINNED \<equiv> 0x45"

abbreviation IMAGE_CEE_CS_CALLCONV_DEFAULT :: byte where "IMAGE_CEE_CS_CALLCONV_DEFAULT \<equiv> 0x00"
abbreviation IMAGE_CEE_CS_CALLCONV_FIELD :: byte where "IMAGE_CEE_CS_CALLCONV_FIELD \<equiv> 0x06"
abbreviation IMAGE_CEE_CS_CALLCONV_GENERIC :: byte where "IMAGE_CEE_CS_CALLCONV_GENERIC \<equiv> 0x10"
abbreviation IMAGE_CEE_CS_CALLCONV_HASTHIS :: byte where "IMAGE_CEE_CS_CALLCONV_HASTHIS \<equiv> 0x20"

section \<open>The builder\<close>

type_synonym blob = "byte list"

definition SignatureData :: "blob list \<Rightarrow> blob" where
  "SignatureData elements = foldl (@) [] elements"

definition PushRawByte :: "blob \<Rightarrow> byte \<Rightarrow> blob" where
  "PushRawByte blob b = blob @ [b]"

definition PushRawBytes :: "blob \<Rightarrow> byte list \<Rightarrow> blob" where
  "PushRawBytes blob bytes = blob @ bytes"

definition PushCompressedData :: "blob \<Rightarrow> u32 \<Rightarrow> blob option" where
  "PushCompressedData blob data = map_option (foldl PushRawByte blob) (CorSigCompressData data)"

definition PushToken :: "blob \<Rightarrow> u32 \<Rightarrow> blob option" where
  "PushToken blob token = map_option (foldl PushRawByte blob) (CorSigCompressToken token)"

definition Push :: "blob \<Rightarrow> blob \<Rightarrow> blob" where
  "Push blob inner = blob @ inner"

datatype MethodCallingConvection = Static | Instance

fun calling_convection_code :: "MethodCallingConvection \<Rightarrow> byte" where
  "calling_convection_code Static = IMAGE_CEE_CS_CALLCONV_DEFAULT"
| "calling_convection_code Instance = IMAGE_CEE_CS_CALLCONV_HASTHIS"

datatype TokenTypeMode = ValueTypeMode | ClassMode

fun token_mode_code :: "TokenTypeMode \<Rightarrow> byte" where
  "token_mode_code ValueTypeMode = ELEMENT_TYPE_VALUETYPE"
| "token_mode_code ClassMode = ELEMENT_TYPE_CLASS"

datatype GenericArgMode = TypeArg | MethodArg

fun generic_mode_code :: "GenericArgMode \<Rightarrow> byte" where
  "generic_mode_code TypeArg = ELEMENT_TYPE_VAR"
| "generic_mode_code MethodArg = ELEMENT_TYPE_MVAR"

datatype BuiltIn = VoidT | BooleanT | CharT | SByteT | ByteT | Int16T | UInt16T | Int32T | UInt32T | Int64T | UInt64T
  | FloatT | DoubleT | StringT | IntPtrT | UintPtrT | ObjectT

fun builtin_code :: "BuiltIn \<Rightarrow> byte" where
  "builtin_code VoidT = ELEMENT_TYPE_VOID"
| "builtin_code BooleanT = ELEMENT_TYPE_BOOLEAN"
| "builtin_code CharT = ELEMENT_TYPE_CHAR"
| "builtin_code SByteT = ELEMENT_TYPE_I1"
| "builtin_code ByteT = ELEMENT_TYPE_U1"
| "builtin_code Int16T = ELEMENT_TYPE_I2"
| "builtin_code UInt16T = ELEMENT_TYPE_U2"
| "builtin_code Int32T = ELEMENT_TYPE_I4"
| "builtin_code UInt32T = ELEMENT_TYPE_U4"
| "builtin_code Int64T = ELEMENT_TYPE_I8"
| "builtin_code UInt64T = ELEMENT_TYPE_U8"
| "builtin_code FloatT = ELEMENT_TYPE_R4"
| "builtin_code DoubleT = ELEMENT_TYPE_R8"
| "builtin_code StringT = ELEMENT_TYPE_STRING"
| "builtin_code IntPtrT = ELEMENT_TYPE_I"
| "builtin_code UintPtrT = ELEMENT_TYPE_U"
| "builtin_code ObjectT = ELEMENT_TYPE_OBJECT"

definition Type :: "BuiltIn \<Rightarrow> blob" where
  "Type builtin = [builtin_code builtin]"

definition TokenType :: "TokenTypeMode \<Rightarrow> u32 \<Rightarrow> blob option" where
  "TokenType mode token = PushToken (PushRawByte [] (token_mode_code mode)) token"

definition ValueType :: "u32 \<Rightarrow> blob option" where
  "ValueType token = TokenType ValueTypeMode token"

definition Class :: "u32 \<Rightarrow> blob option" where
  "Class token = TokenType ClassMode token"

definition Array :: "blob \<Rightarrow> blob" where
  "Array ty = Push (PushRawByte [] ELEMENT_TYPE_SZARRAY) ty"

definition ByRef :: "blob \<Rightarrow> blob" where
  "ByRef ty = Push (PushRawByte [] ELEMENT_TYPE_BYREF) ty"

definition GenericArgument :: "GenericArgMode \<Rightarrow> u32 \<Rightarrow> blob option" where
  "GenericArgument mode num = PushCompressedData (PushRawByte [] (generic_mode_code mode)) num"

definition GenericArgumentOfMethod :: "u32 \<Rightarrow> blob option" where
  "GenericArgumentOfMethod num = GenericArgument MethodArg num"

definition GenericArgumentOfType :: "u32 \<Rightarrow> blob option" where
  "GenericArgumentOfType num = GenericArgument TypeArg num"

definition GenericInstance :: "blob \<Rightarrow> blob list \<Rightarrow> blob option" where
  "GenericInstance open_generic generic_args =
     map_option (\<lambda>blob. foldl Push blob generic_args)
       (PushCompressedData (Push (PushRawByte [] ELEMENT_TYPE_GENERICINST) open_generic) (of_nat (length generic_args)))"

definition Field :: "blob \<Rightarrow> blob" where
  "Field field_type = Push (PushRawByte [] IMAGE_CEE_CS_CALLCONV_FIELD) field_type"

definition Method :: "MethodCallingConvection \<Rightarrow> blob \<Rightarrow> blob list \<Rightarrow> blob option" where
  "Method calling_convection return_type args =
     map_option (\<lambda>blob. foldl Push (Push blob return_type) args)
       (PushCompressedData (PushRawByte [] (calling_convection_code calling_convection)) (of_nat (length args)))"

definition InstanceMethod :: "blob \<Rightarrow> blob list \<Rightarrow> blob option" where
  "InstanceMethod return_type args = Method Instance return_type args"

definition StaticMethod :: "blob \<Rightarrow> blob list \<Rightarrow> blob option" where
  "StaticMethod return_type args = Method Static return_type args"

section \<open>Types and their bytes\<close>

datatype sig_type =
    Builtin BuiltIn
  | Token TokenTypeMode u32
  | SzArray sig_type
  | Ref sig_type
  | GenArg GenericArgMode u32
  | Inst TokenTypeMode u32 "sig_type list"

fun build :: "sig_type \<Rightarrow> blob option" where
  "build (Builtin b) = Some (Type b)"
| "build (Token mode token) = TokenType mode token"
| "build (SzArray ty) = map_option Array (build ty)"
| "build (Ref ty) = map_option ByRef (build ty)"
| "build (GenArg mode num) = GenericArgument mode num"
| "build (Inst mode token args) =
     Option.bind (TokenType mode token) (\<lambda>open_generic. Option.bind (those (map build args)) (GenericInstance open_generic))"

text \<open>The types that can stand inside another type, as a parameter, and as a return type.\<close>

fun element :: "sig_type \<Rightarrow> bool" where
  "element (Builtin b) \<longleftrightarrow> b \<noteq> VoidT"
| "element (Token mode token) \<longleftrightarrow> True"
| "element (SzArray ty) \<longleftrightarrow> element ty"
| "element (Ref ty) \<longleftrightarrow> False"
| "element (GenArg mode num) \<longleftrightarrow> True"
| "element (Inst mode token args) \<longleftrightarrow> list_all element args \<and> length args \<le> 0x1FFFFFFF"

definition parameter :: "sig_type \<Rightarrow> bool" where
  "parameter ty \<longleftrightarrow> element ty \<or> (\<exists>t. ty = Ref t \<and> element t)"

definition return_type_ok :: "sig_type \<Rightarrow> bool" where
  "return_type_ok ty \<longleftrightarrow> ty = Builtin VoidT \<or> parameter ty"

subsection \<open>Shapes of the bytes\<close>

lemma foldl_PushRawByte [simp]: "foldl PushRawByte b bs = b @ bs"
  by (induction bs arbitrary: b) (auto simp: PushRawByte_def)

lemma foldl_Push [simp]: "foldl Push b bs = b @ concat bs"
  by (induction bs arbitrary: b) (auto simp: Push_def)

lemma TokenType_eq: "TokenType mode token = map_option ((#) (token_mode_code mode)) (CorSigCompressToken token)"
  by (auto simp: TokenType_def PushToken_def PushRawByte_def intro!: option.map_cong0)

lemma GenericArgument_eq: "GenericArgument mode num = map_option ((#) (generic_mode_code mode)) (CorSigCompressData num)"
  by (auto simp: GenericArgument_def PushCompressedData_def PushRawByte_def intro!: option.map_cong0)

lemma GenericInstance_eq:
  "GenericInstance og args = map_option (\<lambda>n. ELEMENT_TYPE_GENERICINST # og @ n @ concat args) (CorSigCompressData (of_nat (length args)))"
  by (auto simp: GenericInstance_def PushCompressedData_def PushRawByte_def Push_def option.map_comp comp_def)

lemma Method_eq:
  "Method conv ret args =
     map_option (\<lambda>n. calling_convection_code conv # n @ ret @ concat args) (CorSigCompressData (of_nat (length args)))"
  by (auto simp: Method_def PushCompressedData_def PushRawByte_def Push_def option.map_comp comp_def)

lemmas builder_eqs = TokenType_eq GenericArgument_eq GenericInstance_eq Method_eq

lemma those_eq_Some: "those xs = Some ys \<longleftrightarrow> xs = map Some ys"
  by (induction xs arbitrary: ys) (auto split: option.splits)

text \<open>The first byte of a type is never one that announces a modifier, a reference or a sentinel.\<close>

definition announces :: "byte \<Rightarrow> bool" where
  "announces b \<longleftrightarrow> b \<in> {ELEMENT_TYPE_CMOD_OPT, ELEMENT_TYPE_CMOD_REQD, ELEMENT_TYPE_TYPEDBYREF, ELEMENT_TYPE_BYREF,
     ELEMENT_TYPE_PTR, ELEMENT_TYPE_VOID, ELEMENT_TYPE_SENTINEL, ELEMENT_TYPE_PINNED}"

lemma build_head:
  assumes "build ty = Some bs" "element ty"
  obtains b r where "bs = b # r" "\<not> announces b"
proof (cases ty)
  case (Builtin x)
  with assms that show thesis by (cases x) (auto simp: Type_def announces_def)
next
  case (Token m t)
  with assms that show thesis by (cases m) (auto simp: TokenType_eq announces_def)
next
  case (GenArg m t)
  with assms that show thesis by (cases m) (auto simp: GenericArgument_eq announces_def)
next
  case (Inst m t args)
  with assms that show thesis by (auto simp: GenericInstance_eq announces_def bind_eq_Some_conv)
qed (use assms that in \<open>auto simp: Array_def Push_def PushRawByte_def announces_def\<close>)

end
