(* ===== verification/Signature_Parser.thy ===== *)
theory Signature_Parser
  imports Signature_Builder
begin

text \<open>
  Signatures that the profiler reads: the parser of method and local-variable signatures in
  \<open>clr_helpers.cpp\<close>. The cursor \<open>pbCur\<close> with its limit \<open>pbEnd\<close> is the list of the remaining bytes, and a result of
  \<open>None\<close> is \<open>false\<close>. The theorems: a signature written by the builder is read back segment by
  segment, and for any bytes the segments that are reported lie inside the signature, in order.
\<close>

section \<open>Bytes, numbers and tokens\<close>

fun ParseByte :: "byte list \<Rightarrow> (byte \<times> byte list) option" where
  "ParseByte [] = None"
| "ParseByte (b # pbCur) = Some (b, pbCur)"

definition ParseNumber :: "byte list \<Rightarrow> (u32 \<times> byte list) option" where
  "ParseNumber pbCur =
     Option.bind (ParseByte pbCur) (\<lambda>(b1, pbCur).
       if b1 = 0xff then None
       else if b1 AND 0x80 = 0 then Some (ucast b1, pbCur)
       else Option.bind (ParseByte pbCur) (\<lambda>(b2, pbCur).
         if b1 AND 0x40 = 0 then Some (push_bit 8 (ucast (b1 AND 0x3f)) OR ucast b2, pbCur)
         else if b1 AND 0x20 \<noteq> 0 then None
         else Option.bind (ParseByte pbCur) (\<lambda>(b3, pbCur).
           Option.bind (ParseByte pbCur) (\<lambda>(b4, pbCur).
             Some (push_bit 24 (ucast (b1 AND 0x1f)) OR push_bit 16 (ucast b2) OR push_bit 8 (ucast b3) OR ucast b4,
                   pbCur)))))"

text \<open>The table tag and the index of an encoded type token.\<close>

definition ParseTypeDefOrRefEncoded :: "byte list \<Rightarrow> ((byte \<times> u32) \<times> byte list) option" where
  "ParseTypeDefOrRefEncoded pbCur =
     map_option (\<lambda>(encoded, pbCur). ((ucast (encoded AND 0x3), drop_bit 2 encoded), pbCur)) (ParseNumber pbCur)"

lemma ParseByte_shorter: "ParseByte bs = Some (b, r) \<Longrightarrow> length bs = Suc (length r)"
  by (cases bs) auto

lemma bind_ParseByte: "Option.bind (ParseByte bs) f = (case bs of [] \<Rightarrow> None | b # r \<Rightarrow> f (b, r))"
  by (cases bs) auto

lemma ParseNumber_shorter: "ParseNumber bs = Some (n, r) \<Longrightarrow> length r < length bs"
  unfolding ParseNumber_def bind_ParseByte prod.case by (fastforce split: list.splits if_splits)

lemma ParseTypeDefOrRefEncoded_shorter: "ParseTypeDefOrRefEncoded bs = Some (t, r) \<Longrightarrow> length r < length bs"
  by (auto simp: ParseTypeDefOrRefEncoded_def dest!: ParseNumber_shorter)

section \<open>Types\<close>

definition simple_type :: "byte \<Rightarrow> bool" where
  "simple_type elem_type \<longleftrightarrow>
     elem_type \<in> {ELEMENT_TYPE_BOOLEAN, ELEMENT_TYPE_CHAR, ELEMENT_TYPE_I1, ELEMENT_TYPE_U1, ELEMENT_TYPE_U2,
       ELEMENT_TYPE_I2, ELEMENT_TYPE_I4, ELEMENT_TYPE_U4, ELEMENT_TYPE_I8, ELEMENT_TYPE_U8, ELEMENT_TYPE_R4,
       ELEMENT_TYPE_R8, ELEMENT_TYPE_I, ELEMENT_TYPE_U, ELEMENT_TYPE_STRING, ELEMENT_TYPE_OBJECT}"

definition is_cmod :: "byte \<Rightarrow> bool" where
  "is_cmod b \<longleftrightarrow> b = ELEMENT_TYPE_CMOD_OPT \<or> b = ELEMENT_TYPE_CMOD_REQD"

text \<open>The part of \<open>ParseType\<close> before the argument loop of a generic instance: their number.\<close>

definition generic_instance_head :: "byte list \<Rightarrow> (u32 \<times> byte list) option" where
  "generic_instance_head pbCur =
     Option.bind (ParseByte pbCur) (\<lambda>(elem_type, pbCur).
       if elem_type \<noteq> ELEMENT_TYPE_CLASS \<and> elem_type \<noteq> ELEMENT_TYPE_VALUETYPE then None
       else Option.bind (ParseTypeDefOrRefEncoded pbCur) (\<lambda>(_, pbCur). ParseNumber pbCur))"

lemma generic_instance_head_shorter: "generic_instance_head bs = Some (n, r) \<Longrightarrow> length r < length bs"
  by (auto simp: generic_instance_head_def bind_eq_Some_conv split: if_splits
    dest!: ParseByte_shorter ParseTypeDefOrRefEncoded_shorter ParseNumber_shorter)

text \<open>\<open>ParseTypes n\<close> is the loop over \<open>n\<close> generic arguments. An element type that the switch does not list is accepted.\<close>

function ParseType :: "byte list \<Rightarrow> byte list option"
  and ParseTypes :: "nat \<Rightarrow> byte list \<Rightarrow> byte list option" where
  "ParseType pbCur =
     (case pbCur of
        [] \<Rightarrow> None
      | elem_type # pbCur \<Rightarrow>
          if simple_type elem_type then Some pbCur
          else if elem_type = ELEMENT_TYPE_PTR then None
          else if elem_type = ELEMENT_TYPE_CLASS \<or> elem_type = ELEMENT_TYPE_VALUETYPE
          then map_option snd (ParseTypeDefOrRefEncoded pbCur)
          else if elem_type = ELEMENT_TYPE_FNPTR \<or> elem_type = ELEMENT_TYPE_ARRAY then None
          else if elem_type = ELEMENT_TYPE_SZARRAY
          then (if pbCur = [] \<or> is_cmod (hd pbCur) then None else ParseType pbCur)
          else if elem_type = ELEMENT_TYPE_GENERICINST
          then (case generic_instance_head pbCur of
                  None \<Rightarrow> None
                | Some (number, pbCur) \<Rightarrow> ParseTypes (unat number) pbCur)
          else if elem_type = ELEMENT_TYPE_VAR \<or> elem_type = ELEMENT_TYPE_MVAR
          then map_option snd (ParseNumber pbCur)
          else Some pbCur)"
| "ParseTypes n pbCur =
     (case n of
        0 \<Rightarrow> Some pbCur
      | Suc k \<Rightarrow> (case ParseType pbCur of None \<Rightarrow> None | Some pbCur \<Rightarrow> ParseTypes k pbCur))"
  by pat_completeness auto
termination
proof (relation "measures [\<lambda>x. case x of Inl bs \<Rightarrow> length bs | Inr (n, bs) \<Rightarrow> length bs, \<lambda>x. case x of Inl bs \<Rightarrow> 0 | Inr (n, bs) \<Rightarrow> n]",
    goal_cases)
  case (5 n bs k r)
  have "length r \<le> length bs" if "ParseType_ParseTypes_dom (Inl bs)" "ParseType bs = Some r" for bs r
    using that
  proof (induction bs arbitrary: r rule: ParseType_ParseTypes.pinduct(1)
      [where Q = "\<lambda>n bs. \<forall>r. ParseTypes n bs = Some r \<longrightarrow> length r \<le> length bs"])
    case (1 bs)
    show ?case
      using 1(2-)
      by (auto simp: ParseType.psimps [OF 1(1)] split: list.splits if_splits option.splits prod.splits
        dest!: ParseTypeDefOrRefEncoded_shorter ParseNumber_shorter)
        (fastforce dest!: generic_instance_head_shorter)+
  next
    case (2 n bs)
    show ?case
      using 2(2-) by (fastforce simp: ParseTypes.psimps [OF 2(1)] split: nat.splits option.splits)
  qed
  with 5 have "length r \<le> length bs" by blast
  with 5 show ?case by auto
qed (auto dest!: generic_instance_head_shorter)

declare ParseType.simps [simp del] ParseTypes.simps [simp del]

lemma ParseTypes_simps [simp]:
  "ParseTypes 0 bs = Some bs"
  "ParseTypes (Suc k) bs = (case ParseType bs of None \<Rightarrow> None | Some r \<Rightarrow> ParseTypes k r)"
  by (simp_all add: ParseTypes.simps)

definition ParseParamOrLocal :: "byte list \<Rightarrow> byte list option" where
  "ParseParamOrLocal pbCur =
     (if pbCur = [] then None
      else if is_cmod (hd pbCur) then None
      else if hd pbCur = ELEMENT_TYPE_TYPEDBYREF then None
      else let pbCur = (if hd pbCur = ELEMENT_TYPE_BYREF then tl pbCur else pbCur)
           in if pbCur = [] then None
              else ParseType (if hd pbCur = ELEMENT_TYPE_PTR then tl pbCur else pbCur))"

definition ParseRetType :: "byte list \<Rightarrow> byte list option" where
  "ParseRetType pbCur =
     (if pbCur = [] then None
      else if is_cmod (hd pbCur) then None
      else if hd pbCur = ELEMENT_TYPE_TYPEDBYREF then None
      else if hd pbCur = ELEMENT_TYPE_VOID then Some (tl pbCur)
      else ParseType (if hd pbCur = ELEMENT_TYPE_BYREF then tl pbCur else pbCur))"

section \<open>Method and local signatures\<close>

text \<open>A segment of a signature; its base pointer is the signature it came from.\<close>

record TypeSignature =
  ts_offset :: u32
  ts_length :: u32

text \<open>The segment from one cursor to a later one, with the arithmetic of the code.\<close>

definition segment :: "byte list \<Rightarrow> byte list \<Rightarrow> byte list \<Rightarrow> TypeSignature" where
  "segment pbBase pbStart pbCur =
     (let len = of_nat (length pbStart - length pbCur)
      in \<lparr>ts_offset = of_nat (length pbBase - length pbCur) - len, ts_length = len\<rparr>)"

definition GetSignature :: "byte list \<Rightarrow> TypeSignature \<Rightarrow> byte list" where
  "GetSignature pbBase ts = take (unat (ts_length ts)) (drop (unat (ts_offset ts)) pbBase)"

record FunctionMethodSignature =
  pbBase :: "byte list"
  numberOfTypeArguments :: u32
  numberOfArguments :: u32
  returnValue :: TypeSignature
  params :: "TypeSignature list"

definition new_method_signature :: "byte list \<Rightarrow> FunctionMethodSignature" where
  "new_method_signature pb =
     \<lparr>pbBase = pb, numberOfTypeArguments = 0, numberOfArguments = 0, returnValue = \<lparr>ts_offset = 0, ts_length = 0\<rparr>, params = []\<rparr>"

text \<open>The parameter loop: what is parsed before a failure stays in \<open>params\<close>.\<close>

fun parse_params :: "nat \<Rightarrow> bool \<Rightarrow> byte list \<Rightarrow> FunctionMethodSignature \<Rightarrow> hresult \<times> FunctionMethodSignature" where
  "parse_params 0 fEncounteredSentinal pbCur sig = (S_OK, sig)"
| "parse_params (Suc n) fEncounteredSentinal pbCur sig =
     (if pbCur = [] then (E_FAIL, sig)
      else if hd pbCur = ELEMENT_TYPE_SENTINEL \<and> fEncounteredSentinal then (E_FAIL, sig)
      else let sentinel = (hd pbCur = ELEMENT_TYPE_SENTINEL);
               pbParam = (if sentinel then tl pbCur else pbCur)
           in case ParseParamOrLocal pbParam of
                None \<Rightarrow> (E_FAIL, sig)
              | Some pbCur \<Rightarrow>
                  parse_params n (fEncounteredSentinal \<or> sentinel) pbCur
                    (sig\<lparr>params := params sig @ [segment (pbBase sig) pbParam pbCur]\<rparr>))"

definition parse_after_type_arguments :: "byte list \<Rightarrow> FunctionMethodSignature \<Rightarrow> hresult \<times> FunctionMethodSignature" where
  "parse_after_type_arguments pbCur sig =
     (case ParseNumber pbCur of
        None \<Rightarrow> (E_FAIL, sig)
      | Some (param_count, pbRet) \<Rightarrow>
          let sig = sig\<lparr>numberOfArguments := param_count\<rparr>
          in case ParseRetType pbRet of
               None \<Rightarrow> (E_FAIL, sig)
             | Some pbCur \<Rightarrow>
                 parse_params (unat param_count) False pbCur (sig\<lparr>returnValue := segment (pbBase sig) pbRet pbCur\<rparr>))"

definition TryParse :: "FunctionMethodSignature \<Rightarrow> hresult \<times> FunctionMethodSignature" where
  "TryParse sig =
     (case ParseByte (pbBase sig) of
        None \<Rightarrow> (E_FAIL, sig)
      | Some (elem_type, pbCur) \<Rightarrow>
          if elem_type AND IMAGE_CEE_CS_CALLCONV_GENERIC \<noteq> 0
          then (case ParseNumber pbCur of
                  None \<Rightarrow> (E_FAIL, sig)
                | Some (gen_param_count, pbCur) \<Rightarrow>
                    parse_after_type_arguments pbCur (sig\<lparr>numberOfTypeArguments := gen_param_count\<rparr>))
          else parse_after_type_arguments pbCur sig)"

definition LocalVarSig :: byte where "LocalVarSig = 0x07"

fun parse_locals :: "nat \<Rightarrow> byte list \<Rightarrow> byte list \<Rightarrow> TypeSignature list \<Rightarrow> hresult \<times> TypeSignature list" where
  "parse_locals 0 base pbCur locals = (S_OK, locals)"
| "parse_locals (Suc n) base pbCur locals =
     (if pbCur = [] then (E_FAIL, locals)
      else case ParseParamOrLocal pbCur of
             None \<Rightarrow> (E_FAIL, locals)
           | Some pbNext \<Rightarrow> parse_locals n base pbNext (locals @ [segment base pbCur pbNext]))"

definition TryParseLocals :: "byte list \<Rightarrow> TypeSignature list \<Rightarrow> hresult \<times> TypeSignature list" where
  "TryParseLocals base locals =
     (case ParseByte base of
        None \<Rightarrow> (E_FAIL, locals)
      | Some (temp, pbCur) \<Rightarrow>
          if temp \<noteq> LocalVarSig then (E_FAIL, locals)
          else (case ParseNumber pbCur of
                  None \<Rightarrow> (E_FAIL, locals)
                | Some (get_locals_count, pbCur) \<Rightarrow> parse_locals (unat get_locals_count) base pbCur locals))"

definition CallingConvention :: "FunctionMethodSignature \<Rightarrow> byte" where
  "CallingConvention sig = (if pbBase sig = [] then 0 else hd (pbBase sig))"

text \<open>
  The comparison operator compares with \<open>memcmp\<close>, whose result is 0 for equal memory, and converts that result to
  \<open>bool\<close>. The other signature is read over the length of this one; beyond its end the comparison is a fault.
\<close>

definition signature_equal_operator :: "FunctionMethodSignature \<Rightarrow> FunctionMethodSignature \<Rightarrow> bool option" where
  "signature_equal_operator sig other =
     (if length (pbBase other) < length (pbBase sig) then None
      else Some (pbBase sig \<noteq> take (length (pbBase sig)) (pbBase other)))"

section \<open>Reading what the builder wrote\<close>

lemma byte_bit_tests:
  fixes b :: byte
  shows "b AND 0x40 = 0 \<longleftrightarrow> \<not> bit b 6" and "b AND 0x20 = 0 \<longleftrightarrow> \<not> bit b 5"
  by (auto simp: u8_bits byte_bits)

lemma ParseNumber_compress:
  assumes "CorSigCompressData x = Some bs"
  shows "ParseNumber (bs @ rest) = Some (x, rest)"
  using assms
proof (cases rule: compress_shape)
  case (small b)
  then have "b \<noteq> 0xff" by auto
  with small show ?thesis by (simp add: ParseNumber_def byte_classes)
next
  case (medium b0 b1)
  then have "b0 \<noteq> 0xff" by auto
  with medium show ?thesis by (simp add: ParseNumber_def byte_classes byte_bit_tests two_bytes_def)
next
  case (large b0 b1 b2 b3)
  then have "b0 \<noteq> 0xff" by auto
  with large show ?thesis by (simp add: ParseNumber_def byte_classes byte_bit_tests four_bytes_def)
qed

lemma ParseTypeDefOrRefEncoded_token:
  assumes "CorSigCompressToken tk = Some bs"
  shows "map_option snd (ParseTypeDefOrRefEncoded (bs @ rest)) = Some rest"
  using ParseNumber_compress [of "encoded_token tk" bs rest] assms
  by (simp add: compress_token_eq ParseTypeDefOrRefEncoded_def)

lemma ParseTypes_concat:
  assumes "\<And>b rest. b \<in> set bs \<Longrightarrow> ParseType (b @ rest) = Some rest"
  shows "ParseTypes (length bs) (concat bs @ rest) = Some rest"
  using assms by (induction bs) auto

lemma ParseType_build:
  "build ty = Some bs \<Longrightarrow> element ty \<Longrightarrow> ParseType (bs @ rest) = Some rest"
proof (induction ty arbitrary: bs rest)
  case (Builtin b)
  then show ?case by (cases b) (auto simp: Type_def ParseType.simps simple_type_def)
next
  case (Token m t)
  then obtain tk where "CorSigCompressToken t = Some tk" "bs = token_mode_code m # tk"
    by (auto simp: TokenType_eq)
  with ParseTypeDefOrRefEncoded_token show ?case by (cases m) (simp_all add: ParseType.simps simple_type_def)
next
  case (SzArray ty)
  then obtain b where b: "build ty = Some b" "bs = ELEMENT_TYPE_SZARRAY # b"
    by (auto simp: Array_def Push_def PushRawByte_def)
  with SzArray.prems obtain h r where "b = h # r" "\<not> announces h" by (auto elim: build_head)
  moreover have "ParseType (b @ rest) = Some rest" using SzArray.IH [OF b(1)] SzArray.prems by simp
  ultimately show ?case unfolding b(2)
    by (subst ParseType.simps) (auto simp: simple_type_def is_cmod_def announces_def)
next
  case (GenArg m n)
  then obtain k where "CorSigCompressData n = Some k" "bs = generic_mode_code m # k"
    by (auto simp: GenericArgument_eq)
  with ParseNumber_compress show ?case by (cases m) (simp_all add: ParseType.simps simple_type_def)
next
  case (Inst m t args)
  then obtain tk abs n where tk: "CorSigCompressToken t = Some tk" and abs: "map build args = map Some abs"
    and n: "CorSigCompressData (of_nat (length abs)) = Some n"
    and bs: "bs = ELEMENT_TYPE_GENERICINST # token_mode_code m # tk @ n @ concat abs"
    by (auto simp: bind_eq_Some_conv TokenType_eq those_eq_Some GenericInstance_eq)
  have len: "length args = length abs" using abs by (metis length_map)
  then have "unat (of_nat (length abs) :: u32) = length abs" using Inst.prems(2) by (simp add: unat_of_nat)
  moreover have "generic_instance_head (token_mode_code m # tk @ n @ concat abs @ rest) =
      Some (of_nat (length abs), concat abs @ rest)"
    using ParseTypeDefOrRefEncoded_token [OF tk, of "n @ concat abs @ rest"] ParseNumber_compress [OF n, of "concat abs @ rest"]
    by (cases m) (auto simp: generic_instance_head_def)
  moreover have "ParseTypes (length abs) (concat abs @ rest) = Some rest"
  proof (rule ParseTypes_concat)
    fix b rest assume "b \<in> set abs"
    then obtain ty where "ty \<in> set args" "build ty = Some b"
      using abs by (metis (no_types, lifting) image_iff list.set_map)
    with Inst show "ParseType (b @ rest) = Some rest" by (auto simp: list_all_iff)
  qed
  ultimately show ?case unfolding bs by (subst ParseType.simps) (simp add: simple_type_def)
qed simp

lemma ParseParamOrLocal_build:
  assumes "build ty = Some bs" "parameter ty"
  shows "ParseParamOrLocal (bs @ rest) = Some rest" and "bs \<noteq> []" and "hd bs \<noteq> ELEMENT_TYPE_SENTINEL"
proof -
  have "ParseParamOrLocal (bs @ rest) = Some rest \<and> bs \<noteq> [] \<and> hd bs \<noteq> ELEMENT_TYPE_SENTINEL"
  proof (cases "element ty")
    case True
    with assms obtain h r where "bs = h # r" "\<not> announces h" by (auto elim: build_head)
    with ParseType_build [OF assms(1) True, of rest] show ?thesis
      by (auto simp: ParseParamOrLocal_def announces_def is_cmod_def)
  next
    case False
    with assms obtain t b where t: "ty = Ref t" "element t" "build t = Some b" "bs = ELEMENT_TYPE_BYREF # b"
      by (auto simp: parameter_def ByRef_def Push_def PushRawByte_def)
    then obtain h r where "b = h # r" "\<not> announces h" by (auto elim: build_head)
    with t ParseType_build [OF t(3,2), of rest] show ?thesis
      by (auto simp: ParseParamOrLocal_def announces_def is_cmod_def)
  qed
  then show "ParseParamOrLocal (bs @ rest) = Some rest" and "bs \<noteq> []" and "hd bs \<noteq> ELEMENT_TYPE_SENTINEL" by auto
qed

lemma ParseRetType_build:
  assumes "build ty = Some bs" "return_type_ok ty"
  shows "ParseRetType (bs @ rest) = Some rest"
proof (cases "element ty")
  case True
  with assms obtain h r where "bs = h # r" "\<not> announces h" by (auto elim: build_head)
  with ParseType_build [OF assms(1) True, of rest] show ?thesis by (auto simp: ParseRetType_def announces_def is_cmod_def)
next
  case False
  with assms consider "ty = Builtin VoidT" | t b where "ty = Ref t" "element t" "build t = Some b" "bs = ELEMENT_TYPE_BYREF # b"
    by (auto simp: return_type_ok_def parameter_def ByRef_def Push_def PushRawByte_def)
  then show ?thesis
  proof cases
    case 1
    with assms show ?thesis by (auto simp: Type_def ParseRetType_def is_cmod_def)
  next
    case 2
    with ParseType_build [OF 2(3,2), of rest] show ?thesis by (auto simp: ParseRetType_def is_cmod_def)
  qed
qed

lemma segment_bytes:
  assumes "base = p @ s @ r" "length base < 2 ^ 32"
  shows "GetSignature base (segment base (s @ r) r) = s"
proof -
  have "unat (of_nat (length s) :: u32) = length s" "unat (of_nat (length p + length s) - of_nat (length s) :: u32) = length p"
    using assms by (simp_all add: unat_of_nat)
  with assms(1) show ?thesis by (simp add: GetSignature_def segment_def Let_def)
qed

lemma parse_params_build:
  assumes "list_all2 (\<lambda>ty b. build ty = Some b \<and> parameter ty) tys bs"
    and "pbBase sig = p @ concat bs" "length (pbBase sig) < 2 ^ 32"
  shows "\<exists>segs. parse_params (length bs) seen (concat bs) sig = (S_OK, sig\<lparr>params := params sig @ segs\<rparr>) \<and>
    map (GetSignature (pbBase sig)) segs = bs"
  using assms
proof (induction tys bs arbitrary: p sig rule: list_all2_induct)
  case (Cons ty tys b bs)
  note parse = ParseParamOrLocal_build(1) [of ty b "concat bs"] ParseParamOrLocal_build(2,3) [of ty b]
  let ?seg = "segment (pbBase sig) (b @ concat bs) (concat bs)"
  from Cons(3) [where sig = "sig\<lparr>params := params sig @ [?seg]\<rparr>" and p = "p @ b"] Cons.prems obtain segs where
    "parse_params (length bs) seen (concat bs) (sig\<lparr>params := params sig @ [?seg]\<rparr>) =
       (S_OK, sig\<lparr>params := params sig @ [?seg] @ segs\<rparr>)"
    and "map (GetSignature (pbBase sig)) segs = bs" by auto
  moreover have "GetSignature (pbBase sig) ?seg = b" using segment_bytes [of "pbBase sig" p b "concat bs"] Cons.prems by simp
  ultimately show ?case
    using parse Cons.hyps by (intro exI [of _ "?seg # segs"]) (auto simp: Let_def)
qed simp

text \<open>C37: a method signature written by the builder is read back exactly. For any return type and any parameter
  types that the builder can encode, parsing succeeds with the right number of arguments, no type arguments, the
  return segment holding exactly the bytes of the return type and the parameter segments exactly the
  bytes of the parameter types, in order.\<close>

theorem built_signature_is_parsed:
  assumes "build ret = Some rb" "return_type_ok ret"
    and "list_all2 (\<lambda>ty b. build ty = Some b \<and> parameter ty) tys bs"
    and "Method conv rb bs = Some blob" "length bs \<le> 0x1FFFFFFF" "length blob < 2 ^ 32"
  shows "\<exists>sig. TryParse (new_method_signature blob) = (S_OK, sig) \<and>
    numberOfTypeArguments sig = 0 \<and> numberOfArguments sig = of_nat (length tys) \<and>
    GetSignature blob (returnValue sig) = rb \<and> map (GetSignature blob) (params sig) = bs \<and>
    CallingConvention sig = calling_convection_code conv"
proof -
  obtain n where n: "CorSigCompressData (of_nat (length bs)) = Some n"
    and blob: "blob = calling_convection_code conv # n @ rb @ concat bs" using assms(4) by (auto simp: Method_eq)
  have len: "unat (of_nat (length bs) :: u32) = length bs" using assms(5) by (simp add: unat_of_nat)
  let ?seg = "segment blob (rb @ concat bs) (concat bs)"
  let ?sig = "(new_method_signature blob)\<lparr>numberOfArguments := of_nat (length bs), returnValue := ?seg\<rparr>"
  from parse_params_build [OF assms(3), of ?sig "calling_convection_code conv # n @ rb" False] assms(6)
  obtain segs where segs: "parse_params (length bs) False (concat bs) ?sig = (S_OK, ?sig\<lparr>params := segs\<rparr>)"
    "map (GetSignature blob) segs = bs" by (auto simp: new_method_signature_def blob)
  have seg: "GetSignature blob ?seg = rb"
    using segment_bytes [of blob "calling_convection_code conv # n" rb "concat bs"] assms(6) by (simp add: blob)
  have conv: "calling_convection_code conv AND IMAGE_CEE_CS_CALLCONV_GENERIC = 0" by (cases conv) simp_all
  have base: "pbBase (new_method_signature blob) = blob" by (simp add: new_method_signature_def)
  have first: "ParseByte blob = Some (calling_convection_code conv, n @ rb @ concat bs)" by (simp add: blob)
  have "TryParse (new_method_signature blob) = (S_OK, ?sig\<lparr>params := segs\<rparr>)"
    using first ParseNumber_compress [OF n, of "rb @ concat bs"] ParseRetType_build [OF assms(1,2), of "concat bs"] segs(1) conv
    by (simp add: TryParse_def parse_after_type_arguments_def base len)
  moreover have "length tys = length bs" using assms(3) by (rule list_all2_lengthD)
  ultimately show ?thesis
    using seg segs(2) by (simp add: CallingConvention_def new_method_signature_def blob)
qed

definition sample_types :: "sig_type list" where
  "sample_types = [Builtin StringT, Ref (Token ClassMode 0x01000012), Inst ClassMode 0x02000005 [SzArray (Builtin ByteT), GenArg MethodArg 1]]"

definition sample_blobs :: "blob list" where
  "sample_blobs = [[0x0e], [0x10, 0x12, 0x49], [0x15, 0x12, 0x14, 0x02, 0x1d, 0x05, 0x1e, 0x01]]"

definition sample_signature :: blob where
  "sample_signature = 0x20 # 0x03 # 0x01 # concat sample_blobs"

lemma sample_built:
  "list_all2 (\<lambda>ty b. build ty = Some b \<and> parameter ty) sample_types sample_blobs"
  "Method Instance (Type VoidT) sample_blobs = Some sample_signature"
  by (simp_all add: sample_types_def sample_blobs_def sample_signature_def builder_eqs Type_def Array_def ByRef_def Push_def
    PushRawByte_def parameter_def CorSigCompressToken_def CorSigCompressData_def RidFromToken_def TypeFromToken_def
    CorSigDecodeTokenType_def mdtTypeDef_def mdtTypeRef_def mdtTypeSpec_def mdtBaseType_def Let_def)

theorem built_signature_is_parsed_witness:
  "\<exists>sig. TryParse (new_method_signature sample_signature) = (S_OK, sig) \<and> numberOfArguments sig = 3 \<and>
     GetSignature sample_signature (returnValue sig) = [0x01] \<and>
     map (GetSignature sample_signature) (params sig) = sample_blobs"
proof -
  have "length sample_blobs \<le> 0x1FFFFFFF" "length sample_signature < 2 ^ 32"
    by (simp_all add: sample_blobs_def sample_signature_def)
  from built_signature_is_parsed [OF _ _ sample_built this, of "Builtin VoidT"] show ?thesis
    by (auto simp: return_type_ok_def Type_def sample_types_def)
qed

section \<open>Any signature\<close>

lemma ParseType_shorter:
  "ParseType bs = Some r \<Longrightarrow> length r < length bs" "ParseTypes n bs = Some r \<Longrightarrow> length r \<le> length bs"
proof (induction bs and n bs arbitrary: r and r rule: ParseType_ParseTypes.induct)
  case (1 bs)
  show ?case
    using 1
    by (auto simp: ParseType.simps [of bs] split: list.splits if_splits option.splits prod.splits
      dest!: ParseTypeDefOrRefEncoded_shorter ParseNumber_shorter)
      (fastforce dest!: generic_instance_head_shorter)+
next
  case (2 n bs)
  then show ?case by (cases n) (fastforce split: option.splits)+
qed

lemma ParseParamOrLocal_shorter: "ParseParamOrLocal bs = Some r \<Longrightarrow> length r < length bs"
  by (cases bs; cases "tl bs") (auto simp: ParseParamOrLocal_def Let_def split: if_splits dest!: ParseType_shorter(1))

lemma ParseRetType_shorter: "ParseRetType bs = Some r \<Longrightarrow> length r < length bs"
  by (cases bs) (auto simp: ParseRetType_def split: if_splits dest!: ParseType_shorter(1))

text \<open>Segments that are non-empty, do not overlap, follow each other and end before \<open>hi\<close>.\<close>

fun segments_in_order :: "nat \<Rightarrow> TypeSignature list \<Rightarrow> nat \<Rightarrow> bool" where
  "segments_in_order lo [] hi \<longleftrightarrow> lo \<le> hi"
| "segments_in_order lo (t # ts) hi \<longleftrightarrow>
     lo \<le> unat (ts_offset t) \<and> 0 < unat (ts_length t) \<and>
     segments_in_order (unat (ts_offset t) + unat (ts_length t)) ts hi"

lemma segments_in_order_low: "segments_in_order lo ts hi \<Longrightarrow> lo' \<le> lo \<Longrightarrow> segments_in_order lo' ts hi"
  by (cases ts) auto

lemma segments_in_order_append:
  "segments_in_order lo (ts @ [t]) hi \<longleftrightarrow>
     segments_in_order lo ts (unat (ts_offset t)) \<and> 0 < unat (ts_length t) \<and> unat (ts_offset t) + unat (ts_length t) \<le> hi"
  by (induction lo ts hi rule: segments_in_order.induct) auto

lemma segments_in_order_high: "segments_in_order lo ts hi \<Longrightarrow> hi \<le> hi' \<Longrightarrow> segments_in_order lo ts hi'"
  by (induction lo ts hi rule: segments_in_order.induct) auto

lemma segment_numbers:
  assumes "length r < length st" "length st \<le> length base" "length base < 2 ^ 32"
  shows "unat (ts_offset (segment base st r)) = length base - length st" "unat (ts_length (segment base st r)) = length st - length r"
proof -
  define a b where "a = length base - length st" and "b = length st - length r"
  have ab: "length base - length r = a + b" "a + b < 2 ^ 32" using assms by (auto simp: a_def b_def)
  then have "unat (of_nat (a + b) - of_nat b :: u32) = a" "unat (of_nat b :: u32) = b" by (simp_all add: unat_of_nat)
  then show "unat (ts_offset (segment base st r)) = length base - length st" "unat (ts_length (segment base st r)) = length st - length r"
    by (simp_all add: segment_def Let_def ab(1) a_def [symmetric] b_def [symmetric])
qed

text \<open>Adding the segment of one more parameter.\<close>

lemma segments_snoc:
  assumes "segments_in_order lo ts (length base - length cur)" "length st \<le> length cur" "length cur \<le> length base"
    and "length r < length st" "length base < 2 ^ 32"
  shows "segments_in_order lo (ts @ [segment base st r]) (length base - length r)"
proof -
  have "segments_in_order lo ts (length base - length st)" using assms by (auto intro: segments_in_order_high)
  with assms show ?thesis by (simp add: segments_in_order_append segment_numbers)
qed

lemma parse_params_segments:
  assumes "parse_params n seen cur sig = (hr, sig')" "length cur \<le> length (pbBase sig)" "length (pbBase sig) < 2 ^ 32"
    and "segments_in_order lo (params sig) (length (pbBase sig) - length cur)"
  shows "segments_in_order lo (params sig') (length (pbBase sig)) \<and> returnValue sig' = returnValue sig \<and>
    numberOfArguments sig' = numberOfArguments sig \<and> (SUCCEEDED hr \<longrightarrow> length (params sig') = length (params sig) + n)"
  using assms
proof (induction n seen cur sig rule: parse_params.induct)
  case (1 seen cur sig)
  then show ?case by (auto intro: segments_in_order_high)
next
  case (2 n seen cur sig)
  note stop = segments_in_order_high [OF "2.prems"(4)]
  show ?case
  proof (cases "cur = [] \<or> hd cur = ELEMENT_TYPE_SENTINEL \<and> seen")
    case True
    with "2.prems"(1) have "hr = E_FAIL" "sig' = sig" by (auto split: if_splits)
    with stop show ?thesis by simp
  next
    case False
    let ?st = "if hd cur = ELEMENT_TYPE_SENTINEL then tl cur else cur"
    show ?thesis
    proof (cases "ParseParamOrLocal ?st")
      case None
      with False "2.prems"(1) have "hr = E_FAIL" "sig' = sig" by (auto simp: Let_def split: if_splits)
      with stop show ?thesis by simp
    next
      case (Some r)
      have st: "length ?st \<le> length cur" by simp
      have r: "length r < length ?st" using ParseParamOrLocal_shorter [OF Some] .
      from segments_snoc [OF "2.prems"(4) st "2.prems"(2) r "2.prems"(3)] r st "2.prems"(2)
      show ?thesis using "2.IH" [OF _ _ refl refl Some] "2.prems"(1,3) False Some by (auto simp: Let_def)
    qed
  qed
qed

lemma after_type_arguments_segments:
  assumes "parse_after_type_arguments cur sig = (hr, sig')" "length cur < length (pbBase sig)" "length (pbBase sig) < 2 ^ 32"
    and "params sig = []"
  shows "segments_in_order 0 (params sig') (length (pbBase sig)) \<and>
    (SUCCEEDED hr \<longrightarrow> segments_in_order 1 (returnValue sig' # params sig') (length (pbBase sig)) \<and>
       length (params sig') = unat (numberOfArguments sig'))"
proof (cases "ParseNumber cur")
  case None
  with assms show ?thesis by (simp add: parse_after_type_arguments_def)
next
  case (Some x)
  then obtain count ret where x: "ParseNumber cur = Some (count, ret)" by (cases x) auto
  note ret = ParseNumber_shorter [OF x]
  show ?thesis
  proof (cases "ParseRetType ret")
    case None
    with x assms show ?thesis by (auto simp: parse_after_type_arguments_def Let_def)
  next
    case (Some r)
    note r = ParseRetType_shorter [OF Some]
    let ?sig = "sig\<lparr>numberOfArguments := count, returnValue := segment (pbBase sig) ret r\<rparr>"
    have parse: "parse_params (unat count) False r ?sig = (hr, sig')"
      using assms(1) x Some by (simp add: parse_after_type_arguments_def Let_def)
    have n: "unat (ts_offset (segment (pbBase sig) ret r)) = length (pbBase sig) - length ret"
      "unat (ts_length (segment (pbBase sig) ret r)) = length ret - length r"
      using segment_numbers [of r ret "pbBase sig"] r ret assms by simp_all
    from parse_params_segments [OF parse, of "length (pbBase sig) - length r"] r ret assms
    have *: "segments_in_order (length (pbBase sig) - length r) (params sig') (length (pbBase sig))"
      "returnValue sig' = segment (pbBase sig) ret r" "numberOfArguments sig' = count"
      "SUCCEEDED hr \<longrightarrow> length (params sig') = unat count" by auto
    have "length (pbBase sig) - length ret + (length ret - length r) = length (pbBase sig) - length r"
      using r ret assms(2) by simp
    with * n r ret assms(2) show ?thesis
      by (auto intro: segments_in_order_low)
  qed
qed

text \<open>Whatever the bytes, the segments that parsing reports are usable. They are non-empty, lie inside
  the signature and follow each other without overlap, also when parsing fails half way; when it succeeds the
  return type comes first and there are exactly as many parameter segments as the signature announces.\<close>

theorem parsed_segments_in_order:
  assumes "TryParse (new_method_signature base) = (hr, sig)" "length base < 2 ^ 32"
  shows "segments_in_order 0 (params sig) (length base) \<and>
    (SUCCEEDED hr \<longrightarrow> segments_in_order 1 (returnValue sig # params sig) (length base) \<and>
       length (params sig) = unat (numberOfArguments sig))"
proof (cases base)
  case Nil
  with assms show ?thesis by (auto simp: TryParse_def new_method_signature_def)
next
  case (Cons b cur)
  show ?thesis
  proof (cases "b AND IMAGE_CEE_CS_CALLCONV_GENERIC \<noteq> 0")
    case False
    with assms Cons after_type_arguments_segments [of cur "new_method_signature base" hr sig] show ?thesis
      by (simp add: TryParse_def new_method_signature_def)
  next
    case generic: True
    show ?thesis
    proof (cases "ParseNumber cur")
      case None
      with assms Cons generic show ?thesis by (auto simp: TryParse_def new_method_signature_def)
    next
      case (Some x)
      then obtain n r where x: "ParseNumber cur = Some (n, r)" by (cases x) auto
      with ParseNumber_shorter [OF x] assms Cons generic
        after_type_arguments_segments [of r "(new_method_signature base)\<lparr>numberOfTypeArguments := n\<rparr>" hr sig]
      show ?thesis by (simp add: TryParse_def new_method_signature_def)
    qed
  qed
qed

lemmas parse_loop_numeral =
  parse_params.simps(2) [of "pred_numeral k" for k, folded numeral_eq_Suc]
  parse_locals.simps(2) [of "pred_numeral k" for k, folded numeral_eq_Suc]

theorem parsed_segments_in_order_witness:
  "\<exists>hr sig. TryParse (new_method_signature [0x10, 0x01, 0x02, 0x01, 0x08, 0x1d]) = (hr, sig) \<and>
     \<not> SUCCEEDED hr \<and> segments_in_order 0 (params sig) 6 \<and> params sig = [\<lparr>ts_offset = 4, ts_length = 1\<rparr>]"
proof -
  let ?base = "[0x10, 0x01, 0x02, 0x01, 0x08, 0x1d] :: byte list"
  obtain hr sig where *: "TryParse (new_method_signature ?base) = (hr, sig)" by fastforce
  then have "hr = E_FAIL \<and> params sig = [\<lparr>ts_offset = 4, ts_length = 1\<rparr>]"
    by (auto simp: TryParse_def new_method_signature_def parse_after_type_arguments_def ParseNumber_def ParseRetType_def is_cmod_def
      ParseParamOrLocal_def ParseType.simps simple_type_def segment_def Let_def parse_loop_numeral)
  with * parsed_segments_in_order [OF *] show ?thesis by auto
qed

section \<open>Local variables\<close>

lemma parse_locals_build:
  assumes "list_all2 (\<lambda>ty b. build ty = Some b \<and> parameter ty) tys bs"
    and "base = p @ concat bs" "length base < 2 ^ 32"
  shows "\<exists>segs. parse_locals (length bs) base (concat bs) locals = (S_OK, locals @ segs) \<and> map (GetSignature base) segs = bs"
  using assms
proof (induction tys bs arbitrary: p locals rule: list_all2_induct)
  case (Cons ty tys b bs)
  note parse = ParseParamOrLocal_build(1) [of ty b "concat bs"] ParseParamOrLocal_build(2) [of ty b]
  let ?seg = "segment base (b @ concat bs) (concat bs)"
  from Cons(3) [where p = "p @ b" and locals = "locals @ [?seg]"] Cons.prems obtain segs where
    "parse_locals (length bs) base (concat bs) (locals @ [?seg]) = (S_OK, locals @ ?seg # segs)"
    and "map (GetSignature base) segs = bs" by auto
  moreover have "GetSignature base ?seg = b" using segment_bytes [of base p b "concat bs"] Cons.prems by simp
  ultimately show ?case using parse Cons.hyps by (intro exI [of _ "?seg # segs"]) auto
qed simp

text \<open>A pinned local is reported as two: its modifier is taken for a type of its own, every later segment is
  shifted, and the last local is never read although the call succeeds.\<close>

lemma pinned_local_is_split:
  "TryParseLocals [0x07, 0x02, ELEMENT_TYPE_PINNED, ELEMENT_TYPE_BYREF, ELEMENT_TYPE_U1, ELEMENT_TYPE_I4] [] =
     (S_OK, [\<lparr>ts_offset = 2, ts_length = 1\<rparr>, \<lparr>ts_offset = 3, ts_length = 2\<rparr>])"
  by (simp add: TryParseLocals_def LocalVarSig_def ParseNumber_def ParseParamOrLocal_def is_cmod_def ParseType.simps simple_type_def
    segment_def Let_def parse_loop_numeral)

text \<open>The comparison operator of signatures is inverted: a signature is never equal to itself.\<close>

lemma equality_operator_inverted: "signature_equal_operator sig sig = Some False"
  by (simp add: signature_equal_operator_def)

end
