(* ===== verification/Signature_Names.thy ===== *)
theory Signature_Names
  imports Signature_Parser Mini_Utf
begin

text \<open>
  What the profiler derives from a parsed segment: the printed type name that integrations are matched
  against (\<open>GetSigTypeTokName\<close>) and the element type with its flags (\<open>GetElementTypeAndFlags\<close>), both of
  \<open>clr_helpers.cpp\<close>. The name of a metadata token is a parameter. A read outside the bytes is \<open>None\<close>. The
  theorems: every type that the builder can write is printed as its abstract syntax prescribes, and its flags are
  those of its kind.
\<close>

section \<open>Type names\<close>

definition builtin_name :: "byte \<Rightarrow> wstring option" where
  "builtin_name b = map_of
     [(ELEMENT_TYPE_BOOLEAN, WStr ''System.Boolean''), (ELEMENT_TYPE_CHAR, WStr ''System.Char''),
      (ELEMENT_TYPE_I1, WStr ''System.SByte''), (ELEMENT_TYPE_U1, WStr ''System.Byte''),
      (ELEMENT_TYPE_U2, WStr ''System.UInt16''), (ELEMENT_TYPE_I2, WStr ''System.Int16''),
      (ELEMENT_TYPE_I4, WStr ''System.Int32''), (ELEMENT_TYPE_U4, WStr ''System.UInt32''),
      (ELEMENT_TYPE_I8, WStr ''System.Int64''), (ELEMENT_TYPE_U8, WStr ''System.UInt64''),
      (ELEMENT_TYPE_R4, WStr ''System.Single''), (ELEMENT_TYPE_R8, WStr ''System.Double''),
      (ELEMENT_TYPE_I, WStr ''System.IntPtr''), (ELEMENT_TYPE_U, WStr ''System.UIntPtr''),
      (ELEMENT_TYPE_STRING, WStr ''System.String''), (ELEMENT_TYPE_OBJECT, WStr ''System.Object'')] b"

text \<open>\<open>pbCur += n\<close>.\<close>

definition advance :: "byte list \<Rightarrow> u32 \<Rightarrow> byte list option" where
  "advance pbCur n = (if unat n \<le> length pbCur then Some (drop (unat n) pbCur) else None)"

definition read_token :: "byte list \<Rightarrow> (u32 \<times> byte list) option" where
  "read_token pbCur =
     Option.bind (CorSigUncompressToken_size pbCur) (\<lambda>(n, token). map_option (Pair token) (advance pbCur n))"

definition read_data :: "byte list \<Rightarrow> (u32 \<times> byte list) option" where
  "read_data pbCur =
     Option.bind (CorSigUncompressData_size pbCur) (\<lambda>(n, num). map_option (Pair num) (advance pbCur n))"

lemma advance_le: "advance bs n = Some r \<Longrightarrow> length r \<le> length bs"
  by (auto simp: advance_def split: if_splits)

lemma read_le: "read_token bs = Some (t, r) \<Longrightarrow> length r \<le> length bs" "read_data bs = Some (n, r) \<Longrightarrow> length r \<le> length bs"
  by (auto simp: read_token_def read_data_def bind_eq_Some_conv dest!: advance_le)

text \<open>The tests for a leading \<open>BYREF\<close> and a leading \<open>PTR\<close>.\<close>

definition skip_element :: "byte \<Rightarrow> byte list \<Rightarrow> (bool \<times> byte list) option" where
  "skip_element b pbCur =
     (case pbCur of [] \<Rightarrow> None | c # r \<Rightarrow> if c = b then Some (True, r) else Some (False, pbCur))"

definition suffixes :: "bool \<Rightarrow> bool \<Rightarrow> wstring" where
  "suffixes ref_flag pointer_flag = (if ref_flag then WStr ''&'' else []) @ (if pointer_flag then WStr ''*'' else [])"

lemma skip_element_le: "skip_element b bs = Some (f, r) \<Longrightarrow> length r \<le> length bs"
  by (auto simp: skip_element_def split: list.splits if_splits)

text \<open>
  \<open>sig_type_name\<close> is the switch at the cursor left by the two tests; the argument loop of a generic instance prints a
  comma after every name but the last.
\<close>

function GetSigTypeTokName :: "(u32 \<Rightarrow> wstring) \<Rightarrow> byte list \<Rightarrow> (wstring \<times> byte list) option"
  and sig_type_name :: "(u32 \<Rightarrow> wstring) \<Rightarrow> byte list \<Rightarrow> (wstring \<times> byte list) option"
  and generic_names :: "(u32 \<Rightarrow> wstring) \<Rightarrow> nat \<Rightarrow> byte list \<Rightarrow> (wstring \<times> byte list) option" where
  "GetSigTypeTokName type_name pbCur =
     (case skip_element ELEMENT_TYPE_BYREF pbCur of
        None \<Rightarrow> None
      | Some (ref_flag, pbCur) \<Rightarrow>
          (case skip_element ELEMENT_TYPE_PTR pbCur of
             None \<Rightarrow> None
           | Some (pointer_flag, pbCur) \<Rightarrow>
               map_option (\<lambda>(tokenName, pbCur). (tokenName @ suffixes ref_flag pointer_flag, pbCur))
                 (sig_type_name type_name pbCur)))"
| "sig_type_name type_name pbCur =
     (case pbCur of
        [] \<Rightarrow> None
      | b # rest \<Rightarrow>
          (case builtin_name b of
             Some name \<Rightarrow> Some (name, rest)
           | None \<Rightarrow>
               if b = ELEMENT_TYPE_CLASS \<or> b = ELEMENT_TYPE_VALUETYPE
               then map_option (\<lambda>(token, pbCur). (type_name token, pbCur)) (read_token rest)
               else if b = ELEMENT_TYPE_SZARRAY
               then map_option (\<lambda>(name, pbCur). (name @ WStr ''[]'', pbCur)) (GetSigTypeTokName type_name rest)
               else if b = ELEMENT_TYPE_GENERICINST
               then (case GetSigTypeTokName type_name rest of
                       None \<Rightarrow> None
                     | Some (name, pbCur) \<Rightarrow>
                         (case read_data pbCur of
                            None \<Rightarrow> None
                          | Some (num, pbCur) \<Rightarrow>
                              map_option (\<lambda>(names, pbCur). (name @ WStr ''['' @ names @ WStr '']'', pbCur))
                                (generic_names type_name (unat num) pbCur)))
               else if b = ELEMENT_TYPE_MVAR
               then map_option (\<lambda>(num, pbCur). (WStr ''!!'' @ ToWSTRING (decimal (unat num)), pbCur)) (read_data rest)
               else if b = ELEMENT_TYPE_VAR
               then map_option (\<lambda>(num, pbCur). (WStr ''!'' @ ToWSTRING (decimal (unat num)), pbCur)) (read_data rest)
               else Some ([], pbCur)))"
| "generic_names type_name n pbCur =
     (case n of
        0 \<Rightarrow> Some ([], pbCur)
      | Suc k \<Rightarrow>
          (case GetSigTypeTokName type_name pbCur of
             None \<Rightarrow> None
           | Some (name, pbCur) \<Rightarrow>
               map_option (\<lambda>(names, pbCur). (name @ (if k \<noteq> 0 then WStr '','' else []) @ names, pbCur))
                 (generic_names type_name k pbCur)))"
  by pat_completeness auto
termination
proof -
  let ?dom = GetSigTypeTokName_sig_type_name_generic_names_dom
  have le: "length r \<le> length bs" if "?dom (Inl (f, bs))" "GetSigTypeTokName f bs = Some (x, r)" for f bs x r
    using that
  proof (induction f bs arbitrary: x r rule: GetSigTypeTokName_sig_type_name_generic_names.pinduct(1)
      [where Q = "\<lambda>f bs. \<forall>x r. sig_type_name f bs = Some (x, r) \<longrightarrow> length r \<le> length bs"
         and R = "\<lambda>f n bs. \<forall>x r. generic_names f n bs = Some (x, r) \<longrightarrow> length r \<le> length bs"])
    case (1 f bs)
    from 1(3) obtain rf b1 pf b2 y where s: "skip_element ELEMENT_TYPE_BYREF bs = Some (rf, b1)"
      "skip_element ELEMENT_TYPE_PTR b1 = Some (pf, b2)" "sig_type_name f b2 = Some (y, r)"
      by (auto simp: GetSigTypeTokName.psimps [OF 1(1)] split: option.splits)
    with 1(2) [OF s(1) refl s(2) refl] skip_element_le [OF s(1)] skip_element_le [OF s(2)] show ?case by fastforce
  next
    case (2 f bs)
    show ?case
    proof (intro allI impI)
      fix x r assume eq: "sig_type_name f bs = Some (x, r)"
      note unfolded = eq [unfolded sig_type_name.psimps [OF 2(1)]]
      then obtain b rest where bs: "bs = b # rest" by (cases bs) auto
      note eq' = unfolded [unfolded bs list.case]
      show "length r \<le> length bs"
      proof (cases "builtin_name b")
        case (Some n)
        with eq' show ?thesis by (simp add: bs)
      next
        case None
        consider (token) "b = ELEMENT_TYPE_CLASS \<or> b = ELEMENT_TYPE_VALUETYPE" | (array) "b = ELEMENT_TYPE_SZARRAY"
          | (inst) "b = ELEMENT_TYPE_GENERICINST" | (num) "b = ELEMENT_TYPE_MVAR \<or> b = ELEMENT_TYPE_VAR"
          | (other) "b \<notin> {ELEMENT_TYPE_CLASS, ELEMENT_TYPE_VALUETYPE, ELEMENT_TYPE_SZARRAY, ELEMENT_TYPE_GENERICINST,
              ELEMENT_TYPE_MVAR, ELEMENT_TYPE_VAR}" by blast
        then show ?thesis
        proof cases
          case token
          with eq' None obtain t where "read_token rest = Some (t, r)" by auto
          then show ?thesis using read_le(1) by (fastforce simp: bs)
        next
          case array
          with eq' None obtain y where "GetSigTypeTokName f rest = Some (y, r)" by auto
          with 2(3) [OF bs None _ array] array show ?thesis by (fastforce simp: bs)
        next
          case inst
          with eq' None obtain y b1 n b2 z where s: "GetSigTypeTokName f rest = Some (y, b1)"
            "read_data b1 = Some (n, b2)" "generic_names f (unat n) b2 = Some (z, r)" by (auto split: option.splits)
          have "length b1 \<le> length rest" using 2(4) [OF bs None _ _ inst s(1)] inst by simp
          moreover have "length r \<le> length b2" using 2(2) [OF bs None _ _ inst s(1) refl s(2) refl] inst s(3) by simp
          ultimately show ?thesis using read_le(2) [OF s(2)] by (simp add: bs)
        next
          case num
          with eq' None obtain t where "read_data rest = Some (t, r)" by auto
          then show ?thesis using read_le(2) by (fastforce simp: bs)
        next
          case other
          with eq' None show ?thesis by (simp add: bs)
        qed
      qed
    qed
  next
    case (3 f n bs)
    show ?case
    proof (intro allI impI)
      fix x r assume "generic_names f n bs = Some (x, r)"
      note eq = this [unfolded generic_names.psimps [OF 3(1)]]
      show "length r \<le> length bs"
      proof (cases n)
        case 0
        with eq show ?thesis by simp
      next
        case (Suc k)
        with eq obtain y b z where s: "GetSigTypeTokName f bs = Some (y, b)" "generic_names f k b = Some (z, r)"
          by (auto split: option.splits)
        with 3(3) [OF Suc s(1)] 3(2) [OF Suc s(1) refl] show ?thesis by fastforce
      qed
    qed
  qed
  show ?thesis
  proof (relation "measures [\<lambda>x. case x of Inl (f, bs) \<Rightarrow> length bs | Inr (Inl (f, bs)) \<Rightarrow> length bs | Inr (Inr (f, n, bs)) \<Rightarrow> length bs,
      \<lambda>x. case x of Inl (f, bs) \<Rightarrow> 1 | Inr (Inl (f, bs)) \<Rightarrow> 0 | Inr (Inr (f, n, bs)) \<Rightarrow> n + 2]", goal_cases)
    case (2 f bs)
    then show ?case by (auto dest!: skip_element_le)
  qed (auto dest!: le read_le)
qed

declare GetSigTypeTokName.simps [simp del] sig_type_name.simps [simp del] generic_names.simps [simp del]

lemma generic_names_simps [simp]:
  "generic_names f 0 bs = Some ([], bs)"
  "generic_names f (Suc k) bs =
     (case GetSigTypeTokName f bs of
        None \<Rightarrow> None
      | Some (name, bs) \<Rightarrow>
          map_option (\<lambda>(names, bs). (name @ (if k \<noteq> 0 then WStr '','' else []) @ names, bs)) (generic_names f k bs))"
  by (simp_all add: generic_names.simps)

definition GetTypeTokName :: "(u32 \<Rightarrow> wstring) \<Rightarrow> byte list \<Rightarrow> TypeSignature \<Rightarrow> wstring option" where
  "GetTypeTokName type_name base ts = map_option fst (GetSigTypeTokName type_name (drop (unat (ts_offset ts)) base))"

section \<open>Names of built types\<close>

fun joined :: "wstring \<Rightarrow> wstring list \<Rightarrow> wstring" where
  "joined sep [] = []"
| "joined sep [x] = x"
| "joined sep (x # y # xs) = x @ sep @ joined sep (y # xs)"

text \<open>The specification of the printed name, over the abstract syntax of types.\<close>

fun type_text :: "(u32 \<Rightarrow> wstring) \<Rightarrow> sig_type \<Rightarrow> wstring" where
  "type_text f (Builtin b) = the (builtin_name (builtin_code b))"
| "type_text f (Token mode token) = f token"
| "type_text f (SzArray ty) = type_text f ty @ WStr ''[]''"
| "type_text f (Ref ty) = type_text f ty @ WStr ''&''"
| "type_text f (GenArg mode num) = WStr ((case mode of MethodArg \<Rightarrow> ''!!'' | TypeArg \<Rightarrow> ''!'') @ decimal (unat num))"
| "type_text f (Inst mode token args) = f token @ WStr ''['' @ joined (WStr '','') (map (type_text f) args) @ WStr '']''"

text \<open>The tokens of a type are of tables that a signature can encode.\<close>

fun tokens_ok :: "sig_type \<Rightarrow> bool" where
  "tokens_ok (Builtin b) \<longleftrightarrow> True"
| "tokens_ok (Token mode token) \<longleftrightarrow> TypeFromToken token \<in> {mdtTypeDef, mdtTypeRef, mdtTypeSpec, mdtBaseType}"
| "tokens_ok (SzArray ty) \<longleftrightarrow> tokens_ok ty"
| "tokens_ok (Ref ty) \<longleftrightarrow> tokens_ok ty"
| "tokens_ok (GenArg mode num) \<longleftrightarrow> True"
| "tokens_ok (Inst mode token args) \<longleftrightarrow>
     TypeFromToken token \<in> {mdtTypeDef, mdtTypeRef, mdtTypeSpec, mdtBaseType} \<and> list_all tokens_ok args"

lemma read_data_compress:
  assumes "CorSigCompressData x = Some bs"
  shows "read_data (bs @ rest) = Some (x, rest)"
proof -
  have len: "length bs \<in> {1, 2, 4}" using compress_length [OF assms] .
  then have u: "unat (of_nat (length bs) :: u32) = length bs" "length bs \<le> unat (0xff :: u32)" by auto
  have "CorSigUncompressData_size (bs @ rest) = Some (of_nat (length bs), x)"
    using uncompress_checked_compress [OF assms u(2)] by (simp add: CorSigUncompressData_size_def)
  then show ?thesis using u(1) by (simp add: read_data_def advance_def)
qed

lemma read_token_compress:
  assumes "CorSigCompressToken tk = Some bs" "TypeFromToken tk \<in> {mdtTypeDef, mdtTypeRef, mdtTypeSpec, mdtBaseType}"
  shows "read_token (bs @ rest) = Some (tk, rest)"
  using read_data_compress [of "encoded_token tk" bs rest] assms(1) decode_encoded_token [OF assms(2)]
  by (auto simp: compress_token_eq read_token_def read_data_def CorSigUncompressToken_size_def bind_eq_Some_conv)

lemma decimal_ascii: "ascii_text (decimal n)"
  using decimal_chars [of n] by (force simp: ascii_text_def list_all_iff)

lemma WStr_append: "WStr (s @ t) = WStr s @ WStr t"
  by (simp add: WStr_def)

text \<open>No leading reference or pointer: the name is the one of the switch.\<close>

lemma GetSigTypeTokName_plain:
  assumes "\<not> announces b"
  shows "GetSigTypeTokName f (b # r) = sig_type_name f (b # r)"
  using assms by (simp add: GetSigTypeTokName.simps skip_element_def announces_def suffixes_def option.map_ident split_beta')

lemma joined_Cons: "joined sep (x # xs) = x @ (if xs \<noteq> [] then sep else []) @ joined sep xs"
  by (cases xs) auto

lemma generic_names_concat:
  assumes "list_all2 (\<lambda>ty b. \<forall>rest. GetSigTypeTokName f (b @ rest) = Some (type_text f ty, rest)) tys bs"
  shows "generic_names f (length bs) (concat bs @ rest) = Some (joined (WStr '','') (map (type_text f) tys), rest)"
  using assms
proof (induction tys bs rule: list_all2_induct)
  case (Cons ty tys b bs)
  then have "length tys = length bs" by (auto dest: list_all2_lengthD)
  then have "tys = [] \<longleftrightarrow> bs = []" by auto
  with Cons show ?case by (simp add: joined_Cons)
qed simp

lemma name_of_element:
  "build ty = Some bs \<Longrightarrow> element ty \<Longrightarrow> tokens_ok ty \<Longrightarrow> GetSigTypeTokName f (bs @ rest) = Some (type_text f ty, rest)"
proof (induction ty arbitrary: bs rest)
  case (Builtin b)
  then have "\<not> announces (builtin_code b)" by (cases b) (auto simp: announces_def)
  moreover have "\<exists>n. builtin_name (builtin_code b) = Some n" using Builtin by (cases b) (auto simp: builtin_name_def)
  ultimately show ?case using Builtin by (auto simp: Type_def GetSigTypeTokName_plain sig_type_name.simps)
next
  case (Token m t)
  then obtain tk where tk: "CorSigCompressToken t = Some tk" "bs = token_mode_code m # tk" by (auto simp: TokenType_eq)
  with Token read_token_compress [OF tk(1), of rest] show ?case
    by (cases m) (auto simp: GetSigTypeTokName_plain announces_def sig_type_name.simps builtin_name_def)
next
  case (SzArray ty)
  then obtain b where b: "build ty = Some b" "bs = ELEMENT_TYPE_SZARRAY # b"
    by (auto simp: Array_def Push_def PushRawByte_def)
  with SzArray show ?case
    by (simp add: GetSigTypeTokName_plain announces_def) (simp add: sig_type_name.simps builtin_name_def)
next
  case (GenArg m n)
  then obtain k where k: "CorSigCompressData n = Some k" "bs = generic_mode_code m # k" by (auto simp: GenericArgument_eq)
  with read_data_compress [OF k(1), of rest] show ?case
    by (cases m) (auto simp: GetSigTypeTokName_plain announces_def sig_type_name.simps builtin_name_def
      ToWSTRING_ascii [OF decimal_ascii] WStr_append [symmetric])
next
  case (Inst m t args)
  then obtain tk abs n where tk: "CorSigCompressToken t = Some tk" and abs: "map build args = map Some abs"
    and n: "CorSigCompressData (of_nat (length abs)) = Some n"
    and bs: "bs = ELEMENT_TYPE_GENERICINST # token_mode_code m # tk @ n @ concat abs"
    by (auto simp: bind_eq_Some_conv TokenType_eq those_eq_Some GenericInstance_eq)
  have "length args = length abs" using abs by (metis length_map)
  then have "unat (of_nat (length abs) :: u32) = length abs" using Inst.prems(2) by (simp add: unat_of_nat)
  moreover have "list_all2 (\<lambda>ty b. \<forall>rest. GetSigTypeTokName f (b @ rest) = Some (type_text f ty, rest)) args abs"
  proof (rule list_all2_all_nthI)
    fix i assume i: "i < length args"
    then have "args ! i \<in> set args" "build (args ! i) = Some (abs ! i)"
      using abs \<open>length args = length abs\<close> by (simp, metis nth_map)
    with i Inst show "\<forall>rest. GetSigTypeTokName f (abs ! i @ rest) = Some (type_text f (args ! i), rest)"
      by (auto simp: list_all_length)
  qed fact
  note generic_names_concat [OF this, of rest]
  moreover have "GetSigTypeTokName f (token_mode_code m # tk @ n @ concat abs @ rest) = Some (f t, n @ concat abs @ rest)"
    using read_token_compress [OF tk] Inst.prems(3)
    by (cases m) (auto simp: GetSigTypeTokName_plain announces_def sig_type_name.simps builtin_name_def)
  ultimately show ?case
    using read_data_compress [OF n, of "concat abs @ rest"]
    by (simp add: bs GetSigTypeTokName_plain announces_def) (simp add: sig_type_name.simps builtin_name_def)
qed simp

text \<open>The printed name of a type is the one its structure prescribes. For every parameter type that the
  builder can write, the name printed from its bytes is the composition of the names of its parts (arrays,
  references, generic arguments and instances), whatever the names of the tokens, and printing stops exactly
  at the end of the type.\<close>

theorem printed_type_name:
  assumes "build ty = Some bs" "parameter ty" "tokens_ok ty"
  shows "GetSigTypeTokName type_name (bs @ rest) = Some (type_text type_name ty, rest)"
proof (cases "element ty")
  case True
  with name_of_element assms show ?thesis by blast
next
  case False
  with assms obtain t b where t: "ty = Ref t" "element t" "build t = Some b" "bs = ELEMENT_TYPE_BYREF # b" "tokens_ok t"
    by (auto simp: parameter_def ByRef_def Push_def PushRawByte_def)
  then obtain h r where h: "b = h # r" "\<not> announces h" by (auto elim: build_head)
  have "sig_type_name type_name (b @ rest) = Some (type_text type_name t, rest)"
    using name_of_element [OF t(3,2,5), of type_name rest] GetSigTypeTokName_plain [OF h(2), of type_name "r @ rest"] h by simp
  with t h show ?thesis
    by (simp add: GetSigTypeTokName.simps skip_element_def suffixes_def announces_def)
qed

definition sample_token_name :: "u32 \<Rightarrow> wstring" where
  "sample_token_name token = (if token = 0x02000005 then WStr ''N.Map`2'' else WStr ''N.C'')"

theorem printed_type_name_witness:
  "GetSigTypeTokName sample_token_name ([0x15, 0x12, 0x14, 0x02, 0x1d, 0x05, 0x1e, 0x01] @ [0x08]) =
     Some (WStr ''N.Map`2[System.Byte[],!!1]'', [0x08])"
proof -
  let ?ty = "Inst ClassMode 0x02000005 [SzArray (Builtin ByteT), GenArg MethodArg 1]"
  have b: "build ?ty = Some [0x15, 0x12, 0x14, 0x02, 0x1d, 0x05, 0x1e, 0x01]" "parameter ?ty"
    using sample_built(1) by (simp_all add: sample_types_def sample_blobs_def)
  have "tokens_ok ?ty" by (simp add: TypeFromToken_def mdtTypeDef_def)
  moreover have "type_text sample_token_name ?ty = WStr ''N.Map`2[System.Byte[],!!1]''"
    by (simp add: sample_token_name_def builtin_name_def WStr_def decimal.simps char_of_def bit_0)
  ultimately show ?thesis using printed_type_name [OF b, of sample_token_name "[0x08]"] by simp
qed

section \<open>Element types and flags\<close>

definition TypeFlagByRef :: u32 where "TypeFlagByRef = 0x01"
definition TypeFlagVoid :: u32 where "TypeFlagVoid = 0x02"
definition TypeFlagBoxedType :: u32 where "TypeFlagBoxedType = 0x04"
definition TypeFlagPinnedType :: u32 where "TypeFlagPinnedType = 0x08"

lemmas type_flags = TypeFlagByRef_def TypeFlagVoid_def TypeFlagBoxedType_def TypeFlagPinnedType_def

definition boxed_element :: "byte \<Rightarrow> bool" where
  "boxed_element b \<longleftrightarrow>
     b \<in> {ELEMENT_TYPE_BOOLEAN, ELEMENT_TYPE_CHAR, ELEMENT_TYPE_I1, ELEMENT_TYPE_U1, ELEMENT_TYPE_U2, ELEMENT_TYPE_I2,
       ELEMENT_TYPE_I4, ELEMENT_TYPE_U4, ELEMENT_TYPE_I8, ELEMENT_TYPE_U8, ELEMENT_TYPE_R4, ELEMENT_TYPE_R8,
       ELEMENT_TYPE_I, ELEMENT_TYPE_U, ELEMENT_TYPE_VALUETYPE, ELEMENT_TYPE_MVAR, ELEMENT_TYPE_VAR}"

text \<open>The code reads on from the start of the segment; the segment's length is not consulted.\<close>

definition GetElementTypeAndFlags :: "byte list \<Rightarrow> TypeSignature \<Rightarrow> (byte \<times> u32) option" where
  "GetElementTypeAndFlags base ts =
     Option.bind (skip_element ELEMENT_TYPE_PTR (drop (unat (ts_offset ts)) base)) (\<lambda>(ptr, pbCur).
     Option.bind (skip_element ELEMENT_TYPE_PINNED pbCur) (\<lambda>(pinned, pbCur).
     Option.bind (skip_element ELEMENT_TYPE_BYREF pbCur) (\<lambda>(byref, pbCur').
       let typeFlags = (if ptr then TypeFlagByRef else 0) OR (if pinned then TypeFlagPinnedType else 0) OR
             (if hd pbCur = ELEMENT_TYPE_VOID then TypeFlagVoid else 0) OR (if byref then TypeFlagByRef else 0)
       in case pbCur' of
            [] \<Rightarrow> None
          | elementType # rest \<Rightarrow>
              if boxed_element elementType then Some (elementType, typeFlags OR TypeFlagBoxedType)
              else if elementType = ELEMENT_TYPE_GENERICINST
              then (case rest of
                      [] \<Rightarrow> None
                    | b # _ \<Rightarrow> Some (elementType,
                        if b = ELEMENT_TYPE_VALUETYPE then typeFlags OR TypeFlagBoxedType else typeFlags))
              else Some (elementType, typeFlags))))"

text \<open>Whether a value of the type has to be boxed to become an object, and the element type of its representation.\<close>

fun is_value :: "sig_type \<Rightarrow> bool" where
  "is_value (Builtin b) \<longleftrightarrow> b \<notin> {VoidT, StringT, ObjectT}"
| "is_value (Token mode token) \<longleftrightarrow> mode = ValueTypeMode"
| "is_value (SzArray ty) \<longleftrightarrow> False"
| "is_value (Ref ty) \<longleftrightarrow> is_value ty"
| "is_value (GenArg mode num) \<longleftrightarrow> True"
| "is_value (Inst mode token args) \<longleftrightarrow> mode = ValueTypeMode"

fun is_reference :: "sig_type \<Rightarrow> bool" where
  "is_reference (Ref ty) \<longleftrightarrow> True"
| "is_reference ty \<longleftrightarrow> False"

definition expected_flags :: "sig_type \<Rightarrow> u32" where
  "expected_flags ty =
     (if ty = Builtin VoidT then TypeFlagVoid else 0) OR (if is_reference ty then TypeFlagByRef else 0) OR
     (if is_value ty then TypeFlagBoxedType else 0)"

text \<open>The flags from a cursor with no pointer or pinned modifier in front.\<close>

lemma element_shape:
  assumes "build ty = Some bs" "element ty"
  shows "\<exists>b r. bs = b # r \<and> \<not> announces b \<and>
    (case ty of Inst m t args \<Rightarrow> b = ELEMENT_TYPE_GENERICINST \<and> r \<noteq> [] \<and> hd r = token_mode_code m
     | _ \<Rightarrow> b \<noteq> ELEMENT_TYPE_GENERICINST \<and> (boxed_element b \<longleftrightarrow> is_value ty))"
proof (cases ty)
  case (Builtin x)
  with assms show ?thesis by (cases x) (auto simp: Type_def announces_def boxed_element_def)
next
  case (Token m t)
  with assms show ?thesis by (cases m) (auto simp: TokenType_eq announces_def boxed_element_def)
next
  case (GenArg m t)
  with assms show ?thesis by (cases m) (auto simp: GenericArgument_eq announces_def boxed_element_def)
next
  case (Inst m t args)
  with assms show ?thesis by (auto simp: GenericInstance_eq TokenType_eq announces_def bind_eq_Some_conv)
qed (use assms in \<open>auto simp: Array_def Push_def PushRawByte_def announces_def boxed_element_def\<close>)

lemma element_plain: "element ty \<Longrightarrow> ty \<noteq> Builtin VoidT" "element ty \<Longrightarrow> \<not> is_reference ty"
  by (cases ty; auto)+

lemma flags_of_element:
  assumes "build ty = Some bs" "element ty" "drop (unat (ts_offset ts)) base = bs @ rest"
  shows "GetElementTypeAndFlags base ts = Some (hd bs, expected_flags ty)"
proof -
  obtain b r where bs: "bs = b # r" "\<not> announces b" and shape:
    "case ty of Inst m t args \<Rightarrow> b = ELEMENT_TYPE_GENERICINST \<and> r \<noteq> [] \<and> hd r = token_mode_code m
     | _ \<Rightarrow> b \<noteq> ELEMENT_TYPE_GENERICINST \<and> (boxed_element b \<longleftrightarrow> is_value ty)"
    using element_shape [OF assms(1,2)] by blast
  show ?thesis
  proof (cases ty)
    case (Inst m t args)
    with shape obtain r' where "r = token_mode_code m # r'" by (cases r) auto
    with Inst shape bs assms show ?thesis
      by (cases m) (simp_all add: GetElementTypeAndFlags_def skip_element_def announces_def expected_flags_def boxed_element_def)
  qed (use shape bs assms in \<open>simp_all add: GetElementTypeAndFlags_def skip_element_def announces_def expected_flags_def\<close>)
qed

text \<open>C38: the flags of a segment are those of its type. For every return or parameter type that the builder
  can write, the element type is that of the type behind an optional reference, and the flags are: void for
  void, by reference for a reference, boxed exactly for the value types (including generic parameters and generic
  instances of value types) and never pinned.\<close>

theorem flags_of_built_type:
  assumes "build ty = Some bs" "return_type_ok ty" "drop (unat (ts_offset ts)) base = bs @ rest"
  shows "GetElementTypeAndFlags base ts = Some (hd (if is_reference ty then tl bs else bs), expected_flags ty)"
proof (cases "element ty")
  case True
  then have "\<not> is_reference ty" by (rule element_plain)
  with flags_of_element [OF assms(1) True assms(3)] show ?thesis by simp
next
  case False
  with assms consider "ty = Builtin VoidT" | t b where "ty = Ref t" "element t" "build t = Some b" "bs = ELEMENT_TYPE_BYREF # b"
    by (auto simp: return_type_ok_def parameter_def ByRef_def Push_def PushRawByte_def)
  then show ?thesis
  proof cases
    case 1
    with assms show ?thesis
      by (auto simp: Type_def GetElementTypeAndFlags_def skip_element_def expected_flags_def boxed_element_def)
  next
    case 2
    then obtain h r where h: "b = h # r" "\<not> announces h" by (auto elim: build_head)
    have "drop (unat (ts_offset \<lparr>ts_offset = 0, ts_length = 0\<rparr>)) (b @ rest) = b @ rest" by simp
    from flags_of_element [OF 2(3,2) this] 2 h assms(3) show ?thesis
      by (auto simp: GetElementTypeAndFlags_def skip_element_def announces_def expected_flags_def element_plain or.assoc
        split: if_splits list.splits)
  qed
qed

theorem flags_of_built_type_witness:
  "GetElementTypeAndFlags sample_signature \<lparr>ts_offset = 4, ts_length = 3\<rparr> = Some (ELEMENT_TYPE_CLASS, TypeFlagByRef)"
proof -
  let ?ty = "Ref (Token ClassMode 0x01000012)"
  have "build ?ty = Some [0x10, 0x12, 0x49]" "return_type_ok ?ty"
    using sample_built(1) by (simp_all add: sample_types_def sample_blobs_def return_type_ok_def)
  moreover have "drop (unat (ts_offset \<lparr>ts_offset = 4, ts_length = 3\<rparr>)) sample_signature =
      [0x10, 0x12, 0x49] @ [0x15, 0x12, 0x14, 0x02, 0x1d, 0x05, 0x1e, 0x01]"
    by (simp add: sample_signature_def sample_blobs_def)
  ultimately show ?thesis using flags_of_built_type by (fastforce simp: expected_flags_def)
qed

end
