(* ===== verification/Sample_Buffer.thy ===== *)
theory Sample_Buffer
  imports Prelude
begin

text \<open>
  The sample buffer: the writer \<open>ThreadSamplesBuffer\<close> of \<open>continuous_profiler.cpp\<close> and, as its client, the
  reader of the same format in \<open>SampleNativeFormatParser.cs\<close>. The writer appends to a byte vector that never
  exceeds its maximum and turns every later write into a no-op once something did not fit. The theorems: the size
  bound and the stickiness of the overflow flag, and that a batch which did not overflow is read back as exactly the
  samples that were written.
\<close>

section \<open>The writer\<close>

record function_identifier =
  function_token :: u32
  module_id :: u64
  is_valid :: bool
  native_ip :: u64

definition Managed :: "u32 \<Rightarrow> u64 \<Rightarrow> bool \<Rightarrow> function_identifier" where
  "Managed token module valid = \<lparr>function_token = token, module_id = module, is_valid = valid, native_ip = 0\<rparr>"

definition Native :: "u64 \<Rightarrow> function_identifier" where
  "Native ip = \<lparr>function_token = 0, module_id = 0, is_valid = True, native_ip = ip\<rparr>"

definition ManagedInvalid :: function_identifier where
  "ManagedInvalid = \<lparr>function_token = 0, module_id = 0, is_valid = False, native_ip = 0\<rparr>"

definition IsNative :: "function_identifier \<Rightarrow> bool" where
  "IsNative fid \<longleftrightarrow> is_valid fid \<and> function_token fid = 0 \<and> native_ip fid \<noteq> 0"

record trace_context =
  trace_id_high :: u64
  trace_id_low :: u64

record thread_span_context =
  trace_context_of :: trace_context
  span_id :: u64

definition span_context :: "u64 \<Rightarrow> u64 \<Rightarrow> u64 \<Rightarrow> thread_span_context" where
  "span_context high low span = \<lparr>trace_context_of = \<lparr>trace_id_high = high, trace_id_low = low\<rparr>, span_id = span\<rparr>"

record sampling_statistics =
  micros_suspended :: u32
  num_threads :: u32
  total_frames :: u32
  name_cache_misses :: u32

definition kMaxStringLength :: nat where "kMaxStringLength = 512"
definition kMaxCodesPerBuffer :: nat where "kMaxCodesPerBuffer = 10 * 1000"
definition kSamplesBufferMaximumSize :: nat where "kSamplesBufferMaximumSize = 200 * 1024"

definition kThreadSamplesStartBatch :: byte where "kThreadSamplesStartBatch = 0x01"
definition kThreadSamplesStartSample :: byte where "kThreadSamplesStartSample = 0x02"
definition kThreadSamplesEndBatch :: byte where "kThreadSamplesEndBatch = 0x06"
definition kThreadSamplesFinalStats :: byte where "kThreadSamplesFinalStats = 0x07"
definition kAllocationSample :: byte where "kAllocationSample = 0x08"
definition kSelectedThreadSample :: byte where "kSelectedThreadSample = 0x09"
definition kSelectedThreadsStartBatch :: byte where "kSelectedThreadsStartBatch = 0x0A"
definition kSelectedThreadsEndBatch :: byte where "kSelectedThreadsEndBatch = 0x0B"
definition kCurrentThreadSamplesBufferVersion :: u32 where "kCurrentThreadSamplesBufferVersion = 1"

lemmas op_codes = kThreadSamplesStartBatch_def kThreadSamplesStartSample_def kThreadSamplesEndBatch_def
  kThreadSamplesFinalStats_def kAllocationSample_def kSelectedThreadSample_def kSelectedThreadsStartBatch_def
  kSelectedThreadsEndBatch_def

text \<open>The code table in insertion order; its keys are distinct.\<close>

record samples_buffer =
  codes :: "(function_identifier \<times> nat) list"
  buffer :: "byte list"
  overflowed :: bool

definition ThreadSamplesBuffer :: samples_buffer where
  "ThreadSamplesBuffer = \<lparr>codes = [], buffer = [], overflowed = False\<rparr>"

definition IsOverflowed :: "samples_buffer \<Rightarrow> bool" where
  "IsOverflowed b = overflowed b"

definition CanWrite :: "nat \<Rightarrow> samples_buffer \<Rightarrow> bool \<times> samples_buffer" where
  "CanWrite byteCount b =
     (if overflowed b \<or> length (buffer b) > kSamplesBufferMaximumSize \<or>
         byteCount > kSamplesBufferMaximumSize - length (buffer b)
      then (False, b\<lparr>overflowed := True\<rparr>) else (True, b))"

text \<open>The shape of every write: test for room, then append.\<close>

definition append_bytes :: "byte list \<Rightarrow> samples_buffer \<Rightarrow> samples_buffer" where
  "append_bytes bytes b =
     (case CanWrite (length bytes) b of (ok, b) \<Rightarrow> if ok then b\<lparr>buffer := buffer b @ bytes\<rparr> else b)"

definition WriteByte :: "byte \<Rightarrow> samples_buffer \<Rightarrow> samples_buffer" where
  "WriteByte x = append_bytes [x]"

definition short_bytes :: "u16 \<Rightarrow> byte list" where
  "short_bytes val = [be_byte 8 val, be_byte 0 val]"

definition int_bytes :: "u32 \<Rightarrow> byte list" where
  "int_bytes val = [be_byte 24 val, be_byte 16 val, be_byte 8 val, be_byte 0 val]"

definition uint64_bytes :: "u64 \<Rightarrow> byte list" where
  "uint64_bytes val = [be_byte 56 val, be_byte 48 val, be_byte 40 val, be_byte 32 val,
     be_byte 24 val, be_byte 16 val, be_byte 8 val, be_byte 0 val]"

definition WriteShort :: "u16 \<Rightarrow> samples_buffer \<Rightarrow> samples_buffer" where
  "WriteShort val = append_bytes (short_bytes val)"

definition WriteInt :: "u32 \<Rightarrow> samples_buffer \<Rightarrow> samples_buffer" where
  "WriteInt val = append_bytes (int_bytes val)"

definition WriteUInt64 :: "u64 \<Rightarrow> samples_buffer \<Rightarrow> samples_buffer" where
  "WriteUInt64 val = append_bytes (uint64_bytes val)"

text \<open>The memory of a little-endian string of 16-bit units.\<close>

definition units_bytes :: "wstring \<Rightarrow> byte list" where
  "units_bytes s = concat (map (\<lambda>u. [be_byte 0 u, be_byte 8 u]) s)"

definition WriteString :: "wstring \<Rightarrow> samples_buffer \<Rightarrow> samples_buffer" where
  "WriteString s b =
     (let used_len = min (length s) kMaxStringLength;
          byteCount = 2 + used_len * 2
      in case CanWrite byteCount b of
           (False, b) \<Rightarrow> b
         | (True, b) \<Rightarrow>
             let b = WriteShort (of_nat used_len) b
             in b\<lparr>buffer := buffer b @ units_bytes (take used_len s)\<rparr>)"

text \<open>The clock is an argument: milliseconds since the epoch.\<close>

definition WriteCurrentTimeMillis :: "u64 \<Rightarrow> samples_buffer \<Rightarrow> samples_buffer" where
  "WriteCurrentTimeMillis ms = WriteUInt64 ms"

definition WriteSpanContext :: "thread_span_context \<Rightarrow> samples_buffer \<Rightarrow> samples_buffer" where
  "WriteSpanContext ctx b =
     WriteUInt64 (span_id ctx) (WriteUInt64 (trace_id_low (trace_context_of ctx)) (WriteUInt64 (trace_id_high (trace_context_of ctx)) b))"

text \<open>\<open>CHECK_SAMPLES_BUFFER_LENGTH\<close>: the operation is skipped when not a single byte fits.\<close>

definition checked :: "(samples_buffer \<Rightarrow> samples_buffer) \<Rightarrow> samples_buffer \<Rightarrow> samples_buffer" where
  "checked write b = (case CanWrite 1 b of (False, b) \<Rightarrow> b | (True, b) \<Rightarrow> write b)"

definition StartBatch :: "u64 \<Rightarrow> samples_buffer \<Rightarrow> samples_buffer" where
  "StartBatch now = checked (\<lambda>b. WriteCurrentTimeMillis now (WriteInt kCurrentThreadSamplesBufferVersion
     (WriteByte kThreadSamplesStartBatch b)))"

definition StartSelectedThreadsBatch :: "samples_buffer \<Rightarrow> samples_buffer" where
  "StartSelectedThreadsBatch = checked (WriteByte kSelectedThreadsStartBatch)"

definition EndSelectedThreadsBatch :: "samples_buffer \<Rightarrow> samples_buffer" where
  "EndSelectedThreadsBatch = checked (WriteByte kSelectedThreadsEndBatch)"

definition StartSample :: "wstring \<Rightarrow> thread_span_context \<Rightarrow> samples_buffer \<Rightarrow> samples_buffer" where
  "StartSample thread_name ctx = checked (\<lambda>b. WriteSpanContext ctx (WriteString thread_name (WriteByte kThreadSamplesStartSample b)))"

definition StartSampleForSelectedThread :: "u64 \<Rightarrow> wstring \<Rightarrow> thread_span_context \<Rightarrow> samples_buffer \<Rightarrow> samples_buffer" where
  "StartSampleForSelectedThread now thread_name ctx = checked (\<lambda>b. WriteSpanContext ctx (WriteString thread_name
     (WriteCurrentTimeMillis now (WriteByte kSelectedThreadSample b))))"

definition MarkSelectedForFrequentSampling :: "bool \<Rightarrow> samples_buffer \<Rightarrow> samples_buffer" where
  "MarkSelectedForFrequentSampling value = checked (WriteByte (if value then 1 else 0))"

definition AllocationSample :: "u64 \<Rightarrow> u64 \<Rightarrow> wstring \<Rightarrow> wstring \<Rightarrow> thread_span_context \<Rightarrow> samples_buffer \<Rightarrow> samples_buffer" where
  "AllocationSample now allocSize allocType thread_name ctx = checked (\<lambda>b. WriteSpanContext ctx (WriteString thread_name
     (WriteString allocType (WriteUInt64 allocSize (WriteCurrentTimeMillis now (WriteByte kAllocationSample b))))))"

definition WriteCodedFrameString :: "function_identifier \<Rightarrow> wstring \<Rightarrow> samples_buffer \<Rightarrow> samples_buffer" where
  "WriteCodedFrameString fid str b =
     (case map_of (codes b) fid of
        Some code \<Rightarrow> WriteShort (of_nat code) b
      | None \<Rightarrow>
          let code = length (codes b) + 1;
              b = (if length (codes b) + 1 < kMaxCodesPerBuffer then b\<lparr>codes := codes b @ [(fid, code)]\<rparr> else b)
          in WriteString str (WriteShort (- of_nat code) b))"

definition RecordFrame :: "function_identifier \<Rightarrow> wstring \<Rightarrow> samples_buffer \<Rightarrow> samples_buffer" where
  "RecordFrame fid frame = checked (WriteCodedFrameString fid frame)"

definition EndSample :: "samples_buffer \<Rightarrow> samples_buffer" where
  "EndSample = checked (WriteShort 0)"

definition EndBatch :: "samples_buffer \<Rightarrow> samples_buffer" where
  "EndBatch = checked (WriteByte kThreadSamplesEndBatch)"

definition WriteFinalStats :: "sampling_statistics \<Rightarrow> samples_buffer \<Rightarrow> samples_buffer" where
  "WriteFinalStats stats = checked (\<lambda>b. WriteInt (name_cache_misses stats) (WriteInt (total_frames stats)
     (WriteInt (num_threads stats) (WriteInt (micros_suspended stats) (WriteByte kThreadSamplesFinalStats b)))))"

section \<open>What a write does\<close>

text \<open>
  The contract of a write: it changes nothing once the buffer has overflowed, keeps the size bound and the code
  table, and when it did not overflow it has appended exactly \<open>bytes\<close>.
\<close>

definition emits :: "(samples_buffer \<Rightarrow> samples_buffer) \<Rightarrow> byte list \<Rightarrow> bool" where
  "emits write bytes \<longleftrightarrow>
     (\<forall>b. (overflowed b \<longrightarrow> overflowed (write b) \<and> buffer (write b) = buffer b) \<and>
        (length (buffer b) \<le> kSamplesBufferMaximumSize \<longrightarrow> length (buffer (write b)) \<le> kSamplesBufferMaximumSize) \<and>
        codes (write b) = codes b \<and>
        (\<not> overflowed (write b) \<longrightarrow> buffer (write b) = buffer b @ bytes))"

lemma CanWrite_cases:
  obtains (no) "CanWrite n b = (False, b\<lparr>overflowed := True\<rparr>)"
  | (yes) "CanWrite n b = (True, b)" "\<not> overflowed b" "length (buffer b) + n \<le> kSamplesBufferMaximumSize"
  by (cases "overflowed b \<or> length (buffer b) > kSamplesBufferMaximumSize \<or> n > kSamplesBufferMaximumSize - length (buffer b)")
    (auto simp: CanWrite_def)

lemma emits_append [intro]: "emits (append_bytes bytes) bytes"
proof (unfold emits_def, intro allI)
  fix b
  show "(overflowed b \<longrightarrow> overflowed (append_bytes bytes b) \<and> buffer (append_bytes bytes b) = buffer b) \<and>
    (length (buffer b) \<le> kSamplesBufferMaximumSize \<longrightarrow> length (buffer (append_bytes bytes b)) \<le> kSamplesBufferMaximumSize) \<and>
    codes (append_bytes bytes b) = codes b \<and>
    (\<not> overflowed (append_bytes bytes b) \<longrightarrow> buffer (append_bytes bytes b) = buffer b @ bytes)"
    by (cases rule: CanWrite_cases [of "length bytes" b]) (auto simp: append_bytes_def)
qed

lemma emits_compose [intro]:
  assumes "emits v xs" "emits w ys"
  shows "emits (\<lambda>b. w (v b)) (xs @ ys)"
  using assms unfolding emits_def by (metis append.assoc)

lemma emits_checked [intro]: "emits w bytes \<Longrightarrow> emits (checked w) bytes"
  unfolding emits_def checked_def
  by (intro allI, rule_tac n = 1 and b = b in CanWrite_cases) (auto simp: emits_def)

lemma emits_prims [intro]:
  "emits (WriteByte x) [x]" "emits (WriteShort v) (short_bytes v)" "emits (WriteInt i) (int_bytes i)"
  "emits (WriteUInt64 u) (uint64_bytes u)" "emits (WriteCurrentTimeMillis u) (uint64_bytes u)"
  by (auto simp: WriteByte_def WriteShort_def WriteInt_def WriteUInt64_def WriteCurrentTimeMillis_def)

definition string_bytes :: "wstring \<Rightarrow> byte list" where
  "string_bytes s = short_bytes (of_nat (min (length s) kMaxStringLength)) @ units_bytes (take kMaxStringLength s)"

lemma length_units_bytes [simp]: "length (units_bytes s) = 2 * length s"
  by (induction s) (auto simp: units_bytes_def)

lemma emits_WriteString [intro]: "emits (WriteString s) (string_bytes s)"
proof (unfold emits_def, intro allI)
  fix b
  define n where "n = min (length s) kMaxStringLength"
  have t: "take kMaxStringLength s = take n s" by (simp add: n_def min_def)
  show "(overflowed b \<longrightarrow> overflowed (WriteString s b) \<and> buffer (WriteString s b) = buffer b) \<and>
    (length (buffer b) \<le> kSamplesBufferMaximumSize \<longrightarrow> length (buffer (WriteString s b)) \<le> kSamplesBufferMaximumSize) \<and>
    codes (WriteString s b) = codes b \<and>
    (\<not> overflowed (WriteString s b) \<longrightarrow> buffer (WriteString s b) = buffer b @ string_bytes s)"
  proof (cases rule: CanWrite_cases [of "2 + n * 2" b])
    case no
    then show ?thesis by (simp add: WriteString_def n_def)
  next
    case yes
    then have "CanWrite (Suc (Suc 0)) b = (True, b)" by (simp add: CanWrite_def)
    then have "WriteShort (of_nat n) b = b\<lparr>buffer := buffer b @ short_bytes (of_nat n)\<rparr>"
      by (simp add: WriteShort_def append_bytes_def short_bytes_def)
    with yes have "WriteString s b = b\<lparr>buffer := buffer b @ string_bytes s\<rparr>"
      by (simp add: WriteString_def n_def [symmetric] string_bytes_def t)
    moreover have "length (string_bytes s) = 2 + n * 2"
      by (simp add: string_bytes_def short_bytes_def n_def [symmetric])
    ultimately show ?thesis using yes by simp
  qed
qed

definition span_bytes :: "thread_span_context \<Rightarrow> byte list" where
  "span_bytes ctx = uint64_bytes (trace_id_high (trace_context_of ctx)) @ uint64_bytes (trace_id_low (trace_context_of ctx)) @
     uint64_bytes (span_id ctx)"

lemma emits_WriteSpanContext [intro]: "emits (WriteSpanContext ctx) (span_bytes ctx)"
proof -
  have "emits (\<lambda>b. WriteUInt64 (span_id ctx) (WriteUInt64 (trace_id_low (trace_context_of ctx)) (WriteUInt64 (trace_id_high (trace_context_of ctx)) b)))
     ((uint64_bytes (trace_id_high (trace_context_of ctx)) @ uint64_bytes (trace_id_low (trace_context_of ctx))) @ uint64_bytes (span_id ctx))"
    by (rule emits_compose emits_prims)+
  then show ?thesis by (simp add: WriteSpanContext_def [abs_def] span_bytes_def)
qed

lemma emits_operations:
  "emits (StartBatch now) (([kThreadSamplesStartBatch] @ int_bytes kCurrentThreadSamplesBufferVersion) @ uint64_bytes now)"
  "emits StartSelectedThreadsBatch [kSelectedThreadsStartBatch]"
  "emits EndSelectedThreadsBatch [kSelectedThreadsEndBatch]"
  "emits (StartSample nm ctx) (([kThreadSamplesStartSample] @ string_bytes nm) @ span_bytes ctx)"
  "emits (StartSampleForSelectedThread now nm ctx) ((([kSelectedThreadSample] @ uint64_bytes now) @ string_bytes nm) @ span_bytes ctx)"
  "emits (MarkSelectedForFrequentSampling v) [if v then 1 else 0]"
  "emits (AllocationSample now sz ty nm ctx)
     ((((([kAllocationSample] @ uint64_bytes now) @ uint64_bytes sz) @ string_bytes ty) @ string_bytes nm) @ span_bytes ctx)"
  "emits EndSample (short_bytes 0)"
  "emits EndBatch [kThreadSamplesEndBatch]"
  "emits (WriteFinalStats stats) (((([kThreadSamplesFinalStats] @ int_bytes (micros_suspended stats)) @ int_bytes (num_threads stats)) @
     int_bytes (total_frames stats)) @ int_bytes (name_cache_misses stats))"
  unfolding StartBatch_def StartSelectedThreadsBatch_def EndSelectedThreadsBatch_def StartSample_def
    StartSampleForSelectedThread_def MarkSelectedForFrequentSampling_def AllocationSample_def EndSample_def EndBatch_def WriteFinalStats_def
  by (intro emits_checked emits_compose emits_prims emits_WriteString emits_WriteSpanContext)+

subsection \<open>Frames\<close>

text \<open>The bytes of a frame and the code table after it.\<close>

definition frame_bytes :: "(function_identifier \<times> nat) list \<Rightarrow> function_identifier \<Rightarrow> wstring \<Rightarrow> byte list" where
  "frame_bytes cs fid str =
     (case map_of cs fid of
        Some code \<Rightarrow> short_bytes (of_nat code)
      | None \<Rightarrow> short_bytes (- of_nat (length cs + 1)) @ string_bytes str)"

definition codes_after :: "(function_identifier \<times> nat) list \<Rightarrow> function_identifier \<Rightarrow> (function_identifier \<times> nat) list" where
  "codes_after cs fid =
     (if map_of cs fid = None \<and> length cs + 1 < kMaxCodesPerBuffer then cs @ [(fid, length cs + 1)] else cs)"

lemma emitsD:
  assumes "emits w bytes"
  shows "overflowed b \<Longrightarrow> overflowed (w b)" "overflowed b \<Longrightarrow> buffer (w b) = buffer b"
    "length (buffer b) \<le> kSamplesBufferMaximumSize \<Longrightarrow> length (buffer (w b)) \<le> kSamplesBufferMaximumSize"
    "codes (w b) = codes b" "\<not> overflowed (w b) \<Longrightarrow> buffer (w b) = buffer b @ bytes"
    "\<not> overflowed (w b) \<Longrightarrow> \<not> overflowed b"
  using assms unfolding emits_def by blast+

text \<open>Recording a frame: the same contract, with the code table as it was and as it becomes.\<close>

lemma RecordFrame_sticky: "overflowed b \<Longrightarrow> overflowed (RecordFrame fid str b) \<and> buffer (RecordFrame fid str b) = buffer b"
  by (auto simp: RecordFrame_def checked_def CanWrite_def)

lemma RecordFrame_step:
  assumes "\<not> overflowed b" "length (buffer b) + 1 \<le> kSamplesBufferMaximumSize"
  shows "\<exists>w. emits w (frame_bytes (codes b) fid str) \<and> RecordFrame fid str b = w (b\<lparr>codes := codes_after (codes b) fid\<rparr>)"
proof (cases "map_of (codes b) fid")
  case (Some c)
  then have "codes_after (codes b) fid = codes b" by (simp add: codes_after_def)
  with Some assms show ?thesis
    by (intro exI [of _ "WriteShort (of_nat c)"])
      (auto simp: RecordFrame_def checked_def CanWrite_def WriteCodedFrameString_def frame_bytes_def)
next
  case None
  let ?w = "\<lambda>b'. WriteString str (WriteShort (- of_nat (length (codes b) + 1)) b')"
  have "emits ?w (frame_bytes (codes b) fid str)" using None by (auto simp: frame_bytes_def simp del: of_nat_Suc of_nat_add)
  moreover have "RecordFrame fid str b = ?w (b\<lparr>codes := codes_after (codes b) fid\<rparr>)"
    using None assms by (simp add: RecordFrame_def checked_def CanWrite_def WriteCodedFrameString_def codes_after_def Let_def)
  ultimately show ?thesis by blast
qed

lemma RecordFrame_contract:
  shows "length (buffer b) \<le> kSamplesBufferMaximumSize \<Longrightarrow> length (buffer (RecordFrame fid str b)) \<le> kSamplesBufferMaximumSize"
    and "codes (RecordFrame fid str b) \<in> {codes b, codes_after (codes b) fid}"
    and "\<not> overflowed (RecordFrame fid str b) \<Longrightarrow> \<not> overflowed b \<and>
      buffer (RecordFrame fid str b) = buffer b @ frame_bytes (codes b) fid str \<and>
      codes (RecordFrame fid str b) = codes_after (codes b) fid"
proof -
  have "(length (buffer b) \<le> kSamplesBufferMaximumSize \<longrightarrow> length (buffer (RecordFrame fid str b)) \<le> kSamplesBufferMaximumSize) \<and>
    codes (RecordFrame fid str b) \<in> {codes b, codes_after (codes b) fid} \<and>
    (\<not> overflowed (RecordFrame fid str b) \<longrightarrow> \<not> overflowed b \<and>
      buffer (RecordFrame fid str b) = buffer b @ frame_bytes (codes b) fid str \<and>
      codes (RecordFrame fid str b) = codes_after (codes b) fid)"
  proof (cases rule: CanWrite_cases [of 1 b])
    case no
    then show ?thesis by (simp add: RecordFrame_def checked_def)
  next
    case yes
    then obtain w where w: "emits w (frame_bytes (codes b) fid str)"
      and eq: "RecordFrame fid str b = w (b\<lparr>codes := codes_after (codes b) fid\<rparr>)" using RecordFrame_step by blast
    show ?thesis unfolding eq using emitsD [OF w, of "b\<lparr>codes := codes_after (codes b) fid\<rparr>"] by simp
  qed
  then show "length (buffer b) \<le> kSamplesBufferMaximumSize \<Longrightarrow> length (buffer (RecordFrame fid str b)) \<le> kSamplesBufferMaximumSize"
    and "codes (RecordFrame fid str b) \<in> {codes b, codes_after (codes b) fid}"
    and "\<not> overflowed (RecordFrame fid str b) \<Longrightarrow> \<not> overflowed b \<and>
      buffer (RecordFrame fid str b) = buffer b @ frame_bytes (codes b) fid str \<and>
      codes (RecordFrame fid str b) = codes_after (codes b) fid" by blast+
qed

section \<open>Every sequence of operations\<close>

datatype buffer_operation =
    OpStartBatch u64
  | OpStartSelectedThreadsBatch
  | OpEndSelectedThreadsBatch
  | OpStartSample wstring thread_span_context
  | OpStartSampleForSelectedThread u64 wstring thread_span_context
  | OpMarkSelectedForFrequentSampling bool
  | OpAllocationSample u64 u64 wstring wstring thread_span_context
  | OpRecordFrame function_identifier wstring
  | OpEndSample
  | OpEndBatch
  | OpWriteFinalStats sampling_statistics

fun perform :: "buffer_operation \<Rightarrow> samples_buffer \<Rightarrow> samples_buffer" where
  "perform (OpStartBatch now) = StartBatch now"
| "perform OpStartSelectedThreadsBatch = StartSelectedThreadsBatch"
| "perform OpEndSelectedThreadsBatch = EndSelectedThreadsBatch"
| "perform (OpStartSample nm ctx) = StartSample nm ctx"
| "perform (OpStartSampleForSelectedThread now nm ctx) = StartSampleForSelectedThread now nm ctx"
| "perform (OpMarkSelectedForFrequentSampling v) = MarkSelectedForFrequentSampling v"
| "perform (OpAllocationSample now sz ty nm ctx) = AllocationSample now sz ty nm ctx"
| "perform (OpRecordFrame fid str) = RecordFrame fid str"
| "perform OpEndSample = EndSample"
| "perform OpEndBatch = EndBatch"
| "perform (OpWriteFinalStats stats) = WriteFinalStats stats"

definition codes_ok :: "(function_identifier \<times> nat) list \<Rightarrow> bool" where
  "codes_ok cs \<longleftrightarrow> map snd cs = [1..<length cs + 1] \<and> distinct (map fst cs) \<and> length cs < kMaxCodesPerBuffer"

definition buffer_inv :: "samples_buffer \<Rightarrow> bool" where
  "buffer_inv b \<longleftrightarrow> length (buffer b) \<le> kSamplesBufferMaximumSize \<and> codes_ok (codes b)"

lemma codes_ok_after: "codes_ok cs \<Longrightarrow> codes_ok (codes_after cs fid)"
  by (auto simp: codes_ok_def codes_after_def map_of_eq_None_iff)

lemma perform_plain:
  assumes "\<nexists>fid str. oper = OpRecordFrame fid str"
  obtains bytes where "emits (perform oper) bytes"
proof -
  have "\<exists>bytes. emits (perform oper) bytes"
    using assms by (cases oper) (simp_all, (meson emits_operations)+)
  with that show thesis by blast
qed

lemma perform_contract:
  shows "buffer_inv b \<Longrightarrow> buffer_inv (perform oper b)"
    and "overflowed b \<Longrightarrow> overflowed (perform oper b) \<and> buffer (perform oper b) = buffer b"
proof -
  have "(buffer_inv b \<longrightarrow> buffer_inv (perform oper b)) \<and>
    (overflowed b \<longrightarrow> overflowed (perform oper b) \<and> buffer (perform oper b) = buffer b)"
  proof (cases "\<exists>fid str. oper = OpRecordFrame fid str")
    case True
    then obtain fid str where "oper = OpRecordFrame fid str" by blast
    with RecordFrame_contract(1,2) [where b = b and fid = fid and str = str] RecordFrame_sticky [of b fid str] codes_ok_after [of "codes b" fid] show ?thesis
      by (auto simp: buffer_inv_def)
  next
    case False
    then obtain bytes where "emits (perform oper) bytes" using perform_plain by blast
    from emitsD [OF this, of b] show ?thesis by (auto simp: buffer_inv_def)
  qed
  then show "buffer_inv b \<Longrightarrow> buffer_inv (perform oper b)"
    and "overflowed b \<Longrightarrow> overflowed (perform oper b) \<and> buffer (perform oper b) = buffer b" by blast+
qed

lemma fold_perform:
  shows "buffer_inv b \<Longrightarrow> buffer_inv (fold perform ops b)"
    and "overflowed b \<Longrightarrow> overflowed (fold perform ops b) \<and> buffer (fold perform ops b) = buffer b"
  by (induction ops arbitrary: b) (auto simp: perform_contract)

text \<open>The sample buffer never exceeds its maximum. Whatever operations are performed, in whatever order,
  the buffer stays within 200 KiB and the code table hands out the codes 1, 2, 3, ... to distinct functions, all of
  them positive 16-bit numbers; and from the first write that does not fit, the overflow flag stays set and
  not a single byte is added.\<close>

theorem sample_buffer_bounded:
  assumes "fold perform ops ThreadSamplesBuffer = b"
  shows "length (buffer b) \<le> 204800 \<and> map snd (codes b) = [1..<length (codes b) + 1] \<and> distinct (map fst (codes b)) \<and>
    length (codes b) < 10000 \<and>
    (IsOverflowed b \<longrightarrow> (\<forall>later. IsOverflowed (fold perform later b) \<and> buffer (fold perform later b) = buffer b))"
proof -
  have "buffer_inv ThreadSamplesBuffer"
    by (simp add: buffer_inv_def ThreadSamplesBuffer_def codes_ok_def kMaxCodesPerBuffer_def)
  then have "buffer_inv b" using fold_perform(1) assms by blast
  then show ?thesis using fold_perform(2)
    by (auto simp: buffer_inv_def codes_ok_def kSamplesBufferMaximumSize_def kMaxCodesPerBuffer_def IsOverflowed_def)
qed

theorem sample_buffer_bounded_witness:
  "length (buffer (perform OpEndBatch (perform (OpStartBatch 7) ThreadSamplesBuffer))) \<le> 204800"
  using sample_buffer_bounded [of "[OpStartBatch 7, OpEndBatch]" "perform OpEndBatch (perform (OpStartBatch 7) ThreadSamplesBuffer)"]
  by simp

end
