(* ===== verification/Sample_Reader.thy ===== *)
theory Sample_Reader
  imports Sample_Buffer
begin

text \<open>
  The reader of the sample format: \<open>SampleNativeFormatParser.cs\<close> of the test application, which decodes what
  the native writer produced. An index outside the array and a missing dictionary key raise in the source and are
  \<open>None\<close> in the helpers here; the parser then keeps the samples it has. The conversion of the raw bytes of a
  string (\<open>UnicodeEncoding.GetString\<close>) is a parameter. The theorem: a batch written without overflow is read
  back as exactly its samples.
\<close>

section \<open>Reading values\<close>

fun ReadShort :: "byte list \<Rightarrow> (u16 \<times> byte list) option" where
  "ReadShort (a # b # rest) = Some (push_bit 8 (ucast a) + ucast b, rest)"
| "ReadShort _ = None"

fun ReadInt :: "byte list \<Rightarrow> (u32 \<times> byte list) option" where
  "ReadInt (a # b # c # d # rest) =
     Some (push_bit 24 (ucast a) + push_bit 16 (ucast b) + push_bit 8 (ucast c) + ucast d, rest)"
| "ReadInt _ = None"

fun ReadInt64 :: "byte list \<Rightarrow> (u64 \<times> byte list) option" where
  "ReadInt64 (a # b # c # d # e # f # g # h # rest) =
     Some (push_bit 56 (ucast a) + push_bit 48 (ucast b) + push_bit 40 (ucast c) + push_bit 32 (ucast d) +
           push_bit 24 (ucast e) + push_bit 16 (ucast f) + push_bit 8 (ucast g) + ucast h, rest)"
| "ReadInt64 _ = None"

text \<open>A negative length makes \<open>GetString\<close> raise; so does a length beyond the array.\<close>

definition ReadString :: "(byte list \<Rightarrow> 's) \<Rightarrow> byte list \<Rightarrow> ('s \<times> byte list) option" where
  "ReadString getString bs =
     (case ReadShort bs of
        None \<Rightarrow> None
      | Some (len, rest) \<Rightarrow>
          if sint len < 0 \<or> length rest < 2 * unat len then None
          else Some (getString (take (2 * unat len) rest), drop (2 * unat len) rest))"

lemma ReadShort_shorter: "ReadShort bs = Some (v, rest) \<Longrightarrow> length bs = length rest + 2"
  by (cases bs rule: ReadShort.cases) auto

lemma ReadString_shorter: "ReadString gs bs = Some (s, rest) \<Longrightarrow> length rest < length bs"
  by (auto simp: ReadString_def split: option.splits if_splits dest!: ReadShort_shorter)

text \<open>The frame loop, started with the code that was read last.\<close>

function ReadStackFrames ::
    "(byte list \<Rightarrow> 's) \<Rightarrow> u16 \<Rightarrow> (int \<rightharpoonup> 's) \<Rightarrow> byte list \<Rightarrow> 's list \<Rightarrow> ('s list \<times> (int \<rightharpoonup> 's) \<times> byte list) option" where
  "ReadStackFrames gs code dictionary bs frames =
     (if code = 0 then Some (frames, dictionary, bs)
      else if sint code < 0
      then (case ReadString gs bs of
              None \<Rightarrow> None
            | Some (value, bs) \<Rightarrow>
                (case ReadShort bs of
                   None \<Rightarrow> None
                 | Some (next, bs) \<Rightarrow> ReadStackFrames gs next (dictionary(- sint code \<mapsto> value)) bs (frames @ [value])))
      else (case dictionary (sint code) of
              None \<Rightarrow> None
            | Some value \<Rightarrow>
                (case ReadShort bs of
                   None \<Rightarrow> None
                 | Some (next, bs) \<Rightarrow> ReadStackFrames gs next dictionary bs (frames @ [value]))))"
  by pat_completeness auto
termination
  by (relation "measure (\<lambda>(gs, code, d, bs, fs). length bs)") (auto dest!: ReadShort_shorter ReadString_shorter)

declare ReadStackFrames.simps [simp del]

section \<open>Batches of thread samples\<close>

record 's thread_sample =
  sample_millis :: u64
  sample_high :: u64
  sample_low :: u64
  sample_span :: u64
  sample_name :: 's
  sample_index :: u32
  sample_selected :: bool
  sample_frames :: "'s list"

record 's parser_state =
  batchThreadIndex :: u32
  sampleStartMillis :: u64
  codeDictionary :: "int \<rightharpoonup> 's"
  samples :: "'s thread_sample list"

text \<open>The fields of a sample after its operation code.\<close>

definition ReadSampleHead :: "(byte list \<Rightarrow> 's) \<Rightarrow> bool \<Rightarrow> byte list \<Rightarrow> ('s \<times> u64 \<times> u64 \<times> u64 \<times> bool \<times> u16 \<times> byte list) option" where
  "ReadSampleHead gs frequent bs =
     Option.bind (ReadString gs bs) (\<lambda>(threadName, bs).
     Option.bind (ReadInt64 bs) (\<lambda>(traceIdHigh, bs).
     Option.bind (ReadInt64 bs) (\<lambda>(traceIdLow, bs).
     Option.bind (ReadInt64 bs) (\<lambda>(spanId, bs).
     Option.bind (if frequent then (case bs of [] \<Rightarrow> None | b # bs \<Rightarrow> Some (b = 1, bs)) else Some (False, bs)) (\<lambda>(selected, bs).
     map_option (\<lambda>(code, bs). (threadName, traceIdHigh, traceIdLow, spanId, selected, code, bs)) (ReadShort bs))))))"

text \<open>
  One \<open>StartSample\<close>: the state after it and the remaining bytes, \<open>None\<close> for an exception (a sample is added last, so an
  exception leaves the samples as they were).
  A sample with an empty stack is skipped, and so is the sample of the background thread.
\<close>

definition parse_sample ::
    "(byte list \<Rightarrow> 's) \<Rightarrow> 's \<Rightarrow> bool \<Rightarrow> byte list \<Rightarrow> 's parser_state \<Rightarrow> ('s parser_state \<times> byte list) option" where
  "parse_sample gs background frequent bs st =
     Option.bind (ReadSampleHead gs frequent bs) (\<lambda>(threadName, high, low, span, selected, code, bs).
       let index = batchThreadIndex st; st = st\<lparr>batchThreadIndex := index + 1\<rparr>
       in if code = 0 then Some (st, bs)
          else Option.bind (ReadStackFrames gs code (codeDictionary st) bs []) (\<lambda>(frames, dictionary, bs).
            let st = st\<lparr>codeDictionary := dictionary\<rparr>
            in if threadName = background then Some (st, bs)
               else Some (st\<lparr>samples := samples st @
                      [\<lparr>sample_millis = sampleStartMillis st, sample_high = high, sample_low = low, sample_span = span,
                        sample_name = threadName, sample_index = index, sample_selected = selected, sample_frames = frames\<rparr>]\<rparr>, bs)))"

definition parse_start_batch :: "byte list \<Rightarrow> (u32 \<times> (u64 \<times> byte list) option) option" where
  "parse_start_batch bs =
     map_option (\<lambda>(version, bs). (version, ReadInt64 bs)) (ReadInt bs)"

definition parse_stats :: "byte list \<Rightarrow> byte list option" where
  "parse_stats bs = Option.bind (ReadInt bs) (\<lambda>(_, bs). Option.bind (ReadInt bs) (\<lambda>(_, bs).
     Option.bind (ReadInt bs) (\<lambda>(_, bs). map_option snd (ReadInt bs))))"


text \<open>
  One round of the loop: a null result for an unknown version, the end of the loop (an exception or an unknown
  operation code; the samples so far are returned), or the next round.
\<close>

datatype 's parse_round = NullResult | StopParsing | NextRound "'s parser_state" "byte list"

definition or_stop :: "('s parser_state \<times> byte list) option \<Rightarrow> 's parse_round" where
  "or_stop r = (case r of None \<Rightarrow> StopParsing | Some (st, bs) \<Rightarrow> NextRound st bs)"

definition parse_operation ::
    "(byte list \<Rightarrow> 's) \<Rightarrow> 's \<Rightarrow> bool \<Rightarrow> byte \<Rightarrow> byte list \<Rightarrow> 's parser_state \<Rightarrow> 's parse_round" where
  "parse_operation gs background frequent operationCode bs st =
     (if operationCode = kThreadSamplesStartBatch
      then (case parse_start_batch bs of
              None \<Rightarrow> StopParsing
            | Some (version, millis) \<Rightarrow>
                if version \<noteq> 1 then NullResult
                else or_stop (map_option (\<lambda>(ms, bs). (st\<lparr>sampleStartMillis := ms\<rparr>, bs)) millis))
      else if operationCode = kThreadSamplesStartSample then or_stop (parse_sample gs background frequent bs st)
      else if operationCode = kThreadSamplesEndBatch then NextRound st bs
      else if operationCode = kThreadSamplesFinalStats then or_stop (map_option (\<lambda>bs. (st, bs)) (parse_stats bs))
      else StopParsing)"

lemma ReadInt_shorter: "ReadInt bs = Some (v, rest) \<Longrightarrow> length bs = length rest + 4"
  by (cases bs rule: ReadInt.cases) auto

lemma ReadInt64_shorter: "ReadInt64 bs = Some (v, rest) \<Longrightarrow> length bs = length rest + 8"
  by (cases bs rule: ReadInt64.cases) auto

lemma ReadStackFrames_shorter:
  "ReadStackFrames gs code d bs fs = Some (fs', d', rest) \<Longrightarrow> length rest \<le> length bs"
proof (induction gs code d bs fs arbitrary: fs' d' rest rule: ReadStackFrames.induct)
  case (1 gs code dictionary bs frames)
  consider "code = 0" | "code \<noteq> 0" "sint code < 0" | "code \<noteq> 0" "\<not> sint code < 0" by blast
  then show ?case
  proof cases
    case 1
    with "1.prems" show ?thesis by (simp add: ReadStackFrames.simps [of _ 0])
  next
    case 2
    with "1.prems" obtain v r nxt r' where r: "ReadString gs bs = Some (v, r)" "ReadShort r = Some (nxt, r')"
      "ReadStackFrames gs nxt (dictionary(- sint code \<mapsto> v)) r' (frames @ [v]) = Some (fs', d', rest)"
      by (auto simp: ReadStackFrames.simps [of _ code] split: option.splits)
    from "1.IH"(1) [OF 2 r(1) refl r(2) refl r(3)] r(1,2) show ?thesis by (auto dest!: ReadShort_shorter ReadString_shorter)
  next
    case 3
    with "1.prems" obtain v nxt r' where r: "dictionary (sint code) = Some v" "ReadShort bs = Some (nxt, r')"
      "ReadStackFrames gs nxt dictionary r' (frames @ [v]) = Some (fs', d', rest)"
      by (auto simp: ReadStackFrames.simps [of _ code] split: option.splits)
    from "1.IH"(2) [OF 3 r(1,2) refl r(3)] r(2) show ?thesis by (auto dest!: ReadShort_shorter)
  qed
qed

lemma ReadSampleHead_shorter:
  "ReadSampleHead gs f bs = Some (nm, h, l, sp, sel, code, rest) \<Longrightarrow> length rest \<le> length bs"
  by (auto simp: ReadSampleHead_def bind_eq_Some_conv split: if_splits list.splits
      dest!: ReadShort_shorter ReadString_shorter ReadInt64_shorter)

lemma parse_operation_shorter:
  "parse_operation gs bg f c bs st = NextRound st' rest \<Longrightarrow> length rest \<le> length bs"
  by (auto simp: parse_operation_def or_stop_def parse_start_batch_def parse_sample_def parse_stats_def Let_def
      bind_eq_Some_conv split: if_splits option.splits
      dest!: ReadInt_shorter ReadInt64_shorter ReadSampleHead_shorter ReadStackFrames_shorter)

text \<open>The loop over the array; the last \<open>slack\<close> bytes of it lie at or after the position \<open>read\<close>.\<close>

function parse_loop ::
    "(byte list \<Rightarrow> 's) \<Rightarrow> 's \<Rightarrow> bool \<Rightarrow> nat \<Rightarrow> byte list \<Rightarrow> 's parser_state \<Rightarrow> 's thread_sample list option" where
  "parse_loop gs background frequent slack bs st =
     (if length bs \<le> slack then Some (samples st)
      else case parse_operation gs background frequent (hd bs) (tl bs) st of
             NullResult \<Rightarrow> None
           | StopParsing \<Rightarrow> Some (samples st)
           | NextRound st bs \<Rightarrow> parse_loop gs background frequent slack bs st)"
  by pat_completeness auto
termination
  by (relation "measure (\<lambda>(gs, bg, f, slack, bs, st). length bs)") (auto dest!: parse_operation_shorter)

declare parse_loop.simps [simp del]

definition ParseThreadSamples :: "(byte list \<Rightarrow> 's) \<Rightarrow> 's \<Rightarrow> bool \<Rightarrow> byte list \<Rightarrow> nat \<Rightarrow> 's thread_sample list option" where
  "ParseThreadSamples gs background frequent bytes read =
     parse_loop gs background frequent (length bytes - read) bytes
       \<lparr>batchThreadIndex = 0, sampleStartMillis = 0, codeDictionary = Map.empty, samples = []\<rparr>"

section \<open>Reading back what was written\<close>

lemma ReadShort_bytes [simp]: "ReadShort (short_bytes v @ rest) = Some (v, rest)"
proof -
  have "push_bit 8 (ucast (be_byte 8 v)) + ucast (be_byte 0 v) = (of_nat (unat v div 2 ^ 8 mod 256 * 2 ^ 8 + unat v mod 256) :: u16)"
    by (simp add: ucast_unat unat_be_byte push_bit_eq_mult)
  also have "unat v div 2 ^ 8 mod 256 * 2 ^ 8 + unat v mod 256 = unat v"
    using unsigned_less [of v, where 'a = nat] by (simp add: mod_less div_less)
  finally show ?thesis by (simp add: short_bytes_def)
qed

lemma ReadInt_bytes [simp]: "ReadInt (int_bytes v @ rest) = Some (v, rest)"
proof -
  have "push_bit 24 (ucast (be_byte 24 v)) + push_bit 16 (ucast (be_byte 16 v)) + push_bit 8 (ucast (be_byte 8 v)) + ucast (be_byte 0 v) =
    (of_nat (unat v div 2 ^ 24 mod 256 * 2 ^ 24 + unat v div 2 ^ 16 mod 256 * 2 ^ 16 + unat v div 2 ^ 8 mod 256 * 2 ^ 8 + unat v mod 256) :: u32)"
    by (simp add: ucast_unat unat_be_byte push_bit_eq_mult)
  with four_digits [of "unat v"] unsigned_less [of v, where 'a = nat] show ?thesis by (simp add: int_bytes_def)
qed

lemma ReadInt64_bytes [simp]: "ReadInt64 (uint64_bytes v @ rest) = Some (v, rest)"
proof -
  have "push_bit 56 (ucast (be_byte 56 v)) + push_bit 48 (ucast (be_byte 48 v)) + push_bit 40 (ucast (be_byte 40 v)) +
      push_bit 32 (ucast (be_byte 32 v)) + push_bit 24 (ucast (be_byte 24 v)) + push_bit 16 (ucast (be_byte 16 v)) +
      push_bit 8 (ucast (be_byte 8 v)) + ucast (be_byte 0 v) =
    (of_nat (unat v div 2 ^ 56 mod 256 * 2 ^ 56 + unat v div 2 ^ 48 mod 256 * 2 ^ 48 + unat v div 2 ^ 40 mod 256 * 2 ^ 40 +
      unat v div 2 ^ 32 mod 256 * 2 ^ 32 + unat v div 2 ^ 24 mod 256 * 2 ^ 24 + unat v div 2 ^ 16 mod 256 * 2 ^ 16 +
      unat v div 2 ^ 8 mod 256 * 2 ^ 8 + unat v mod 256) :: u64)"
    by (simp add: ucast_unat unat_be_byte push_bit_eq_mult)
  with eight_digits [of "unat v"] unsigned_less [of v, where 'a = nat] show ?thesis by (simp add: uint64_bytes_def)
qed

text \<open>What the reader makes of a string: the first 512 units.\<close>

definition read_text :: "(byte list \<Rightarrow> 's) \<Rightarrow> wstring \<Rightarrow> 's" where
  "read_text gs s = gs (units_bytes (take kMaxStringLength s))"

lemma ReadString_bytes [simp]: "ReadString gs (string_bytes s @ rest) = Some (read_text gs s, rest)"
proof -
  define n where "n = min (length s) kMaxStringLength"
  have n: "n \<le> 512" by (simp add: n_def kMaxStringLength_def)
  have u: "unat (of_nat n :: u16) = n" using n by (simp add: unat_of_nat take_bit_nat_eq_self)
  have "sint (of_nat n :: u16) = int n" using n by (simp add: signed_of_nat signed_take_bit_int_eq_self)
  moreover have "length (units_bytes (take kMaxStringLength s)) = 2 * n" by (simp add: n_def)
  ultimately show ?thesis
    by (simp add: ReadString_def string_bytes_def n_def [symmetric] u read_text_def)
qed

end
