(* ===== verification/Sample_Batch.thy ===== *)
theory Sample_Batch
  imports Sample_Reader
begin

text \<open>
  Producing a batch: \<open>ResolveFrames\<close> and the \<open>ResolveSymbolsAndPublishBuffer\<close> functions of
  \<open>continuous_profiler.cpp\<close>, up to the publication of the bytes. What they ask of the rest of the profiler (the
  name of a function, the state and the span context of a thread, the selected traces) is a record of functions,
  fixed while the batch is written. The theorem: what is written without overflow is read back exactly.
\<close>

section \<open>The code that writes a batch\<close>

record profiler_view =
  function_name :: "function_identifier \<Rightarrow> wstring"
  thread_name :: "u64 \<Rightarrow> wstring option"
  thread_context :: "u64 \<Rightarrow> thread_span_context option"
  selected_trace :: "trace_context \<Rightarrow> bool"

definition ResolveFrames :: "profiler_view \<Rightarrow> function_identifier list \<Rightarrow> samples_buffer \<Rightarrow> samples_buffer" where
  "ResolveFrames view threadStack = fold (\<lambda>fid. RecordFrame fid (function_name view fid)) threadStack"

text \<open>The name of an unknown thread state is empty, and so is the context of a thread without one.\<close>

definition GetThreadState :: "profiler_view \<Rightarrow> u64 \<Rightarrow> wstring" where
  "GetThreadState view tid = (case thread_name view tid of Some nm \<Rightarrow> nm | None \<Rightarrow> [])"

definition GetContext :: "profiler_view \<Rightarrow> u64 \<Rightarrow> thread_span_context" where
  "GetContext view tid = (case thread_context view tid of Some ctx \<Rightarrow> ctx | None \<Rightarrow> span_context 0 0 0)"

definition write_thread_sample ::
    "profiler_view \<Rightarrow> bool \<Rightarrow> u64 \<times> function_identifier list \<Rightarrow> samples_buffer \<Rightarrow> samples_buffer" where
  "write_thread_sample view selectiveSamplingEnabled = (\<lambda>(tid, threadStack) b.
     if threadStack = [] then b
     else let spanContext = GetContext view tid;
              b = StartSample (GetThreadState view tid) spanContext b;
              b = (if selectiveSamplingEnabled
                   then MarkSelectedForFrequentSampling (selected_trace view (trace_context_of spanContext)) b else b)
          in EndSample (ResolveFrames view threadStack b))"

definition ResolveSymbolsForAllThreads ::
    "profiler_view \<Rightarrow> bool \<Rightarrow> u64 \<Rightarrow> sampling_statistics \<Rightarrow> (u64 \<times> function_identifier list) list \<Rightarrow> samples_buffer" where
  "ResolveSymbolsForAllThreads view selectiveSamplingEnabled now stats threadStacks =
     (let b = StartBatch now ThreadSamplesBuffer;
          b = fold (write_thread_sample view selectiveSamplingEnabled) threadStacks b
      in WriteFinalStats stats (EndBatch b))"

text \<open>The clock is read once per selected thread.\<close>

definition write_selected_sample ::
    "profiler_view \<Rightarrow> u64 \<times> u64 \<times> function_identifier list \<Rightarrow> samples_buffer \<Rightarrow> samples_buffer" where
  "write_selected_sample view = (\<lambda>(now, tid, threadStack) b.
     if threadStack = [] then b
     else EndSample (ResolveFrames view threadStack
            (StartSampleForSelectedThread now (GetThreadState view tid) (GetContext view tid) b)))"

text \<open>The bytes handed to the selective buffer; nothing when shutdown was requested or a write did not fit.\<close>

definition ResolveSymbolsForSelectedThreads ::
    "profiler_view \<Rightarrow> bool \<Rightarrow> (u64 \<times> u64 \<times> function_identifier list) list \<Rightarrow> byte list option" where
  "ResolveSymbolsForSelectedThreads view shutdownRequested threadStacks =
     (let b = StartSelectedThreadsBatch ThreadSamplesBuffer;
          b = fold (write_selected_sample view) threadStacks b;
          b = EndSelectedThreadsBatch b
      in if shutdownRequested \<or> IsOverflowed b then None else Some (buffer b))"

section \<open>The bytes of a batch\<close>

text \<open>The contract of a write that also extends the code table.\<close>

definition emits_coded ::
    "(samples_buffer \<Rightarrow> samples_buffer) \<Rightarrow> ((function_identifier \<times> nat) list \<Rightarrow> byte list) \<Rightarrow>
     ((function_identifier \<times> nat) list \<Rightarrow> (function_identifier \<times> nat) list) \<Rightarrow> bool" where
  "emits_coded write bytes_of codes_of \<longleftrightarrow>
     (\<forall>b. \<not> overflowed (write b) \<longrightarrow> \<not> overflowed b \<and> buffer (write b) = buffer b @ bytes_of (codes b) \<and>
        codes (write b) = codes_of (codes b))"

lemma emits_codedD:
  assumes "emits_coded w bs cs" "\<not> overflowed (w b)"
  shows "\<not> overflowed b" "buffer (w b) = buffer b @ bs (codes b)" "codes (w b) = cs (codes b)"
  using assms by (auto simp: emits_coded_def)

lemma emits_coded_plain:
  assumes "emits w bytes"
  shows "emits_coded w (\<lambda>_. bytes) (\<lambda>cs. cs)"
  unfolding emits_coded_def using emitsD(4-6) [OF assms] by simp

lemma emits_coded_cong:
  assumes "emits_coded v xs f" "\<And>b. w b = v b" "\<And>cs. ys cs = xs cs" "\<And>cs. g cs = f cs"
  shows "emits_coded w ys g"
  using assms(1) unfolding emits_coded_def assms(2-4) .

lemma emits_coded_compose:
  assumes "emits_coded v xs f" "emits_coded w ys g"
  shows "emits_coded (\<lambda>b. w (v b)) (\<lambda>cs. xs cs @ ys (f cs)) (\<lambda>cs. g (f cs))"
proof (unfold emits_coded_def, intro allI impI)
  fix b
  assume no: "\<not> overflowed (w (v b))"
  note w = emits_codedD [OF assms(2) no] and v = emits_codedD [OF assms(1) emits_codedD(1) [OF assms(2) no]]
  show "\<not> overflowed b \<and> buffer (w (v b)) = buffer b @ xs (codes b) @ ys (f (codes b)) \<and> codes (w (v b)) = g (f (codes b))"
    using v(1) by (simp only: w(2,3) v(2,3) append_assoc simp_thms)
qed

primrec stack_bytes :: "(function_identifier \<Rightarrow> wstring) \<Rightarrow> function_identifier list \<Rightarrow> (function_identifier \<times> nat) list \<Rightarrow> byte list" where
  "stack_bytes nm [] cs = []"
| "stack_bytes nm (fid # fids) cs = frame_bytes cs fid (nm fid) @ stack_bytes nm fids (codes_after cs fid)"

abbreviation stack_codes :: "function_identifier list \<Rightarrow> (function_identifier \<times> nat) list \<Rightarrow> (function_identifier \<times> nat) list" where
  "stack_codes fids cs \<equiv> fold (\<lambda>fid cs. codes_after cs fid) fids cs"

lemma emits_ResolveFrames:
  "emits_coded (ResolveFrames view fids) (stack_bytes (function_name view) fids) (stack_codes fids)"
proof (induction fids)
  case Nil
  show ?case by (simp add: emits_coded_def ResolveFrames_def)
next
  case (Cons fid fids)
  have "emits_coded (RecordFrame fid s) (\<lambda>cs. frame_bytes cs fid s) (\<lambda>cs. codes_after cs fid)" for s
    by (simp add: emits_coded_def RecordFrame_contract(3))
  from emits_coded_compose [OF this Cons.IH] show ?case by (simp add: ResolveFrames_def)
qed

definition selection_bytes :: "profiler_view \<Rightarrow> bool \<Rightarrow> u64 \<Rightarrow> byte list" where
  "selection_bytes view frequent tid =
     (if frequent then [if selected_trace view (trace_context_of (GetContext view tid)) then 1 else 0] else [])"

definition thread_bytes ::
    "profiler_view \<Rightarrow> bool \<Rightarrow> u64 \<times> function_identifier list \<Rightarrow> (function_identifier \<times> nat) list \<Rightarrow> byte list" where
  "thread_bytes view frequent = (\<lambda>(tid, stack) cs.
     if stack = [] then []
     else [kThreadSamplesStartSample] @ string_bytes (GetThreadState view tid) @ span_bytes (GetContext view tid) @
       selection_bytes view frequent tid @ stack_bytes (function_name view) stack cs @ short_bytes 0)"

lemma emits_selection:
  "emits_coded (\<lambda>b. if frequent then MarkSelectedForFrequentSampling (selected_trace view (trace_context_of (GetContext view tid))) b else b)
     (\<lambda>_. selection_bytes view frequent tid) (\<lambda>cs. cs)"
  using emits_coded_plain [OF emits_operations(6)]
  by (cases frequent) (simp_all add: selection_bytes_def emits_coded_def)

lemma emits_thread_sample:
  "emits_coded (write_thread_sample view frequent ts) (thread_bytes view frequent ts) (stack_codes (snd ts))"
proof (cases "snd ts = []")
  case True
  then show ?thesis by (simp add: emits_coded_def write_thread_sample_def thread_bytes_def split_beta)
next
  case False
  note parts = emits_coded_plain [OF emits_operations(4) [where nm = "GetThreadState view (fst ts)" and ctx = "GetContext view (fst ts)"]]
    emits_selection [of frequent view "fst ts"] emits_ResolveFrames [of view "snd ts"] emits_coded_plain [OF emits_operations(8)]
  show ?thesis
    by (rule emits_coded_cong [OF emits_coded_compose [OF emits_coded_compose [OF emits_coded_compose [OF parts(1,2)] parts(3)] parts(4)]])
      (use False in \<open>simp_all add: write_thread_sample_def thread_bytes_def Let_def split_beta\<close>)
qed

primrec threads_bytes ::
    "profiler_view \<Rightarrow> bool \<Rightarrow> (u64 \<times> function_identifier list) list \<Rightarrow> (function_identifier \<times> nat) list \<Rightarrow> byte list" where
  "threads_bytes view frequent [] cs = []"
| "threads_bytes view frequent (ts # tss) cs =
     thread_bytes view frequent ts cs @ threads_bytes view frequent tss (stack_codes (snd ts) cs)"

lemma emits_thread_samples:
  "emits_coded (fold (write_thread_sample view frequent) tss) (threads_bytes view frequent tss) (fold (\<lambda>ts. stack_codes (snd ts)) tss)"
proof (induction tss)
  case Nil
  show ?case by (simp add: emits_coded_def)
next
  case (Cons ts tss)
  from emits_coded_compose [OF emits_thread_sample Cons.IH] show ?case by (simp add: o_def)
qed

lemma batch_bytes:
  assumes "\<not> overflowed (ResolveSymbolsForAllThreads view frequent now stats tss)"
  shows "buffer (ResolveSymbolsForAllThreads view frequent now stats tss) =
    [kThreadSamplesStartBatch] @ int_bytes kCurrentThreadSamplesBufferVersion @ uint64_bytes now @
    threads_bytes view frequent tss [] @ [kThreadSamplesEndBatch, kThreadSamplesFinalStats] @
    int_bytes (micros_suspended stats) @ int_bytes (num_threads stats) @ int_bytes (total_frames stats) @
    int_bytes (name_cache_misses stats)"
proof -
  note parts = emits_coded_plain [OF emits_operations(1)] emits_thread_samples emits_coded_plain [OF emits_operations(9)]
    emits_coded_plain [OF emits_operations(10)]
  have eq: "ResolveSymbolsForAllThreads view frequent now stats tss =
    WriteFinalStats stats (EndBatch (fold (write_thread_sample view frequent) tss (StartBatch now ThreadSamplesBuffer)))"
    by (simp add: ResolveSymbolsForAllThreads_def Let_def)
  show ?thesis
    using emits_codedD(2) [OF emits_coded_compose [OF emits_coded_compose [OF parts(1,2)] emits_coded_compose [OF parts(3,4)]] assms [unfolded eq]]
    by (simp add: eq ThreadSamplesBuffer_def)
qed

section \<open>Room for a batch\<close>

text \<open>A write that needs at most \<open>n\<close> bytes and does not overflow when there is room for one more.\<close>

definition needs :: "(samples_buffer \<Rightarrow> samples_buffer) \<Rightarrow> nat \<Rightarrow> bool" where
  "needs write n \<longleftrightarrow>
     (\<forall>b. \<not> overflowed b \<longrightarrow> length (buffer b) + n < kSamplesBufferMaximumSize \<longrightarrow>
        \<not> overflowed (write b) \<and> length (buffer (write b)) \<le> length (buffer b) + n)"

lemma needsD:
  assumes "needs w n" "\<not> overflowed b" "length (buffer b) + n < kSamplesBufferMaximumSize"
  shows "\<not> overflowed (w b)" "length (buffer (w b)) \<le> length (buffer b) + n"
  using assms by (auto simp: needs_def)

lemma needs_mono: "needs w n \<Longrightarrow> n \<le> m \<Longrightarrow> needs w m"
  by (fastforce simp: needs_def)

lemma needs_append: "length bytes \<le> n \<Longrightarrow> needs (append_bytes bytes) n"
  by (auto simp: needs_def append_bytes_def CanWrite_def)

lemma needs_compose:
  assumes "needs v m" "needs w n"
  shows "needs (\<lambda>b. w (v b)) (m + n)"
proof (unfold needs_def, intro allI impI)
  fix b :: samples_buffer
  assume "\<not> overflowed b" "length (buffer b) + (m + n) < kSamplesBufferMaximumSize"
  then have "\<not> overflowed (v b)" "length (buffer (v b)) \<le> length (buffer b) + m" "length (buffer (v b)) + n < kSamplesBufferMaximumSize"
    using needsD [OF assms(1), of b] by auto
  with needsD [OF assms(2), of "v b"]
  show "\<not> overflowed (w (v b)) \<and> length (buffer (w (v b))) \<le> length (buffer b) + (m + n)" by auto
qed

lemma needs_checked: "needs w n \<Longrightarrow> needs (checked w) n"
  by (auto simp: needs_def checked_def CanWrite_def)

lemma needs_prims:
  "needs (WriteByte x) 1" "needs (WriteShort v) 2" "needs (WriteInt i) 4" "needs (WriteUInt64 u) 8" "needs (WriteCurrentTimeMillis u) 8"
  by (auto simp: WriteByte_def WriteShort_def WriteInt_def WriteUInt64_def WriteCurrentTimeMillis_def short_bytes_def int_bytes_def
      uint64_bytes_def intro!: needs_append)

lemma needs_WriteString: "needs (WriteString s) 1026"
proof (unfold needs_def, intro allI impI)
  fix b :: samples_buffer
  define n where "n = min (length s) kMaxStringLength"
  have n: "n \<le> 512" by (simp add: n_def kMaxStringLength_def)
  assume b: "\<not> overflowed b" "length (buffer b) + 1026 < kSamplesBufferMaximumSize"
  then have "\<not> overflowed (WriteShort (of_nat n) b)" "length (buffer (WriteShort (of_nat n) b)) \<le> length (buffer b) + 2"
    using needsD [OF needs_prims(2), of b "of_nat n"] by auto
  moreover have "CanWrite (2 + n * 2) b = (True, b)" using b n by (simp add: CanWrite_def)
  ultimately show "\<not> overflowed (WriteString s b) \<and> length (buffer (WriteString s b)) \<le> length (buffer b) + 1026"
    using n by (auto simp: WriteString_def n_def [symmetric] Let_def)
qed

lemma needs_WriteSpanContext: "needs (WriteSpanContext ctx) (8 + 8 + 8)"
  unfolding WriteSpanContext_def [abs_def] by (rule needs_compose needs_prims)+

lemma needs_RecordFrame: "needs (RecordFrame fid s) 1028"
proof (unfold RecordFrame_def, rule needs_checked, unfold needs_def, intro allI impI)
  fix b :: samples_buffer
  assume b: "\<not> overflowed b" "length (buffer b) + 1028 < kSamplesBufferMaximumSize"
  have n: "needs (\<lambda>b. WriteString s (WriteShort v b)) (2 + 1026)" for v by (rule needs_compose needs_prims needs_WriteString)+
  show "\<not> overflowed (WriteCodedFrameString fid s b) \<and> length (buffer (WriteCodedFrameString fid s b)) \<le> length (buffer b) + 1028"
    using needsD [OF n, of b] needsD [OF n, of "b\<lparr>codes := cs\<rparr>" for cs] needsD [OF needs_mono [OF needs_prims(2), of 1028], of b] b
    by (auto simp: WriteCodedFrameString_def Let_def split: option.split)
qed

lemma needs_operations:
  "needs (StartBatch now) ((1 + 4) + 8)" "needs (StartSample nm ctx) ((1 + 1026) + (8 + 8 + 8))"
  "needs (MarkSelectedForFrequentSampling x) 1" "needs EndSample 2" "needs EndBatch 1" "needs (WriteFinalStats stats) ((((1 + 4) + 4) + 4) + 4)"
  unfolding StartBatch_def StartSample_def MarkSelectedForFrequentSampling_def EndSample_def EndBatch_def WriteFinalStats_def
  by (intro needs_checked needs_compose needs_prims needs_WriteString needs_WriteSpanContext)+

lemma needs_fold:
  assumes "\<And>x. needs (f x) (g x)"
  shows "needs (fold f xs) (sum_list (map g xs))"
proof (induction xs)
  case Nil
  show ?case by (simp add: needs_def)
next
  case (Cons x xs)
  from needs_compose [OF assms Cons.IH] show ?case by (simp add: o_def)
qed

lemma needs_thread_sample: "needs (write_thread_sample view frequent ts) (1054 + 1028 * length (snd ts))"
proof -
  have mark: "needs (\<lambda>b. if frequent then MarkSelectedForFrequentSampling x b else b) 1" for x
    using needs_operations(3) by (cases frequent) (auto simp: needs_def)
  have frames: "needs (ResolveFrames view stack) (1028 * length stack)" for stack
    using needs_fold [of "\<lambda>fid. RecordFrame fid (function_name view fid)" "\<lambda>_. 1028" stack] needs_RecordFrame
    by (simp add: ResolveFrames_def sum_list_triv mult.commute)
  have "needs (\<lambda>b. EndSample (ResolveFrames view (snd ts) (if frequent then MarkSelectedForFrequentSampling x (StartSample nm ctx b)
    else StartSample nm ctx b))) (1054 + 1028 * length (snd ts))" for x nm ctx
    by (rule needs_mono [OF needs_compose [OF needs_compose [OF needs_compose [OF needs_operations(2) mark] frames] needs_operations(4)]]) simp
  then show ?thesis by (auto simp: write_thread_sample_def needs_def Let_def split_beta)
qed

text \<open>A batch fits when its threads and frames are few enough, whatever the names are.\<close>

lemma batch_fits:
  assumes "31 + (\<Sum>ts\<leftarrow>threadStacks. 1054 + 1028 * length (snd ts)) < kSamplesBufferMaximumSize"
  shows "\<not> IsOverflowed (ResolveSymbolsForAllThreads view frequent now stats threadStacks)"
proof -
  have "needs (\<lambda>b. WriteFinalStats stats (EndBatch (fold (write_thread_sample view frequent) threadStacks (StartBatch now b))))
    (31 + (\<Sum>ts\<leftarrow>threadStacks. 1054 + 1028 * length (snd ts)))"
    by (rule needs_mono [OF needs_compose [OF needs_compose [OF needs_compose [OF needs_operations(1) needs_fold [OF needs_thread_sample]] needs_operations(5)] needs_operations(6)]]) simp
  from needsD(1) [OF this, of ThreadSamplesBuffer] assms show ?thesis
    by (simp add: ThreadSamplesBuffer_def IsOverflowed_def ResolveSymbolsForAllThreads_def Let_def)
qed

section \<open>Reading a batch back\<close>

lemma sint_code:
  assumes "c < 10001"
  shows "sint (of_nat c :: u16) = int c" "sint (- of_nat c :: u16) = - int c"
proof -
  show "sint (of_nat c :: u16) = int c" using assms by (simp add: signed_of_nat signed_take_bit_int_eq_self)
  have "sint (of_int (- int c) :: u16) = - int c"
    unfolding signed_of_int of_int_eq_id id_apply by (rule signed_take_bit_int_eq_self) (use assms in simp_all)
  then show "sint (- of_nat c :: u16) = - int c" by simp
qed

text \<open>The dictionary of the reader knows every code of the writer's table under its function's name.\<close>

definition dictionary_ok ::
    "(byte list \<Rightarrow> 's) \<Rightarrow> profiler_view \<Rightarrow> (function_identifier \<times> nat) list \<Rightarrow> (int \<rightharpoonup> 's) \<Rightarrow> bool" where
  "dictionary_ok gs view cs d \<longleftrightarrow> codes_ok cs \<and> (\<forall>(fid, c) \<in> set cs. d (int c) = Some (read_text gs (function_name view fid)))"

lemma codes_ok_bounds:
  assumes "codes_ok cs" "(fid, c) \<in> set cs"
  shows "0 < c" "c \<le> length cs" "length cs < 10000"
proof -
  have "c \<in> set (map snd cs)" using assms(2) by force
  then have "c \<in> set [1..<length cs + 1]" using assms(1) by (simp only: codes_ok_def)
  then show "0 < c" "c \<le> length cs" by auto
  show "length cs < 10000" using assms(1) by (simp add: codes_ok_def kMaxCodesPerBuffer_def)
qed

lemma dictionary_ok_after:
  assumes "dictionary_ok gs view cs d" "map_of cs fid = None"
  shows "dictionary_ok gs view (codes_after cs fid) (d(int (length cs + 1) \<mapsto> read_text gs (function_name view fid)))"
proof -
  have ok: "codes_ok cs" using assms(1) by (simp add: dictionary_ok_def)
  have "int c \<noteq> 1 + int (length cs)" if "(f, c) \<in> set cs" for f c using codes_ok_bounds(2) [OF ok that] by simp
  with assms codes_ok_after [OF ok, of fid] show ?thesis
    by (auto simp: dictionary_ok_def codes_after_def)
qed

definition read_frames :: "(byte list \<Rightarrow> 's) \<Rightarrow> (int \<rightharpoonup> 's) \<Rightarrow> byte list \<Rightarrow> 's list \<Rightarrow> ('s list \<times> (int \<rightharpoonup> 's) \<times> byte list) option" where
  "read_frames gs d bs fs = Option.bind (ReadShort bs) (\<lambda>(code, bs). ReadStackFrames gs code d bs fs)"

lemma read_frame:
  assumes ok: "dictionary_ok gs view cs d"
  obtains d' where "dictionary_ok gs view (codes_after cs fid) d'"
    "\<And>rest fs. read_frames gs d (frame_bytes cs fid (function_name view fid) @ rest) fs =
       read_frames gs d' rest (fs @ [read_text gs (function_name view fid)])"
    "\<And>rest. \<exists>code bs. code \<noteq> 0 \<and> ReadShort (frame_bytes cs fid (function_name view fid) @ rest) = Some (code, bs)"
proof (cases "map_of cs fid")
  case None
  have n: "length cs + 1 < 10001" using ok by (simp add: dictionary_ok_def codes_ok_def kMaxCodesPerBuffer_def)
  have s: "sint (- of_nat (length cs + 1) :: u16) = - int (length cs + 1)" using sint_code(2) [OF n] .
  then have nz: "(- of_nat (length cs + 1) :: u16) \<noteq> 0" by (metis add_is_0 neg_equal_0_iff_equal of_nat_eq_0_iff signed_0 zero_neq_one)
  show ?thesis
    by (rule that [OF dictionary_ok_after [OF ok None]])
      (use None s nz in \<open>auto simp: read_frames_def frame_bytes_def ReadStackFrames.simps [of _ "- _"] split: option.splits simp del: of_nat_add of_nat_Suc\<close>)
next
  case (Some c)
  then have mem: "(fid, c) \<in> set cs" by (rule map_of_SomeD)
  have ok': "codes_ok cs" using ok by (simp add: dictionary_ok_def)
  note b = codes_ok_bounds [OF ok' mem]
  have s: "sint (of_nat c :: u16) = int c" using b by (intro sint_code) simp
  then have nz: "(of_nat c :: u16) \<noteq> 0" using b(1) by (metis of_nat_eq_0_iff less_numeral_extra(3) signed_0)
  have "d (int c) = Some (read_text gs (function_name view fid))" using ok mem by (auto simp: dictionary_ok_def)
  with Some s nz have "read_frames gs d (frame_bytes cs fid (function_name view fid) @ rest) fs =
       read_frames gs d rest (fs @ [read_text gs (function_name view fid)])" for rest fs
    by (simp add: read_frames_def frame_bytes_def ReadStackFrames.simps [of _ "of_nat c"] split: option.splits)
  with Some ok nz show ?thesis by (intro that [of d]) (auto simp: codes_after_def frame_bytes_def)
qed

lemma read_stack:
  assumes "dictionary_ok gs view cs d"
  obtains d' where "dictionary_ok gs view (stack_codes fids cs) d'"
    "\<And>rest fs. read_frames gs d (stack_bytes (function_name view) fids cs @ short_bytes 0 @ rest) fs =
       Some (fs @ map (\<lambda>fid. read_text gs (function_name view fid)) fids, d', rest)"
proof -
  have "\<exists>d'. dictionary_ok gs view (stack_codes fids cs) d' \<and>
    (\<forall>rest fs. read_frames gs d (stack_bytes (function_name view) fids cs @ short_bytes 0 @ rest) fs =
       Some (fs @ map (\<lambda>fid. read_text gs (function_name view fid)) fids, d', rest))"
    using assms
  proof (induction fids arbitrary: cs d)
    case Nil
    then show ?case by (auto simp: read_frames_def ReadStackFrames.simps [of _ 0])
  next
    case (Cons fid fids)
    from read_frame [OF Cons.prems, of fid] obtain e where e: "dictionary_ok gs view (codes_after cs fid) e"
      "\<And>rest fs. read_frames gs d (frame_bytes cs fid (function_name view fid) @ rest) fs =
         read_frames gs e rest (fs @ [read_text gs (function_name view fid)])" by metis
    from Cons.IH [OF e(1)] show ?case by (auto simp: e(2))
  qed
  with that show thesis by blast
qed

text \<open>What the reader is expected to make of the stacks: the samples with a stack, numbered in order, less the background thread.\<close>

definition read_sample :: "(byte list \<Rightarrow> 's) \<Rightarrow> profiler_view \<Rightarrow> bool \<Rightarrow> u64 \<Rightarrow> u32 \<Rightarrow> u64 \<times> function_identifier list \<Rightarrow> 's thread_sample" where
  "read_sample gs view frequent now index = (\<lambda>(tid, stack). let ctx = GetContext view tid in
     \<lparr>sample_millis = now, sample_high = trace_id_high (trace_context_of ctx), sample_low = trace_id_low (trace_context_of ctx),
      sample_span = span_id ctx, sample_name = read_text gs (GetThreadState view tid), sample_index = index,
      sample_selected = frequent \<and> selected_trace view (trace_context_of ctx),
      sample_frames = map (\<lambda>fid. read_text gs (function_name view fid)) stack\<rparr>)"

definition expected_samples ::
    "(byte list \<Rightarrow> 's) \<Rightarrow> 's \<Rightarrow> profiler_view \<Rightarrow> bool \<Rightarrow> u64 \<Rightarrow> nat \<Rightarrow> (u64 \<times> function_identifier list) list \<Rightarrow> 's thread_sample list" where
  "expected_samples gs background view frequent now start threadStacks =
     filter (\<lambda>s. sample_name s \<noteq> background)
       (map (\<lambda>(i, ts). read_sample gs view frequent now (of_nat i) ts)
         (enumerate start (filter (\<lambda>ts. snd ts \<noteq> []) threadStacks)))"

lemma ReadSampleHead_bytes:
  assumes "ReadShort rest = Some (code, bs)"
  shows "ReadSampleHead gs frequent (string_bytes nm @ span_bytes ctx @ (if frequent then [if sel then 1 else 0] else []) @ rest) =
    Some (read_text gs nm, trace_id_high (trace_context_of ctx), trace_id_low (trace_context_of ctx), span_id ctx, frequent \<and> sel, code, bs)"
  using assms by (simp add: ReadSampleHead_def span_bytes_def)

lemma parse_written_sample:
  assumes ok: "dictionary_ok gs view cs (codeDictionary st)" and ne: "stack \<noteq> []" and now: "sampleStartMillis st = now"
  obtains d where "dictionary_ok gs view (stack_codes stack cs) d"
    "\<And>rest. parse_sample gs bg frequent (tl (thread_bytes view frequent (tid, stack) cs) @ rest) st =
      Some (st\<lparr>batchThreadIndex := batchThreadIndex st + 1, codeDictionary := d,
        samples := samples st @ filter (\<lambda>s. sample_name s \<noteq> bg) [read_sample gs view frequent now (batchThreadIndex st) (tid, stack)]\<rparr>, rest)"
proof -
  obtain fid fids where st: "stack = fid # fids" using ne by (cases stack) auto
  obtain d where d: "dictionary_ok gs view (stack_codes stack cs) d"
    "\<And>rest fs. read_frames gs (codeDictionary st) (stack_bytes (function_name view) stack cs @ short_bytes 0 @ rest) fs =
       Some (fs @ map (\<lambda>fid. read_text gs (function_name view fid)) stack, d, rest)"
    using read_stack [OF ok, of stack] by metis
  have "parse_sample gs bg frequent (tl (thread_bytes view frequent (tid, stack) cs) @ rest) st =
      Some (st\<lparr>batchThreadIndex := batchThreadIndex st + 1, codeDictionary := d,
        samples := samples st @ filter (\<lambda>s. sample_name s \<noteq> bg) [read_sample gs view frequent now (batchThreadIndex st) (tid, stack)]\<rparr>, rest)" for rest
  proof -
    let ?tail = "stack_bytes (function_name view) stack cs @ short_bytes 0 @ rest"
    have "\<exists>code bs. code \<noteq> 0 \<and> ReadShort ?tail = Some (code, bs)"
      using read_frame [OF ok, of fid] by (simp add: st) metis
    then obtain code bs where code: "code \<noteq> 0" "ReadShort ?tail = Some (code, bs)" by blast
    have "ReadStackFrames gs code (codeDictionary st) bs [] = Some (map (\<lambda>fid. read_text gs (function_name view fid)) stack, d, rest)"
      using d(2) [of rest "[]"] code(2) by (simp add: read_frames_def)
    with code(1) show ?thesis
      using ReadSampleHead_bytes [OF code(2), of gs frequent "GetThreadState view tid" "GetContext view tid"
          "selected_trace view (trace_context_of (GetContext view tid))"] ne now
      by (simp add: parse_sample_def thread_bytes_def selection_bytes_def read_sample_def Let_def)
  qed
  with that d(1) show thesis by blast
qed

lemma parse_loop_round:
  assumes "parse_operation gs bg f c bs st = NextRound st' bs'" "slack \<le> length bs"
  shows "parse_loop gs bg f slack (c # bs) st = parse_loop gs bg f slack bs' st'"
  using assms by (simp add: parse_loop.simps [of gs bg f slack "c # bs"])

lemma parse_loop_threads:
  assumes "dictionary_ok gs view cs (codeDictionary st)" "sampleStartMillis st = now" "batchThreadIndex st = of_nat i" "slack \<le> length rest"
  obtains st' where "samples st' = samples st @ expected_samples gs bg view frequent now i tss"
    "parse_loop gs bg frequent slack (threads_bytes view frequent tss cs @ rest) st = parse_loop gs bg frequent slack rest st'"
proof -
  have "\<exists>st'. samples st' = samples st @ expected_samples gs bg view frequent now i tss \<and>
    parse_loop gs bg frequent slack (threads_bytes view frequent tss cs @ rest) st = parse_loop gs bg frequent slack rest st'"
    using assms
  proof (induction tss arbitrary: cs st i)
    case Nil
    show ?case by (rule exI [of _ st]) (simp add: expected_samples_def)
  next
    case (Cons ts tss)
    obtain tid stack where ts: "ts = (tid, stack)" by (cases ts)
    show ?case
    proof (cases "stack = []")
      case True
      with Cons.IH [OF Cons.prems] show ?thesis by (simp add: ts thread_bytes_def expected_samples_def)
    next
      case False
      let ?rest = "threads_bytes view frequent tss (stack_codes stack cs) @ rest"
      from parse_written_sample [OF Cons.prems(1) False Cons.prems(2), of bg frequent tid] obtain d
        where d: "dictionary_ok gs view (stack_codes stack cs) d"
          "\<And>rest. parse_sample gs bg frequent (tl (thread_bytes view frequent (tid, stack) cs) @ rest) st =
            Some (st\<lparr>batchThreadIndex := batchThreadIndex st + 1, codeDictionary := d,
              samples := samples st @ filter (\<lambda>s. sample_name s \<noteq> bg) [read_sample gs view frequent now (batchThreadIndex st) (tid, stack)]\<rparr>, rest)"
        by metis
      let ?st = "st\<lparr>batchThreadIndex := batchThreadIndex st + 1, codeDictionary := d,
        samples := samples st @ filter (\<lambda>s. sample_name s \<noteq> bg) [read_sample gs view frequent now (batchThreadIndex st) (tid, stack)]\<rparr>"
      have bytes: "thread_bytes view frequent ts cs = kThreadSamplesStartSample # tl (thread_bytes view frequent (tid, stack) cs)"
        using False by (simp add: ts thread_bytes_def)
      have "parse_loop gs bg frequent slack (threads_bytes view frequent (ts # tss) cs @ rest) st =
        parse_loop gs bg frequent slack ?rest ?st"
        unfolding threads_bytes.simps bytes append_Cons append_assoc
        by (rule parse_loop_round) (use d(2) Cons.prems(4) in \<open>simp_all add: parse_operation_def or_stop_def op_codes ts\<close>)
      moreover obtain st' where "samples st' = samples ?st @ expected_samples gs bg view frequent now (Suc i) tss"
        "parse_loop gs bg frequent slack ?rest ?st = parse_loop gs bg frequent slack rest st'"
        using Cons.IH [of "stack_codes stack cs" ?st "Suc i"] d(1) Cons.prems(2-4) by (auto simp: add.commute)
      ultimately show ?thesis using Cons.prems(3) False by (auto simp: expected_samples_def ts)
    qed
  qed
  with that show thesis by blast
qed

lemma parse_loop_end:
  "parse_loop gs bg f (length junk) (kThreadSamplesEndBatch # kThreadSamplesFinalStats # int_bytes a @ int_bytes b @ int_bytes c @ int_bytes d @ junk) st =
     Some (samples st)"
proof -
  have "parse_loop gs bg f (length junk) (kThreadSamplesFinalStats # int_bytes a @ int_bytes b @ int_bytes c @ int_bytes d @ junk) st =
    parse_loop gs bg f (length junk) junk st"
    by (rule parse_loop_round) (simp_all add: parse_operation_def op_codes parse_stats_def or_stop_def)
  then have "parse_loop gs bg f (length junk) (kThreadSamplesFinalStats # int_bytes a @ int_bytes b @ int_bytes c @ int_bytes d @ junk) st =
    Some (samples st)" by (simp add: parse_loop.simps [of _ _ _ _ junk])
  then show ?thesis
    by (subst parse_loop_round [where st' = st]) (simp_all add: parse_operation_def op_codes)
qed

lemma reader_decodes:
  assumes "ResolveSymbolsForAllThreads view selective now stats threadStacks = b" "\<not> IsOverflowed b"
  shows "ParseThreadSamples getString background selective (buffer b @ junk) (length (buffer b)) =
    Some (expected_samples getString background view selective now 0 threadStacks)"
proof -
  let ?st = "\<lparr>batchThreadIndex = 0, sampleStartMillis = now, codeDictionary = Map.empty, samples = []\<rparr>"
  let ?tail = "kThreadSamplesEndBatch # kThreadSamplesFinalStats # int_bytes (micros_suspended stats) @ int_bytes (num_threads stats) @
    int_bytes (total_frames stats) @ int_bytes (name_cache_misses stats) @ junk"
  have bytes: "buffer b = [kThreadSamplesStartBatch] @ int_bytes kCurrentThreadSamplesBufferVersion @ uint64_bytes now @
    threads_bytes view selective threadStacks [] @ [kThreadSamplesEndBatch, kThreadSamplesFinalStats] @
    int_bytes (micros_suspended stats) @ int_bytes (num_threads stats) @ int_bytes (total_frames stats) @ int_bytes (name_cache_misses stats)"
    using batch_bytes [of view selective now stats threadStacks] assms by (simp add: IsOverflowed_def)
  have "ParseThreadSamples getString background selective (buffer b @ junk) (length (buffer b)) =
    parse_loop getString background selective (length junk) (threads_bytes view selective threadStacks [] @ ?tail) ?st"
    unfolding ParseThreadSamples_def bytes append_Cons append_Nil append_assoc
    by (subst parse_loop_round [where st' = ?st])
      (simp_all add: parse_operation_def op_codes parse_start_batch_def kCurrentThreadSamplesBufferVersion_def or_stop_def)
  moreover obtain st where "samples st = samples ?st @ expected_samples getString background view selective now 0 threadStacks"
    "parse_loop getString background selective (length junk) (threads_bytes view selective threadStacks [] @ ?tail) ?st =
      parse_loop getString background selective (length junk) ?tail st"
    by (rule parse_loop_threads [of getString view "[]" ?st now 0 "length junk" ?tail background selective threadStacks])
      (simp_all add: dictionary_ok_def codes_ok_def kMaxCodesPerBuffer_def)
  ultimately show ?thesis by (simp add: parse_loop_end)
qed

text \<open>C17: a batch of thread samples survives the wire. When the writer did not overflow, the reader, given the
  array the bytes were copied to (with anything after them) and their number, returns exactly the samples of the
  threads with a stack, numbered in order, each with its time, its trace and span, its selection mark and the full
  list of its function names (cut to 512 units), whatever codes the writer gave the functions; only the sample
  of the profiler's own thread is left out.\<close>

theorem sample_batch_round_trip:
  assumes "ResolveSymbolsForAllThreads view selective now stats threadStacks = b" "\<not> IsOverflowed b"
  shows "ParseThreadSamples getString background selective (buffer b @ junk) (length (buffer b)) =
    Some (expected_samples getString background view selective now 0 threadStacks)"
  by (rule reader_decodes [OF assms])

text \<open>Two threads, three frames of two functions; the second stack repeats a function of the first.\<close>

definition demo_view :: profiler_view where
  "demo_view = \<lparr>function_name = (\<lambda>fid. if function_token fid = 1 then [0x66] else [0x67]), thread_name = (\<lambda>_. None),
     thread_context = (\<lambda>_. None), selected_trace = (\<lambda>_. False)\<rparr>"

definition demo_stacks :: "(u64 \<times> function_identifier list) list" where
  "demo_stacks = [(5, [Managed 1 9 True, Managed 2 9 True]), (6, []), (7, [Managed 1 9 True])]"

definition demo_stats :: sampling_statistics where
  "demo_stats = \<lparr>micros_suspended = 0, num_threads = 3, total_frames = 3, name_cache_misses = 2\<rparr>"

lemma demo_fits: "\<not> IsOverflowed (ResolveSymbolsForAllThreads demo_view False 77 demo_stats demo_stacks)"
  by (rule batch_fits) (simp add: demo_stacks_def kSamplesBufferMaximumSize_def)

lemma demo_expected:
  "map_option (map sample_frames) (Some (expected_samples id [9] demo_view False 77 0 demo_stacks)) = Some [[[0x66, 0], [0x67, 0]], [[0x66, 0]]]"
  by code_simp

theorem sample_batch_round_trip_witness:
  "map_option (map sample_frames)
     (ParseThreadSamples id [9] False (buffer (ResolveSymbolsForAllThreads demo_view False 77 demo_stats demo_stacks) @ [1, 2, 3])
       (length (buffer (ResolveSymbolsForAllThreads demo_view False 77 demo_stats demo_stacks)))) =
   Some [[[0x66, 0], [0x67, 0]], [[0x66, 0]]]"
  unfolding sample_batch_round_trip [OF refl demo_fits] by (rule demo_expected)

end
