(* ===== verification/Sample_Exchange.thy ===== *)
theory Sample_Exchange
  imports Sample_Buffer
begin

text \<open>
  The buffers between the native sampler and the managed exporter (\<open>continuous_profiler.cpp\<close>): the two slots of
  continuous thread samples, the allocation buffer, and the selective buffer with its saturation flag. Each
  operation runs under the lock of its buffer and is one step here. The interfaces are two locales: a bounded
  first-in-first-out mailbox, which the pair of slots implements, and a byte pipe with a limit, which the other
  two buffers implement.
\<close>

section \<open>The interfaces\<close>

text \<open>A history of appends (\<open>Some bytes\<close>) and reads (\<open>None\<close>): the bytes accepted, the bytes read, and the state.\<close>

primrec pipe_run ::
    "('s \<Rightarrow> byte list) \<Rightarrow> (byte list \<Rightarrow> 's \<Rightarrow> 's) \<Rightarrow> ('s \<Rightarrow> byte list \<times> 's) \<Rightarrow> byte list option list \<Rightarrow> 's \<Rightarrow> byte list \<times> byte list \<times> 's" where
  "pipe_run content add drain [] s = ([], [], s)"
| "pipe_run content add drain (e # es) s =
     (case e of
        Some xs \<Rightarrow> (case pipe_run content add drain es (add xs s) of (ins, outs, t) \<Rightarrow>
          (if content (add xs s) = content s then ins else xs @ ins, outs, t))
      | None \<Rightarrow> (case drain s of (ys, s') \<Rightarrow> case pipe_run content add drain es s' of (ins, outs, t) \<Rightarrow> (ins, ys @ outs, t)))"

locale mailbox =
  fixes ok :: "'s \<Rightarrow> bool"
    and content :: "'s \<Rightarrow> 'a list"
    and capacity :: nat
    and room :: "'s \<Rightarrow> bool"
    and put :: "'a \<Rightarrow> 's \<Rightarrow> 's"
    and take_one :: "'s \<Rightarrow> 'a option \<times> 's"
  assumes room_iff: "ok s \<Longrightarrow> room s \<longleftrightarrow> length (content s) < capacity"
    and put_ok: "ok s \<Longrightarrow> ok (put x s)"
    and put_content: "ok s \<Longrightarrow> content (put x s) = (if length (content s) < capacity then content s @ [x] else content s)"
    and take_ok: "ok s \<Longrightarrow> ok (snd (take_one s))"
    and take_empty: "ok s \<Longrightarrow> content s = [] \<Longrightarrow> fst (take_one s) = None \<and> content (snd (take_one s)) = []"
    and take_first: "ok s \<Longrightarrow> content s = x # xs \<Longrightarrow> fst (take_one s) = Some x \<and> content (snd (take_one s)) = xs"
begin

text \<open>A history is a list of puts (\<open>Some x\<close>) and takes (\<open>None\<close>); what went in, what came out, and the state.\<close>

primrec history :: "'a option list \<Rightarrow> 's \<Rightarrow> 'a list \<times> 'a list \<times> 's" where
  "history [] s = ([], [], s)"
| "history (e # es) s =
     (case e of
        Some x \<Rightarrow> (case history es (put x s) of (ins, outs, t) \<Rightarrow> (if room s then x # ins else ins, outs, t))
      | None \<Rightarrow> (case take_one s of (y, s') \<Rightarrow> case history es s' of (ins, outs, t) \<Rightarrow> (ins, (case y of None \<Rightarrow> outs | Some y \<Rightarrow> y # outs), t)))"

lemma put_bounded: "ok s \<Longrightarrow> length (content s) \<le> capacity \<Longrightarrow> length (content (put x s)) \<le> capacity"
  by (simp add: put_content)

lemma take_bounded: "ok s \<Longrightarrow> length (content s) \<le> capacity \<Longrightarrow> length (content (snd (take_one s))) \<le> capacity"
  by (cases "content s") (auto simp: take_empty take_first)

lemma first_in_first_out:
  "ok s \<Longrightarrow> history es s = (ins, outs, t) \<Longrightarrow> ok t \<and> content s @ ins = outs @ content t"
proof (induction es arbitrary: s ins outs t)
  case Nil
  then show ?case by simp
next
  case (Cons e es)
  show ?case
  proof (cases e)
    case (Some x)
    obtain ins' outs' t' where h: "history es (put x s) = (ins', outs', t')" by (metis prod_cases3)
    from Cons.IH [OF put_ok [OF Cons.prems(1)] h] Cons.prems Some h show ?thesis
      by (auto simp: put_content room_iff split: if_splits)
  next
    case None
    obtain y s' where y: "take_one s = (y, s')" by force
    obtain ins' outs' t' where h: "history es s' = (ins', outs', t')" by (metis prod_cases3)
    have "ok s'" using take_ok [OF Cons.prems(1)] y by simp
    from Cons.IH [OF this h] Cons.prems(2) None h y show ?thesis
      using take_empty [OF Cons.prems(1)] take_first [OF Cons.prems(1)] by (cases "content s") auto
  qed
qed

end

locale byte_pipe =
  fixes content :: "'s \<Rightarrow> byte list"
    and limit :: nat
    and add :: "byte list \<Rightarrow> 's \<Rightarrow> 's"
    and drain :: "'s \<Rightarrow> byte list \<times> 's"
  assumes add_content: "length xs \<le> limit \<Longrightarrow> content (add xs s) = content s \<or> content (add xs s) = content s @ xs"
    and add_limit: "length (content s) \<le> limit \<Longrightarrow> length (content (add xs s)) \<le> limit"
    and drain_bytes: "length (content s) \<le> limit \<Longrightarrow> fst (drain s) = content s"
    and drain_empties: "content (snd (drain s)) = []"
begin

lemma nothing_lost:
  "length (content s) \<le> limit \<Longrightarrow> \<forall>xs. Some xs \<in> set es \<longrightarrow> length xs \<le> limit \<Longrightarrow>
   pipe_run content add drain es s = (ins, outs, t) \<Longrightarrow> length (content t) \<le> limit \<and> content s @ ins = outs @ content t"
proof (induction es arbitrary: s ins outs t)
  case Nil
  then show ?case by simp
next
  case (Cons e es)
  have es: "\<forall>xs. Some xs \<in> set es \<longrightarrow> length xs \<le> limit" using Cons.prems(2) by simp
  show ?case
  proof (cases e)
    case (Some xs)
    obtain ins' outs' t' where h: "pipe_run content add drain es (add xs s) = (ins', outs', t')" by (metis prod_cases3)
    have "length xs \<le> limit" using Cons.prems(2) Some by simp
    from Cons.IH [OF add_limit [OF Cons.prems(1)] es h] Cons.prems(3) Some h add_content [OF this, of s] show ?thesis
      by (auto split: if_splits)
  next
    case None
    obtain ys s' where y: "drain s = (ys, s')" by force
    obtain ins' outs' t' where h: "pipe_run content add drain es s' = (ins', outs', t')" by (metis prod_cases3)
    have "ys = content s" "content s' = []"
      using drain_bytes [OF Cons.prems(1)] drain_empties [of s] y by auto
    with Cons.IH [of s', OF _ es h] Cons.prems(3) None h y show ?thesis by auto
  qed
qed

end

section \<open>Continuous thread samples: two slots\<close>

record ThreadSampleBatch =
  batch_buffer :: "byte list option"
  samplingInterval :: u32

definition empty_batch :: ThreadSampleBatch where
  "empty_batch = \<lparr>batch_buffer = None, samplingInterval = 0\<rparr>"

record cpu_buffers =
  cpu_buffer_a :: ThreadSampleBatch
  cpu_buffer_b :: ThreadSampleBatch

definition cpu_buffers_initial :: cpu_buffers where
  "cpu_buffers_initial = \<lparr>cpu_buffer_a = empty_batch, cpu_buffer_b = empty_batch\<rparr>"

definition ThreadSamplingShouldProduceThreadSample :: "cpu_buffers \<Rightarrow> bool" where
  "ThreadSamplingShouldProduceThreadSample s \<longleftrightarrow> batch_buffer (cpu_buffer_a s) = None \<or> batch_buffer (cpu_buffer_b s) = None"

definition ThreadSamplingRecordProducedThreadSample :: "byte list \<Rightarrow> u32 \<Rightarrow> cpu_buffers \<Rightarrow> cpu_buffers" where
  "ThreadSamplingRecordProducedThreadSample buf interval s =
     (if batch_buffer (cpu_buffer_a s) = None then s\<lparr>cpu_buffer_a := \<lparr>batch_buffer = Some buf, samplingInterval = interval\<rparr>\<rparr>
      else if batch_buffer (cpu_buffer_b s) = None then s\<lparr>cpu_buffer_b := \<lparr>batch_buffer = Some buf, samplingInterval = interval\<rparr>\<rparr>
      else s)"

text \<open>The critical section of the reader: the older slot, and the younger one moved up.\<close>

definition consume_slot :: "cpu_buffers \<Rightarrow> ThreadSampleBatch \<times> cpu_buffers" where
  "consume_slot s =
     (if batch_buffer (cpu_buffer_a s) \<noteq> None
      then (cpu_buffer_a s, \<lparr>cpu_buffer_a = cpu_buffer_b s, cpu_buffer_b = empty_batch\<rparr>)
      else (empty_batch, s))"

text \<open>
  What a read returns: the count, the bytes written to the caller's buffer and the value written to
  \<open>*samplingInterval\<close> (\<open>None\<close> for a null pointer). A batch longer than the caller's buffer is dropped.
\<close>

record read_result =
  returned :: int
  written :: "byte list"
  interval_out :: "u32 option"

definition ThreadSamplingConsumeOneThreadSample ::
    "u32 \<Rightarrow> bool \<Rightarrow> bool \<Rightarrow> cpu_buffers \<Rightarrow> read_result \<times> cpu_buffers" where
  "ThreadSamplingConsumeOneThreadSample len buf_null interval_null s =
     (let nothing = \<lparr>returned = 0, written = [], interval_out = (if interval_null then None else Some 0)\<rparr>
      in if sint len \<le> 0 \<or> buf_null \<or> interval_null then (nothing, s)
         else case consume_slot s of
                (batch, s) \<Rightarrow>
                  (case batch_buffer batch of
                     None \<Rightarrow> (nothing, s)
                   | Some bytes \<Rightarrow>
                       if length bytes > unat len then (nothing, s)
                       else (\<lparr>returned = int (length bytes), written = bytes, interval_out = Some (samplingInterval batch)\<rparr>, s)))"

text \<open>The two exported readers; the first has no place for the interval.\<close>

definition ContinuousProfilerReadThreadSamples :: "u32 \<Rightarrow> bool \<Rightarrow> cpu_buffers \<Rightarrow> (int \<times> byte list) \<times> cpu_buffers" where
  "ContinuousProfilerReadThreadSamples len buf_null s =
     (case ThreadSamplingConsumeOneThreadSample len buf_null False s of (r, s) \<Rightarrow> ((returned r, written r), s))"

definition ContinuousProfilerReadThreadSamplesV2 :: "u32 \<Rightarrow> bool \<Rightarrow> bool \<Rightarrow> cpu_buffers \<Rightarrow> read_result \<times> cpu_buffers" where
  "ContinuousProfilerReadThreadSamplesV2 len buf_null interval_null s =
     ThreadSamplingConsumeOneThreadSample len buf_null interval_null s"

text \<open>Publishing a finished batch: refused after shutdown and for an overflowed buffer.\<close>

definition PublishBuffer :: "bool \<Rightarrow> bool \<Rightarrow> samples_buffer \<Rightarrow> u32 \<Rightarrow> cpu_buffers \<Rightarrow> cpu_buffers" where
  "PublishBuffer admission shutdownRequested writer interval s =
     (if \<not> admission \<or> shutdownRequested \<or> IsOverflowed writer then s
      else ThreadSamplingRecordProducedThreadSample (buffer writer) interval s)"

subsection \<open>The pair of slots is a mailbox of capacity two\<close>

definition slot_content :: "ThreadSampleBatch \<Rightarrow> (byte list \<times> u32) list" where
  "slot_content b = (case batch_buffer b of None \<Rightarrow> [] | Some bytes \<Rightarrow> [(bytes, samplingInterval b)])"

definition pending :: "cpu_buffers \<Rightarrow> (byte list \<times> u32) list" where
  "pending s = slot_content (cpu_buffer_a s) @ slot_content (cpu_buffer_b s)"

definition slots_ok :: "cpu_buffers \<Rightarrow> bool" where
  "slots_ok s \<longleftrightarrow> (batch_buffer (cpu_buffer_a s) = None \<longrightarrow> batch_buffer (cpu_buffer_b s) = None)"

definition record_batch :: "byte list \<times> u32 \<Rightarrow> cpu_buffers \<Rightarrow> cpu_buffers" where
  "record_batch = (\<lambda>(bytes, interval). ThreadSamplingRecordProducedThreadSample bytes interval)"

definition take_batch :: "cpu_buffers \<Rightarrow> (byte list \<times> u32) option \<times> cpu_buffers" where
  "take_batch s = (case consume_slot s of (b, s) \<Rightarrow> (map_option (\<lambda>bytes. (bytes, samplingInterval b)) (batch_buffer b), s))"

lemma record_batch_pair: "record_batch (bytes, interval) = ThreadSamplingRecordProducedThreadSample bytes interval"
  by (simp add: record_batch_def)

lemmas slot_defs = slot_content_def pending_def slots_ok_def record_batch_def take_batch_def consume_slot_def empty_batch_def
  ThreadSamplingRecordProducedThreadSample_def ThreadSamplingShouldProduceThreadSample_def

interpretation cpu: mailbox slots_ok pending 2 ThreadSamplingShouldProduceThreadSample record_batch take_batch
  by unfold_locales (auto simp: slot_defs split: option.splits if_splits)

section \<open>Allocation samples\<close>

definition AllocationSamplingAppendToBuffer :: "u32 \<Rightarrow> byte list option \<Rightarrow> byte list \<Rightarrow> byte list" where
  "AllocationSamplingAppendToBuffer appendLen appendBuf allocation_buffer =
     (case appendBuf of
        None \<Rightarrow> allocation_buffer
      | Some bytes \<Rightarrow>
          if sint appendLen \<le> 0 then allocation_buffer
          else if length allocation_buffer + unat appendLen \<ge> kSamplesBufferMaximumSize then allocation_buffer
          else allocation_buffer @ take (unat appendLen) bytes)"

definition AllocationSamplingConsumeAndReplaceBuffer :: "u32 \<Rightarrow> bool \<Rightarrow> byte list \<Rightarrow> (int \<times> byte list) \<times> byte list" where
  "AllocationSamplingConsumeAndReplaceBuffer len buf_null allocation_buffer =
     (if sint len \<le> 0 \<or> buf_null then ((0, []), allocation_buffer)
      else let to_use_len = min (length allocation_buffer) (unat len)
           in ((int to_use_len, take to_use_len allocation_buffer), []))"

section \<open>Samples of selected threads\<close>

record selective_buffer =
  selective_sampling_buffer :: "byte list"
  selective_sampling_buffer_saturated :: bool

definition SelectiveSamplingShouldProduceThreadSample :: "selective_buffer \<Rightarrow> bool" where
  "SelectiveSamplingShouldProduceThreadSample s \<longleftrightarrow> \<not> selective_sampling_buffer_saturated s"

definition SelectiveSamplingRecordProducedThreadSample :: "u32 \<Rightarrow> byte list option \<Rightarrow> selective_buffer \<Rightarrow> selective_buffer" where
  "SelectiveSamplingRecordProducedThreadSample appendLen appendBuf s =
     (case appendBuf of
        None \<Rightarrow> s
      | Some bytes \<Rightarrow>
          if sint appendLen \<le> 0 then s
          else if selective_sampling_buffer_saturated s then s
          else let appendSize = unat appendLen; currentSize = length (selective_sampling_buffer s)
               in if currentSize > kSamplesBufferMaximumSize \<or> appendSize > kSamplesBufferMaximumSize - currentSize
                  then s\<lparr>selective_sampling_buffer_saturated := True\<rparr>
                  else let s = s\<lparr>selective_sampling_buffer := selective_sampling_buffer s @ take appendSize bytes\<rparr>
                       in if length (selective_sampling_buffer s) = kSamplesBufferMaximumSize
                          then s\<lparr>selective_sampling_buffer_saturated := True\<rparr> else s)"

definition SelectiveSamplingConsumeAndClearBuffer :: "u32 \<Rightarrow> bool \<Rightarrow> selective_buffer \<Rightarrow> (int \<times> byte list) \<times> selective_buffer" where
  "SelectiveSamplingConsumeAndClearBuffer len buf_null s =
     (if sint len \<le> 0 \<or> buf_null then ((0, []), s)
      else let to_use_len = min (length (selective_sampling_buffer s)) (unat len)
           in ((int to_use_len, take to_use_len (selective_sampling_buffer s)),
               \<lparr>selective_sampling_buffer = [], selective_sampling_buffer_saturated = False\<rparr>))"

definition ContinuousProfilerReadAllocationSamples :: "u32 \<Rightarrow> bool \<Rightarrow> byte list \<Rightarrow> (int \<times> byte list) \<times> byte list" where
  "ContinuousProfilerReadAllocationSamples len buf_null = AllocationSamplingConsumeAndReplaceBuffer len buf_null"

definition SelectiveSamplerReadThreadSamples :: "u32 \<Rightarrow> bool \<Rightarrow> selective_buffer \<Rightarrow> (int \<times> byte list) \<times> selective_buffer" where
  "SelectiveSamplerReadThreadSamples len buf_null = SelectiveSamplingConsumeAndClearBuffer len buf_null"

subsection \<open>Both buffers are byte pipes\<close>

text \<open>The exporter reads with a buffer of the maximum size; the sampler passes a vector's size and data.\<close>

definition exporter_length :: u32 where "exporter_length = 204800"

lemma exporter_length_values [simp]: "sint exporter_length = 204800" "unat exporter_length = 204800"
  by (simp_all add: exporter_length_def)

definition append_allocation :: "byte list \<Rightarrow> byte list \<Rightarrow> byte list" where
  "append_allocation bytes = AllocationSamplingAppendToBuffer (of_nat (length bytes)) (Some bytes)"

definition read_allocation :: "byte list \<Rightarrow> byte list \<times> byte list" where
  "read_allocation s = apfst snd (ContinuousProfilerReadAllocationSamples exporter_length False s)"

definition append_selective :: "byte list \<Rightarrow> selective_buffer \<Rightarrow> selective_buffer" where
  "append_selective bytes = SelectiveSamplingRecordProducedThreadSample (of_nat (length bytes)) (Some bytes)"

definition read_selective :: "selective_buffer \<Rightarrow> byte list \<times> selective_buffer" where
  "read_selective s = apfst snd (SelectiveSamplerReadThreadSamples exporter_length False s)"

lemma int32_length:
  assumes "n \<le> 204800"
  shows "unat (of_nat n :: u32) = n" "sint (of_nat n :: u32) = int n"
  using assms by (simp_all add: unat_of_nat take_bit_nat_eq_self signed_of_nat signed_take_bit_int_eq_self)

interpretation allocation: byte_pipe "\<lambda>s. s" 204799 append_allocation read_allocation
  by unfold_locales
    (auto simp: append_allocation_def AllocationSamplingAppendToBuffer_def read_allocation_def ContinuousProfilerReadAllocationSamples_def
      AllocationSamplingConsumeAndReplaceBuffer_def Let_def int32_length kSamplesBufferMaximumSize_def)

interpretation selective: byte_pipe selective_sampling_buffer 204800 append_selective read_selective
  by unfold_locales
    (auto simp: append_selective_def SelectiveSamplingRecordProducedThreadSample_def read_selective_def SelectiveSamplerReadThreadSamples_def
      SelectiveSamplingConsumeAndClearBuffer_def Let_def int32_length kSamplesBufferMaximumSize_def)

section \<open>The exchange as a whole\<close>

text \<open>A history of publications and reads; the batches accepted, the batches delivered, and the slots.\<close>

datatype exchange_event = Publish bool bool samples_buffer u32 | Read u32

primrec exchange :: "exchange_event list \<Rightarrow> cpu_buffers \<Rightarrow> (byte list \<times> u32) list \<times> (byte list \<times> u32) list \<times> cpu_buffers" where
  "exchange [] s = ([], [], s)"
| "exchange (e # es) s =
     (case e of
        Publish admission shutdownRequested writer interval \<Rightarrow>
          (case exchange es (PublishBuffer admission shutdownRequested writer interval s) of
             (acc, del, t) \<Rightarrow>
               (if admission \<and> \<not> shutdownRequested \<and> \<not> IsOverflowed writer \<and> ThreadSamplingShouldProduceThreadSample s
                then (buffer writer, interval) # acc else acc, del, t))
      | Read len \<Rightarrow>
          (case ContinuousProfilerReadThreadSamplesV2 len False False s of
             (r, s) \<Rightarrow>
               (case exchange es s of
                  (acc, del, t) \<Rightarrow>
                    (acc, if returned r = 0 then del else (written r, the (interval_out r)) # del, t))))"

definition sound_batch :: "byte list \<times> u32 \<Rightarrow> bool" where
  "sound_batch b \<longleftrightarrow> 0 < length (fst b) \<and> length (fst b) \<le> 204800"

primrec sound_event :: "exchange_event \<Rightarrow> bool" where
  "sound_event (Publish a s w i) \<longleftrightarrow> sound_batch (buffer w, i)"
| "sound_event (Read len) \<longleftrightarrow> 204800 \<le> sint len"

text \<open>The same history as the mailbox sees it.\<close>

primrec as_mail :: "exchange_event \<Rightarrow> (byte list \<times> u32) option list" where
  "as_mail (Publish a s w i) = (if a \<and> \<not> s \<and> \<not> IsOverflowed w then [Some (buffer w, i)] else [])"
| "as_mail (Read len) = [None]"

lemma publish_step:
  assumes "slots_ok s" "list_all sound_batch (pending s)" "sound_event (Publish a sd w i)"
  shows "list_all sound_batch (pending (PublishBuffer a sd w i s))" "slots_ok (PublishBuffer a sd w i s)"
  using assms by (auto simp: PublishBuffer_def slot_defs split: option.splits)

lemma read_step:
  assumes "slots_ok s" "list_all sound_batch (pending s)" "sound_event (Read len)"
    and "ContinuousProfilerReadThreadSamplesV2 len False False s = (r, t)"
  shows "take_batch s = (if returned r = 0 then None else Some (written r, the (interval_out r)), t)"
    and "list_all sound_batch (pending t)" "slots_ok t"
proof -
  have "sint len \<le> int (unat len)"
    using take_bit_int_less_eq_self_iff [of 32 "uint len"] by (simp add: sint_uint signed_take_bit_eq_take_bit_minus)
  moreover have "204800 \<le> sint len" using assms(3) by simp
  ultimately have len: "0 < sint len" "204800 \<le> unat len" by linarith+
  show "take_batch s = (if returned r = 0 then None else Some (written r, the (interval_out r)), t)"
    and "list_all sound_batch (pending t)" "slots_ok t"
    using assms(1,2,4) len
    by (auto simp: ContinuousProfilerReadThreadSamplesV2_def ThreadSamplingConsumeOneThreadSample_def slot_defs Let_def sound_batch_def
        split: option.splits if_splits)
qed

lemma exchange_is_history:
  assumes "slots_ok s" "list_all sound_batch (pending s)" "list_all sound_event es"
  shows "cpu.history (concat (map as_mail es)) s = exchange es s"
  using assms
proof (induction es arbitrary: s)
  case Nil
  show ?case by simp
next
  case (Cons e es)
  have es: "list_all sound_event es" using Cons.prems(3) by simp
  show ?case
  proof (cases e)
    case (Publish a sd w i)
    then have "sound_event (Publish a sd w i)" using Cons.prems(3) by simp
    note p = publish_step [OF Cons.prems(1,2) this]
    from Cons.IH [OF p(2,1) es] Publish show ?thesis
      by (auto simp: PublishBuffer_def record_batch_pair split: prod.split)
  next
    case (Read len)
    then have e: "sound_event (Read len)" using Cons.prems(3) by simp
    obtain r t where r: "ContinuousProfilerReadThreadSamplesV2 len False False s = (r, t)" by force
    note t = read_step [OF Cons.prems(1,2) e r]
    from Cons.IH [OF t(3,2) es] Read r t(1) show ?thesis by (auto split: prod.split)
  qed
qed

text \<open>C29: the two slots refine a first-in-first-out queue of capacity two. Over every interleaving of publications
  and reads (with a reader's buffer of at least the maximum size and non-empty batches within it), the accepted
  batches are the delivered ones followed by the pending ones, in order, each with its own sampling interval; at most
  two are pending; and a batch is accepted exactly when the sampler was told it may produce one.\<close>

theorem thread_samples_first_in_first_out:
  assumes "list_all sound_event es" "exchange es cpu_buffers_initial = (accepted, delivered, s)"
  shows "accepted = delivered @ pending s \<and> length (pending s) \<le> 2 \<and>
    (ThreadSamplingShouldProduceThreadSample s \<longleftrightarrow> length (pending s) < 2)"
proof -
  have init: "slots_ok cpu_buffers_initial" "pending cpu_buffers_initial = []" by (simp_all add: cpu_buffers_initial_def slot_defs)
  then have "cpu.history (concat (map as_mail es)) cpu_buffers_initial = (accepted, delivered, s)"
    using exchange_is_history [of cpu_buffers_initial es] assms by simp
  from cpu.first_in_first_out [OF init(1) this] init(2) have "slots_ok s" "accepted = delivered @ pending s" by simp_all
  moreover have "length (pending s) \<le> 2" by (simp add: pending_def slot_content_def split: option.split)
  ultimately show ?thesis using cpu.room_iff [of s] by simp
qed

theorem thread_samples_first_in_first_out_witness:
  "fst (snd (exchange [Publish True False \<lparr>codes = [], buffer = [7], overflowed = False\<rparr> 5,
      Publish True False \<lparr>codes = [], buffer = [8], overflowed = False\<rparr> 6,
      Publish True False \<lparr>codes = [], buffer = [9], overflowed = False\<rparr> 7, Read 204800] cpu_buffers_initial)) = [([7], 5)]"
proof -
  let ?es = "[Publish True False \<lparr>codes = [], buffer = [7], overflowed = False\<rparr> 5,
      Publish True False \<lparr>codes = [], buffer = [8], overflowed = False\<rparr> 6,
      Publish True False \<lparr>codes = [], buffer = [9], overflowed = False\<rparr> 7, Read 204800]"
  have "list_all sound_event ?es" by (simp add: sound_batch_def)
  moreover have "exchange ?es cpu_buffers_initial = ([([7], 5), ([8], 6)], [([7], 5)],
      \<lparr>cpu_buffer_a = \<lparr>batch_buffer = Some [8], samplingInterval = 6\<rparr>, cpu_buffer_b = empty_batch\<rparr>)"
    by (simp add: PublishBuffer_def IsOverflowed_def cpu_buffers_initial_def ContinuousProfilerReadThreadSamplesV2_def
        ThreadSamplingConsumeOneThreadSample_def slot_defs)
  ultimately show ?thesis using thread_samples_first_in_first_out by fastforce
qed

text \<open>The allocation and the selective buffer lose nothing they accepted. Over every interleaving of appends (of
  at most the maximum size) and reads by the exporter, the bytes accepted are the bytes read followed by the bytes
  still buffered; the buffers stay within 200 KiB; an append is taken whole or not at all; and a read releases
  the back pressure of the selective buffer.\<close>

theorem sample_pipes_lose_nothing:
  assumes "\<forall>xs. Some xs \<in> set es \<longrightarrow> length xs < 204800"
    and "pipe_run (\<lambda>s. s) append_allocation read_allocation es [] = (ins, outs, a)"
    and "pipe_run selective_sampling_buffer append_selective read_selective es
      \<lparr>selective_sampling_buffer = [], selective_sampling_buffer_saturated = False\<rparr> = (ins', outs', s)"
  shows "ins = outs @ a \<and> length a < 204800 \<and> ins' = outs' @ selective_sampling_buffer s \<and>
    length (selective_sampling_buffer s) \<le> 204800 \<and> SelectiveSamplingShouldProduceThreadSample (snd (read_selective s))"
proof -
  have "\<forall>xs. Some xs \<in> set es \<longrightarrow> length xs \<le> 204799" "\<forall>xs. Some xs \<in> set es \<longrightarrow> length xs \<le> 204800"
    using assms(1) by auto
  with allocation.nothing_lost [OF _ _ assms(2)] selective.nothing_lost [OF _ _ assms(3)]
  show ?thesis
    by (auto simp: read_selective_def SelectiveSamplerReadThreadSamples_def SelectiveSamplingConsumeAndClearBuffer_def
        SelectiveSamplingShouldProduceThreadSample_def Let_def)
qed

theorem sample_pipes_lose_nothing_witness:
  "fst (snd (pipe_run (\<lambda>s. s) append_allocation read_allocation [Some [1], Some [2], None] [])) = [1, 2]"
proof -
  let ?es = "[Some [1], Some [2], None] :: byte list option list"
  let ?s = "\<lparr>selective_sampling_buffer = [], selective_sampling_buffer_saturated = False\<rparr>"
  have "\<forall>xs. Some xs \<in> set ?es \<longrightarrow> length xs < 204800" by simp
  moreover have "pipe_run (\<lambda>s. s) append_allocation read_allocation ?es [] = ([1, 2], [1, 2], [])"
    by (simp add: append_allocation_def AllocationSamplingAppendToBuffer_def read_allocation_def
        ContinuousProfilerReadAllocationSamples_def AllocationSamplingConsumeAndReplaceBuffer_def kSamplesBufferMaximumSize_def)
  moreover obtain ins outs s where "pipe_run selective_sampling_buffer append_selective read_selective ?es ?s = (ins, outs, s)"
    by (metis prod_cases3)
  ultimately show ?thesis using sample_pipes_lose_nothing [of ?es "[1, 2]" "[1, 2]" "[]" ins outs s] by simp
qed

end
