(* ===== verification/Name_Cache.thy ===== *)
theory Name_Cache
  imports Sample_Buffer "HOL-Library.AList" "HOL-Library.Multiset"
begin

text \<open>
  The name caches of \<open>continuous_profiler.cpp\<close>: the template \<open>NameCache\<close> (a doubly linked list of entries and a map
  from keys to list iterators) and its two clients in \<open>NamingHelper\<close>. A list node is its identity with the
  entry, an iterator is the identity of a node. The interface is a locale for a least-recently-used cache; the
  name cache implements it as long as a key is put only when it is absent, which \<open>Lookup\<close> guarantees.
\<close>

section \<open>The cache\<close>

record ('k, 'v) name_cache =
  default_value :: 'v
  max_size :: nat
  nodes :: "(nat \<times> 'k \<times> 'v) list"
  index :: "('k \<times> nat) list"
  fresh :: nat

definition NameCache :: "nat \<Rightarrow> 'v \<Rightarrow> ('k, 'v) name_cache" where
  "NameCache maximum_size dflt = \<lparr>default_value = dflt, max_size = maximum_size, nodes = [], index = [], fresh = 0\<rparr>"

text \<open>A lookup moves the node to the front of the list; a missing node would be a dangling iterator.\<close>

definition Get :: "'k \<Rightarrow> ('k, 'v) name_cache \<Rightarrow> 'v \<times> ('k, 'v) name_cache" where
  "Get key c =
     (case map_of (index c) key of
        None \<Rightarrow> (default_value c, c)
      | Some i \<Rightarrow>
          (case map_of (nodes c) i of
             None \<Rightarrow> (default_value c, c)
           | Some (k, v) \<Rightarrow> (v, c\<lparr>nodes := (i, k, v) # filter (\<lambda>n. fst n \<noteq> i) (nodes c)\<rparr>)))"

definition Put :: "'k \<Rightarrow> 'v \<Rightarrow> ('k, 'v) name_cache \<Rightarrow> 'v \<times> ('k, 'v) name_cache" where
  "Put key val c =
     (let c = c\<lparr>nodes := (fresh c, key, val) # nodes c, index := AList.update key (fresh c) (index c), fresh := fresh c + 1\<rparr>
      in if length (index c) > max_size c
         then case last (nodes c) of
                (i, lru_key, old_value) \<Rightarrow> (old_value, c\<lparr>index := AList.delete lru_key (index c), nodes := butlast (nodes c)\<rparr>)
         else (default_value c, c))"

definition Clear :: "('k, 'v) name_cache \<Rightarrow> ('k, 'v) name_cache" where
  "Clear c = c\<lparr>nodes := [], index := []\<rparr>"

section \<open>The clients\<close>

definition kMaxFunctionNameCacheSize :: nat where "kMaxFunctionNameCacheSize = 5000"
definition kVolatileFunctionIdentifierCacheSize :: nat where "kVolatileFunctionIdentifierCacheSize = 2000"

record naming_helper =
  function_name_cache :: "(function_identifier, wstring option) name_cache"
  function_identifier_cache :: "(u64, function_identifier) name_cache"

definition NamingHelper :: naming_helper where
  "NamingHelper =
     \<lparr>function_name_cache = NameCache kMaxFunctionNameCacheSize None,
      function_identifier_cache = NameCache kVolatileFunctionIdentifierCacheSize ManagedInvalid\<rparr>"

definition ClearFunctionIdentifierCache :: "naming_helper \<Rightarrow> naming_helper" where
  "ClearFunctionIdentifierCache h = h\<lparr>function_identifier_cache := Clear (function_identifier_cache h)\<rparr>"

text \<open>
  \<open>ResolveNativeSymbolName\<close> is the stack walker's (\<open>None\<close> when it does not answer \<open>S_OK\<close>, no walker at all is
  \<open>resolver = None\<close>), \<open>GetFunctionName\<close> reads the module's metadata; both are arguments.
\<close>

definition unknown_native_function_name :: string where
  "unknown_native_function_name = ''Unknown_Native_Function(unknown)''"

definition resolve_name ::
    "(u64 \<Rightarrow> wstring option) option \<Rightarrow> (function_identifier \<Rightarrow> wstring) \<Rightarrow> function_identifier \<Rightarrow> wstring" where
  "resolve_name resolver GetFunctionName fid =
     (case resolver of
        Some resolve \<Rightarrow>
          if IsNative fid
          then (case resolve (native_ip fid) of Some s \<Rightarrow> s | None \<Rightarrow> map (\<lambda>c. of_char c) unknown_native_function_name)
          else GetFunctionName fid
      | None \<Rightarrow> GetFunctionName fid)"

definition Lookup ::
    "(function_identifier \<Rightarrow> wstring) \<Rightarrow> function_identifier \<Rightarrow> naming_helper \<times> sampling_statistics \<Rightarrow>
     wstring option \<times> naming_helper \<times> sampling_statistics" where
  "Lookup name fid = (\<lambda>(h, stats).
     case Get fid (function_name_cache h) of
       (Some answer, c) \<Rightarrow> (Some answer, h\<lparr>function_name_cache := c\<rparr>, stats)
     | (None, c) \<Rightarrow>
         let stats = stats\<lparr>name_cache_misses := name_cache_misses stats + 1\<rparr>; raw = Some (name fid)
         in case Put fid raw c of (evicted, c) \<Rightarrow> (raw, h\<lparr>function_name_cache := c\<rparr>, stats))"

text \<open>\<open>GetFunctionInfo2\<close> answers a module and a token, or fails.\<close>

definition ResolveManagedFunctionIdentifier :: "(u64 \<Rightarrow> (u64 \<times> u32) option) \<Rightarrow> u64 \<Rightarrow> function_identifier" where
  "ResolveManagedFunctionIdentifier GetFunctionInfo2 func_id =
     (if func_id = 0 then \<lparr>function_token = 0, module_id = 0, is_valid = True, native_ip = 0\<rparr>
      else case GetFunctionInfo2 func_id of
             None \<Rightarrow> ManagedInvalid
           | Some (module, token) \<Rightarrow> Managed token module True)"

definition LookupManagedFunction ::
    "(u64 \<Rightarrow> (u64 \<times> u32) option) \<Rightarrow> u64 \<Rightarrow> naming_helper \<Rightarrow> function_identifier \<times> naming_helper" where
  "LookupManagedFunction GetFunctionInfo2 functionId h =
     (case Get functionId (function_identifier_cache h) of
        (cached, c) \<Rightarrow>
          if is_valid cached then (cached, h\<lparr>function_identifier_cache := c\<rparr>)
          else let resolved = ResolveManagedFunctionIdentifier GetFunctionInfo2 functionId
               in (resolved, h\<lparr>function_identifier_cache := snd (Put functionId resolved c)\<rparr>))"

section \<open>The interface: a least-recently-used cache\<close>

text \<open>The most recent uses first, every key once.\<close>

definition recent :: "'k list \<Rightarrow> 'k list" where
  "recent ks = fold (\<lambda>k r. k # filter (\<lambda>x. x \<noteq> k) r) ks []"

lemma recent_snoc: "recent (ks @ [k]) = k # filter (\<lambda>x. x \<noteq> k) (recent ks)"
  by (simp add: recent_def)

lemma distinct_recent: "distinct (recent ks)"
  by (induction ks rule: rev_induct) (auto simp: recent_snoc, simp add: recent_def)

lemma filter_absent: "k \<notin> set xs \<Longrightarrow> filter (\<lambda>x. x \<noteq> k) xs = xs"
  by (rule filter_True) auto

lemma take_move_front:
  assumes "distinct r"
  shows "take n (k # filter (\<lambda>x. x \<noteq> k) (take n r)) = take n (k # filter (\<lambda>x. x \<noteq> k) r)"
proof (cases n)
  case (Suc m)
  have "take m (filter (\<lambda>x. x \<noteq> k) (take (Suc m) r)) = take m (filter (\<lambda>x. x \<noteq> k) r)" for m
    using assms
  proof (induction r arbitrary: m)
    case (Cons x r)
    show ?case
    proof (cases "x = k")
      case True
      with Cons.prems have "k \<notin> set r" by simp
      moreover from this have "k \<notin> set (take m r)" by (meson in_set_takeD)
      ultimately show ?thesis using True by (simp add: filter_absent)
    next
      case False
      with Cons.IH [of "m - 1"] Cons.prems show ?thesis by (cases m) auto
    qed
  qed simp
  with Suc show ?thesis by simp
qed simp

locale lru_cache =
  fixes ok :: "'c \<Rightarrow> bool"
    and entries :: "'c \<Rightarrow> ('k \<times> 'v) list"
    and capacity :: nat
    and absent :: 'v
    and get :: "'k \<Rightarrow> 'c \<Rightarrow> 'v \<times> 'c"
    and put :: "'k \<Rightarrow> 'v \<Rightarrow> 'c \<Rightarrow> 'v \<times> 'c"
  assumes capacity_pos: "0 < capacity"
    and bounded: "ok c \<Longrightarrow> length (entries c) \<le> capacity"
    and distinct_keys: "ok c \<Longrightarrow> distinct (map fst (entries c))"
    and get_ok: "ok c \<Longrightarrow> ok (snd (get k c))"
    and get_hit: "ok c \<Longrightarrow> (k, v) \<in> set (entries c) \<Longrightarrow>
      fst (get k c) = v \<and> entries (snd (get k c)) = (k, v) # filter (\<lambda>e. fst e \<noteq> k) (entries c)"
    and get_miss: "ok c \<Longrightarrow> k \<notin> fst ` set (entries c) \<Longrightarrow> fst (get k c) = absent \<and> snd (get k c) = c"
    and put_ok: "ok c \<Longrightarrow> k \<notin> fst ` set (entries c) \<Longrightarrow> ok (snd (put k v c))"
    and put_entries: "ok c \<Longrightarrow> k \<notin> fst ` set (entries c) \<Longrightarrow> entries (snd (put k v c)) = take capacity ((k, v) # entries c)"
begin

definition fetch :: "('k \<Rightarrow> 'v) \<Rightarrow> 'k \<Rightarrow> 'c \<Rightarrow> 'v \<times> 'c" where
  "fetch f k c = (case get k c of (v, c) \<Rightarrow> if v \<noteq> absent then (v, c) else (f k, snd (put k (f k) c)))"

text \<open>A cache filled by \<open>fetch f\<close> after the uses \<open>ks\<close>.\<close>

definition holds_recent :: "('k \<Rightarrow> 'v) \<Rightarrow> 'k list \<Rightarrow> 'c \<Rightarrow> bool" where
  "holds_recent f ks c \<longleftrightarrow> ok c \<and> entries c = map (\<lambda>k. (k, f k)) (take capacity (recent ks))"

lemma fetch_recent:
  assumes "holds_recent f ks c" "f k \<noteq> absent"
  shows "fst (fetch f k c) = f k" "holds_recent f (ks @ [k]) (snd (fetch f k c))"
    "fst (get k c) = absent \<longleftrightarrow> k \<notin> set (take capacity (recent ks))"
proof -
  let ?r = "take capacity (recent ks)"
  have ok: "ok c" and entries: "entries c = map (\<lambda>k. (k, f k)) ?r" using assms(1) by (auto simp: holds_recent_def)
  have keys: "fst ` set (entries c) = set ?r" by (force simp: entries)
  have next_keys: "take capacity (k # filter (\<lambda>x. x \<noteq> k) ?r) = take capacity (recent (ks @ [k]))"
    unfolding recent_snoc by (rule take_move_front [OF distinct_recent])
  have "fst (fetch f k c) = f k \<and> holds_recent f (ks @ [k]) (snd (fetch f k c)) \<and>
    (fst (get k c) = absent \<longleftrightarrow> k \<notin> set ?r)"
  proof (cases "k \<in> set ?r")
    case True
    then have "(k, f k) \<in> set (entries c)" by (auto simp: entries)
    note hit = get_hit [OF ok this] and gok = get_ok [OF ok, of k]
    then have new: "entries (snd (get k c)) = map (\<lambda>k. (k, f k)) (k # filter (\<lambda>x. x \<noteq> k) ?r)"
      by (simp add: entries filter_map o_def)
    moreover have "k # filter (\<lambda>x. x \<noteq> k) ?r = take capacity (recent (ks @ [k]))"
      unfolding next_keys [symmetric] using bounded [OF gok] by (simp add: new)
    ultimately show ?thesis using hit gok assms(2) True by (auto simp: fetch_def holds_recent_def split_beta)
  next
    case False
    then have no: "k \<notin> fst ` set (entries c)" by (simp add: keys)
    have "take capacity ((k, f k) # entries c) = map (\<lambda>k. (k, f k)) (take capacity (k # filter (\<lambda>x. x \<noteq> k) ?r))"
      by (simp add: entries filter_absent [OF False] take_map [symmetric] take_Cons' del: take_take)
    with get_miss [OF ok no] put_ok [OF ok no, of "f k"] put_entries [OF ok no, of "f k"] next_keys False show ?thesis
      by (auto simp: fetch_def holds_recent_def split_beta)
  qed
  then show "fst (fetch f k c) = f k" "holds_recent f (ks @ [k]) (snd (fetch f k c))"
    "fst (get k c) = absent \<longleftrightarrow> k \<notin> set ?r" by simp_all
qed

end

section \<open>The name cache implements the interface\<close>

definition cache_entries :: "('k, 'v) name_cache \<Rightarrow> ('k \<times> 'v) list" where
  "cache_entries c = map snd (nodes c)"

text \<open>Every node has a live iterator: the map is the list read the other way.\<close>

definition cache_ok :: "nat \<Rightarrow> 'v \<Rightarrow> ('k, 'v) name_cache \<Rightarrow> bool" where
  "cache_ok cap dflt c \<longleftrightarrow>
     max_size c = cap \<and> default_value c = dflt \<and> length (nodes c) \<le> cap \<and>
     distinct (map fst (nodes c)) \<and> distinct (map (\<lambda>n. fst (snd n)) (nodes c)) \<and> (\<forall>n \<in> set (nodes c). fst n < fresh c) \<and>
     mset (index c) = mset (map (\<lambda>(i, k, v). (k, i)) (nodes c))"

lemma index_of:
  assumes "cache_ok cap dflt c"
  shows "set (index c) = (\<lambda>(i, k, v). (k, i)) ` set (nodes c)" "length (index c) = length (nodes c)" "distinct (map fst (index c))"
proof -
  have m: "mset (index c) = mset (map (\<lambda>(i, k, v). (k, i)) (nodes c))" using assms by (simp add: cache_ok_def)
  show "set (index c) = (\<lambda>(i, k, v). (k, i)) ` set (nodes c)" using mset_eq_setD [OF m] by simp
  show "length (index c) = length (nodes c)" using mset_eq_length [OF m] by simp
  have "mset (map fst (index c)) = mset (map (\<lambda>n. fst (snd n)) (nodes c))"
    using arg_cong [OF m, of "image_mset fst"] by (simp add: image_mset.compositionality o_def split_beta)
  then show "distinct (map fst (index c))" using assms by (metis cache_ok_def mset_eq_imp_distinct_iff)
qed

lemma Get_hit:
  assumes "cache_ok cap dflt c" "(k, v) \<in> set (cache_entries c)"
  obtains i where "(i, k, v) \<in> set (nodes c)" "Get k c = (v, c\<lparr>nodes := (i, k, v) # filter (\<lambda>n. fst n \<noteq> i) (nodes c)\<rparr>)"
proof -
  obtain i where i: "(i, k, v) \<in> set (nodes c)" using assms(2) by (force simp: cache_entries_def)
  then have "(k, i) \<in> set (index c)" unfolding index_of(1) [OF assms(1)] by force
  then have "map_of (index c) k = Some i" using index_of(3) [OF assms(1)] by simp
  moreover have "map_of (nodes c) i = Some (k, v)" using i assms(1) by (simp add: cache_ok_def)
  ultimately show thesis using that i by (simp add: Get_def)
qed

lemma Get_miss:
  assumes "cache_ok cap dflt c" "k \<notin> fst ` set (cache_entries c)"
  shows "map_of (index c) k = None" "Get k c = (dflt, c)"
proof -
  show "map_of (index c) k = None"
    using assms(2) unfolding map_of_eq_None_iff index_of(1) [OF assms(1)] by (force simp: cache_entries_def)
  then show "Get k c = (dflt, c)" using assms(1) by (simp add: Get_def cache_ok_def)
qed

lemma AList_update_absent: "map_of xs k = None \<Longrightarrow> AList.update k v xs = xs @ [(k, v)]"
  by (induction xs) (auto split: if_splits)

lemma AList_delete_filter: "AList.delete k xs = filter (\<lambda>e. fst e \<noteq> k) xs"
  unfolding AList.delete_eq by (rule filter_cong) auto

lemma split_node:
  assumes "distinct (map fst xs)" "(i, y) \<in> set xs"
  shows "mset ((i, y) # filter (\<lambda>n. fst n \<noteq> i) xs) = mset xs"
  using assms
proof (induction xs)
  case (Cons x xs)
  show ?case
  proof (cases "fst x = i")
    case True
    with Cons.prems have "i \<notin> fst ` set xs" by simp
    then have no: "\<forall>n \<in> set xs. fst n \<noteq> i" by (metis imageI)
    with Cons.prems(2) have "x = (i, y)" by auto
    with no show ?thesis by (simp add: filter_True)
  next
    case False
    with Cons show ?thesis by auto
  qed
qed simp

lemma cache_ok_reorder:
  assumes "cache_ok cap dflt c" "mset ns = mset (nodes c)"
  shows "cache_ok cap dflt (c\<lparr>nodes := ns\<rparr>)"
proof -
  have "distinct (map fst ns) = distinct (map fst (nodes c))"
    by (rule mset_eq_imp_distinct_iff) (simp add: assms(2))
  moreover have "distinct (map (\<lambda>n. fst (snd n)) ns) = distinct (map (\<lambda>n. fst (snd n)) (nodes c))"
    by (rule mset_eq_imp_distinct_iff) (simp add: assms(2))
  ultimately show ?thesis using assms(1) mset_eq_length [OF assms(2)] mset_eq_setD [OF assms(2)]
    by (simp add: cache_ok_def assms(2))
qed

lemma Get_ok:
  assumes "cache_ok cap dflt c"
  shows "cache_ok cap dflt (snd (Get k c))"
proof (cases "k \<in> fst ` set (cache_entries c)")
  case False
  with Get_miss [OF assms] assms show ?thesis by simp
next
  case True
  then obtain v where "(k, v) \<in> set (cache_entries c)" by force
  from Get_hit [OF assms this] obtain i where i: "(i, k, v) \<in> set (nodes c)"
    and g: "Get k c = (v, c\<lparr>nodes := (i, k, v) # filter (\<lambda>n. fst n \<noteq> i) (nodes c)\<rparr>)" by blast
  have "mset ((i, k, v) # filter (\<lambda>n. fst n \<noteq> i) (nodes c)) = mset (nodes c)"
    by (rule split_node) (use assms i in \<open>simp_all add: cache_ok_def\<close>)
  from cache_ok_reorder [OF assms this] show ?thesis by (simp add: g)
qed

lemma Get_entries:
  assumes "cache_ok cap dflt c" "(k, v) \<in> set (cache_entries c)"
  shows "fst (Get k c) = v \<and> cache_entries (snd (Get k c)) = (k, v) # filter (\<lambda>e. fst e \<noteq> k) (cache_entries c)"
proof -
  from Get_hit [OF assms] obtain i where i: "(i, k, v) \<in> set (nodes c)"
    and g: "Get k c = (v, c\<lparr>nodes := (i, k, v) # filter (\<lambda>n. fst n \<noteq> i) (nodes c)\<rparr>)" by blast
  have "fst n \<noteq> i \<longleftrightarrow> fst (snd n) \<noteq> k" if "n \<in> set (nodes c)" for n
  proof -
    have "fst n = i \<Longrightarrow> n = (i, k, v)" "fst (snd n) = k \<Longrightarrow> n = (i, k, v)"
      using assms(1) i that inj_onD [of fst "set (nodes c)" n "(i, k, v)"] inj_onD [of "\<lambda>n. fst (snd n)" "set (nodes c)" n "(i, k, v)"]
      by (simp_all add: cache_ok_def distinct_map)
    then show ?thesis by (metis fst_conv snd_conv)
  qed
  then have "filter (\<lambda>n. fst n \<noteq> i) (nodes c) = filter (\<lambda>n. fst (snd n) \<noteq> k) (nodes c)" by (rule filter_cong [OF refl])
  then show ?thesis by (simp add: g cache_entries_def filter_map o_def)
qed

lemma Put_absent:
  assumes ok: "cache_ok cap dflt c" and new: "k \<notin> fst ` set (cache_entries c)" and cap: "0 < cap"
  shows "cache_ok cap dflt (snd (Put k v c))" "cache_entries (snd (Put k v c)) = take cap ((k, v) # cache_entries c)"
proof -
  let ?ns = "(fresh c, k, v) # nodes c" and ?ix = "index c @ [(k, fresh c)]"
  have upd: "AList.update k (fresh c) (index c) = ?ix" using Get_miss(1) [OF ok new] by (rule AList_update_absent)
  have keys: "k \<notin> (\<lambda>n. fst (snd n)) ` set (nodes c)" using new by (force simp: cache_entries_def)
  have len: "length (index c) = length (nodes c)" by (rule index_of(2) [OF ok])
  have "cache_ok cap dflt (snd (Put k v c)) \<and> cache_entries (snd (Put k v c)) = take cap ((k, v) # cache_entries c)"
  proof (cases "length (nodes c) < cap")
    case True
    then have "Put k v c = (dflt, c\<lparr>nodes := ?ns, index := ?ix, fresh := fresh c + 1\<rparr>)"
      using ok by (simp add: Put_def upd len cache_ok_def)
    with ok True keys show ?thesis by (fastforce simp: cache_ok_def cache_entries_def)
  next
    case False
    then have full: "length (nodes c) = cap" using ok by (simp add: cache_ok_def)
    then obtain i lk lv ns where split: "nodes c = ns @ [(i, lk, lv)]" using cap by (metis length_greater_0_conv prod_cases3 rev_exhaust)
    have "Put k v c = (lv, c\<lparr>nodes := (fresh c, k, v) # ns, index := AList.delete lk ?ix, fresh := fresh c + 1\<rparr>)"
      using ok full by (simp add: Put_def upd len cache_ok_def split)
    moreover have "mset (AList.delete lk ?ix) = mset (map (\<lambda>(i, k, v). (k, i)) ((fresh c, k, v) # ns))"
    proof -
      have d: "lk \<notin> (\<lambda>n. fst (snd n)) ` set ns" "lk \<noteq> k" using ok keys by (auto simp: cache_ok_def split)
      have m: "mset (index c) = mset (map (\<lambda>(i, k, v). (k, i)) (nodes c))" using ok by (simp add: cache_ok_def)
      have "mset (AList.delete lk ?ix) = filter_mset (\<lambda>e. fst e \<noteq> lk) (mset ?ix)"
        unfolding AList_delete_filter by (rule mset_filter)
      also have "\<dots> = filter_mset (\<lambda>e. fst e \<noteq> lk) (mset (map (\<lambda>(i, k, v). (k, i)) (ns @ [(fresh c, k, v)])))"
        using m by (simp add: split)
      also have "\<dots> = mset (map (\<lambda>(i, k, v). (k, i)) ((fresh c, k, v) # ns))"
      proof -
        have "\<forall>e \<in> set (map (\<lambda>(i, k, v). (k, i)) (ns @ [(fresh c, k, v)])). fst e \<noteq> lk" using d by (force simp: image_iff)
        then show ?thesis by (simp add: filter_mset_eq_conv)
      qed
      finally show ?thesis .
    qed
    ultimately show ?thesis using ok full keys by (auto simp: cache_ok_def cache_entries_def split)
  qed
  then show "cache_ok cap dflt (snd (Put k v c))" "cache_entries (snd (Put k v c)) = take cap ((k, v) # cache_entries c)" by simp_all
qed

lemma name_cache_is_lru:
  assumes "0 < cap"
  shows "lru_cache (cache_ok cap dflt) cache_entries cap dflt Get Put"
proof (unfold_locales, goal_cases)
  case 1
  show ?case by (rule assms)
next
  case (2 c)
  then show ?case by (simp add: cache_ok_def cache_entries_def)
next
  case (3 c)
  then show ?case by (simp add: cache_ok_def cache_entries_def o_def)
next
  case (4 c k)
  then show ?case by (rule Get_ok)
next
  case (5 c k v)
  then show ?case by (rule Get_entries)
next
  case (6 c k)
  from Get_miss(2) [OF 6] show ?case by simp
next
  case (7 c k v)
  then show ?case by (rule Put_absent(1) [OF _ _ assms])
next
  case (8 c k v)
  then show ?case by (rule Put_absent(2) [OF _ _ assms])
qed

lemma name_cache_size_pos: "0 < kMaxFunctionNameCacheSize"
  by (simp add: kMaxFunctionNameCacheSize_def)

interpretation names: lru_cache "cache_ok kMaxFunctionNameCacheSize None" cache_entries kMaxFunctionNameCacheSize None Get Put
  by (rule name_cache_is_lru [OF name_cache_size_pos])

section \<open>Looking names up\<close>

primrec lookups :: "(function_identifier \<Rightarrow> wstring) \<Rightarrow> function_identifier list \<Rightarrow> naming_helper \<times> sampling_statistics \<Rightarrow>
    wstring option list \<times> naming_helper \<times> sampling_statistics" where
  "lookups name [] s = ([], s)"
| "lookups name (fid # fids) s =
     (case Lookup name fid s of (answer, s) \<Rightarrow> case lookups name fids s of (answers, s) \<Rightarrow> (answer # answers, s))"

text \<open>The lookups that a cache of the \<open>n\<close> most recently used keys does not answer.\<close>

definition misses :: "nat \<Rightarrow> 'k list \<Rightarrow> nat" where
  "misses n ks = length (filter (\<lambda>i. ks ! i \<notin> set (take n (recent (take i ks)))) [0..<length ks])"

lemma misses_snoc: "misses n (ks @ [k]) = misses n ks + (if k \<in> set (take n (recent ks)) then 0 else 1)"
proof -
  have "filter (\<lambda>i. (ks @ [k]) ! i \<notin> set (take n (recent (take i (ks @ [k]))))) [0..<length ks] =
    filter (\<lambda>i. ks ! i \<notin> set (take n (recent (take i ks)))) [0..<length ks]"
    by (rule filter_cong) (auto simp: nth_append)
  then show ?thesis by (simp add: misses_def)
qed

text \<open>The state after the lookups \<open>ks\<close>, the statistics having started at \<open>m\<close> misses.\<close>

definition names_of :: "(function_identifier \<Rightarrow> wstring) \<Rightarrow> u32 \<Rightarrow> function_identifier list \<Rightarrow> naming_helper \<times> sampling_statistics \<Rightarrow> bool" where
  "names_of name m ks = (\<lambda>(h, stats).
     names.holds_recent (\<lambda>fid. Some (name fid)) ks (function_name_cache h) \<and>
     name_cache_misses stats = m + of_nat (misses kMaxFunctionNameCacheSize ks))"

lemma Lookup_step:
  assumes "names_of name m ks (h, stats)"
  shows "fst (Lookup name fid (h, stats)) = Some (name fid)" "names_of name m (ks @ [fid]) (snd (Lookup name fid (h, stats)))"
proof -
  have hr: "names.holds_recent (\<lambda>fid. Some (name fid)) ks (function_name_cache h)" using assms by (simp add: names_of_def)
  obtain v c where g: "Get fid (function_name_cache h) = (v, c)" by force
  note f = names.fetch_recent [OF hr, of fid, simplified, unfolded names.fetch_def g, simplified]
  show "fst (Lookup name fid (h, stats)) = Some (name fid)" "names_of name m (ks @ [fid]) (snd (Lookup name fid (h, stats)))"
    using f assms by (auto simp: Lookup_def g names_of_def misses_snoc Let_def split: option.splits prod.split)
qed

lemma lookups_step:
  "names_of name m ks s \<Longrightarrow> fst (lookups name fids s) = map (\<lambda>fid. Some (name fid)) fids \<and>
   names_of name m (ks @ fids) (snd (lookups name fids s))"
proof (induction fids arbitrary: ks s)
  case (Cons fid fids)
  obtain h stats where s: "s = (h, stats)" by force
  obtain a t where l: "Lookup name fid s = (a, t)" by (metis surj_pair)
  from Lookup_step [OF Cons.prems [unfolded s], of fid] Cons.IH [of "ks @ [fid]" t] l s show ?case
    by (auto split: prod.split)
qed simp

text \<open>C30: the function-name cache is transparent and exactly least-recently-used. After any sequence of lookups, each
  answer is the name that was asked for; the cache holds the 5000 most recently used functions, each with its name,
  most recent first; and the statistics count precisely the lookups such a cache cannot answer (modulo \<open>2^32\<close>).\<close>

theorem name_cache_refines_lru:
  assumes "lookups name fids (NamingHelper, stats) = (answers, h, stats')"
  shows "answers = map (\<lambda>fid. Some (name fid)) fids \<and>
    cache_entries (function_name_cache h) = map (\<lambda>fid. (fid, Some (name fid))) (take 5000 (recent fids)) \<and>
    name_cache_misses stats' = name_cache_misses stats + of_nat (misses 5000 fids)"
proof -
  have "names_of name (name_cache_misses stats) [] (NamingHelper, stats)"
    by (simp add: names_of_def names.holds_recent_def NamingHelper_def NameCache_def cache_ok_def cache_entries_def recent_def misses_def)
  from lookups_step [OF this, of fids] assms show ?thesis
    unfolding names_of_def names.holds_recent_def by (simp add: kMaxFunctionNameCacheSize_def)
qed

theorem name_cache_refines_lru_witness:
  "fst (lookups (\<lambda>fid. [ucast (function_token fid)]) [Managed 1 9 True, Managed 2 9 True, Managed 1 9 True]
     (NamingHelper, \<lparr>micros_suspended = 0, num_threads = 0, total_frames = 0, name_cache_misses = 0\<rparr>)) = [Some [1], Some [2], Some [1]]"
proof -
  let ?name = "\<lambda>fid. [ucast (function_token fid)] :: wstring"
  let ?fids = "[Managed 1 9 True, Managed 2 9 True, Managed 1 9 True]"
  let ?stats = "\<lparr>micros_suspended = 0, num_threads = 0, total_frames = 0, name_cache_misses = 0\<rparr>"
  obtain answers h stats where l: "lookups ?name ?fids (NamingHelper, ?stats) = (answers, h, stats)" by (metis prod_cases3)
  from name_cache_refines_lru [OF l] show ?thesis unfolding l fst_conv by (simp add: Managed_def)
qed

section \<open>The identifier cache\<close>

text \<open>
  \<open>LookupManagedFunction\<close> puts a key that is already present when the cached identifier is invalid. The list keeps the
  old node, so the list grows with every such call while the map does not; and when the old node comes to the end of
  the list its eviction takes the live entry out of the map.
\<close>

lemma failed_function_grows_the_list:
  "length (nodes (snd (Put k v (snd (Put k v (NameCache 2 dflt)))))) = 2 \<and>
   length (index (snd (Put k v (snd (Put k v (NameCache 2 dflt)))))) = 1"
  by (simp add: Put_def NameCache_def)

lemma stale_node_evicts_live_entry:
  assumes "k \<noteq> (l :: nat)" "k \<noteq> m" "l \<noteq> m"
  shows "map_of (index (snd (Put m v (snd (Put k v (snd (Put l v (snd (Put k v (NameCache 2 dflt))))))))) ) k = None"
  using assms by (simp add: Put_def NameCache_def)

text \<open>Every answer is still right: a hit is the identifier that was resolved, a miss is resolved again.\<close>

definition identifiers_right :: "(u64 \<Rightarrow> (u64 \<times> u32) option) \<Rightarrow> (u64, function_identifier) name_cache \<Rightarrow> bool" where
  "identifiers_right info c \<longleftrightarrow>
     default_value c = ManagedInvalid \<and>
     (\<forall>(i, k, v) \<in> set (nodes c). i < fresh c \<and> v = ResolveManagedFunctionIdentifier info k) \<and>
     (\<forall>(k, i) \<in> set (index c). i < fresh c \<and> (\<forall>n \<in> set (nodes c). fst n = i \<longrightarrow> fst (snd n) = k))"

lemma AList_update_set: "set (AList.update k v xs) \<subseteq> insert (k, v) (set xs)"
  by (induction xs) auto

lemma identifiers_right_mono:
  assumes "identifiers_right info c" "set ns \<subseteq> set (nodes c)" "set ix \<subseteq> set (index c)"
  shows "identifiers_right info (c\<lparr>index := ix, nodes := ns\<rparr>)"
  using assms(1) subsetD [OF assms(2)] subsetD [OF assms(3)] unfolding identifiers_right_def by (simp add: split_beta)

lemma Get_right:
  assumes "identifiers_right info c"
  shows "fst (Get k c) \<in> {ManagedInvalid, ResolveManagedFunctionIdentifier info k}" "identifiers_right info (snd (Get k c))"
proof -
  have "fst (Get k c) \<in> {ManagedInvalid, ResolveManagedFunctionIdentifier info k} \<and> identifiers_right info (snd (Get k c))"
  proof (cases "\<exists>i n. map_of (index c) k = Some i \<and> map_of (nodes c) i = Some n")
    case True
    then obtain i k' v where i: "map_of (index c) k = Some i" "map_of (nodes c) i = Some (k', v)" by auto
    then have mem: "(k, i) \<in> set (index c)" "(i, k', v) \<in> set (nodes c)" by (auto dest: map_of_SomeD)
    then have "k' = k" "v = ResolveManagedFunctionIdentifier info k'" using assms by (fastforce simp: identifiers_right_def)+
    then have "Get k c = (ResolveManagedFunctionIdentifier info k, c\<lparr>nodes := (i, k, v) # filter (\<lambda>n. fst n \<noteq> i) (nodes c)\<rparr>)"
      using i by (simp add: Get_def)
    moreover have "set ((i, k, v) # filter (\<lambda>n. fst n \<noteq> i) (nodes c)) \<subseteq> set (nodes c)" using mem(2) \<open>k' = k\<close> by auto
    ultimately show ?thesis using identifiers_right_mono [OF assms, of "(i, k, v) # filter (\<lambda>n. fst n \<noteq> i) (nodes c)" "index c"] by simp
  next
    case False
    then show ?thesis using assms by (auto simp: Get_def identifiers_right_def split: option.splits)
  qed
  then show "fst (Get k c) \<in> {ManagedInvalid, ResolveManagedFunctionIdentifier info k}" "identifiers_right info (snd (Get k c))" by simp_all
qed

lemma Put_right:
  assumes "identifiers_right info c"
  shows "identifiers_right info (snd (Put k (ResolveManagedFunctionIdentifier info k) c))"
proof -
  let ?c = "c\<lparr>nodes := (fresh c, k, ResolveManagedFunctionIdentifier info k) # nodes c,
    index := AList.update k (fresh c) (index c), fresh := fresh c + 1\<rparr>"
  have ok: "identifiers_right info ?c"
    using assms AList_update_set [of k "fresh c" "index c"] unfolding identifiers_right_def by (fastforce simp: subset_iff)
  have sub: "identifiers_right info (?c\<lparr>index := AList.delete l (index ?c), nodes := butlast (nodes ?c)\<rparr>)" for l
    by (rule identifiers_right_mono [OF ok]) (simp only: AList_delete_filter filter_is_subset subsetI in_set_butlastD)+
  show ?thesis using ok sub unfolding Put_def Let_def by (simp only: split_beta snd_conv if_distrib [of snd] split: if_splits) blast
qed

lemma LookupManagedFunction_right:
  assumes "identifiers_right info (function_identifier_cache h)"
  shows "fst (LookupManagedFunction info fid h) = ResolveManagedFunctionIdentifier info fid"
    "identifiers_right info (function_identifier_cache (snd (LookupManagedFunction info fid h)))"
  using Get_right [OF assms, of fid] Put_right
  by (auto simp: LookupManagedFunction_def ManagedInvalid_def Let_def split: prod.split)

end
