(* ===== verification/Stack_Storage.thy ===== *)
theory Stack_Storage
  imports Sample_Buffer
begin

text \<open>
  The storage for captured stacks: \<open>ThreadStacksBuffer\<close> and \<open>TryReserveStackFrame\<close> of \<open>continuous_profiler.cpp\<close>.
  A vector is its elements and its capacity; what \<open>reserve\<close> provides for a request is a function of the request (an
  allocator may give more than was asked for). The pointer to the cached stack is the thread it belongs to.
  The theorems: the budget of frame storage is kept whatever the stack walker delivers, no frame is ever pushed into a full
  vector while the runtime is suspended, and every thread of a cohort of at most 1024 gets room for frames.
\<close>

section \<open>The code\<close>

definition MaximumFramesPerStack :: nat where "MaximumFramesPerStack = 512"
definition MaximumFrameCapacity :: nat where "MaximumFrameCapacity = 32 * 1024"
definition MaximumThreads :: nat where "MaximumThreads = 1024"
definition kInitialStackFrameCapacity :: nat where "kInitialStackFrameCapacity = 80"

record frame_vector =
  elements :: "function_identifier list"
  vector_capacity :: nat

definition empty_vector :: frame_vector where
  "empty_vector = \<lparr>elements = [], vector_capacity = 0\<rparr>"

text \<open>The answer and the vector; the new storage keeps the elements.\<close>

definition TryReserveStackFrame :: "(nat \<Rightarrow> nat) \<Rightarrow> frame_vector \<Rightarrow> nat \<Rightarrow> bool \<times> frame_vector" where
  "TryReserveStackFrame reserve vec maximumCapacity =
     (if length (elements vec) \<ge> MaximumFramesPerStack then (False, vec)
      else if length (elements vec) < vector_capacity vec then (True, vec)
      else let boundedCapacity = min MaximumFramesPerStack maximumCapacity;
               nextCapacity = min boundedCapacity (max kInitialStackFrameCapacity (vector_capacity vec * 2))
           in if nextCapacity \<le> vector_capacity vec then (False, vec)
              else if reserve nextCapacity > boundedCapacity then (False, vec)
              else (True, vec\<lparr>vector_capacity := reserve nextCapacity\<rparr>))"

text \<open>The map from threads to stacks has distinct keys; its order is immaterial.\<close>

record stacks_buffer =
  stacks :: "(u64 \<times> frame_vector) list"
  frameCapacity :: nat
  cached :: "u64 option"

definition ThreadStacksBuffer_new :: stacks_buffer where
  "ThreadStacksBuffer_new = \<lparr>stacks = [], frameCapacity = 0, cached = None\<rparr>"

primrec set_stack :: "u64 \<Rightarrow> frame_vector \<Rightarrow> (u64 \<times> frame_vector) list \<Rightarrow> (u64 \<times> frame_vector) list" where
  "set_stack tid vec [] = []"
| "set_stack tid vec (e # es) = (if fst e = tid then (tid, vec) # es else e # set_stack tid vec es)"

definition TryPrepareFrame :: "(nat \<Rightarrow> nat) \<Rightarrow> u64 \<Rightarrow> stacks_buffer \<Rightarrow> u64 option \<times> stacks_buffer" where
  "TryPrepareFrame reserve threadId b =
     (case (if cached b = Some threadId then Some b
            else if map_of (stacks b) threadId = None then None else Some (b\<lparr>cached := Some threadId\<rparr>)) of
        None \<Rightarrow> (None, b)
      | Some b \<Rightarrow>
          (case map_of (stacks b) threadId of
             None \<Rightarrow> (None, b)
           | Some vec \<Rightarrow>
               if length (elements vec) < vector_capacity vec then (cached b, b)
               else (case TryReserveStackFrame reserve vec (vector_capacity vec + MaximumFrameCapacity - frameCapacity b) of
                       (False, _) \<Rightarrow> (None, b)
                     | (True, vec') \<Rightarrow>
                         (cached b, b\<lparr>stacks := set_stack threadId vec' (stacks b),
                            frameCapacity := frameCapacity b + (vector_capacity vec' - vector_capacity vec)\<rparr>))))"

text \<open>The stack walker's callback pushes its frame into the vector it was given.\<close>

definition push_frame :: "u64 \<Rightarrow> function_identifier \<Rightarrow> stacks_buffer \<Rightarrow> stacks_buffer" where
  "push_frame tid fid b =
     (case map_of (stacks b) tid of
        None \<Rightarrow> b
      | Some vec \<Rightarrow> b\<lparr>stacks := set_stack tid (vec\<lparr>elements := elements vec @ [fid]\<rparr>) (stacks b)\<rparr>)"

definition frameProcessor :: "(nat \<Rightarrow> nat) \<Rightarrow> u64 \<Rightarrow> function_identifier \<Rightarrow> stacks_buffer \<Rightarrow> stacks_buffer" where
  "frameProcessor reserve tid fid b =
     (case TryPrepareFrame reserve tid b of (None, b) \<Rightarrow> b | (Some t, b) \<Rightarrow> push_frame t fid b)"

text \<open>Preparing a capture, in its three passes: eviction, reclaiming, reservation.\<close>

definition evict_stale :: "u64 list \<Rightarrow> stacks_buffer \<Rightarrow> stacks_buffer" where
  "evict_stale activeThreads b =
     (let stale = (\<lambda>e. vector_capacity (snd e) = 0 \<or> fst e \<notin> set activeThreads)
      in b\<lparr>cached := None, stacks := filter (\<lambda>e. \<not> stale e) (stacks b),
           frameCapacity := frameCapacity b - (\<Sum>e\<leftarrow>filter stale (stacks b). vector_capacity (snd e))\<rparr>)"

definition initialCapacity :: "nat \<Rightarrow> nat" where
  "initialCapacity threadCount =
     (if threadCount = 0 then kInitialStackFrameCapacity else min kInitialStackFrameCapacity (MaximumFrameCapacity div threadCount))"

definition reclaim :: "nat \<Rightarrow> stacks_buffer \<Rightarrow> stacks_buffer" where
  "reclaim initial b =
     b\<lparr>stacks := map (\<lambda>e. if vector_capacity (snd e) > initial then (fst e, empty_vector) else e) (stacks b),
       frameCapacity := frameCapacity b - (\<Sum>e\<leftarrow>filter (\<lambda>e. vector_capacity (snd e) > initial) (stacks b). vector_capacity (snd e))\<rparr>"

definition reserve_thread :: "(nat \<Rightarrow> nat) \<Rightarrow> nat \<Rightarrow> u64 \<Rightarrow> stacks_buffer \<Rightarrow> stacks_buffer" where
  "reserve_thread reserve initial tid b =
     (case map_of (stacks b) tid of
        None \<Rightarrow>
          if length (stacks b) \<ge> MaximumThreads \<or> frameCapacity b \<ge> MaximumFrameCapacity then b
          else (case TryReserveStackFrame reserve empty_vector (min initial (MaximumFrameCapacity - frameCapacity b)) of
                  (False, vec) \<Rightarrow> b\<lparr>stacks := (tid, vec) # stacks b\<rparr>
                | (True, vec) \<Rightarrow> b\<lparr>stacks := (tid, vec) # stacks b, frameCapacity := frameCapacity b + vector_capacity vec\<rparr>)
      | Some vec \<Rightarrow>
          if vector_capacity vec \<noteq> 0 then b
          else (case TryReserveStackFrame reserve vec (min initial (MaximumFrameCapacity - frameCapacity b)) of
                  (False, _) \<Rightarrow> b
                | (True, vec') \<Rightarrow> b\<lparr>stacks := set_stack tid vec' (stacks b), frameCapacity := frameCapacity b + vector_capacity vec'\<rparr>))"

definition PrepareForCapture :: "(nat \<Rightarrow> nat) \<Rightarrow> u64 list \<Rightarrow> stacks_buffer \<Rightarrow> stacks_buffer" where
  "PrepareForCapture reserve activeThreads b =
     (let b = evict_stale activeThreads b;
          threadCount = min (length activeThreads) MaximumThreads;
          initial = initialCapacity threadCount;
          missingThreads = threadCount - length (stacks b);
          b = (if missingThreads * initial > MaximumFrameCapacity - frameCapacity b then reclaim initial b else b)
      in fold (reserve_thread reserve initial) activeThreads b)"

definition Reset :: "stacks_buffer \<Rightarrow> stacks_buffer" where
  "Reset b = b\<lparr>stacks := map (\<lambda>e. (fst e, snd e\<lparr>elements := []\<rparr>)) (stacks b)\<rparr>"

definition ClearStacks :: "stacks_buffer \<Rightarrow> stacks_buffer" where
  "ClearStacks b = \<lparr>stacks = [], frameCapacity = 0, cached = None\<rparr>"

section \<open>The invariant\<close>

abbreviation total_capacity :: "(u64 \<times> frame_vector) list \<Rightarrow> nat" where
  "total_capacity es \<equiv> (\<Sum>e\<leftarrow>es. vector_capacity (snd e))"

definition vector_ok :: "frame_vector \<Rightarrow> bool" where
  "vector_ok v \<longleftrightarrow> length (elements v) \<le> vector_capacity v \<and> vector_capacity v \<le> MaximumFramesPerStack"

definition storage_ok :: "stacks_buffer \<Rightarrow> bool" where
  "storage_ok b \<longleftrightarrow> distinct (map fst (stacks b)) \<and> (\<forall>e \<in> set (stacks b). vector_ok (snd e)) \<and>
     frameCapacity b = total_capacity (stacks b) \<and> frameCapacity b \<le> MaximumFrameCapacity \<and>
     length (stacks b) \<le> MaximumThreads \<and> (\<forall>t. cached b = Some t \<longrightarrow> t \<in> fst ` set (stacks b))"

lemma storage_okD:
  assumes "storage_ok b"
  shows "distinct (map fst (stacks b))" "\<And>t v. (t, v) \<in> set (stacks b) \<Longrightarrow> vector_ok v"
    "frameCapacity b = total_capacity (stacks b)" "frameCapacity b \<le> MaximumFrameCapacity"
    "length (stacks b) \<le> MaximumThreads" "\<And>t. cached b = Some t \<Longrightarrow> t \<in> fst ` set (stacks b)"
  using assms by (auto simp: storage_ok_def)

lemma empty_vector_ok [simp]: "vector_ok empty_vector" "elements empty_vector = []" "vector_capacity empty_vector = 0"
  by (simp_all add: vector_ok_def empty_vector_def)

lemma set_stack_keys [simp]: "map fst (set_stack t v es) = map fst es"
  by (induction es) auto

lemma set_stack_length [simp]: "length (set_stack t v es) = length es"
  by (induction es) auto

lemma set_stack_capacity:
  "map_of es t = Some w \<Longrightarrow> total_capacity (set_stack t v es) + vector_capacity w = total_capacity es + vector_capacity v"
  by (induction es) (auto split: if_splits)

lemma set_stack_set: "set (set_stack t v es) \<subseteq> insert (t, v) (set es)"
  by (induction es) auto

lemma map_of_set_stack: "map_of es t \<noteq> None \<Longrightarrow> map_of (set_stack t v es) t' = (if t' = t then Some v else map_of es t')"
  by (induction es) auto

text \<open>Replacing a vector keeps the invariant when the books are kept.\<close>

lemma storage_ok_set_stack:
  assumes ok: "storage_ok b" and w: "map_of (stacks b) t = Some w" and v: "vector_ok v" "vector_capacity w \<le> vector_capacity v"
    and room: "frameCapacity b + (vector_capacity v - vector_capacity w) \<le> MaximumFrameCapacity"
  shows "storage_ok (b\<lparr>stacks := set_stack t v (stacks b), frameCapacity := frameCapacity b + (vector_capacity v - vector_capacity w)\<rparr>)"
proof -
  note b = storage_okD [OF ok]
  have "fst ` set (set_stack t v (stacks b)) = fst ` set (stacks b)"
    using set_stack_keys [of t v "stacks b"] by (metis set_map)
  moreover have "\<forall>e \<in> set (set_stack t v (stacks b)). vector_ok (snd e)"
    using set_stack_set [of t v "stacks b"] b(2) v(1) by fastforce
  ultimately show ?thesis
    using b set_stack_capacity [OF w, of v] v(2) room by (simp add: storage_ok_def)
qed

lemma TryReserve_cases:
  assumes "\<And>n. n \<le> reserve n" "vector_ok vec"
  obtains (no) "TryReserveStackFrame reserve vec m = (False, vec)"
  | (yes) vec' where "TryReserveStackFrame reserve vec m = (True, vec')" "vector_ok vec'" "elements vec' = elements vec"
      "vector_capacity vec \<le> vector_capacity vec'" "length (elements vec') < vector_capacity vec'"
      "vector_capacity vec' \<noteq> vector_capacity vec \<Longrightarrow> vector_capacity vec' \<le> m"
proof (cases "TryReserveStackFrame reserve vec m")
  case (Pair r vec')
  define n where "n = min (min MaximumFramesPerStack m) (max kInitialStackFrameCapacity (vector_capacity vec * 2))"
  show thesis
  proof (cases r)
    case False
    then show thesis using no Pair by (auto simp: TryReserveStackFrame_def Let_def split: if_splits)
  next
    case True
    then have r: "TryReserveStackFrame reserve vec m = (True, vec')" using Pair by simp
    then consider (same) "vec' = vec" "length (elements vec) < vector_capacity vec"
      | (grown) "vec' = vec\<lparr>vector_capacity := reserve n\<rparr>" "vector_capacity vec < n" "reserve n \<le> min MaximumFramesPerStack m"
      by (auto simp: TryReserveStackFrame_def n_def [symmetric] Let_def not_less split: if_splits)
    then show thesis
    proof cases
      case same
      then show thesis using yes [OF r] assms(2) by simp
    next
      case grown
      then show thesis using yes [OF r] assms(2) assms(1) [of n] by (auto simp: vector_ok_def)
    qed
  qed
qed

section \<open>The budget is kept\<close>

lemma TryPrepareFrame_ok:
  assumes "\<And>n. n \<le> reserve n" "storage_ok b" "TryPrepareFrame reserve t b = (r, b')"
  shows "storage_ok b'" "r = Some t' \<Longrightarrow> t' = t \<and> (\<exists>vec. map_of (stacks b') t = Some vec \<and> length (elements vec) < vector_capacity vec)"
proof -
  note ok = storage_okD [OF assms(2)]
  have "storage_ok b' \<and> (r = None \<or> r = Some t \<and> (\<exists>vec. map_of (stacks b') t = Some vec \<and> length (elements vec) < vector_capacity vec))"
  proof (cases "map_of (stacks b) t")
    case None
    then have "cached b \<noteq> Some t" using ok(6) by (metis map_of_eq_None_iff)
    with None assms(2,3) show ?thesis by (auto simp: TryPrepareFrame_def)
  next
    case (Some vec)
    let ?b = "b\<lparr>cached := Some t\<rparr>"
    have okb: "storage_ok ?b" using assms(2) Some by (auto simp: storage_ok_def dest: map_of_SomeD intro: rev_image_eqI)
    have v: "vector_ok vec" using Some ok(2) by (auto dest: map_of_SomeD)
    have le: "vector_capacity vec \<le> frameCapacity b"
      unfolding ok(3) using Some by (force intro: member_le_sum_list dest: map_of_SomeD)
    have prep: "TryPrepareFrame reserve t b = (if length (elements vec) < vector_capacity vec then (Some t, ?b)
      else case TryReserveStackFrame reserve vec (vector_capacity vec + MaximumFrameCapacity - frameCapacity b) of
             (False, _) \<Rightarrow> (None, ?b)
           | (True, vec') \<Rightarrow> (Some t, ?b\<lparr>stacks := set_stack t vec' (stacks b),
               frameCapacity := frameCapacity b + (vector_capacity vec' - vector_capacity vec)\<rparr>))"
      using Some by (cases "cached b = Some t") (auto simp: TryPrepareFrame_def split: prod.split bool.split)
    show ?thesis
    proof (cases "length (elements vec) < vector_capacity vec")
      case True
      then show ?thesis using prep assms(3) okb Some by auto
    next
      case False
      from assms(1) v show ?thesis
      proof (cases rule: TryReserve_cases [where m = "vector_capacity vec + MaximumFrameCapacity - frameCapacity b"])
        case no
        with False prep assms(3) okb show ?thesis by auto
      next
        case (yes vec')
        have "vector_capacity vec' \<noteq> vector_capacity vec" using yes(3,5) False by simp
        from yes(6) [OF this] have "frameCapacity b + (vector_capacity vec' - vector_capacity vec) \<le> MaximumFrameCapacity"
          using ok(4) le by simp
        from storage_ok_set_stack [OF okb _ yes(2,4), of t] this Some
        have "storage_ok (?b\<lparr>stacks := set_stack t vec' (stacks b), frameCapacity := frameCapacity b + (vector_capacity vec' - vector_capacity vec)\<rparr>)"
          by simp
        with False yes prep assms(3) Some show ?thesis by (auto simp: map_of_set_stack)
      qed
    qed
  qed
  then show "storage_ok b'" "r = Some t' \<Longrightarrow> t' = t \<and> (\<exists>vec. map_of (stacks b') t = Some vec \<and> length (elements vec) < vector_capacity vec)"
    by auto
qed

lemma frameProcessor_ok:
  assumes "\<And>n. n \<le> reserve n" "storage_ok b"
  shows "storage_ok (frameProcessor reserve t fid b)"
proof -
  obtain r b' where p: "TryPrepareFrame reserve t b = (r, b')" by force
  note q = TryPrepareFrame_ok [OF assms p]
  show ?thesis
  proof (cases r)
    case None
    with q(1) show ?thesis by (simp add: frameProcessor_def p)
  next
    case (Some t')
    with q(2) obtain vec where vec: "t' = t" "map_of (stacks b') t = Some vec" "length (elements vec) < vector_capacity vec" by blast
    have "vector_ok vec" using storage_okD(2) [OF q(1)] vec(2) by (auto dest: map_of_SomeD)
    with vec(3) have "vector_ok (vec\<lparr>elements := elements vec @ [fid]\<rparr>)" by (simp add: vector_ok_def)
    from storage_ok_set_stack [OF q(1) vec(2) this] storage_okD(4) [OF q(1)] Some vec show ?thesis
      by (simp add: frameProcessor_def p push_frame_def)
  qed
qed

lemma total_capacity_split: "total_capacity es = total_capacity (filter P es) + total_capacity (filter (\<lambda>e. \<not> P e) es)"
  by (induction es) auto

lemma evict_stale_ok:
  assumes "storage_ok b"
  shows "storage_ok (evict_stale active b)" "fst ` set (stacks (evict_stale active b)) \<subseteq> set active"
    "\<forall>e \<in> set (stacks (evict_stale active b)). vector_capacity (snd e) \<noteq> 0"
proof -
  note b = storage_okD [OF assms]
  let ?stale = "\<lambda>e :: u64 \<times> frame_vector. vector_capacity (snd e) = 0 \<or> fst e \<notin> set active"
  have "frameCapacity (evict_stale active b) = total_capacity (stacks (evict_stale active b))"
    using b(3) total_capacity_split [of "stacks b" ?stale] by (simp add: evict_stale_def)
  then show "storage_ok (evict_stale active b)"
    using b by (auto simp: storage_ok_def evict_stale_def Let_def distinct_map inj_on_def intro: order_trans [OF length_filter_le])
  show "fst ` set (stacks (evict_stale active b)) \<subseteq> set active"
    "\<forall>e \<in> set (stacks (evict_stale active b)). vector_capacity (snd e) \<noteq> 0" by (auto simp: evict_stale_def)
qed

text \<open>The thread count never falls below the number of stacks kept, so the unsigned difference does not wrap.\<close>

lemma missing_threads_no_wrap:
  assumes "storage_ok b" "distinct active"
  shows "length (stacks (evict_stale active b)) \<le> min (length active) MaximumThreads"
proof -
  have "length (stacks (evict_stale active b)) = card (fst ` set (stacks (evict_stale active b)))"
    using storage_okD(1) [OF evict_stale_ok(1) [OF assms(1)], of active] by (metis distinct_card length_map set_map)
  also have "\<dots> \<le> card (set active)" using evict_stale_ok(2) [OF assms(1)] by (simp add: card_mono)
  finally show ?thesis
    using storage_okD(5) [OF evict_stale_ok(1) [OF assms(1)], of active] assms(2) by (simp add: distinct_card)
qed

lemma reclaim_ok:
  assumes "storage_ok b" "cached b = None"
  shows "storage_ok (reclaim n b)" "\<forall>e \<in> set (stacks (reclaim n b)). vector_capacity (snd e) \<le> n"
    "fst ` set (stacks (reclaim n b)) = fst ` set (stacks b)"
proof -
  note b = storage_okD [OF assms(1)]
  let ?big = "\<lambda>e :: u64 \<times> frame_vector. vector_capacity (snd e) > n"
  have sum: "total_capacity (map (\<lambda>e. if ?big e then (fst e, empty_vector) else e) es) = total_capacity (filter (\<lambda>e. \<not> ?big e) es)" for es
    by (induction es) auto
  have keys: "map fst (map (\<lambda>e. if ?big e then (fst e, empty_vector) else e) es) = map fst es" for es :: "(u64 \<times> frame_vector) list"
    by (induction es) auto
  have fc: "frameCapacity (reclaim n b) = total_capacity (stacks (reclaim n b))"
    using b(3) total_capacity_split [of "stacks b" ?big] unfolding reclaim_def by (simp add: sum del: map_map)
  then show "storage_ok (reclaim n b)"
    using b(1,2,4,5) assms(2) keys [of "stacks b"] by (auto simp: storage_ok_def reclaim_def simp del: map_map)
  show "\<forall>e \<in> set (stacks (reclaim n b)). vector_capacity (snd e) \<le> n" by (auto simp: reclaim_def)
  show "fst ` set (stacks (reclaim n b)) = fst ` set (stacks b)"
    using arg_cong [OF keys [of "stacks b"], of set] by (simp add: reclaim_def del: map_map)
qed

lemma reserve_thread_ok:
  assumes "\<And>n. n \<le> reserve n" "storage_ok b" "cached b = None"
  shows "storage_ok (reserve_thread reserve n t b)" "cached (reserve_thread reserve n t b) = None"
proof -
  note ok = storage_okD [OF assms(2)]
  let ?m = "min n (MaximumFrameCapacity - frameCapacity b)"
  show "cached (reserve_thread reserve n t b) = None"
    using assms(3) by (simp add: reserve_thread_def split: option.split prod.split bool.split)
  show "storage_ok (reserve_thread reserve n t b)"
  proof (cases "map_of (stacks b) t")
    case None
    then have new: "t \<notin> fst ` set (stacks b)" by (simp add: map_of_eq_None_iff)
    from assms(1) empty_vector_ok(1) show ?thesis
    proof (cases rule: TryReserve_cases [where m = ?m])
      case no
      then show ?thesis using None new ok assms by (auto simp: reserve_thread_def storage_ok_def Let_def)
    next
      case (yes vec')
      then have "vector_capacity vec' \<noteq> vector_capacity empty_vector" by simp
      from yes(6) [OF this] yes None new ok assms show ?thesis by (auto simp: reserve_thread_def storage_ok_def Let_def)
    qed
  next
    case (Some vec)
    have v: "vector_ok vec" using Some ok(2) by (auto dest: map_of_SomeD)
    show ?thesis
    proof (cases "vector_capacity vec = 0")
      case False
      then show ?thesis using Some assms by (simp add: reserve_thread_def)
    next
      case True
      from assms(1) v show ?thesis
      proof (cases rule: TryReserve_cases [where m = ?m])
        case no
        with Some True assms show ?thesis by (simp add: reserve_thread_def)
      next
        case (yes vec')
        then have "vector_capacity vec' \<noteq> vector_capacity vec" using True by simp
        from yes(6) [OF this] have "vector_capacity vec' \<le> MaximumFrameCapacity - frameCapacity b" by simp
        then have "frameCapacity b + (vector_capacity vec' - vector_capacity vec) \<le> MaximumFrameCapacity"
          using ok(4) True by linarith
        from storage_ok_set_stack [OF assms(2) Some yes(2,4) this] True Some yes(1) show ?thesis by (simp add: reserve_thread_def)
      qed
    qed
  qed
qed

lemma reserve_threads_ok:
  assumes "\<And>n. n \<le> reserve n"
  shows "storage_ok b \<Longrightarrow> cached b = None \<Longrightarrow> storage_ok (fold (reserve_thread reserve n) ts b)"
  by (induction ts arbitrary: b) (simp_all add: reserve_thread_ok [OF assms])

text \<open>The state in which the reservation pass starts.\<close>

definition prepared :: "u64 list \<Rightarrow> stacks_buffer \<Rightarrow> stacks_buffer" where
  "prepared active b =
     (let b = evict_stale active b; threadCount = min (length active) MaximumThreads; initial = initialCapacity threadCount
      in if (threadCount - length (stacks b)) * initial > MaximumFrameCapacity - frameCapacity b then reclaim initial b else b)"

lemma PrepareForCapture_prepared:
  "PrepareForCapture reserve active b =
     fold (reserve_thread reserve (initialCapacity (min (length active) MaximumThreads))) active (prepared active b)"
  by (simp add: PrepareForCapture_def prepared_def Let_def)

lemma prepared_ok:
  assumes "storage_ok b"
  shows "storage_ok (prepared active b)" "cached (prepared active b) = None" "fst ` set (stacks (prepared active b)) \<subseteq> set active"
proof -
  note e = evict_stale_ok [OF assms, of active]
  have c: "cached (evict_stale active b) = None" by (simp add: evict_stale_def)
  note r = reclaim_ok [OF e(1) c]
  show "storage_ok (prepared active b)" "fst ` set (stacks (prepared active b)) \<subseteq> set active"
    using e(1,2) r(1,3) by (auto simp: prepared_def Let_def)
  show "cached (prepared active b) = None" using c by (simp add: prepared_def reclaim_def Let_def)
qed

lemma PrepareForCapture_ok: "(\<And>n. n \<le> reserve n) \<Longrightarrow> storage_ok b \<Longrightarrow> storage_ok (PrepareForCapture reserve active b)"
  unfolding PrepareForCapture_prepared by (rule reserve_threads_ok) (simp_all add: prepared_ok)

lemma Reset_ok: "storage_ok b \<Longrightarrow> storage_ok (Reset b)"
  by (auto simp: storage_ok_def Reset_def vector_ok_def o_def image_image)

section \<open>Every sequence of operations\<close>

datatype storage_operation = Prepare "u64 list" | Frame u64 function_identifier | ResetStacks | ClearAll

primrec storage_step :: "(nat \<Rightarrow> nat) \<Rightarrow> storage_operation \<Rightarrow> stacks_buffer \<Rightarrow> stacks_buffer" where
  "storage_step reserve (Prepare active) = PrepareForCapture reserve active"
| "storage_step reserve (Frame tid fid) = frameProcessor reserve tid fid"
| "storage_step reserve ResetStacks = Reset"
| "storage_step reserve ClearAll = ClearStacks"

lemma storage_step_ok: "(\<And>n. n \<le> reserve n) \<Longrightarrow> storage_ok b \<Longrightarrow> storage_ok (storage_step reserve oper b)"
  by (cases oper) (simp_all add: PrepareForCapture_ok frameProcessor_ok Reset_ok, simp add: ClearStacks_def storage_ok_def)

lemma storage_steps_ok: "(\<And>n. n \<le> reserve n) \<Longrightarrow> storage_ok b \<Longrightarrow> storage_ok (fold (storage_step reserve) ops b)"
  by (induction ops arbitrary: b) (simp_all add: storage_step_ok)

text \<open>C31: the frame storage stays within its budget. With an allocator that gives at least what it is asked for (and
  possibly more), after any sequence of captures, delivered frames, resets and clears: the accounted capacity is
  exactly the sum of the vectors' capacities and at most 32768 frames, there are at most 1024 stacks of at most 512
  frames, and no vector holds more frames than its capacity, so that no push made while the runtime is suspended ever
  reallocates.\<close>

theorem frame_storage_within_budget:
  assumes "\<And>n. n \<le> reserve n" "fold (storage_step reserve) ops ThreadStacksBuffer_new = b"
  shows "frameCapacity b = (\<Sum>e\<leftarrow>stacks b. vector_capacity (snd e)) \<and> frameCapacity b \<le> 32768 \<and> length (stacks b) \<le> 1024 \<and>
    (\<forall>(tid, vec) \<in> set (stacks b). length (elements vec) \<le> vector_capacity vec \<and> vector_capacity vec \<le> 512)"
proof -
  have "storage_ok ThreadStacksBuffer_new" by (simp add: storage_ok_def ThreadStacksBuffer_new_def)
  then have "storage_ok b" using storage_steps_ok [OF assms(1)] assms(2) by blast
  then show ?thesis
    by (auto simp: storage_ok_def vector_ok_def MaximumFrameCapacity_def MaximumThreads_def MaximumFramesPerStack_def)
qed

theorem frame_storage_within_budget_witness:
  "frameCapacity (fold (storage_step (\<lambda>n. n + 1)) [Prepare [5, 6], Frame 5 (Managed 1 9 True), ResetStacks] ThreadStacksBuffer_new) \<le> 32768"
  using frame_storage_within_budget [of "\<lambda>n. n + 1" "[Prepare [5, 6], Frame 5 (Managed 1 9 True), ResetStacks]", OF _ refl] by simp

section \<open>Room for every thread\<close>

definition lacking :: "stacks_buffer \<Rightarrow> u64 \<Rightarrow> bool" where
  "lacking b t = (case map_of (stacks b) t of None \<Rightarrow> True | Some vec \<Rightarrow> vector_capacity vec = 0)"

definition all_empty :: "stacks_buffer \<Rightarrow> bool" where
  "all_empty b \<longleftrightarrow> (\<forall>e \<in> set (stacks b). elements (snd e) = [])"

abbreviation provided :: "stacks_buffer \<Rightarrow> (u64 \<times> frame_vector) list" where
  "provided b \<equiv> filter (\<lambda>e. vector_capacity (snd e) \<noteq> 0) (stacks b)"

lemma lacking_count:
  assumes "storage_ok b" "fst ` set (stacks b) \<subseteq> set active" "distinct active"
  shows "length (filter (lacking b) active) + length (provided b) = length active"
proof -
  note d = storage_okD(1) [OF assms(1)]
  have "\<not> lacking b t \<longleftrightarrow> t \<in> fst ` set (provided b)" for t
  proof
    assume "\<not> lacking b t"
    then obtain vec where "map_of (stacks b) t = Some vec" "vector_capacity vec \<noteq> 0" by (auto simp: lacking_def split: option.splits)
    then have "(t, vec) \<in> set (provided b)" by (auto dest: map_of_SomeD)
    then show "t \<in> fst ` set (provided b)" by force
  next
    assume "t \<in> fst ` set (provided b)"
    then obtain vec where "(t, vec) \<in> set (stacks b)" "vector_capacity vec \<noteq> 0" by auto
    then show "\<not> lacking b t" using d by (simp add: lacking_def)
  qed
  moreover have "fst ` set (provided b) \<subseteq> set active" using assms(2) by auto
  ultimately have "{t \<in> set active. \<not> lacking b t} = fst ` set (provided b)" by blast
  moreover have "card (fst ` set (provided b)) = length (provided b)"
    using distinct_card [OF distinct_map_filter [OF d]] by simp
  moreover have "length (filter (\<lambda>t. \<not> lacking b t) active) = card {t \<in> set active. \<not> lacking b t}"
    using distinct_card [OF distinct_filter [OF assms(3)]] by simp
  ultimately show ?thesis using sum_length_filter_compl [of "lacking b" active] by simp
qed

lemma provided_capacity: "total_capacity (stacks b) = total_capacity (provided b)"
proof -
  have "total_capacity es = total_capacity (filter (\<lambda>e. vector_capacity (snd e) \<noteq> 0) es)" for es by (induction es) auto
  then show ?thesis .
qed

lemma total_capacity_bound: "\<forall>e \<in> set es. vector_capacity (snd e) \<le> n \<Longrightarrow> total_capacity es \<le> length es * n"
  by (induction es) auto

lemma initialCapacity_bounds:
  assumes "threadCount \<le> MaximumThreads"
  shows "0 < initialCapacity threadCount" "initialCapacity threadCount \<le> 80" "threadCount * initialCapacity threadCount \<le> MaximumFrameCapacity"
proof -
  show "0 < initialCapacity threadCount"
    using assms div_le_mono2 [of threadCount 1024 32768]
    by (auto simp: initialCapacity_def kInitialStackFrameCapacity_def MaximumFrameCapacity_def MaximumThreads_def)
  show "initialCapacity threadCount \<le> 80" by (simp add: initialCapacity_def kInitialStackFrameCapacity_def)
  have "threadCount * initialCapacity threadCount \<le> threadCount * (MaximumFrameCapacity div threadCount)"
    by (cases "threadCount = 0") (simp_all add: initialCapacity_def)
  also have "\<dots> \<le> MaximumFrameCapacity" by simp
  finally show "threadCount * initialCapacity threadCount \<le> MaximumFrameCapacity" .
qed

text \<open>Before the reservation pass there is room for the initial capacity of every thread that lacks storage.\<close>

lemma prepared_room:
  assumes "storage_ok b" "distinct active" "length active \<le> MaximumThreads"
  shows "length (filter (lacking (prepared active b)) active) * initialCapacity (length active) \<le>
    MaximumFrameCapacity - frameCapacity (prepared active b)"
proof -
  let ?p = "prepared active b" and ?e = "evict_stale active b" and ?n = "initialCapacity (length active)"
  note p = prepared_ok [OF assms(1), of active]
  have count: "length (filter (lacking ?p) active) + length (provided ?p) = length active"
    by (rule lacking_count [OF p(1,3) assms(2)])
  have N: "min (length active) MaximumThreads = length active" using assms(3) by simp
  show ?thesis
  proof (cases "(length active - length (stacks ?e)) * ?n > MaximumFrameCapacity - frameCapacity ?e")
    case True
    then have eq: "?p = reclaim ?n ?e" by (simp add: prepared_def Let_def N)
    have "\<forall>e \<in> set (provided ?p). vector_capacity (snd e) \<le> ?n"
      unfolding eq using reclaim_ok(2) [OF evict_stale_ok(1) [OF assms(1)], of active ?n] by (simp add: evict_stale_def)
    then have "frameCapacity ?p \<le> length (provided ?p) * ?n"
      unfolding storage_okD(3) [OF p(1)] provided_capacity by (rule total_capacity_bound)
    moreover have "length (filter (lacking ?p) active) * ?n + length (provided ?p) * ?n \<le> MaximumFrameCapacity"
      unfolding add_mult_distrib [symmetric] count by (rule initialCapacity_bounds(3) [OF assms(3)])
    ultimately show ?thesis by linarith
  next
    case False
    then have eq: "?p = ?e" by (simp add: prepared_def Let_def N)
    have "provided ?e = stacks ?e" using evict_stale_ok(3) [OF assms(1), of active] by (simp add: filter_True)
    then have "length (filter (lacking ?p) active) = length active - length (stacks ?e)" using count by (simp add: eq)
    then show ?thesis using False by (simp add: eq)
  qed
qed

lemma TryReserve_exact:
  assumes "elements vec = []" "vector_capacity vec = 0" "0 < n" "n \<le> 80" "n \<le> room"
  shows "TryReserveStackFrame id vec (min n room) = (True, vec\<lparr>vector_capacity := n\<rparr>)"
  using assms by (simp add: TryReserveStackFrame_def MaximumFramesPerStack_def kInitialStackFrameCapacity_def Let_def)

text \<open>With an exact allocator a thread that lacks storage gets \<open>n\<close> frames; nothing else changes.\<close>

lemma reserve_thread_exact:
  assumes ok: "storage_ok b" "all_empty b" and n: "0 < n" "n \<le> 80" "n \<le> MaximumFrameCapacity - frameCapacity b"
    and lack: "lacking b t" and few: "map_of (stacks b) t = None \<Longrightarrow> length (stacks b) < MaximumThreads"
  shows "frameCapacity (reserve_thread id n t b) = frameCapacity b + n"
    "map_of (stacks (reserve_thread id n t b)) = (map_of (stacks b))(t \<mapsto> \<lparr>elements = [], vector_capacity = n\<rparr>)"
    "all_empty (reserve_thread id n t b)"
proof -
  have "frameCapacity (reserve_thread id n t b) = frameCapacity b + n \<and>
    map_of (stacks (reserve_thread id n t b)) = (map_of (stacks b))(t \<mapsto> \<lparr>elements = [], vector_capacity = n\<rparr>) \<and>
    all_empty (reserve_thread id n t b)"
  proof (cases "map_of (stacks b) t")
    case None
    have "TryReserveStackFrame id empty_vector (min n (MaximumFrameCapacity - frameCapacity b)) = (True, empty_vector\<lparr>vector_capacity := n\<rparr>)"
      by (rule TryReserve_exact) (use n in simp_all)
    with None few ok n show ?thesis by (auto simp: reserve_thread_def all_empty_def empty_vector_def)
  next
    case (Some vec)
    then have vec: "elements vec = []" "vector_capacity vec = 0"
      using lack ok(2) map_of_SomeD [OF Some] by (auto simp: lacking_def all_empty_def)
    have r: "TryReserveStackFrame id vec (min n (MaximumFrameCapacity - frameCapacity b)) = (True, vec\<lparr>vector_capacity := n\<rparr>)"
      by (rule TryReserve_exact) (use n vec in simp_all)
    have v: "vec\<lparr>vector_capacity := n\<rparr> = \<lparr>elements = [], vector_capacity = n\<rparr>" using vec by simp
    have "map_of (set_stack t \<lparr>elements = [], vector_capacity = n\<rparr> (stacks b)) = (map_of (stacks b))(t \<mapsto> \<lparr>elements = [], vector_capacity = n\<rparr>)"
      by (rule ext) (simp add: map_of_set_stack Some)
    with Some vec r v ok(2) set_stack_set [of t "\<lparr>elements = [], vector_capacity = n\<rparr>" "stacks b"] show ?thesis
      by (auto simp: reserve_thread_def all_empty_def)
  qed
  then show "frameCapacity (reserve_thread id n t b) = frameCapacity b + n"
    "map_of (stacks (reserve_thread id n t b)) = (map_of (stacks b))(t \<mapsto> \<lparr>elements = [], vector_capacity = n\<rparr>)"
    "all_empty (reserve_thread id n t b)" by simp_all
qed

lemma reserve_thread_keeps: "\<not> lacking b t \<Longrightarrow> reserve_thread reserve n t b = b"
  by (auto simp: lacking_def reserve_thread_def split: option.splits)

text \<open>The reservation pass, one thread after the other.\<close>

lemma reservation_pass:
  assumes n: "0 < n" "n \<le> 80" and active: "distinct active" "length active \<le> MaximumThreads"
  shows "storage_ok b \<Longrightarrow> cached b = None \<Longrightarrow> all_empty b \<Longrightarrow> fst ` set (stacks b) \<subseteq> set active \<Longrightarrow> distinct ts \<Longrightarrow>
    set ts \<subseteq> set active \<Longrightarrow> length (filter (lacking b) ts) * n \<le> MaximumFrameCapacity - frameCapacity b \<Longrightarrow>
    all_empty (fold (reserve_thread id n) ts b) \<and> (\<forall>t. (t \<in> set ts \<or> \<not> lacking b t) \<longrightarrow> \<not> lacking (fold (reserve_thread id n) ts b) t)"
proof (induction ts arbitrary: b)
  case Nil
  then show ?case by simp
next
  case (Cons t ts)
  show ?case
  proof (cases "lacking b t")
    case False
    with Cons.IH [of b] Cons.prems show ?thesis by (auto simp: reserve_thread_keeps)
  next
    case True
    let ?b = "reserve_thread id n t b"
    have room: "n + length (filter (lacking b) ts) * n \<le> MaximumFrameCapacity - frameCapacity b" using Cons.prems(7) True by simp
    have few: "length (stacks b) < MaximumThreads" if "map_of (stacks b) t = None"
    proof -
      have "fst ` set (stacks b) \<subset> set active" using Cons.prems(4,6) that by (auto simp: map_of_eq_None_iff)
      then have "card (fst ` set (stacks b)) < card (set active)" by (simp add: psubset_card_mono)
      moreover have "card (fst ` set (stacks b)) = length (stacks b)" using distinct_card [OF storage_okD(1) [OF Cons.prems(1)]] by simp
      ultimately show ?thesis using active by (simp add: distinct_card)
    qed
    have "n \<le> MaximumFrameCapacity - frameCapacity b" using room by simp
    note e = reserve_thread_exact [OF Cons.prems(1,3) n this True few]
    note o = reserve_thread_ok [of id, OF _ Cons.prems(1,2), of n t, simplified]
    have lack: "lacking ?b u \<longleftrightarrow> u \<noteq> t \<and> lacking b u" for u using n by (simp add: lacking_def e(2))
    have keys: "fst ` set (stacks ?b) \<subseteq> set active"
      using Cons.prems(4,6) arg_cong [OF e(2), of dom] by (auto simp: dom_map_of_conv_image_fst)
    have "filter (lacking ?b) ts = filter (lacking b) ts" using Cons.prems(5) by (intro filter_cong) (auto simp: lack)
    then have bound: "length (filter (lacking ?b) ts) * n \<le> MaximumFrameCapacity - frameCapacity ?b" using room by (simp add: e(1))
    have ts: "distinct ts" "set ts \<subseteq> set active" using Cons.prems(5,6) by simp_all
    from Cons.IH [OF o e(3) keys ts bound] show ?thesis using lack by (simp only: fold_simps list.set insert_iff) blast
  qed
qed

lemma all_empty_prepared: "all_empty b \<Longrightarrow> all_empty (prepared active b)"
  by (auto simp: all_empty_def prepared_def evict_stale_def reclaim_def Let_def)

text \<open>No thread of a cohort is left without storage. When at most 1024 threads are captured and the allocator is
  exact, then after any history, and whatever storage the earlier captures left behind, preparing a capture gives
  every active thread a vector with room, so its first frame is recorded.\<close>

theorem every_thread_gets_storage:
  assumes "fold (storage_step id) ops ThreadStacksBuffer_new = b" "distinct active" "length active \<le> 1024" "t \<in> set active"
  shows "\<exists>b'. TryPrepareFrame id t (PrepareForCapture id active (Reset b)) = (Some t, b')"
proof -
  have "storage_ok ThreadStacksBuffer_new" by (simp add: storage_ok_def ThreadStacksBuffer_new_def)
  then have ok: "storage_ok (Reset b)" using storage_steps_ok [of id] assms(1) by (metis Reset_ok id_apply order_refl)
  let ?p = "prepared active (Reset b)" and ?n = "initialCapacity (length active)"
  have N: "length active \<le> MaximumThreads" "min (length active) MaximumThreads = length active"
    using assms(3) by (simp_all add: MaximumThreads_def)
  have "all_empty ?p" by (rule all_empty_prepared) (simp add: all_empty_def Reset_def)
  with reservation_pass [OF initialCapacity_bounds(1,2) [OF N(1)] assms(2) N(1) prepared_ok(1,2) [OF ok] _ prepared_ok(3) [OF ok] assms(2) order_refl
      prepared_room [OF ok assms(2) N(1)]] assms(4)
  have "all_empty (PrepareForCapture id active (Reset b))" "\<not> lacking (PrepareForCapture id active (Reset b)) t"
    by (auto simp: PrepareForCapture_prepared N)
  then obtain vec where "map_of (stacks (PrepareForCapture id active (Reset b))) t = Some vec" "elements vec = []" "0 < vector_capacity vec"
    by (auto simp: lacking_def all_empty_def split: option.splits dest!: map_of_SomeD)
  then show ?thesis by (auto simp: TryPrepareFrame_def)
qed

theorem every_thread_gets_storage_witness:
  "\<exists>b'. TryPrepareFrame id 6 (PrepareForCapture id [5, 6] (Reset (storage_step id (Prepare [5]) ThreadStacksBuffer_new))) = (Some 6, b')"
  using every_thread_gets_storage [of "[Prepare [5]]" "storage_step id (Prepare [5]) ThreadStacksBuffer_new" "[5, 6]" 6] by simp

end
