(* ===== verification/Trace_Selection.thy ===== *)
theory Trace_Selection
  imports Sample_Buffer "HOL-Library.AList"
begin

text \<open>
  What the application tells the profiler about its threads and traces (\<open>continuous_profiler.cpp\<close>): the span context
  and the name of a thread, and the traces selected for frequent sampling with their deadlines. Maps are
  association lists with distinct keys; the steady clock is a number of nanoseconds, and a deadline is kept in whole
  milliseconds. The theorem: at most 50 traces are selected, and a check leaves no trace that was started more than
  fifteen minutes (and the millisecond lost by rounding) before it.
\<close>

section \<open>Span contexts and thread states\<close>

definition IsDefault :: "trace_context \<Rightarrow> bool" where
  "IsDefault ctx \<longleftrightarrow> trace_id_high ctx = 0 \<and> trace_id_low ctx = 0"

definition span_IsDefault :: "thread_span_context \<Rightarrow> bool" where
  "span_IsDefault ctx \<longleftrightarrow> IsDefault (trace_context_of ctx) \<and> span_id ctx = 0"

type_synonym span_map = "(u64 \<times> thread_span_context) list"

definition PutContext :: "u64 \<Rightarrow> thread_span_context \<Rightarrow> span_map \<Rightarrow> span_map" where
  "PutContext threadId currentSpanContext m = AList.update threadId currentSpanContext m"

definition FindContext :: "u64 \<Rightarrow> span_map \<Rightarrow> thread_span_context option" where
  "FindContext threadId m = map_of m threadId"

definition RemoveSpan :: "thread_span_context \<Rightarrow> span_map \<Rightarrow> span_map" where
  "RemoveSpan spanContext m = filter (\<lambda>e. snd e \<noteq> spanContext) m"

definition RemoveThread :: "u64 \<Rightarrow> span_map \<Rightarrow> span_map" where
  "RemoveThread threadId m = AList.delete threadId m"

text \<open>A thread state is its name; a null pointer in the map is \<open>None\<close>.\<close>

type_synonym state_map = "(u64 \<times> wstring option) list"

definition ThreadCreated :: "u64 \<Rightarrow> state_map \<Rightarrow> state_map" where
  "ThreadCreated tid states = states"

definition ThreadDestroyed :: "u64 \<Rightarrow> state_map \<times> span_map \<Rightarrow> state_map \<times> span_map" where
  "ThreadDestroyed tid = (\<lambda>(states, spans).
     let states = (if map_of states tid = None then AList.update tid None states else states)
     in (AList.delete tid states, RemoveThread tid spans))"

definition ThreadNameChanged :: "u64 \<Rightarrow> nat \<Rightarrow> wstring \<Rightarrow> state_map \<Rightarrow> state_map" where
  "ThreadNameChanged tid cch_name name states = AList.update tid (Some (take cch_name name)) states"

text \<open>The exported notifications. The admission, the profiler interface and the answer of \<open>GetCurrentThreadID\<close> are arguments.\<close>

definition ContinuousProfilerNotifySpanStopped :: "u64 \<Rightarrow> u64 \<Rightarrow> u64 \<Rightarrow> span_map \<Rightarrow> span_map" where
  "ContinuousProfilerNotifySpanStopped traceIdHigh traceIdLow spanId = RemoveSpan (span_context traceIdHigh traceIdLow spanId)"

definition ContinuousProfilerSetNativeContext ::
    "bool \<Rightarrow> bool \<Rightarrow> hresult \<Rightarrow> u64 \<Rightarrow> u64 \<Rightarrow> u64 \<Rightarrow> u64 \<Rightarrow> span_map \<Rightarrow> span_map" where
  "ContinuousProfilerSetNativeContext admission info_null hr threadId traceIdHigh traceIdLow spanId m =
     (if \<not> admission then m
      else if info_null then m
      else if FAILED hr then m
      else PutContext threadId (span_context traceIdHigh traceIdLow spanId) m)"

section \<open>Selected traces\<close>

definition kSelectiveSamplingMaxTraces :: nat where "kSelectiveSamplingMaxTraces = 50"

text \<open>\<open>kSelectiveSamplingMaxAgeMinutes\<close> in nanoseconds, and a millisecond.\<close>

definition max_age :: nat where "max_age = 15 * 60 * 1000000000"
definition millisecond :: nat where "millisecond = 1000000"

record selected_traces =
  selective_sampling_trace_map :: "(trace_context \<times> nat) list"
  nextOutdatedEntriesScan :: nat

definition TryAddSelectiveSamplingTrace :: "trace_context \<Rightarrow> nat \<Rightarrow> selected_traces \<Rightarrow> bool \<times> selected_traces" where
  "TryAddSelectiveSamplingTrace ctx now s =
     (if length (selective_sampling_trace_map s) \<ge> kSelectiveSamplingMaxTraces then (False, s)
      else (True, s\<lparr>selective_sampling_trace_map :=
              AList.update ctx ((now + max_age) div millisecond) (selective_sampling_trace_map s)\<rparr>))"

definition RemoveSelectiveSamplingTrace :: "trace_context \<Rightarrow> selected_traces \<Rightarrow> selected_traces" where
  "RemoveSelectiveSamplingTrace ctx s = s\<lparr>selective_sampling_trace_map := AList.delete ctx (selective_sampling_trace_map s)\<rparr>"

text \<open>The scan: outdated entries go, and the next scan is due at the earliest of the remaining deadlines.\<close>

fun scan_entries :: "nat \<Rightarrow> (trace_context \<times> nat) list \<Rightarrow> nat \<Rightarrow> (trace_context \<times> nat) list \<times> nat" where
  "scan_entries now [] nextScan = ([], nextScan)"
| "scan_entries now ((ctx, ms) # es) nextScan =
     (let deadline = ms * millisecond
      in if now \<ge> deadline then scan_entries now es nextScan
         else case scan_entries now es (if deadline < nextScan then deadline else nextScan) of (es, n) \<Rightarrow> ((ctx, ms) # es, n))"

definition HasActiveSelectiveSamplingEntries :: "nat \<Rightarrow> selected_traces \<Rightarrow> bool \<times> selected_traces" where
  "HasActiveSelectiveSamplingEntries now s =
     (let s = (if nextOutdatedEntriesScan s \<le> now
               then (case scan_entries now (selective_sampling_trace_map s) (now + max_age) of
                       (es, n) \<Rightarrow> \<lparr>selective_sampling_trace_map = es, nextOutdatedEntriesScan = n\<rparr>)
               else s)
      in (selective_sampling_trace_map s \<noteq> [], s))"

text \<open>Both answers are computed before they are combined: a saturated buffer does not stop the expiry of traces.\<close>

definition TryPrepareSelectedThreadSampling :: "bool \<Rightarrow> nat \<Rightarrow> selected_traces \<Rightarrow> bool \<times> selected_traces" where
  "TryPrepareSelectedThreadSampling shouldProduceThreadSample now s =
     (case HasActiveSelectiveSamplingEntries now s of (active, s) \<Rightarrow> (shouldProduceThreadSample \<and> active, s))"

definition SelectiveSamplingStart :: "bool \<Rightarrow> u64 \<Rightarrow> u64 \<Rightarrow> nat \<Rightarrow> selected_traces \<Rightarrow> selected_traces" where
  "SelectiveSamplingStart info_null traceIdHigh traceIdLow now s =
     (let ctx = \<lparr>trace_id_high = traceIdHigh, trace_id_low = traceIdLow\<rparr>
      in if info_null then s else if IsDefault ctx then s else snd (TryAddSelectiveSamplingTrace ctx now s))"

definition SelectiveSamplingStop :: "bool \<Rightarrow> u64 \<Rightarrow> u64 \<Rightarrow> selected_traces \<Rightarrow> selected_traces" where
  "SelectiveSamplingStop info_null traceIdHigh traceIdLow s =
     (let ctx = \<lparr>trace_id_high = traceIdHigh, trace_id_low = traceIdLow\<rparr>
      in if info_null then s else if IsDefault ctx then s else RemoveSelectiveSamplingTrace ctx s)"

text \<open>The threads of the selected traces.\<close>

definition selected_threads :: "selected_traces \<Rightarrow> span_map \<Rightarrow> u64 list" where
  "selected_threads s spans =
     map fst (filter (\<lambda>e. map_of (selective_sampling_trace_map s) (trace_context_of (snd e)) \<noteq> None) spans)"

section \<open>Every history\<close>

datatype trace_event = Start bool u64 u64 nat | Stop bool u64 u64 nat | Check nat | Rescan nat

primrec event_time :: "trace_event \<Rightarrow> nat" where
  "event_time (Start n h l t) = t"
| "event_time (Stop n h l t) = t"
| "event_time (Check t) = t"
| "event_time (Rescan t) = t"

primrec trace_step :: "trace_event \<Rightarrow> selected_traces \<Rightarrow> selected_traces" where
  "trace_step (Start n h l t) s = SelectiveSamplingStart n h l t s"
| "trace_step (Stop n h l t) s = SelectiveSamplingStop n h l s"
| "trace_step (Check t) s = snd (HasActiveSelectiveSamplingEntries t s)"
| "trace_step (Rescan t) s = s\<lparr>nextOutdatedEntriesScan := t\<rparr>"

definition no_traces :: selected_traces where
  "no_traces = \<lparr>selective_sampling_trace_map = [], nextOutdatedEntriesScan = 0\<rparr>"

text \<open>An entry was put there by an accepted start.\<close>

definition started_by :: "trace_event set \<Rightarrow> trace_context \<times> nat \<Rightarrow> nat \<Rightarrow> bool" where
  "started_by E e a \<longleftrightarrow> Start False (trace_id_high (fst e)) (trace_id_low (fst e)) a \<in> E \<and> \<not> IsDefault (fst e) \<and>
     snd e = (a + max_age) div millisecond"

definition traces_ok :: "trace_event set \<Rightarrow> nat \<Rightarrow> selected_traces \<Rightarrow> bool" where
  "traces_ok E clock s \<longleftrightarrow>
     length (selective_sampling_trace_map s) \<le> kSelectiveSamplingMaxTraces \<and> nextOutdatedEntriesScan s \<le> clock + max_age \<and>
     (\<forall>e \<in> set (selective_sampling_trace_map s). (\<exists>a. started_by E e a) \<and>
        nextOutdatedEntriesScan s \<le> max clock (snd e * millisecond + millisecond))"

lemma update_props:
  "length (AList.update k v xs) \<le> Suc (length xs)" "set (AList.update k v xs) \<subseteq> insert (k, v) (set xs)"
  by (induction xs) auto

lemma delete_props: "length (AList.delete k xs) \<le> length xs" "set (AList.delete k xs) \<subseteq> set xs"
  by (simp_all add: AList.delete_eq)

lemma scan_entries_props:
  "scan_entries now es n = (es', n') \<Longrightarrow>
   set es' = {e \<in> set es. now < snd e * millisecond} \<and> length es' \<le> length es \<and> n' \<le> n \<and> (\<forall>e \<in> set es'. n' \<le> snd e * millisecond)"
proof (induction now es n arbitrary: es' n' rule: scan_entries.induct)
  case (2 now ctx ms es n)
  show ?case
  proof (cases "now \<ge> ms * millisecond")
    case True
    with 2 show ?thesis by fastforce
  next
    case False
    obtain es'' where es'': "scan_entries now es (if ms * millisecond < n then ms * millisecond else n) = (es'', n')" "es' = (ctx, ms) # es''"
      using "2.prems" False by (auto simp: Let_def split: prod.splits)
    from "2.IH"(2) [OF refl False es''(1)] False es''(2) show ?thesis by (auto split: if_splits)
  qed
qed simp

lemma started_by_mono: "started_by E e a \<Longrightarrow> E \<subseteq> F \<Longrightarrow> started_by F e a"
  by (auto simp: started_by_def)

lemma rounding: "a < a div millisecond * millisecond + millisecond"
  using mod_less_divisor [of millisecond a] div_mult_mod_eq [of a millisecond] by (simp add: millisecond_def)

lemma traces_ok_shrink:
  assumes "traces_ok E clock s" "set es \<subseteq> set (selective_sampling_trace_map s)" "length es \<le> length (selective_sampling_trace_map s)"
    "E \<subseteq> F" "clock \<le> now"
  shows "traces_ok F now (s\<lparr>selective_sampling_trace_map := es\<rparr>)"
proof -
  have "nextOutdatedEntriesScan s \<le> max now (snd e * millisecond + millisecond)" "\<exists>a. started_by F e a" if "e \<in> set es" for e
  proof -
    have "e \<in> set (selective_sampling_trace_map s)" using that assms(2) by blast
    with assms(1) have "nextOutdatedEntriesScan s \<le> max clock (snd e * millisecond + millisecond)" "\<exists>a. started_by E e a"
      by (auto simp: traces_ok_def)
    then show "nextOutdatedEntriesScan s \<le> max now (snd e * millisecond + millisecond)" "\<exists>a. started_by F e a"
      using assms(5) started_by_mono [of E e _ F] assms(4) by (auto simp: le_max_iff_disj)
  qed
  then show ?thesis using assms(1,3,5) by (simp add: traces_ok_def)
qed

lemma start_ok:
  assumes ok: "traces_ok E clock s" and now: "clock \<le> now"
  shows "traces_ok (insert (Start n h l now) E) now (SelectiveSamplingStart n h l now s)"
proof -
  let ?E = "insert (Start n h l now) E" and ?ctx = "\<lparr>trace_id_high = h, trace_id_low = l\<rparr>"
  let ?ms = "(now + max_age) div millisecond"
  have same: "traces_ok ?E now s" using traces_ok_shrink [OF ok order_refl order_refl _ now, of ?E] by auto
  show ?thesis
  proof (cases "n \<or> IsDefault ?ctx \<or> length (selective_sampling_trace_map s) \<ge> kSelectiveSamplingMaxTraces")
    case True
    with same show ?thesis by (auto simp: SelectiveSamplingStart_def TryAddSelectiveSamplingTrace_def Let_def)
  next
    case False
    then have eq: "SelectiveSamplingStart n h l now s = s\<lparr>selective_sampling_trace_map := AList.update ?ctx ?ms (selective_sampling_trace_map s)\<rparr>"
      by (simp add: SelectiveSamplingStart_def TryAddSelectiveSamplingTrace_def Let_def)
    have "started_by ?E (?ctx, ?ms) now" using False by (simp add: started_by_def)
    moreover have "nextOutdatedEntriesScan s \<le> ?ms * millisecond + millisecond"
      using ok now rounding [of "now + max_age"] by (simp add: traces_ok_def)
    ultimately have "(\<exists>a. started_by ?E e a) \<and> nextOutdatedEntriesScan s \<le> max now (snd e * millisecond + millisecond)"
      if "e \<in> set (AList.update ?ctx ?ms (selective_sampling_trace_map s))" for e
      using same subsetD [OF update_props(2) that] by (auto simp: traces_ok_def)
    then show ?thesis
      using same False update_props(1) [of ?ctx ?ms "selective_sampling_trace_map s"] unfolding eq by (auto simp: traces_ok_def)
  qed
qed

lemma check_ok:
  assumes ok: "traces_ok E clock s" and now: "clock \<le> now"
  defines "t \<equiv> snd (HasActiveSelectiveSamplingEntries now s)"
  shows "traces_ok E now t" "\<And>e. e \<in> set (selective_sampling_trace_map t) \<Longrightarrow> now < snd e * millisecond + millisecond"
proof -
  have "traces_ok E now t \<and> (\<forall>e \<in> set (selective_sampling_trace_map t). now < snd e * millisecond + millisecond)"
  proof (cases "nextOutdatedEntriesScan s \<le> now")
    case True
    obtain es n where sc: "scan_entries now (selective_sampling_trace_map s) (now + max_age) = (es, n)" by force
    note p = scan_entries_props [OF sc]
    have t: "t = \<lparr>selective_sampling_trace_map = es, nextOutdatedEntriesScan = n\<rparr>"
      using True by (simp add: t_def HasActiveSelectiveSamplingEntries_def sc Let_def)
    show ?thesis unfolding t using p ok by (fastforce simp: traces_ok_def)
  next
    case False
    then have t: "t = s" by (simp add: t_def HasActiveSelectiveSamplingEntries_def)
    have "now < snd e * millisecond + millisecond" if "e \<in> set (selective_sampling_trace_map s)" for e
      using False ok that now by (force simp: traces_ok_def le_max_iff_disj)
    then show ?thesis unfolding t using traces_ok_shrink [OF ok order_refl order_refl order_refl now] by simp
  qed
  then show "traces_ok E now t" "\<And>e. e \<in> set (selective_sampling_trace_map t) \<Longrightarrow> now < snd e * millisecond + millisecond" by simp_all
qed

lemma trace_step_ok:
  assumes "traces_ok E clock s" "clock \<le> event_time ev"
  shows "traces_ok (insert ev E) (event_time ev) (trace_step ev s)"
proof (cases ev)
  case (Start n h l t)
  with start_ok [OF assms(1)] assms(2) show ?thesis by simp
next
  case (Stop n h l t)
  have "traces_ok (insert ev E) t (RemoveSelectiveSamplingTrace ctx s)" for ctx
    unfolding RemoveSelectiveSamplingTrace_def using assms(2) Stop
    by (intro traces_ok_shrink [OF assms(1) delete_props(2) delete_props(1)]) auto
  moreover have "traces_ok (insert ev E) t s"
    using traces_ok_shrink [OF assms(1) order_refl order_refl, of "insert ev E" t] assms(2) Stop by auto
  ultimately show ?thesis using Stop by (auto simp: SelectiveSamplingStop_def Let_def)
next
  case (Check t)
  have "traces_ok E t (trace_step ev s)" using check_ok(1) [OF assms(1), of t] assms(2) Check by simp
  from traces_ok_shrink [OF this order_refl order_refl, of "insert ev E" t] Check show ?thesis by auto
next
  case (Rescan t)
  have "\<exists>a. started_by (insert ev E) e a" if "e \<in> set (selective_sampling_trace_map s)" for e
    using that assms(1) unfolding traces_ok_def by (meson started_by_mono subset_insertI)
  then show ?thesis using assms Rescan by (auto simp: traces_ok_def)
qed

lemma history_ok:
  "traces_ok E clock s \<Longrightarrow> sorted (clock # map event_time es) \<Longrightarrow>
   traces_ok (E \<union> set es) (last (clock # map event_time es)) (fold trace_step es s)"
proof (induction es arbitrary: E clock s)
  case (Cons ev es)
  then show ?case using Cons.IH [OF trace_step_ok [OF Cons.prems(1), of ev]] by simp
qed simp

text \<open>C32: frequent sampling of a trace is bounded in number and in time. Whatever the application and the sampler
  do, in the order of the clock, a check leaves at most 50 selected traces, each of them one the application asked
  for less than fifteen minutes and one millisecond earlier; the default trace is never among them.\<close>

theorem selected_traces_expire:
  assumes "sorted (map event_time (es @ [Check now]))" "fold trace_step (es @ [Check now]) no_traces = s"
  shows "length (selective_sampling_trace_map s) \<le> 50 \<and>
    (\<forall>(ctx, ms) \<in> set (selective_sampling_trace_map s). \<not> IsDefault ctx \<and>
       (\<exists>a. Start False (trace_id_high ctx) (trace_id_low ctx) a \<in> set es \<and> now < a + 900000000000 + 1000000))"
proof -
  have init: "traces_ok {} 0 no_traces" by (simp add: traces_ok_def no_traces_def)
  let ?s = "fold trace_step es no_traces" and ?c = "last (0 # map event_time es)"
  have "sorted (0 # map event_time es)" "?c \<le> now" using assms(1) by (auto simp: sorted_append last_map)
  then have "traces_ok (set es) ?c ?s" using history_ok [OF init] by auto
  note c = check_ok [OF this \<open>?c \<le> now\<close>]
  have s: "s = snd (HasActiveSelectiveSamplingEntries now ?s)" using assms(2) by simp
  have "\<exists>a. Start False (trace_id_high ctx) (trace_id_low ctx) a \<in> set es \<and> now < a + 900000000000 + 1000000"
    and "\<not> IsDefault ctx" if mem: "(ctx, ms) \<in> set (selective_sampling_trace_map s)" for ctx ms
  proof -
    obtain a where a: "started_by (set es) (ctx, ms) a" using c(1) mem by (fastforce simp: s traces_ok_def)
    have "now < ms * millisecond + millisecond" using c(2) mem by (fastforce simp: s)
    also have "\<dots> \<le> a + max_age + millisecond" using a by (simp add: started_by_def)
    finally have "now < a + 900000000000 + 1000000" by (simp add: max_age_def millisecond_def)
    with a show "\<exists>a. Start False (trace_id_high ctx) (trace_id_low ctx) a \<in> set es \<and> now < a + 900000000000 + 1000000" "\<not> IsDefault ctx"
      by (auto simp: started_by_def)
  qed
  with c(1) show ?thesis by (auto simp: s traces_ok_def kSelectiveSamplingMaxTraces_def)
qed

theorem selected_traces_expire_witness:
  "length (selective_sampling_trace_map (fold trace_step ([Start False 1 2 5, Stop False 3 4 6] @ [Check 7]) no_traces)) \<le> 50"
  using selected_traces_expire [of "[Start False 1 2 5, Stop False 3 4 6]" 7, OF _ refl] by simp

end
