(* ===== verification/Sample_Capture.thy ===== *)
theory Sample_Capture
  imports Sampler_Control Stack_Walk_Guard Sample_Batch Sample_Exchange Name_Cache Stack_Storage Trace_Selection "HOL-Library.Sublist"
begin

text \<open>
  One cohort of the sampling worker (\<open>continuous_profiler.cpp\<close>): the capture of the stacks, the resolution of their
  names through the name cache, and the publication, composed the way \<open>CaptureSamples\<close> composes them. What comes
  from outside (the frames the stack walker delivers, the threads the runtime enumerates, shutdown observed at each
  test, an exception, the clocks) is a record. The whole runs under the profiling locks and is one step. The theorem:
  what a cohort captured reaches the reader.
\<close>

section \<open>The code\<close>

record capture_state =
  helper :: naming_helper
  storage :: stacks_buffer
  cpu_slots :: cpu_buffers
  selective_bytes :: selective_buffer
  traces :: selected_traces
  spans :: span_map
  states :: state_map

text \<open>A delivered frame with what the shutdown token says when the callback is entered.\<close>

record delivered_frame =
  frame :: captured_frame
  cancelled_before :: bool

record capture_input =
  reserve_of :: "nat \<Rightarrow> nat"
  GetFunctionInfo2 :: "u64 \<Rightarrow> (u64 \<times> u32) option"
  name_source :: "function_identifier \<Rightarrow> wstring"
  runtime_threads :: "u64 list"
  has_walker :: bool
  delivered :: "delivered_frame list"
  capture_aborted :: bool
  capture_throws :: bool
  cancelled_at_start :: bool
  cancelled_at_end :: bool
  shutdown_before_capture :: bool
  shutdown_before_resolve :: bool
  shutdown_before_publish :: bool
  publish_admitted :: bool
  steady_now :: nat
  batch_now :: u64
  sample_now :: "u64 \<Rightarrow> u64"
  elapsed_micros :: u32

text \<open>One frame: a native frame keeps its address, a managed one is identified through the identifier cache.\<close>

definition capture_frame ::
    "capture_input \<Rightarrow> delivered_frame \<Rightarrow> naming_helper \<times> stacks_buffer \<times> u32 \<Rightarrow> naming_helper \<times> stacks_buffer \<times> u32" where
  "capture_frame inp d = (\<lambda>(h, b, frames).
     if cancelled_before d then (h, b, frames)
     else case TryPrepareFrame (reserve_of inp) (frame_threadId (frame d)) b of
            (None, b) \<Rightarrow> (h, b, frames)
          | (Some tid, b) \<Rightarrow>
              if isUnmanagedFrame (frame d) \<and> functionId (frame d) = 0 \<and> instructionPointer (frame d) \<noteq> 0
              then (h, push_frame tid (Native (instructionPointer (frame d))) b, frames + 1)
              else case LookupManagedFunction (GetFunctionInfo2 inp) (functionId (frame d)) h of
                     (fid, h) \<Rightarrow> (h, push_frame tid fid b, frames + 1))"

text \<open>The result is \<open>None\<close> for an exception, which leaves what was captured so far.\<close>

definition CaptureFunctionIdentifiersForThreads ::
    "capture_input \<Rightarrow> u64 list \<Rightarrow> naming_helper \<times> stacks_buffer \<times> u32 \<Rightarrow> bool option \<times> naming_helper \<times> stacks_buffer \<times> u32" where
  "CaptureFunctionIdentifiersForThreads inp selectedThreads = (\<lambda>(h, b, frames).
     let h = ClearFunctionIdentifierCache h
     in if cancelled_at_start inp then (Some False, h, ClearStacks b, frames)
        else let b = PrepareForCapture (reserve_of inp) selectedThreads b
             in if \<not> has_walker inp then (Some True, h, b, frames)
                else case fold (capture_frame inp) (delivered inp) (h, b, frames) of
                       (h, b, frames) \<Rightarrow>
                         if capture_throws inp then (None, h, b, frames)
                         else if capture_aborted inp \<or> cancelled_at_end inp then (Some False, h, ClearStacks b, frames)
                         else (Some True, h, b, frames))"

text \<open>Resolution through the name cache, with the statistics it counts its misses in.\<close>

definition resolve_cached ::
    "capture_input \<Rightarrow> function_identifier list \<Rightarrow> samples_buffer \<times> naming_helper \<times> sampling_statistics \<Rightarrow>
     samples_buffer \<times> naming_helper \<times> sampling_statistics" where
  "resolve_cached inp = fold (\<lambda>fid (w, s). case Lookup (name_source inp) fid s of (name, s) \<Rightarrow> (RecordFrame fid (the name) w, s))"

definition view_of :: "capture_input \<Rightarrow> capture_state \<Rightarrow> profiler_view" where
  "view_of inp s =
     \<lparr>function_name = name_source inp,
      thread_name = (\<lambda>tid. case map_of (states s) tid of Some (Some nm) \<Rightarrow> Some nm | _ \<Rightarrow> None),
      thread_context = (\<lambda>tid. FindContext tid (spans s)),
      selected_trace = (\<lambda>ctx. map_of (selective_sampling_trace_map (traces s)) ctx \<noteq> None)\<rparr>"

definition sample_cached ::
    "capture_input \<Rightarrow> profiler_view \<Rightarrow> bool \<Rightarrow> u64 \<times> function_identifier list \<Rightarrow>
     samples_buffer \<times> naming_helper \<times> sampling_statistics \<Rightarrow> samples_buffer \<times> naming_helper \<times> sampling_statistics" where
  "sample_cached inp view selectiveSamplingEnabled = (\<lambda>(tid, threadStack) (w, s).
     if threadStack = [] then (w, s)
     else let spanContext = GetContext view tid;
              w = StartSample (GetThreadState view tid) spanContext w;
              w = (if selectiveSamplingEnabled
                   then MarkSelectedForFrequentSampling (selected_trace view (trace_context_of spanContext)) w else w)
          in case resolve_cached inp threadStack (w, s) of (w, s) \<Rightarrow> (EndSample w, s))"

definition stacks_of :: "stacks_buffer \<Rightarrow> (u64 \<times> function_identifier list) list" where
  "stacks_of b = map (\<lambda>(tid, vec). (tid, elements vec)) (stacks b)"

definition publish_all_threads :: "capture_input \<Rightarrow> bool \<Rightarrow> u32 \<Rightarrow> sampling_statistics \<Rightarrow> capture_state \<Rightarrow> capture_state" where
  "publish_all_threads inp selectiveSamplingEnabled interval stats s =
     (case fold (sample_cached inp (view_of inp s) selectiveSamplingEnabled) (stacks_of (storage s))
             (StartBatch (batch_now inp) ThreadSamplesBuffer, helper s, stats) of
        (w, h, stats) \<Rightarrow>
          s\<lparr>helper := h,
            cpu_slots := PublishBuffer (publish_admitted inp) (shutdown_before_publish inp) (WriteFinalStats stats (EndBatch w))
                           interval (cpu_slots s)\<rparr>)"

definition selected_cached ::
    "capture_input \<Rightarrow> profiler_view \<Rightarrow> u64 \<times> function_identifier list \<Rightarrow>
     samples_buffer \<times> naming_helper \<times> sampling_statistics \<Rightarrow> samples_buffer \<times> naming_helper \<times> sampling_statistics" where
  "selected_cached inp view = (\<lambda>(tid, threadStack) (w, s).
     if threadStack = [] then (w, s)
     else case resolve_cached inp threadStack
                 (StartSampleForSelectedThread (sample_now inp tid) (GetThreadState view tid) (GetContext view tid) w, s) of
            (w, s) \<Rightarrow> (EndSample w, s))"

definition publish_selected_threads :: "capture_input \<Rightarrow> sampling_statistics \<Rightarrow> capture_state \<Rightarrow> capture_state" where
  "publish_selected_threads inp stats s =
     (case fold (selected_cached inp (view_of inp s)) (stacks_of (storage s))
             (StartSelectedThreadsBatch ThreadSamplesBuffer, helper s, stats) of
        (w, h, stats) \<Rightarrow>
          let w = EndSelectedThreadsBatch w; s = s\<lparr>helper := h\<rparr>
          in if shutdown_before_publish inp \<or> IsOverflowed w then s
             else if \<not> publish_admitted inp then s
             else s\<lparr>selective_bytes := SelectiveSamplingRecordProducedThreadSample (of_nat (length (buffer w))) (Some (buffer w)) (selective_bytes s)\<rparr>)"

text \<open>The tests before the runtime is suspended: the threads to capture, or nothing to do.\<close>

definition cohort_threads :: "capture_input \<Rightarrow> SamplingType \<Rightarrow> capture_state \<Rightarrow> u64 list option \<times> capture_state" where
  "cohort_threads inp samplingType s =
     (case samplingType of
        SelectedThreads \<Rightarrow>
          (case TryPrepareSelectedThreadSampling (SelectiveSamplingShouldProduceThreadSample (selective_bytes s)) (steady_now inp) (traces s) of
             (go, tr) \<Rightarrow>
               let s = s\<lparr>traces := tr\<rparr>; threads = selected_threads tr (spans s)
               in if \<not> go \<or> shutdown_before_capture inp \<or> selective_sampling_trace_map tr = [] \<or> threads = []
                  then (None, s) else (Some threads, s))
      | Continuous \<Rightarrow>
          if shutdown_before_capture inp \<or> \<not> ThreadSamplingShouldProduceThreadSample (cpu_slots s) then (None, s)
          else (Some (runtime_threads inp), s))"

definition CaptureSamples :: "capture_input \<Rightarrow> SamplingType \<Rightarrow> bool \<Rightarrow> u32 \<Rightarrow> capture_state \<Rightarrow> capture_state" where
  "CaptureSamples inp samplingType selectiveSamplingEnabled interval s =
     (case cohort_threads inp samplingType s of
        (None, s) \<Rightarrow> s
      | (Some threads, s) \<Rightarrow>
          (case CaptureFunctionIdentifiersForThreads inp threads (helper s, storage s, 0) of
             (result, h, b, frames) \<Rightarrow>
               let s = s\<lparr>helper := h, storage := b\<rparr>;
                   nonEmptyCount = length (filter (\<lambda>e. elements (snd e) \<noteq> []) (stacks b));
                   stats = \<lparr>micros_suspended = elapsed_micros inp, num_threads = of_nat nonEmptyCount, total_frames = frames, name_cache_misses = 0\<rparr>
               in if result = Some False \<or> nonEmptyCount = 0 then s
                  else if shutdown_before_resolve inp then s\<lparr>storage := ClearStacks b\<rparr>
                  else (case samplingType of
                          Continuous \<Rightarrow> publish_all_threads inp selectiveSamplingEnabled interval stats s
                        | SelectedThreads \<Rightarrow> publish_selected_threads inp stats s)))"

text \<open>The cohort loop resets the storage after every capture.\<close>

definition run_cohort :: "capture_input \<Rightarrow> SamplingType \<Rightarrow> thread_sampling_config \<Rightarrow> capture_state \<Rightarrow> capture_state" where
  "run_cohort inp samplingType cfg s =
     (let s = CaptureSamples inp samplingType (SelectiveEnabled cfg) (cpuSamplingInterval cfg) s in s\<lparr>storage := Reset (storage s)\<rparr>)"

section \<open>Resolution through the cache is resolution\<close>

lemma resolve_cached_names:
  assumes "names_of (name_source inp) m ks s" "function_name view = name_source inp"
  shows "fst (resolve_cached inp fids (w, s)) = ResolveFrames view fids w \<and>
    names_of (name_source inp) m (ks @ fids) (snd (resolve_cached inp fids (w, s)))"
  using assms(1)
proof (induction fids arbitrary: ks s w)
  case Nil
  then show ?case by (simp add: resolve_cached_def ResolveFrames_def)
next
  case (Cons fid fids)
  obtain h stats where s: "s = (h, stats)" by force
  obtain a t where l: "Lookup (name_source inp) fid s = (a, t)" by (metis surj_pair)
  note step = Lookup_step [OF Cons.prems [unfolded s], of fid, folded s, unfolded l]
  have "a = Some (name_source inp fid)" using step(1) by simp
  with Cons.IH [of "ks @ [fid]" t "RecordFrame fid (name_source inp fid) w"] step(2) l show ?case
    by (simp add: resolve_cached_def ResolveFrames_def assms(2))
qed

definition names_filled :: "(function_identifier \<Rightarrow> wstring) \<Rightarrow> naming_helper \<Rightarrow> bool" where
  "names_filled name h \<longleftrightarrow> (\<exists>ks. names.holds_recent (\<lambda>fid. Some (name fid)) ks (function_name_cache h))"

lemma names_filled_iff: "names_filled name h \<longleftrightarrow> (\<exists>m ks. names_of name m ks (h, stats))"
proof
  assume "names_filled name h"
  then obtain ks where "names.holds_recent (\<lambda>fid. Some (name fid)) ks (function_name_cache h)" by (auto simp: names_filled_def)
  then have "names_of name (name_cache_misses stats - of_nat (misses kMaxFunctionNameCacheSize ks)) ks (h, stats)"
    by (simp add: names_of_def)
  then show "\<exists>m ks. names_of name m ks (h, stats)" by blast
qed (auto simp: names_of_def names_filled_def)

lemma sample_cached_names:
  assumes "names_filled (name_source inp) (fst s)" "function_name view = name_source inp"
  shows "fst (sample_cached inp view sel ts (w, s)) = write_thread_sample view sel ts w \<and>
    names_filled (name_source inp) (fst (snd (sample_cached inp view sel ts (w, s))))"
proof (cases "snd ts = []")
  case True
  then show ?thesis using assms by (simp add: sample_cached_def write_thread_sample_def split_beta)
next
  case False
  obtain m ks where n: "names_of (name_source inp) m ks s" using assms(1) names_filled_iff [of _ "fst s" "snd s"] by auto
  let ?w = "let w = StartSample (GetThreadState view (fst ts)) (GetContext view (fst ts)) w
    in if sel then MarkSelectedForFrequentSampling (selected_trace view (trace_context_of (GetContext view (fst ts)))) w else w"
  note r = resolve_cached_names [OF n assms(2), of "snd ts" ?w]
  obtain w' s' where rs: "resolve_cached inp (snd ts) (?w, s) = (w', s')" by (metis surj_pair)
  have "names_filled (name_source inp) (fst s')" using r rs names_filled_iff [of _ "fst s'" "snd s'"] by auto
  with r rs False show ?thesis by (cases sel) (simp_all add: sample_cached_def write_thread_sample_def split_beta Let_def)
qed

lemma samples_cached_names:
  assumes "names_filled (name_source inp) (fst s)" "function_name view = name_source inp"
  shows "fst (fold (sample_cached inp view sel) tss (w, s)) = fold (write_thread_sample view sel) tss w \<and>
    names_filled (name_source inp) (fst (snd (fold (sample_cached inp view sel) tss (w, s))))"
  using assms(1)
proof (induction tss arbitrary: w s)
  case (Cons ts tss)
  obtain w' s' where c: "sample_cached inp view sel ts (w, s) = (w', s')" by (metis surj_pair)
  from sample_cached_names [OF Cons.prems assms(2), of sel ts w] Cons.IH [of s' w'] c show ?case by simp
qed simp

lemma selected_cached_names:
  assumes "names_filled (name_source inp) (fst s)" "function_name view = name_source inp"
  shows "names_filled (name_source inp) (fst (snd (fold (selected_cached inp view) tss (w, s))))"
  using assms(1)
proof (induction tss arbitrary: w s)
  case (Cons ts tss)
  obtain w' s' where c: "selected_cached inp view ts (w, s) = (w', s')" by (metis surj_pair)
  obtain m ks where n: "names_of (name_source inp) m ks s" using Cons.prems names_filled_iff [of _ "fst s" "snd s"] by auto
  have "names_filled (name_source inp) (fst s')"
  proof (cases "snd ts = []")
    case True
    with c Cons.prems show ?thesis by (auto simp: selected_cached_def split_beta)
  next
    case False
    with c resolve_cached_names [OF n assms(2)] have "\<exists>m ks. names_of (name_source inp) m ks (fst s', snd s')"
      by (auto simp: selected_cached_def split_beta)
    then show ?thesis using names_filled_iff by blast
  qed
  with Cons.IH [of s' w'] c show ?case by simp
qed simp

text \<open>A published batch is the batch of \<open>ResolveSymbolsForAllThreads\<close>, with the statistics as they are after it.\<close>

lemma publish_all_threads_batch:
  assumes "names_filled (name_source inp) (helper s)"
  obtains h stats' where "names_filled (name_source inp) h"
    "publish_all_threads inp sel interval stats s = s\<lparr>helper := h,
       cpu_slots := PublishBuffer (publish_admitted inp) (shutdown_before_publish inp)
         (ResolveSymbolsForAllThreads (view_of inp s) sel (batch_now inp) stats' (stacks_of (storage s))) interval (cpu_slots s)\<rparr>"
proof -
  have v: "function_name (view_of inp s) = name_source inp" by (simp add: view_of_def)
  obtain w h stats' where f: "fold (sample_cached inp (view_of inp s) sel) (stacks_of (storage s))
      (StartBatch (batch_now inp) ThreadSamplesBuffer, helper s, stats) = (w, h, stats')" by (metis prod_cases3)
  from samples_cached_names [of inp "(helper s, stats)", OF _ v, of sel "stacks_of (storage s)" "StartBatch (batch_now inp) ThreadSamplesBuffer"] assms f
  have "names_filled (name_source inp) h" "w = fold (write_thread_sample (view_of inp s) sel) (stacks_of (storage s)) (StartBatch (batch_now inp) ThreadSamplesBuffer)"
    by simp_all
  with that [of h stats'] f show thesis by (simp add: publish_all_threads_def ResolveSymbolsForAllThreads_def Let_def)
qed

section \<open>What is captured\<close>

text \<open>The identity of a delivered frame.\<close>

definition identify :: "capture_input \<Rightarrow> delivered_frame \<Rightarrow> function_identifier" where
  "identify inp d =
     (if isUnmanagedFrame (frame d) \<and> functionId (frame d) = 0 \<and> instructionPointer (frame d) \<noteq> 0
      then Native (instructionPointer (frame d)) else ResolveManagedFunctionIdentifier (GetFunctionInfo2 inp) (functionId (frame d)))"

text \<open>The frames of a thread, in the order of their delivery.\<close>

definition frames_of :: "capture_input \<Rightarrow> u64 \<Rightarrow> delivered_frame list \<Rightarrow> function_identifier list" where
  "frames_of inp tid ds = map (identify inp) (filter (\<lambda>d. frame_threadId (frame d) = tid) ds)"

definition captured_from :: "capture_input \<Rightarrow> delivered_frame list \<Rightarrow> stacks_buffer \<Rightarrow> bool" where
  "captured_from inp ds b \<longleftrightarrow> (\<forall>(tid, vec) \<in> set (stacks b). subseq (elements vec) (frames_of inp tid ds))"

lemma captured_from_more: "captured_from inp ds b \<Longrightarrow> captured_from inp (ds @ [d]) b"
  by (fastforce simp: captured_from_def frames_of_def intro: subseq_order.order_trans [OF _ subseq_rev_drop_many] list_emb_append2)

lemma captured_from_prepare:
  assumes "captured_from inp ds b" "storage_ok b" "\<And>n. n \<le> reserve n" "TryPrepareFrame reserve t b = (r, b')"
  shows "captured_from inp ds b'"
proof -
  have "elements vec' = elements vec" if "TryReserveStackFrame reserve vec m = (True, vec')" for vec vec' m
    using that by (auto simp: TryReserveStackFrame_def Let_def split: if_splits)
  then have "\<forall>(tid, vec') \<in> set (stacks b'). \<exists>vec. (tid, vec) \<in> set (stacks b) \<and> elements vec' = elements vec"
    using assms(4) by (auto simp: TryPrepareFrame_def split: option.splits if_splits prod.splits bool.splits
        dest!: subsetD [OF set_stack_set] map_of_SomeD) blast+
  with assms(1) show ?thesis by (fastforce simp: captured_from_def)
qed

lemma captured_from_push:
  assumes "captured_from inp ds b" "frame_threadId (frame d) = tid"
  shows "captured_from inp (ds @ [d]) (push_frame tid (identify inp d) b)"
proof -
  have more: "captured_from inp (ds @ [d]) b" using assms(1) by (rule captured_from_more)
  show ?thesis
  proof (cases "map_of (stacks b) tid")
    case None
    with more show ?thesis by (simp add: push_frame_def)
  next
    case (Some vec)
    then have "(tid, vec) \<in> set (stacks b)" by (rule map_of_SomeD)
    then have "subseq (elements vec) (frames_of inp tid ds)" using assms(1) by (auto simp: captured_from_def)
    then have "subseq (elements vec @ [identify inp d]) (frames_of inp tid (ds @ [d]))"
      using assms(2) by (simp add: frames_of_def list_emb_append_mono)
    with more Some show ?thesis
      by (fastforce simp: push_frame_def captured_from_def dest!: subsetD [OF set_stack_set])
  qed
qed

text \<open>The invariant of the callback.\<close>

definition capturing :: "capture_input \<Rightarrow> delivered_frame list \<Rightarrow> naming_helper \<times> stacks_buffer \<times> u32 \<Rightarrow> bool" where
  "capturing inp ds = (\<lambda>(h, b, n). storage_ok b \<and> captured_from inp ds b \<and>
     identifiers_right (GetFunctionInfo2 inp) (function_identifier_cache h))"

lemma LookupManagedFunction_names [simp]:
  "function_name_cache (snd (LookupManagedFunction info fid h)) = function_name_cache h"
  by (simp add: LookupManagedFunction_def Let_def split: prod.split)

lemma push_frame_ok:
  assumes "storage_ok b" "map_of (stacks b) t = Some vec" "length (elements vec) < vector_capacity vec"
  shows "storage_ok (push_frame t fid b)"
proof -
  have "vector_ok vec" using storage_okD(2) [OF assms(1)] assms(2) by (auto dest: map_of_SomeD)
  with assms(3) have "vector_ok (vec\<lparr>elements := elements vec @ [fid]\<rparr>)" by (simp add: vector_ok_def)
  from storage_ok_set_stack [OF assms(1,2) this] storage_okD(4) [OF assms(1)] assms(2) show ?thesis by (simp add: push_frame_def)
qed

lemma capture_frame_step:
  assumes "\<And>n. n \<le> reserve_of inp n" "capturing inp ds (h, b, n)"
  shows "capturing inp (ds @ [d]) (capture_frame inp d (h, b, n))"
    "function_name_cache (fst (capture_frame inp d (h, b, n))) = function_name_cache h"
proof -
  have ok: "storage_ok b" "captured_from inp ds b" "identifiers_right (GetFunctionInfo2 inp) (function_identifier_cache h)"
    using assms(2) by (simp_all add: capturing_def)
  obtain r b' where p: "TryPrepareFrame (reserve_of inp) (frame_threadId (frame d)) b = (r, b')" by force
  note q = TryPrepareFrame_ok [OF assms(1) ok(1) p] and c = captured_from_prepare [OF ok(2,1) assms(1) p]
  note l = LookupManagedFunction_right [OF ok(3), of "functionId (frame d)"]
  obtain fid h' where lk: "LookupManagedFunction (GetFunctionInfo2 inp) (functionId (frame d)) h = (fid, h')" by force
  have "capturing inp (ds @ [d]) (capture_frame inp d (h, b, n)) \<and>
    function_name_cache (fst (capture_frame inp d (h, b, n))) = function_name_cache h"
  proof (cases "cancelled_before d \<or> r = None")
    case True
    then show ?thesis using ok q(1) captured_from_more [OF ok(2)] captured_from_more [OF c]
      by (auto simp: capture_frame_def capturing_def p)
  next
    case False
    then obtain t where r: "r = Some t" by auto
    with q(2) obtain vec where t: "t = frame_threadId (frame d)" "map_of (stacks b') t = Some vec" "length (elements vec) < vector_capacity vec" by metis
    have "storage_ok (push_frame t (identify inp d) b')" by (rule push_frame_ok [OF q(1) t(2,3)])
    moreover have "captured_from inp (ds @ [d]) (push_frame t (identify inp d) b')" by (rule captured_from_push [OF c t(1) [symmetric]])
    moreover have "function_name_cache h' = function_name_cache h" using lk by (metis LookupManagedFunction_names snd_conv)
    ultimately show ?thesis using False r ok(3) l lk by (auto simp: capture_frame_def capturing_def p identify_def)
  qed
  then show "capturing inp (ds @ [d]) (capture_frame inp d (h, b, n))"
    "function_name_cache (fst (capture_frame inp d (h, b, n))) = function_name_cache h" by simp_all
qed

lemma capture_frames:
  assumes "\<And>n. n \<le> reserve_of inp n" "capturing inp [] (h, b, n)"
  shows "capturing inp ds (fold (capture_frame inp) ds (h, b, n)) \<and>
    function_name_cache (fst (fold (capture_frame inp) ds (h, b, n))) = function_name_cache h"
proof (induction ds rule: rev_induct)
  case (snoc d ds)
  obtain h' b' n' where f: "fold (capture_frame inp) ds (h, b, n) = (h', b', n')" by (metis prod_cases3)
  from capture_frame_step [OF assms(1), of ds h' b' n' d] snoc f show ?case by simp
qed (use assms in simp)

lemma all_empty_PrepareForCapture:
  assumes "all_empty b"
  shows "all_empty (PrepareForCapture reserve active b)"
proof -
  have r: "elements vec' = elements vec" if "TryReserveStackFrame reserve vec m = (q, vec')" for vec vec' m q
    using that by (auto simp: TryReserveStackFrame_def Let_def split: if_splits)
  have step: "all_empty (reserve_thread reserve n t b)" if "all_empty b" for n t b
    using that by (auto simp: all_empty_def reserve_thread_def split: option.splits prod.splits bool.splits
        dest!: r subsetD [OF set_stack_set] map_of_SomeD)
  have "all_empty (fold (reserve_thread reserve n) ts b)" if "all_empty b" for n ts b
    using that by (induction ts arbitrary: b) (simp_all add: step)
  then show ?thesis unfolding PrepareForCapture_prepared using all_empty_prepared [OF assms] by blast
qed

text \<open>What a cohort may rely on between captures.\<close>

definition worker_ok :: "(function_identifier \<Rightarrow> wstring) \<Rightarrow> capture_state \<Rightarrow> bool" where
  "worker_ok name s \<longleftrightarrow> names_filled name (helper s) \<and> default_value (function_identifier_cache (helper s)) = ManagedInvalid \<and>
     storage_ok (storage s) \<and> all_empty (storage s) \<and> slots_ok (cpu_slots s)"

lemma capture_identifiers:
  assumes ok: "\<And>n. n \<le> reserve_of inp n" "names_filled name h" "default_value (function_identifier_cache h) = ManagedInvalid"
      "storage_ok b" "all_empty b"
    and run: "CaptureFunctionIdentifiersForThreads inp threads (h, b, n) = (r, h', b', n')"
  shows "storage_ok b'" "names_filled name h'" "default_value (function_identifier_cache h') = ManagedInvalid"
    "captured_from inp (delivered inp) b'"
proof -
  let ?h = "ClearFunctionIdentifierCache h" and ?b = "PrepareForCapture (reserve_of inp) threads b"
  have clear: "storage_ok (ClearStacks c)" "captured_from inp ds (ClearStacks c)" for c ds
    by (simp_all add: ClearStacks_def storage_ok_def captured_from_def)
  have id: "identifiers_right (GetFunctionInfo2 inp) (function_identifier_cache ?h)"
    using ok(3) by (simp add: ClearFunctionIdentifierCache_def Clear_def identifiers_right_def)
  have names: "function_name_cache ?h = function_name_cache h" by (simp add: ClearFunctionIdentifierCache_def)
  have b: "storage_ok ?b" "captured_from inp ds ?b" for ds
    using PrepareForCapture_ok [OF ok(1,4)] all_empty_PrepareForCapture [OF ok(5), of "reserve_of inp" threads]
    by (auto simp: captured_from_def all_empty_def)
  then have c: "capturing inp [] (?h, ?b, n)" using id by (simp add: capturing_def)
  obtain h2 b2 n2 where f: "fold (capture_frame inp) (delivered inp) (?h, ?b, n) = (h2, b2, n2)" by (metis prod_cases3)
  from capture_frames [OF ok(1) c, of "delivered inp"] f
  have f2: "storage_ok b2" "captured_from inp (delivered inp) b2" "function_name_cache h2 = function_name_cache h"
    "default_value (function_identifier_cache h2) = ManagedInvalid"
    using names by (simp_all add: capturing_def identifiers_right_def)
  have "(h' = ?h \<or> h' = h2) \<and> (b' = ?b \<or> b' = b2 \<or> (\<exists>c. b' = ClearStacks c))"
    using run by (auto simp: CaptureFunctionIdentifiersForThreads_def Let_def f split: if_splits)
  then show "storage_ok b'" "names_filled name h'" "default_value (function_identifier_cache h') = ManagedInvalid"
    "captured_from inp (delivered inp) b'"
    using ok(2,3) b clear f2 names by (auto simp: names_filled_def ClearFunctionIdentifierCache_def Clear_def)
qed

lemma Lookup_identifiers: "function_identifier_cache (fst (snd (Lookup name fid s))) = function_identifier_cache (fst s)"
  by (cases s) (auto simp: Lookup_def Let_def split: prod.split option.split)

lemma resolve_identifiers: "function_identifier_cache (fst (snd (resolve_cached inp fids ws))) = function_identifier_cache (fst (snd ws))"
  unfolding resolve_cached_def
proof (induction fids arbitrary: ws)
  case (Cons fid fids)
  obtain w s where "ws = (w, s)" by (metis surj_pair)
  then show ?case using Cons.IH Lookup_identifiers [of "name_source inp" fid s] by (simp add: split_beta)
qed simp

lemma sample_identifiers:
  "function_identifier_cache (fst (snd (fold (sample_cached inp view sel) tss ws))) = function_identifier_cache (fst (snd ws))"
  "function_identifier_cache (fst (snd (fold (selected_cached inp view) tss ws))) = function_identifier_cache (fst (snd ws))"
proof -
  have "function_identifier_cache (fst (snd (sample_cached inp view sel ts ws))) = function_identifier_cache (fst (snd ws))"
    "function_identifier_cache (fst (snd (selected_cached inp view ts ws))) = function_identifier_cache (fst (snd ws))" for ts ws
    by (cases ts; cases ws; simp add: sample_cached_def selected_cached_def Let_def split_beta resolve_identifiers)+
  then show "function_identifier_cache (fst (snd (fold (sample_cached inp view sel) tss ws))) = function_identifier_cache (fst (snd ws))"
    "function_identifier_cache (fst (snd (fold (selected_cached inp view) tss ws))) = function_identifier_cache (fst (snd ws))"
    by (induction tss arbitrary: ws) simp_all
qed

lemma PublishBuffer_slots:
  assumes "slots_ok c"
  shows "slots_ok (PublishBuffer a sd w i c)"
    "pending (PublishBuffer a sd w i c) =
       (if a \<and> \<not> sd \<and> \<not> IsOverflowed w \<and> ThreadSamplingShouldProduceThreadSample c then pending c @ [(buffer w, i)] else pending c)"
  using assms cpu.put_ok [of c "(buffer w, i)"] cpu.put_content [of c "(buffer w, i)"] cpu.room_iff [of c]
  by (auto simp: PublishBuffer_def record_batch_pair)

section \<open>A whole cohort\<close>

text \<open>The fields a publication leaves alone.\<close>

lemma publish_all_ok:
  fixes sel interval stats
  assumes "names_filled (name_source inp) (helper s)" "default_value (function_identifier_cache (helper s)) = ManagedInvalid" "slots_ok (cpu_slots s)"
  defines "t \<equiv> publish_all_threads inp sel interval stats s"
  shows "names_filled (name_source inp) (helper t)" "default_value (function_identifier_cache (helper t)) = ManagedInvalid"
    "slots_ok (cpu_slots t)" "storage t = storage s"
proof -
  obtain h stats' where t: "names_filled (name_source inp) h" "t = s\<lparr>helper := h,
     cpu_slots := PublishBuffer (publish_admitted inp) (shutdown_before_publish inp)
       (ResolveSymbolsForAllThreads (view_of inp s) sel (batch_now inp) stats' (stacks_of (storage s))) interval (cpu_slots s)\<rparr>"
    using publish_all_threads_batch [OF assms(1)] unfolding t_def by metis
  show "names_filled (name_source inp) (helper t)" "slots_ok (cpu_slots t)" "storage t = storage s"
    using t PublishBuffer_slots(1) [OF assms(3)] by simp_all
  have "function_identifier_cache (helper t) = function_identifier_cache (helper s)"
    using sample_identifiers(1) [of inp "view_of inp s" sel "stacks_of (storage s)" "(StartBatch (batch_now inp) ThreadSamplesBuffer, helper s, stats)"]
    by (simp add: t_def publish_all_threads_def split_beta)
  then show "default_value (function_identifier_cache (helper t)) = ManagedInvalid" using assms(2) by simp
qed

lemma publish_selected_ok:
  fixes stats
  assumes "names_filled (name_source inp) (helper s)" "default_value (function_identifier_cache (helper s)) = ManagedInvalid"
  defines "t \<equiv> publish_selected_threads inp stats s"
  shows "names_filled (name_source inp) (helper t)" "default_value (function_identifier_cache (helper t)) = ManagedInvalid"
    "cpu_slots t = cpu_slots s" "storage t = storage s"
proof -
  have v: "function_name (view_of inp s) = name_source inp" by (simp add: view_of_def)
  let ?f = "fold (selected_cached inp (view_of inp s)) (stacks_of (storage s)) (StartSelectedThreadsBatch ThreadSamplesBuffer, helper s, stats)"
  have h: "helper t = fst (snd ?f)" by (simp add: t_def publish_selected_threads_def Let_def split_beta)
  have "names_filled (name_source inp) (fst (snd ?f))" by (rule selected_cached_names) (use assms(1) v in simp_all)
  then show "names_filled (name_source inp) (helper t)" by (simp only: h)
  show "default_value (function_identifier_cache (helper t)) = ManagedInvalid" using assms(2) unfolding h sample_identifiers(2) by simp
  show "cpu_slots t = cpu_slots s" "storage t = storage s" by (simp_all add: t_def publish_selected_threads_def Let_def split_beta)
qed

lemma cohort_threads_same:
  assumes "cohort_threads inp ty s = (r, t)"
  shows "helper t = helper s" "storage t = storage s" "cpu_slots t = cpu_slots s"
  using assms by (auto simp: cohort_threads_def Let_def split: SamplingType.splits if_splits prod.splits)

lemma CaptureSamples_ok:
  fixes ty sel interval
  assumes ok: "worker_ok (name_source inp) s" and reserve: "\<And>n. n \<le> reserve_of inp n"
  defines "t \<equiv> CaptureSamples inp ty sel interval s"
  shows "names_filled (name_source inp) (helper t)" "default_value (function_identifier_cache (helper t)) = ManagedInvalid"
    "storage_ok (storage t)" "slots_ok (cpu_slots t)"
proof -
  obtain th u where th: "cohort_threads inp ty s = (th, u)" by force
  note same = cohort_threads_same [OF th]
  note w = ok [unfolded worker_ok_def, folded same]
  have "names_filled (name_source inp) (helper t) \<and> default_value (function_identifier_cache (helper t)) = ManagedInvalid \<and>
    storage_ok (storage t) \<and> slots_ok (cpu_slots t)"
  proof (cases th)
    case None
    then show ?thesis using w by (simp add: t_def CaptureSamples_def th)
  next
    case (Some threads)
    obtain r h b n where cap: "CaptureFunctionIdentifiersForThreads inp threads (helper u, storage u, 0) = (r, h, b, n)" by (metis prod_cases4)
    note c = capture_identifiers [OF reserve _ _ _ _ cap, of "name_source inp"]
    have c': "names_filled (name_source inp) h" "default_value (function_identifier_cache h) = ManagedInvalid" "storage_ok b" using c w by simp_all
    let ?s = "u\<lparr>helper := h, storage := b\<rparr>"
    have w': "names_filled (name_source inp) (helper ?s)" "default_value (function_identifier_cache (helper ?s)) = ManagedInvalid" "slots_ok (cpu_slots ?s)"
      using c' w by simp_all
    have clear: "storage_ok (ClearStacks b)" by (simp add: ClearStacks_def storage_ok_def)
    show ?thesis
      using publish_all_ok [OF w'] publish_selected_ok [OF w'(1,2)] w' c'(3) clear
      by (auto simp: t_def CaptureSamples_def th Some cap Let_def split: SamplingType.split)
  qed
  then show "names_filled (name_source inp) (helper t)" "default_value (function_identifier_cache (helper t)) = ManagedInvalid"
    "storage_ok (storage t)" "slots_ok (cpu_slots t)" by simp_all
qed

lemma run_cohort_ok:
  assumes "worker_ok (name_source inp) s" "\<And>n. n \<le> reserve_of inp n"
  shows "worker_ok (name_source inp) (run_cohort inp ty cfg s)"
  using CaptureSamples_ok [OF assms] Reset_ok by (auto simp: run_cohort_def worker_ok_def Let_def all_empty_def Reset_def)

text \<open>
  Between cohorts the exporter reads, and the application changes what it tells about its threads and traces, in any
  way and at any time.
\<close>

datatype worker_event =
    Cohort capture_input SamplingType thread_sampling_config
  | ReadBatch u32
  | SpansChanged span_map
  | StatesChanged state_map
  | TracesChanged selected_traces
  | SelectiveChanged selective_buffer

primrec cohort_step :: "worker_event \<Rightarrow> capture_state \<Rightarrow> capture_state" where
  "cohort_step (Cohort inp ty cfg) s = run_cohort inp ty cfg s"
| "cohort_step (ReadBatch len) s = s\<lparr>cpu_slots := snd (ContinuousProfilerReadThreadSamplesV2 len False False (cpu_slots s))\<rparr>"
| "cohort_step (SpansChanged m) s = s\<lparr>spans := m\<rparr>"
| "cohort_step (StatesChanged m) s = s\<lparr>states := m\<rparr>"
| "cohort_step (TracesChanged t) s = s\<lparr>traces := t\<rparr>"
| "cohort_step (SelectiveChanged b) s = s\<lparr>selective_bytes := b\<rparr>"

definition capture_initial :: capture_state where
  "capture_initial = \<lparr>helper = NamingHelper, storage = ThreadStacksBuffer_new, cpu_slots = cpu_buffers_initial,
     selective_bytes = \<lparr>selective_sampling_buffer = [], selective_sampling_buffer_saturated = False\<rparr>, traces = no_traces,
     spans = [], states = []\<rparr>"

text \<open>A function keeps its name, and the allocator gives at least what it is asked for.\<close>

primrec regular :: "(function_identifier \<Rightarrow> wstring) \<Rightarrow> worker_event \<Rightarrow> bool" where
  "regular name (Cohort inp ty cfg) \<longleftrightarrow> name_source inp = name \<and> (\<forall>n. n \<le> reserve_of inp n)"
| "regular name (ReadBatch len) \<longleftrightarrow> True"
| "regular name (SpansChanged m) \<longleftrightarrow> True"
| "regular name (StatesChanged m) \<longleftrightarrow> True"
| "regular name (TracesChanged t) \<longleftrightarrow> True"
| "regular name (SelectiveChanged b) \<longleftrightarrow> True"

lemma consume_slots_ok: "slots_ok c \<Longrightarrow> slots_ok (snd (ContinuousProfilerReadThreadSamplesV2 len n i c))"
  by (auto simp: ContinuousProfilerReadThreadSamplesV2_def ThreadSamplingConsumeOneThreadSample_def Let_def slot_defs split: option.split)

lemma cohort_step_ok: "worker_ok name s \<Longrightarrow> regular name e \<Longrightarrow> worker_ok name (cohort_step e s)"
proof (cases e)
  case (Cohort inp ty cfg)
  then show "worker_ok name s \<Longrightarrow> regular name e \<Longrightarrow> ?thesis" using run_cohort_ok [of inp s ty cfg] by auto
next
  case (ReadBatch len)
  then show "worker_ok name s \<Longrightarrow> regular name e \<Longrightarrow> ?thesis" by (simp add: worker_ok_def consume_slots_ok)
qed (simp_all add: worker_ok_def)

lemma worker_history_ok: "worker_ok name s \<Longrightarrow> list_all (regular name) es \<Longrightarrow> worker_ok name (fold cohort_step es s)"
  by (induction es arbitrary: s) (simp_all add: cohort_step_ok)

lemma worker_initial_ok: "worker_ok name capture_initial"
proof -
  have "names_filled name NamingHelper"
    unfolding names_filled_def
    by (rule exI [of _ "[]"]) (simp add: names.holds_recent_def NamingHelper_def NameCache_def cache_ok_def cache_entries_def recent_def)
  then show ?thesis
    by (simp add: worker_ok_def capture_initial_def NamingHelper_def NameCache_def storage_ok_def ThreadStacksBuffer_new_def
        all_empty_def cpu_buffers_initial_def slot_defs)
qed

text \<open>Nothing stands in the way of a publication.\<close>

definition unhindered :: "capture_input \<Rightarrow> capture_state \<Rightarrow> capture_state \<Rightarrow> bool" where
  "unhindered inp s t \<longleftrightarrow> \<not> shutdown_before_capture inp \<and> ThreadSamplingShouldProduceThreadSample (cpu_slots s) \<and>
     \<not> cancelled_at_start inp \<and> \<not> capture_aborted inp \<and> \<not> cancelled_at_end inp \<and>
     (\<exists>e \<in> set (stacks_of (storage t)). snd e \<noteq> []) \<and> \<not> shutdown_before_resolve inp \<and> publish_admitted inp \<and>
     \<not> shutdown_before_publish inp \<and> 31 + (\<Sum>e\<leftarrow>stacks_of (storage t). 1054 + 1028 * length (snd e)) < 204800"

lemma continuous_cohort:
  fixes sel interval
  assumes ok: "worker_ok (name_source inp) s" and reserve: "\<And>n. n \<le> reserve_of inp n"
  defines "t \<equiv> CaptureSamples inp Continuous sel interval s"
  shows "pending (cpu_slots t) = pending (cpu_slots s) \<and> \<not> unhindered inp s t \<or>
    captured_from inp (delivered inp) (storage t) \<and>
    (\<exists>stats. let w = ResolveSymbolsForAllThreads (view_of inp s) sel (batch_now inp) stats (stacks_of (storage t))
       in \<not> IsOverflowed w \<and> pending (cpu_slots t) = pending (cpu_slots s) @ [(buffer w, interval)])"
proof (cases "shutdown_before_capture inp \<or> \<not> ThreadSamplingShouldProduceThreadSample (cpu_slots s)")
  case True
  then have "t = s" by (simp add: t_def CaptureSamples_def cohort_threads_def)
  with True show ?thesis by (auto simp: unhindered_def)
next
  case False
  obtain r h b n where cap: "CaptureFunctionIdentifiersForThreads inp (runtime_threads inp) (helper s, storage s, 0) = (r, h, b, n)" by (metis prod_cases4)
  note w = ok [unfolded worker_ok_def]
  note c = capture_identifiers [OF reserve _ _ _ _ cap, of "name_source inp"]
  have c': "names_filled (name_source inp) h" "captured_from inp (delivered inp) b" using c w by simp_all
  let ?s = "s\<lparr>helper := h, storage := b\<rparr>" and ?k = "length (filter (\<lambda>e. elements (snd e) \<noteq> []) (stacks b))"
  let ?stats = "\<lparr>micros_suspended = elapsed_micros inp, num_threads = of_nat ?k, total_frames = n, name_cache_misses = 0\<rparr>"
  have t: "t = (if r = Some False \<or> ?k = 0 then ?s else if shutdown_before_resolve inp then ?s\<lparr>storage := ClearStacks b\<rparr>
    else publish_all_threads inp sel interval ?stats ?s)"
    using False by (simp add: t_def CaptureSamples_def cohort_threads_def cap Let_def)
  show ?thesis
  proof (cases "r = Some False \<or> ?k = 0 \<or> shutdown_before_resolve inp")
    case True
    have aborted: "cancelled_at_start inp \<or> capture_aborted inp \<or> cancelled_at_end inp" if "r = Some False"
      using cap that by (auto simp: CaptureFunctionIdentifiersForThreads_def Let_def split: if_splits prod.splits)
    have t': "cpu_slots t = cpu_slots s" "r = Some False \<or> ?k = 0 \<Longrightarrow> storage t = b" using True by (auto simp: t)
    from True consider "r = Some False" | "?k = 0" | "shutdown_before_resolve inp" by blast
    then have "\<not> unhindered inp s t"
    proof cases
      case 1
      from aborted [OF this] show ?thesis unfolding unhindered_def by blast
    next
      case 2
      then have b: "storage t = b" using t'(2) by blast
      have "\<forall>e \<in> set (stacks_of (storage t)). snd e = []" using 2 unfolding b by (auto simp: stacks_of_def filter_empty_conv)
      then show ?thesis unfolding unhindered_def by blast
    next
      case 3
      then show ?thesis unfolding unhindered_def by blast
    qed
    then show ?thesis using t'(1) by simp
  next
    case free: False
    have hs: "names_filled (name_source inp) (helper ?s)" using c'(1) by simp
    obtain h' stats' where p: "publish_all_threads inp sel interval ?stats ?s = ?s\<lparr>helper := h',
       cpu_slots := PublishBuffer (publish_admitted inp) (shutdown_before_publish inp)
         (ResolveSymbolsForAllThreads (view_of inp ?s) sel (batch_now inp) stats' (stacks_of (storage ?s))) interval (cpu_slots ?s)\<rparr>"
      using publish_all_threads_batch [OF hs, of sel interval ?stats] by blast
    have view: "view_of inp ?s = view_of inp s" by (simp add: view_of_def)
    let ?w = "ResolveSymbolsForAllThreads (view_of inp s) sel (batch_now inp) stats' (stacks_of b)"
    have t': "t = ?s\<lparr>helper := h', cpu_slots := PublishBuffer (publish_admitted inp) (shutdown_before_publish inp) ?w interval (cpu_slots s)\<rparr>"
      using t free p view by simp
    have "unhindered inp s t \<Longrightarrow> \<not> IsOverflowed ?w"
      by (rule batch_fits) (simp add: unhindered_def t' kSamplesBufferMaximumSize_def)
    moreover have "pending (cpu_slots t) = (if publish_admitted inp \<and> \<not> shutdown_before_publish inp \<and> \<not> IsOverflowed ?w
        then pending (cpu_slots s) @ [(buffer ?w, interval)] else pending (cpu_slots s))"
      using PublishBuffer_slots(2) [of "cpu_slots s" "publish_admitted inp" "shutdown_before_publish inp" ?w interval] w False by (simp add: t')
    moreover have "captured_from inp (delivered inp) (storage t)" "storage t = b" using c'(2) by (simp_all add: t')
    moreover have "unhindered inp s t \<Longrightarrow> publish_admitted inp \<and> \<not> shutdown_before_publish inp" by (simp add: unhindered_def)
    ultimately show ?thesis unfolding Let_def
      by (cases "publish_admitted inp \<and> \<not> shutdown_before_publish inp \<and> \<not> IsOverflowed ?w") (auto simp del: One_nat_def)
  qed
qed

text \<open>A cohort of one thread with one managed frame.\<close>

definition demo_frame :: delivered_frame where
  "demo_frame = \<lparr>frame = \<lparr>functionId = 7, instructionPointer = 0, frameInfo = 0, contextSize = 0, frame_threadId = 5, isUnmanagedFrame = False\<rparr>,
     cancelled_before = False\<rparr>"

definition demo_input :: capture_input where
  "demo_input = \<lparr>reserve_of = (\<lambda>n. n), GetFunctionInfo2 = (\<lambda>_. Some (9, 1)), name_source = (\<lambda>_. [0x66]), runtime_threads = [5],
     has_walker = True, delivered = [demo_frame], capture_aborted = False, capture_throws = False, cancelled_at_start = False,
     cancelled_at_end = False, shutdown_before_capture = False, shutdown_before_resolve = False, shutdown_before_publish = False,
     publish_admitted = True, steady_now = 0, batch_now = 77, sample_now = (\<lambda>_. 77), elapsed_micros = 3\<rparr>"

lemma storage_publish [simp]: "storage (publish_all_threads inp sel interval stats s) = storage s"
  by (simp add: publish_all_threads_def split: prod.split)

lemma demo_prepared:
  "PrepareForCapture (\<lambda>n. n) [5] ThreadStacksBuffer_new =
     \<lparr>stacks = [(5, \<lparr>elements = [], vector_capacity = 80\<rparr>)], frameCapacity = 80, cached = None\<rparr>"
  by (simp add: PrepareForCapture_def evict_stale_def ThreadStacksBuffer_new_def initialCapacity_def MaximumFrameCapacity_def
      MaximumThreads_def kInitialStackFrameCapacity_def reserve_thread_def TryReserveStackFrame_def MaximumFramesPerStack_def
      empty_vector_def Let_def)

lemma demo_captured:
  "stacks (storage (CaptureSamples demo_input Continuous False 1000 capture_initial)) =
     [(5, \<lparr>elements = [Managed 1 9 True], vector_capacity = 80\<rparr>)]"
  by (simp add: CaptureSamples_def cohort_threads_def demo_input_def capture_initial_def cpu_buffers_initial_def slot_defs
      CaptureFunctionIdentifiersForThreads_def demo_prepared demo_frame_def capture_frame_def TryPrepareFrame_def push_frame_def
      LookupManagedFunction_def ResolveManagedFunctionIdentifier_def ClearFunctionIdentifierCache_def NamingHelper_def NameCache_def
      Clear_def Get_def ManagedInvalid_def Put_def Managed_def Let_def kVolatileFunctionIdentifierCacheSize_def)

lemma demo_unhindered: "unhindered demo_input capture_initial (CaptureSamples demo_input Continuous False 1000 capture_initial)"
  unfolding unhindered_def stacks_of_def demo_captured
  by (simp add: demo_input_def capture_initial_def cpu_buffers_initial_def slot_defs)

end
