(* ===== verification/Il_Opcodes.thy ===== *)
theory Il_Opcodes
  imports Prelude
begin

text \<open>
  The instruction set as \<open>il_rewriter.cpp\<close> sees it: the tables it builds from \<open>opcode.def\<close>, one entry per opcode (the
  single-byte opcodes, then the two-byte ones from 256 on, then the two internal entries), and little-endian numbers.
  An entry of the first table is the size of the operand, plus 16 for a branch, or 32 for a switch.
\<close>

section \<open>The tables\<close>

definition s_OpCodeFlags :: "nat list" where
  "s_OpCodeFlags = [
    0, 0, 0, 0, 0, 0, 0, 0, 0, 0, 0, 0, 0, 0, 1, 1, 1, 1, 1, 1, 0, 0, 0, 0, 0, 0, 0, 0, 0, 0, 0, 1, 4, 8, 4,
    8, 0, 0, 0, 4, 4, 4, 0, 17, 17, 17, 17, 17, 17, 17, 17, 17, 17, 17, 17, 17, 20, 20, 20, 20, 20, 20, 20,
    20, 20, 20, 20, 20, 20, 32, 0, 0, 0, 0, 0, 0, 0, 0, 0, 0, 0, 0, 0, 0, 0, 0, 0, 0, 0, 0, 0, 0, 0, 0, 0, 0,
    0, 0, 0, 0, 0, 0, 0, 0, 0, 0, 0, 0, 0, 0, 0, 4, 4, 4, 4, 4, 4, 4, 0, 0, 0, 4, 0, 4, 4, 4, 4, 4, 4, 4, 0,
    0, 0, 0, 0, 0, 0, 0, 0, 0, 4, 4, 0, 4, 0, 0, 0, 0, 0, 0, 0, 0, 0, 0, 0, 0, 0, 0, 0, 0, 0, 0, 0, 4, 4, 4,
    0, 0, 0, 0, 0, 0, 0, 0, 0, 0, 0, 0, 0, 0, 0, 0, 0, 0, 0, 0, 0, 0, 0, 0, 0, 0, 0, 0, 4, 0, 0, 0, 4, 0, 0,
    0, 0, 0, 0, 0, 0, 0, 4, 0, 0, 0, 0, 0, 0, 0, 0, 0, 0, 0, 0, 20, 17, 0, 0, 0, 0, 0, 0, 0, 0, 0, 0, 0, 0,
    0, 0, 0, 0, 0, 0, 0, 0, 0, 0, 0, 0, 0, 0, 0, 0, 0, 0, 0, 0, 0, 0, 0, 0, 0, 0, 0, 4, 4, 0, 2, 2, 2, 2, 2,
    2, 0, 0, 0, 1, 0, 0, 4, 4, 0, 0, 0, 0, 0, 4, 0, 0, 0, 0, 0, 0, 0, 0, 0, 0, 20]"

definition k_rgnStackPushes :: "nat list" where
  "k_rgnStackPushes = [
    0, 0, 1, 1, 1, 1, 1, 1, 1, 1, 0, 0, 0, 0, 1, 1, 0, 1, 1, 0, 1, 1, 1, 1, 1, 1, 1, 1, 1, 1, 1, 1, 1, 1, 1,
    1, 0, 2, 0, 0, 1, 1, 0, 0, 0, 0, 0, 0, 0, 0, 0, 0, 0, 0, 0, 0, 0, 0, 0, 0, 0, 0, 0, 0, 0, 0, 0, 0, 0, 0,
    1, 1, 1, 1, 1, 1, 1, 1, 1, 1, 1, 0, 0, 0, 0, 0, 0, 0, 1, 1, 1, 1, 1, 1, 1, 1, 1, 1, 1, 1, 1, 1, 1, 1, 1,
    1, 1, 1, 1, 1, 1, 1, 0, 1, 1, 1, 1, 1, 1, 0, 0, 1, 0, 1, 1, 0, 1, 1, 0, 0, 1, 1, 1, 1, 1, 1, 1, 1, 1, 1,
    1, 1, 1, 1, 1, 1, 1, 1, 1, 1, 1, 1, 1, 1, 1, 0, 0, 0, 0, 0, 0, 0, 0, 1, 0, 1, 0, 0, 0, 0, 0, 0, 0, 0, 0,
    0, 0, 0, 0, 1, 1, 1, 1, 1, 1, 1, 1, 0, 0, 0, 0, 0, 0, 0, 1, 1, 0, 0, 1, 0, 0, 0, 0, 0, 0, 0, 0, 0, 1, 1,
    1, 1, 1, 1, 1, 1, 1, 1, 1, 1, 0, 0, 0, 0, 1, 0, 0, 0, 0, 0, 0, 0, 0, 0, 0, 0, 0, 0, 0, 0, 0, 0, 0, 0, 0,
    0, 0, 0, 0, 0, 0, 0, 0, 0, 0, 0, 1, 1, 1, 1, 1, 1, 1, 1, 0, 1, 1, 0, 1, 1, 0, 1, 0, 0, 0, 0, 0, 0, 0, 0,
    0, 0, 0, 0, 1, 1, 0, 0, 0, 0, 0, 0, 0, 0, 0, 0]"

definition CEE_COUNT :: nat where "CEE_COUNT = 294"
definition CEE_SWITCH_ARG :: nat where "CEE_SWITCH_ARG = 295"
definition CEE_SWITCH :: nat where "CEE_SWITCH = 0x45"
definition CEE_BR_S :: nat where "CEE_BR_S = 0x2B"
definition CEE_BLT_UN_S :: nat where "CEE_BLT_UN_S = 0x37"
definition CEE_BR :: nat where "CEE_BR = 0x38"
definition CEE_BLT_UN :: nat where "CEE_BLT_UN = 0x44"
definition CEE_LEAVE :: nat where "CEE_LEAVE = 0xDD"
definition CEE_LEAVE_S :: nat where "CEE_LEAVE_S = 0xDE"
definition CEE_PREFIX7 :: nat where "CEE_PREFIX7 = 0xF8"
definition CEE_PREFIX2 :: nat where "CEE_PREFIX2 = 0xFD"
definition CEE_PREFIX1 :: nat where "CEE_PREFIX1 = 0xFE"

lemmas opcode_defs = CEE_COUNT_def CEE_SWITCH_ARG_def CEE_SWITCH_def CEE_BR_S_def CEE_BLT_UN_S_def CEE_BR_def CEE_BLT_UN_def
  CEE_LEAVE_def CEE_LEAVE_S_def CEE_PREFIX7_def CEE_PREFIX2_def CEE_PREFIX1_def

definition op_flags :: "nat \<Rightarrow> nat" where
  "op_flags opcode = s_OpCodeFlags ! opcode"

definition OPCODEFLAGS_SizeMask :: "nat \<Rightarrow> nat" where
  "OPCODEFLAGS_SizeMask flags = flags mod 16"

definition OPCODEFLAGS_BranchTarget :: "nat \<Rightarrow> bool" where
  "OPCODEFLAGS_BranchTarget flags \<longleftrightarrow> flags div 16 mod 2 = 1"

section \<open>Facts of the tables\<close>

lemma length_flags [simp]: "length s_OpCodeFlags = 296"
  by code_simp

definition entry_ok :: "nat \<times> nat \<Rightarrow> bool" where
  "entry_ok = (\<lambda>(opcode, flags).
     (flags = 0 \<or> flags = 1 \<or> flags = 2 \<or> flags = 4 \<or> flags = 8 \<or> flags = 17 \<or> flags = 20 \<or> flags = 32) \<and>
     (flags = 32 \<longleftrightarrow> opcode = 69) \<and>
     (flags = 17 \<longleftrightarrow> 43 \<le> opcode \<and> opcode \<le> 55 \<or> opcode = 222) \<and>
     (flags = 20 \<longleftrightarrow> 56 \<le> opcode \<and> opcode \<le> 68 \<or> opcode = 221 \<or> opcode = 295))"

lemma entries_ok: "list_all entry_ok (enumerate 0 s_OpCodeFlags)"
  by code_simp

lemma op_flags_cases:
  assumes "opcode < 296"
  shows "op_flags opcode \<in> {0, 1, 2, 4, 8, 17, 20, 32}" "op_flags opcode = 32 \<longleftrightarrow> opcode = CEE_SWITCH"
    "op_flags opcode = 17 \<longleftrightarrow> CEE_BR_S \<le> opcode \<and> opcode \<le> CEE_BLT_UN_S \<or> opcode = CEE_LEAVE_S"
    "op_flags opcode = 20 \<longleftrightarrow> CEE_BR \<le> opcode \<and> opcode \<le> CEE_BLT_UN \<or> opcode = CEE_LEAVE \<or> opcode = CEE_SWITCH_ARG"
proof -
  have "enumerate 0 s_OpCodeFlags ! opcode = (opcode, op_flags opcode)" using assms by (simp add: op_flags_def nth_enumerate_eq)
  then have "entry_ok (opcode, op_flags opcode)" using entries_ok assms by (metis length_enumerate length_flags list_all_length)
  then show "op_flags opcode \<in> {0, 1, 2, 4, 8, 17, 20, 32}" "op_flags opcode = 32 \<longleftrightarrow> opcode = CEE_SWITCH"
    "op_flags opcode = 17 \<longleftrightarrow> CEE_BR_S \<le> opcode \<and> opcode \<le> CEE_BLT_UN_S \<or> opcode = CEE_LEAVE_S"
    "op_flags opcode = 20 \<longleftrightarrow> CEE_BR \<le> opcode \<and> opcode \<le> CEE_BLT_UN \<or> opcode = CEE_LEAVE \<or> opcode = CEE_SWITCH_ARG"
    by (auto simp: entry_ok_def opcode_defs)
qed

section \<open>Little-endian numbers\<close>

primrec le_bytes :: "nat \<Rightarrow> nat \<Rightarrow> byte list" where
  "le_bytes 0 n = []"
| "le_bytes (Suc k) n = of_nat (n mod 256) # le_bytes k (n div 256)"

primrec le_val :: "byte list \<Rightarrow> nat" where
  "le_val [] = 0"
| "le_val (b # bs) = unat b + 256 * le_val bs"

lemma length_le_bytes [simp]: "length (le_bytes k n) = k"
  by (induction k arbitrary: n) auto

lemma le_val_bytes [simp]: "le_val (le_bytes k n) = n mod 256 ^ k"
proof (induction k arbitrary: n)
  case (Suc k)
  have "unat (of_nat (n mod 256) :: byte) = n mod 256" by (simp add: unat_of_nat take_bit_eq_mod)
  then show ?case by (simp add: Suc.IH mod_mult2_eq mult.commute)
qed simp

lemma le_bytes_mod: "le_bytes k (n mod 256 ^ k) = le_bytes k n"
proof (induction k arbitrary: n)
  case (Suc k)
  have "n mod (256 * 256 ^ k) mod 256 = n mod 256" by (simp add: mod_mult2_eq)
  moreover have "n mod (256 * 256 ^ k) div 256 = n div 256 mod 256 ^ k" by (simp add: mod_mult2_eq)
  ultimately show ?case using Suc.IH [of "n div 256"] by simp
qed simp

lemma le_val_bound: "le_val bs < 256 ^ length bs"
proof (induction bs)
  case (Cons b bs)
  have "unat b < 256" using unsigned_less [of b, where 'a = nat] by simp
  with Cons show ?case by simp
qed simp

lemma take_le_bytes [simp]: "take k (le_bytes k n @ rest) = le_bytes k n" "drop k (le_bytes k n @ rest) = rest"
  by (simp_all add: take_append drop_append)

definition signed_byte :: "byte \<Rightarrow> int" where
  "signed_byte b = sint b"

end
