(* ===== verification/Method_Body.thy ===== *)
theory Method_Body
  imports Il_Opcodes
begin

text \<open>
  The file format of a method body (\<open>corhdr.h\<close>, \<open>corhlpr.h\<close>, \<open>corhlpr.cpp\<close>): the tiny and the fat header, the code, and
  the section of exception clauses in its small and its fat form. \<open>DecoderInit\<close> is the decoder that \<open>ILRewriter::Import\<close>
  starts from, on an aligned body; the encoders are the header and the section that \<open>ILRewriter::Export\<close> lays out. A read
  past the end of the bytes has no result.
\<close>

section \<open>Data\<close>

record fat_clause =
  fc_flags :: nat
  TryOffset :: nat
  TryLength :: nat
  HandlerOffset :: nat
  HandlerLength :: nat
  ClassTokenOrFilter :: nat

record method_body =
  LocalVarSigTok :: nat
  MaxStack :: nat
  mb_flags :: nat
  Code :: "byte list"
  EH :: "fat_clause list"

definition CorILMethod_TinyFormat :: nat where "CorILMethod_TinyFormat = 2"
definition CorILMethod_FatFormat :: nat where "CorILMethod_FatFormat = 3"
definition CorILMethod_MoreSects :: nat where "CorILMethod_MoreSects = 8"
definition CorILMethod_InitLocals :: nat where "CorILMethod_InitLocals = 16"
definition CorILMethod_Sect_EHTable :: nat where "CorILMethod_Sect_EHTable = 1"
definition CorILMethod_Sect_FatFormat :: nat where "CorILMethod_Sect_FatFormat = 64"

lemmas format_defs = CorILMethod_TinyFormat_def CorILMethod_FatFormat_def CorILMethod_MoreSects_def CorILMethod_InitLocals_def
  CorILMethod_Sect_EHTable_def CorILMethod_Sect_FatFormat_def

section \<open>Encoding\<close>

definition tiny_header :: "nat \<Rightarrow> byte list" where
  "tiny_header codeSize = [of_nat (CorILMethod_TinyFormat + codeSize * 4)]"

text \<open>Twelve bits of flags and four of size, the depth of the stack in sixteen bits.\<close>

definition fat_header :: "nat \<Rightarrow> nat \<Rightarrow> nat \<Rightarrow> nat \<Rightarrow> byte list" where
  "fat_header flags maxStack codeSize tok =
     le_bytes 2 (flags mod 2 ^ 12 + 2 ^ 12 * 3) @ le_bytes 2 maxStack @ le_bytes 4 codeSize @ le_bytes 4 tok"

definition clause_bytes :: "fat_clause \<Rightarrow> byte list" where
  "clause_bytes c =
     le_bytes 4 (fc_flags c) @ le_bytes 4 (TryOffset c) @ le_bytes 4 (TryLength c) @ le_bytes 4 (HandlerOffset c) @
     le_bytes 4 (HandlerLength c) @ le_bytes 4 (ClassTokenOrFilter c)"

definition eh_section :: "fat_clause list \<Rightarrow> byte list" where
  "eh_section cs =
     le_bytes 1 (CorILMethod_Sect_EHTable + CorILMethod_Sect_FatFormat) @ le_bytes 3 (4 + 24 * length cs) @
     concat (map clause_bytes cs)"

definition Align :: "nat \<Rightarrow> nat" where
  "Align p = (p + 3) div 4 * 4"

section \<open>Decoding\<close>

definition word_at :: "nat \<Rightarrow> nat \<Rightarrow> byte list \<Rightarrow> nat" where
  "word_at p n bs = le_val (take n (drop p bs))"

definition fat_clause_at :: "byte list \<Rightarrow> fat_clause" where
  "fat_clause_at bs = \<lparr>fc_flags = word_at 0 4 bs, TryOffset = word_at 4 4 bs, TryLength = word_at 8 4 bs,
     HandlerOffset = word_at 12 4 bs, HandlerLength = word_at 16 4 bs, ClassTokenOrFilter = word_at 20 4 bs\<rparr>"

definition small_clause_at :: "byte list \<Rightarrow> fat_clause" where
  "small_clause_at bs = \<lparr>fc_flags = word_at 0 2 bs, TryOffset = word_at 2 2 bs, TryLength = word_at 4 1 bs,
     HandlerOffset = word_at 5 2 bs, HandlerLength = word_at 7 1 bs, ClassTokenOrFilter = word_at 8 4 bs\<rparr>"

text \<open>\<open>SectEH_EHClause\<close>, for every index below the count.\<close>

primrec clauses_at :: "nat \<Rightarrow> nat \<Rightarrow> (byte list \<Rightarrow> fat_clause) \<Rightarrow> byte list \<Rightarrow> fat_clause list option" where
  "clauses_at 0 len clause_at bs = Some []"
| "clauses_at (Suc n) len clause_at bs =
     (if length bs < len then None
      else map_option (Cons (clause_at (take len bs))) (clauses_at n len clause_at (drop len bs)))"

text \<open>A section that is not a table of clauses leaves the decoder without clauses.\<close>

definition SectEH :: "byte list \<Rightarrow> fat_clause list option" where
  "SectEH bs =
     (if length bs < 4 then None
      else let Kind = word_at 0 1 bs
           in if Kind mod 64 \<noteq> CorILMethod_Sect_EHTable then Some []
              else if Kind div 64 mod 2 = 1 then clauses_at (word_at 1 3 bs div 24) 24 fat_clause_at (drop 4 bs)
              else clauses_at (word_at 1 1 bs div 12) 12 small_clause_at (drop 4 bs))"

definition DecoderInit :: "byte list \<Rightarrow> method_body option" where
  "DecoderInit bs =
     (if bs = [] then None
      else if word_at 0 1 bs mod 4 = CorILMethod_TinyFormat
      then (let n = word_at 0 1 bs div 4
            in if length bs < 1 + n then None
               else Some \<lparr>LocalVarSigTok = 0, MaxStack = 8, mb_flags = CorILMethod_TinyFormat, Code = take n (drop 1 bs), EH = []\<rparr>)
      else if word_at 0 1 bs mod 8 = CorILMethod_FatFormat
      then (if length bs < 12 then None
            else let GetFlags = word_at 0 2 bs mod 2 ^ 12; GetSize = word_at 0 2 bs div 2 ^ 12; n = word_at 4 4 bs;
                     body = \<lparr>LocalVarSigTok = word_at 8 4 bs, MaxStack = word_at 2 2 bs, mb_flags = GetFlags,
                       Code = take n (drop (4 * GetSize) bs), EH = []\<rparr>
                 in if length bs < 4 * GetSize + n then None
                    else if GetSize < 3 \<or> GetFlags div 8 mod 2 = 0 then Some body
                    else map_option (\<lambda>cs. body\<lparr>EH := cs\<rparr>) (SectEH (drop (Align (4 * GetSize + n)) bs)))
      else Some \<lparr>LocalVarSigTok = 0, MaxStack = 0, mb_flags = 0, Code = [], EH = []\<rparr>)"

section \<open>The decoder inverts the encoder\<close>

lemma word_at_prefix: "length as = p \<Longrightarrow> word_at p n (as @ le_bytes n v @ bs) = v mod 256 ^ n"
  by (simp add: word_at_def)

definition clause_fits :: "fat_clause \<Rightarrow> bool" where
  "clause_fits c \<longleftrightarrow> fc_flags c < 2 ^ 32 \<and> TryOffset c < 2 ^ 32 \<and> TryLength c < 2 ^ 32 \<and> HandlerOffset c < 2 ^ 32 \<and>
     HandlerLength c < 2 ^ 32 \<and> ClassTokenOrFilter c < 2 ^ 32"

lemma length_clause_bytes [simp]: "length (clause_bytes c) = 24"
  by (simp add: clause_bytes_def)

lemma fat_clause_at_bytes:
  assumes "clause_fits c"
  shows "fat_clause_at (clause_bytes c) = c"
proof -
  have "word_at 0 4 (clause_bytes c) = fc_flags c mod 256 ^ 4"
    using word_at_prefix [of "[]" 0 4 "fc_flags c"] by (simp add: clause_bytes_def)
  moreover have "word_at 4 4 (clause_bytes c) = TryOffset c mod 256 ^ 4"
    using word_at_prefix [of "le_bytes 4 (fc_flags c)" 4 4 "TryOffset c"] by (simp add: clause_bytes_def)
  moreover have "word_at 8 4 (clause_bytes c) = TryLength c mod 256 ^ 4"
    using word_at_prefix [of "le_bytes 4 (fc_flags c) @ le_bytes 4 (TryOffset c)" 8 4 "TryLength c"] by (simp add: clause_bytes_def)
  moreover have "word_at 12 4 (clause_bytes c) = HandlerOffset c mod 256 ^ 4"
    using word_at_prefix [of "le_bytes 4 (fc_flags c) @ le_bytes 4 (TryOffset c) @ le_bytes 4 (TryLength c)" 12 4 "HandlerOffset c"]
    by (simp add: clause_bytes_def)
  moreover have "word_at 16 4 (clause_bytes c) = HandlerLength c mod 256 ^ 4"
    using word_at_prefix [of "le_bytes 4 (fc_flags c) @ le_bytes 4 (TryOffset c) @ le_bytes 4 (TryLength c) @
      le_bytes 4 (HandlerOffset c)" 16 4 "HandlerLength c"] by (simp add: clause_bytes_def)
  moreover have "word_at 20 4 (clause_bytes c) = ClassTokenOrFilter c mod 256 ^ 4"
    using word_at_prefix [of "le_bytes 4 (fc_flags c) @ le_bytes 4 (TryOffset c) @ le_bytes 4 (TryLength c) @
      le_bytes 4 (HandlerOffset c) @ le_bytes 4 (HandlerLength c)" 20 4 "ClassTokenOrFilter c" "[]"] by (simp add: clause_bytes_def)
  ultimately show ?thesis using assms by (simp add: fat_clause_at_def clause_fits_def)
qed

lemma clauses_at_bytes:
  "list_all clause_fits cs \<Longrightarrow> clauses_at (length cs) 24 fat_clause_at (concat (map clause_bytes cs) @ bs) = Some cs"
  by (induction cs) (auto simp: fat_clause_at_bytes)

lemma SectEH_section:
  assumes "list_all clause_fits cs" "4 + 24 * length cs < 2 ^ 24"
  shows "SectEH (eh_section cs @ bs) = Some cs"
proof -
  have "word_at 0 1 (eh_section cs @ bs) = 65"
    using word_at_prefix [of "[]" 0 1 65] by (simp add: eh_section_def format_defs)
  moreover have "word_at 1 3 (eh_section cs @ bs) = 4 + 24 * length cs"
    using word_at_prefix [of "le_bytes 1 65" 1 3 "4 + 24 * length cs"] assms(2) by (simp add: eh_section_def format_defs)
  moreover have "drop 4 (eh_section cs @ bs) = concat (map clause_bytes cs) @ bs" by (simp add: eh_section_def)
  moreover have "length (eh_section cs @ bs) \<ge> 4" by (simp add: eh_section_def)
  ultimately show ?thesis using assms(1) by (simp add: SectEH_def format_defs clauses_at_bytes)
qed

lemma Align_ge: "n \<le> Align n"
  unfolding Align_def by presburger

lemma Align_12: "Align (12 + n) = 12 + Align n"
  unfolding Align_def by presburger

lemma length_fat_header [simp]: "length (fat_header flags maxStack n tok) = 12"
  by (simp add: fat_header_def)

lemma fat_header_fields:
  shows "word_at 0 2 (fat_header flags maxStack n tok @ bs) = flags mod 4096 + 12288"
    "word_at 0 1 (fat_header flags maxStack n tok @ bs) = flags mod 256"
    "word_at 2 2 (fat_header flags maxStack n tok @ bs) = maxStack mod 65536"
    "word_at 4 4 (fat_header flags maxStack n tok @ bs) = n mod 2 ^ 32"
    "word_at 8 4 (fat_header flags maxStack n tok @ bs) = tok mod 2 ^ 32"
proof -
  let ?f = "flags mod 4096 + 12288"
  have "?f < 65536" by (simp add: less_trans [of _ "4096 + 12288"])
  then show w: "word_at 0 2 (fat_header flags maxStack n tok @ bs) = ?f"
    using word_at_prefix [of "[]" 0 2 ?f] by (simp add: fat_header_def)
  have "le_bytes 2 v = le_bytes 1 v @ le_bytes 1 (v div 256)" for v by (simp add: numeral_2_eq_2)
  then have "take 1 (fat_header flags maxStack n tok @ bs) = le_bytes 1 ?f" by (simp add: fat_header_def del: le_bytes.simps)
  moreover have "?f mod 256 = flags mod 256"
    using mod_mult_self1 [of "flags mod 4096" 48 256] by (simp add: mod_mod_cancel)
  ultimately show "word_at 0 1 (fat_header flags maxStack n tok @ bs) = flags mod 256" by (simp add: word_at_def del: le_bytes.simps)
  show "word_at 2 2 (fat_header flags maxStack n tok @ bs) = maxStack mod 65536"
    using word_at_prefix [of "le_bytes 2 ?f" 2 2 maxStack] by (simp add: fat_header_def)
  show "word_at 4 4 (fat_header flags maxStack n tok @ bs) = n mod 2 ^ 32"
    using word_at_prefix [of "le_bytes 2 ?f @ le_bytes 2 maxStack" 4 4 n] by (simp add: fat_header_def)
  show "word_at 8 4 (fat_header flags maxStack n tok @ bs) = tok mod 2 ^ 32"
    using word_at_prefix [of "le_bytes 2 ?f @ le_bytes 2 maxStack @ le_bytes 4 n" 8 4 tok] by (simp add: fat_header_def)
qed

lemma decode_tiny:
  assumes "length code < 64"
  shows "DecoderInit (tiny_header (length code) @ code) =
    Some \<lparr>LocalVarSigTok = 0, MaxStack = 8, mb_flags = CorILMethod_TinyFormat, Code = code, EH = []\<rparr>"
proof -
  have "unat (of_nat (2 + length code * 4) :: byte) = 2 + length code * 4"
    using assms by (simp only: unat_of_nat take_bit_eq_mod) simp
  then have "word_at 0 1 (tiny_header (length code) @ code) = 2 + length code * 4"
    by (simp add: word_at_def tiny_header_def format_defs del: of_nat_add of_nat_mult of_nat_numeral)
  moreover have "(2 + length code * 4) mod 4 = 2" "(2 + length code * 4) div 4 = length code" by presburger+
  ultimately show ?thesis by (simp add: DecoderInit_def format_defs tiny_header_def)
qed

lemma decode_fat:
  assumes "length code < 2 ^ 32" "length pad = Align (length code) - length code" "flags mod 8 = 3" "flags < 4096"
    and "flags div 8 mod 2 = (if cs = [] then 0 else 1)" "list_all clause_fits cs" "4 + 24 * length cs < 2 ^ 24"
  shows "DecoderInit (fat_header flags maxStack (length code) tok @ code @ pad @ (if cs = [] then [] else eh_section cs)) =
    Some \<lparr>LocalVarSigTok = tok mod 2 ^ 32, MaxStack = maxStack mod 65536, mb_flags = flags, Code = code, EH = cs\<rparr>"
proof -
  define h where "h = fat_header flags maxStack (length code) tok"
  define bs where "bs = h @ code @ pad @ (if cs = [] then [] else eh_section cs)"
  have h: "length h = 12" by (simp add: h_def)
  note w = fat_header_fields [where flags = flags and maxStack = maxStack and n = "length code" and tok = tok
      and bs = "code @ pad @ (if cs = [] then [] else eh_section cs)", folded h_def, folded bs_def]
  have flags: "flags mod 4096 = flags" "flags mod 256 mod 8 = 3" "flags mod 256 mod 4 = 3"
    using assms(3,4) mod_mod_cancel [of 4 8 flags] by (simp_all add: mod_mod_cancel)
  have w2: "(flags + 12288) mod 4096 = flags" "(flags + 12288) div 4096 = 3"
    using assms(4) div_mult_self1 [of 4096 flags 3] mod_mult_self1 [of flags 3 4096] by simp_all
  have n: "length code mod 2 ^ 32 = length code" using assms(1) by (rule mod_less)
  have "drop (Align (12 + length code)) bs = (if cs = [] then [] else eh_section cs)"
    using assms(2) Align_ge [of "length code"] h by (simp add: bs_def Align_12)
  moreover have "take (length code) (drop 12 bs) = code" "bs \<noteq> []" "\<not> length bs < 12" "\<not> length bs < 12 + length code"
    using h by (auto simp: bs_def)
  moreover have "SectEH (eh_section cs) = Some cs" using SectEH_section [OF assms(6,7), of "[]"] by simp
  ultimately have "DecoderInit bs =
    Some \<lparr>LocalVarSigTok = tok mod 2 ^ 32, MaxStack = maxStack mod 65536, mb_flags = flags, Code = code, EH = cs\<rparr>"
    using assms(5) unfolding DecoderInit_def Let_def w format_defs flags n by (simp add: w2)
  then show ?thesis unfolding bs_def h_def .
qed

end
