(* ===== verification/Il_Rewriter.thy ===== *)
theory Il_Rewriter
  imports Method_Body
begin

text \<open>
  The IL rewriter (\<open>il_rewriter.cpp\<close>): a method body is imported into a doubly linked list of instructions, changed, and
  exported again. The list is a list of instructions with identities; the sentinel of the ring has identity 0. The
  union of an instruction is its bits (\<open>m_Arg8\<close> to \<open>m_Arg64\<close>, as a number) and its target. Failed allocations are not
  modelled; every other error return is.
\<close>

section \<open>Data\<close>

record il_instr =
  instr_id :: nat
  m_opcode :: nat
  m_arg :: nat
  m_target :: nat

record EHClause =
  m_Flags :: nat
  m_pTryBegin :: nat
  m_pTryEnd :: nat
  m_pHandlerBegin :: nat
  m_pHandlerEnd :: nat
  m_ClassToken :: nat
  m_pFilter :: nat

record ILRewriter =
  m_tkLocalVarSig :: nat
  m_maxStack :: u32
  m_flags :: nat
  m_fGenerateTinyHeader :: bool
  m_IL :: "il_instr list"
  m_EH :: "EHClause list option"
  m_nInstrs :: nat

datatype il_error = COR_E_INVALIDPROGRAM | COR_E_INVALIDOPERATION | COR_E_INDEXOUTOFRANGE | EFail

definition ILRewriter_new :: ILRewriter where
  "ILRewriter_new = \<lparr>m_tkLocalVarSig = 0, m_maxStack = 0, m_flags = CorILMethod_TinyFormat, m_fGenerateTinyHeader = False,
     m_IL = [], m_EH = None, m_nInstrs = 0\<rparr>"

definition InitializeTiny :: "ILRewriter \<Rightarrow> ILRewriter" where
  "InitializeTiny r = r\<lparr>m_tkLocalVarSig := 0, m_maxStack := 8, m_flags := CorILMethod_TinyFormat, m_fGenerateTinyHeader := True,
     m_EH := map_option (\<lambda>_. []) (m_EH r)\<rparr>"

definition SetTkLocalVarSig :: "nat \<Rightarrow> ILRewriter \<Rightarrow> ILRewriter" where
  "SetTkLocalVarSig tk r = r\<lparr>m_tkLocalVarSig := tk, m_fGenerateTinyHeader := False\<rparr>"

definition SetEHClause :: "EHClause list \<Rightarrow> ILRewriter \<Rightarrow> ILRewriter" where
  "SetEHClause clauses r = r\<lparr>m_EH := Some clauses\<rparr>"

section \<open>The list\<close>

definition NewILInstr :: "ILRewriter \<Rightarrow> il_instr \<times> ILRewriter" where
  "NewILInstr r = (\<lparr>instr_id = m_nInstrs r + 1, m_opcode = 0, m_arg = 0, m_target = 0\<rparr>, r\<lparr>m_nInstrs := m_nInstrs r + 1\<rparr>)"

definition AdjustState :: "il_instr \<Rightarrow> ILRewriter \<Rightarrow> ILRewriter" where
  "AdjustState i r = r\<lparr>m_maxStack := m_maxStack r + of_nat (k_rgnStackPushes ! m_opcode i)\<rparr>"

primrec insert_before :: "nat \<Rightarrow> il_instr \<Rightarrow> il_instr list \<Rightarrow> il_instr list" where
  "insert_before w i [] = [i]"
| "insert_before w i (x # xs) = (if instr_id x = w then i # x # xs else x # insert_before w i xs)"

primrec insert_after :: "nat \<Rightarrow> il_instr \<Rightarrow> il_instr list \<Rightarrow> il_instr list" where
  "insert_after w i [] = [i]"
| "insert_after w i (x # xs) = (if instr_id x = w then x # i # xs else x # insert_after w i xs)"

text \<open>Before the sentinel is at the end of the list, after it is at the front.\<close>

definition InsertBefore :: "nat \<Rightarrow> il_instr \<Rightarrow> ILRewriter \<Rightarrow> ILRewriter" where
  "InsertBefore pWhere pWhat r =
     AdjustState pWhat (r\<lparr>m_IL := (if pWhere = 0 then m_IL r @ [pWhat] else insert_before pWhere pWhat (m_IL r))\<rparr>)"

definition InsertAfter :: "nat \<Rightarrow> il_instr \<Rightarrow> ILRewriter \<Rightarrow> ILRewriter" where
  "InsertAfter pWhere pWhat r =
     AdjustState pWhat (r\<lparr>m_IL := (if pWhere = 0 then pWhat # m_IL r else insert_after pWhere pWhat (m_IL r))\<rparr>)"

text \<open>The links of the ring: the sentinel comes before the first and after the last instruction.\<close>

fun prev_from :: "nat \<Rightarrow> nat \<Rightarrow> il_instr list \<Rightarrow> nat" where
  "prev_from before w [] = before"
| "prev_from before w (x # xs) = (if instr_id x = w then before else prev_from (instr_id x) w xs)"

definition m_pPrev :: "nat \<Rightarrow> il_instr list \<Rightarrow> nat" where
  "m_pPrev w is = prev_from 0 w is"

fun next_from :: "nat \<Rightarrow> nat \<Rightarrow> il_instr list \<Rightarrow> nat" where
  "next_from before w [] = 0"
| "next_from before w (x # xs) = (if before = w then instr_id x else next_from (instr_id x) w xs)"

definition m_pNext :: "nat \<Rightarrow> il_instr list \<Rightarrow> nat" where
  "m_pNext w is = next_from 0 w is"

section \<open>Import\<close>

text \<open>The opcode, with the lead byte of the two-byte opcodes.\<close>

fun read_opcode :: "byte list \<Rightarrow> (nat \<times> byte list) option" where
  "read_opcode [] = None"
| "read_opcode (b # bs) =
     (if unat b = CEE_PREFIX1 then (case bs of [] \<Rightarrow> None | c # bs \<Rightarrow> Some (0x100 + unat c, bs)) else Some (unat b, bs))"

primrec switch_targets :: "nat \<Rightarrow> nat \<Rightarrow> byte list \<Rightarrow> (nat list \<times> byte list) option" where
  "switch_targets base 0 bs = Some ([], bs)"
| "switch_targets base (Suc n) bs =
     (if length bs < 4 then None
      else map_option (apfst (Cons ((base + le_val (take 4 bs)) mod 2 ^ 32))) (switch_targets base n (drop 4 bs)))"

text \<open>
  One instruction at \<open>start\<close>, with the arguments of a switch as instructions of their own: opcodes and operands, a branch
  operand being the offset of its target.
\<close>

definition read_instr :: "nat \<Rightarrow> byte list \<Rightarrow> ((nat \<times> nat) list \<times> byte list) option" where
  "read_instr start bs =
     (case read_opcode bs of
        None \<Rightarrow> None
      | Some (opcode, rest) \<Rightarrow>
          if CEE_PREFIX7 \<le> opcode \<and> opcode \<le> CEE_PREFIX2 then None
          else if opcode \<ge> CEE_COUNT then None
          else
            let offset = start + (length bs - length rest);
                flags = op_flags opcode;
                size = OPCODEFLAGS_SizeMask flags
            in if size > length rest then None
               else if flags \<in> {0, 1, 2, 4, 8} then Some ([(opcode, le_val (take size rest))], drop size rest)
               else if flags = 17
               then Some ([(opcode, nat ((int offset + 1 + signed_byte (hd rest)) mod 2 ^ 32))], drop size rest)
               else if flags = 20
               then Some ([(opcode, (offset + 4 + le_val (take size rest)) mod 2 ^ 32)], drop size rest)
               else if flags = 32
               then if length rest < 4 then None
                    else let nTargets = le_val (take 4 rest); base = (offset + 4 + nTargets * 4) mod 2 ^ 32
                         in map_option (\<lambda>(ts, rest). ((opcode, nTargets) # map (Pair CEE_SWITCH_ARG) ts, rest))
                              (switch_targets base nTargets (drop 4 rest))
               else None)"

lemma read_opcode_shorter: "read_opcode bs = Some (op, rest) \<Longrightarrow> length rest < length bs"
  by (cases bs) (auto split: if_splits list.splits)

lemma switch_targets_shorter: "switch_targets base n bs = Some (ts, rest) \<Longrightarrow> length rest \<le> length bs"
  by (induction n arbitrary: bs ts) (fastforce split: if_splits)+

lemma read_instr_shorter: "read_instr start bs = Some (g, rest) \<Longrightarrow> length rest < length bs"
  by (auto simp: read_instr_def Let_def split: option.splits if_splits dest!: read_opcode_shorter switch_targets_shorter)

text \<open>The loop over the code: the start offset and the instructions of every round.\<close>

function read_code :: "nat \<Rightarrow> byte list \<Rightarrow> (nat \<times> (nat \<times> nat) list) list option" where
  "read_code start bs =
     (if bs = [] then Some []
      else case read_instr start bs of
             None \<Rightarrow> None
           | Some (g, rest) \<Rightarrow> map_option (Cons (start, g)) (read_code (start + (length bs - length rest)) rest))"
  by pat_completeness auto
termination
  by (relation "measure (length \<circ> snd)") (auto dest: read_instr_shorter)

declare read_code.simps [simp del]

text \<open>The map from offsets to instructions; the end of the code is the sentinel.\<close>

fun offset_table :: "nat \<Rightarrow> nat \<Rightarrow> (nat \<times> (nat \<times> nat) list) list \<Rightarrow> (nat \<rightharpoonup> nat)" where
  "offset_table codeSize fresh [] = [codeSize \<mapsto> 0]"
| "offset_table codeSize fresh ((start, g) # gs) = (offset_table codeSize (fresh + length g) gs)(start \<mapsto> fresh)"

definition GetInstrFromOffset :: "(nat \<rightharpoonup> nat) \<Rightarrow> nat \<Rightarrow> nat \<Rightarrow> il_error + nat" where
  "GetInstrFromOffset table codeSize offset =
     (if offset \<le> codeSize then (case table offset of Some i \<Rightarrow> Inr i | None \<Rightarrow> Inl COR_E_INVALIDPROGRAM)
      else Inl COR_E_INVALIDPROGRAM)"

text \<open>The second pass resolves the branches.\<close>

primrec resolve_targets :: "(nat \<rightharpoonup> nat) \<Rightarrow> nat \<Rightarrow> il_instr list \<Rightarrow> il_error + il_instr list" where
  "resolve_targets table codeSize [] = Inr []"
| "resolve_targets table codeSize (i # is) =
     (if OPCODEFLAGS_BranchTarget (op_flags (m_opcode i))
      then case GetInstrFromOffset table codeSize (m_arg i) of
             Inl e \<Rightarrow> Inl e
           | Inr t \<Rightarrow> map_sum id (Cons (i\<lparr>m_target := t\<rparr>)) (resolve_targets table codeSize is)
      else map_sum id (Cons i) (resolve_targets table codeSize is))"

primrec number_instrs :: "nat \<Rightarrow> (nat \<times> nat) list \<Rightarrow> il_instr list" where
  "number_instrs fresh [] = []"
| "number_instrs fresh (oa # oas) =
     \<lparr>instr_id = fresh, m_opcode = fst oa, m_arg = snd oa, m_target = 0\<rparr> # number_instrs (fresh + 1) oas"

text \<open>A rewriter imports one body, into an empty list.\<close>

definition ImportIL :: "byte list \<Rightarrow> ILRewriter \<Rightarrow> il_error + ILRewriter \<times> (nat \<rightharpoonup> nat)" where
  "ImportIL pIL r =
     (case read_code 0 pIL of
        None \<Rightarrow> Inl COR_E_INVALIDPROGRAM
      | Some gs \<Rightarrow>
          let new = number_instrs (m_nInstrs r + 1) (concat (map snd gs));
              table = offset_table (length pIL) (m_nInstrs r + 1) gs;
              r = fold (InsertBefore 0) new (r\<lparr>m_nInstrs := m_nInstrs r + length new\<rparr>)
          in map_sum id (\<lambda>is. (r\<lparr>m_IL := is\<rparr>, table)) (resolve_targets table (length pIL) (m_IL r)))"

definition is_filter :: "nat \<Rightarrow> bool" where
  "is_filter flags \<longleftrightarrow> flags mod 2 = 1"

definition import_clause :: "(nat \<rightharpoonup> nat) \<Rightarrow> nat \<Rightarrow> il_instr list \<Rightarrow> fat_clause \<Rightarrow> il_error + EHClause" where
  "import_clause table codeSize is c =
     (case GetInstrFromOffset table codeSize (TryOffset c) of Inl e \<Rightarrow> Inl e | Inr tb \<Rightarrow>
     (case GetInstrFromOffset table codeSize ((TryOffset c + TryLength c) mod 2 ^ 32) of Inl e \<Rightarrow> Inl e | Inr te \<Rightarrow>
     (case GetInstrFromOffset table codeSize (HandlerOffset c) of Inl e \<Rightarrow> Inl e | Inr hb \<Rightarrow>
     (case GetInstrFromOffset table codeSize ((HandlerOffset c + HandlerLength c) mod 2 ^ 32) of Inl e \<Rightarrow> Inl e | Inr he \<Rightarrow>
     (let clause = \<lparr>m_Flags = fc_flags c, m_pTryBegin = tb, m_pTryEnd = te, m_pHandlerBegin = hb,
            m_pHandlerEnd = m_pPrev he is, m_ClassToken = 0, m_pFilter = 0\<rparr>
      in if \<not> is_filter (fc_flags c) then Inr (clause\<lparr>m_ClassToken := ClassTokenOrFilter c\<rparr>)
         else case GetInstrFromOffset table codeSize (ClassTokenOrFilter c) of Inl e \<Rightarrow> Inl e | Inr f \<Rightarrow>
           Inr (clause\<lparr>m_pFilter := f\<rparr>))))))"

primrec import_clauses :: "(nat \<rightharpoonup> nat) \<Rightarrow> nat \<Rightarrow> il_instr list \<Rightarrow> fat_clause list \<Rightarrow> il_error + EHClause list" where
  "import_clauses table codeSize is [] = Inr []"
| "import_clauses table codeSize is (c # cs) =
     (case import_clause table codeSize is c of
        Inl e \<Rightarrow> Inl e
      | Inr k \<Rightarrow> map_sum id (Cons k) (import_clauses table codeSize is cs))"

definition ImportEH :: "(nat \<rightharpoonup> nat) \<Rightarrow> nat \<Rightarrow> fat_clause list \<Rightarrow> ILRewriter \<Rightarrow> il_error + ILRewriter" where
  "ImportEH table codeSize clauses r =
     (if m_EH r \<noteq> None then Inl COR_E_INVALIDOPERATION
      else if clauses = [] then Inr r
      else map_sum id (\<lambda>ks. r\<lparr>m_EH := Some ks\<rparr>) (import_clauses table codeSize (m_IL r) clauses))"

text \<open>The bytes are those of \<open>GetILFunctionBody\<close>; a body that ends too early is no body at all.\<close>

definition import_body :: "method_body \<Rightarrow> il_error + ILRewriter" where
  "import_body decoder =
     (let r = ILRewriter_new\<lparr>m_tkLocalVarSig := LocalVarSigTok decoder, m_maxStack := of_nat (MaxStack decoder),
            m_flags := (if mb_flags decoder div 16 mod 2 = 1 then CorILMethod_InitLocals else 0)\<rparr>
      in case ImportIL (Code decoder) r of
           Inl e \<Rightarrow> Inl e
         | Inr (r, table) \<Rightarrow> ImportEH table (length (Code decoder)) (EH decoder) r)"

definition Import :: "byte list \<Rightarrow> il_error + ILRewriter" where
  "Import pMethodBytes = (case DecoderInit pMethodBytes of None \<Rightarrow> Inl COR_E_INVALIDPROGRAM | Some decoder \<Rightarrow> import_body decoder)"

section \<open>Export\<close>

definition instr_size :: "il_instr \<Rightarrow> nat" where
  "instr_size i =
     (if m_opcode i < CEE_COUNT then (if m_opcode i \<ge> 0x100 then 2 else 1) else 0) +
     (if op_flags (m_opcode i) = 32 then 4 else 0) + OPCODEFLAGS_SizeMask (op_flags (m_opcode i))"

text \<open>The first pass: the offset of every instruction and the size of the code.\<close>

primrec layout :: "nat \<Rightarrow> nat \<Rightarrow> il_instr list \<Rightarrow> il_error + (nat \<rightharpoonup> nat) \<times> nat" where
  "layout maxSize offset [] = Inr ([0 \<mapsto> offset], offset)"
| "layout maxSize offset (i # is) =
     (if offset \<ge> maxSize then Inl COR_E_INDEXOUTOFRANGE
      else if m_opcode i \<ge> length s_OpCodeFlags then Inl COR_E_INVALIDPROGRAM
      else if op_flags (m_opcode i) \<notin> {0, 1, 2, 4, 8, 17, 20, 32} then Inl COR_E_INVALIDPROGRAM
      else map_sum id (apfst (\<lambda>offs. offs(instr_id i \<mapsto> offset))) (layout maxSize (offset + instr_size i) is))"

text \<open>The offset of an instruction that is not in the list is still zero.\<close>

definition m_offset :: "(nat \<rightharpoonup> nat) \<Rightarrow> nat \<Rightarrow> nat" where
  "m_offset offs w = (case offs w of Some p \<Rightarrow> p | None \<Rightarrow> 0)"

definition to_int32 :: "int \<Rightarrow> int" where
  "to_int32 x = (x + 2 ^ 31) mod 2 ^ 32 - 2 ^ 31"

text \<open>The distance of a branch, from the instruction after it.\<close>

definition branch_delta :: "(nat \<rightharpoonup> nat) \<Rightarrow> il_instr list \<Rightarrow> il_instr \<Rightarrow> int" where
  "branch_delta offs rest i =
     to_int32 (int (m_offset offs (m_target i)) - int (m_offset offs (case rest of [] \<Rightarrow> 0 | j # _ \<Rightarrow> instr_id j)))"

definition fits_byte :: "int \<Rightarrow> bool" where
  "fits_byte d \<longleftrightarrow> - 128 \<le> d \<and> d \<le> 127"

text \<open>The second pass, as far as it changes instructions: a short branch whose distance does not fit becomes a long one.\<close>

definition widen_opcode :: "nat \<Rightarrow> il_error + nat" where
  "widen_opcode opcode =
     (if opcode = CEE_LEAVE_S then Inr CEE_LEAVE
      else if \<not> (opcode \<ge> CEE_BR_S \<and> opcode \<le> CEE_BLT_UN_S) then Inl COR_E_INVALIDPROGRAM
      else let opcode' = opcode - CEE_BR_S + CEE_BR
           in if \<not> (opcode' \<ge> CEE_BR \<and> opcode' \<le> CEE_BLT_UN) then Inl COR_E_INVALIDPROGRAM else Inr opcode')"

primrec widen :: "(nat \<rightharpoonup> nat) \<Rightarrow> il_instr list \<Rightarrow> il_error + il_instr list \<times> bool" where
  "widen offs [] = Inr ([], False)"
| "widen offs (i # is) =
     (if op_flags (m_opcode i) = 17 \<and> \<not> fits_byte (branch_delta offs is i)
      then case widen_opcode (m_opcode i) of
             Inl e \<Rightarrow> Inl e
           | Inr opcode \<Rightarrow> map_sum id (\<lambda>(js, again). (i\<lparr>m_opcode := opcode\<rparr> # js, True)) (widen offs is)
      else map_sum id (\<lambda>(js, again). (i # js, again)) (widen offs is))"

text \<open>Every round that tries again has fewer short branches than the round before.\<close>

definition short_branches :: "il_instr list \<Rightarrow> nat" where
  "short_branches is = length (filter (\<lambda>i. op_flags (m_opcode i) = 17) is)"

lemma widen_opcode_long: "widen_opcode opcode = Inr opcode' \<Longrightarrow> op_flags opcode' = 20"
  using op_flags_cases(4) [of opcode'] by (auto simp: widen_opcode_def opcode_defs Let_def split: if_splits)

lemma widen_short_branches:
  "widen offs is = Inr (js, again) \<Longrightarrow> short_branches js \<le> short_branches is \<and> (again \<longrightarrow> short_branches js < short_branches is)"
proof (induction "is" arbitrary: js again)
  case (Cons i "is")
  show ?case
  proof (cases "op_flags (m_opcode i) = 17 \<and> \<not> fits_byte (branch_delta offs is i)")
    case True
    with Cons.prems obtain opcode ks more where "widen_opcode (m_opcode i) = Inr opcode" "widen offs is = Inr (ks, more)"
      "js = i\<lparr>m_opcode := opcode\<rparr> # ks" by (cases "widen_opcode (m_opcode i)"; cases "widen offs is") auto
    with True Cons.IH show ?thesis by (fastforce simp: short_branches_def dest: widen_opcode_long)
  next
    case False
    with Cons.prems obtain ks where "widen offs is = Inr (ks, again)" "js = i # ks" by (cases "widen offs is") auto
    with Cons.IH show ?thesis by (fastforce simp: short_branches_def)
  qed
qed (simp add: short_branches_def)

function resolve_sizes :: "nat \<Rightarrow> il_instr list \<Rightarrow> il_error + il_instr list \<times> (nat \<rightharpoonup> nat) \<times> nat" where
  "resolve_sizes maxSize is =
     (case layout maxSize 0 is of
        Inl e \<Rightarrow> Inl e
      | Inr (offs, offset) \<Rightarrow>
          (case widen offs is of
             Inl e \<Rightarrow> Inl e
           | Inr (js, fTryAgain) \<Rightarrow> if fTryAgain then resolve_sizes maxSize js else Inr (is, offs, offset)))"
  by pat_completeness auto
termination
  by (relation "measure (short_branches \<circ> snd)") (auto dest: widen_short_branches)

declare resolve_sizes.simps [simp del]

text \<open>The bytes of the last round, the operands of the branches filled in by its second pass.\<close>

definition opcode_bytes :: "nat \<Rightarrow> byte list" where
  "opcode_bytes opcode =
     (if opcode < CEE_COUNT then (if opcode \<ge> 0x100 then [of_nat CEE_PREFIX1] else []) @ [of_nat (opcode mod 256)] else [])"

definition operand_bytes :: "(nat \<rightharpoonup> nat) \<Rightarrow> nat \<Rightarrow> il_instr list \<Rightarrow> il_instr \<Rightarrow> byte list" where
  "operand_bytes offs switchBase rest i =
     (let flags = op_flags (m_opcode i)
      in if m_opcode i = CEE_SWITCH_ARG then le_bytes 4 (nat ((int (m_offset offs (m_target i)) - int switchBase) mod 2 ^ 32))
         else if flags = 17 then le_bytes 1 (nat (branch_delta offs rest i mod 2 ^ 8))
         else if flags = 20 then le_bytes 4 (nat (branch_delta offs rest i mod 2 ^ 32))
         else if flags = 32 then le_bytes 4 (m_arg i)
         else le_bytes (OPCODEFLAGS_SizeMask flags) (m_arg i))"

primrec emit :: "(nat \<rightharpoonup> nat) \<Rightarrow> nat \<Rightarrow> il_instr list \<Rightarrow> byte list" where
  "emit offs switchBase [] = []"
| "emit offs switchBase (i # is) =
     opcode_bytes (m_opcode i) @ operand_bytes offs switchBase is i @
     emit offs (if m_opcode i = CEE_SWITCH then (m_offset offs (instr_id i) + 1 + 4 * (m_arg i + 1)) mod 2 ^ 32 else switchBase) is"

definition export_clause :: "(nat \<rightharpoonup> nat) \<Rightarrow> il_instr list \<Rightarrow> EHClause \<Rightarrow> fat_clause" where
  "export_clause offs is c =
     \<lparr>fc_flags = m_Flags c,
      TryOffset = m_offset offs (m_pTryBegin c),
      TryLength = nat ((int (m_offset offs (m_pTryEnd c)) - int (m_offset offs (m_pTryBegin c))) mod 2 ^ 32),
      HandlerOffset = m_offset offs (m_pHandlerBegin c),
      HandlerLength =
        nat ((int (m_offset offs (m_pNext (m_pHandlerEnd c) is)) - int (m_offset offs (m_pHandlerBegin c))) mod 2 ^ 32),
      ClassTokenOrFilter = (if \<not> is_filter (m_Flags c) then m_ClassToken c else m_offset offs (m_pFilter c))\<rparr>"

text \<open>
  The bytes handed to \<open>SetILFunctionBody\<close>, and the rewriter with the branches it widened. The bytes that align the
  section of the exception clauses are those the allocator left there.
\<close>

definition Export :: "(nat \<Rightarrow> byte) \<Rightarrow> ILRewriter \<Rightarrow> il_error + byte list \<times> ILRewriter" where
  "Export fill r =
     (case resolve_sizes (m_nInstrs r * 10 mod 2 ^ 32) (m_IL r) of
        Inl e \<Rightarrow> Inl e
      | Inr (is, offs, codeSize) \<Rightarrow>
          let code = emit offs 0 is;
              clauses = (case m_EH r of None \<Rightarrow> [] | Some cs \<Rightarrow> cs);
              flags = or (or (m_flags r) (if clauses \<noteq> [] then CorILMethod_MoreSects else 0)) CorILMethod_FatFormat
          in if m_fGenerateTinyHeader r
             then if codeSize \<ge> 64 then Inl EFail else Inr (tiny_header codeSize @ code, r\<lparr>m_IL := is\<rparr>)
             else Inr (fat_header flags (unat (m_maxStack r)) codeSize (m_tkLocalVarSig r) @ code @
                       map fill [0..<Align codeSize - codeSize] @
                       (if clauses = [] then [] else eh_section (map (export_clause offs is) clauses)),
                       r\<lparr>m_IL := is\<rparr>))"

end
