(* ===== verification/Il_Round_Trip.thy ===== *)
theory Il_Round_Trip
  imports Il_Rewriter
begin

text \<open>
  Importing what was exported: a well-formed list of instructions always exports, within the buffer allocated for it, and
  the bytes import as the same program, with the branches widened that did not fit.
\<close>

section \<open>Well-formed lists\<close>

definition is_arg :: "il_instr \<Rightarrow> bool" where
  "is_arg i \<longleftrightarrow> m_opcode i = CEE_SWITCH_ARG"

definition is_branch :: "il_instr \<Rightarrow> bool" where
  "is_branch i \<longleftrightarrow> OPCODEFLAGS_BranchTarget (op_flags (m_opcode i))"

definition plain_opcode :: "nat \<Rightarrow> bool" where
  "plain_opcode opcode \<longleftrightarrow> opcode < CEE_COUNT \<and> \<not> (CEE_PREFIX7 \<le> opcode \<and> opcode \<le> CEE_PREFIX1)"

text \<open>A switch has its arguments right behind it, and nothing else has arguments.\<close>

fun well_switched :: "nat \<Rightarrow> il_instr list \<Rightarrow> bool" where
  "well_switched n [] = (n = 0)"
| "well_switched n (i # is) =
     (if n = 0 then plain_opcode (m_opcode i) \<and> well_switched (if m_opcode i = CEE_SWITCH then m_arg i else 0) is
      else is_arg i \<and> well_switched (n - 1) is)"

text \<open>What a branch or a clause may refer to: the end of the code, or an instruction that is no argument.\<close>

definition labels :: "il_instr list \<Rightarrow> nat list" where
  "labels is = 0 # map instr_id (filter (\<lambda>i. \<not> is_arg i) is)"

definition wf_code :: "il_instr list \<Rightarrow> bool" where
  "wf_code is \<longleftrightarrow> distinct (map instr_id is) \<and> 0 \<notin> set (map instr_id is) \<and> well_switched 0 is \<and>
     list_all (\<lambda>i. is_branch i \<longrightarrow> m_target i \<in> set (labels is)) is"

section \<open>Sizes\<close>

lemma plain_opcode_facts:
  assumes "plain_opcode op"
  shows "op < 296" "op < CEE_COUNT" "op \<noteq> CEE_SWITCH_ARG" "\<not> (CEE_PREFIX7 \<le> op \<and> op \<le> CEE_PREFIX2)" "op \<noteq> CEE_PREFIX1"
  using assms by (auto simp: plain_opcode_def opcode_defs)

lemma well_switched_opcodes: "well_switched n is \<Longrightarrow> list_all (\<lambda>i. plain_opcode (m_opcode i) \<or> is_arg i) is"
  by (induction n "is" rule: well_switched.induct) (auto split: if_splits)

lemma opcode_in_table: "plain_opcode (m_opcode i) \<or> is_arg i \<Longrightarrow> m_opcode i < 296"
  by (auto simp: plain_opcode_def is_arg_def opcode_defs)

lemma instr_size_bounds:
  assumes "m_opcode i < 296" "m_opcode i \<noteq> CEE_COUNT"
  shows "0 < instr_size i" "instr_size i \<le> 10"
proof -
  have "m_opcode i = CEE_SWITCH_ARG" if "\<not> m_opcode i < CEE_COUNT" using assms that by (auto simp: opcode_defs)
  moreover have "op_flags CEE_SWITCH_ARG = 20" using op_flags_cases(4) [of CEE_SWITCH_ARG] by (simp add: opcode_defs)
  ultimately show "0 < instr_size i" "instr_size i \<le> 10"
    using op_flags_cases(1) [OF assms(1)] by (auto simp: instr_size_def OPCODEFLAGS_SizeMask_def)
qed

abbreviation code_size :: "il_instr list \<Rightarrow> nat" where
  "code_size is \<equiv> sum_list (map instr_size is)"

abbreviation sane :: "il_instr \<Rightarrow> bool" where
  "sane i \<equiv> plain_opcode (m_opcode i) \<or> is_arg i"

lemma sane_size: "sane i \<Longrightarrow> 0 < instr_size i \<and> instr_size i \<le> 10"
  using instr_size_bounds [of i] by (auto simp: plain_opcode_def is_arg_def opcode_defs)

lemma code_size_le: "list_all sane is \<Longrightarrow> code_size is \<le> 10 * length is"
  by (induction "is") (auto dest!: sane_size)

section \<open>The first pass\<close>

primrec offs_from :: "nat \<Rightarrow> il_instr list \<Rightarrow> (nat \<rightharpoonup> nat)" where
  "offs_from offset [] = [0 \<mapsto> offset]"
| "offs_from offset (i # is) = (offs_from (offset + instr_size i) is)(instr_id i \<mapsto> offset)"

lemma layout_ok:
  "\<lbrakk>list_all sane is; offset + 10 * length is \<le> maxSize\<rbrakk> \<Longrightarrow>
   layout maxSize offset is = Inr (offs_from offset is, offset + code_size is)"
proof (induction "is" arbitrary: offset)
  case (Cons i "is")
  have "instr_size i \<le> 10" using Cons.prems(1) sane_size by auto
  then have "layout maxSize (offset + instr_size i) is = Inr (offs_from (offset + instr_size i) is, offset + instr_size i + code_size is)"
    using Cons by auto
  moreover have "m_opcode i < 296" using Cons.prems(1) opcode_in_table by auto
  ultimately show ?case using op_flags_cases(1) [of "m_opcode i"] Cons.prems by auto
qed simp

text \<open>The offsets of a list that starts at \<open>offset\<close>.\<close>

primrec laid :: "(nat \<rightharpoonup> nat) \<Rightarrow> nat \<Rightarrow> il_instr list \<Rightarrow> bool" where
  "laid offs offset [] = (offs 0 = Some offset)"
| "laid offs offset (i # is) = (offs (instr_id i) = Some offset \<and> laid offs (offset + instr_size i) is)"

lemma laid_upd: "\<lbrakk>laid offs offset is; w \<noteq> 0; w \<notin> set (map instr_id is)\<rbrakk> \<Longrightarrow> laid (offs(w \<mapsto> p)) offset is"
  by (induction "is" arbitrary: offset) auto

lemma laid_offs_from: "\<lbrakk>distinct (map instr_id is); 0 \<notin> set (map instr_id is)\<rbrakk> \<Longrightarrow> laid (offs_from offset is) offset is"
  by (induction "is" arbitrary: offset) (auto intro!: laid_upd)

lemma laid_end: "laid offs offset is \<Longrightarrow> offs 0 = Some (offset + code_size is)"
  by (induction "is" arbitrary: offset) (auto simp: add.assoc)

lemma laid_next: "laid offs offset is \<Longrightarrow> m_offset offs (case is of [] \<Rightarrow> 0 | j # _ \<Rightarrow> instr_id j) = offset"
  by (cases "is") (auto simp: m_offset_def)

lemma laid_bound: "\<lbrakk>laid offs offset is; w = 0 \<or> w \<in> set (map instr_id is)\<rbrakk> \<Longrightarrow> \<exists>p. offs w = Some p \<and> offset \<le> p \<and> p \<le> offset + code_size is"
proof (induction "is" arbitrary: offset)
  case (Cons i "is")
  show ?case
  proof (cases "w = instr_id i")
    case False
    with Cons.prems have "w = 0 \<or> w \<in> set (map instr_id is)" by auto
    from Cons.IH [OF _ this] Cons.prems show ?thesis by fastforce
  qed (use Cons.prems in auto)
qed auto

lemma to_int32_id: "\<lbrakk>- (2 ^ 31) \<le> x; x < 2 ^ 31\<rbrakk> \<Longrightarrow> to_int32 x = x"
  by (simp add: to_int32_def)

section \<open>The second pass\<close>

text \<open>What export may change: a short branch becomes the long branch of the same kind.\<close>

definition widened :: "il_instr \<Rightarrow> il_instr \<Rightarrow> bool" where
  "widened i j \<longleftrightarrow> j = i \<or> op_flags (m_opcode i) = 17 \<and> widen_opcode (m_opcode i) = Inr (m_opcode j) \<and> j = i\<lparr>m_opcode := m_opcode j\<rparr>"

lemma widen_opcode_plain:
  assumes "op_flags op = 17" "op < 296"
  obtains op' where "widen_opcode op = Inr op'" "plain_opcode op'" "op' \<noteq> CEE_SWITCH" "op \<noteq> CEE_SWITCH" "op \<noteq> CEE_SWITCH_ARG"
    "plain_opcode op"
  using assms op_flags_cases(2,3) [OF assms(2)]
  by (fastforce simp: widen_opcode_def plain_opcode_def opcode_defs Let_def split: if_splits)

lemma widened_facts:
  assumes "widened i j" "sane i"
  shows "instr_id j = instr_id i" "m_target j = m_target i" "m_arg j = m_arg i" "is_arg j = is_arg i"
    "is_branch j = is_branch i" "plain_opcode (m_opcode j) = plain_opcode (m_opcode i)"
    "m_opcode j = CEE_SWITCH \<longleftrightarrow> m_opcode i = CEE_SWITCH"
proof -
  show "instr_id j = instr_id i" "m_target j = m_target i" "m_arg j = m_arg i"
    using assms(1) unfolding widened_def by (metis il_instr.select_convs il_instr.surjective il_instr.update_convs)+
  have "is_arg j = is_arg i \<and> is_branch j = is_branch i \<and> plain_opcode (m_opcode j) = plain_opcode (m_opcode i) \<and>
    (m_opcode j = CEE_SWITCH \<longleftrightarrow> m_opcode i = CEE_SWITCH)"
  proof (cases "j = i")
    case False
    with assms(1) have w: "op_flags (m_opcode i) = 17" "widen_opcode (m_opcode i) = Inr (m_opcode j)" by (auto simp: widened_def)
    obtain op where "widen_opcode (m_opcode i) = Inr op" "plain_opcode op" "op \<noteq> CEE_SWITCH" "m_opcode i \<noteq> CEE_SWITCH"
      "m_opcode i \<noteq> CEE_SWITCH_ARG" "plain_opcode (m_opcode i)" using widen_opcode_plain [OF w(1) opcode_in_table [OF assms(2)]] .
    with w widen_opcode_long [OF w(2)] plain_opcode_facts(3) show ?thesis
      by (auto simp: is_arg_def is_branch_def OPCODEFLAGS_BranchTarget_def)
  qed simp
  then show "is_arg j = is_arg i" "is_branch j = is_branch i" "plain_opcode (m_opcode j) = plain_opcode (m_opcode i)"
    "m_opcode j = CEE_SWITCH \<longleftrightarrow> m_opcode i = CEE_SWITCH" by auto
qed

lemma widened_trans: "\<lbrakk>widened i j; widened j k\<rbrakk> \<Longrightarrow> widened i k"
  unfolding widened_def by (auto dest: widen_opcode_long)

primrec short_fit :: "(nat \<rightharpoonup> nat) \<Rightarrow> il_instr list \<Rightarrow> bool" where
  "short_fit offs [] = True"
| "short_fit offs (i # is) = ((op_flags (m_opcode i) = 17 \<longrightarrow> fits_byte (branch_delta offs is i)) \<and> short_fit offs is)"

lemma widen_ok:
  "list_all sane is \<Longrightarrow> \<exists>js again. widen offs is = Inr (js, again) \<and> list_all2 widened is js \<and>
     (\<not> again \<longrightarrow> js = is \<and> short_fit offs is)"
proof (induction "is")
  case (Cons i "is")
  then obtain js again where js: "widen offs is = Inr (js, again)" "list_all2 widened is js" "\<not> again \<longrightarrow> js = is \<and> short_fit offs is"
    by auto
  show ?case
  proof (cases "op_flags (m_opcode i) = 17 \<and> \<not> fits_byte (branch_delta offs is i)")
    case True
    moreover have "m_opcode i < 296" using Cons.prems opcode_in_table [of i] by simp
    ultimately obtain op where "widen_opcode (m_opcode i) = Inr op" using widen_opcode_plain [of "m_opcode i"] by metis
    moreover from this True have "widened i (i\<lparr>m_opcode := op\<rparr>)" by (simp add: widened_def)
    ultimately show ?thesis using True js by force
  next
    case False
    then have "widen offs (i # is) = Inr (i # js, again)" using js(1) by auto
    moreover have "widened i i" by (simp add: widened_def)
    moreover have "short_fit offs (i # is)" if "\<not> again" using that False js(3) by auto
    ultimately show ?thesis using js(2,3) by blast
  qed
next
  case Nil
  show ?case by (intro exI [of _ "[]"] exI [of _ False]) simp
qed

lemma widened_well_switched:
  "\<lbrakk>list_all2 widened is js; well_switched n is\<rbrakk> \<Longrightarrow> well_switched n js"
proof (induction "is" js arbitrary: n rule: list_all2_induct)
  case (Cons i "is" j js)
  have "sane i" using well_switched_opcodes [OF Cons.prems] by simp
  note w = widened_facts [OF Cons.hyps(1) this]
  show ?case using Cons.prems Cons.IH w by (auto split: if_splits)
qed simp

lemma widened_ids: "\<lbrakk>list_all2 widened is js; list_all sane is\<rbrakk> \<Longrightarrow> map instr_id js = map instr_id is \<and> labels js = labels is"
  unfolding labels_def by (induction "is" js rule: list_all2_induct) (auto simp: widened_facts(1,4))

lemma widened_targets:
  "\<lbrakk>list_all2 widened is js; list_all sane is; list_all (\<lambda>i. is_branch i \<longrightarrow> m_target i \<in> L) is\<rbrakk> \<Longrightarrow>
   list_all (\<lambda>i. is_branch i \<longrightarrow> m_target i \<in> L) js"
  by (induction "is" js rule: list_all2_induct) (auto simp: widened_facts(2,5))

lemma widened_wf: "\<lbrakk>list_all2 widened is js; wf_code is\<rbrakk> \<Longrightarrow> wf_code js"
  using widened_ids [of "is" js] widened_targets [of "is" js "set (labels is)"] widened_well_switched [of "is" js 0]
    well_switched_opcodes [of 0 "is"] by (auto simp: wf_code_def)

lemma resolve_sizes_ok:
  assumes "wf_code is" "10 * length is \<le> maxSize"
  shows "\<exists>js. resolve_sizes maxSize is = Inr (js, offs_from 0 js, code_size js) \<and> list_all2 widened is js \<and> wf_code js \<and>
    short_fit (offs_from 0 js) js"
  using assms
proof (induction "short_branches is" arbitrary: "is" rule: less_induct)
  case less
  then have sane: "list_all sane is" using well_switched_opcodes wf_code_def by blast
  note l = layout_ok [OF sane, of 0, simplified, OF less.prems(2)]
  from widen_ok [OF sane, of "offs_from 0 is"] obtain js again where js: "widen (offs_from 0 is) is = Inr (js, again)"
    "list_all2 widened is js" "\<not> again \<longrightarrow> js = is \<and> short_fit (offs_from 0 is) is" by auto
  show ?case
  proof (cases again)
    case True
    have "short_branches js < short_branches is" using widen_short_branches [OF js(1)] True by simp
    moreover have "wf_code js" "10 * length js \<le> maxSize"
      using widened_wf [OF js(2) less.prems(1)] js(2) less.prems(2) by (auto dest: list_all2_lengthD)
    ultimately obtain ks where ks: "resolve_sizes maxSize js = Inr (ks, offs_from 0 ks, code_size ks)" "list_all2 widened js ks"
      "wf_code ks" "short_fit (offs_from 0 ks) ks" using less.hyps by meson
    moreover have "list_all2 widened is ks" 
      using list_all2_trans [of widened widened widened, OF _ js(2) ks(2)] widened_trans by blast
    ultimately show ?thesis using l js(1) True by (subst resolve_sizes.simps) simp
  next
    case False
    with js l less.prems(1) have "resolve_sizes maxSize is = Inr (is, offs_from 0 is, code_size is)"
      by (subst resolve_sizes.simps) simp
    with False js less.prems(1) show ?thesis by auto
  qed
qed

section \<open>Reading an instruction back\<close>

lemma add_back:
  assumes "t < 2 ^ 32"
  shows "(b + nat ((int t - int b) mod 2 ^ 32)) mod 2 ^ 32 = t"
proof -
  have "int ((b + nat ((int t - int b) mod 2 ^ 32)) mod 2 ^ 32) = (int b + (int t - int b) mod 2 ^ 32) mod 2 ^ 32"
    by (simp add: zmod_int)
  also have "\<dots> = int t mod 2 ^ 32" by (simp add: mod_add_right_eq)
  also have "\<dots> = int t" using assms by simp
  finally show ?thesis by simp
qed

lemma signed_byte_back:
  assumes "fits_byte d"
  shows "signed_byte (of_nat (nat (d mod 256) mod 256)) = d"
proof -
  have "int (nat (d mod 256) mod 256) = d mod 256" by (simp add: zmod_int)
  then have "sint (of_nat (nat (d mod 256) mod 256) :: byte) = (d mod 256 + 128) mod 256 - 128"
    using int_word_sint [of "int (nat (d mod 256) mod 256)", where 'a = 8] by simp
  moreover have "(d mod 256 + 128) mod 256 = d + 128" using assms by (simp add: fits_byte_def mod_add_left_eq)
  ultimately show ?thesis by (simp only: signed_byte_def)
qed

definition operand_size :: "nat \<Rightarrow> nat" where
  "operand_size opcode = (if op_flags opcode = 32 then 4 else OPCODEFLAGS_SizeMask (op_flags opcode))"

lemma instr_size_split:
  assumes "plain_opcode (m_opcode i)"
  shows "instr_size i = length (opcode_bytes (m_opcode i)) + operand_size (m_opcode i)"
  using plain_opcode_facts [OF assms] by (auto simp: instr_size_def opcode_bytes_def operand_size_def OPCODEFLAGS_SizeMask_def)

lemma read_opcode_bytes:
  assumes "plain_opcode opcode"
  shows "read_opcode (opcode_bytes opcode @ bs) = Some (opcode, bs)"
proof -
  have "unat (of_nat (opcode mod 256) :: byte) = opcode mod 256" by (simp add: unat_of_nat take_bit_eq_mod)
  moreover have "unat (of_nat CEE_PREFIX1 :: byte) = CEE_PREFIX1" by (simp add: CEE_PREFIX1_def)
  moreover have "256 + opcode mod 256 = opcode" if "\<not> opcode < 256" 
    using that plain_opcode_facts(2) [OF assms] by (auto simp: opcode_defs mod_if)
  ultimately show ?thesis using plain_opcode_facts [OF assms] by (auto simp: opcode_bytes_def)
qed

text \<open>What import reads for an instruction: a branch has the offset of its target.\<close>

definition imported :: "(nat \<rightharpoonup> nat) \<Rightarrow> il_instr \<Rightarrow> nat \<times> nat" where
  "imported offs i =
     (m_opcode i, if is_branch i then m_offset offs (m_target i) else m_arg i mod 256 ^ operand_size (m_opcode i))"

text \<open>The offsets that matter are below 2 to the 31st.\<close>

definition small_offsets :: "(nat \<rightharpoonup> nat) \<Rightarrow> bool" where
  "small_offsets offs \<longleftrightarrow> (\<forall>w. m_offset offs w < 2 ^ 31)"

lemma branch_delta_laid:
  assumes "laid offs offset is" "small_offsets offs"
  shows "branch_delta offs is i = int (m_offset offs (m_target i)) - int offset"
proof -
  have "offset < 2 ^ 31" using laid_next [OF assms(1)] assms(2) small_offsets_def by metis
  moreover have "m_offset offs (m_target i) < 2 ^ 31" using assms(2) by (simp add: small_offsets_def)
  ultimately show ?thesis using laid_next [OF assms(1)] by (simp add: branch_delta_def to_int32_id)
qed

lemma plain_flags:
  assumes "plain_opcode op"
  shows "op_flags op \<in> {0, 1, 2, 4, 8} \<or> op_flags op = 17 \<or> op_flags op = 20 \<or> op = CEE_SWITCH"
  using op_flags_cases(1,2) [of op] plain_opcode_facts [OF assms] by auto

lemma read_plain:
  assumes i: "plain_opcode (m_opcode i)" "m_opcode i \<noteq> CEE_SWITCH"
    and "laid offs start (i # is)" "short_fit offs (i # is)" "small_offsets offs"
  shows "read_instr start (opcode_bytes (m_opcode i) @ operand_bytes offs sb is i @ bs) = Some ([imported offs i], bs)"
proof -
  let ?op = "m_opcode i" and ?t = "m_offset offs (m_target i)" and ?n = "length (opcode_bytes (m_opcode i))"
  note op = plain_opcode_facts [OF i(1)]
  have d: "branch_delta offs is i = int ?t - int (start + instr_size i)"
    using assms(3) by (intro branch_delta_laid assms(5)) simp
  have t: "?t < 2 ^ 31" using assms(5) by (simp add: small_offsets_def)
  consider (plain) "op_flags ?op \<in> {0, 1, 2, 4, 8}" | (short) "op_flags ?op = 17" | (long) "op_flags ?op = 20"
    using plain_flags [OF i(1)] i(2) by blast
  then show ?thesis
  proof cases
    case plain
    then have "\<not> is_branch i" "operand_size ?op = op_flags ?op" "op_flags ?op mod 16 = op_flags ?op"
      by (auto simp: is_branch_def OPCODEFLAGS_BranchTarget_def operand_size_def OPCODEFLAGS_SizeMask_def)
    moreover have "operand_bytes offs sb is i = le_bytes (op_flags ?op) (m_arg i)" using plain op calculation
      by (auto simp: operand_bytes_def OPCODEFLAGS_SizeMask_def)
    ultimately show ?thesis using plain op
      by (simp add: read_instr_def read_opcode_bytes [OF i(1)] imported_def OPCODEFLAGS_SizeMask_def del: le_bytes.simps)
  next
    case short
    then have b: "is_branch i" by (simp add: is_branch_def OPCODEFLAGS_BranchTarget_def)
    have "operand_bytes offs sb is i = [of_nat (nat (branch_delta offs is i mod 256) mod 256)]"
      using short op by (simp add: operand_bytes_def)
    moreover have "signed_byte (of_nat (nat (branch_delta offs is i mod 256) mod 256)) = branch_delta offs is i"
      using signed_byte_back assms(4) short by simp
    moreover have "int (start + ?n) + 1 + branch_delta offs is i = int ?t"
      using d instr_size_split [OF i(1)] short by (simp add: operand_size_def OPCODEFLAGS_SizeMask_def)
    ultimately show ?thesis using short op b t
      by (simp add: read_instr_def read_opcode_bytes [OF i(1)] imported_def OPCODEFLAGS_SizeMask_def)
  next
    case long
    then have b: "is_branch i" by (simp add: is_branch_def OPCODEFLAGS_BranchTarget_def)
    have "operand_bytes offs sb is i = le_bytes 4 (nat (branch_delta offs is i mod 2 ^ 32))"
      using long op by (simp add: operand_bytes_def)
    moreover have "int (start + instr_size i) = int (start + ?n + 4)"
      using instr_size_split [OF i(1)] long by (simp add: operand_size_def OPCODEFLAGS_SizeMask_def)
    moreover have "(start + ?n + 4 + nat ((int ?t - int (start + ?n + 4)) mod 2 ^ 32) mod 256 ^ 4) mod 2 ^ 32 = ?t"
      using add_back [of ?t "start + ?n + 4"] t by simp
    ultimately show ?thesis using long op b d
      by (simp add: read_instr_def read_opcode_bytes [OF i(1)] imported_def OPCODEFLAGS_SizeMask_def add.assoc)
  qed
qed

section \<open>Reading a switch back\<close>

lemma op_flags_switch [simp]: "op_flags CEE_SWITCH = 32" "op_flags CEE_SWITCH_ARG = 20"
  using op_flags_cases(2) [of CEE_SWITCH] op_flags_cases(4) [of CEE_SWITCH_ARG] by (simp_all add: opcode_defs)

lemma switch_not_arg: "CEE_SWITCH \<noteq> CEE_SWITCH_ARG"
  by (simp add: opcode_defs)

lemma arg_facts:
  assumes "is_arg i"
  shows "instr_size i = 4" "opcode_bytes (m_opcode i) = []" "m_opcode i \<noteq> CEE_SWITCH" "is_branch i"
    "imported offs i = (CEE_SWITCH_ARG, m_offset offs (m_target i))"
    "operand_bytes offs sb is i = le_bytes 4 (nat ((int (m_offset offs (m_target i)) - int sb) mod 2 ^ 32))"
proof -
  have "m_opcode i = CEE_SWITCH_ARG" using assms by (simp add: is_arg_def)
  moreover from this have "is_branch i" by (simp add: is_branch_def OPCODEFLAGS_BranchTarget_def)
  ultimately show "instr_size i = 4" "opcode_bytes (m_opcode i) = []" "m_opcode i \<noteq> CEE_SWITCH" "is_branch i"
    "imported offs i = (CEE_SWITCH_ARG, m_offset offs (m_target i))"
    "operand_bytes offs sb is i = le_bytes 4 (nat ((int (m_offset offs (m_target i)) - int sb) mod 2 ^ 32))"
    by (simp_all add: instr_size_def opcode_bytes_def imported_def operand_bytes_def OPCODEFLAGS_SizeMask_def)
      (simp_all add: opcode_defs)
qed

lemma well_switched_split:
  "well_switched n is \<Longrightarrow> \<exists>as rest. is = as @ rest \<and> length as = n \<and> list_all is_arg as \<and> well_switched 0 rest"
proof (induction n arbitrary: "is")
  case (Suc n)
  then obtain i js where "is = i # js" "is_arg i" "well_switched n js" by (cases "is") auto
  moreover from this Suc.IH [of js] obtain as rest where "js = as @ rest" "length as = n" "list_all is_arg as" "well_switched 0 rest"
    by auto
  ultimately show ?case by (intro exI [of _ "i # as"] exI [of _ rest]) simp
qed simp

lemma args_size: "list_all is_arg as \<Longrightarrow> code_size as = 4 * length as"
  by (induction as) (auto simp: arg_facts)

lemma laid_append: "laid offs offset (as @ rest) \<Longrightarrow> laid offs (offset + code_size as) rest"
  by (induction as arbitrary: offset) (auto simp flip: add.assoc)

lemma short_fit_append: "short_fit offs (as @ rest) \<Longrightarrow> short_fit offs rest"
  by (induction as) auto

lemma switch_targets_args:
  assumes "list_all is_arg as" "small_offsets offs"
  shows "switch_targets base (length as) (emit offs base (as @ rest)) = Some (map (\<lambda>i. m_offset offs (m_target i)) as, emit offs base rest)"
  using assms(1)
proof (induction as)
  case (Cons a as)
  have "m_offset offs (m_target a) < 2 ^ 32" 
    by (rule less_trans [of _ "2 ^ 31"]) (use assms(2) in \<open>simp_all add: small_offsets_def\<close>)
  from add_back [OF this, of base] Cons show ?case by (simp add: arg_facts)
qed simp

lemma read_switch:
  assumes "m_opcode i = CEE_SWITCH" "m_arg i = length as" "list_all is_arg as" "offs (instr_id i) = Some start"
    and "small_offsets offs" "length as < 2 ^ 32"
  shows "read_instr start (emit offs sb (i # as @ rest)) =
    Some (map (imported offs) (i # as), emit offs ((start + 1 + 4 * (m_arg i + 1)) mod 2 ^ 32) rest)"
proof -
  let ?base = "(start + 1 + 4 * (length as + 1)) mod 2 ^ 32"
  have "plain_opcode CEE_SWITCH" by (simp add: plain_opcode_def opcode_defs)
  note r = read_opcode_bytes [OF this]
  have "emit offs sb (i # as @ rest) = opcode_bytes CEE_SWITCH @ le_bytes 4 (length as) @ emit offs ?base (as @ rest)"
    using assms(1,2,4) switch_not_arg by (simp add: operand_bytes_def m_offset_def)
  moreover have "length (opcode_bytes CEE_SWITCH) = 1" by (simp add: opcode_bytes_def opcode_defs)
  moreover have "length as mod 256 ^ 4 = length as" using assms(6) by simp
  moreover have "(start + 1 + 4 + length as * 4) mod 2 ^ 32 = ?base" by (simp add: algebra_simps)
  moreover have "map (imported offs) as = map (Pair CEE_SWITCH_ARG) (map (\<lambda>i. m_offset offs (m_target i)) as)"
    using assms(3) by (induction as) (auto simp: arg_facts)
  moreover have "imported offs i = (CEE_SWITCH, length as)"
    using assms(1,2,6) by (simp add: imported_def is_branch_def OPCODEFLAGS_BranchTarget_def operand_size_def)
  ultimately show ?thesis using switch_targets_args [OF assms(3,5)] assms(2)
    by (simp add: read_instr_def r OPCODEFLAGS_SizeMask_def) (simp add: opcode_defs Let_def)
qed

section \<open>Reading the code back\<close>

primrec instr_table :: "nat \<Rightarrow> nat \<Rightarrow> nat \<Rightarrow> il_instr list \<Rightarrow> (nat \<rightharpoonup> nat)" where
  "instr_table codeSize fresh offset [] = [codeSize \<mapsto> 0]"
| "instr_table codeSize fresh offset (i # is) =
     (if is_arg i then instr_table codeSize (fresh + 1) (offset + instr_size i) is
      else (instr_table codeSize (fresh + 1) (offset + instr_size i) is)(offset \<mapsto> fresh))"

lemma instr_table_args:
  "list_all is_arg as \<Longrightarrow>
   instr_table codeSize fresh offset (as @ rest) = instr_table codeSize (fresh + length as) (offset + code_size as) rest"
  by (induction as arbitrary: fresh offset) (auto simp flip: add.assoc)

lemma length_operand_bytes:
  assumes "plain_opcode (m_opcode i)"
  shows "length (operand_bytes offs sb is i) = operand_size (m_opcode i)"
  using plain_opcode_facts [OF assms] by (auto simp: operand_bytes_def operand_size_def OPCODEFLAGS_SizeMask_def Let_def)

lemma length_emit: "list_all sane is \<Longrightarrow> length (emit offs sb is) = code_size is"
proof (induction "is" arbitrary: sb)
  case (Cons i "is")
  show ?case
  proof (cases "is_arg i")
    case True
    with Cons show ?thesis by (simp add: arg_facts)
  next
    case False
    with Cons.prems have "plain_opcode (m_opcode i)" by simp
    with Cons show ?thesis by (simp add: length_operand_bytes instr_size_split)
  qed
qed simp

lemma laid_small:
  assumes "laid offs offset is" "small_offsets offs"
  shows "offset + code_size is < 2 ^ 31"
  using laid_end [OF assms(1)] assms(2) by (metis m_offset_def option.simps(5) small_offsets_def)

lemma read_emit:
  assumes "well_switched 0 is" "laid offs start is" "short_fit offs is" "small_offsets offs"
  shows "\<exists>gs. read_code start (emit offs sb is) = Some gs \<and> concat (map snd gs) = map (imported offs) is \<and>
    (\<forall>codeSize fresh. offset_table codeSize fresh gs = instr_table codeSize fresh start is)"
  using assms
proof (induction "is" arbitrary: start sb rule: length_induct)
  case (1 "is")
  show ?case
  proof (cases "is")
    case Nil
    then show ?thesis by (auto simp: read_code.simps fun_eq_iff)
  next
    case (Cons i js)
    with 1 have i: "plain_opcode (m_opcode i)" "\<not> is_arg i"
      using plain_opcode_facts(3) [of "m_opcode i"] by (auto simp: is_arg_def)
    define n where "n = (if m_opcode i = CEE_SWITCH then m_arg i else 0)"
    have "well_switched n js" using 1 Cons by (simp add: n_def)
    then obtain as rest where js: "js = as @ rest" "length as = n" "list_all is_arg as" "well_switched 0 rest"
      using well_switched_split by blast
    obtain base where r: "read_instr start (emit offs sb is) = Some (map (imported offs) (i # as), emit offs base rest)"
    proof (cases "m_opcode i = CEE_SWITCH")
      case True
      have "length as \<le> code_size as" using args_size [OF js(3)] by simp
      then have "length as < 2 ^ 32" using laid_small [OF 1(3,5)] Cons js(1) by simp
      with read_switch [of i as offs start sb rest] True js that Cons 1 show ?thesis by (simp add: n_def)
    next
      case False
      with js n_def have "as = []" by simp
      with read_plain [OF i(1) False, of offs start js sb "emit offs sb js"] False that Cons js 1 show ?thesis by simp
    qed
    have sane: "list_all sane is" using well_switched_opcodes 1 by blast
    then have "list_all sane rest" using Cons js by simp
    with sane have consumed: "length (emit offs sb is) - length (emit offs base rest) = code_size (i # as)"
      using Cons js by (simp add: length_emit del: emit.simps)
    have laid: "laid offs (start + code_size (i # as)) rest" using laid_append [of offs start "i # as" rest] 1 Cons js by simp
    have "short_fit offs rest" using short_fit_append [of offs "i # as" rest] 1 Cons js by simp
    with 1(1) [rule_format, of rest "start + code_size (i # as)" base] js Cons laid 1(5) obtain gs where gs: "read_code (start + code_size (i # as)) (emit offs base rest) = Some gs"
      "concat (map snd gs) = map (imported offs) rest"
      "\<forall>codeSize fresh. offset_table codeSize fresh gs = instr_table codeSize fresh (start + code_size (i # as)) rest"
      by auto
    have "0 < code_size is" using sane sane_size [of i] Cons by auto
    then have "emit offs sb is \<noteq> []" using length_emit [OF sane] by (metis length_0_conv less_numeral_extra(3))
    with r gs(1) consumed have "read_code start (emit offs sb is) = Some ((start, map (imported offs) (i # as)) # gs)"
      by (subst read_code.simps) simp
    with gs(2,3) i(2) js Cons show ?thesis by (auto simp: instr_table_args add.assoc)
  qed
qed

section \<open>Resolving the branches\<close>

text \<open>The place of an instruction in a list; the end of the code comes after the last one.\<close>

primrec place :: "nat \<Rightarrow> il_instr list \<Rightarrow> nat" where
  "place w [] = 0"
| "place w (i # is) = (if instr_id i = w then 0 else Suc (place w is))"

text \<open>The identities import gives out.\<close>

definition new_id :: "nat \<Rightarrow> il_instr list \<Rightarrow> nat \<Rightarrow> nat" where
  "new_id fresh is w = (if w = 0 then 0 else fresh + place w is)"

primrec reimported :: "nat \<Rightarrow> (nat \<rightharpoonup> nat) \<Rightarrow> (nat \<Rightarrow> nat) \<Rightarrow> il_instr list \<Rightarrow> il_instr list" where
  "reimported fresh offs f [] = []"
| "reimported fresh offs f (i # is) =
     \<lparr>instr_id = fresh, m_opcode = fst (imported offs i), m_arg = snd (imported offs i),
      m_target = (if is_branch i then f (m_target i) else 0)\<rparr> # reimported (fresh + 1) offs f is"

lemma instr_table_label:
  assumes "laid offs start is" "distinct (map instr_id is)" "0 \<notin> set (map instr_id is)" "list_all sane is" "w \<in> set (labels is)"
  shows "instr_table (start + code_size is) fresh start is (m_offset offs w) = Some (new_id fresh is w)"
  using assms
proof (induction "is" arbitrary: start fresh)
  case (Cons i "is")
  show ?case
  proof (cases "w = instr_id i")
    case True
    with Cons.prems have "\<not> is_arg i" "w \<noteq> 0" "m_offset offs w = start" by (auto simp: labels_def m_offset_def)
    with True show ?thesis by (simp add: new_id_def)
  next
    case False
    with Cons.prems have w: "w \<in> set (labels is)" by (auto simp: labels_def split: if_splits)
    then have "w = 0 \<or> w \<in> set (map instr_id is)" by (auto simp: labels_def)
    with laid_bound [of offs "start + instr_size i" "is" w] Cons.prems sane_size [of i]
    have "m_offset offs w \<noteq> start" by (auto simp: m_offset_def)
    moreover have "instr_table (start + instr_size i + code_size is) (fresh + 1) (start + instr_size i) is (m_offset offs w) =
      Some (new_id (fresh + 1) is w)" using Cons.prems w by (intro Cons.IH) auto
    moreover have "new_id (fresh + 1) is w = new_id fresh (i # is) w" using False by (simp add: new_id_def)
    ultimately show ?thesis by (simp add: add.assoc)
  qed
qed (simp add: labels_def m_offset_def new_id_def)

lemma resolve_reimported:
  assumes "list_all (\<lambda>i. is_branch i \<longrightarrow> m_offset offs (m_target i) \<le> codeSize \<and> table (m_offset offs (m_target i)) = Some (f (m_target i))) is"
  shows "resolve_targets table codeSize (number_instrs fresh (map (imported offs) is)) = Inr (reimported fresh offs f is)"
  using assms by (induction "is" arbitrary: fresh) (auto simp: imported_def GetInstrFromOffset_def is_branch_def)

lemma length_number_instrs [simp]: "length (number_instrs fresh xs) = length xs"
  by (induction xs arbitrary: fresh) auto

lemma fold_insert:
  "fold (InsertBefore 0) new r =
     r\<lparr>m_IL := m_IL r @ new, m_maxStack := m_maxStack r + (\<Sum>i\<leftarrow>new. of_nat (k_rgnStackPushes ! m_opcode i))\<rparr>"
  by (induction new arbitrary: r) (auto simp: InsertBefore_def AdjustState_def add.assoc)

lemma offs_from_le: "offs_from offset is w = Some p \<Longrightarrow> p \<le> offset + code_size is"
  by (induction "is" arbitrary: offset) (auto split: if_splits dest: order_trans, fastforce)

lemma small_offs_from:
  assumes "code_size is < 2 ^ 31"
  shows "small_offsets (offs_from 0 is)"
  unfolding small_offsets_def
proof
  fix w
  show "m_offset (offs_from 0 is) w < 2 ^ 31"
    using assms offs_from_le [of 0 "is" w] by (auto simp: m_offset_def split: option.splits)
qed

text \<open>The stack depth import arrives at.\<close>

definition pushes :: "il_instr list \<Rightarrow> u32" where
  "pushes is = (\<Sum>i\<leftarrow>is. of_nat (k_rgnStackPushes ! m_opcode i))"

lemma ImportIL_emit:
  assumes wf: "wf_code is" and "short_fit (offs_from 0 is) is" "code_size is < 2 ^ 31" "m_IL r = []"
  defines "offs \<equiv> offs_from 0 is" and "fresh \<equiv> m_nInstrs r + 1"
  shows "ImportIL (emit offs 0 is) r =
    Inr (r\<lparr>m_IL := reimported fresh offs (new_id fresh is) is, m_nInstrs := m_nInstrs r + length is, m_maxStack := m_maxStack r + pushes is\<rparr>,
      instr_table (code_size is) fresh 0 is)"
proof -
  have wf': "distinct (map instr_id is)" "0 \<notin> set (map instr_id is)" "well_switched 0 is"
    "list_all (\<lambda>i. is_branch i \<longrightarrow> m_target i \<in> set (labels is)) is" using wf by (auto simp: wf_code_def)
  have sane: "list_all sane is" using well_switched_opcodes wf'(3) .
  have small: "small_offsets offs" unfolding offs_def by (rule small_offs_from) fact
  have laid: "laid offs 0 is" unfolding offs_def using wf' by (intro laid_offs_from)
  obtain gs where gs: "read_code 0 (emit offs 0 is) = Some gs" "concat (map snd gs) = map (imported offs) is"
    "\<forall>codeSize fresh. offset_table codeSize fresh gs = instr_table codeSize fresh 0 is"
    using read_emit [OF wf'(3) laid _ small, of 0] assms(2) by (auto simp: offs_def)
  have len: "length (emit offs 0 is) = code_size is" using sane by (rule length_emit)
  have "m_offset offs w \<le> code_size is" for w
    using offs_from_le [of 0 "is" w] by (auto simp: m_offset_def offs_def split: option.splits)
  moreover have "instr_table (code_size is) fresh 0 is (m_offset offs w) = Some (new_id fresh is w)" if "w \<in> set (labels is)" for w
    using instr_table_label [OF laid wf'(1,2) sane that, of fresh] by simp
  ultimately have "resolve_targets (instr_table (code_size is) fresh 0 is) (code_size is) (number_instrs fresh (map (imported offs) is)) =
    Inr (reimported fresh offs (new_id fresh is) is)" using wf'(4) by (intro resolve_reimported) (auto simp: list_all_iff)
  moreover have "(\<Sum>i\<leftarrow>number_instrs fresh (map (imported offs) is). of_nat (k_rgnStackPushes ! m_opcode i)) = pushes is" for fresh
    unfolding pushes_def by (induction "is" arbitrary: fresh) (auto simp: imported_def)
  ultimately show ?thesis using gs len assms(4) by (simp add: ImportIL_def fold_insert fresh_def)
qed

end
