(* ===== verification/Il_Bodies.thy ===== *)
theory Il_Bodies
  imports Il_Round_Trip
begin

text \<open>
  Whole method bodies: the invariant of the rewriter, exception clauses through export and import, and the round trip of a
  body from the rewriter to bytes and back.
\<close>

section \<open>The invariant of the rewriter\<close>

definition clauses :: "ILRewriter \<Rightarrow> EHClause list" where
  "clauses r = (case m_EH r of None \<Rightarrow> [] | Some cs \<Rightarrow> cs)"

text \<open>A clause refers to instructions of the list, and the instruction after its handler can be a boundary.\<close>

definition wf_clause :: "il_instr list \<Rightarrow> EHClause \<Rightarrow> bool" where
  "wf_clause is c \<longleftrightarrow> m_Flags c < 2 ^ 32 \<and> m_pTryBegin c \<in> set (labels is) \<and> m_pTryEnd c \<in> set (labels is) \<and>
     m_pHandlerBegin c \<in> set (labels is) \<and> m_pHandlerEnd c \<in> set (0 # map instr_id is) \<and>
     m_pNext (m_pHandlerEnd c) is \<in> set (labels is) \<and>
     (if is_filter (m_Flags c) then m_pFilter c \<in> set (labels is) else m_ClassToken c < 2 ^ 32)"

definition wf_rewriter :: "ILRewriter \<Rightarrow> bool" where
  "wf_rewriter r \<longleftrightarrow> wf_code (m_IL r) \<and> length (m_IL r) \<le> m_nInstrs r \<and> list_all (\<lambda>i. instr_id i \<le> m_nInstrs r) (m_IL r) \<and>
     m_flags r \<in> {0, CorILMethod_TinyFormat, CorILMethod_InitLocals} \<and> m_tkLocalVarSig r < 2 ^ 32 \<and>
     list_all (wf_clause (m_IL r)) (clauses r) \<and> 4 + 24 * length (clauses r) < 2 ^ 24"

section \<open>Neighbours\<close>

lemma next_from_range: "next_from b h is \<in> set (0 # map instr_id is)"
proof (induction "is" arbitrary: b)
  case (Cons i "is")
  show ?case using Cons [of "instr_id i"] by auto
qed simp

lemma prev_of_next_from:
  "\<lbrakk>distinct (b # map instr_id is); 0 \<notin> set (map instr_id is); h \<in> set (b # map instr_id is)\<rbrakk> \<Longrightarrow>
   prev_from b (next_from b h is) is = h"
proof (induction "is" arbitrary: b)
  case (Cons x xs)
  show ?case
  proof (cases "b = h")
    case False
    have "instr_id x \<notin> set (0 # map instr_id xs)" using Cons.prems by auto
    then have "next_from (instr_id x) h xs \<noteq> instr_id x" using next_from_range [of "instr_id x" h xs] by metis
    with False Cons show ?thesis by auto
  qed simp
qed simp

lemma prev_of_next:
  assumes "wf_code is" "h \<in> set (0 # map instr_id is)"
  shows "m_pPrev (m_pNext h is) is = h"
  using assms prev_of_next_from [of 0 "is" h] by (auto simp: m_pPrev_def m_pNext_def wf_code_def)

lemma prev_from_map:
  assumes "map instr_id js = map (f \<circ> instr_id) is" "inj_on f (set (w # map instr_id is))"
  shows "prev_from (f b) (f w) js = f (prev_from b w is)"
  using assms
proof (induction "is" arbitrary: b js)
  case (Cons i "is")
  then obtain j js' where j: "js = j # js'" "instr_id j = f (instr_id i)" "map instr_id js' = map (f \<circ> instr_id) is"
    by (cases js) auto
  have "f (instr_id i) = f w \<longleftrightarrow> instr_id i = w" using Cons.prems(2) by (auto simp: inj_on_def)
  moreover have "prev_from (f (instr_id i)) (f w) js' = f (prev_from (instr_id i) w is)"
    using Cons.prems(2) j(3) by (intro Cons.IH) (auto simp: inj_on_def)
  ultimately show ?case using j by simp
qed simp

section \<open>The renumbered list\<close>

lemma place_less: "w \<in> set (map instr_id is) \<Longrightarrow> place w is < length is \<and> instr_id (is ! place w is) = w"
  by (induction "is") auto

lemma place_missing: "w \<notin> set (map instr_id is) \<Longrightarrow> place w is = length is"
  by (induction "is") auto

lemma reimported_ids: "map instr_id (reimported fresh offs f is) = [fresh..<fresh + length is]"
  by (induction "is" arbitrary: fresh) (auto simp: upt_conv_Cons simp del: upt_Suc)

lemma new_ids:
  assumes "distinct (map instr_id is)" "0 \<notin> set (map instr_id is)"
  shows "map (new_id fresh is \<circ> instr_id) is = [fresh..<fresh + length is]"
  using assms
proof (induction "is" arbitrary: fresh)
  case (Cons i "is")
  have "map (new_id fresh (i # is) \<circ> instr_id) is = map (new_id (fresh + 1) is \<circ> instr_id) is"
    using Cons.prems by (auto simp: new_id_def)
  also have "\<dots> = [fresh + 1..<fresh + 1 + length is]" using Cons.prems by (intro Cons.IH) auto
  finally have "map (new_id fresh (i # is) \<circ> instr_id) (i # is) = fresh # [fresh + 1..<fresh + 1 + length is]"
    using Cons.prems by (simp only: list.map o_apply) (simp add: new_id_def del: upt_Suc)
  then show ?case by (simp only: upt_conv_Cons) (simp add: upt_conv_Cons del: upt_Suc)
qed simp

lemma place_interval:
  "map instr_id js = [fresh..<fresh + n] \<Longrightarrow> k < n \<Longrightarrow> place (fresh + k) js = k"
proof (induction n arbitrary: fresh js k)
  case (Suc n)
  then obtain j js' where j: "js = j # js'" "instr_id j = fresh" "map instr_id js' = [fresh + 1..<fresh + 1 + n]"
    by (cases js) (auto simp: upt_conv_Cons simp del: upt_Suc)
  show ?case
  proof (cases k)
    case (Suc k')
    with Suc.IH [OF j(3), of k'] Suc.prems j show ?thesis by simp
  qed (use j in simp)
qed simp

lemma place_new_id:
  assumes "map instr_id js = [fresh..<fresh + length is]" "0 < fresh" "0 \<notin> set (map instr_id is)" "w \<in> set (0 # map instr_id is)"
  shows "place (new_id fresh is w) js = place w is"
proof (cases "w = 0")
  case True
  have "length js = length is" using assms(1) by (metis add_diff_cancel_left' length_map length_upt)
  with True assms show ?thesis using place_missing [of 0 js] place_missing [of 0 "is"] by (simp add: new_id_def)
next
  case False
  with assms have "place w is < length is" using place_less by auto
  with False assms(1) show ?thesis by (simp add: new_id_def place_interval)
qed

lemma new_id_inj:
  assumes "0 < fresh"
  shows "inj_on (new_id fresh is) (set (0 # map instr_id is))"
proof (rule inj_onI)
  fix v w
  assume vw: "v \<in> set (0 # map instr_id is)" "w \<in> set (0 # map instr_id is)" "new_id fresh is v = new_id fresh is w"
  show "v = w"
  proof (cases "v = 0 \<or> w = 0")
    case False
    then have "place v is = place w is" using vw(3) by (simp add: new_id_def)
    with False vw(1,2) place_less [of v "is"] place_less [of w "is"] show ?thesis by (metis set_ConsD)
  qed (use vw(3) assms in \<open>auto simp: new_id_def split: if_splits\<close>)
qed

section \<open>The same code and the same clauses\<close>

text \<open>Two lists are the same program if they agree instruction by instruction, a branch going to the same place.\<close>

definition same_instr :: "il_instr list \<Rightarrow> il_instr list \<Rightarrow> il_instr \<Rightarrow> il_instr \<Rightarrow> bool" where
  "same_instr is js i j \<longleftrightarrow> m_opcode j = m_opcode i \<and>
     (if is_branch i then place (m_target j) js = place (m_target i) is else m_arg j = m_arg i mod 256 ^ operand_size (m_opcode i))"

definition same_clause :: "il_instr list \<Rightarrow> il_instr list \<Rightarrow> EHClause \<Rightarrow> EHClause \<Rightarrow> bool" where
  "same_clause is js c d \<longleftrightarrow> m_Flags d = m_Flags c \<and> place (m_pTryBegin d) js = place (m_pTryBegin c) is \<and>
     place (m_pTryEnd d) js = place (m_pTryEnd c) is \<and> place (m_pHandlerBegin d) js = place (m_pHandlerBegin c) is \<and>
     place (m_pHandlerEnd d) js = place (m_pHandlerEnd c) is \<and>
     (if is_filter (m_Flags c) then place (m_pFilter d) js = place (m_pFilter c) is else m_ClassToken d = m_ClassToken c)"

lemma labels_ids: "w \<in> set (labels is) \<Longrightarrow> w \<in> set (0 # map instr_id is)"
  by (auto simp: labels_def)

lemma same_reimported:
  assumes "list_all (\<lambda>i. is_branch i \<longrightarrow> place (f (m_target i)) js = place (m_target i) is) ks"
  shows "list_all2 (same_instr is js) ks (reimported fresh offs f ks)"
  using assms by (induction ks arbitrary: fresh) (auto simp: same_instr_def imported_def)

definition renamed :: "(nat \<Rightarrow> nat) \<Rightarrow> EHClause \<Rightarrow> EHClause" where
  "renamed f c = \<lparr>m_Flags = m_Flags c, m_pTryBegin = f (m_pTryBegin c), m_pTryEnd = f (m_pTryEnd c),
     m_pHandlerBegin = f (m_pHandlerBegin c), m_pHandlerEnd = f (m_pHandlerEnd c),
     m_ClassToken = (if is_filter (m_Flags c) then 0 else m_ClassToken c),
     m_pFilter = (if is_filter (m_Flags c) then f (m_pFilter c) else 0)\<rparr>"

lemma import_exported_clause:
  assumes "wf_clause is c" "wf_code is" "m_pPrev (f (m_pNext (m_pHandlerEnd c) is)) js = f (m_pHandlerEnd c)"
    and table: "\<And>w. w \<in> set (labels is) \<Longrightarrow> table (m_offset offs w) = Some (f w)"
    and le: "\<And>w. m_offset offs w \<le> codeSize" and "codeSize < 2 ^ 32"
  shows "import_clause table codeSize js (export_clause offs is c) = Inr (renamed f c)"
proof -
  have get: "GetInstrFromOffset table codeSize (m_offset offs w) = Inr (f w)" if "w \<in> set (labels is)" for w
    using table [OF that] le by (simp add: GetInstrFromOffset_def)
  have small: "m_offset offs w < 2 ^ 32" for w using le [of w] assms(6) by (rule le_less_trans)
  have inverse: "(m_offset offs v + nat ((int (m_offset offs w) - int (m_offset offs v)) mod 2 ^ 32)) mod 2 ^ 32 = m_offset offs w" for v w
    by (rule add_back) (rule small)
  show ?thesis
    using assms(1,3) by (simp add: import_clause_def export_clause_def wf_clause_def get inverse [simplified] renamed_def split: if_splits)
qed

lemma same_renamed:
  assumes "wf_clause is c" "\<And>w. w \<in> set (0 # map instr_id is) \<Longrightarrow> place (f w) js = place w is"
  shows "same_clause is js c (renamed f c)"
  using assms(1) unfolding wf_clause_def same_clause_def renamed_def by (auto intro!: assms(2) dest!: labels_ids split: if_splits)

lemma export_clause_fits:
  assumes "wf_clause is c" "\<And>w. m_offset offs w < 2 ^ 32"
  shows "clause_fits (export_clause offs is c)"
  using assms by (auto simp: wf_clause_def clause_fits_def export_clause_def nat_less_iff)

lemma import_clauses_ok:
  "(\<And>c. c \<in> set cs \<Longrightarrow> import_clause table codeSize js (g c) = Inr (h c)) \<Longrightarrow> import_clauses table codeSize js (map g cs) = Inr (map h cs)"
  by (induction cs) auto

section \<open>The round trip of a body\<close>

lemma next_from_ids: "map instr_id js = map instr_id is \<Longrightarrow> next_from b w js = next_from b w is"
proof (induction "is" arbitrary: b js)
  case (Cons i "is")
  then obtain j js' where j: "js = j # js'" "instr_id j = instr_id i" "map instr_id js' = map instr_id is" by (cases js) auto
  from Cons.IH [OF j(3)] j(1,2) show ?case by simp
qed simp

lemma widened_clause:
  assumes "list_all2 widened is js" "wf_code is" "wf_clause is c"
  shows "wf_clause js c"
proof -
  have "list_all sane is" using assms(2) well_switched_opcodes by (auto simp: wf_code_def)
  note ids = widened_ids [OF assms(1) this]
  have "m_pNext w js = m_pNext w is" for w using ids next_from_ids [of js "is"] by (simp add: m_pNext_def)
  with ids assms(3) show ?thesis unfolding wf_clause_def by metis
qed

definition same_body :: "ILRewriter \<Rightarrow> ILRewriter \<Rightarrow> bool" where
  "same_body r s \<longleftrightarrow> list_all2 (same_instr (m_IL r) (m_IL s)) (m_IL r) (m_IL s) \<and>
     list_all2 (same_clause (m_IL r) (m_IL s)) (clauses r) (clauses s) \<and>
     m_tkLocalVarSig s = m_tkLocalVarSig r \<and> (m_flags s = CorILMethod_InitLocals \<longleftrightarrow> m_flags r = CorILMethod_InitLocals)"

text \<open>What import makes of the code and the clauses of one export.\<close>

lemma import_emitted:
  assumes wf: "wf_code is" and "short_fit (offs_from 0 is) is" "code_size is < 2 ^ 31" "list_all (wf_clause is) cs"
  defines "offs \<equiv> offs_from 0 is" and "f \<equiv> new_id 1 is"
  defines "js \<equiv> reimported 1 offs f is"
  assumes "b = \<lparr>LocalVarSigTok = tok, MaxStack = depth, mb_flags = flags, Code = emit offs 0 is, EH = map (export_clause offs is) cs\<rparr>"
  shows "\<exists>s. import_body b = Inr s \<and> m_IL s = js \<and> clauses s = map (renamed f) cs \<and> m_tkLocalVarSig s = tok \<and>
    m_flags s = (if flags div 16 mod 2 = 1 then CorILMethod_InitLocals else 0) \<and> m_maxStack s = of_nat depth + pushes is"
proof -
  let ?r = "ILRewriter_new\<lparr>m_tkLocalVarSig := tok, m_maxStack := of_nat depth,
    m_flags := (if flags div 16 mod 2 = 1 then CorILMethod_InitLocals else 0)\<rparr>"
  have ids: "distinct (map instr_id is)" "0 \<notin> set (map instr_id is)" using wf by (auto simp: wf_code_def)
  have sane: "list_all sane is" using wf well_switched_opcodes by (auto simp: wf_code_def)
  have imp: "ImportIL (emit offs 0 is) ?r =
    Inr (?r\<lparr>m_IL := js, m_nInstrs := length is, m_maxStack := of_nat depth + pushes is\<rparr>, instr_table (code_size is) 1 0 is)"
    using ImportIL_emit [OF assms(1-3), of ?r] by (simp add: offs_def js_def f_def ILRewriter_new_def)
  have table: "instr_table (code_size is) 1 0 is (m_offset offs w) = Some (f w)" if "w \<in> set (labels is)" for w
    using instr_table_label [OF laid_offs_from [OF ids, of 0] ids sane that, of 1] by (simp add: offs_def f_def)
  have le: "m_offset offs w \<le> code_size is" for w
    using offs_from_le [of 0 "is" w] by (auto simp: m_offset_def offs_def split: option.splits)
  have "import_clause (instr_table (code_size is) 1 0 is) (code_size is) js (export_clause offs is c) = Inr (renamed f c)"
    if "c \<in> set cs" for c
  proof (rule import_exported_clause)
    show c: "wf_clause is c" using that assms(4) by (simp add: list_all_iff)
    let ?n = "m_pNext (m_pHandlerEnd c) is"
    have "set (?n # map instr_id is) \<subseteq> set (0 # map instr_id is)"
      using next_from_range [of 0 "m_pHandlerEnd c" "is"] by (auto simp: m_pNext_def)
    then have "inj_on f (set (?n # map instr_id is))" 
      unfolding f_def by (rule inj_on_subset [OF new_id_inj, rotated]) simp
    moreover have "map instr_id js = map (f \<circ> instr_id) is" using reimported_ids new_ids [OF ids] by (simp add: js_def f_def)
    ultimately have "prev_from (f 0) (f ?n) js = f (prev_from 0 ?n is)" by (intro prev_from_map)
    moreover have "m_pPrev ?n is = m_pHandlerEnd c" using c by (intro prev_of_next wf) (simp add: wf_clause_def del: set_map)
    ultimately show "m_pPrev (f ?n) js = f (m_pHandlerEnd c)" by (simp add: m_pPrev_def f_def new_id_def)
    next
    show "code_size is < 2 ^ 32" using assms(3) by (rule less_trans) simp
  qed (fact wf table le)+
  then have "import_clauses (instr_table (code_size is) 1 0 is) (code_size is) js (map (export_clause offs is) cs) =
    Inr (map (renamed f) cs)" by (rule import_clauses_ok)
  with imp length_emit [OF sane, of offs 0] show ?thesis
    unfolding assms(8) by (auto simp: import_body_def ImportEH_def clauses_def ILRewriter_new_def)
qed

definition fits :: "ILRewriter \<Rightarrow> bool" where
  "fits r \<longleftrightarrow> m_nInstrs r * 10 < 2 ^ 31"

definition header_flags :: "ILRewriter \<Rightarrow> nat" where
  "header_flags r = or (or (m_flags r) (if clauses r \<noteq> [] then CorILMethod_MoreSects else 0)) CorILMethod_FatFormat"

lemma header_flags_fields:
  assumes "wf_rewriter r"
  shows "header_flags r mod 8 = 3" "header_flags r < 4096" "header_flags r div 8 mod 2 = (if clauses r = [] then 0 else 1)"
    "header_flags r div 16 mod 2 = 1 \<longleftrightarrow> m_flags r = CorILMethod_InitLocals"
  using assms by (auto simp: header_flags_def wf_rewriter_def format_defs)

text \<open>Export of a well-formed rewriter returns, and what it returns.\<close>

lemma Export_fat:
  assumes "wf_rewriter r" "fits r" "\<not> m_fGenerateTinyHeader r"
  shows "\<exists>is. Export fill r =
      Inr (fat_header (header_flags r) (unat (m_maxStack r)) (code_size is) (m_tkLocalVarSig r) @ emit (offs_from 0 is) 0 is @
           map fill [0..<Align (code_size is) - code_size is] @
           (if map (export_clause (offs_from 0 is) is) (clauses r) = [] then []
            else eh_section (map (export_clause (offs_from 0 is) is) (clauses r))),
           r\<lparr>m_IL := is\<rparr>) \<and>
    list_all2 widened (m_IL r) is \<and> wf_code is \<and> short_fit (offs_from 0 is) is \<and> code_size is < 2 ^ 31 \<and>
    code_size is \<le> m_nInstrs r * 10"
proof -
  have r: "wf_code (m_IL r)" "10 * length (m_IL r) \<le> m_nInstrs r * 10 mod 2 ^ 32"
    using assms(1,2) by (auto simp: wf_rewriter_def fits_def)
  obtain "is" where res: "resolve_sizes (m_nInstrs r * 10 mod 2 ^ 32) (m_IL r) = Inr (is, offs_from 0 is, code_size is)"
    "list_all2 widened (m_IL r) is" "wf_code is" "short_fit (offs_from 0 is) is" using resolve_sizes_ok [OF r] by blast
  have "code_size is \<le> 10 * length is" using res(3) well_switched_opcodes by (intro code_size_le) (auto simp: wf_code_def)
  also have "\<dots> = 10 * length (m_IL r)" using res(2) by (simp add: list_all2_lengthD)
  also have "\<dots> \<le> m_nInstrs r * 10" using assms(1) by (simp add: wf_rewriter_def)
  finally have size: "code_size is \<le> m_nInstrs r * 10" .
  then have "code_size is < 2 ^ 31" using assms(2) unfolding fits_def by (rule le_less_trans)
  with size res assms(3) show ?thesis by (auto simp: Export_def header_flags_def clauses_def Let_def)
qed

lemma Import_exported:
  assumes r: "wf_rewriter r" and "is": "list_all2 widened (m_IL r) is" "wf_code is" "short_fit (offs_from 0 is) is" "code_size is < 2 ^ 31"
  defines "cs \<equiv> map (export_clause (offs_from 0 is) is) (clauses r)"
  shows "\<exists>s. Import (fat_header (header_flags r) (unat (m_maxStack r)) (code_size is) (m_tkLocalVarSig r) @ emit (offs_from 0 is) 0 is @
           map fill [0..<Align (code_size is) - code_size is] @ (if cs = [] then [] else eh_section cs)) = Inr s \<and>
    same_body (r\<lparr>m_IL := is\<rparr>) s \<and> m_maxStack s = of_nat (unat (m_maxStack r) mod 65536) + pushes is"
proof -
  let ?offs = "offs_from 0 is" and ?f = "new_id 1 is"
  have cs: "list_all (wf_clause is) (clauses r)"
    using r "is"(1) widened_clause by (auto simp: wf_rewriter_def list_all_iff)
  have len: "length (emit ?offs 0 is) = code_size is" using "is"(2) well_switched_opcodes by (intro length_emit) (auto simp: wf_code_def)
  have small: "m_offset ?offs w < 2 ^ 32" for w
    by (rule less_trans [of _ "2 ^ 31"]) (use small_offs_from [OF "is"(4)] in \<open>simp_all add: small_offsets_def\<close>)
  have fits: "list_all clause_fits cs"
    unfolding cs_def using cs small by (auto simp: list_all_iff intro!: export_clause_fits)
  have "m_tkLocalVarSig r mod 2 ^ 32 = m_tkLocalVarSig r" using r by (simp add: wf_rewriter_def)
  moreover have "length (emit ?offs 0 is) < 2 ^ 32" using len "is"(4) by simp
  ultimately have dec: "DecoderInit (fat_header (header_flags r) (unat (m_maxStack r)) (code_size is) (m_tkLocalVarSig r) @ emit ?offs 0 is @
      map fill [0..<Align (code_size is) - code_size is] @ (if cs = [] then [] else eh_section cs)) =
    Some \<lparr>LocalVarSigTok = m_tkLocalVarSig r, MaxStack = unat (m_maxStack r) mod 65536, mb_flags = header_flags r,
      Code = emit ?offs 0 is, EH = cs\<rparr>"
    using decode_fat [of "emit ?offs 0 is" "map fill [0..<Align (code_size is) - code_size is]" "header_flags r" cs
        "unat (m_maxStack r)" "m_tkLocalVarSig r"] header_flags_fields [OF r] fits len r
    by (simp add: cs_def wf_rewriter_def)
  obtain s where s: "import_body \<lparr>LocalVarSigTok = m_tkLocalVarSig r, MaxStack = unat (m_maxStack r) mod 65536,
      mb_flags = header_flags r, Code = emit ?offs 0 is, EH = cs\<rparr> = Inr s" "m_IL s = reimported 1 ?offs ?f is"
    "clauses s = map (renamed ?f) (clauses r)" "m_tkLocalVarSig s = m_tkLocalVarSig r"
    "m_flags s = (if header_flags r div 16 mod 2 = 1 then CorILMethod_InitLocals else 0)"
    "m_maxStack s = of_nat (unat (m_maxStack r) mod 65536) + pushes is"
    using import_emitted [OF "is"(2,3,4) cs refl] unfolding cs_def by blast
  have zero: "0 \<notin> set (map instr_id is)" using "is"(2) by (simp add: wf_code_def)
  have place: "place (?f w) (m_IL s) = place w is" if "w \<in> set (0 # map instr_id is)" for w
    using reimported_ids zero that unfolding s(2) by (intro place_new_id) auto
  have "list_all2 (same_instr is (m_IL s)) is (m_IL s)"
    unfolding s(2) using "is"(2) place [unfolded s(2)] labels_ids
    by (intro same_reimported) (auto simp: wf_code_def list_all_iff simp del: set_map)
  moreover have "list_all2 (same_clause is (m_IL s)) (clauses r) (clauses s)"
    unfolding s(3) list_all2_map2 using cs place by (auto simp: list_all_iff intro!: list.rel_refl_strong same_renamed)
  ultimately have "same_body (r\<lparr>m_IL := is\<rparr>) s"
    using s(4,5) header_flags_fields(4) [OF r] by (simp add: same_body_def clauses_def format_defs)
  with dec s(1,6) show ?thesis by (auto simp: Import_def)
qed

end
