(* ===== verification/Il_Imported.thy ===== *)
theory Il_Imported
  imports Il_Bodies
begin

text \<open>
  Whatever import accepts is well-formed: the opcodes are those of the table, the arguments of a switch follow it, and every
  branch and every clause refers to an instruction of the list.
\<close>

section \<open>One instruction\<close>

text \<open>What the loop of \<open>ImportIL\<close> adds to the list in one round.\<close>

definition good_group :: "(nat \<times> nat) list \<Rightarrow> bool" where
  "good_group g \<longleftrightarrow> (\<exists>op a. g = [(op, a)] \<and> plain_opcode op \<and> op \<noteq> CEE_SWITCH) \<or>
     (\<exists>ts. g = (CEE_SWITCH, length ts) # map (Pair CEE_SWITCH_ARG) ts)"

lemma read_opcode_not_prefix: "read_opcode bs = Some (op, rest) \<Longrightarrow> op \<noteq> CEE_PREFIX1"
  by (cases bs) (auto simp: CEE_PREFIX1_def split: if_splits list.splits)

lemma switch_targets_length: "switch_targets base n bs = Some (ts, rest) \<Longrightarrow> length ts = n \<and> 4 * n + length rest = length bs"
proof (induction n arbitrary: bs ts)
  case (Suc n)
  then obtain us where "switch_targets base n (drop 4 bs) = Some (us, rest)" "length ts = Suc (length us)" "4 \<le> length bs"
    by (auto split: if_splits)
  with Suc.IH [of "drop 4 bs" us] show ?case by auto
qed auto

lemma read_instr_group:
  assumes "read_instr start bs = Some (g, rest)"
  shows "good_group g" "length g + length rest \<le> length bs"
proof -
  obtain op mid where op: "read_opcode bs = Some (op, mid)" using assms by (auto simp: read_instr_def split: option.splits)
  note pre = read_opcode_not_prefix [OF op] read_opcode_shorter [OF op]
  have ok: "\<not> (CEE_PREFIX7 \<le> op \<and> op \<le> CEE_PREFIX2)" "op < CEE_COUNT" using assms op by (auto simp: read_instr_def split: if_splits)
  with pre have plain: "plain_opcode op" by (auto simp: plain_opcode_def opcode_defs)
  note rd = assms [unfolded read_instr_def op, simplified, unfolded Let_def]
  consider (switch) "op_flags op = 32" | (other) a where "g = [(op, a)]" "length rest \<le> length mid" "op_flags op \<noteq> 32"
    using rd ok by (auto split: if_splits)
  then have "good_group g \<and> length g + length rest \<le> length bs"
  proof cases
    case switch
    then have "op = CEE_SWITCH" using op_flags_cases(2) [of op] plain_opcode_facts(1) [OF plain] by simp
    moreover obtain base n ts where "switch_targets base n (drop 4 mid) = Some (ts, rest)"
      "g = (op, n) # map (Pair CEE_SWITCH_ARG) ts" "4 \<le> length mid" using rd ok switch by (auto split: if_splits)
    ultimately show ?thesis using switch_targets_length [of base n "drop 4 mid" ts rest] pre(2) by (auto simp: good_group_def)
  next
    case other
    then have "op \<noteq> CEE_SWITCH" by auto
    with other plain pre(2) show ?thesis by (auto simp: good_group_def)
  qed
  then show "good_group g" "length g + length rest \<le> length bs" by auto
qed

lemma read_code_groups:
  "read_code start bs = Some gs \<Longrightarrow> list_all good_group (map snd gs) \<and> length (concat (map snd gs)) \<le> length bs"
proof (induction start bs arbitrary: gs rule: read_code.induct)
  case (1 start bs)
  show ?case
  proof (cases "bs = []")
    case False
    with "1.prems" obtain g rest hs where g: "read_instr start bs = Some (g, rest)" "gs = (start, g) # hs"
      "read_code (start + (length bs - length rest)) rest = Some hs"
      by (auto simp: read_code.simps [of start bs] split: option.splits)
    from "1.IH" [OF False g(1) refl g(3)] read_instr_group [OF g(1)] g(2) show ?thesis by auto
  qed (use "1.prems" in \<open>simp add: read_code.simps\<close>)
qed

section \<open>The list\<close>

lemma number_instrs_append: "number_instrs fresh (xs @ ys) = number_instrs fresh xs @ number_instrs (fresh + length xs) ys"
  by (induction xs arbitrary: fresh) auto

lemma number_instrs_ids: "map instr_id (number_instrs fresh xs) = [fresh..<fresh + length xs]"
  by (induction xs arbitrary: fresh) (auto simp: upt_conv_Cons simp del: upt_Suc)

lemma well_switched_args:
  "well_switched (length ts) (number_instrs fresh (map (Pair CEE_SWITCH_ARG) ts) @ rest) = well_switched 0 rest"
  by (induction ts arbitrary: fresh) (auto simp: is_arg_def)

lemma well_switched_groups:
  "list_all good_group gs \<Longrightarrow> well_switched 0 (number_instrs fresh (concat gs))"
proof (induction gs arbitrary: fresh)
  case (Cons g gs)
  have "plain_opcode CEE_SWITCH" by (simp add: plain_opcode_def opcode_defs)
  with Cons show ?case by (auto simp: good_group_def number_instrs_append well_switched_args)
qed simp

lemma offset_table_labels:
  "\<lbrakk>list_all good_group (map snd gs); offset_table codeSize fresh gs x = Some t\<rbrakk> \<Longrightarrow>
   t \<in> set (labels (number_instrs fresh (concat (map snd gs))))"
proof (induction gs arbitrary: fresh)
  case (Cons sg gs)
  obtain start g where sg: "sg = (start, g)" by fastforce
  show ?case
  proof (cases "x = start")
    case True
    obtain op a g' where "g = (op, a) # g'" "op \<noteq> CEE_SWITCH_ARG"
      using Cons.prems(1) sg switch_not_arg plain_opcode_facts(3) by (auto simp: good_group_def)
    with True sg Cons.prems(2) show ?thesis by (simp add: labels_def is_arg_def)
  next
    case False
    with Cons sg have "t \<in> set (labels (number_instrs (fresh + length g) (concat (map snd gs))))" by auto
    with sg show ?thesis by (auto simp: labels_def number_instrs_append)
  qed
qed (auto simp: labels_def split: if_splits)

text \<open>The second pass only fills in targets, and only targets of the table.\<close>

definition retargeted :: "nat set \<Rightarrow> il_instr \<Rightarrow> il_instr \<Rightarrow> bool" where
  "retargeted T i j \<longleftrightarrow> (\<exists>t. j = i\<lparr>m_target := t\<rparr> \<and> (is_branch i \<longrightarrow> t \<in> T))"

lemma retargeted_facts:
  assumes "retargeted T i j"
  shows "instr_id j = instr_id i" "m_opcode j = m_opcode i" "m_arg j = m_arg i" "is_arg j = is_arg i" "is_branch j = is_branch i"
    "is_branch j \<Longrightarrow> m_target j \<in> T"
  using assms by (auto simp: retargeted_def is_arg_def is_branch_def)

lemma resolve_targets_retargeted:
  "resolve_targets table codeSize is = Inr js \<Longrightarrow> list_all2 (retargeted (ran table)) is js"
proof (induction "is" arbitrary: js)
  case (Cons i "is")
  show ?case
  proof (cases "is_branch i")
    case True
    with Cons.prems obtain t ks where t: "GetInstrFromOffset table codeSize (m_arg i) = Inr t" "resolve_targets table codeSize is = Inr ks"
      "js = i\<lparr>m_target := t\<rparr> # ks"
      by (cases "resolve_targets table codeSize is") (auto simp: is_branch_def split: sum.splits)
    then have "t \<in> ran table" by (auto simp: GetInstrFromOffset_def ran_def split: if_splits option.splits)
    with t Cons.IH show ?thesis by (auto simp: retargeted_def)
  next
    case False
    with Cons.prems obtain ks where "resolve_targets table codeSize is = Inr ks" "js = i # ks"
      by (cases "resolve_targets table codeSize is") (auto simp: is_branch_def)
    moreover have "retargeted (ran table) i i" using False by (auto simp: retargeted_def intro: exI [of _ "m_target i"])
    ultimately show ?thesis using Cons.IH by auto
  qed
qed simp

lemma retargeted_list:
  assumes "list_all2 (retargeted T) is js"
  shows "map instr_id js = map instr_id is" "labels js = labels is" "well_switched n js = well_switched n is"
    "list_all (\<lambda>j. is_branch j \<longrightarrow> m_target j \<in> T) js"
proof -
  show "map instr_id js = map instr_id is" "list_all (\<lambda>j. is_branch j \<longrightarrow> m_target j \<in> T) js"
    using assms by (induction rule: list_all2_induct) (auto simp: retargeted_facts)
  show "labels js = labels is" unfolding labels_def using assms by (induction rule: list_all2_induct) (auto simp: retargeted_facts)
  show "well_switched n js = well_switched n is" using assms
    by (induction arbitrary: n rule: list_all2_induct) (auto simp: retargeted_facts)
qed

lemma ImportIL_wf:
  assumes "ImportIL pIL r = Inr (s, table)" "m_IL r = []"
  shows "wf_code (m_IL s)" "length (m_IL s) \<le> length pIL" "ran table \<subseteq> set (labels (m_IL s))"
    "map instr_id (m_IL s) = [m_nInstrs r + 1..<m_nInstrs r + 1 + length (m_IL s)]"
    "s = r\<lparr>m_IL := m_IL s, m_nInstrs := m_nInstrs r + length (m_IL s), m_maxStack := m_maxStack s\<rparr>"
proof -
  let ?fresh = "m_nInstrs r + 1"
  obtain gs where gs: "read_code 0 pIL = Some gs" using assms by (auto simp: ImportIL_def split: option.splits)
  note g = read_code_groups [OF gs]
  let ?new = "number_instrs ?fresh (concat (map snd gs))"
  have table: "table = offset_table (length pIL) ?fresh gs" and res: "resolve_targets table (length pIL) ?new = Inr (m_IL s)"
    and s: "s = r\<lparr>m_IL := m_IL s, m_nInstrs := m_nInstrs r + length ?new, m_maxStack := m_maxStack s\<rparr>"
    using assms gs by (cases "resolve_targets (offset_table (length pIL) ?fresh gs) (length pIL) ?new"; auto simp: ImportIL_def fold_insert Let_def)+
  note t = resolve_targets_retargeted [OF res]
  note l = retargeted_list [OF t]
  show "map instr_id (m_IL s) = [?fresh..<?fresh + length (m_IL s)]"
    using l(1) number_instrs_ids [of ?fresh "concat (map snd gs)"] list_all2_lengthD [OF t] by simp
  moreover show sub: "ran table \<subseteq> set (labels (m_IL s))"
    unfolding table l(2) using offset_table_labels g by (auto simp: ran_def)
  ultimately show "wf_code (m_IL s)"
    unfolding wf_code_def l(3) using well_switched_groups g l(4) by (auto simp: list_all_iff)
  show "length (m_IL s) \<le> length pIL" using list_all2_lengthD [OF t] g by simp
  show "s = r\<lparr>m_IL := m_IL s, m_nInstrs := m_nInstrs r + length (m_IL s), m_maxStack := m_maxStack s\<rparr>"
    using s list_all2_lengthD [OF t] by simp
qed

section \<open>The clauses\<close>

lemma prev_from_range: "prev_from b w is \<in> set (b # map instr_id is)"
proof (induction "is" arbitrary: b)
  case (Cons i "is")
  show ?case using Cons [of "instr_id i"] by auto
qed simp

lemma next_of_prev_from:
  "\<lbrakk>distinct (b # map instr_id is); 0 \<notin> set (map instr_id is); w \<in> set (0 # map instr_id is)\<rbrakk> \<Longrightarrow>
   next_from b (prev_from b w is) is = w"
proof (induction "is" arbitrary: b)
  case (Cons x xs)
  show ?case
  proof (cases "instr_id x = w")
    case False
    have "b \<notin> set (instr_id x # map instr_id xs)" using Cons.prems by auto
    then have "b \<noteq> prev_from (instr_id x) w xs" using prev_from_range [of "instr_id x" w xs] by metis
    with False Cons show ?thesis by auto
  qed simp
qed simp

lemma import_clause_wf:
  assumes "import_clause table codeSize is c = Inr k" "wf_code is" "ran table \<subseteq> set (labels is)" "clause_fits c"
  shows "wf_clause is k"
proof -
  have get: "t \<in> set (labels is)" if "GetInstrFromOffset table codeSize p = Inr t" for p t
    using that assms(3) by (auto simp: GetInstrFromOffset_def ran_def split: if_splits option.splits)
  have "m_pNext (m_pPrev h is) is = h" "m_pPrev h is \<in> set (0 # map instr_id is)" if "h \<in> set (labels is)" for h
    using next_of_prev_from [of 0 "is" h] prev_from_range [of 0 h "is"] labels_ids [OF that] assms(2)
    by (auto simp: m_pNext_def m_pPrev_def wf_code_def)
  with get assms(1,4) show ?thesis
    by (auto simp: import_clause_def wf_clause_def clause_fits_def Let_def simp del: set_map list.set(2) split: sum.splits if_splits)
qed

lemma import_clauses_wf:
  "\<lbrakk>import_clauses table codeSize is cs = Inr ks; wf_code is; ran table \<subseteq> set (labels is); list_all clause_fits cs\<rbrakk> \<Longrightarrow>
   list_all (wf_clause is) ks \<and> length ks = length cs"
proof (induction cs arbitrary: ks)
  case (Cons c cs)
  then obtain k js where "import_clause table codeSize is c = Inr k" "import_clauses table codeSize is cs = Inr js" "ks = k # js"
    by (cases "import_clauses table codeSize is cs") (auto split: sum.splits)
  with Cons import_clause_wf show ?case by auto
qed simp

section \<open>Whole bodies\<close>

lemma word_at_bound: "word_at p n bs < 256 ^ n"
proof -
  have "length (take n (drop p bs)) \<le> n" by simp
  then have "(256 :: nat) ^ length (take n (drop p bs)) \<le> 256 ^ n" by (intro power_increasing) auto
  with le_val_bound [of "take n (drop p bs)"] show ?thesis unfolding word_at_def by linarith
qed

lemma clauses_at_fit:
  "\<lbrakk>clauses_at n len f bs = Some cs; \<And>bs. clause_fits (f bs)\<rbrakk> \<Longrightarrow> list_all clause_fits cs \<and> length cs = n"
  by (induction n arbitrary: bs cs) (auto split: if_splits)

lemma clause_at_fits: "clause_fits (fat_clause_at bs)" "clause_fits (small_clause_at bs)"
proof -
  have four: "word_at p 4 bs < 4294967296" for p using word_at_bound [of p 4 bs] by simp
  have two: "word_at p 2 bs < 4294967296" for p using word_at_bound [of p 2 bs] by simp
  have one: "word_at p 1 bs < 4294967296" for p using word_at_bound [of p 1 bs] by simp
  show "clause_fits (fat_clause_at bs)" using four by (simp add: clause_fits_def fat_clause_at_def)
  show "clause_fits (small_clause_at bs)" using four two one by (simp add: clause_fits_def small_clause_at_def)
qed

lemma SectEH_cases:
  assumes "SectEH bs = Some cs"
  obtains "cs = []" | "clauses_at (word_at 1 3 bs div 24) 24 fat_clause_at (drop 4 bs) = Some cs"
    | "clauses_at (word_at 1 1 bs div 12) 12 small_clause_at (drop 4 bs) = Some cs"
proof -
  let ?Kind = "word_at 0 1 bs"
  have long: "\<not> length bs < 4" using assms unfolding SectEH_def by (metis option.distinct(1))
  consider "?Kind mod 64 \<noteq> CorILMethod_Sect_EHTable" | "?Kind mod 64 = CorILMethod_Sect_EHTable" "?Kind div 64 mod 2 = 1"
    | "?Kind mod 64 = CorILMethod_Sect_EHTable" "?Kind div 64 mod 2 \<noteq> 1" by blast
  then show thesis
  proof cases
    case 1
    then have "SectEH bs = Some []" using long unfolding SectEH_def Let_def by (simp only: if_True if_False not_False_eq_True)
    with assms have "cs = []" by (metis option.inject)
    then show ?thesis by (rule that(1))
  next
    case 2
    then have "SectEH bs = clauses_at (word_at 1 3 bs div 24) 24 fat_clause_at (drop 4 bs)"
      using long unfolding SectEH_def Let_def by (simp only: if_True if_False simp_thms)
    with assms that(2) show ?thesis by metis
  next
    case 3
    then have "SectEH bs = clauses_at (word_at 1 1 bs div 12) 12 small_clause_at (drop 4 bs)"
      using long unfolding SectEH_def Let_def by (simp only: if_True if_False simp_thms)
    with assms that(3) show ?thesis by metis
  qed
qed

lemma SectEH_fit:
  assumes "SectEH bs = Some cs"
  shows "list_all clause_fits cs \<and> length cs \<le> 699050"
proof -
  have le: "word_at 1 3 bs div 24 \<le> 16777215 div 24" "word_at 1 1 bs div 12 \<le> 255 div 12"
    using word_at_bound [of 1 3 bs] word_at_bound [of 1 1 bs] by (intro div_le_mono; simp)+
  from assms show ?thesis
  proof (cases rule: SectEH_cases)
    case 2
    from clauses_at_fit [OF this clause_at_fits(1)] le(1) show ?thesis by simp
  next
    case 3
    from clauses_at_fit [OF this clause_at_fits(2)] le(2) show ?thesis by simp
  qed simp
qed

lemma DecoderInit_fit:
  assumes "DecoderInit bs = Some b"
  shows "list_all clause_fits (EH b)" "4 + 24 * length (EH b) < 2 ^ 24" "LocalVarSigTok b < 2 ^ 32" "length (Code b) \<le> length bs"
proof -
  have "word_at 8 4 bs < 2 ^ 32" using word_at_bound [of 8 4 bs] by simp
  moreover have "EH b = [] \<or> (\<exists>cs. EH b = cs \<and> SectEH (drop (Align (4 * (word_at 0 2 bs div 2 ^ 12) + word_at 4 4 bs)) bs) = Some cs)"
    "LocalVarSigTok b = 0 \<or> LocalVarSigTok b = word_at 8 4 bs" "length (Code b) \<le> length bs"
    using assms by (auto simp: DecoderInit_def Let_def split: if_splits)
  ultimately show "list_all clause_fits (EH b)" "4 + 24 * length (EH b) < 2 ^ 24" "LocalVarSigTok b < 2 ^ 32" "length (Code b) \<le> length bs"
    using SectEH_fit [of "drop (Align (4 * (word_at 0 2 bs div 2 ^ 12) + word_at 4 4 bs)) bs" "EH b"] by auto
qed

lemma Import_wf:
  assumes "Import bs = Inr s"
  shows "wf_rewriter s" "m_nInstrs s \<le> length bs" "\<not> m_fGenerateTinyHeader s"
proof -
  obtain b where b: "DecoderInit bs = Some b" "import_body b = Inr s" using assms by (auto simp: Import_def split: option.splits)
  note d = DecoderInit_fit [OF b(1)]
  define r where "r = ILRewriter_new\<lparr>m_tkLocalVarSig := LocalVarSigTok b, m_maxStack := of_nat (MaxStack b),
    m_flags := (if mb_flags b div 16 mod 2 = 1 then CorILMethod_InitLocals else 0)\<rparr>"
  have r: "m_IL r = []" "m_nInstrs r = 0" "m_EH r = None" by (simp_all add: r_def ILRewriter_new_def)
  obtain q table where q: "ImportIL (Code b) r = Inr (q, table)" "ImportEH table (length (Code b)) (EH b) q = Inr s"
    using b(2) unfolding import_body_def Let_def r_def by (auto split: sum.splits)
  note w = ImportIL_wf [OF q(1) r(1)]
  have eh: "m_EH q = None" using w(5) r(3) by (metis ILRewriter.select_convs(6) ILRewriter.surjective ILRewriter.update_convs(2,5,7))
  have s: "s = q \<and> EH b = [] \<or> (\<exists>ks. s = q\<lparr>m_EH := Some ks\<rparr> \<and> import_clauses table (length (Code b)) (m_IL q) (EH b) = Inr ks)"
    using q(2) eh by (cases "import_clauses table (length (Code b)) (m_IL q) (EH b)") (auto simp: ImportEH_def split: if_splits)
  then have same: "m_IL s = m_IL q" "m_nInstrs s = m_nInstrs q" "m_flags s = m_flags q" "m_tkLocalVarSig s = m_tkLocalVarSig q"
    "m_fGenerateTinyHeader s = m_fGenerateTinyHeader q" by auto
  have cl: "list_all (wf_clause (m_IL q)) (clauses s) \<and> length (clauses s) = length (EH b)"
    using s import_clauses_wf [OF _ w(1,3) d(1)] eh by (auto simp: clauses_def)
  have fields: "m_nInstrs q = length (m_IL q)" "m_flags q = m_flags r" "m_tkLocalVarSig q = m_tkLocalVarSig r"
    "m_fGenerateTinyHeader q = m_fGenerateTinyHeader r" by (subst w(5), simp add: r(2))+
  have ids: "list_all (\<lambda>i. instr_id i \<le> length (m_IL q)) (m_IL q)"
  proof -
    have "set (map instr_id (m_IL q)) = {1..<1 + length (m_IL q)}" unfolding w(4) r(2) by (simp only: set_upt add_0)
    then have "instr_id i < 1 + length (m_IL q)" if "i \<in> set (m_IL q)" for i using that by (metis atLeastLessThan_iff image_eqI set_map)
    then show ?thesis by (simp add: list_all_iff less_Suc_eq_le)
  qed
  show "wf_rewriter s" unfolding wf_rewriter_def same fields using w(1) cl d ids
    by (simp add: r_def format_defs)
  show "m_nInstrs s \<le> length bs" unfolding same fields using w(2) d(4) by simp
  show "\<not> m_fGenerateTinyHeader s" unfolding same fields by (simp add: r_def ILRewriter_new_def)
qed

end
