(* ===== verification/Il_Wrapper.thy ===== *)
theory Il_Wrapper
  imports Il_Imported
begin

text \<open>
  The instructions the instrumentation inserts (\<open>il_rewriter_wrapper.cpp\<close>): a rewriter with a current position, before
  which every operation puts its instruction. A position that was never set is a null pointer, and an operation there has
  no result.
\<close>

section \<open>Operations\<close>

record ILRewriterWrapper =
  m_ILRewriter :: ILRewriter
  m_ILInstr :: "nat option"

definition ILRewriterWrapper_new :: "ILRewriter \<Rightarrow> ILRewriterWrapper" where
  "ILRewriterWrapper_new r = \<lparr>m_ILRewriter = r, m_ILInstr = None\<rparr>"

definition SetILPosition :: "nat \<Rightarrow> ILRewriterWrapper \<Rightarrow> ILRewriterWrapper" where
  "SetILPosition pILInstr w = w\<lparr>m_ILInstr := Some pILInstr\<rparr>"

text \<open>The opcodes used below.\<close>

abbreviation (input) CEE_NOP :: nat where "CEE_NOP \<equiv> 0x00"
abbreviation (input) CEE_LDARG_0 :: nat where "CEE_LDARG_0 \<equiv> 0x02"
abbreviation (input) CEE_LDARG_1 :: nat where "CEE_LDARG_1 \<equiv> 0x03"
abbreviation (input) CEE_LDARG_2 :: nat where "CEE_LDARG_2 \<equiv> 0x04"
abbreviation (input) CEE_LDARG_3 :: nat where "CEE_LDARG_3 \<equiv> 0x05"
abbreviation (input) CEE_LDLOC_0 :: nat where "CEE_LDLOC_0 \<equiv> 0x06"
abbreviation (input) CEE_LDLOC_1 :: nat where "CEE_LDLOC_1 \<equiv> 0x07"
abbreviation (input) CEE_LDLOC_2 :: nat where "CEE_LDLOC_2 \<equiv> 0x08"
abbreviation (input) CEE_LDLOC_3 :: nat where "CEE_LDLOC_3 \<equiv> 0x09"
abbreviation (input) CEE_STLOC_0 :: nat where "CEE_STLOC_0 \<equiv> 0x0A"
abbreviation (input) CEE_STLOC_1 :: nat where "CEE_STLOC_1 \<equiv> 0x0B"
abbreviation (input) CEE_STLOC_2 :: nat where "CEE_STLOC_2 \<equiv> 0x0C"
abbreviation (input) CEE_STLOC_3 :: nat where "CEE_STLOC_3 \<equiv> 0x0D"
abbreviation (input) CEE_LDARG_S :: nat where "CEE_LDARG_S \<equiv> 0x0E"
abbreviation (input) CEE_LDARGA_S :: nat where "CEE_LDARGA_S \<equiv> 0x0F"
abbreviation (input) CEE_LDLOC_S :: nat where "CEE_LDLOC_S \<equiv> 0x11"
abbreviation (input) CEE_LDLOCA_S :: nat where "CEE_LDLOCA_S \<equiv> 0x12"
abbreviation (input) CEE_STLOC_S :: nat where "CEE_STLOC_S \<equiv> 0x13"
abbreviation (input) CEE_LDNULL :: nat where "CEE_LDNULL \<equiv> 0x14"
abbreviation (input) CEE_LDC_I4_0 :: nat where "CEE_LDC_I4_0 \<equiv> 0x16"
abbreviation (input) CEE_LDC_I4_1 :: nat where "CEE_LDC_I4_1 \<equiv> 0x17"
abbreviation (input) CEE_LDC_I4_2 :: nat where "CEE_LDC_I4_2 \<equiv> 0x18"
abbreviation (input) CEE_LDC_I4_3 :: nat where "CEE_LDC_I4_3 \<equiv> 0x19"
abbreviation (input) CEE_LDC_I4_4 :: nat where "CEE_LDC_I4_4 \<equiv> 0x1A"
abbreviation (input) CEE_LDC_I4_5 :: nat where "CEE_LDC_I4_5 \<equiv> 0x1B"
abbreviation (input) CEE_LDC_I4_6 :: nat where "CEE_LDC_I4_6 \<equiv> 0x1C"
abbreviation (input) CEE_LDC_I4_7 :: nat where "CEE_LDC_I4_7 \<equiv> 0x1D"
abbreviation (input) CEE_LDC_I4_8 :: nat where "CEE_LDC_I4_8 \<equiv> 0x1E"
abbreviation (input) CEE_LDC_I4_S :: nat where "CEE_LDC_I4_S \<equiv> 0x1F"
abbreviation (input) CEE_LDC_I4 :: nat where "CEE_LDC_I4 \<equiv> 0x20"
abbreviation (input) CEE_LDC_I8 :: nat where "CEE_LDC_I8 \<equiv> 0x21"
abbreviation (input) CEE_DUP :: nat where "CEE_DUP \<equiv> 0x25"
abbreviation (input) CEE_POP :: nat where "CEE_POP \<equiv> 0x26"
abbreviation (input) CEE_CALL :: nat where "CEE_CALL \<equiv> 0x28"
abbreviation (input) CEE_RET :: nat where "CEE_RET \<equiv> 0x2A"
abbreviation (input) CEE_CALLVIRT :: nat where "CEE_CALLVIRT \<equiv> 0x6F"
abbreviation (input) CEE_LDOBJ :: nat where "CEE_LDOBJ \<equiv> 0x71"
abbreviation (input) CEE_LDSTR :: nat where "CEE_LDSTR \<equiv> 0x72"
abbreviation (input) CEE_CASTCLASS :: nat where "CEE_CASTCLASS \<equiv> 0x74"
abbreviation (input) CEE_LDFLDA :: nat where "CEE_LDFLDA \<equiv> 0x7C"
abbreviation (input) CEE_LDSFLDA :: nat where "CEE_LDSFLDA \<equiv> 0x7F"
abbreviation (input) CEE_BOX :: nat where "CEE_BOX \<equiv> 0x8C"
abbreviation (input) CEE_NEWARR :: nat where "CEE_NEWARR \<equiv> 0x8D"
abbreviation (input) CEE_STELEM_REF :: nat where "CEE_STELEM_REF \<equiv> 0xA2"
abbreviation (input) CEE_UNBOX_ANY :: nat where "CEE_UNBOX_ANY \<equiv> 0xA5"
abbreviation (input) CEE_LDTOKEN :: nat where "CEE_LDTOKEN \<equiv> 0xD0"
abbreviation (input) CEE_ENDFINALLY :: nat where "CEE_ENDFINALLY \<equiv> 0xDC"
abbreviation (input) CEE_LDARG :: nat where "CEE_LDARG \<equiv> 0x109"
abbreviation (input) CEE_LDARGA :: nat where "CEE_LDARGA \<equiv> 0x10A"
abbreviation (input) CEE_LDLOC :: nat where "CEE_LDLOC \<equiv> 0x10C"
abbreviation (input) CEE_LDLOCA :: nat where "CEE_LDLOCA \<equiv> 0x10D"
abbreviation (input) CEE_STLOC :: nat where "CEE_STLOC \<equiv> 0x10E"
abbreviation (input) CEE_INITOBJ :: nat where "CEE_INITOBJ \<equiv> 0x115"
abbreviation (input) CEE_RETHROW :: nat where "CEE_RETHROW \<equiv> 0x11A"

text \<open>The steps all operations share: a new instruction, its fields, its place, and its identity as the result.\<close>

definition insert_new :: "nat \<Rightarrow> nat \<Rightarrow> nat \<Rightarrow> ILRewriterWrapper \<Rightarrow> (nat \<times> ILRewriterWrapper) option" where
  "insert_new opcode arg target w =
     (case m_ILInstr w of
        None \<Rightarrow> None
      | Some pWhere \<Rightarrow>
          let (pNewInstr, r) = NewILInstr (m_ILRewriter w);
              pNewInstr = pNewInstr\<lparr>m_opcode := opcode, m_arg := arg, m_target := target\<rparr>
          in Some (instr_id pNewInstr, w\<lparr>m_ILRewriter := InsertBefore pWhere pNewInstr r\<rparr>))"

text \<open>The bits of a machine integer.\<close>

definition bits :: "nat \<Rightarrow> int \<Rightarrow> nat" where
  "bits n v = nat (v mod 2 ^ n)"

definition Pop where "Pop = insert_new CEE_POP 0 0"
definition LoadNull where "LoadNull = insert_new CEE_LDNULL 0 0"
definition LoadInt64 :: "int \<Rightarrow> ILRewriterWrapper \<Rightarrow> (nat \<times> ILRewriterWrapper) option" where
  "LoadInt64 value = insert_new CEE_LDC_I8 (bits 64 value) 0"

definition LoadInt32 :: "int \<Rightarrow> ILRewriterWrapper \<Rightarrow> (nat \<times> ILRewriterWrapper) option" where
  "LoadInt32 value =
     (if 0 \<le> value \<and> value \<le> 8 then insert_new ([CEE_LDC_I4_0, CEE_LDC_I4_1, CEE_LDC_I4_2, CEE_LDC_I4_3, CEE_LDC_I4_4, CEE_LDC_I4_5, CEE_LDC_I4_6, CEE_LDC_I4_7, CEE_LDC_I4_8] ! nat value) 0 0
      else if - 128 \<le> value \<and> value \<le> 127 then insert_new CEE_LDC_I4_S (bits 8 value) 0
      else insert_new CEE_LDC_I4 (bits 32 value) 0)"

definition LoadArgument :: "nat \<Rightarrow> ILRewriterWrapper \<Rightarrow> (nat \<times> ILRewriterWrapper) option" where
  "LoadArgument index =
     (if index \<le> 3 then insert_new ([CEE_LDARG_0, CEE_LDARG_1, CEE_LDARG_2, CEE_LDARG_3] ! index) 0 0
      else if index \<le> 255 then insert_new CEE_LDARG_S (index mod 2 ^ 8) 0
      else insert_new CEE_LDARG (index mod 2 ^ 16) 0)"

definition LoadArgumentRef :: "nat \<Rightarrow> ILRewriterWrapper \<Rightarrow> (nat \<times> ILRewriterWrapper) option" where
  "LoadArgumentRef index =
     (if index \<le> 255 then insert_new CEE_LDARGA_S (index mod 2 ^ 8) 0 else insert_new CEE_LDARGA (index mod 2 ^ 16) 0)"

definition LoadFieldAddress :: "nat \<Rightarrow> bool \<Rightarrow> ILRewriterWrapper \<Rightarrow> (nat \<times> ILRewriterWrapper) option" where
  "LoadFieldAddress field_def is_static = insert_new (if is_static then CEE_LDSFLDA else CEE_LDFLDA) field_def 0"

definition Cast where "Cast type_ref = insert_new CEE_CASTCLASS type_ref 0"
definition Box where "Box type_ref = insert_new CEE_BOX type_ref 0"
definition UnboxAny where "UnboxAny type_ref = insert_new CEE_UNBOX_ANY type_ref 0"

definition UnboxAnyAfter :: "nat \<Rightarrow> ILRewriterWrapper \<Rightarrow> (nat \<times> ILRewriterWrapper) option" where
  "UnboxAnyAfter type_ref w =
     (case m_ILInstr w of
        None \<Rightarrow> None
      | Some pWhere \<Rightarrow>
          let (pNewInstr, r) = NewILInstr (m_ILRewriter w);
              pNewInstr = pNewInstr\<lparr>m_opcode := CEE_UNBOX_ANY, m_arg := type_ref\<rparr>
          in Some (instr_id pNewInstr, w\<lparr>m_ILRewriter := InsertAfter pWhere pNewInstr r\<rparr>))"

text \<open>One operation after another.\<close>

definition then_op :: "(ILRewriterWrapper \<Rightarrow> (nat \<times> ILRewriterWrapper) option) \<Rightarrow>
    (ILRewriterWrapper \<Rightarrow> (nat \<times> ILRewriterWrapper) option) \<Rightarrow> ILRewriterWrapper \<Rightarrow> (nat \<times> ILRewriterWrapper) option" where
  "then_op f g w = (case f w of None \<Rightarrow> None | Some (_, w) \<Rightarrow> g w)"

definition CreateArray where "CreateArray type_ref n = then_op (LoadInt32 n) (insert_new CEE_NEWARR type_ref 0)"
definition CallMember where "CallMember member_ref is_virtual = insert_new (if is_virtual then CEE_CALLVIRT else CEE_CALL) member_ref 0"
definition Duplicate where "Duplicate = insert_new CEE_DUP 0 0"
definition BeginLoadValueIntoArray where "BeginLoadValueIntoArray arrayIndex = then_op Duplicate (LoadInt32 arrayIndex)"
definition EndLoadValueIntoArray where "EndLoadValueIntoArray = insert_new CEE_STELEM_REF 0 0"
definition LoadToken where "LoadToken token = insert_new CEE_LDTOKEN token 0"
definition LoadObj where "LoadObj token = insert_new CEE_LDOBJ token 0"
definition LoadStr where "LoadStr token = insert_new CEE_LDSTR token 0"

definition StLocal :: "nat \<Rightarrow> ILRewriterWrapper \<Rightarrow> (nat \<times> ILRewriterWrapper) option" where
  "StLocal index =
     (if index \<le> 3 then insert_new ([CEE_STLOC_0, CEE_STLOC_1, CEE_STLOC_2, CEE_STLOC_3] ! index) 0 0
      else if index \<le> 255 then insert_new CEE_STLOC_S (index mod 2 ^ 8) 0
      else insert_new CEE_STLOC (index mod 2 ^ 16) 0)"

definition LoadLocal :: "nat \<Rightarrow> ILRewriterWrapper \<Rightarrow> (nat \<times> ILRewriterWrapper) option" where
  "LoadLocal index =
     (if index \<le> 3 then insert_new ([CEE_LDLOC_0, CEE_LDLOC_1, CEE_LDLOC_2, CEE_LDLOC_3] ! index) 0 0
      else if index \<le> 255 then insert_new CEE_LDLOC_S (index mod 2 ^ 8) 0
      else insert_new CEE_LDLOC (index mod 2 ^ 16) 0)"

definition LoadLocalAddress :: "nat \<Rightarrow> ILRewriterWrapper \<Rightarrow> (nat \<times> ILRewriterWrapper) option" where
  "LoadLocalAddress index =
     (if index \<le> 255 then insert_new CEE_LDLOCA_S (index mod 2 ^ 8) 0 else insert_new CEE_LDLOCA (index mod 2 ^ 16) 0)"

definition Return where "Return = insert_new CEE_RET 0 0"
definition Rethrow where "Rethrow = insert_new CEE_RETHROW 0 0"
definition EndFinally where "EndFinally = insert_new CEE_ENDFINALLY 0 0"
definition NOP where "NOP = insert_new CEE_NOP 0 0"
definition CreateInstr where "CreateInstr opCode = insert_new opCode 0 0"
definition CreateInstr_arg where "CreateInstr_arg opCode arg = insert_new opCode arg 0"
definition CreateInstr_target where "CreateInstr_target opCode target = insert_new opCode 0 target"
definition InitObj where "InitObj type_ref = insert_new CEE_INITOBJ type_ref 0"

text \<open>Every call of one method becomes a call of another; the result tells whether there was one.\<close>

definition calls :: "nat \<Rightarrow> il_instr \<Rightarrow> bool" where
  "calls method_ref i \<longleftrightarrow> (m_opcode i = CEE_CALL \<or> m_opcode i = CEE_CALLVIRT) \<and> m_arg i mod 2 ^ 32 = method_ref mod 2 ^ 32"

definition ReplaceMethodCalls :: "nat \<Rightarrow> nat \<Rightarrow> ILRewriterWrapper \<Rightarrow> bool \<times> ILRewriterWrapper" where
  "ReplaceMethodCalls old_method_ref new_method_ref w =
     (list_ex (calls old_method_ref) (m_IL (m_ILRewriter w)),
      w\<lparr>m_ILRewriter := (m_ILRewriter w)\<lparr>m_IL :=
        map (\<lambda>i. if calls old_method_ref i then i\<lparr>m_opcode := CEE_CALL, m_arg := new_method_ref mod 2 ^ 32\<rparr> else i)
          (m_IL (m_ILRewriter w))\<rparr>\<rparr>)"

section \<open>Insertion keeps the invariant\<close>

lemma well_switched_append: "well_switched n xs \<Longrightarrow> well_switched n (xs @ ys) = well_switched 0 ys"
  by (induction n xs rule: well_switched.induct) (auto split: if_splits)

lemma well_switched_cut:
  "\<lbrakk>well_switched n (xs @ ys); ys = [] \<or> \<not> is_arg (hd ys)\<rbrakk> \<Longrightarrow> well_switched n xs \<and> well_switched 0 ys"
proof (induction xs arbitrary: n)
  case Nil
  then have "n = 0" by (cases ys) (auto split: if_splits)
  with Nil show ?case by simp
qed (auto split: if_splits)

lemma next_from_insert:
  "h \<noteq> instr_id i \<Longrightarrow> next_from b h (xs @ i # ys) = next_from b h (xs @ ys) \<or> next_from b h (xs @ i # ys) = instr_id i"
proof (induction xs arbitrary: b)
  case Nil
  then show ?case by (cases ys) auto
qed auto

text \<open>An instruction that may be inserted: any but a switch and its arguments, with a target in the list if it branches.\<close>

definition insertable :: "ILRewriter \<Rightarrow> il_instr \<Rightarrow> bool" where
  "insertable r i \<longleftrightarrow> plain_opcode (m_opcode i) \<and> m_opcode i \<noteq> CEE_SWITCH \<and> (is_branch i \<longrightarrow> m_target i \<in> set (labels (m_IL r)))"

lemma insert_wf:
  assumes r: "wf_rewriter r" and split: "m_IL r = xs @ ys" and cut: "ys = [] \<or> \<not> is_arg (hd ys)"
    and i: "insertable r i" "instr_id i = m_nInstrs r + 1"
  shows "wf_rewriter (r\<lparr>m_IL := xs @ i # ys, m_nInstrs := m_nInstrs r + 1, m_maxStack := d\<rparr>)" (is "wf_rewriter ?s")
    and "set (labels (m_IL r)) \<subseteq> set (labels (xs @ i # ys))"
proof -
  have arg: "\<not> is_arg i" using i(1) plain_opcode_facts(3) by (auto simp: insertable_def is_arg_def)
  show sub: "set (labels (m_IL r)) \<subseteq> set (labels (xs @ i # ys))" by (auto simp: labels_def split)
  have new: "instr_id i \<in> set (labels (xs @ i # ys))" using arg by (simp add: labels_def)
  have old: "list_all (\<lambda>j. instr_id j \<le> m_nInstrs r) (xs @ ys)" using r split by (simp add: wf_rewriter_def)
  have fresh: "instr_id i \<notin> set (map instr_id (xs @ ys))" using old i(2) by (force simp: list_all_iff)
  have "wf_code (xs @ ys)" using r split by (simp add: wf_rewriter_def)
  note c = this [unfolded wf_code_def]
  have "well_switched 0 (xs @ i # ys)"
    using well_switched_cut [of 0 xs ys] c cut i(1) by (auto simp: well_switched_append insertable_def)
  moreover have "distinct (map instr_id (xs @ i # ys))" "0 \<notin> set (map instr_id (xs @ i # ys))" using c fresh i(2) by auto
  moreover have "list_all (\<lambda>j. is_branch j \<longrightarrow> m_target j \<in> set (labels (xs @ i # ys))) (xs @ i # ys)"
    using c i(1) sub unfolding insertable_def split list_all_iff by auto
  ultimately have "wf_code (xs @ i # ys)" by (simp add: wf_code_def)
  moreover have "wf_clause (xs @ i # ys) k" if "wf_clause (xs @ ys) k" for k
  proof -
    have "instr_id i \<notin> set (0 # map instr_id (xs @ ys))" using fresh i(2) by simp
    then have "m_pHandlerEnd k \<noteq> instr_id i" using that unfolding wf_clause_def by metis
    then have "m_pNext (m_pHandlerEnd k) (xs @ i # ys) \<in> set (labels (xs @ i # ys))"
      using that next_from_insert [of "m_pHandlerEnd k" i 0 xs ys] new sub [unfolded split]
      by (auto simp: wf_clause_def m_pNext_def)
    moreover have "set (0 # map instr_id (xs @ ys)) \<subseteq> set (0 # map instr_id (xs @ i # ys))" by auto
    ultimately show ?thesis using that sub [unfolded split] unfolding wf_clause_def by (meson subsetD)
  qed
  ultimately show "wf_rewriter ?s" using r old i(2) unfolding wf_rewriter_def clauses_def
    by (auto simp: split list_all_iff intro: le_SucI)
qed

text \<open>Where an instruction lands.\<close>

lemma insert_before_split:
  "w \<in> set (map instr_id is) \<Longrightarrow> \<exists>xs y ys. is = xs @ y # ys \<and> instr_id y = w \<and> insert_before w i is = xs @ i # y # ys"
proof (induction "is")
  case (Cons x xs)
  show ?case
  proof (cases "instr_id x = w")
    case True
    then show ?thesis by (intro exI [of _ "[]"]) simp
  next
    case False
    with Cons obtain as y ys where "xs = as @ y # ys" "instr_id y = w" "insert_before w i xs = as @ i # y # ys" by auto
    with False show ?thesis by (intro exI [of _ "x # as"]) simp
  qed
qed simp

lemma label_not_arg:
  assumes "distinct (map instr_id (xs @ y # ys))" "0 \<notin> set (map instr_id (xs @ y # ys))" "instr_id y \<in> set (labels (xs @ y # ys))"
  shows "\<not> is_arg y"
  using assms by (force simp: labels_def)

lemma InsertBefore_split:
  assumes "wf_code (m_IL r)" "w \<in> set (labels (m_IL r))"
  obtains xs ys where "m_IL r = xs @ ys" "ys = [] \<or> \<not> is_arg (hd ys)" "InsertBefore w i r = AdjustState i (r\<lparr>m_IL := xs @ i # ys\<rparr>)"
proof (cases "w = 0")
  case True
  then show ?thesis using that [of "m_IL r" "[]"] by (simp add: InsertBefore_def)
next
  case False
  then have "w \<in> set (map instr_id (m_IL r))" using labels_ids [OF assms(2)] by (metis set_ConsD)
  then obtain xs y ys where y: "m_IL r = xs @ y # ys" "instr_id y = w" "insert_before w i (m_IL r) = xs @ i # y # ys"
    using insert_before_split by blast
  then have "\<not> is_arg y" using assms label_not_arg [of xs y ys] by (simp add: wf_code_def)
  then show ?thesis using that [of xs "y # ys"] y False by (simp add: InsertBefore_def)
qed

lemma insert_after_split:
  "\<lbrakk>w \<in> set (map instr_id is); distinct (b # map instr_id is)\<rbrakk> \<Longrightarrow>
   \<exists>xs ys. is = xs @ ys \<and> insert_after w i is = xs @ i # ys \<and> next_from b w is = (case ys of [] \<Rightarrow> 0 | y # _ \<Rightarrow> instr_id y)"
proof (induction "is" arbitrary: b)
  case (Cons x xs)
  show ?case
  proof (cases "instr_id x = w")
    case True
    have "next_from w w xs = (case xs of [] \<Rightarrow> 0 | y # _ \<Rightarrow> instr_id y)" by (cases xs) auto
    with True Cons.prems show ?thesis by (intro exI [of _ "[x]"] exI [of _ xs]) auto
  next
    case False
    then have w: "w \<in> set (map instr_id xs)" "b \<noteq> w" using Cons.prems by auto
    with Cons obtain as ys where "xs = as @ ys" "insert_after w i xs = as @ i # ys"
      "next_from (instr_id x) w xs = (case ys of [] \<Rightarrow> 0 | y # _ \<Rightarrow> instr_id y)" by (metis distinct.simps(2) list.simps(9))
    with False w show ?thesis by (intro exI [of _ "x # as"] exI [of _ ys]) simp
  qed
qed simp

lemma InsertAfter_split:
  assumes "wf_code (m_IL r)" "w \<in> set (0 # map instr_id (m_IL r))" "m_pNext w (m_IL r) \<in> set (labels (m_IL r))"
  obtains xs ys where "m_IL r = xs @ ys" "ys = [] \<or> \<not> is_arg (hd ys)" "InsertAfter w i r = AdjustState i (r\<lparr>m_IL := xs @ i # ys\<rparr>)"
proof -
  obtain xs ys where s: "m_IL r = xs @ ys" "InsertAfter w i r = AdjustState i (r\<lparr>m_IL := xs @ i # ys\<rparr>)"
    "m_pNext w (m_IL r) = (case ys of [] \<Rightarrow> 0 | y # _ \<Rightarrow> instr_id y)"
  proof (cases "w = 0")
    case True
    then show ?thesis using that [of "[]" "m_IL r"] by (cases "m_IL r") (auto simp: InsertAfter_def m_pNext_def)
  next
    case False
    then have "w \<in> set (map instr_id (m_IL r))" using assms(2) by (metis set_ConsD)
    with insert_after_split [of w "m_IL r" 0 i] assms(1) obtain xs ys where "m_IL r = xs @ ys"
      "insert_after w i (m_IL r) = xs @ i # ys" "next_from 0 w (m_IL r) = (case ys of [] \<Rightarrow> 0 | y # _ \<Rightarrow> instr_id y)"
      unfolding wf_code_def by (metis distinct.simps(2))
    with False that show ?thesis by (simp add: InsertAfter_def m_pNext_def)
  qed
  have "\<not> is_arg y" if "ys = y # zs" for y zs
    using assms(1,3) s(1,3) that label_not_arg [of xs y zs] by (simp add: wf_code_def)
  then have "ys = [] \<or> \<not> is_arg (hd ys)" by (cases ys) auto
  with s that show ?thesis by blast
qed

section \<open>Every operation keeps the invariant\<close>

text \<open>The position is a boundary between instructions.\<close>

definition wf_wrapper :: "ILRewriterWrapper \<Rightarrow> bool" where
  "wf_wrapper w \<longleftrightarrow> wf_rewriter (m_ILRewriter w) \<and>
     (case m_ILInstr w of None \<Rightarrow> True | Some p \<Rightarrow> p \<in> set (labels (m_IL (m_ILRewriter w))))"

text \<open>What an operation may do: add one instruction, which is new.\<close>

definition inserted :: "ILRewriter \<Rightarrow> nat \<Rightarrow> nat \<Rightarrow> nat \<Rightarrow> ILRewriter \<Rightarrow> bool" where
  "inserted r opcode arg target r' \<longleftrightarrow> (\<exists>xs ys d. m_IL r = xs @ ys \<and>
     r' = r\<lparr>m_IL := xs @ \<lparr>instr_id = m_nInstrs r + 1, m_opcode = opcode, m_arg = arg, m_target = target\<rparr> # ys,
       m_nInstrs := m_nInstrs r + 1, m_maxStack := d\<rparr>)"

lemma insert_new_wf:
  assumes w: "wf_wrapper w" "insert_new opcode arg target w = Some (n, w')" and op: "plain_opcode opcode" "opcode \<noteq> CEE_SWITCH"
    and t: "OPCODEFLAGS_BranchTarget (op_flags opcode) \<Longrightarrow> target \<in> set (labels (m_IL (m_ILRewriter w)))"
  shows "wf_wrapper w'" "inserted (m_ILRewriter w) opcode arg target (m_ILRewriter w')" "m_ILInstr w' = m_ILInstr w"
    "n \<in> set (labels (m_IL (m_ILRewriter w')))"
proof -
  define r where "r = m_ILRewriter w"
  define i where "i = \<lparr>instr_id = m_nInstrs r + 1, m_opcode = opcode, m_arg = arg, m_target = target\<rparr>"
  have r: "wf_rewriter r" using w(1) by (simp add: r_def wf_wrapper_def)
  obtain p where p: "m_ILInstr w = Some p" using w(2) by (auto simp: insert_new_def split: option.splits)
  have w': "w' = w\<lparr>m_ILRewriter := InsertBefore p i (r\<lparr>m_nInstrs := m_nInstrs r + 1\<rparr>)\<rparr>" "n = m_nInstrs r + 1"
    using w(2) p by (auto simp: insert_new_def NewILInstr_def r_def i_def)
  have "p \<in> set (labels (m_IL r))" "wf_code (m_IL r)" using w(1) p r by (simp_all add: wf_wrapper_def r_def wf_rewriter_def)
  then obtain xs ys where s: "m_IL r = xs @ ys" "ys = [] \<or> \<not> is_arg (hd ys)"
    "InsertBefore p i (r\<lparr>m_nInstrs := m_nInstrs r + 1\<rparr>) = AdjustState i (r\<lparr>m_nInstrs := m_nInstrs r + 1, m_IL := xs @ i # ys\<rparr>)"
    using InsertBefore_split [of "r\<lparr>m_nInstrs := m_nInstrs r + 1\<rparr>" p i] by auto
  have i: "insertable r i" "instr_id i = m_nInstrs r + 1" using op t by (simp_all add: insertable_def i_def is_branch_def r_def)
  have w'': "m_ILRewriter w' = r\<lparr>m_IL := xs @ i # ys, m_nInstrs := m_nInstrs r + 1,
      m_maxStack := m_maxStack r + of_nat (k_rgnStackPushes ! m_opcode i)\<rparr>" "m_ILInstr w' = Some p"
    using w'(1) s(3) p by (cases r; simp add: AdjustState_def)+
  note wf = insert_wf [OF r s(1,2) i]
  have arg: "\<not> is_arg i" using op(1) plain_opcode_facts(3) by (auto simp: is_arg_def i_def)
  show "wf_wrapper w'" unfolding wf_wrapper_def w'' using wf \<open>p \<in> set (labels (m_IL r))\<close> by auto
  show "inserted (m_ILRewriter w) opcode arg target (m_ILRewriter w')"
    unfolding w'' r_def [symmetric] inserted_def using s(1) i_def by blast
  show "m_ILInstr w' = m_ILInstr w" using w'' p by simp
  show "n \<in> set (labels (m_IL (m_ILRewriter w')))" unfolding w'' w'(2) using arg i(2) by (simp add: labels_def)
qed

end
