(* ===== verification/Il_Rewriting.thy ===== *)
theory Il_Rewriting
  imports Il_Wrapper
begin

text \<open>
  A method is rewritten by importing its body, any sequence of operations of the wrapper and the rewriter, and an export.
  The invariant of the rewriter holds throughout, so the export succeeds within its buffer, after a bounded number of
  rounds, and its bytes are the rewritten method.
\<close>

section \<open>Simple operations\<close>

definition simple_opcode :: "nat \<Rightarrow> bool" where
  "simple_opcode opcode \<longleftrightarrow> plain_opcode opcode \<and> opcode \<noteq> CEE_SWITCH \<and> \<not> OPCODEFLAGS_BranchTarget (op_flags opcode)"

lemma wrapper_opcodes: "list_all simple_opcode
  [0x00, 0x02, 0x03, 0x04, 0x05, 0x06, 0x07, 0x08, 0x09, 0x0A, 0x0B, 0x0C, 0x0D, 0x0E, 0x0F, 0x11, 0x12, 0x13, 0x14, 0x16, 0x17,
   0x18, 0x19, 0x1A, 0x1B, 0x1C, 0x1D, 0x1E, 0x1F, 0x20, 0x21, 0x25, 0x26, 0x28, 0x2A, 0x6F, 0x71, 0x72, 0x74, 0x7C, 0x7F, 0x8C,
   0x8D, 0xA2, 0xA5, 0xD0, 0xDC, 0x109, 0x10A, 0x10C, 0x10D, 0x10E, 0x115, 0x11A]"
  by code_simp

definition keeps :: "(ILRewriterWrapper \<Rightarrow> (nat \<times> ILRewriterWrapper) option) \<Rightarrow> bool" where
  "keeps f \<longleftrightarrow> (\<forall>w n w'. wf_wrapper w \<longrightarrow> f w = Some (n, w') \<longrightarrow>
     wf_wrapper w' \<and> m_fGenerateTinyHeader (m_ILRewriter w') = m_fGenerateTinyHeader (m_ILRewriter w))"

lemma keeps_insert [intro]: "simple_opcode opcode \<Longrightarrow> keeps (insert_new opcode arg target)"
proof -
  assume "simple_opcode opcode"
  moreover have "inserted r opcode arg target s \<Longrightarrow> m_fGenerateTinyHeader s = m_fGenerateTinyHeader r" for r s
    by (auto simp: inserted_def)
  ultimately show ?thesis unfolding keeps_def simple_opcode_def by (blast dest: insert_new_wf)
qed

lemma keeps_then [intro]:
  assumes "keeps f" "keeps g"
  shows "keeps (then_op f g)"
  unfolding keeps_def
proof (intro allI impI)
  fix w n w'
  assume w: "wf_wrapper w" "then_op f g w = Some (n, w')"
  then obtain m v where "f w = Some (m, v)" "g v = Some (n, w')" by (auto simp: then_op_def split: option.splits)
  with w(1) assms show "wf_wrapper w' \<and> m_fGenerateTinyHeader (m_ILRewriter w') = m_fGenerateTinyHeader (m_ILRewriter w)"
    unfolding keeps_def by metis
qed

lemma keeps_if [intro]: "\<lbrakk>b \<Longrightarrow> keeps f; \<not> b \<Longrightarrow> keeps g\<rbrakk> \<Longrightarrow> keeps (if b then f else g)"
  by simp

lemma keeps_nth: "\<lbrakk>list_all simple_opcode ops; k < length ops\<rbrakk> \<Longrightarrow> keeps (insert_new (ops ! k) arg target)"
  by (auto simp: list_all_length)

lemmas simple_ops = Pop_def LoadNull_def LoadInt64_def LoadArgumentRef_def LoadFieldAddress_def Cast_def Box_def UnboxAny_def
  CallMember_def Duplicate_def EndLoadValueIntoArray_def LoadToken_def LoadObj_def LoadStr_def LoadLocalAddress_def Return_def
  Rethrow_def EndFinally_def NOP_def InitObj_def

lemma keeps_simple:
  "keeps Pop" "keeps LoadNull" "keeps (LoadInt64 v)" "keeps (LoadArgumentRef k)" "keeps (LoadFieldAddress t b)" "keeps (Cast t)"
  "keeps (Box t)" "keeps (UnboxAny t)" "keeps (CallMember t b)" "keeps Duplicate" "keeps EndLoadValueIntoArray" "keeps (LoadToken t)"
  "keeps (LoadObj t)" "keeps (LoadStr t)" "keeps (LoadLocalAddress k)" "keeps Return" "keeps Rethrow" "keeps EndFinally" "keeps NOP"
  "keeps (InitObj t)"
  using wrapper_opcodes by (auto simp: simple_ops)

lemma keeps_short_forms: "keeps (LoadInt32 v)" "keeps (LoadArgument k)" "keeps (StLocal k)" "keeps (LoadLocal k)"
proof -
  have *: "list_all simple_opcode [0x16, 0x17, 0x18, 0x19, 0x1A, 0x1B, 0x1C, 0x1D, 0x1E]" "list_all simple_opcode [0x02, 0x03, 0x04, 0x05]"
    "list_all simple_opcode [0x0A, 0x0B, 0x0C, 0x0D]" "list_all simple_opcode [0x06, 0x07, 0x08, 0x09]"
    "simple_opcode 0x1F" "simple_opcode 0x20" "simple_opcode 0x0E" "simple_opcode 0x109" "simple_opcode 0x13" "simple_opcode 0x10E"
    "simple_opcode 0x11" "simple_opcode 0x10C" using wrapper_opcodes by simp_all
  show "keeps (LoadInt32 v)" unfolding LoadInt32_def by (intro keeps_if keeps_insert keeps_nth *) auto
  show "keeps (LoadArgument k)" unfolding LoadArgument_def by (intro keeps_if keeps_insert keeps_nth *) auto
  show "keeps (StLocal k)" unfolding StLocal_def by (intro keeps_if keeps_insert keeps_nth *) auto
  show "keeps (LoadLocal k)" unfolding LoadLocal_def by (intro keeps_if keeps_insert keeps_nth *) auto
qed

lemma keeps_arrays: "keeps (CreateArray t n)" "keeps (BeginLoadValueIntoArray k)"
  unfolding CreateArray_def BeginLoadValueIntoArray_def using wrapper_opcodes by (auto intro: keeps_short_forms keeps_simple)

section \<open>The other operations\<close>

lemma UnboxAnyAfter_keeps:
  assumes w: "wf_wrapper w" "UnboxAnyAfter t w = Some (n, w')" "m_ILInstr w = Some p" "m_pNext p (m_IL (m_ILRewriter w)) \<in> set (labels (m_IL (m_ILRewriter w)))"
  shows "wf_wrapper w' \<and> m_fGenerateTinyHeader (m_ILRewriter w') = m_fGenerateTinyHeader (m_ILRewriter w)"
proof -
  define r where "r = m_ILRewriter w"
  define i where "i = \<lparr>instr_id = m_nInstrs r + 1, m_opcode = 0xA5, m_arg = t, m_target = 0\<rparr>"
  have r: "wf_rewriter r" using w(1) by (simp add: r_def wf_wrapper_def)
  have w': "w' = w\<lparr>m_ILRewriter := InsertAfter p i (r\<lparr>m_nInstrs := m_nInstrs r + 1\<rparr>)\<rparr>"
    using w(2,3) by (auto simp: UnboxAnyAfter_def NewILInstr_def r_def i_def)
  have p: "p \<in> set (labels (m_IL r))" "wf_code (m_IL r)" using w(1,3) r by (simp_all add: wf_wrapper_def r_def wf_rewriter_def)
  obtain xs ys where s: "m_IL r = xs @ ys" "ys = [] \<or> \<not> is_arg (hd ys)"
    "InsertAfter p i (r\<lparr>m_nInstrs := m_nInstrs r + 1\<rparr>) = AdjustState i (r\<lparr>m_nInstrs := m_nInstrs r + 1, m_IL := xs @ i # ys\<rparr>)"
    using InsertAfter_split [of "r\<lparr>m_nInstrs := m_nInstrs r + 1\<rparr>" p i] p(2) labels_ids [OF p(1)] w(4) by (auto simp: r_def)
  have "simple_opcode 0xA5" using wrapper_opcodes by simp
  then have i: "insertable r i" "instr_id i = m_nInstrs r + 1" by (simp_all add: insertable_def i_def is_branch_def simple_opcode_def)
  have w'': "m_ILRewriter w' = r\<lparr>m_IL := xs @ i # ys, m_nInstrs := m_nInstrs r + 1,
      m_maxStack := m_maxStack r + of_nat (k_rgnStackPushes ! m_opcode i)\<rparr>" "m_ILInstr w' = Some p"
    using w' s(3) w(3) by (cases r; simp add: AdjustState_def)+
  show ?thesis unfolding wf_wrapper_def w'' using insert_wf [OF r s(1,2) i] p(1) by (auto simp: r_def)
qed

lemma replaced_same:
  assumes "calls t i"
  shows "is_arg (i\<lparr>m_opcode := 0x28, m_arg := a\<rparr>) = is_arg i" "is_branch (i\<lparr>m_opcode := 0x28, m_arg := a\<rparr>) = is_branch i"
    "plain_opcode 0x28 = plain_opcode (m_opcode i)" "m_opcode i \<noteq> CEE_SWITCH" "(0x28 :: nat) \<noteq> CEE_SWITCH"
proof -
  have *: "simple_opcode 0x28" "simple_opcode 0x6F" using wrapper_opcodes by simp_all
  have "simple_opcode (m_opcode i)" using assms * by (auto simp: calls_def)
  with * show "is_arg (i\<lparr>m_opcode := 0x28, m_arg := a\<rparr>) = is_arg i" "is_branch (i\<lparr>m_opcode := 0x28, m_arg := a\<rparr>) = is_branch i"
    "plain_opcode 0x28 = plain_opcode (m_opcode i)" "m_opcode i \<noteq> CEE_SWITCH" "(0x28 :: nat) \<noteq> CEE_SWITCH"
    using plain_opcode_facts(3) by (auto simp: is_arg_def is_branch_def simple_opcode_def)
qed

lemma replaced_list:
  fixes t a :: nat and xs :: "il_instr list"
  defines "js \<equiv> map (\<lambda>i. if calls t i then i\<lparr>m_opcode := 0x28, m_arg := a\<rparr> else i) xs"
  shows "map instr_id js = map instr_id xs" "labels js = labels xs" "well_switched n js = well_switched n xs"
    "list_all (\<lambda>i. is_branch i \<longrightarrow> m_target i \<in> L) js = list_all (\<lambda>i. is_branch i \<longrightarrow> m_target i \<in> L) xs"
proof -
  show "map instr_id js = map instr_id xs" unfolding js_def by (induction xs) auto
  show "labels js = labels xs" unfolding labels_def js_def by (induction xs) (auto simp: replaced_same)
  show "well_switched n js = well_switched n xs" unfolding js_def
    by (induction n xs rule: well_switched.induct) (auto simp: replaced_same)
  show "list_all (\<lambda>i. is_branch i \<longrightarrow> m_target i \<in> L) js = list_all (\<lambda>i. is_branch i \<longrightarrow> m_target i \<in> L) xs"
    unfolding js_def by (induction xs) (auto simp: replaced_same)
qed

lemma ReplaceMethodCalls_keeps:
  assumes "wf_wrapper w" "ReplaceMethodCalls t u w = (m, w')"
  shows "wf_wrapper w' \<and> m_fGenerateTinyHeader (m_ILRewriter w') = m_fGenerateTinyHeader (m_ILRewriter w)"
proof -
  let ?is = "m_IL (m_ILRewriter w)" and ?js = "m_IL (m_ILRewriter w')"
  have js: "?js = map (\<lambda>i. if calls t i then i\<lparr>m_opcode := 0x28, m_arg := u mod 2 ^ 32\<rparr> else i) ?is"
    "m_ILRewriter w' = (m_ILRewriter w)\<lparr>m_IL := ?js\<rparr>" "m_ILInstr w' = m_ILInstr w" using assms(2) by (auto simp: ReplaceMethodCalls_def)
  note l = replaced_list [where t = t and a = "u mod 2 ^ 32" and xs = ?is, folded js(1)]
  have "m_pNext h ?js = m_pNext h ?is" for h using next_from_ids [OF l(1)] by (simp add: m_pNext_def)
  then have "wf_clause ?js = wf_clause ?is" using l(1,2) by (intro ext) (simp add: wf_clause_def del: set_map)
  moreover have "wf_code ?js = wf_code ?is" using l by (simp add: wf_code_def del: set_map)
  moreover have "list_all (\<lambda>i. instr_id i \<le> n) ?js = list_all (\<lambda>i. instr_id i \<le> n) ?is" for n
    using arg_cong [OF l(1), of "list_all (\<lambda>k. k \<le> n)"] by (simp add: list.pred_map o_def)
  moreover have "length ?js = length ?is" unfolding js(1) by simp
  ultimately have "wf_rewriter ((m_ILRewriter w)\<lparr>m_IL := ?js\<rparr>)"
    using assms(1) by (simp add: wf_wrapper_def wf_rewriter_def clauses_def)
  then have "wf_rewriter (m_ILRewriter w')" by (subst js(2))
  moreover have "m_fGenerateTinyHeader (m_ILRewriter w') = m_fGenerateTinyHeader (m_ILRewriter w)" by (subst js(2)) simp
  ultimately show ?thesis using assms(1) l(2) by (simp add: wf_wrapper_def js(3) split: option.splits)
qed

section \<open>Rewriting a method\<close>

text \<open>
  The steps of the instrumentation. The position is set to an instruction of the list (or its end), instructions made from an
  opcode are no switches and branch to instructions of the list, and clauses refer to the list.
\<close>

inductive rewrite_step :: "ILRewriterWrapper \<Rightarrow> ILRewriterWrapper \<Rightarrow> bool" where
  "p \<in> set (labels (m_IL (m_ILRewriter w))) \<Longrightarrow> rewrite_step w (SetILPosition p w)"
| "Pop w = Some (n, w') \<Longrightarrow> rewrite_step w w'"
| "LoadNull w = Some (n, w') \<Longrightarrow> rewrite_step w w'"
| "LoadInt64 v w = Some (n, w') \<Longrightarrow> rewrite_step w w'"
| "LoadInt32 v w = Some (n, w') \<Longrightarrow> rewrite_step w w'"
| "LoadArgument k w = Some (n, w') \<Longrightarrow> rewrite_step w w'"
| "LoadArgumentRef k w = Some (n, w') \<Longrightarrow> rewrite_step w w'"
| "LoadFieldAddress t b w = Some (n, w') \<Longrightarrow> rewrite_step w w'"
| "Cast t w = Some (n, w') \<Longrightarrow> rewrite_step w w'"
| "Box t w = Some (n, w') \<Longrightarrow> rewrite_step w w'"
| "UnboxAny t w = Some (n, w') \<Longrightarrow> rewrite_step w w'"
| "\<lbrakk>UnboxAnyAfter t w = Some (n, w'); m_ILInstr w = Some p; m_pNext p (m_IL (m_ILRewriter w)) \<in> set (labels (m_IL (m_ILRewriter w)))\<rbrakk>
     \<Longrightarrow> rewrite_step w w'"
| "CreateArray t v w = Some (n, w') \<Longrightarrow> rewrite_step w w'"
| "CallMember t b w = Some (n, w') \<Longrightarrow> rewrite_step w w'"
| "Duplicate w = Some (n, w') \<Longrightarrow> rewrite_step w w'"
| "BeginLoadValueIntoArray v w = Some (n, w') \<Longrightarrow> rewrite_step w w'"
| "EndLoadValueIntoArray w = Some (n, w') \<Longrightarrow> rewrite_step w w'"
| "ReplaceMethodCalls t u w = (b, w') \<Longrightarrow> rewrite_step w w'"
| "LoadToken t w = Some (n, w') \<Longrightarrow> rewrite_step w w'"
| "LoadObj t w = Some (n, w') \<Longrightarrow> rewrite_step w w'"
| "LoadStr t w = Some (n, w') \<Longrightarrow> rewrite_step w w'"
| "StLocal k w = Some (n, w') \<Longrightarrow> rewrite_step w w'"
| "LoadLocal k w = Some (n, w') \<Longrightarrow> rewrite_step w w'"
| "LoadLocalAddress k w = Some (n, w') \<Longrightarrow> rewrite_step w w'"
| "Return w = Some (n, w') \<Longrightarrow> rewrite_step w w'"
| "Rethrow w = Some (n, w') \<Longrightarrow> rewrite_step w w'"
| "EndFinally w = Some (n, w') \<Longrightarrow> rewrite_step w w'"
| "NOP w = Some (n, w') \<Longrightarrow> rewrite_step w w'"
| "\<lbrakk>CreateInstr opcode w = Some (n, w'); simple_opcode opcode\<rbrakk> \<Longrightarrow> rewrite_step w w'"
| "\<lbrakk>CreateInstr_arg opcode arg w = Some (n, w'); simple_opcode opcode\<rbrakk> \<Longrightarrow> rewrite_step w w'"
| "\<lbrakk>CreateInstr_target opcode t w = Some (n, w'); plain_opcode opcode; opcode \<noteq> CEE_SWITCH; t \<in> set (labels (m_IL (m_ILRewriter w)))\<rbrakk>
     \<Longrightarrow> rewrite_step w w'"
| "InitObj t w = Some (n, w') \<Longrightarrow> rewrite_step w w'"
| "tk < 2 ^ 32 \<Longrightarrow> rewrite_step w (w\<lparr>m_ILRewriter := SetTkLocalVarSig tk (m_ILRewriter w)\<rparr>)"
| "\<lbrakk>list_all (wf_clause (m_IL (m_ILRewriter w))) cs; 4 + 24 * length cs < 2 ^ 24\<rbrakk> \<Longrightarrow>
     rewrite_step w (w\<lparr>m_ILRewriter := SetEHClause cs (m_ILRewriter w)\<rparr>)"

definition imported_body :: "ILRewriterWrapper \<Rightarrow> bool" where
  "imported_body w \<longleftrightarrow> (\<exists>bytes r. Import bytes = Inr r \<and> w = ILRewriterWrapper_new r)"

definition rewriting_inv :: "ILRewriterWrapper \<Rightarrow> bool" where
  "rewriting_inv w \<longleftrightarrow> wf_wrapper w \<and> \<not> m_fGenerateTinyHeader (m_ILRewriter w)"

lemma rewriting_inv_init: "imported_body w \<Longrightarrow> rewriting_inv w"
  using Import_wf by (fastforce simp: imported_body_def rewriting_inv_def wf_wrapper_def ILRewriterWrapper_new_def)

lemma keeps_inv: "\<lbrakk>keeps f; f w = Some (n, w'); rewriting_inv w\<rbrakk> \<Longrightarrow> rewriting_inv w'"
  unfolding keeps_def rewriting_inv_def by metis

lemma CreateInstr_target_inv:
  assumes "CreateInstr_target opcode t w = Some (n, w')" "plain_opcode opcode" "opcode \<noteq> CEE_SWITCH"
    "t \<in> set (labels (m_IL (m_ILRewriter w)))" "rewriting_inv w"
  shows "rewriting_inv w'"
  using insert_new_wf(1,2) [of w opcode 0 t n w'] assms by (auto simp: CreateInstr_target_def rewriting_inv_def inserted_def)

lemma rewriting_inv_step: "\<lbrakk>rewrite_step w w'; rewriting_inv w\<rbrakk> \<Longrightarrow> rewriting_inv w'"
proof (induction rule: rewrite_step.induct)
  case (1 p w)
  then show ?case by (simp add: rewriting_inv_def wf_wrapper_def SetILPosition_def)
next
  case (12 t w n w' p)
  then show ?case using UnboxAnyAfter_keeps unfolding rewriting_inv_def by metis
next
  case (18 t u w b w')
  then show ?case using ReplaceMethodCalls_keeps unfolding rewriting_inv_def by metis
next
  case (29 opcode w n w')
  then show ?case unfolding CreateInstr_def using keeps_inv [OF keeps_insert] by metis
next
  case (30 opcode arg w n w')
  then show ?case unfolding CreateInstr_arg_def using keeps_inv [OF keeps_insert] by metis
next
  case (31 opcode t w n w')
  then show ?case by (rule CreateInstr_target_inv)
next
  case (33 tk w)
  then show ?case
    by (auto simp: rewriting_inv_def wf_wrapper_def wf_rewriter_def SetTkLocalVarSig_def clauses_def split: option.splits)
next
  case (34 w cs)
  then show ?case by (auto simp: rewriting_inv_def wf_wrapper_def wf_rewriter_def SetEHClause_def clauses_def split: option.splits)
qed (erule keeps_inv [rotated], assumption, intro keeps_simple keeps_short_forms keeps_arrays)+

interpretation rewriting: step_invariant imported_body rewrite_step rewriting_inv
  by unfold_locales (auto intro: rewriting_inv_init rewriting_inv_step)

section \<open>The rounds of the export\<close>

text \<open>The loop of \<open>Export\<close> cut off after a number of rounds.\<close>

primrec export_rounds :: "nat \<Rightarrow> nat \<Rightarrow> il_instr list \<Rightarrow> (il_error + il_instr list \<times> (nat \<rightharpoonup> nat) \<times> nat) option" where
  "export_rounds 0 maxSize is = None"
| "export_rounds (Suc n) maxSize is =
     (case layout maxSize 0 is of
        Inl e \<Rightarrow> Some (Inl e)
      | Inr (offs, offset) \<Rightarrow>
          (case widen offs is of
             Inl e \<Rightarrow> Some (Inl e)
           | Inr (js, fTryAgain) \<Rightarrow> if fTryAgain then export_rounds n maxSize js else Some (Inr (is, offs, offset))))"

lemma export_rounds_enough: "short_branches is < n \<Longrightarrow> export_rounds n maxSize is = Some (resolve_sizes maxSize is)"
proof (induction n arbitrary: "is")
  case (Suc n)
  show ?case
  proof (cases "layout maxSize 0 is")
    case (Inr ob)
    then obtain offs offset where l: "layout maxSize 0 is = Inr (offs, offset)" by (cases ob) auto
    show ?thesis
    proof (cases "widen offs is")
      case (Inr jt)
      then obtain js again where w: "widen offs is = Inr (js, again)" by (cases jt) auto
      with widen_short_branches [OF w] Suc l show ?thesis by (auto simp: resolve_sizes.simps [of maxSize "is"])
    qed (use l in \<open>simp add: resolve_sizes.simps\<close>)
  qed (simp add: resolve_sizes.simps)
qed simp

text \<open>C21: the loop of the export ends. Whatever the list of instructions holds, the rounds that lay the code out and widen
  the short branches that do not reach stop after at most one round per short branch and one more: cut off there, the loop
  has already returned what it returns in the end.\<close>

theorem export_loop_ends: "export_rounds (short_branches is + 1) maxSize is = Some (resolve_sizes maxSize is)"
  by (rule export_rounds_enough) simp

section \<open>Rewritten methods\<close>


text \<open>A body of two instructions, and the same body with a constant pushed and dropped at its end.\<close>

definition two_instructions :: "byte list" where
  "two_instructions = [0x0A, 0x00, 0x2A]"

definition rewritten_example :: ILRewriterWrapper where
  "rewritten_example =
     snd (the (Pop (snd (the (LoadInt32 1000 (SetILPosition 0 (ILRewriterWrapper_new (projr (Import two_instructions)))))))))"

lemma two_instructions_import: "\<not> isl (Import two_instructions)"
  by code_simp

lemma rewritten_example_reach: "reach imported_body rewrite_step rewritten_example"
proof -
  let ?w = "SetILPosition 0 (ILRewriterWrapper_new (projr (Import two_instructions)))"
  have "imported_body (ILRewriterWrapper_new (projr (Import two_instructions)))"
    unfolding imported_body_def using two_instructions_import by (metis sum.collapse(2))
  moreover have "rewrite_step (ILRewriterWrapper_new (projr (Import two_instructions))) ?w"
    by (rule rewrite_step.intros(1)) (simp add: labels_def)
  ultimately have "reach imported_body rewrite_step ?w" by (meson reach_init reach_step)
  moreover have "insert_new opcode arg t w = Some (m_nInstrs (m_ILRewriter w) + 1, snd (the (insert_new opcode arg t w))) \<and>
    m_ILInstr (snd (the (insert_new opcode arg t w))) = Some p" if "m_ILInstr w = Some p" for opcode arg t p w
    using that by (auto simp: insert_new_def NewILInstr_def split: option.splits)
  moreover have "m_ILInstr ?w = Some 0" by (simp add: SetILPosition_def)
  ultimately have "LoadInt32 1000 ?w = Some (m_nInstrs (m_ILRewriter ?w) + 1, snd (the (LoadInt32 1000 ?w)))"
    "Pop (snd (the (LoadInt32 1000 ?w))) = Some (m_nInstrs (m_ILRewriter (snd (the (LoadInt32 1000 ?w)))) + 1, rewritten_example)"
    "reach imported_body rewrite_step ?w" unfolding rewritten_example_def by (auto simp: LoadInt32_def Pop_def)
  then show ?thesis using reach_step rewrite_step.intros(2,5) by metis
qed

lemma rewritten_example_size: "m_nInstrs (m_ILRewriter rewritten_example) = 4"
  by code_simp

lemma rewritten_example_fits: "fits (m_ILRewriter rewritten_example)"
  by (simp add: fits_def rewritten_example_size)


text \<open>C23: the export stays in its buffer. The code of a rewritten method is never longer than the ten bytes per
  instruction that are allocated for it, and the bytes emitted are exactly the size that was laid out.\<close>

theorem export_within_buffer:
  assumes "reach imported_body rewrite_step w" "fits (m_ILRewriter w)"
  shows "\<exists>is offs codeSize. resolve_sizes (m_nInstrs (m_ILRewriter w) * 10 mod 2 ^ 32) (m_IL (m_ILRewriter w)) = Inr (is, offs, codeSize) \<and>
    length (emit offs 0 is) = codeSize \<and> codeSize \<le> m_nInstrs (m_ILRewriter w) * 10"
proof -
  let ?r = "m_ILRewriter w"
  have inv: "wf_rewriter ?r" using rewriting.reach_inv [OF assms(1)] by (simp add: rewriting_inv_def wf_wrapper_def)
  then have r: "wf_code (m_IL ?r)" "10 * length (m_IL ?r) \<le> m_nInstrs ?r * 10 mod 2 ^ 32" "length (m_IL ?r) \<le> m_nInstrs ?r"
    using assms(2) by (auto simp: wf_rewriter_def fits_def)
  from resolve_sizes_ok [OF r(1,2)] obtain "is" where
    res: "resolve_sizes (m_nInstrs ?r * 10 mod 2 ^ 32) (m_IL ?r) = Inr (is, offs_from 0 is, code_size is)" "list_all2 widened (m_IL ?r) is"
      "wf_code is" by blast
  have sane: "list_all sane is" using res(3) well_switched_opcodes by (auto simp: wf_code_def)
  have "code_size is \<le> 10 * length (m_IL ?r)" using code_size_le [OF sane] list_all2_lengthD [OF res(2)] by simp
  with res(1) length_emit [OF sane] r(3) show ?thesis by (intro exI conjI) auto
qed

theorem export_within_buffer_witness:
  "reach imported_body rewrite_step rewritten_example \<and> fits (m_ILRewriter rewritten_example) \<and>
   (\<exists>is offs codeSize. resolve_sizes (m_nInstrs (m_ILRewriter rewritten_example) * 10 mod 2 ^ 32) (m_IL (m_ILRewriter rewritten_example)) =
      Inr (is, offs, codeSize) \<and> length (emit offs 0 is) = codeSize \<and> codeSize \<le> m_nInstrs (m_ILRewriter rewritten_example) * 10)"
  using export_within_buffer [OF rewritten_example_reach rewritten_example_fits] rewritten_example_reach rewritten_example_fits
  by blast

text \<open>C19: the list of a rewriter stays well-formed. After any body has been imported and any operations have changed it, every
  branch and every exception clause refers to an instruction of the list or to its end, never into the arguments of a
  switch, every switch is followed by exactly its arguments, and no two instructions share an identity.\<close>

theorem rewriter_stays_well_formed:
  assumes "reach imported_body rewrite_step w"
  shows "wf_rewriter (m_ILRewriter w)"
  using rewriting.reach_inv [OF assms] by (simp add: rewriting_inv_def wf_wrapper_def)

theorem rewriter_stays_well_formed_witness:
  "reach imported_body rewrite_step rewritten_example \<and> wf_rewriter (m_ILRewriter rewritten_example)"
  using rewriter_stays_well_formed [OF rewritten_example_reach] rewritten_example_reach by blast

section \<open>Short forms\<close>

text \<open>What the instructions that push a constant, or name an argument or a local variable, mean.\<close>

definition pushed_int :: "il_instr \<Rightarrow> int option" where
  "pushed_int i =
     (if 0x16 \<le> m_opcode i \<and> m_opcode i \<le> 0x1E then Some (int (m_opcode i) - 0x16)
      else if m_opcode i = 0x1F then Some (signed_byte (of_nat (m_arg i mod 256)))
      else if m_opcode i = 0x20 then Some (to_int32 (int (m_arg i mod 2 ^ 32)))
      else None)"

definition named_index :: "nat \<Rightarrow> nat \<Rightarrow> nat \<Rightarrow> il_instr \<Rightarrow> nat option" where
  "named_index first short long i =
     (if first \<le> m_opcode i \<and> m_opcode i \<le> first + 3 then Some (m_opcode i - first)
      else if m_opcode i = short then Some (m_arg i mod 256)
      else if m_opcode i = long then Some (m_arg i mod 65536)
      else None)"

text \<open>The instruction an operation adds.\<close>

definition added :: "ILRewriterWrapper \<Rightarrow> nat \<Rightarrow> ILRewriterWrapper \<Rightarrow> (il_instr \<Rightarrow> bool) \<Rightarrow> bool" where
  "added w n w' P \<longleftrightarrow> (\<exists>xs i ys. m_IL (m_ILRewriter w) = xs @ ys \<and> m_IL (m_ILRewriter w') = xs @ i # ys \<and> instr_id i = n \<and> P i)"

lemma insert_new_added:
  assumes "insert_new opcode arg target w = Some (n, w')" "wf_wrapper w" "simple_opcode opcode"
    "P \<lparr>instr_id = n, m_opcode = opcode, m_arg = arg, m_target = target\<rparr>"
  shows "added w n w' P"
proof -
  have "n = m_nInstrs (m_ILRewriter w) + 1" using assms(1) by (auto simp: insert_new_def NewILInstr_def split: option.splits)
  with insert_new_wf(2) [OF assms(2,1)] assms(3,4) show ?thesis unfolding added_def inserted_def simple_opcode_def by fastforce
qed

lemma to_int32_bits: "\<lbrakk>- (2 ^ 31) \<le> v; v < 2 ^ 31\<rbrakk> \<Longrightarrow> to_int32 (int (nat (v mod 2 ^ 32) mod 2 ^ 32)) = v"
  by (simp add: to_int32_def zmod_int mod_add_left_eq)

lemma small_nth: "\<lbrakk>ops = map ((+) first) [0..<n]; k < n\<rbrakk> \<Longrightarrow> ops ! k = first + k"
  by simp

lemma LoadInt32_added:
  assumes "LoadInt32 v w = Some (n, w')" "wf_wrapper w" "- (2 ^ 31) \<le> v" "v < 2 ^ 31"
  shows "added w n w' (\<lambda>i. pushed_int i = Some v)"
proof -
  have ops: "simple_opcode 0x1F" "simple_opcode 0x20" using wrapper_opcodes by simp_all
  consider (tiny) "0 \<le> v \<and> v \<le> 8" | (short) "\<not> (0 \<le> v \<and> v \<le> 8)" "- 128 \<le> v \<and> v \<le> 127" | (long) "\<not> (- 128 \<le> v \<and> v \<le> 127)" by linarith
  then show ?thesis
  proof cases
    case tiny
    have "[0x16, 0x17, 0x18, 0x19, 0x1A, 0x1B, 0x1C, 0x1D, 0x1E] ! nat v = 0x16 + nat v"
      using tiny by (intro small_nth [where n = 9]) (simp_all add: upt_rec nat_less_iff)
    moreover have "simple_opcode (0x16 + k)" if "k < 9" for k
      using wrapper_opcodes that by (simp add: less_Suc_eq numeral_eq_Suc) auto
    ultimately show ?thesis using assms(1,2) tiny
      by (intro insert_new_added [where opcode = "0x16 + nat v"]) (auto simp: LoadInt32_def pushed_int_def)
  next
    case short
    then have "signed_byte (of_nat (bits 8 v mod 256)) = v" using signed_byte_back [of v] by (simp add: bits_def fits_byte_def)
    with short assms(1,2) ops(1) show ?thesis
      by (intro insert_new_added [where opcode = "0x1F"]) (auto simp: LoadInt32_def pushed_int_def)
  next
    case long
    have "to_int32 (int (bits 32 v mod 2 ^ 32)) = v" using to_int32_bits assms(3,4) by (simp add: bits_def)
    with long assms(1,2) ops(2) show ?thesis
      by (intro insert_new_added [where opcode = "0x20"]) (auto simp: LoadInt32_def pushed_int_def)
  qed
qed

lemma indexed_added:
  assumes "(if k \<le> 3 then insert_new (ops ! k) 0 0 else if k \<le> 255 then insert_new short (k mod 2 ^ 8) 0
      else insert_new long (k mod 2 ^ 16) 0) w = Some (n, w')"
    and "wf_wrapper w" "k < 2 ^ 16" "list_all simple_opcode (short # long # ops)" "ops = [first, first + 1, first + 2, first + 3]"
    "first + 3 < short" "short < long"
  shows "added w n w' (\<lambda>i. named_index first short long i = Some k)"
proof -
  consider (tiny) "k \<le> 3" | (short) "\<not> k \<le> 3" "k \<le> 255" | (long) "\<not> k \<le> 255" by linarith
  then show ?thesis
  proof cases
    case tiny
    then have k: "k = 0 \<or> k = 1 \<or> k = 2 \<or> k = 3" by linarith
    then have "ops ! k = first + k" "simple_opcode (first + k)" using assms(4,5) by (auto simp: numeral_eq_Suc)
    with tiny assms(1,2) show ?thesis by (intro insert_new_added [where opcode = "first + k"]) (auto simp: named_index_def)
  next
    case short
    with assms show ?thesis by (intro insert_new_added [where opcode = short]) (auto simp: named_index_def)
  next
    case long
    with assms show ?thesis by (intro insert_new_added [where opcode = long]) (auto simp: named_index_def)
  qed
qed

lemma index_added:
  assumes "wf_wrapper w" "k < 2 ^ 16"
  shows "LoadArgument k w = Some (n, w') \<Longrightarrow> added w n w' (\<lambda>i. named_index 0x02 0x0E 0x109 i = Some k)"
    "LoadLocal k w = Some (n, w') \<Longrightarrow> added w n w' (\<lambda>i. named_index 0x06 0x11 0x10C i = Some k)"
    "StLocal k w = Some (n, w') \<Longrightarrow> added w n w' (\<lambda>i. named_index 0x0A 0x13 0x10E i = Some k)"
proof -
  have ops: "list_all simple_opcode (0x0E # 0x109 # [0x02, 0x03, 0x04, 0x05])" "list_all simple_opcode (0x11 # 0x10C # [0x06, 0x07, 0x08, 0x09])"
    "list_all simple_opcode (0x13 # 0x10E # [0x0A, 0x0B, 0x0C, 0x0D])" using wrapper_opcodes by simp_all
  show "LoadArgument k w = Some (n, w') \<Longrightarrow> added w n w' (\<lambda>i. named_index 0x02 0x0E 0x109 i = Some k)"
    unfolding LoadArgument_def by (rule indexed_added [OF _ assms ops(1)]) simp_all
  show "LoadLocal k w = Some (n, w') \<Longrightarrow> added w n w' (\<lambda>i. named_index 0x06 0x11 0x10C i = Some k)"
    unfolding LoadLocal_def by (rule indexed_added [OF _ assms ops(2)]) simp_all
  show "StLocal k w = Some (n, w') \<Longrightarrow> added w n w' (\<lambda>i. named_index 0x0A 0x13 0x10E i = Some k)"
    unfolding StLocal_def by (rule indexed_added [OF _ assms ops(3)]) simp_all
qed

text \<open>The short forms say what the long ones would. An inserted instruction pushes exactly the 32-bit constant asked for,
  in whichever of its three encodings, and loads or stores exactly the argument or the local variable asked for, for all
  indices the encodings can name.\<close>

theorem inserted_operands_are_exact:
  assumes "wf_wrapper w"
  shows "(\<forall>v n w'. LoadInt32 v w = Some (n, w') \<and> - (2 ^ 31) \<le> v \<and> v < 2 ^ 31 \<longrightarrow> added w n w' (\<lambda>i. pushed_int i = Some v)) \<and>
    (\<forall>k n w'. LoadArgument k w = Some (n, w') \<and> k < 2 ^ 16 \<longrightarrow> added w n w' (\<lambda>i. named_index 0x02 0x0E 0x109 i = Some k)) \<and>
    (\<forall>k n w'. LoadLocal k w = Some (n, w') \<and> k < 2 ^ 16 \<longrightarrow> added w n w' (\<lambda>i. named_index 0x06 0x11 0x10C i = Some k)) \<and>
    (\<forall>k n w'. StLocal k w = Some (n, w') \<and> k < 2 ^ 16 \<longrightarrow> added w n w' (\<lambda>i. named_index 0x0A 0x13 0x10E i = Some k))"
proof (intro conjI allI impI)
  fix v n w'
  assume "LoadInt32 v w = Some (n, w') \<and> - (2 ^ 31) \<le> v \<and> v < 2 ^ 31"
  then show "added w n w' (\<lambda>i. pushed_int i = Some v)" by (simp add: LoadInt32_added assms)
qed (simp_all add: index_added assms)

theorem inserted_operands_are_exact_witness:
  "wf_wrapper rewritten_example \<and> (\<exists>n w'. LoadInt32 (- 5) rewritten_example = Some (n, w') \<and>
     added rewritten_example n w' (\<lambda>i. pushed_int i = Some (- 5)))"
proof -
  have wf: "wf_wrapper rewritten_example"
    using rewriting.reach_inv [OF rewritten_example_reach] by (simp add: rewriting_inv_def)
  moreover have "LoadInt32 (- 5) rewritten_example \<noteq> None" by code_simp
  then obtain n w' where "LoadInt32 (- 5) rewritten_example = Some (n, w')" by auto
  ultimately show ?thesis using inserted_operands_are_exact [OF wf] by auto
qed

section \<open>The stack depth\<close>

text \<open>
  The depth the exported header declares is the accumulated one in sixteen bits: every instruction that pushes has been
  added to it on import and on insertion, and a sum of 65536 or more wraps to a smaller depth than the method needs.
\<close>

theorem exported_stack_depth_wraps:
  assumes "reach imported_body rewrite_step w" "fits (m_ILRewriter w)"
  shows "\<exists>bytes r. Export fill (m_ILRewriter w) = Inr (bytes, r) \<and> word_at 2 2 bytes = unat (m_maxStack (m_ILRewriter w)) mod 2 ^ 16"
proof -
  have inv: "wf_rewriter (m_ILRewriter w)" "\<not> m_fGenerateTinyHeader (m_ILRewriter w)"
    using rewriting.reach_inv [OF assms(1)] by (simp_all add: rewriting_inv_def wf_wrapper_def)
  from Export_fat [OF inv(1) assms(2) inv(2), of fill] show ?thesis using fat_header_fields(3) by fastforce
qed

end
