(* ===== verification/Call_Target.thy ===== *)
theory Call_Target
  imports Il_Rewriting "HOL-Library.Monad_Syntax"
begin

text \<open>
  The instrumentation of a method (\<open>TracerMethodRewriter::Rewrite\<close>): calls of the integration before and after the method's
  own code, inside exception clauses of their own. What the metadata interfaces answer (tokens, type flags, failures) is a
  record; a failed answer is \<open>None\<close>. An early return leaves the method as it is and is \<open>None\<close> too.
\<close>

section \<open>What is asked of the metadata\<close>

text \<open>A type with the type it extends and the type it is nested in.\<close>

datatype TypeInfo = TypeInfo (ti_id: nat) (type_spec: nat) (ti_valueType: bool) (isGeneric: bool)
  (extend_from: "TypeInfo option") (parent_type: "TypeInfo option")

definition mdTokenNil_nat :: nat where "mdTokenNil_nat = 0"
definition mdTypeSpecNil :: nat where "mdTypeSpecNil = 0x1B000000"

primrec has_generic :: "TypeInfo \<Rightarrow> bool" where
  "has_generic (TypeInfo i s v g e p) = (g \<or> (case map_option has_generic p of None \<Rightarrow> False | Some b \<Rightarrow> b))"

primrec first_concrete :: "nat \<Rightarrow> TypeInfo \<Rightarrow> nat" where
  "first_concrete objectTypeRef (TypeInfo i s v g e p) =
     (if g then (case map_option (first_concrete objectTypeRef) e of None \<Rightarrow> objectTypeRef | Some t \<Rightarrow> t) else i)"

definition GetCurrentTypeRef :: "nat \<Rightarrow> TypeInfo \<Rightarrow> nat" where
  "GetCurrentTypeRef objectTypeRef t =
     (if type_spec t \<noteq> mdTypeSpecNil then type_spec t
      else if (case parent_type t of None \<Rightarrow> False | Some p \<Rightarrow> has_generic p)
      then (if ti_valueType t then mdTokenNil_nat else objectTypeRef)
      else first_concrete objectTypeRef t)"

text \<open>The locals added to the method, and the initial values of two of them.\<close>

record added_locals =
  newLocalVarSig :: nat
  callTargetStateIndex :: nat
  exceptionIndex :: nat
  callTargetReturnIndex :: nat
  returnValueIndex :: nat
  additionalLocalIndices :: "nat list"
  defaultValueMethodSpec :: "nat option"
  returnDefaultMemberRef :: nat

text \<open>An argument of the method: its flags, its type, and whether it is a by-ref-like value.\<close>

record argument =
  byRef :: bool
  pinned :: bool
  boxed :: bool
  typeTok :: nat
  isByRefLike :: bool

record calltarget =
  integration_definition :: bool
  isRuntimeAsync :: bool
  runtime_async_methods_available :: bool
  effective_return_type :: bool
  isVoid :: bool
  isStatic :: bool
  caller_type :: TypeInfo
  caller_id :: nat
  integration_type_found :: bool
  profiler_loaded :: bool
  modified_locals :: "added_locals option"
  ensureCallbacks :: "nat option"
  is_integration_method :: bool
  enable_by_ref_instrumentation :: bool
  enable_calltarget_state_by_ref :: bool
  methodArguments :: "argument list"
  objectTypeRef :: nat
  exTypeRef :: nat
  createRefStruct :: "nat option"
  beginMethod :: "nat option"
  bubbleUpType :: "nat option"
  bubbleUpFunction :: "nat option"
  logBegin :: "nat option"
  logEnd :: "nat option"
  endMethod :: "nat option"
  getReturnValue :: "nat option"

definition FASTPATH_COUNT :: nat where "FASTPATH_COUNT = 9"

section \<open>The blocks of instructions\<close>

abbreviation (input) CEE_CONV_U :: nat where "CEE_CONV_U \<equiv> 0xE0"
abbreviation (input) CEE_ISINST :: nat where "CEE_ISINST \<equiv> 0x75"
abbreviation (input) CEE_BRTRUE_S :: nat where "CEE_BRTRUE_S \<equiv> 0x2D"
abbreviation (input) CEE_CEQ :: nat where "CEE_CEQ \<equiv> 0x101"
abbreviation (input) CEE_CGT_UN :: nat where "CEE_CGT_UN \<equiv> 0x103"
abbreviation (input) CEE_ENDFILTER :: nat where "CEE_ENDFILTER \<equiv> 0x111"
abbreviation (input) CEE_RET :: nat where "CEE_RET \<equiv> 0x2A"
abbreviation (input) CEE_STLOC :: nat where "CEE_STLOC \<equiv> 0x10E"

text \<open>A target that is known only after the branch has been inserted.\<close>

definition set_target :: "nat \<Rightarrow> nat \<Rightarrow> ILRewriterWrapper \<Rightarrow> ILRewriterWrapper" where
  "set_target n t w = w\<lparr>m_ILRewriter := (m_ILRewriter w)\<lparr>m_IL :=
     map (\<lambda>i. if instr_id i = n then i\<lparr>m_target := t\<rparr> else i) (m_IL (m_ILRewriter w))\<rparr>\<rparr>"

definition ModifyLocalSigAndInitialize :: "calltarget \<Rightarrow> added_locals \<Rightarrow> ILRewriterWrapper \<Rightarrow> (nat \<times> ILRewriterWrapper) option" where
  "ModifyLocalSigAndInitialize c l w = do {
     let w = w\<lparr>m_ILRewriter := SetTkLocalVarSig (newLocalVarSig l) (m_ILRewriter w)\<rparr>;
     (firstInstruction, w) \<leftarrow>
       (if \<not> isVoid c
        then do {
          spec \<leftarrow> defaultValueMethodSpec l;
          (first, w) \<leftarrow> CallMember spec False w;
          (_, w) \<leftarrow> StLocal (returnValueIndex l) w;
          (_, w) \<leftarrow> CallMember (returnDefaultMemberRef l) False w;
          (_, w) \<leftarrow> StLocal (callTargetReturnIndex l) w;
          Some (first, w)
        }
        else do {
          (first, w) \<leftarrow> CallMember (returnDefaultMemberRef l) False w;
          (_, w) \<leftarrow> StLocal (callTargetReturnIndex l) w;
          Some (first, w)
        });
     (_, w) \<leftarrow> LoadNull w;
     (_, w) \<leftarrow> StLocal (exceptionIndex l) w;
     Some (firstInstruction, w)
   }"

text \<open>The instance, or null; also used before the call at the end.\<close>

definition load_instance :: "calltarget \<Rightarrow> ILRewriterWrapper \<Rightarrow> (nat \<times> ILRewriterWrapper) option" where
  "load_instance c w =
     (if isStatic c then (if ti_valueType (caller_type c) then None else LoadNull w)
      else if GetCurrentTypeRef (objectTypeRef c) (caller_type c) = mdTokenNil_nat then LoadNull w
      else do {
        (n, w) \<leftarrow> LoadArgument 0 w;
        (_, w) \<leftarrow>
          (if \<not> ti_valueType (caller_type c) then Some (n, w)
           else if type_spec (caller_type c) \<noteq> mdTypeSpecNil then LoadObj (type_spec (caller_type c)) w
           else if \<not> isGeneric (caller_type c) then LoadObj (ti_id (caller_type c)) w
           else None);
        Some (n, w)
      })"

definition WriteRefStructCall :: "calltarget \<Rightarrow> nat \<Rightarrow> nat \<Rightarrow> ILRewriterWrapper \<Rightarrow> (nat \<times> ILRewriterWrapper) option" where
  "WriteRefStructCall c tok index w = do {
     create \<leftarrow> createRefStruct c;
     (_, w) \<leftarrow> CreateInstr CEE_CONV_U w;
     (_, w) \<leftarrow> LoadToken tok w;
     (_, w) \<leftarrow> CallMember create False w;
     (_, w) \<leftarrow> StLocal index w;
     LoadLocalAddress index w
   }"

text \<open>The arguments one by one (up to eight), with a local for every by-ref-like one.\<close>

fun load_direct :: "calltarget \<Rightarrow> nat \<Rightarrow> nat list \<Rightarrow> argument list \<Rightarrow> ILRewriterWrapper \<Rightarrow> ILRewriterWrapper option" where
  "load_direct c i refStructIndexes [] w = Some w"
| "load_direct c i refStructIndexes (a # as) w = do {
     let k = i + (if isStatic c then 0 else 1);
     (w, refStructIndexes) \<leftarrow>
       (if enable_by_ref_instrumentation c
        then do {
          (_, w) \<leftarrow> (if byRef a then LoadArgument k w else LoadArgumentRef k w);
          (if isByRefLike a
           then (case refStructIndexes of
                   [] \<Rightarrow> None
                 | x # xs \<Rightarrow> map_option (\<lambda>(_, w). (w, xs)) (WriteRefStructCall c (typeTok a) x w))
           else Some (w, refStructIndexes))
        }
        else do {
          (_, w) \<leftarrow> LoadArgument k w;
          if byRef a then None else Some (w, refStructIndexes)
        });
     load_direct c (i + 1) refStructIndexes as w
   }"

text \<open>The arguments in an array.\<close>

fun load_into_array :: "calltarget \<Rightarrow> nat \<Rightarrow> argument list \<Rightarrow> ILRewriterWrapper \<Rightarrow> ILRewriterWrapper option" where
  "load_into_array c i [] w = Some w"
| "load_into_array c i (a # as) w = do {
     (_, w) \<leftarrow> BeginLoadValueIntoArray (int i) w;
     (n, w) \<leftarrow> LoadArgument (i + (if isStatic c then 0 else 1)) w;
     (_, w) \<leftarrow>
       (if byRef a \<or> pinned a then None
        else if boxed a then (if typeTok a = mdTokenNil_nat then None else Box (typeTok a) w)
        else Some (n, w));
     (_, w) \<leftarrow> EndLoadValueIntoArray w;
     load_into_array c (i + 1) as w
   }"

definition load_arguments :: "calltarget \<Rightarrow> nat list \<Rightarrow> ILRewriterWrapper \<Rightarrow> ILRewriterWrapper option" where
  "load_arguments c refStructIndexes w =
     (let numArgs = length (methodArguments c)
      in if is_integration_method c
         then (if numArgs < FASTPATH_COUNT then load_direct c 0 refStructIndexes (methodArguments c) w
               else do {
                 (_, w) \<leftarrow> CreateArray (objectTypeRef c) (int numArgs) w;
                 load_into_array c 0 (methodArguments c) w
               })
         else do {
           (_, w) \<leftarrow> LoadToken (caller_id c) w;
           (_, w) \<leftarrow> LoadToken (ti_id (caller_type c)) w;
           Some w
         })"

definition CreateFilterForException :: "nat \<Rightarrow> nat \<Rightarrow> nat option \<Rightarrow> nat \<Rightarrow> ILRewriterWrapper \<Rightarrow> (nat \<times> ILRewriterWrapper) option" where
  "CreateFilterForException exceptionTypeRef bubbleUpExceptionTypeRef containsBubbleUp exceptionValueIndex w = do {
     (flt, w) \<leftarrow> CreateInstr_arg CEE_ISINST exceptionTypeRef w;
     (_, w) \<leftarrow> CreateInstr CEE_DUP w;
     (isException, w) \<leftarrow> CreateInstr CEE_BRTRUE_S w;
     (_, w) \<leftarrow> CreateInstr CEE_POP w;
     (_, w) \<leftarrow> LoadInt32 0 w;
     (endNotException, w) \<leftarrow> CreateInstr CEE_BR_S w;
     (storeException, w) \<leftarrow> StLocal exceptionValueIndex w;
     let w = set_target isException storeException w;
     (_, w) \<leftarrow> LoadLocal exceptionValueIndex w;
     (_, w) \<leftarrow>
       (case containsBubbleUp of
          Some f \<Rightarrow> CallMember f False w
        | None \<Rightarrow> do {
            (_, w) \<leftarrow> CreateInstr_arg CEE_ISINST bubbleUpExceptionTypeRef w;
            (_, w) \<leftarrow> LoadNull w;
            CreateInstr CEE_CGT_UN w
          });
     (_, w) \<leftarrow> LoadInt32 0 w;
     (_, w) \<leftarrow> CreateInstr CEE_CEQ w;
     (_, w) \<leftarrow> LoadInt32 0 w;
     (_, w) \<leftarrow> CreateInstr CEE_CGT_UN w;
     (endFilter, w) \<leftarrow> CreateInstr CEE_ENDFILTER w;
     Some (flt, set_target endNotException endFilter w)
   }"

text \<open>
  The handler of a try block of the integration: a filter if there is one, the call of \<open>LogException\<close> and a leave. The
  result is the filter, the first instruction of the handler, and the leave. A failed \<open>WriteLogException\<close> is ignored; then
  there may be no first instruction.
\<close>

definition write_handler ::
  "calltarget \<Rightarrow> nat \<Rightarrow> nat option \<Rightarrow> ILRewriterWrapper \<Rightarrow> (nat option \<times> nat option \<times> nat \<times> ILRewriterWrapper) option" where
  "write_handler c exceptionValueIndex logException w = do {
     (flt, first, w) \<leftarrow>
       (case bubbleUpType c of
          None \<Rightarrow> Some (None, None, w)
        | Some bubble \<Rightarrow> do {
            (flt, w) \<leftarrow> CreateFilterForException (exTypeRef c) bubble (bubbleUpFunction c) exceptionValueIndex w;
            (first, w) \<leftarrow> Pop w;
            (_, w) \<leftarrow> LoadLocal exceptionValueIndex w;
            Some (Some flt, Some first, w)
          });
     (first, w) \<leftarrow>
       (case logException of
          None \<Rightarrow> Some (first, w)
        | Some tok \<Rightarrow> map_option (\<lambda>(n, w). (case first of None \<Rightarrow> Some n | Some f \<Rightarrow> Some f, w)) (CallMember tok False w));
     (leave, w) \<leftarrow> CreateInstr CEE_LEAVE_S w;
     Some (flt, first, leave, w)
   }"

definition handler_clause :: "calltarget \<Rightarrow> nat \<Rightarrow> nat option \<Rightarrow> nat \<Rightarrow> nat \<Rightarrow> EHClause" where
  "handler_clause c tryBegin flt first leave =
     (case flt of
        Some f \<Rightarrow> \<lparr>m_Flags = 1, m_pTryBegin = tryBegin, m_pTryEnd = f, m_pHandlerBegin = first, m_pHandlerEnd = leave,
                   m_ClassToken = 0, m_pFilter = f\<rparr>
      | None \<Rightarrow> \<lparr>m_Flags = 0, m_pTryBegin = tryBegin, m_pTryEnd = first, m_pHandlerBegin = first, m_pHandlerEnd = leave,
                 m_ClassToken = exTypeRef c, m_pFilter = 0\<rparr>)"

section \<open>The method\<close>

text \<open>The loop that turns the returns into leaves. A local beyond a signed sixteen-bit index is refused.\<close>

fun replace_returns :: "bool \<Rightarrow> nat \<Rightarrow> nat \<Rightarrow> nat \<Rightarrow> nat \<Rightarrow> il_instr list \<Rightarrow> (il_instr list \<times> nat) option" where
  "replace_returns void value ret target fresh [] = Some ([], fresh)"
| "replace_returns void value ret target fresh (i # is) =
     (if m_opcode i = CEE_RET \<and> instr_id i \<noteq> ret
      then if void
           then map_option (apfst (Cons (i\<lparr>m_opcode := CEE_LEAVE_S, m_target := target\<rparr>)))
                  (replace_returns void value ret target fresh is)
           else if value mod 2 ^ 16 \<ge> 2 ^ 15 then None
           else map_option (apfst (\<lambda>js. i\<lparr>m_opcode := CEE_STLOC, m_arg := value mod 2 ^ 16\<rparr> #
                    \<lparr>instr_id = fresh + 1, m_opcode = CEE_LEAVE_S, m_arg = 0, m_target = target\<rparr> # js))
                  (replace_returns void value ret target (fresh + 1) is)
      else map_option (apfst (Cons i)) (replace_returns void value ret target fresh is))"

definition begin_part :: "calltarget \<Rightarrow> added_locals \<Rightarrow> ILRewriterWrapper \<Rightarrow>
    (nat \<times> nat option \<times> nat option \<times> nat \<times> ILRewriterWrapper) option" where
  "begin_part c l w = do {
     (firstInstruction, w) \<leftarrow> ModifyLocalSigAndInitialize c l w;
     w \<leftarrow> (if isRuntimeAsync c then do { tok \<leftarrow> ensureCallbacks c; (_, w) \<leftarrow> CallMember tok False w; Some w } else Some w);
     (_, w) \<leftarrow> load_instance c w;
     w \<leftarrow> load_arguments c (drop 2 (additionalLocalIndices l)) w;
     tok \<leftarrow> beginMethod c;
     (_, w) \<leftarrow> CallMember tok False w;
     (_, w) \<leftarrow> StLocal (callTargetStateIndex l) w;
     (stateLeave, w) \<leftarrow> CreateInstr CEE_LEAVE_S w;
     (flt, first, leave, w) \<leftarrow> write_handler c (additionalLocalIndices l ! 0) (logBegin c) w;
     p \<leftarrow> m_ILInstr w;
     Some (firstInstruction, flt, first, leave, set_target leave p (set_target stateLeave p w))
   }"

definition append_return :: "ILRewriterWrapper \<Rightarrow> nat \<times> ILRewriterWrapper" where
  "append_return w =
     (let (i, r) = NewILInstr (m_ILRewriter w);
          r = InsertAfter (m_pPrev 0 (m_IL r)) (i\<lparr>m_opcode := CEE_RET\<rparr>) r
      in (instr_id i, SetILPosition (instr_id i) (w\<lparr>m_ILRewriter := r\<rparr>)))"

definition end_part :: "calltarget \<Rightarrow> added_locals \<Rightarrow> ILRewriterWrapper \<Rightarrow>
    (nat \<times> nat \<times> nat \<times> nat option \<times> nat option \<times> nat \<times> nat \<times> ILRewriterWrapper) option" where
  "end_part c l w = do {
     (startExceptionCatch, w) \<leftarrow> StLocal (exceptionIndex l) w;
     (rethrow, w) \<leftarrow> Rethrow w;
     (tryStart, w) \<leftarrow> load_instance c w;
     w \<leftarrow> (if \<not> isVoid c then map_option snd (LoadLocal (returnValueIndex l) w) else Some w);
     (_, w) \<leftarrow> LoadLocal (exceptionIndex l) w;
     (_, w) \<leftarrow> (if enable_calltarget_state_by_ref c then LoadLocalAddress (callTargetStateIndex l) w
               else LoadLocal (callTargetStateIndex l) w);
     tok \<leftarrow> endMethod c;
     (_, w) \<leftarrow> CallMember tok False w;
     (_, w) \<leftarrow> StLocal (callTargetReturnIndex l) w;
     w \<leftarrow> (if \<not> isVoid c
          then do {
            (_, w) \<leftarrow> LoadLocalAddress (callTargetReturnIndex l) w;
            w \<leftarrow> (case getReturnValue c of None \<Rightarrow> Some w | Some tok \<Rightarrow> map_option snd (CallMember tok False w));
            (_, w) \<leftarrow> StLocal (returnValueIndex l) w;
            Some w
          }
          else Some w);
     (tryLeave, w) \<leftarrow> CreateInstr CEE_LEAVE_S w;
     (flt, first, leave, w) \<leftarrow> write_handler c (additionalLocalIndices l ! 1) (logEnd c) w;
     (endFinally, w) \<leftarrow> EndFinally w;
     let w = set_target leave endFinally (set_target tryLeave endFinally w);
     w \<leftarrow> (if \<not> isVoid c then map_option snd (LoadLocal (returnValueIndex l) w) else Some w);
     Some (startExceptionCatch, rethrow, tryStart, flt, first, leave, endFinally, w)
   }"

text \<open>
  The rewritten method before its export, or nothing when the method is skipped. A handler without a first instruction is a
  null pointer that the export dereferences.
\<close>

datatype 'a rewrite_result = Skipped | Null_Handler | Rewritten 'a

definition instrument :: "calltarget \<Rightarrow> ILRewriter \<Rightarrow>
    (nat \<times> nat option \<times> nat option \<times> nat \<times> nat \<times> nat \<times> nat \<times> nat option \<times> nat option \<times> nat \<times> nat \<times> ILRewriter) option" where
  "instrument c r = do {
     l \<leftarrow> modified_locals c;
     let w = SetILPosition (m_pNext 0 (m_IL r)) (ILRewriterWrapper_new r);
     (firstInstruction, bfilter, bfirst, bleave, w) \<leftarrow> begin_part c l w;
     let (ret, w) = append_return w;
     (startExceptionCatch, rethrow, tryStart, efilter, efirst, eleave, endFinally, w) \<leftarrow> end_part c l w;
     let r = m_ILRewriter w;
     (is, n) \<leftarrow> replace_returns (isVoid c) (returnValueIndex l) ret (m_pNext endFinally (m_IL r)) (m_nInstrs r) (m_IL r);
     let r = r\<lparr>m_IL := is, m_nInstrs := n\<rparr>;
     Some (firstInstruction, bfilter, bfirst, bleave, startExceptionCatch, rethrow, tryStart, efilter, efirst, eleave, endFinally, r)
   }"

definition catch_clause :: "calltarget \<Rightarrow> nat \<Rightarrow> nat \<Rightarrow> nat \<Rightarrow> EHClause" where
  "catch_clause c firstInstruction startExceptionCatch rethrow =
     \<lparr>m_Flags = 0, m_pTryBegin = firstInstruction, m_pTryEnd = startExceptionCatch, m_pHandlerBegin = startExceptionCatch,
      m_pHandlerEnd = rethrow, m_ClassToken = exTypeRef c, m_pFilter = 0\<rparr>"

definition finally_clause :: "nat \<Rightarrow> nat \<Rightarrow> nat \<Rightarrow> il_instr list \<Rightarrow> EHClause" where
  "finally_clause firstInstruction rethrow endFinally is =
     \<lparr>m_Flags = 2, m_pTryBegin = firstInstruction, m_pTryEnd = m_pNext rethrow is, m_pHandlerBegin = m_pNext rethrow is,
      m_pHandlerEnd = endFinally, m_ClassToken = 0, m_pFilter = 0\<rparr>"

definition Rewrite :: "calltarget \<Rightarrow> ILRewriter \<Rightarrow> ILRewriter rewrite_result" where
  "Rewrite c r =
     (if \<not> integration_definition c then Skipped
      else if isRuntimeAsync c \<and> (\<not> runtime_async_methods_available c \<or> \<not> effective_return_type c) then Skipped
      else if isRuntimeAsync c \<and> \<not> isStatic c \<and> ti_valueType (caller_type c) then Skipped
      else if \<not> integration_type_found c then Skipped
      else if \<not> profiler_loaded c then Skipped
      else case instrument c r of
             None \<Rightarrow> Skipped
           | Some (firstInstruction, bfilter, bfirst, bleave, startExceptionCatch, rethrow, tryStart, efilter, efirst, eleave, endFinally, r) \<Rightarrow>
               (case (bfirst, efirst) of
                  (Some bf, Some ef) \<Rightarrow>
                    Rewritten (SetEHClause
                      ((case m_EH r of None \<Rightarrow> [] | Some cs \<Rightarrow> cs) @
                       [handler_clause c firstInstruction bfilter bf bleave, handler_clause c tryStart efilter ef eleave,
                        catch_clause c firstInstruction startExceptionCatch rethrow, finally_clause firstInstruction rethrow endFinally (m_IL r)]) r)
                | _ \<Rightarrow> Null_Handler))"

text \<open>The whole callback: the bytes of the method's body in, the bytes of its new body out.\<close>

definition RewriteBody :: "(nat \<Rightarrow> byte) \<Rightarrow> calltarget \<Rightarrow> byte list \<Rightarrow> byte list rewrite_result" where
  "RewriteBody fill c bytes =
     (case Import bytes of
        Inl e \<Rightarrow> Skipped
      | Inr r \<Rightarrow>
          (case Rewrite c r of
             Skipped \<Rightarrow> Skipped
           | Null_Handler \<Rightarrow> Null_Handler
           | Rewritten r \<Rightarrow> (case Export fill r of Inl e \<Rightarrow> Skipped | Inr (body, r) \<Rightarrow> Rewritten body)))"

end
