(* ===== verification/Call_Target_Blocks.thy ===== *)
theory Call_Target_Blocks
  imports Call_Target
begin

text \<open>
  The instrumentation as blocks of instructions: while the position stays where it is, every operation extends the code in
  front of it, and a block of operations is verified like straight-line code, one operation at a time.
\<close>

section \<open>The code in front of the position\<close>

definition head_id :: "il_instr list \<Rightarrow> nat" where
  "head_id ys = (case ys of [] \<Rightarrow> 0 | y # _ \<Rightarrow> instr_id y)"

abbreviation instr_count :: "ILRewriterWrapper \<Rightarrow> nat" where
  "instr_count w \<equiv> m_nInstrs (m_ILRewriter w)"

definition at :: "ILRewriterWrapper \<Rightarrow> il_instr list \<Rightarrow> il_instr list \<Rightarrow> bool" where
  "at w xs ys \<longleftrightarrow> rewriting_inv w \<and> m_IL (m_ILRewriter w) = xs @ ys \<and> m_ILInstr w = Some (head_id ys)"

lemma insert_before_at: "w \<notin> set (map instr_id xs) \<Longrightarrow> w = instr_id y \<Longrightarrow> insert_before w i (xs @ y # ys) = xs @ i # y # ys"
  by (induction xs) auto

lemma at_wf:
  assumes "at w xs ys"
  shows "wf_code (xs @ ys)" "wf_rewriter (m_ILRewriter w)" "list_all (\<lambda>i. instr_id i \<le> instr_count w) (xs @ ys)"
  using assms by (auto simp: at_def rewriting_inv_def wf_wrapper_def wf_rewriter_def)

lemma at_insert:
  assumes w: "at w xs ys" and op: "plain_opcode opcode" "opcode \<noteq> CEE_SWITCH"
    and t: "OPCODEFLAGS_BranchTarget (op_flags opcode) \<Longrightarrow> target \<in> set (labels (xs @ ys))"
    and f: "insert_new opcode arg target w = Some (n, w')"
  shows "n = instr_count w + 1" "instr_count w' = n" "m_EH (m_ILRewriter w') = m_EH (m_ILRewriter w)"
    "at w' (xs @ [\<lparr>instr_id = n, m_opcode = opcode, m_arg = arg, m_target = target\<rparr>]) ys"
proof -
  define i where "i = \<lparr>instr_id = instr_count w + 1, m_opcode = opcode, m_arg = arg, m_target = target\<rparr>"
  let ?r = "(m_ILRewriter w)\<lparr>m_nInstrs := instr_count w + 1\<rparr>"
  have p: "m_ILInstr w = Some (head_id ys)" "m_IL (m_ILRewriter w) = xs @ ys" using w by (auto simp: at_def)
  show n: "n = instr_count w + 1" using f p by (auto simp: insert_new_def NewILInstr_def)
  have w': "w' = w\<lparr>m_ILRewriter := InsertBefore (head_id ys) i ?r\<rparr>"
    using f p by (auto simp: insert_new_def NewILInstr_def i_def)
  have ids: "distinct (map instr_id (xs @ ys))" "0 \<notin> set (map instr_id (xs @ ys))" using at_wf(1) [OF w] by (auto simp: wf_code_def)
  have "InsertBefore (head_id ys) i ?r = AdjustState i (?r\<lparr>m_IL := xs @ i # ys\<rparr>)"
  proof (cases ys)
    case (Cons y zs)
    then have "instr_id y \<noteq> 0" "instr_id y \<notin> set (map instr_id xs)" using ids by auto
    then show ?thesis using Cons p insert_before_at [of "instr_id y" xs y i zs] by (simp add: InsertBefore_def head_id_def)
  qed (use p in \<open>simp add: InsertBefore_def head_id_def\<close>)
  with w' have r: "m_ILRewriter w' = AdjustState i (?r\<lparr>m_IL := xs @ i # ys\<rparr>)" by simp
  then show "instr_count w' = n" "m_EH (m_ILRewriter w') = m_EH (m_ILRewriter w)" using n by (simp_all add: AdjustState_def)
  have inv: "rewriting_inv w" using w by (simp add: at_def)
  have "wf_wrapper w'" using insert_new_wf(1) [OF _ f op] t inv p(2) by (auto simp: rewriting_inv_def)
  then have "rewriting_inv w'" using inv r by (simp add: rewriting_inv_def AdjustState_def)
  then show "at w' (xs @ [\<lparr>instr_id = n, m_opcode = opcode, m_arg = arg, m_target = target\<rparr>]) ys"
    using r p w' n by (simp add: at_def AdjustState_def i_def)
qed

section \<open>Blocks\<close>

text \<open>
  A block that began in \<open>w0\<close> with \<open>xs\<close> in front of the position and \<open>ys\<close> behind it: the code it has added is numbered
  consecutively, has no return and no argument of a switch, and has the instructions of \<open>K\<close>, given by identity, opcode and target.
\<close>

definition facts :: "il_instr \<Rightarrow> nat \<times> nat \<times> nat" where
  "facts i = (instr_id i, m_opcode i, m_target i)"

definition block :: "ILRewriterWrapper \<Rightarrow> il_instr list \<Rightarrow> il_instr list \<Rightarrow> (nat \<times> nat \<times> nat) set \<Rightarrow> ILRewriterWrapper \<Rightarrow> bool" where
  "block w0 xs ys K w \<longleftrightarrow> instr_count w0 \<le> instr_count w \<and> list_all (\<lambda>i. instr_id i \<le> instr_count w0) (xs @ ys) \<and>
     clauses (m_ILRewriter w) = clauses (m_ILRewriter w0) \<and>
     (\<exists>code. at w (xs @ code) ys \<and> map instr_id code = [Suc (instr_count w0)..<Suc (instr_count w)] \<and>
       list_all (\<lambda>i. m_opcode i \<noteq> 0x2A \<and> \<not> is_arg i) code \<and> K \<subseteq> facts ` set code)"

lemma block_start: "at w xs ys \<Longrightarrow> block w xs ys {} w"
  unfolding block_def using at_wf(3) by (auto intro!: exI [of _ "[]"])

lemma block_mono: "block w0 xs ys S w \<Longrightarrow> T \<subseteq> S \<Longrightarrow> block w0 xs ys T w"
  unfolding block_def by blast

text \<open>What a computation establishes if it yields a result.\<close>

definition ok :: "'a option \<Rightarrow> ('a \<Rightarrow> bool) \<Rightarrow> bool" where
  "ok m Q \<longleftrightarrow> (\<forall>x. m = Some x \<longrightarrow> Q x)"

lemma ok_simps [simp]: "ok (Some x) Q = Q x" "ok None Q"
  by (simp_all add: ok_def)

lemma ok_bind [intro]: "ok m (\<lambda>x. ok (f x) Q) \<Longrightarrow> ok (Option.bind m f) Q"
  by (cases m) (simp_all add: ok_def)

lemma ok_if: "\<lbrakk>b \<Longrightarrow> ok m Q; \<not> b \<Longrightarrow> ok m' Q\<rbrakk> \<Longrightarrow> ok (if b then m else m') Q"
  by simp

lemma ok_case_option: "\<lbrakk>x = None \<Longrightarrow> ok m Q; \<And>y. x = Some y \<Longrightarrow> ok (f y) Q\<rbrakk> \<Longrightarrow> ok (case x of None \<Rightarrow> m | Some y \<Rightarrow> f y) Q"
  by (cases x) simp_all

lemma ok_map: "ok m (\<lambda>x. Q (f x)) \<Longrightarrow> ok (map_option f m) Q"
  by (auto simp: ok_def)

lemma ok_mono: "\<lbrakk>ok m P; \<And>x. P x \<Longrightarrow> Q x\<rbrakk> \<Longrightarrow> ok m Q"
  by (auto simp: ok_def)

text \<open>An operation that emits \<open>k\<close> instructions and returns the last.\<close>

definition emitter :: "nat \<Rightarrow> (ILRewriterWrapper \<Rightarrow> (nat \<times> ILRewriterWrapper) option) \<Rightarrow> bool" where
  "emitter k f \<longleftrightarrow> (\<forall>w0 xs ys K w. block w0 xs ys K w \<longrightarrow>
     ok (f w) (\<lambda>(n, w'). block w0 xs ys K w' \<and> n = instr_count w' \<and> instr_count w' = instr_count w + k))"

lemma emit_ok:
  assumes "emitter k f" "block w0 xs ys K w"
    "\<And>w'. \<lbrakk>block w0 xs ys K w'; instr_count w' = instr_count w + k\<rbrakk> \<Longrightarrow> Q (instr_count w', w')"
  shows "ok (f w) Q"
  using assms unfolding emitter_def ok_def by blast

lemma block_insert:
  assumes b: "block w0 xs ys K w" and op: "plain_opcode opcode" "opcode \<noteq> CEE_SWITCH" "opcode \<noteq> 0x2A"
    and t: "OPCODEFLAGS_BranchTarget (op_flags opcode) \<Longrightarrow> target = 0" and f: "insert_new opcode arg target w = Some (n, w')"
  shows "block w0 xs ys (insert (n, opcode, target) K) w' \<and> n = instr_count w' \<and> instr_count w' = instr_count w + 1"
proof -
  obtain code where c: "at w (xs @ code) ys" "map instr_id code = [Suc (instr_count w0)..<Suc (instr_count w)]"
    "list_all (\<lambda>i. m_opcode i \<noteq> 0x2A \<and> \<not> is_arg i) code" "K \<subseteq> facts ` set code"
    and b': "instr_count w0 \<le> instr_count w" "list_all (\<lambda>i. instr_id i \<le> instr_count w0) (xs @ ys)"
      "clauses (m_ILRewriter w) = clauses (m_ILRewriter w0)"
    using b by (auto simp: block_def)
  define i where "i = \<lparr>instr_id = n, m_opcode = opcode, m_arg = arg, m_target = target\<rparr>"
  have "0 \<in> set (labels zs)" for zs by (simp add: labels_def)
  note a = at_insert [OF c(1) op(1,2) _ f, folded i_def]
  have a: "n = instr_count w + 1" "instr_count w' = n" "m_EH (m_ILRewriter w') = m_EH (m_ILRewriter w)" "at w' (xs @ code @ [i]) ys"
    using a t \<open>0 \<in> set (labels ((xs @ code) @ ys))\<close> by auto
  have "\<not> is_arg i" using plain_opcode_facts(3) [OF op(1)] by (simp add: is_arg_def i_def)
  moreover have "map instr_id (code @ [i]) = [Suc (instr_count w0)..<Suc (instr_count w')]" using a(1,2) b'(1) c(2) by (simp add: i_def)
  moreover have "insert (n, opcode, target) K \<subseteq> facts ` set (code @ [i])" using c(4) by (auto simp: i_def facts_def)
  moreover have "clauses (m_ILRewriter w') = clauses (m_ILRewriter w0)" using a(3) b'(3) by (simp add: clauses_def)
  ultimately show ?thesis using a b'(1,2) c(3) op(3) unfolding block_def by (auto simp: i_def simp del: upt_Suc intro!: exI [of _ "code @ [i]"])
qed

section \<open>The operations\<close>

text \<open>The opcodes of the instrumentation, of which three branch.\<close>

definition emitted_opcode :: "nat \<Rightarrow> bool" where
  "emitted_opcode opcode \<longleftrightarrow> plain_opcode opcode \<and> opcode \<noteq> CEE_SWITCH \<and> opcode \<noteq> 0x2A"

lemma emitted_opcodes: "list_all emitted_opcode
  [0x02, 0x03, 0x04, 0x05, 0x06, 0x07, 0x08, 0x09, 0x0A, 0x0B, 0x0C, 0x0D, 0x0E, 0x0F, 0x11, 0x12, 0x13, 0x14, 0x16, 0x17,
   0x18, 0x19, 0x1A, 0x1B, 0x1C, 0x1D, 0x1E, 0x1F, 0x20, 0x25, 0x26, 0x28, 0x2B, 0x2D, 0x6F, 0x71, 0x75, 0x8C,
   0x8D, 0xA2, 0xD0, 0xDC, 0xDE, 0xE0, 0x101, 0x103, 0x109, 0x10A, 0x10C, 0x10D, 0x10E, 0x111, 0x11A]"
  by code_simp

lemma insert_ok:
  assumes "emitted_opcode opcode" "block w0 xs ys K w"
    "\<And>w'. \<lbrakk>block w0 xs ys (insert (instr_count w', opcode, 0) K) w'; instr_count w' = instr_count w + 1\<rbrakk> \<Longrightarrow> Q (instr_count w', w')"
  shows "ok (insert_new opcode arg 0 w) Q"
  unfolding ok_def using block_insert [OF assms(2), of opcode 0 arg] assms(1,3) by (auto simp: emitted_opcode_def)

lemma emitter_insert: "emitted_opcode opcode \<Longrightarrow> emitter 1 (insert_new opcode arg 0)"
  unfolding emitter_def by (auto intro!: insert_ok intro: block_mono)

lemma emitter_if: "\<lbrakk>b \<Longrightarrow> emitter k f; \<not> b \<Longrightarrow> emitter k g\<rbrakk> \<Longrightarrow> emitter k (if b then f else g)"
  by simp

lemma emitter_nth: "\<lbrakk>list_all emitted_opcode ops; k < length ops\<rbrakk> \<Longrightarrow> emitter 1 (insert_new (ops ! k) arg 0)"
  by (auto simp: list_all_length simp del: One_nat_def intro: emitter_insert)

lemma then_op_bind: "then_op f g w = Option.bind (f w) (\<lambda>(n, w). g w)"
  by (cases "f w") (auto simp: then_op_def)

lemma emitter_then:
  assumes "emitter k f" "emitter l g"
  shows "emitter (k + l) (then_op f g)"
  unfolding emitter_def then_op_bind
  by (intro allI impI ok_bind, erule emit_ok [OF assms(1)], simp, erule emit_ok [OF assms(2)]) simp

lemma emitters:
  "emitter 1 Pop" "emitter 1 LoadNull" "emitter 1 (LoadArgumentRef k)" "emitter 1 (Box t)" "emitter 1 (CallMember t b)" "emitter 1 Duplicate"
  "emitter 1 EndLoadValueIntoArray" "emitter 1 (LoadToken t)" "emitter 1 (LoadObj t)" "emitter 1 (LoadLocalAddress k)" "emitter 1 Rethrow"
  "emitter 1 EndFinally" "emitted_opcode opcode \<Longrightarrow> emitter 1 (CreateInstr opcode)" "emitted_opcode opcode \<Longrightarrow> emitter 1 (CreateInstr_arg opcode a)"
  using emitted_opcodes
  by (auto simp: Pop_def LoadNull_def LoadArgumentRef_def Box_def CallMember_def Duplicate_def EndLoadValueIntoArray_def LoadToken_def
      LoadObj_def LoadLocalAddress_def Rethrow_def EndFinally_def CreateInstr_def CreateInstr_arg_def
      simp del: One_nat_def intro!: emitter_insert emitter_if)

lemma emitters_short: "emitter 1 (LoadInt32 v)" "emitter 1 (LoadArgument k)" "emitter 1 (StLocal k)" "emitter 1 (LoadLocal k)"
proof -
  have *: "list_all emitted_opcode [0x16, 0x17, 0x18, 0x19, 0x1A, 0x1B, 0x1C, 0x1D, 0x1E]" "list_all emitted_opcode [0x02, 0x03, 0x04, 0x05]"
    "list_all emitted_opcode [0x0A, 0x0B, 0x0C, 0x0D]" "list_all emitted_opcode [0x06, 0x07, 0x08, 0x09]"
    "emitted_opcode 0x1F" "emitted_opcode 0x20" "emitted_opcode 0x0E" "emitted_opcode 0x109" "emitted_opcode 0x13" "emitted_opcode 0x10E"
    "emitted_opcode 0x11" "emitted_opcode 0x10C" using emitted_opcodes by simp_all
  show "emitter 1 (LoadInt32 v)" unfolding LoadInt32_def by (intro emitter_if emitter_insert emitter_nth *) auto
  show "emitter 1 (LoadArgument k)" unfolding LoadArgument_def by (intro emitter_if emitter_insert emitter_nth *) auto
  show "emitter 1 (StLocal k)" unfolding StLocal_def by (intro emitter_if emitter_insert emitter_nth *) auto
  show "emitter 1 (LoadLocal k)" unfolding LoadLocal_def by (intro emitter_if emitter_insert emitter_nth *) auto
qed

lemma emitters_array: "emitter 2 (CreateArray t n)" "emitter 2 (BeginLoadValueIntoArray k)"
proof -
  have "emitted_opcode 0x8D" using emitted_opcodes by simp
  then have "emitter (1 + 1) (CreateArray t n)" unfolding CreateArray_def by (intro emitter_then emitters_short emitter_insert)
  moreover have "emitter (1 + 1) (BeginLoadValueIntoArray k)"
    unfolding BeginLoadValueIntoArray_def by (intro emitter_then emitters(6) emitters_short)
  ultimately show "emitter 2 (CreateArray t n)" "emitter 2 (BeginLoadValueIntoArray k)" by (simp_all add: numeral_2_eq_2)
qed

lemma branch_opcodes: "emitted_opcode 0xDE" "emitted_opcode 0x2B" "emitted_opcode 0x2D" "emitted_opcode 0x25" "emitted_opcode 0x26"
  "emitted_opcode 0x75" "emitted_opcode 0x101" "emitted_opcode 0x103" "emitted_opcode 0x111" "emitted_opcode 0xE0"
  using emitted_opcodes by simp_all

lemmas all_emitters = emitters(1-12) emitters_short emitters_array emitters(13) [OF branch_opcodes(2)]
  emitters(13) [OF branch_opcodes(3)] emitters(13) [OF branch_opcodes(4)] emitters(13) [OF branch_opcodes(5)] emitters(14) [OF branch_opcodes(6)]
  emitters(13) [OF branch_opcodes(7)] emitters(13) [OF branch_opcodes(8)] emitters(13) [OF branch_opcodes(9)] emitters(13) [OF branch_opcodes(10)]

section \<open>Setting targets\<close>

lemma targeted_list:
  fixes n t :: nat and zs :: "il_instr list"
  defines "js \<equiv> map (\<lambda>i. if instr_id i = n then i\<lparr>m_target := t\<rparr> else i) zs"
  shows "map instr_id js = map instr_id zs" "map m_opcode js = map m_opcode zs" "labels js = labels zs" "well_switched k js = well_switched k zs"
    "t \<in> L \<Longrightarrow> list_all (\<lambda>i. is_branch i \<longrightarrow> m_target i \<in> L) zs \<Longrightarrow> list_all (\<lambda>i. is_branch i \<longrightarrow> m_target i \<in> L) js"
proof -
  have same: "is_arg (i\<lparr>m_target := t\<rparr>) = is_arg i" "is_branch (i\<lparr>m_target := t\<rparr>) = is_branch i" for i
    by (simp_all add: is_arg_def is_branch_def)
  show "map instr_id js = map instr_id zs" "map m_opcode js = map m_opcode zs" by (auto simp: js_def)
  show "labels js = labels zs" unfolding labels_def js_def by (induction zs) (auto simp: same)
  show "well_switched k js = well_switched k zs" unfolding js_def by (induction k zs rule: well_switched.induct) (auto simp: same)
  show "t \<in> L \<Longrightarrow> list_all (\<lambda>i. is_branch i \<longrightarrow> m_target i \<in> L) zs \<Longrightarrow> list_all (\<lambda>i. is_branch i \<longrightarrow> m_target i \<in> L) js"
    unfolding js_def by (induction zs) (auto simp: same)
qed

lemma same_ids_wf:
  assumes r: "wf_rewriter r" and ids: "map instr_id js = map instr_id (m_IL r)" "labels js = labels (m_IL r)"
    "well_switched 0 js" "list_all (\<lambda>i. is_branch i \<longrightarrow> m_target i \<in> set (labels js)) js"
  shows "wf_rewriter (r\<lparr>m_IL := js\<rparr>)"
proof -
  have "m_pNext h js = m_pNext h (m_IL r)" for h using next_from_ids [OF ids(1)] by (simp add: m_pNext_def)
  then have "wf_clause js = wf_clause (m_IL r)" using ids(1,2) by (intro ext) (simp add: wf_clause_def del: set_map)
  moreover have "list_all (\<lambda>i. instr_id i \<le> n) js = list_all (\<lambda>i. instr_id i \<le> n) (m_IL r)" for n
    using arg_cong [OF ids(1), of "list_all (\<lambda>k. k \<le> n)"] by (simp add: list.pred_map o_def)
  moreover have "length js = length (m_IL r)" using arg_cong [OF ids(1), of length] by simp
  moreover have "wf_code js" using r ids unfolding wf_rewriter_def wf_code_def by simp
  ultimately show ?thesis using r by (simp add: wf_rewriter_def clauses_def)
qed

lemma set_target_inv:
  assumes "rewriting_inv w" "t \<in> set (labels (m_IL (m_ILRewriter w)))"
  shows "rewriting_inv (set_target n t w)"
proof -
  let ?is = "m_IL (m_ILRewriter w)"
  let ?js = "map (\<lambda>i. if instr_id i = n then i\<lparr>m_target := t\<rparr> else i) ?is"
  have r: "wf_rewriter (m_ILRewriter w)" "wf_code ?is" using assms(1) by (auto simp: rewriting_inv_def wf_wrapper_def wf_rewriter_def)
  note l = targeted_list [where n = n and t = t and zs = ?is]
  have "wf_rewriter ((m_ILRewriter w)\<lparr>m_IL := ?js\<rparr>)"
    using r l(5) [of "set (labels ?is)"] assms(2) by (intro same_ids_wf l(1,3)) (simp_all add: l(3,4) wf_code_def)
  then show ?thesis using assms(1) l(3) by (auto simp: rewriting_inv_def wf_wrapper_def set_target_def split: option.splits)
qed

definition retarget :: "nat \<Rightarrow> nat \<Rightarrow> nat \<times> nat \<times> nat \<Rightarrow> nat \<times> nat \<times> nat" where
  "retarget n t = (\<lambda>(a, opcode, target). (a, opcode, if a = n then t else target))"

lemma block_target:
  assumes b: "block w0 xs ys K w" and n: "instr_count w0 < n" and t: "instr_count w0 < t \<and> t \<le> instr_count w \<or> t \<in> set (labels ys)"
  shows "block w0 xs ys (retarget n t ` K) (set_target n t w)" "instr_count (set_target n t w) = instr_count w"
proof -
  obtain code where c: "at w (xs @ code) ys" "map instr_id code = [Suc (instr_count w0)..<Suc (instr_count w)]"
    "list_all (\<lambda>i. m_opcode i \<noteq> 0x2A \<and> \<not> is_arg i) code" "K \<subseteq> facts ` set code"
    and old: "instr_count w0 \<le> instr_count w" "list_all (\<lambda>i. instr_id i \<le> instr_count w0) (xs @ ys)"
      "clauses (m_ILRewriter w) = clauses (m_ILRewriter w0)"
    using b by (auto simp: block_def)
  let ?upd = "\<lambda>i. if instr_id i = n then i\<lparr>m_target := t\<rparr> else i"
  have il: "m_IL (m_ILRewriter w) = xs @ code @ ys" using c(1) by (simp add: at_def)
  have "instr_id i \<noteq> n" if "i \<in> set (xs @ ys)" for i using old(2) n that unfolding list_all_iff by fastforce
  then have keep: "map ?upd xs = xs" "map ?upd ys = ys" by (simp_all add: map_idI)
  have "set (map instr_id code) = {instr_count w0<..instr_count w}" unfolding c(2) by auto
  moreover have "set (map instr_id code) \<subseteq> set (labels (xs @ code @ ys))" using c(3) by (auto simp: labels_def list_all_iff)
  moreover have "set (labels ys) \<subseteq> set (labels (xs @ code @ ys))" by (auto simp: labels_def)
  ultimately have "t \<in> set (labels (xs @ code @ ys))" using t by auto
  then have "rewriting_inv (set_target n t w)" using c(1) il by (intro set_target_inv) (auto simp: at_def)
  moreover have "m_IL (m_ILRewriter (set_target n t w)) = xs @ map ?upd code @ ys" using il keep by (simp add: set_target_def)
  ultimately have "at (set_target n t w) (xs @ map ?upd code) ys" using c(1) by (simp add: at_def set_target_def)
  moreover have "list_all (\<lambda>i. m_opcode i \<noteq> 0x2A \<and> \<not> is_arg i) (map ?upd code)" using c(3) by (auto simp: list_all_iff is_arg_def)
  moreover have "map instr_id (map ?upd code) = map instr_id code" by auto
  moreover have "facts (?upd i) = retarget n t (facts i)" for i by (simp add: retarget_def facts_def)
  then have "facts ` set (map ?upd code) = retarget n t ` facts ` set code" unfolding set_map image_image by (rule image_cong [OF refl])
  then have "retarget n t ` K \<subseteq> facts ` set (map ?upd code)" using image_mono [OF c(4), of "retarget n t"] by (simp only: )
  moreover show "instr_count (set_target n t w) = instr_count w" by (simp add: set_target_def)
  ultimately show "block w0 xs ys (retarget n t ` K) (set_target n t w)" unfolding block_def using c old
    by (intro conjI exI [of _ "map ?upd code"]) (simp_all add: set_target_def clauses_def del: set_map)
qed

text \<open>A target of an instruction that is not among the known ones.\<close>

lemma block_known: "\<lbrakk>block w0 xs ys K w; (a, opcode, t) \<in> K\<rbrakk> \<Longrightarrow> instr_count w0 < a \<and> a \<le> instr_count w"
proof -
  assume "block w0 xs ys K w" "(a, opcode, t) \<in> K"
  then obtain code where c: "map instr_id code = [Suc (instr_count w0)..<Suc (instr_count w)]" "(a, opcode, t) \<in> facts ` set code"
    unfolding block_def by blast
  from c(2) obtain i where "i \<in> set code" "instr_id i = a" by (auto simp: facts_def)
  then have "a \<in> set (map instr_id code)" by auto
  then show ?thesis unfolding c(1) by auto
qed

lemma retarget_others: "(\<And>a opcode x. (a, opcode, x) \<in> K \<Longrightarrow> a \<noteq> n) \<Longrightarrow> retarget n t ` K = K"
  by (force simp: retarget_def)

lemma block_target_new:
  assumes "block w0 xs ys K v" "block w0 xs ys K w" "instr_count v < n" "n < t" "t \<le> instr_count w"
  shows "block w0 xs ys K (set_target n t w)"
proof -
  have n: "a \<noteq> n" if "(a, opcode, x) \<in> K" for a opcode x using block_known [OF assms(1) that] assms(3) by linarith
  have "instr_count w0 < n" using assms(1,3) by (simp add: block_def)
  with block_target(1) [OF assms(2) this, of t] retarget_others [of K, OF n] assms(4,5) show ?thesis by simp
qed

end
