(* ===== verification/Call_Target_Parts.thy ===== *)
theory Call_Target_Parts
  imports Call_Target_Blocks
begin

text \<open>
  What the two parts of the instrumentation emit: the code before the method, and the code behind it.
\<close>

section \<open>Rules for the operations\<close>

lemmas emits = all_emitters [THEN emit_ok]

lemma count_set_target [simp]: "instr_count (set_target n t w) = instr_count w"
  by (simp add: set_target_def)

lemma leave_ok:
  assumes "block w0 xs ys K w"
    "\<And>w'. \<lbrakk>block w0 xs ys (insert (instr_count w', CEE_LEAVE_S, 0) K) w'; instr_count w' = instr_count w + 1\<rbrakk> \<Longrightarrow> Q (instr_count w', w')"
  shows "ok (CreateInstr CEE_LEAVE_S w) Q"
  unfolding CreateInstr_def using branch_opcodes(1) [folded CEE_LEAVE_S_def] assms by (rule insert_ok)

lemma rethrow_ok:
  assumes "block w0 xs ys K w"
    "\<And>w'. \<lbrakk>block w0 xs ys (insert (instr_count w', 0x11A, 0) K) w'; instr_count w' = instr_count w + 1\<rbrakk> \<Longrightarrow> Q (instr_count w', w')"
  shows "ok (Rethrow w) Q"
proof -
  have "emitted_opcode 0x11A" using emitted_opcodes by simp
  then show ?thesis unfolding Rethrow_def using assms by (rule insert_ok)
qed

lemma endfinally_ok:
  assumes "block w0 xs ys K w"
    "\<And>w'. \<lbrakk>block w0 xs ys (insert (instr_count w', 0xDC, 0) K) w'; instr_count w' = instr_count w + 1\<rbrakk> \<Longrightarrow> Q (instr_count w', w')"
  shows "ok (EndFinally w) Q"
proof -
  have "emitted_opcode 0xDC" using emitted_opcodes by simp
  then show ?thesis unfolding EndFinally_def using assms by (rule insert_ok)
qed

text \<open>A new signature of the locals.\<close>

lemma at_signature:
  assumes "at w xs ys" "t < 2 ^ 32"
  shows "at (w\<lparr>m_ILRewriter := SetTkLocalVarSig t (m_ILRewriter w)\<rparr>) xs ys"
  using assms by (auto simp: at_def rewriting_inv_def wf_wrapper_def wf_rewriter_def SetTkLocalVarSig_def clauses_def split: option.splits)

lemma ok_any: "(\<And>x. m = Some x \<Longrightarrow> Q x) \<Longrightarrow> ok m Q"
  by (simp add: ok_def)

lemma ok_case_list: "\<lbrakk>xs = [] \<Longrightarrow> ok m Q; \<And>y ys. xs = y # ys \<Longrightarrow> ok (f y ys) Q\<rbrakk> \<Longrightarrow> ok (case xs of [] \<Rightarrow> m | y # ys \<Rightarrow> f y ys) Q"
  by (cases xs) simp_all

lemma locals_ok:
  assumes "at w xs ys" "newLocalVarSig l < 2 ^ 32"
    "\<And>n w'. \<lbrakk>block w xs ys {} w'; n = instr_count w + 1; n \<le> instr_count w'\<rbrakk> \<Longrightarrow> Q (n, w')"
  shows "ok (ModifyLocalSigAndInitialize c l w) Q"
proof -
  define v where "v = w\<lparr>m_ILRewriter := SetTkLocalVarSig (newLocalVarSig l) (m_ILRewriter w)\<rparr>"
  have v: "instr_count v = instr_count w" "clauses (m_ILRewriter v) = clauses (m_ILRewriter w)"
    by (simp_all add: v_def SetTkLocalVarSig_def clauses_def)
  then have w: "block w xs ys {} v" using block_start [of v xs ys] at_signature [OF assms(1,2)] by (simp add: v_def [symmetric] block_def)
  show ?thesis
    unfolding ModifyLocalSigAndInitialize_def v_def [symmetric] Let_def using w
    by - (rule ok_bind | rule ok_if | erule emits | simp only: prod.case ok_simps | (rule assms(3); simp add: v; fail) | rule ok_any)+
qed

lemma load_instance_ok:
  assumes "block w0 xs ys K w"
    "\<And>n w'. \<lbrakk>block w0 xs ys K w'; n = instr_count w + 1; n \<le> instr_count w'\<rbrakk> \<Longrightarrow> Q (n, w')"
  shows "ok (load_instance c w) Q"
  unfolding load_instance_def using assms(1)
  by - (rule ok_bind | rule ok_if | erule emits | simp only: prod.case ok_simps | (rule assms(2); simp; fail) | rule ok_any)+

lemma ref_struct_ok:
  assumes "block w0 xs ys K w" "\<And>n w'. \<lbrakk>block w0 xs ys K w'; instr_count w \<le> instr_count w'\<rbrakk> \<Longrightarrow> Q (n, w')"
  shows "ok (WriteRefStructCall c t k w) Q"
  unfolding WriteRefStructCall_def using assms(1)
  by - (rule ok_bind | rule ok_if | erule emits | simp only: prod.case ok_simps | (rule assms(2); simp; fail) | rule ok_any)+

text \<open>The arguments.\<close>

lemma load_direct_ok:
  assumes "block w0 xs ys K w" "\<And>w'. \<lbrakk>block w0 xs ys K w'; instr_count w \<le> instr_count w'\<rbrakk> \<Longrightarrow> Q w'"
  shows "ok (load_direct c i ks as w) Q"
  using assms
proof (induction as arbitrary: i ks w)
  case (Cons a as)
  have *: "ok (load_direct c (i + 1) ls as v) Q" if "block w0 xs ys K v" "instr_count w \<le> instr_count v" for ls v
    using that by (intro Cons.IH Cons.prems(2)) auto
  show ?case unfolding load_direct.simps Let_def using Cons.prems(1)
    by - (rule ok_bind | rule ok_if | rule ok_map | erule emits | erule ref_struct_ok | simp only: prod.case ok_simps
        | (rule *; simp; fail) | rule ok_case_list)+
qed simp

lemma load_into_array_ok:
  assumes "block w0 xs ys K w" "\<And>w'. \<lbrakk>block w0 xs ys K w'; instr_count w \<le> instr_count w'\<rbrakk> \<Longrightarrow> Q w'"
  shows "ok (load_into_array c i as w) Q"
  using assms
proof (induction as arbitrary: i w)
  case (Cons a as)
  have *: "ok (load_into_array c (i + 1) as v) Q" if "block w0 xs ys K v" "instr_count w \<le> instr_count v" for v
    using that by (intro Cons.IH Cons.prems(2)) auto
  show ?case unfolding load_into_array.simps using Cons.prems(1)
    by - (rule ok_bind | rule ok_if | erule emits | simp only: prod.case ok_simps | (rule *; simp; fail) | rule ok_any)+
qed simp

lemma load_arguments_ok:
  assumes "block w0 xs ys K w" "\<And>w'. \<lbrakk>block w0 xs ys K w'; instr_count w \<le> instr_count w'\<rbrakk> \<Longrightarrow> Q w'"
  shows "ok (load_arguments c ks w) Q"
  unfolding load_arguments_def Let_def using assms(1)
  by - (rule ok_bind | rule ok_if | erule emits | simp only: prod.case ok_simps | (erule load_direct_ok; rule assms(2); simp; fail)
    | (erule load_into_array_ok; rule assms(2); simp; fail) | (rule assms(2); simp; fail))+

text \<open>The filter. Its branches go forward, inside it.\<close>

lemma filter_ok:
  assumes w: "block w0 xs ys K w"
    and Q: "\<And>n w'. \<lbrakk>block w0 xs ys K w'; n = instr_count w + 1; n \<le> instr_count w'\<rbrakk> \<Longrightarrow> Q (n, w')"
  shows "ok (CreateFilterForException t u f k w) Q"
  unfolding CreateFilterForException_def Let_def CEE_BR_S_def using w
  by - (rule ok_bind | rule ok_case_option | erule emits | simp only: prod.case ok_simps count_set_target
    | (erule emits(16) [OF block_target_new [OF w]], simp, simp, simp) | (rule Q, rule block_target_new [OF w]; simp))+


text \<open>The handler of one of the calls.\<close>

definition handler_at :: "nat \<Rightarrow> nat option \<Rightarrow> nat option \<Rightarrow> nat \<Rightarrow> bool" where
  "handler_at n flt first leave \<longleftrightarrow>
     (case flt of Some f \<Rightarrow> f = n \<and> (\<exists>h. first = Some h \<and> n < h \<and> h < leave)
      | None \<Rightarrow> case first of None \<Rightarrow> True | Some h \<Rightarrow> h = n \<and> n < leave)"

lemma handler_ok:
  assumes w: "block w0 xs ys K w"
    and Q: "\<And>flt first leave w'. \<lbrakk>block w0 xs ys (insert (leave, CEE_LEAVE_S, 0) K) w'; leave = instr_count w'; instr_count w < leave;
      handler_at (instr_count w + 1) flt first leave\<rbrakk> \<Longrightarrow> Q (flt, first, leave, w')"
  shows "ok (write_handler c k log w) Q"
  unfolding write_handler_def using w
  by - (rule ok_bind | rule ok_case_option | rule ok_map | erule emits | erule leave_ok | erule filter_ok | simp only: prod.case option.case ok_simps
    | (rule Q; simp add: handler_at_def; fail))+

section \<open>The two parts\<close>

text \<open>
  The code before the method: its first instruction is the first of the method, a handler follows the call, and both leave for
  the instruction that was the first.
\<close>

lemma part_targets:
  assumes "block w0 xs ys (insert (b, CEE_LEAVE_S, 0) (insert (a, CEE_LEAVE_S, 0) {})) w" "a < b" "instr_count w0 < a"
    "instr_count w0 < t \<and> t \<le> instr_count w \<or> t \<in> set (labels ys)"
  shows "block w0 xs ys {(b, CEE_LEAVE_S, t), (a, CEE_LEAVE_S, t)} (set_target b t (set_target a t w))"
  using block_target(1) [OF block_target(1) [OF assms(1,3,4)], of b t] assms by (simp add: retarget_def)

lemma block_position:
  assumes "block w0 xs ys K w"
  shows "m_ILInstr w = Some (head_id ys)" "head_id ys \<in> set (labels ys)"
proof -
  obtain code where c: "at w (xs @ code) ys" using assms by (auto simp: block_def)
  then show "m_ILInstr w = Some (head_id ys)" by (simp add: at_def)
  then have "head_id ys \<in> set (labels ((xs @ code) @ ys))" using c by (auto simp: at_def rewriting_inv_def wf_wrapper_def)
  moreover have "distinct (map instr_id ((xs @ code) @ ys))" "0 \<notin> set (map instr_id ((xs @ code) @ ys))"
    using at_wf(1) [OF c] by (simp_all add: wf_code_def)
  ultimately have "\<not> is_arg y" if "ys = y # zs" for y zs
    using label_not_arg [of "xs @ code" y zs] that by (simp add: head_id_def)
  then show "head_id ys \<in> set (labels ys)" by (cases ys) (auto simp: head_id_def labels_def)
qed

lemma begin_ok:
  assumes w: "at w xs ys" and l: "newLocalVarSig l < 2 ^ 32"
    and Q: "\<And>first flt bf leave w' a p n. \<lbrakk>block w xs ys {(leave, CEE_LEAVE_S, p), (a, CEE_LEAVE_S, p)} w'; p = head_id ys; leave = instr_count w';
      first = instr_count w + 1; first < n; n \<le> leave; handler_at n flt bf leave\<rbrakk> \<Longrightarrow> Q (first, flt, bf, leave, w')"
  shows "ok (begin_part c l w) Q"
proof -
  have *: "Q (n, flt, bf, m, set_target m p (set_target k p v))"
    if v: "block w xs ys {(m, CEE_LEAVE_S, 0), (k, CEE_LEAVE_S, 0)} v" and n: "n = instr_count w + 1" "n < k" "k < m" "m = instr_count v"
      "handler_at (k + 1) flt bf m" and p: "m_ILInstr v = Some p" for n flt bf m p k v
  proof (rule Q)
    have "p = head_id ys" "p \<in> set (labels ys)" using block_position [OF v] p by auto
    then show "block w xs ys {(m, CEE_LEAVE_S, p), (k, CEE_LEAVE_S, p)} (set_target m p (set_target k p v))" "p = head_id ys"
      using part_targets [OF v] n by auto
    show "handler_at (k + 1) flt bf m" by (rule n)
  qed (use n in auto)
  show ?thesis unfolding begin_part_def using w l
    by - (rule ok_bind | rule ok_if | erule (1) locals_ok | erule emits | erule load_instance_ok | erule load_arguments_ok | erule leave_ok
      | erule handler_ok | simp only: prod.case ok_simps | (erule *; simp; fail) | rule ok_any)+
qed

text \<open>The return at the end.\<close>

lemma prev_from_last: "0 \<notin> set (map instr_id is) \<Longrightarrow> prev_from b 0 is = (if is = [] then b else instr_id (last is))"
  by (induction "is" arbitrary: b) auto

lemma insert_after_last: "\<lbrakk>is \<noteq> []; distinct (map instr_id is)\<rbrakk> \<Longrightarrow> insert_after (instr_id (last is)) i is = is @ [i]"
  by (induction "is") (auto simp: image_iff)

lemma InsertAfter_last:
  assumes "wf_code (m_IL r)"
  shows "InsertAfter (m_pPrev 0 (m_IL r)) i (r\<lparr>m_nInstrs := n\<rparr>) = AdjustState i (r\<lparr>m_nInstrs := n, m_IL := m_IL r @ [i]\<rparr>)"
proof (cases "m_IL r = []")
  case False
  then have "instr_id (last (m_IL r)) \<in> set (map instr_id (m_IL r))" by simp
  then have "instr_id (last (m_IL r)) \<noteq> 0" using assms by (auto simp: wf_code_def)
  with assms False show ?thesis by (simp add: InsertAfter_def m_pPrev_def wf_code_def prev_from_last insert_after_last)
qed (simp add: InsertAfter_def m_pPrev_def)

lemma append_ok:
  assumes w: "at w xs ys" and v: "append_return w = (n, v)"
  shows "n = instr_count w + 1" "instr_count v = n" "clauses (m_ILRewriter v) = clauses (m_ILRewriter w)"
    "at v (xs @ ys) [\<lparr>instr_id = n, m_opcode = 0x2A, m_arg = 0, m_target = 0\<rparr>]"
proof -
  define r where "r = m_ILRewriter w"
  define i where "i = \<lparr>instr_id = m_nInstrs r + 1, m_opcode = 0x2A, m_arg = 0, m_target = 0\<rparr>"
  have r: "wf_rewriter r" "m_IL r = xs @ ys" "wf_code (m_IL r)" "\<not> m_fGenerateTinyHeader r"
    using w by (auto simp: at_def rewriting_inv_def wf_wrapper_def wf_rewriter_def r_def)
  have v': "n = m_nInstrs r + 1" "v = SetILPosition n (w\<lparr>m_ILRewriter := InsertAfter (m_pPrev 0 (m_IL r)) i (r\<lparr>m_nInstrs := n\<rparr>)\<rparr>)"
    using v by (auto simp: append_return_def NewILInstr_def Let_def r_def i_def)
  have s: "m_ILRewriter v = r\<lparr>m_IL := (xs @ ys) @ i # [], m_nInstrs := m_nInstrs r + 1, m_maxStack := m_maxStack r + of_nat (k_rgnStackPushes ! m_opcode i)\<rparr>"
    unfolding v'(2) InsertAfter_last [OF r(3)] using r(2) by (cases r) (simp add: SetILPosition_def AdjustState_def v'(1))
  show n: "n = instr_count w + 1" "instr_count v = n" "clauses (m_ILRewriter v) = clauses (m_ILRewriter w)"
    using v'(1) s by (simp_all add: r_def clauses_def)
  have "simple_opcode 0x2A" using wrapper_opcodes by simp
  then have i: "insertable r i" "instr_id i = m_nInstrs r + 1" "\<not> is_arg i"
    using plain_opcode_facts(3) by (simp_all add: insertable_def i_def is_branch_def simple_opcode_def is_arg_def)
  have "wf_rewriter (m_ILRewriter v)" unfolding s by (rule insert_wf(1) [OF r(1) _ _ i(1,2)]) (simp_all add: r(2))
  moreover have "m_ILInstr v = Some n" "n \<in> set (labels (m_IL (m_ILRewriter v)))"
    using v' s i by (simp_all add: SetILPosition_def labels_def)
  moreover have "\<not> m_fGenerateTinyHeader (m_ILRewriter v)" using r(4) s by simp
  ultimately show "at v (xs @ ys) [\<lparr>instr_id = n, m_opcode = 0x2A, m_arg = 0, m_target = 0\<rparr>]"
    using s v'(1) by (simp add: at_def rewriting_inv_def wf_wrapper_def i_def head_id_def)
qed

text \<open>
  The code behind the method: two instructions catch and rethrow, the call and its handler are the body of the finally
  clause, and both leave for its end.
\<close>

lemma end_ok:
  assumes w: "block w0 xs ys {} w"
    and Q: "\<And>start rethrow try flt first leave fin w' a n. \<lbrakk>block w0 xs ys {(fin, 0xDC, 0), (leave, CEE_LEAVE_S, fin), (a, CEE_LEAVE_S, fin), (rethrow, 0x11A, 0)} w';
      handler_at n flt first leave; start = instr_count w + 1; rethrow = instr_count w + 2; try = instr_count w + 3; try < n; n \<le> leave;
      fin = leave + 1; fin \<le> instr_count w'\<rbrakk> \<Longrightarrow> Q (start, rethrow, try, flt, first, leave, fin, w')"
  shows "ok (end_part c l w) Q"
proof -
  have w0: "instr_count w0 \<le> instr_count w" using w by (simp add: block_def)
  have *: "block w0 xs ys {(f, 0xDC, 0), (m, CEE_LEAVE_S, f), (k, CEE_LEAVE_S, f), (r, 0x11A, 0)} (set_target m f (set_target k f v))"
    if v: "block w0 xs ys {(f, 0xDC, 0), (m, CEE_LEAVE_S, 0), (k, CEE_LEAVE_S, 0), (r, 0x11A, 0)} v" and n: "instr_count w < r" "r < k" "k < m" "m < f" "f \<le> instr_count v"
    for f m k r v
  proof -
    have v': "block w0 xs ys (retarget k f ` {(f, 0xDC, 0), (m, CEE_LEAVE_S, 0), (k, CEE_LEAVE_S, 0), (r, 0x11A, 0)}) (set_target k f v)"
      using n w0 by (intro block_target(1) [OF v]) auto
    have "block w0 xs ys (retarget m f ` retarget k f ` {(f, 0xDC, 0), (m, CEE_LEAVE_S, 0), (k, CEE_LEAVE_S, 0), (r, 0x11A, 0)}) (set_target m f (set_target k f v))"
      using n w0 by (intro block_target(1) [OF v']) auto
    then show ?thesis using n by (simp add: retarget_def)
  qed
  show ?thesis unfolding end_part_def Let_def using w
    by - (rule ok_bind | rule ok_if | rule ok_map | rule ok_case_option | erule rethrow_ok | erule endfinally_ok | erule emits
      | erule load_instance_ok | erule leave_ok | erule handler_ok | simp only: prod.case ok_simps snd_conv
      | (erule emits(16) [OF *], simp, simp, simp, simp, simp) | (erule Q, assumption; simp) | (rule Q, erule *; (assumption | simp)) | rule ok_any)+
qed

end
