(* ===== verification/Call_Target_Method.thy ===== *)
theory Call_Target_Method
  imports Call_Target_Parts
begin

text \<open>
  The instrumented method: the code in front, the method's own code with its returns replaced, the code behind and one return,
  with four exception clauses around them. It is well-formed whenever the method was, and it is what its new body reads back as.
\<close>

section \<open>Replaced returns\<close>

text \<open>What stands for an instruction of the method.\<close>

definition stands_for :: "bool \<Rightarrow> nat \<Rightarrow> nat \<Rightarrow> il_instr \<Rightarrow> il_instr list \<Rightarrow> bool" where
  "stands_for void value target i g \<longleftrightarrow>
     (if m_opcode i \<noteq> 0x2A then g = [i]
      else if void then g = [i\<lparr>m_opcode := CEE_LEAVE_S, m_target := target\<rparr>]
      else value mod 2 ^ 16 < 2 ^ 15 \<and>
        (\<exists>n. g = [i\<lparr>m_opcode := 0x10E, m_arg := value mod 2 ^ 16\<rparr>, \<lparr>instr_id = n, m_opcode = CEE_LEAVE_S, m_arg = 0, m_target = target\<rparr>]))"

lemma replace_returns_Cons:
  assumes "replace_returns v k r t f (i # xs) = Some (js, n)"
  obtains zs where "\<not> (m_opcode i = 0x2A \<and> instr_id i \<noteq> r)" "replace_returns v k r t f xs = Some (zs, n)" "js = i # zs"
  | zs where "m_opcode i = 0x2A" "instr_id i \<noteq> r" "v" "replace_returns v k r t f xs = Some (zs, n)"
      "js = i\<lparr>m_opcode := CEE_LEAVE_S, m_target := t\<rparr> # zs"
  | zs where "m_opcode i = 0x2A" "instr_id i \<noteq> r" "\<not> v" "k mod 2 ^ 16 < 2 ^ 15" "replace_returns v k r t (f + 1) xs = Some (zs, n)"
      "js = i\<lparr>m_opcode := 0x10E, m_arg := k mod 2 ^ 16\<rparr> # \<lparr>instr_id = f + 1, m_opcode = CEE_LEAVE_S, m_arg = 0, m_target = t\<rparr> # zs"
  using assms by (auto split: if_splits)

lemma replace_returns_other: "list_all (\<lambda>i. m_opcode i = 0x2A \<longrightarrow> instr_id i = r) xs \<Longrightarrow> replace_returns v k r t f xs = Some (xs, f)"
  by (induction xs) auto

lemma replace_returns_append:
  "replace_returns v k r t f (xs @ ys) = Some (js, n) \<Longrightarrow>
   \<exists>as bs g. js = as @ bs \<and> replace_returns v k r t f xs = Some (as, g) \<and> replace_returns v k r t g ys = Some (bs, n)"
proof (induction xs arbitrary: f js)
  case (Cons i xs)
  from Cons.prems have "replace_returns v k r t f (i # (xs @ ys)) = Some (js, n)" by simp
  then show ?case
  proof (cases rule: replace_returns_Cons)
    case (1 zs)
    from Cons.IH [OF 1(2)] obtain as bs g where "zs = as @ bs" "replace_returns v k r t f xs = Some (as, g)"
      "replace_returns v k r t g ys = Some (bs, n)" by blast
    with 1 show ?thesis by - (rule exI [of _ "i # as"], rule exI [of _ bs], rule exI [of _ g], auto)
  next
    case (2 zs)
    from Cons.IH [OF 2(4)] obtain as bs g where "zs = as @ bs" "replace_returns v k r t f xs = Some (as, g)"
      "replace_returns v k r t g ys = Some (bs, n)" by blast
    with 2 show ?thesis by - (rule exI [of _ "i\<lparr>m_opcode := CEE_LEAVE_S, m_target := t\<rparr> # as"], rule exI [of _ bs], rule exI [of _ g], auto)
  next
    case (3 zs)
    from Cons.IH [OF 3(5)] obtain as bs g where "zs = as @ bs" "replace_returns v k r t (f + 1) xs = Some (as, g)"
      "replace_returns v k r t g ys = Some (bs, n)" by blast
    with 3 show ?thesis by - (rule exI [of _ "i\<lparr>m_opcode := 0x10E, m_arg := k mod 2 ^ 16\<rparr> # \<lparr>instr_id = f + 1, m_opcode = CEE_LEAVE_S, m_arg = 0, m_target = t\<rparr> # as"], rule exI [of _ bs], rule exI [of _ g], auto)
  qed
qed simp

lemma replace_returns_groups:
  "\<lbrakk>replace_returns v k r t f xs = Some (js, n); r \<notin> set (map instr_id xs)\<rbrakk> \<Longrightarrow> \<exists>gs. js = concat gs \<and> list_all2 (stands_for v k t) xs gs"
proof (induction xs arbitrary: f js)
  case (Cons i xs)
  have r: "r \<notin> set (map instr_id xs)" "r \<noteq> instr_id i" using Cons.prems(2) by auto
  have *: "\<exists>gs. g @ zs = concat gs \<and> list_all2 (stands_for v k t) (i # xs) gs"
    if "replace_returns v k r t h xs = Some (zs, n)" "stands_for v k t i g" for g zs h
    using Cons.IH [OF that(1) r(1)] that(2) by (metis concat.simps(2) list_all2_Cons)
  from Cons.prems(1) show ?case
  proof (cases rule: replace_returns_Cons)
    case (1 zs)
    then have "stands_for v k t i [i]" using r by (simp add: stands_for_def)
    with *[OF 1(2)] 1(3) show ?thesis by fastforce
  next
    case (2 zs)
    then have "stands_for v k t i [i\<lparr>m_opcode := CEE_LEAVE_S, m_target := t\<rparr>]" by (simp add: stands_for_def)
    with *[OF 2(4)] 2(5) show ?thesis by fastforce
  next
    case (3 zs)
    then have "stands_for v k t i [i\<lparr>m_opcode := 0x10E, m_arg := k mod 2 ^ 16\<rparr>, \<lparr>instr_id = f + 1, m_opcode = CEE_LEAVE_S, m_arg = 0, m_target = t\<rparr>]"
      by (simp add: stands_for_def)
    with *[OF 3(5)] 3(6) show ?thesis by fastforce
  qed
qed simp

text \<open>The list stays well-formed.\<close>

lemma replace_returns_mono: "replace_returns v k r t f xs = Some (js, n) \<Longrightarrow> f \<le> n"
proof (induction xs arbitrary: f js)
  case (Cons i xs)
  from Cons.prems show ?case
  proof (cases rule: replace_returns_Cons)
    case (3 zs)
    then show ?thesis using Cons.IH [OF 3(5)] by simp
  qed (auto intro: Cons.IH)
qed simp

lemma replaced_opcodes: "plain_opcode CEE_LEAVE_S" "CEE_LEAVE_S \<noteq> CEE_SWITCH" "plain_opcode 0x2A" "(0x2A :: nat) \<noteq> CEE_SWITCH"
  "plain_opcode 0x10E" "(0x10E :: nat) \<noteq> CEE_SWITCH" "\<not> OPCODEFLAGS_BranchTarget (op_flags 0x10E)"
  "CEE_LEAVE_S \<noteq> CEE_SWITCH_ARG" "0x10E \<noteq> CEE_SWITCH_ARG" "0x2A \<noteq> CEE_SWITCH_ARG" "CEE_LEAVE_S \<noteq> 0x2A"
  by code_simp+

lemma replace_returns_ids:
  "\<lbrakk>replace_returns v k r t f xs = Some (js, n); list_all (\<lambda>i. instr_id i \<le> f) xs; distinct (map instr_id xs)\<rbrakk> \<Longrightarrow>
   f \<le> n \<and> length js = length xs + (n - f) \<and> distinct (map instr_id js) \<and> set (map instr_id js) = set (map instr_id xs) \<union> {f<..n}"
proof (induction xs arbitrary: f js)
  case (Cons i xs)
  have xs: "list_all (\<lambda>i. instr_id i \<le> f) xs" "list_all (\<lambda>i. instr_id i \<le> f + 1) xs" "distinct (map instr_id xs)"
    "instr_id i \<notin> set (map instr_id xs)" "instr_id i \<le> f" using Cons.prems by (auto simp: list_all_iff le_SucI)
  from Cons.prems(1) show ?case
  proof (cases rule: replace_returns_Cons)
    case (1 zs)
    with Cons.IH [OF 1(2) xs(1,3)] xs show ?thesis by auto
  next
    case (2 zs)
    with Cons.IH [OF 2(4) xs(1,3)] xs show ?thesis by auto
  next
    case (3 zs)
    with Cons.IH [OF 3(5) xs(2,3)] xs show ?thesis by (auto simp: list_all_iff)
  qed
qed auto

lemma set_labels_Cons: "set (labels (i # is)) = (if is_arg i then {} else {instr_id i}) \<union> set (labels is)"
  by (auto simp: labels_def)

lemma replace_returns_shape:
  "replace_returns v k r t f xs = Some (js, n) \<Longrightarrow>
   (well_switched m xs \<longrightarrow> well_switched m js) \<and> set (labels xs) \<subseteq> set (labels js) \<and> list_all (\<lambda>i. m_opcode i = 0x2A \<longrightarrow> instr_id i = r) js \<and>
   (t \<in> L \<longrightarrow> list_all (\<lambda>i. is_branch i \<longrightarrow> m_target i \<in> L) xs \<longrightarrow> list_all (\<lambda>i. is_branch i \<longrightarrow> m_target i \<in> L) js)"
proof (induction xs arbitrary: f js m)
  case (Cons i xs)
  from Cons.prems show ?case
  proof (cases rule: replace_returns_Cons)
    case (1 zs)
    with Cons.IH [OF 1(2)] show ?thesis by (auto simp: set_labels_Cons)
  next
    case (2 zs)
    with Cons.IH [OF 2(4), of 0] show ?thesis by (auto simp: set_labels_Cons is_arg_def is_branch_def replaced_opcodes)
  next
    case (3 zs)
    with Cons.IH [OF 3(5), of 0] show ?thesis by (auto simp: set_labels_Cons is_arg_def is_branch_def replaced_opcodes)
  qed
qed (simp add: labels_def)

lemma replace_returns_new: "replace_returns v k r t f xs = Some (js, n) \<Longrightarrow> {f<..n} \<subseteq> set (labels js)"
proof (induction xs arbitrary: f js)
  case (Cons i xs)
  from Cons.prems show ?case
  proof (cases rule: replace_returns_Cons)
    case (1 zs)
    with Cons.IH [OF 1(2)] show ?thesis by (auto simp: set_labels_Cons)
  next
    case (2 zs)
    with Cons.IH [OF 2(4)] show ?thesis by (auto simp: set_labels_Cons)
  next
    case (3 zs)
    have "{f<..n} \<subseteq> {f + 1} \<union> {f + 1<..n}" by auto
    with 3 Cons.IH [OF 3(5)] show ?thesis by (auto simp: set_labels_Cons is_arg_def replaced_opcodes)
  qed
qed simp

lemma next_from_other: "\<lbrakk>b \<noteq> h; b' \<noteq> h\<rbrakk> \<Longrightarrow> next_from b h xs = next_from b' h xs"
  by (cases xs) auto

lemma replace_returns_next:
  "\<lbrakk>replace_returns v k r t f xs = Some (js, n); h \<le> f; list_all (\<lambda>i. instr_id i \<le> f) xs\<rbrakk> \<Longrightarrow>
   next_from b h js = next_from b h xs \<or> next_from b h js \<in> {f<..n}"
proof (induction xs arbitrary: f js b)
  case (Cons i xs)
  have xs: "list_all (\<lambda>i. instr_id i \<le> f) xs" "list_all (\<lambda>i. instr_id i \<le> f + 1) xs" using Cons.prems by (auto simp: list_all_iff le_SucI)
  from Cons.prems(1) show ?case
  proof (cases rule: replace_returns_Cons)
    case (1 zs)
    with Cons.IH [OF 1(2) _ xs(1), of "instr_id i"] Cons.prems show ?thesis by auto
  next
    case (2 zs)
    with Cons.IH [OF 2(4) _ xs(1), of "instr_id i"] Cons.prems show ?thesis by auto
  next
    case (3 zs)
    have n: "f + 1 \<le> n" using replace_returns_mono [OF 3(5)] .
    with 3 Cons.IH [OF 3(5) _ xs(2), of "f + 1"] Cons.prems next_from_other [of "f + 1" h "instr_id i" xs] show ?thesis by auto
  qed
qed simp

lemma replaced_wf:
  assumes w: "wf_rewriter r" and f: "replace_returns v k e t (m_nInstrs r) (m_IL r) = Some (js, n)" and t: "t \<in> set (labels (m_IL r))"
  shows "wf_rewriter (r\<lparr>m_IL := js, m_nInstrs := n\<rparr>)"
proof -
  have wf: "wf_code (m_IL r)" "length (m_IL r) \<le> m_nInstrs r" "list_all (\<lambda>i. instr_id i \<le> m_nInstrs r) (m_IL r)" using w by (simp_all add: wf_rewriter_def)
  have ids: "m_nInstrs r \<le> n" "length js = length (m_IL r) + (n - m_nInstrs r)" "distinct (map instr_id js)"
    "set (map instr_id js) = set (map instr_id (m_IL r)) \<union> {m_nInstrs r<..n}"
    using replace_returns_ids [OF f wf(3)] wf(1) by (simp_all add: wf_code_def)
  note shape = replace_returns_shape [OF f, of 0 "set (labels js)"]
  have sub: "set (labels (m_IL r)) \<subseteq> set (labels js)" using shape by blast
  have "list_all (\<lambda>i. is_branch i \<longrightarrow> m_target i \<in> set (labels js)) (m_IL r)"
    using wf(1) sub unfolding wf_code_def list_all_iff by blast
  then have js: "wf_code js" using shape wf(1) ids(3,4) t sub unfolding wf_code_def by auto
  have "wf_clause js c" if "wf_clause (m_IL r) c" for c
  proof -
    have "m_pHandlerEnd c \<le> m_nInstrs r" using that wf(3) by (auto simp: wf_clause_def list_all_iff)
    then have "m_pNext (m_pHandlerEnd c) js \<in> set (labels js)"
      using replace_returns_next [OF f _ wf(3), of "m_pHandlerEnd c" 0] replace_returns_new [OF f] that sub
      unfolding wf_clause_def m_pNext_def by (metis subsetD)
    moreover have "set (0 # map instr_id (m_IL r)) \<subseteq> set (0 # map instr_id js)" using ids(4) by auto
    ultimately show ?thesis using that sub unfolding wf_clause_def by (meson subsetD)
  qed
  moreover have "list_all (\<lambda>i. instr_id i \<le> n) js"
  proof -
    have "\<forall>k \<in> set (map instr_id (m_IL r)). k \<le> m_nInstrs r" using wf(3) by (simp add: list_all_iff)
    then have "\<forall>k \<in> set (map instr_id js). k \<le> n" unfolding ids(4) using ids(1) by auto
    then show ?thesis by (simp add: list_all_iff)
  qed
  ultimately show ?thesis using w js ids(1,2) unfolding wf_rewriter_def clauses_def by (auto simp: list_all_iff)
qed

section \<open>The parts of the method\<close>

lemma next_split:
  assumes "distinct (map instr_id (xs @ i # ys))" "0 \<notin> set (map instr_id (xs @ i # ys))"
  shows "m_pNext (instr_id i) (xs @ i # ys) = head_id ys"
proof -
  have "next_from (instr_id i) (instr_id i) zs = head_id zs" for zs by (cases zs) (auto simp: head_id_def)
  then have "next_from b (instr_id i) (xs @ i # ys) = head_id ys" if "b \<noteq> instr_id i" "instr_id i \<notin> set (map instr_id xs)" for b
    using that by (induction xs arbitrary: b) auto
  moreover have "0 \<noteq> instr_id i" "instr_id i \<notin> set (map instr_id xs)" using assms by auto
  ultimately show ?thesis by (simp add: m_pNext_def)
qed

lemma next_nth:
  assumes "distinct (map instr_id is)" "0 \<notin> set (map instr_id is)" "Suc j < length is"
  shows "m_pNext (instr_id (is ! j)) is = instr_id (is ! Suc j)"
proof -
  have s: "is = take j is @ is ! j # drop (Suc j) is" using assms(3) by (simp add: id_take_nth_drop [symmetric])
  have "drop (Suc j) is = is ! Suc j # drop (Suc (Suc j)) is" using assms(3) by (simp add: Cons_nth_drop_Suc)
  then show ?thesis using next_split [of "take j is" "is ! j" "drop (Suc j) is"] assms(1,2) s by (metis head_id_def list.simps(5))
qed

lemma next_label:
  assumes "wf_code (xs @ i # ys)" "\<not> is_arg i" "m_opcode i \<noteq> CEE_SWITCH"
  shows "m_pNext (instr_id i) (xs @ i # ys) \<in> set (labels (xs @ i # ys))"
proof -
  have wf: "distinct (map instr_id (xs @ i # ys))" "0 \<notin> set (map instr_id (xs @ i # ys))" "well_switched 0 (xs @ i # ys)"
    using assms(1) by (simp_all add: wf_code_def)
  have "well_switched 0 ys" using well_switched_cut [OF wf(3)] assms(2,3) by simp
  then have "ys = [] \<or> \<not> is_arg (hd ys)" using plain_opcode_facts(3) by (cases ys) (auto simp: is_arg_def)
  then have "head_id ys \<in> set (labels (xs @ i # ys))" by (cases ys) (auto simp: head_id_def labels_def)
  then show ?thesis unfolding next_split [OF wf(1,2)] .
qed

text \<open>An instruction in consecutively numbered code, by its identity.\<close>

lemma numbered_at:
  assumes "map instr_id code = [Suc a..<Suc b]" "a < n" "n \<le> b"
  shows "n - Suc a < length code" "instr_id (code ! (n - Suc a)) = n"
proof -
  have "length code = b - a" using arg_cong [OF assms(1), of length] by (simp del: upt_Suc)
  then show "n - Suc a < length code" using assms(2,3) by simp
  then have "instr_id (code ! (n - Suc a)) = [Suc a..<Suc b] ! (n - Suc a)" using assms(1) by (metis nth_map)
  then show "instr_id (code ! (n - Suc a)) = n" using assms(2,3) by (simp del: upt_Suc)
qed

lemma known_at:
  assumes "map instr_id code = [Suc a..<Suc b]" "(n, opcode, t) \<in> facts ` set code"
  shows "a < n" "n \<le> b" "facts (code ! (n - Suc a)) = (n, opcode, t)"
proof -
  obtain i where i: "i \<in> set code" "facts i = (n, opcode, t)" using assms(2) by force
  then obtain k where k: "k < length code" "code ! k = i" by (meson in_set_conv_nth)
  have len: "length code = b - a" using arg_cong [OF assms(1), of length] by (simp del: upt_Suc)
  have "n = map instr_id code ! k" using k i by (simp add: facts_def)
  then have n: "n = Suc a + k" unfolding assms(1) using k(1) len by (simp del: upt_Suc)
  then show "a < n" "n \<le> b" using k(1) len by simp_all
  show "facts (code ! (n - Suc a)) = (n, opcode, t)" using n i k(2) by simp
qed

text \<open>All that is emitted, around the code that was there.\<close>

lemma emitted:
  assumes w: "at w [] ys" and l: "newLocalVarSig l < 2 ^ 32" and b: "begin_part c l w = Some (first, bflt, bf, bl, w1)"
    and a: "append_return w1 = (ret, w2)" and e: "end_part c l w2 = Some (start, rethrow, try, eflt, ef, el, fin, w3)"
  obtains pre post R p m where "m_IL (m_ILRewriter w3) = pre @ ys @ post @ [R]" "wf_rewriter (m_ILRewriter w3)"
    "instr_id R = ret" "m_opcode R = 0x2A" "ret = Suc (instr_count w1)"
    "clauses (m_ILRewriter w3) = clauses (m_ILRewriter w)" "\<not> m_fGenerateTinyHeader (m_ILRewriter w3)"
    "map instr_id pre = [Suc (instr_count w)..<Suc (instr_count w1)]" "map instr_id post = [Suc ret..<Suc (instr_count w3)]"
    "list_all (\<lambda>i. m_opcode i \<noteq> 0x2A \<and> \<not> is_arg i) (pre @ post)"
    "(bl, CEE_LEAVE_S, head_id ys) \<in> facts ` set pre" "(fin, 0xDC, 0) \<in> facts ` set post" "(el, CEE_LEAVE_S, fin) \<in> facts ` set post"
    "(rethrow, 0x11A, 0) \<in> facts ` set post"
    "bl = instr_count w1" "first = Suc (instr_count w)" "first < p" "p \<le> bl" "handler_at p bflt bf bl"
    "start = Suc ret" "rethrow = ret + 2" "try = ret + 3" "try < m" "handler_at m eflt ef el" "m \<le> el" "fin = el + 1" "fin \<le> instr_count w3"
proof -
  have "ok (begin_part c l w) (\<lambda>(first, bflt, bf, bl, w1). \<exists>a p. block w [] ys {(bl, CEE_LEAVE_S, head_id ys), (a, CEE_LEAVE_S, head_id ys)} w1 \<and>
      bl = instr_count w1 \<and> first = Suc (instr_count w) \<and> first < p \<and> p \<le> bl \<and> handler_at p bflt bf bl)"
    by (rule begin_ok [OF w l]) auto
  with b obtain k p where B: "block w [] ys {(bl, CEE_LEAVE_S, head_id ys), (k, CEE_LEAVE_S, head_id ys)} w1"
    and B': "bl = instr_count w1" "first = Suc (instr_count w)" "first < p" "p \<le> bl" "handler_at p bflt bf bl"
    unfolding ok_def by blast
  obtain pre where pre: "at w1 pre ys" "map instr_id pre = [Suc (instr_count w)..<Suc (instr_count w1)]" "list_all (\<lambda>i. m_opcode i \<noteq> 0x2A \<and> \<not> is_arg i) pre"
    "{(bl, CEE_LEAVE_S, head_id ys), (k, CEE_LEAVE_S, head_id ys)} \<subseteq> facts ` set pre" "clauses (m_ILRewriter w1) = clauses (m_ILRewriter w)"
    using B unfolding block_def by auto
  define R where "R = \<lparr>instr_id = ret, m_opcode = 0x2A, m_arg = 0, m_target = 0\<rparr>"
  note A = append_ok [OF pre(1) a, folded R_def]
  have "ok (end_part c l w2) (\<lambda>(start, rethrow, try, flt, first, leave, fin, w'). \<exists>a n.
      block w2 (pre @ ys) [R] {(fin, 0xDC, 0), (leave, CEE_LEAVE_S, fin), (a, CEE_LEAVE_S, fin), (rethrow, 0x11A, 0)} w' \<and>
      start = Suc ret \<and> rethrow = ret + 2 \<and> try = ret + 3 \<and> try < n \<and> handler_at n flt first leave \<and> n \<le> leave \<and>
      fin = leave + 1 \<and> fin \<le> instr_count w')"
    by (rule end_ok [OF block_start [OF A(4)]]) (simp add: A(2); blast)
  with e obtain k' m where E: "block w2 (pre @ ys) [R] {(fin, 0xDC, 0), (el, CEE_LEAVE_S, fin), (k', CEE_LEAVE_S, fin), (rethrow, 0x11A, 0)} w3"
    and E': "start = Suc ret" "rethrow = ret + 2" "try = ret + 3" "try < m" "handler_at m eflt ef el" "m \<le> el" "fin = el + 1" "fin \<le> instr_count w3"
    unfolding ok_def by blast
  obtain post where post: "at w3 (pre @ ys @ post) [R]" "map instr_id post = [Suc ret..<Suc (instr_count w3)]"
    "list_all (\<lambda>i. m_opcode i \<noteq> 0x2A \<and> \<not> is_arg i) post" "{(fin, 0xDC, 0), (el, CEE_LEAVE_S, fin), (k', CEE_LEAVE_S, fin), (rethrow, 0x11A, 0)} \<subseteq> facts ` set post"
    "clauses (m_ILRewriter w3) = clauses (m_ILRewriter w2)"
    using E A(2) unfolding block_def by auto
  have il: "m_IL (m_ILRewriter w3) = pre @ ys @ post @ [R]" "wf_rewriter (m_ILRewriter w3)" "\<not> m_fGenerateTinyHeader (m_ILRewriter w3)"
    using post(1) by (auto simp: at_def rewriting_inv_def wf_wrapper_def)
  have R: "instr_id R = ret" "m_opcode R = 0x2A" "ret = Suc (instr_count w1)" using A(1) by (simp_all add: R_def)
  have quiet: "list_all (\<lambda>i. m_opcode i \<noteq> 0x2A \<and> \<not> is_arg i) (pre @ post)" using pre(3) post(3) by simp
  have known: "(bl, CEE_LEAVE_S, head_id ys) \<in> facts ` set pre" "(fin, 0xDC, 0) \<in> facts ` set post" "(el, CEE_LEAVE_S, fin) \<in> facts ` set post"
    "(rethrow, 0x11A, 0) \<in> facts ` set post" using pre(4) post(4) by blast+
  have cl: "clauses (m_ILRewriter w3) = clauses (m_ILRewriter w)" using post(5) A(3) pre(5) by simp
  show thesis by (rule that [OF il(1,2) R cl il(3) pre(2) post(2) quiet known B' E'])
qed

lemma parts:
  assumes w: "at w [] ys" and l: "newLocalVarSig l < 2 ^ 32" and b: "begin_part c l w = Some (first, bflt, bf, bl, w1)"
    and a: "append_return w1 = (ret, w2)" and e: "end_part c l w2 = Some (start, rethrow, try, eflt, ef, el, fin, w3)"
    and r: "replace_returns (isVoid c) (returnValueIndex l) ret t (instr_count w3) (m_IL (m_ILRewriter w3)) = Some (is, n)"
    and t: "t = m_pNext fin (m_IL (m_ILRewriter w3))"
  obtains pre gs post R p m where "is = pre @ concat gs @ post @ [R]" "wf_rewriter ((m_ILRewriter w3)\<lparr>m_IL := is, m_nInstrs := n\<rparr>)"
    "instr_id R = ret" "m_opcode R = 0x2A" "ret = Suc (instr_count w1)"
    "clauses (m_ILRewriter w3) = clauses (m_ILRewriter w)" "\<not> m_fGenerateTinyHeader (m_ILRewriter w3)"
    "map instr_id pre = [Suc (instr_count w)..<Suc (instr_count w1)]" "map instr_id post = [Suc ret..<Suc (instr_count w3)]"
    "list_all (\<lambda>i. m_opcode i \<noteq> 0x2A \<and> \<not> is_arg i) (pre @ post)"
    "(bl, CEE_LEAVE_S, head_id ys) \<in> facts ` set pre" "(fin, 0xDC, 0) \<in> facts ` set post" "(el, CEE_LEAVE_S, fin) \<in> facts ` set post"
    "(rethrow, 0x11A, 0) \<in> facts ` set post"
    "bl = instr_count w1" "first = Suc (instr_count w)" "first < p" "p \<le> bl" "handler_at p bflt bf bl"
    "start = Suc ret" "rethrow = ret + 2" "try = ret + 3" "try < m" "handler_at m eflt ef el" "m \<le> el" "fin = el + 1" "fin \<le> instr_count w3"
    "list_all2 (stands_for (isVoid c) (returnValueIndex l) (instr_id ((post @ [R]) ! (fin - ret)))) ys gs"
    "list_all (\<lambda>i. m_opcode i = 0x2A \<longrightarrow> instr_id i = ret) is"
proof -
  obtain pre post R p m where em: "m_IL (m_ILRewriter w3) = pre @ ys @ post @ [R]" "wf_rewriter (m_ILRewriter w3)"
    "instr_id R = ret" "m_opcode R = 0x2A" "ret = Suc (instr_count w1)"
    "clauses (m_ILRewriter w3) = clauses (m_ILRewriter w)" "\<not> m_fGenerateTinyHeader (m_ILRewriter w3)"
    "map instr_id pre = [Suc (instr_count w)..<Suc (instr_count w1)]" "map instr_id post = [Suc ret..<Suc (instr_count w3)]"
    "list_all (\<lambda>i. m_opcode i \<noteq> 0x2A \<and> \<not> is_arg i) (pre @ post)"
    "(bl, CEE_LEAVE_S, head_id ys) \<in> facts ` set pre" "(fin, 0xDC, 0) \<in> facts ` set post" "(el, CEE_LEAVE_S, fin) \<in> facts ` set post"
    "(rethrow, 0x11A, 0) \<in> facts ` set post"
    "bl = instr_count w1" "first = Suc (instr_count w)" "first < p" "p \<le> bl" "handler_at p bflt bf bl"
    "start = Suc ret" "rethrow = ret + 2" "try = ret + 3" "try < m" "handler_at m eflt ef el" "m \<le> el" "fin = el + 1" "fin \<le> instr_count w3"
    by (rule emitted [OF w l b a e])
  let ?r = "m_ILRewriter w3"
  have wf: "wf_code (m_IL ?r)" using em(2) by (simp add: wf_rewriter_def)
  have ret: "ret \<notin> set (map instr_id (pre @ ys @ post))" using wf em(1,3) by (auto simp: wf_code_def)
  let ?j = "length (pre @ ys) + (fin - Suc ret)"
  note at_fin = known_at [OF em(9,12)]
  have j: "fin - Suc ret < length post" using numbered_at(1) [OF em(9) at_fin(1,2)] .
  have nth: "m_IL ?r ! ?j = post ! (fin - Suc ret)" "m_IL ?r ! Suc ?j = (post @ [R]) ! (fin - ret)" "Suc ?j < length (m_IL ?r)"
    using j at_fin(1) unfolding em(1) by (simp_all add: nth_append)
  have ids: "distinct (map instr_id (m_IL ?r))" "0 \<notin> set (map instr_id (m_IL ?r))" using wf by (simp_all add: wf_code_def)
  have "instr_id (m_IL ?r ! ?j) = fin" using at_fin(3) nth(1) by (simp add: facts_def)
  with next_nth [OF ids nth(3)] nth(2) t have tR: "t = instr_id ((post @ [R]) ! (fin - ret))" by simp
  obtain i p1 p2 where i: "post = p1 @ i # p2" "facts i = (fin, 0xDC, 0)" using at_fin(3) id_take_nth_drop [OF j] by metis
  then have i': "instr_id i = fin" "\<not> is_arg i" "m_opcode i \<noteq> CEE_SWITCH" by (simp_all add: is_arg_def opcode_defs facts_def)
  then have t': "t \<in> set (labels (m_IL ?r))" using next_label [of "pre @ ys @ p1" i "p2 @ [R]"] wf em(1) i(1) t by simp
  obtain body g as where body: "is = pre @ body @ as" "replace_returns (isVoid c) (returnValueIndex l) ret t (instr_count w3) ys = Some (body, g)"
    "replace_returns (isVoid c) (returnValueIndex l) ret t g (post @ [R]) = Some (as, n)"
  proof -
    from r em(1) obtain xs bs g where x: "is = xs @ bs" "replace_returns (isVoid c) (returnValueIndex l) ret t (instr_count w3) pre = Some (xs, g)"
      "replace_returns (isVoid c) (returnValueIndex l) ret t g (ys @ post @ [R]) = Some (bs, n)" using replace_returns_append by metis
    have "xs = pre \<and> g = instr_count w3" using x(2) replace_returns_other [of ret pre] em(10) by (auto simp: list_all_iff)
    with x replace_returns_append [OF x(3)] that show ?thesis by auto
  qed
  have "as = post @ [R]" using body(3) replace_returns_other [of ret "post @ [R]"] em(3,10) by (auto simp: list_all_iff)
  moreover obtain gs where gs: "body = concat gs" "list_all2 (stands_for (isVoid c) (returnValueIndex l) (instr_id ((post @ [R]) ! (fin - ret)))) ys gs"
    using replace_returns_groups [OF body(2)] ret tR by auto
  ultimately have "is": "is = pre @ concat gs @ post @ [R]" using body(1) by simp
  have "list_all (\<lambda>i. m_opcode i = 0x2A \<longrightarrow> instr_id i = ret) is" using replace_returns_shape [OF r] by blast
  then show thesis by (intro that [OF "is" replaced_wf [OF em(2) r t'] em(3-27) gs(2)])
qed

section \<open>The exception clauses\<close>

text \<open>
  A clause over the instructions of a list: it tries those from \<open>a\<close> up to \<open>b\<close> (exclusive), where its filter begins if it has
  one, and handles by those from \<open>h\<close> up to \<open>e\<close> (exclusive).
\<close>

definition spans :: "il_instr list \<Rightarrow> EHClause \<Rightarrow> nat \<Rightarrow> nat \<Rightarrow> nat \<Rightarrow> nat \<Rightarrow> bool" where
  "spans is c a b h e \<longleftrightarrow> a < b \<and> b \<le> h \<and> h < e \<and> e \<le> length is \<and> m_pTryBegin c = instr_id (is ! a) \<and> m_pTryEnd c = instr_id (is ! b) \<and>
     m_pHandlerBegin c = instr_id (is ! h) \<and> m_pHandlerEnd c = instr_id (is ! (e - 1)) \<and> (is_filter (m_Flags c) \<longrightarrow> m_pFilter c = instr_id (is ! b))"

lemma label_at: "\<lbrakk>j < length is; \<not> is_arg (is ! j)\<rbrakk> \<Longrightarrow> instr_id (is ! j) \<in> set (labels is)"
  by (auto simp: labels_def)

lemma spans_wf:
  assumes wf: "wf_code is" and c: "spans is c a b h e" "m_Flags c < 2 ^ 32" "m_ClassToken c < 2 ^ 32"
    and plain: "list_all (\<lambda>j. \<not> is_arg (is ! j)) [a, b, h, e - 1]" "m_opcode (is ! (e - 1)) \<noteq> CEE_SWITCH"
  shows "wf_clause is c"
proof -
  have e: "e - 1 < length is" "a < length is" "b < length is" "h < length is" using c(1) by (auto simp: spans_def)
  have "m_pNext (instr_id (is ! (e - 1))) is \<in> set (labels is)"
    using next_label [of "take (e - 1) is" "is ! (e - 1)" "drop (Suc (e - 1)) is"] id_take_nth_drop [OF e(1)] wf plain by simp
  moreover have "instr_id (is ! (e - 1)) \<in> set (map instr_id is)" using e(1) by simp
  ultimately show ?thesis using c plain e label_at [of _ "is"] by (simp add: wf_clause_def spans_def)
qed

lemma handler_spans:
  assumes code: "map instr_id code = [Suc a..<Suc b]" and h: "handler_at p flt (Some h) lv" and n: "a < tb" "tb < p" "p \<le> lv" "lv \<le> b"
  shows "spans (xs @ code @ zs) (handler_clause c tb flt h lv) (length xs + (tb - Suc a)) (length xs + (p - Suc a)) (length xs + (h - Suc a))
    (Suc (length xs + (lv - Suc a)))"
proof -
  have h': "p \<le> h" "h \<le> lv" "case flt of None \<Rightarrow> h = p | Some f \<Rightarrow> f = p" using h by (auto simp: handler_at_def split: option.splits)
  have at: "length xs + (m - Suc a) < length xs + length code" "instr_id ((xs @ code @ zs) ! (length xs + (m - Suc a))) = m" if "a < m" "m \<le> b" for m
    using numbered_at [OF code that] by (simp_all add: nth_append)
  obtain i j k m where eq: "tb = Suc a + i" "p = Suc a + j" "h = Suc a + k" "lv = Suc a + m" using n h'(1,2) by (metis le_Suc_ex Suc_leI less_le_trans order_trans less_imp_le_nat)
  then have "i < j" "j \<le> k" "k \<le> m" using n h'(1,2) by auto
  then show ?thesis using at(1) [of lv] at(2) [of tb] at(2) [of p] at(2) [of h] at(2) [of lv] n h'
    by (cases flt; simp add: spans_def handler_clause_def is_filter_def eq)
qed

section \<open>The rewritten method\<close>

text \<open>Tokens have 32 bits, and the section of the exception clauses has room for four more.\<close>

definition rewritable :: "calltarget \<Rightarrow> ILRewriter \<Rightarrow> bool" where
  "rewritable c r \<longleftrightarrow> wf_rewriter r \<and> \<not> m_fGenerateTinyHeader r \<and> 4 + 24 * (length (clauses r) + 4) < 2 ^ 24 \<and> exTypeRef c < 2 ^ 32 \<and>
     (case modified_locals c of None \<Rightarrow> True | Some l \<Rightarrow> newLocalVarSig l < 2 ^ 32)"

definition return_value :: "calltarget \<Rightarrow> nat" where
  "return_value c = returnValueIndex (the (modified_locals c))"

text \<open>
  The layout of a rewritten method: code in front, the method's own code with its returns replaced, code behind. The four new
  clauses come after the method's own: the call at the beginning and the call at the end have a handler each, all that
  precedes the end of the method's own code is caught and rethrown, and all that precedes the call at the end, rethrow
  included, has it as its finally handler.
\<close>

definition laid_out :: "calltarget \<Rightarrow> ILRewriter \<Rightarrow> ILRewriter \<Rightarrow> bool" where
  "laid_out c r r' \<longleftrightarrow> (\<exists>pre gs post k b h b' h' beginEx endEx ex finally.
     let is = m_IL r'; s = length pre + length (concat gs)
     in is = pre @ concat gs @ post \<and> pre \<noteq> [] \<and> s + 3 < k \<and> k < length is \<and>
        list_all2 (stands_for (isVoid c) (return_value c) (instr_id (is ! k))) (m_IL r) gs \<and>
        (\<forall>j < length is. m_opcode (is ! j) = 0x2A \<longleftrightarrow> Suc j = length is) \<and>
        m_opcode (last pre) = CEE_LEAVE_S \<and> m_target (last pre) = head_id (m_IL r) \<and>
        m_opcode (is ! (s + 1)) = 0x11A \<and> m_opcode (is ! (k - 1)) = 0xDC \<and>
        m_opcode (is ! (k - 2)) = CEE_LEAVE_S \<and> m_target (is ! (k - 2)) = instr_id (is ! (k - 1)) \<and>
        clauses r' = clauses r @ [beginEx, endEx, ex, finally] \<and>
        spans is beginEx 0 b h (length pre) \<and> spans is endEx (s + 2) b' h' (k - 1) \<and>
        m_Flags ex = 0 \<and> m_ClassToken ex = exTypeRef c \<and> spans is ex 0 s s (s + 2) \<and>
        m_Flags finally = 2 \<and> spans is finally 0 (s + 2) (s + 2) k)"

lemma instrument_steps:
  assumes "instrument c r = Some (first, bflt, bf, bl, start, rethrow, tryStart, eflt, ef, el, fin, s)"
  obtains l w1 ret w2 w3 "is" n where "modified_locals c = Some l"
    "begin_part c l (SetILPosition (m_pNext 0 (m_IL r)) (ILRewriterWrapper_new r)) = Some (first, bflt, bf, bl, w1)"
    "append_return w1 = (ret, w2)" "end_part c l w2 = Some (start, rethrow, tryStart, eflt, ef, el, fin, w3)"
    "replace_returns (isVoid c) (returnValueIndex l) ret (m_pNext fin (m_IL (m_ILRewriter w3))) (instr_count w3) (m_IL (m_ILRewriter w3)) = Some (is, n)"
    "s = (m_ILRewriter w3)\<lparr>m_IL := is, m_nInstrs := n\<rparr>"
  using assms that unfolding instrument_def Let_def
  by (auto simp: bind_eq_Some_conv split: prod.splits) (metis surj_pair)

lemma Rewrite_steps:
  assumes "Rewrite c r = Rewritten r'"
  obtains first bflt bf bl start rethrow tryStart eflt ef el fin s where
    "instrument c r = Some (first, bflt, Some bf, bl, start, rethrow, tryStart, eflt, Some ef, el, fin, s)"
    "r' = SetEHClause (clauses s @ [handler_clause c first bflt bf bl, handler_clause c tryStart eflt ef el,
       \<lparr>m_Flags = 0, m_pTryBegin = first, m_pTryEnd = start, m_pHandlerBegin = start, m_pHandlerEnd = rethrow, m_ClassToken = exTypeRef c, m_pFilter = 0\<rparr>,
       \<lparr>m_Flags = 2, m_pTryBegin = first, m_pTryEnd = m_pNext rethrow (m_IL s), m_pHandlerBegin = m_pNext rethrow (m_IL s), m_pHandlerEnd = fin,
        m_ClassToken = 0, m_pFilter = 0\<rparr>]) s"
proof (cases "instrument c r")
  case None
  with assms show ?thesis by (simp add: Rewrite_def split: if_splits)
next
  case (Some x)
  obtain first bflt bf bl start rethrow tryStart eflt ef el fin s where
    x: "x = (first, bflt, bf, bl, start, rethrow, tryStart, eflt, ef, el, fin, s)" by (metis prod_cases3)
  with Some assms that show ?thesis by (cases bf; cases ef; simp add: Rewrite_def catch_clause_def finally_clause_def clauses_def split: if_splits)
qed

text \<open>The position at which the rewriting begins.\<close>

lemma start_at:
  assumes "wf_rewriter r" "\<not> m_fGenerateTinyHeader r"
  shows "at (SetILPosition (m_pNext 0 (m_IL r)) (ILRewriterWrapper_new r)) [] (m_IL r)"
proof -
  have "m_pNext 0 (m_IL r) = head_id (m_IL r)" by (cases "m_IL r") (simp_all add: m_pNext_def head_id_def)
  moreover have "head_id (m_IL r) \<in> set (labels (m_IL r))"
    using assms(1) plain_opcode_facts(3) by (cases "m_IL r") (auto simp: head_id_def labels_def wf_rewriter_def wf_code_def is_arg_def)
  ultimately show ?thesis using assms
    by (simp add: at_def rewriting_inv_def wf_wrapper_def SetILPosition_def ILRewriterWrapper_new_def)
qed

text \<open>Where the parts of a clause are found, from the numbering of the code in front and behind.\<close>

lemma geometry:
  fixes pre body post :: "il_instr list" and R :: il_instr and fin ret :: nat
  defines "is \<equiv> pre @ body @ post @ [R]" and "s \<equiv> length pre + length body" and "q \<equiv> fin - Suc ret"
  assumes num: "map instr_id pre = [Suc c0..<Suc c1]" "map instr_id post = [Suc ret..<Suc c3]"
    and known: "(bl, CEE_LEAVE_S, hd_id) \<in> facts ` set pre" "(fin, 0xDC, 0) \<in> facts ` set post" "(el, CEE_LEAVE_S, fin) \<in> facts ` set post"
      "(rethrow, 0x11A, 0) \<in> facts ` set post"
    and n: "bl = c1" "first = Suc c0" "first < p" "p \<le> bl" "handler_at p bflt (Some bf) bl" "start = Suc ret" "rethrow = ret + 2" "try = ret + 3"
      "try < m" "handler_at m eflt (Some ef) el" "m \<le> el" "fin = el + 1" "fin \<le> c3"
    and ids: "distinct (map instr_id is)" "0 \<notin> set (map instr_id is)"
  shows "pre \<noteq> []" "s + 3 < s + Suc q" "s + Suc q < length is" "facts (last pre) = (bl, CEE_LEAVE_S, hd_id)" "facts (is ! (s + 1)) = (rethrow, 0x11A, 0)"
    "facts (is ! (s + q)) = (fin, 0xDC, 0)" "facts (is ! (s + q - 1)) = (el, CEE_LEAVE_S, fin)" "instr_id ((post @ [R]) ! (fin - ret)) = instr_id (is ! (s + Suc q))"
    "\<exists>b h. spans is (handler_clause c first bflt bf bl) 0 b h (length pre)"
    "\<exists>b h. spans is (handler_clause c try eflt ef el) (s + 2) b h (s + q)"
    "spans is \<lparr>m_Flags = 0, m_pTryBegin = first, m_pTryEnd = start, m_pHandlerBegin = start, m_pHandlerEnd = rethrow, m_ClassToken = t, m_pFilter = 0\<rparr> 0 s s (s + 2)"
    "spans is \<lparr>m_Flags = 2, m_pTryBegin = first, m_pTryEnd = m_pNext rethrow is, m_pHandlerBegin = m_pNext rethrow is, m_pHandlerEnd = fin,
      m_ClassToken = 0, m_pFilter = 0\<rparr> 0 (s + 2) (s + 2) (s + Suc q)"
proof -
  have len: "length pre = c1 - c0" "length post = c3 - ret"
    using arg_cong [OF num(1), of length] arg_cong [OF num(2), of length] by (simp_all del: upt_Suc)
  show pre: "pre \<noteq> []" using len n by auto
  have q: "3 < q" "Suc q \<le> length post" "fin - ret = Suc q" "el - Suc ret = q - 1" using n len by (auto simp: q_def)
  then show k: "s + 3 < s + Suc q" "s + Suc q < length is" by (simp_all add: is_def s_def)
  have post: "is ! (s + j) = post ! j" if "j < length post" for j using that by (simp add: is_def s_def nth_append)
  have pre': "is ! j = pre ! j" if "j < length pre" for j using that by (simp add: is_def nth_append)
  have last: "last pre = pre ! (bl - Suc c0)" using pre len n by (simp add: last_conv_nth)
  show "facts (last pre) = (bl, CEE_LEAVE_S, hd_id)" unfolding last by (rule known_at [OF num(1) known(1)])
  have "rethrow - Suc ret = 1" using n by simp
  then show re: "facts (is ! (s + 1)) = (rethrow, 0x11A, 0)" using known_at(3) [OF num(2) known(4)] q post [of 1] by simp
  show fin: "facts (is ! (s + q)) = (fin, 0xDC, 0)" using known_at(3) [OF num(2) known(2)] q post [of q] by (simp add: q_def)
  show "facts (is ! (s + q - 1)) = (el, CEE_LEAVE_S, fin)" using known_at(3) [OF num(2) known(3)] q post [of "q - 1"] by simp
  show "instr_id ((post @ [R]) ! (fin - ret)) = instr_id (is ! (s + Suc q))" unfolding q(3) using q by (simp add: is_def s_def nth_append)
  have is2: "[] @ pre @ (body @ post @ [R]) = is" "(pre @ body) @ post @ [R] = is" by (simp_all add: is_def)
  have l: "Suc (bl - Suc c0) = length pre" "Suc (s + (el - Suc ret)) = s + q" "try - Suc ret = 2" "length (pre @ body) = s"
    using len n pre q by (auto simp: s_def)
  show "\<exists>b h. spans is (handler_clause c first bflt bf bl) 0 b h (length pre)"
    using handler_spans [OF num(1) n(5) _ n(3,4), of "[]" "body @ post @ [R]" c, unfolded is2] n l by auto
  show "\<exists>b h. spans is (handler_clause c try eflt ef el) (s + 2) b h (s + q)"
    using handler_spans [OF num(2) n(10) _ n(9,11), of "pre @ body" "[R]" c, unfolded is2 l] n l by auto
  have f: "instr_id (is ! 0) = first" using numbered_at [OF num(1), of first] n pre' [of 0] pre by simp
  have st: "instr_id (is ! s) = start" using numbered_at [OF num(2), of start] n q post [of 0] by simp
  have s0: "0 < s" using pre by (simp add: s_def)
  have re': "instr_id (is ! (s + 1)) = rethrow" using re by (simp add: facts_def)
  with f st s0 k show "spans is \<lparr>m_Flags = 0, m_pTryBegin = first, m_pTryEnd = start, m_pHandlerBegin = start, m_pHandlerEnd = rethrow, m_ClassToken = t, m_pFilter = 0\<rparr> 0 s s (s + 2)"
    by (simp add: spans_def is_filter_def)
  have "m_pNext rethrow is = instr_id (is ! (s + 2))" using next_nth [OF ids, of "s + 1"] re' k by simp
  with f s0 k fin q show "spans is \<lparr>m_Flags = 2, m_pTryBegin = first, m_pTryEnd = m_pNext rethrow is, m_pHandlerBegin = m_pNext rethrow is, m_pHandlerEnd = fin,
      m_ClassToken = 0, m_pFilter = 0\<rparr> 0 (s + 2) (s + 2) (s + Suc q)"
    by (simp add: spans_def is_filter_def facts_def)
qed

lemma handler_clause_fits: "exTypeRef c < 2 ^ 32 \<Longrightarrow> m_Flags (handler_clause c tb flt h lv) < 2 ^ 32 \<and> m_ClassToken (handler_clause c tb flt h lv) < 2 ^ 32"
  by (simp add: handler_clause_def split: option.splits)

lemma only_return:
  assumes "list_all (\<lambda>i. m_opcode i = 0x2A \<longrightarrow> instr_id i = instr_id R) (xs @ [R])" "m_opcode R = 0x2A" "distinct (map instr_id (xs @ [R]))"
    "j < length (xs @ [R])"
  shows "m_opcode ((xs @ [R]) ! j) = 0x2A \<longleftrightarrow> Suc j = length (xs @ [R])"
proof (cases "j = length xs")
  case False
  then have "xs ! j \<in> set xs" "(xs @ [R]) ! j = xs ! j" using assms(4) by (simp_all add: nth_append)
  moreover have "m_opcode i \<noteq> 0x2A" if "i \<in> set xs" for i using assms(1,3) that by (auto simp: list_all_iff image_iff)
  ultimately show ?thesis using assms(4) False by simp
qed (use assms in simp)

lemma new_clauses_wf:
  fixes pre body :: "il_instr list"
  defines "s \<equiv> length pre + length body"
  assumes il: "is = pre @ body @ post @ [R]" "m_opcode R = 0x2A" "list_all (\<lambda>i. m_opcode i \<noteq> 0x2A \<and> \<not> is_arg i) (pre @ post)" "wf_code is"
    and k: "s + 3 < s + k" "s + k < length is"
    and c: "spans is c1 0 b1 h1 (length pre)" "spans is c2 (s + 2) b2 h2 (s + k - 1)" "spans is c3 0 s s (s + 2)" "spans is c4 0 (s + 2) (s + 2) (s + k)"
    and ends: "m_opcode (is ! (length pre - 1)) \<noteq> CEE_SWITCH" "m_opcode (is ! (s + k - 1 - 1)) \<noteq> CEE_SWITCH"
      "m_opcode (is ! (s + 2 - 1)) \<noteq> CEE_SWITCH" "m_opcode (is ! (s + k - 1)) \<noteq> CEE_SWITCH"
    and fit: "list_all (\<lambda>c. m_Flags c < 2 ^ 32 \<and> m_ClassToken c < 2 ^ 32) [c1, c2, c3, c4]"
  shows "list_all (wf_clause is) [c1, c2, c3, c4]"
proof -
  have plain: "\<not> is_arg (is ! j)" if "j < length pre \<or> s \<le> j \<and> j < s + k" for j
  proof -
    have "is ! j \<in> set (pre @ post @ [R])" using that k(2) by (auto simp: il(1) s_def nth_append)
    then show ?thesis using il(2,3) by (auto simp: list_all_iff is_arg_def opcode_defs)
  qed
  have ord: "0 < b1" "b1 \<le> h1" "h1 < length pre" "s + 2 < b2" "b2 \<le> h2" "h2 < s + k - 1" using c by (simp_all add: spans_def)
  have "\<not> is_arg (is ! 0)" "\<not> is_arg (is ! b1)" "\<not> is_arg (is ! h1)" "\<not> is_arg (is ! (length pre - 1))" "\<not> is_arg (is ! s)" "\<not> is_arg (is ! (s + 2 - 1))"
    "\<not> is_arg (is ! (s + 2))" "\<not> is_arg (is ! b2)" "\<not> is_arg (is ! h2)" "\<not> is_arg (is ! (s + k - 1 - 1))" "\<not> is_arg (is ! (s + k - 1))"
    by (rule plain, use ord k(1) in arith)+
  with c ends fit show ?thesis by (auto intro: spans_wf [OF il(4)])
qed

lemma rewritten:
  assumes r: "rewritable c r" and r': "Rewrite c r = Rewritten r'"
  shows "wf_rewriter r' \<and> \<not> m_fGenerateTinyHeader r' \<and> laid_out c r r'"
proof -
  obtain first bflt bf bl start rethrow tryStart eflt ef el fin s where i: "instrument c r = Some (first, bflt, Some bf, bl, start, rethrow, tryStart, eflt, Some ef, el, fin, s)"
    and r'_def: "r' = SetEHClause (clauses s @ [handler_clause c first bflt bf bl, handler_clause c tryStart eflt ef el,
       \<lparr>m_Flags = 0, m_pTryBegin = first, m_pTryEnd = start, m_pHandlerBegin = start, m_pHandlerEnd = rethrow, m_ClassToken = exTypeRef c, m_pFilter = 0\<rparr>,
       \<lparr>m_Flags = 2, m_pTryBegin = first, m_pTryEnd = m_pNext rethrow (m_IL s), m_pHandlerBegin = m_pNext rethrow (m_IL s), m_pHandlerEnd = fin,
        m_ClassToken = 0, m_pFilter = 0\<rparr>]) s" (is "_ = SetEHClause (_ @ [?c1, ?c2, ?c3, ?c4]) _") using Rewrite_steps [OF r'] .
  obtain l w1 ret w2 w3 "is" n where l: "modified_locals c = Some l"
    and steps: "begin_part c l (SetILPosition (m_pNext 0 (m_IL r)) (ILRewriterWrapper_new r)) = Some (first, bflt, Some bf, bl, w1)"
    "append_return w1 = (ret, w2)" "end_part c l w2 = Some (start, rethrow, tryStart, eflt, Some ef, el, fin, w3)"
    "replace_returns (isVoid c) (returnValueIndex l) ret (m_pNext fin (m_IL (m_ILRewriter w3))) (instr_count w3) (m_IL (m_ILRewriter w3)) = Some (is, n)"
    and s: "s = (m_ILRewriter w3)\<lparr>m_IL := is, m_nInstrs := n\<rparr>" using instrument_steps [OF i] .
  have wf: "wf_rewriter r" "\<not> m_fGenerateTinyHeader r" "newLocalVarSig l < 2 ^ 32" "exTypeRef c < 2 ^ 32" "4 + 24 * (length (clauses r) + 4) < 2 ^ 24"
    and k: "return_value c = returnValueIndex l" using r l by (simp_all add: rewritable_def return_value_def)
  let ?w = "SetILPosition (m_pNext 0 (m_IL r)) (ILRewriterWrapper_new r)"
  have w: "instr_count ?w = m_nInstrs r" "m_ILRewriter ?w = r" by (simp_all add: SetILPosition_def ILRewriterWrapper_new_def)
  obtain pre gs post R p m where il: "is = pre @ concat gs @ post @ [R]" and s_wf: "wf_rewriter s"
    and R: "instr_id R = ret" "m_opcode R = 0x2A" and old: "clauses s = clauses r" "\<not> m_fGenerateTinyHeader s"
    and num: "map instr_id pre = [Suc (m_nInstrs r)..<Suc (instr_count w1)]" "map instr_id post = [Suc ret..<Suc (instr_count w3)]"
    and quiet: "list_all (\<lambda>i. m_opcode i \<noteq> 0x2A \<and> \<not> is_arg i) (pre @ post)"
    and known: "(bl, CEE_LEAVE_S, head_id (m_IL r)) \<in> facts ` set pre" "(fin, 0xDC, 0) \<in> facts ` set post" "(el, CEE_LEAVE_S, fin) \<in> facts ` set post"
      "(rethrow, 0x11A, 0) \<in> facts ` set post"
    and ns: "bl = instr_count w1" "first = Suc (m_nInstrs r)" "first < p" "p \<le> bl" "handler_at p bflt (Some bf) bl" "start = Suc ret" "rethrow = ret + 2"
      "tryStart = ret + 3" "tryStart < m" "handler_at m eflt (Some ef) el" "m \<le> el" "fin = el + 1" "fin \<le> instr_count w3"
    and gs: "list_all2 (stands_for (isVoid c) (returnValueIndex l) (instr_id ((post @ [R]) ! (fin - ret)))) (m_IL r) gs"
    and rets: "list_all (\<lambda>i. m_opcode i = 0x2A \<longrightarrow> instr_id i = ret) is"
    by (rule parts [OF start_at [OF wf(1,2)] wf(3) steps refl]) (simp add: s clauses_def SetILPosition_def ILRewriterWrapper_new_def)
  have "wf_code (m_IL s)" "m_IL s = is" using s_wf by (simp_all add: wf_rewriter_def s)
  then have code: "wf_code is" "distinct (map instr_id is)" "0 \<notin> set (map instr_id is)" by (simp_all add: wf_code_def)
  note geo = geometry [OF num known ns, of "concat gs" R, folded il, OF code(2,3)]
  let ?s = "length pre + length (concat gs)" and ?q = "fin - Suc ret"
  obtain b1 h1 b2 h2 where c12: "spans is ?c1 0 b1 h1 (length pre)" "spans is ?c2 (?s + 2) b2 h2 (?s + ?q)" using geo(9,10) by blast
  note c34 = geo(11,12) [folded \<open>m_IL s = is\<close>, unfolded \<open>m_IL s = is\<close>]
  have "facts (is ! (length pre - 1)) = (bl, CEE_LEAVE_S, head_id (m_IL r))" using geo(1,4) by (simp add: il last_conv_nth nth_append)
  then have ends: "m_opcode (is ! (length pre - 1)) \<noteq> CEE_SWITCH" "m_opcode (is ! (?s + ?q - 1)) \<noteq> CEE_SWITCH"
    "m_opcode (is ! (?s + 1)) \<noteq> CEE_SWITCH" "m_opcode (is ! (?s + ?q)) \<noteq> CEE_SWITCH"
    using geo(5-7) by (simp_all add: facts_def opcode_defs)
  have fit: "list_all (\<lambda>c. m_Flags c < 2 ^ 32 \<and> m_ClassToken c < 2 ^ 32) [?c1, ?c2, ?c3, ?c4]" using handler_clause_fits wf(4) by simp
  have "list_all (wf_clause is) [?c1, ?c2, ?c3, ?c4]"
    by (rule new_clauses_wf [OF il R(2) quiet code(1) geo(2,3) c12(1) _ geo(11) _ _ _ _ _ fit])
      (use c12(2) geo(12) ends \<open>m_IL s = is\<close> in simp_all)
  then have "wf_rewriter r'"
    using s_wf old(1) wf(5) \<open>m_IL s = is\<close> unfolding r'_def by (simp add: wf_rewriter_def clauses_def SetEHClause_def)
  moreover have "\<not> m_fGenerateTinyHeader r'" using old(2) by (simp add: r'_def SetEHClause_def)
  moreover have "laid_out c r r'"
  proof -
    have "m_IL r' = is" "clauses r' = clauses r @ [?c1, ?c2, ?c3, ?c4]" using \<open>m_IL s = is\<close> old(1) by (simp_all add: r'_def SetEHClause_def clauses_def)
    moreover have "m_opcode (is ! j) = 0x2A \<longleftrightarrow> Suc j = length is" if "j < length is" for j
      using only_return [of R "pre @ concat gs @ post" j] rets il R code(2) that by simp
    ultimately show ?thesis unfolding laid_out_def Let_def using geo gs c12 \<open>m_IL s = is\<close>
      by - (rule exI [of _ pre], rule exI [of _ gs], rule exI [of _ "post @ [R]"], rule exI [of _ "?s + Suc ?q"], rule exI [of _ b1], rule exI [of _ h1],
        rule exI [of _ b2], rule exI [of _ h2], rule exI [of _ ?c1], rule exI [of _ ?c2], rule exI [of _ ?c3], rule exI [of _ ?c4],
        simp add: facts_def il R k)
  qed
  ultimately show ?thesis by blast
qed

end
