(* ===== verification/Call_Target_Conditions.thy ===== *)
theory Call_Target_Conditions
  imports Call_Target_Method
begin

text \<open>
  Which methods are instrumented: the conditions under which every step of the rewriting has a result, each of them stated
  over what the metadata answers.
\<close>

section \<open>When a computation has a result\<close>

definition gives :: "bool \<Rightarrow> 'a option \<Rightarrow> ('a \<Rightarrow> bool) \<Rightarrow> bool" where
  "gives b m P \<longleftrightarrow> (case m of None \<Rightarrow> \<not> b | Some x \<Rightarrow> b \<and> P x)"

lemma gives_simps [simp]: "gives b (Some x) P \<longleftrightarrow> b \<and> P x" "gives b None P \<longleftrightarrow> \<not> b"
  by (simp_all add: gives_def)

lemma gives_call: "\<lbrakk>gives b1 m Q; b \<Longrightarrow> b1; \<And>x. \<lbrakk>b1; Q x\<rbrakk> \<Longrightarrow> gives b (f x) P\<rbrakk> \<Longrightarrow> gives b (Option.bind m f) P"
  unfolding gives_def by (cases m) (simp_all, blast?)

lemma gives_option: "\<lbrakk>m = None \<Longrightarrow> \<not> b; \<And>x. m = Some x \<Longrightarrow> gives b (f x) P\<rbrakk> \<Longrightarrow> gives b (Option.bind m f) P"
  by (cases m) simp_all

lemma gives_if: "\<lbrakk>c \<Longrightarrow> gives b m P; \<not> c \<Longrightarrow> gives b m' P\<rbrakk> \<Longrightarrow> gives b (if c then m else m') P"
  by simp

lemma gives_case: "\<lbrakk>x = None \<Longrightarrow> gives b m P; \<And>y. x = Some y \<Longrightarrow> gives b (f y) P\<rbrakk> \<Longrightarrow> gives b (case x of None \<Rightarrow> m | Some y \<Rightarrow> f y) P"
  by (cases x) simp_all

lemma gives_map: "gives b m (\<lambda>x. P (f x)) \<Longrightarrow> gives b (map_option f m) P"
  by (cases m) simp_all

lemma gives_assoc: "gives b (Option.bind m (\<lambda>x. Option.bind (g x) f)) P \<Longrightarrow> gives b (Option.bind (Option.bind m g) f) P"
  by (cases m) simp_all

lemma gives_if_bind:
  "\<lbrakk>c \<Longrightarrow> gives b (Option.bind m f) P; \<not> c \<Longrightarrow> gives b (Option.bind m' f) P\<rbrakk> \<Longrightarrow> gives b (Option.bind (if c then m else m') f) P"
  by simp

lemma gives_case_bind: "\<lbrakk>x = None \<Longrightarrow> gives b (Option.bind m f) P; \<And>y. x = Some y \<Longrightarrow> gives b (Option.bind (g y) f) P\<rbrakk> \<Longrightarrow>
    gives b (Option.bind (case x of None \<Rightarrow> m | Some y \<Rightarrow> g y) f) P"
  by (cases x) simp_all

lemma gives_map_bind: "gives b (Option.bind m (\<lambda>x. f (g x))) P \<Longrightarrow> gives b (Option.bind (map_option g m) f) P"
  by (cases m) simp_all

lemma gives_list_bind: "\<lbrakk>xs = [] \<Longrightarrow> gives b (Option.bind m f) P; \<And>y ys. xs = y # ys \<Longrightarrow> gives b (Option.bind (g y ys) f) P\<rbrakk> \<Longrightarrow>
    gives b (Option.bind (case xs of [] \<Rightarrow> m | y # ys \<Rightarrow> g y ys) f) P"
  by (cases xs) simp_all

lemmas gives_rules = gives_assoc gives_if_bind gives_case_bind gives_map_bind gives_if gives_case gives_map

text \<open>With a position, the operations always have a result, and the position stays.\<close>

definition placed :: "ILRewriterWrapper \<Rightarrow> bool" where
  "placed w \<longleftrightarrow> m_ILInstr w \<noteq> None"

definition runs :: "(ILRewriterWrapper \<Rightarrow> (nat \<times> ILRewriterWrapper) option) \<Rightarrow> bool" where
  "runs f \<longleftrightarrow> (\<forall>w. placed w \<longrightarrow> gives True (f w) (\<lambda>(n, w'). placed w'))"

lemma runs_insert: "runs (insert_new opcode arg target)"
  by (auto simp: runs_def insert_new_def placed_def NewILInstr_def split: option.splits)

lemma runs_then: "\<lbrakk>runs f; runs g\<rbrakk> \<Longrightarrow> runs (then_op f g)"
  unfolding runs_def then_op_bind by (auto intro!: gives_call)

lemma runs_ops:
  "runs Pop" "runs LoadNull" "runs (LoadArgumentRef k)" "runs (Box t)" "runs (CallMember t b)" "runs Duplicate" "runs EndLoadValueIntoArray"
  "runs (LoadToken t)" "runs (LoadObj t)" "runs (LoadLocalAddress k)" "runs Rethrow" "runs EndFinally" "runs (CreateInstr opcode)"
  "runs (CreateInstr_arg opcode a)" "runs (LoadInt32 v)" "runs (LoadArgument k)" "runs (StLocal k)" "runs (LoadLocal k)" "runs (CreateArray t m)"
  "runs (BeginLoadValueIntoArray i)"
  by (simp_all add: runs_insert Pop_def LoadNull_def LoadArgumentRef_def Box_def CallMember_def Duplicate_def EndLoadValueIntoArray_def LoadToken_def
      LoadObj_def LoadLocalAddress_def Rethrow_def EndFinally_def CreateInstr_def CreateInstr_arg_def LoadInt32_def LoadArgument_def StLocal_def
      LoadLocal_def CreateArray_def BeginLoadValueIntoArray_def runs_then)

lemma runs_call: "\<lbrakk>runs g; placed w; \<And>n w'. placed w' \<Longrightarrow> gives b (f (n, w')) P\<rbrakk> \<Longrightarrow> gives b (Option.bind (g w) f) P"
  by (auto simp: runs_def intro!: gives_call)

lemma runs_last: "\<lbrakk>runs g; placed w; \<And>n w'. placed w' \<Longrightarrow> b \<and> P (n, w')\<rbrakk> \<Longrightarrow> gives b (g w) P"
  unfolding runs_def by (cases "g w") auto

lemmas op_calls = runs_ops [THEN runs_call]
lemmas op_lasts = runs_ops [THEN runs_last]

lemma placed_target [simp]: "placed (set_target n t w) = placed w"
  by (simp add: placed_def set_target_def)

section \<open>The conditions\<close>

definition locals_known :: "calltarget \<Rightarrow> added_locals \<Rightarrow> bool" where
  "locals_known c l \<longleftrightarrow> isVoid c \<or> defaultValueMethodSpec l \<noteq> None"

text \<open>A static method of a struct has no instance, and a generic struct has no token to load it by.\<close>

definition instance_loadable :: "calltarget \<Rightarrow> bool" where
  "instance_loadable c \<longleftrightarrow>
     (if isStatic c then \<not> ti_valueType (caller_type c)
      else GetCurrentTypeRef (objectTypeRef c) (caller_type c) = mdTokenNil_nat \<or> \<not> ti_valueType (caller_type c) \<or>
        type_spec (caller_type c) \<noteq> mdTypeSpecNil \<or> \<not> isGeneric (caller_type c))"

text \<open>
  Up to eight arguments are loaded one by one: by reference if the process asks for it, with a local for each by-ref-like
  one; otherwise, as in an array of nine or more, an argument by reference is refused.
\<close>

definition direct_loadable :: "calltarget \<Rightarrow> nat list \<Rightarrow> argument list \<Rightarrow> bool" where
  "direct_loadable c ks as \<longleftrightarrow>
     (if enable_by_ref_instrumentation c
      then length (filter isByRefLike as) \<le> length ks \<and> (createRefStruct c \<noteq> None \<or> \<not> list_ex isByRefLike as)
      else \<not> list_ex byRef as)"

definition boxable :: "argument \<Rightarrow> bool" where
  "boxable a \<longleftrightarrow> \<not> byRef a \<and> \<not> pinned a \<and> (boxed a \<longrightarrow> typeTok a \<noteq> mdTokenNil_nat)"

definition arguments_loadable :: "calltarget \<Rightarrow> added_locals \<Rightarrow> bool" where
  "arguments_loadable c l \<longleftrightarrow>
     (is_integration_method c \<longrightarrow>
        (if length (methodArguments c) < FASTPATH_COUNT
         then direct_loadable c (drop 2 (additionalLocalIndices l)) (methodArguments c)
         else list_all boxable (methodArguments c)))"

lemma locals_gives: "placed w \<Longrightarrow> gives (locals_known c l) (ModifyLocalSigAndInitialize c l w) (\<lambda>(n, w'). placed w')"
proof -
  define v where "v = w\<lparr>m_ILRewriter := SetTkLocalVarSig (newLocalVarSig l) (m_ILRewriter w)\<rparr>"
  assume "placed w"
  then have "placed v" by (simp add: v_def placed_def)
  then show ?thesis unfolding ModifyLocalSigAndInitialize_def v_def [symmetric] Let_def
    by - (rule gives_rules | erule op_calls op_lasts | simp only: prod.case Option.bind.simps | (simp add: locals_known_def; fail) | rule gives_option)+
qed

lemma instance_gives: "placed w \<Longrightarrow> gives (instance_loadable c) (load_instance c w) (\<lambda>(n, w'). placed w')"
  unfolding load_instance_def
  by (rule gives_rules | erule op_calls op_lasts | simp only: prod.case Option.bind.simps | (simp add: instance_loadable_def; fail))+

lemma ref_struct_gives: "placed w \<Longrightarrow> gives (createRefStruct c \<noteq> None) (WriteRefStructCall c t k w) (\<lambda>(n, w'). placed w')"
  unfolding WriteRefStructCall_def
  by (rule gives_rules | erule op_calls op_lasts | simp only: prod.case Option.bind.simps | (simp; fail) | rule gives_option)+

lemma direct_gives: "placed w \<Longrightarrow> gives (direct_loadable c ks as) (load_direct c i ks as w) placed"
proof (induction as arbitrary: i ks w)
  case (Cons a as)
  have *: "gives (direct_loadable c ms (a # as)) (load_direct c (i + 1) ls as v) placed"
    if "placed v" "direct_loadable c ms (a # as) = direct_loadable c ls as" for ls ms v using Cons.IH [OF that(1)] that(2) by simp
  have like: "gives (direct_loadable c ms (a # as)) (Option.bind (WriteRefStructCall c (typeTok a) x v) (\<lambda>y. case case y of (n, w) \<Rightarrow> (w, xs) of (w, ls) \<Rightarrow> load_direct c (i + 1) ls as w)) placed"
    if "placed v" "enable_by_ref_instrumentation c" "isByRefLike a" "ms = x # xs" for ms v x xs
  proof (rule gives_call [OF ref_struct_gives [OF that(1)]])
    fix y :: "nat \<times> ILRewriterWrapper"
    assume "createRefStruct c \<noteq> None" "case y of (n, w') \<Rightarrow> placed w'"
    then have "gives (direct_loadable c ms (a # as)) (load_direct c (i + 1) xs as (snd y)) placed"
      using that(2-4) by (intro *) (auto simp: direct_loadable_def)
    then show "gives (direct_loadable c ms (a # as)) (case case y of (n, w) \<Rightarrow> (w, xs) of (w, ls) \<Rightarrow> load_direct c (i + 1) ls as w) placed"
      by (simp add: case_prod_beta)
  qed (use that in \<open>simp add: direct_loadable_def\<close>)
  show ?case unfolding load_direct.simps Let_def using Cons.prems
    by - (rule gives_rules | erule op_calls | simp only: prod.case Option.bind.simps | (rule *; simp add: direct_loadable_def; fail)
      | rule gives_list_bind | (rule like; simp; fail) | (simp add: direct_loadable_def; fail))+
qed (simp add: direct_loadable_def)

lemma array_gives: "placed w \<Longrightarrow> gives (list_all boxable as) (load_into_array c i as w) placed"
proof (induction as arbitrary: i w)
  case (Cons a as)
  have *: "gives (list_all boxable (a # as)) (load_into_array c (i + 1) as v) placed" if "placed v" "boxable a" for v
    using Cons.IH [OF that(1)] that(2) by simp
  show ?case unfolding load_into_array.simps using Cons.prems
    by - (rule gives_rules | erule op_calls | simp only: prod.case Option.bind.simps | (rule *; simp add: boxable_def; fail) | (auto simp: boxable_def; fail))+
qed simp

lemma arguments_gives: "placed w \<Longrightarrow> gives (arguments_loadable c l) (load_arguments c (drop 2 (additionalLocalIndices l)) w) placed"
proof -
  assume w: "placed w"
  show ?thesis
    unfolding load_arguments_def Let_def using w direct_gives [OF w] array_gives
    by - (rule gives_rules | erule op_calls | simp only: prod.case Option.bind.simps | (simp add: arguments_loadable_def; fail))+
qed

section \<open>The handlers and the parts\<close>

lemma gives_Some_True: "P x \<Longrightarrow> gives True (Some x) P"
  by simp

lemma filter_gives: "placed w \<Longrightarrow> gives True (CreateFilterForException t u f k w) (\<lambda>(n, w'). placed w')"
  unfolding CreateFilterForException_def Let_def
  by (rule gives_rules | erule op_calls op_lasts | erule conjE | simp only: split_paired_all prod.case Option.bind.simps | (rule op_calls, simp) | (rule gives_Some_True; simp; fail))+

text \<open>A handler has a first instruction unless there is neither a filter nor a call that logs.\<close>

definition handled :: "calltarget \<Rightarrow> nat option \<Rightarrow> bool" where
  "handled c log \<longleftrightarrow> bubbleUpType c \<noteq> None \<or> log \<noteq> None"

lemma handler_gives: "placed w \<Longrightarrow> gives True (write_handler c k log w) (\<lambda>(flt, first, leave, w'). placed w' \<and> (first = None \<longleftrightarrow> \<not> handled c log))"
  unfolding write_handler_def
  by (rule gives_rules | erule op_calls op_lasts | erule conjE | simp only: split_paired_all prod.case Option.bind.simps option.case
    | (rule gives_call [OF filter_gives], assumption, simp) | (rule gives_Some_True; simp add: handled_def; fail))+

text \<open>The conditions of the code in front, and of the code behind.\<close>

definition begin_known :: "calltarget \<Rightarrow> added_locals \<Rightarrow> bool" where
  "begin_known c l \<longleftrightarrow> locals_known c l \<and> (isRuntimeAsync c \<longrightarrow> ensureCallbacks c \<noteq> None) \<and> instance_loadable c \<and> arguments_loadable c l \<and>
     beginMethod c \<noteq> None"

definition end_known :: "calltarget \<Rightarrow> bool" where
  "end_known c \<longleftrightarrow> instance_loadable c \<and> endMethod c \<noteq> None"

lemma begin_gives:
  "placed w \<Longrightarrow> gives (begin_known c l) (begin_part c l w) (\<lambda>(first, flt, bf, bl, w'). placed w' \<and> (bf = None \<longleftrightarrow> \<not> handled c (logBegin c)))"
  unfolding begin_part_def
  by (rule gives_rules | erule op_calls op_lasts | erule conjE | simp only: split_paired_all prod.case Option.bind.simps
    | (rule gives_call [OF locals_gives], assumption, simp add: begin_known_def)
    | (rule gives_call [OF instance_gives], assumption, simp add: begin_known_def)
    | (rule gives_call [OF arguments_gives], assumption, simp add: begin_known_def)
    | (rule gives_call [OF handler_gives], assumption, simp)
    | (simp add: begin_known_def; fail) | (simp add: placed_def; fail) | rule gives_option)+

lemma end_gives:
  "placed w \<Longrightarrow> gives (end_known c) (end_part c l w) (\<lambda>(start, rethrow, try, flt, ef, el, fin, w'). placed w' \<and> (ef = None \<longleftrightarrow> \<not> handled c (logEnd c)))"
  unfolding end_part_def Let_def
  by (rule gives_rules | erule op_calls op_lasts | erule conjE | simp only: split_paired_all prod.case Option.bind.simps snd_conv
    | (rule gives_call [OF instance_gives], assumption, simp add: end_known_def)
    | (rule gives_call [OF handler_gives], assumption, simp) | (rule op_calls, simp)
    | (simp add: end_known_def; fail) | rule gives_option)+

section \<open>The method\<close>

lemma replace_returns_None:
  "replace_returns v k r t f xs = None \<longleftrightarrow> \<not> v \<and> 2 ^ 15 \<le> k mod 2 ^ 16 \<and> list_ex (\<lambda>i. m_opcode i = 0x2A \<and> instr_id i \<noteq> r) xs"
  by (induction xs arbitrary: f) auto

text \<open>A value of a method that returns one is stored in a local that a signed sixteen-bit index can name.\<close>

definition returns_storable :: "calltarget \<Rightarrow> added_locals \<Rightarrow> il_instr list \<Rightarrow> bool" where
  "returns_storable c l is \<longleftrightarrow> isVoid c \<or> returnValueIndex l mod 2 ^ 16 < 2 ^ 15 \<or> \<not> list_ex (\<lambda>i. m_opcode i = 0x2A) is"

definition instrumentable :: "calltarget \<Rightarrow> il_instr list \<Rightarrow> bool" where
  "instrumentable c is \<longleftrightarrow>
     (case modified_locals c of None \<Rightarrow> False | Some l \<Rightarrow> begin_known c l \<and> end_known c \<and> returns_storable c l is)"

definition admitted :: "calltarget \<Rightarrow> bool" where
  "admitted c \<longleftrightarrow> integration_definition c \<and>
     (isRuntimeAsync c \<longrightarrow> runtime_async_methods_available c \<and> effective_return_type c \<and> (isStatic c \<or> \<not> ti_valueType (caller_type c))) \<and>
     integration_type_found c \<and> profiler_loaded c"

lemma append_placed: "placed (snd (append_return w))"
  by (simp add: append_return_def placed_def SetILPosition_def Let_def split: prod.splits)

lemma replaced_returns:
  assumes "rewritable c r" "modified_locals c = Some l"
    and "begin_part c l (SetILPosition (m_pNext 0 (m_IL r)) (ILRewriterWrapper_new r)) = Some (first, bflt, bf, bl, w1)"
    "append_return w1 = (ret, w2)" "end_part c l w2 = Some (start, rethrow, try, eflt, ef, el, fin, w3)"
  shows "replace_returns (isVoid c) (returnValueIndex l) ret t f (m_IL (m_ILRewriter w3)) = None \<longleftrightarrow> \<not> returns_storable c l (m_IL r)"
proof -
  have r: "wf_rewriter r" "\<not> m_fGenerateTinyHeader r" "newLocalVarSig l < 2 ^ 32" using assms(1,2) by (simp_all add: rewritable_def)
  obtain pre post R where il: "m_IL (m_ILRewriter w3) = pre @ m_IL r @ post @ [R]" "wf_rewriter (m_ILRewriter w3)" "instr_id R = ret"
    and quiet: "list_all (\<lambda>i. m_opcode i \<noteq> 0x2A \<and> \<not> is_arg i) (pre @ post)"
    by (rule emitted [OF start_at [OF r(1,2)] r(3) assms(3-5)])
  have "ret \<notin> set (map instr_id (m_IL r))" using il by (auto simp: wf_rewriter_def wf_code_def)
  then have "instr_id i \<noteq> ret" if "i \<in> set (m_IL r)" for i using that by auto
  then have "list_ex (\<lambda>i. m_opcode i = 0x2A \<and> instr_id i \<noteq> ret) (m_IL (m_ILRewriter w3)) = list_ex (\<lambda>i. m_opcode i = 0x2A) (m_IL r)"
    using quiet il(3) unfolding il(1) list_ex_iff list_all_iff by fastforce
  then show ?thesis unfolding replace_returns_None returns_storable_def by auto
qed

lemma instrument_gives:
  assumes r: "rewritable c r"
  shows "gives (instrumentable c (m_IL r)) (instrument c r)
    (\<lambda>(first, bflt, bf, bl, start, rethrow, try, eflt, ef, el, fin, s). (bf = None \<longleftrightarrow> \<not> handled c (logBegin c)) \<and> (ef = None \<longleftrightarrow> \<not> handled c (logEnd c)))"
proof (cases "modified_locals c")
  case None
  then show ?thesis by (simp add: instrument_def instrumentable_def)
next
  case (Some l)
  let ?w = "SetILPosition (m_pNext 0 (m_IL r)) (ILRewriterWrapper_new r)"
  have w: "placed ?w" by (simp add: placed_def SetILPosition_def)
  have cond: "instrumentable c (m_IL r) = (begin_known c l \<and> end_known c \<and> returns_storable c l (m_IL r))" using Some by (simp add: instrumentable_def)
  show ?thesis
  proof (cases "begin_part c l ?w")
    case None
    with begin_gives [OF w, of c l] Some cond show ?thesis by (simp add: instrument_def gives_def)
  next
    case b: (Some x)
    obtain first bflt bf bl w1 where x: "x = (first, bflt, bf, bl, w1)" by (metis prod_cases3)
    obtain ret w2 where a: "append_return w1 = (ret, w2)" by fastforce
    have w2: "placed w2" using append_placed [of w1] a by simp
    have B: "begin_known c l" "bf = None \<longleftrightarrow> \<not> handled c (logBegin c)" using begin_gives [OF w, of c l] b x by (simp_all add: gives_def)
    show ?thesis
    proof (cases "end_part c l w2")
      case None
      with end_gives [OF w2, of c l] Some b x a cond show ?thesis by (simp add: instrument_def gives_def)
    next
      case e: (Some y)
      obtain start rethrow tr eflt ef el fin w3 where y: "y = (start, rethrow, tr, eflt, ef, el, fin, w3)" by (metis prod_cases3)
      have E: "end_known c" "ef = None \<longleftrightarrow> \<not> handled c (logEnd c)" using end_gives [OF w2, of c l] e y by (simp_all add: gives_def)
      note rets = replaced_returns [OF r Some b [unfolded x] a e [unfolded y], of "m_pNext fin (m_IL (m_ILRewriter w3))" "instr_count w3"]
      show ?thesis
      proof (cases "replace_returns (isVoid c) (returnValueIndex l) ret (m_pNext fin (m_IL (m_ILRewriter w3))) (instr_count w3) (m_IL (m_ILRewriter w3))")
        case None
        with Some b x a e y rets cond show ?thesis by (simp add: instrument_def)
      next
        case (Some z)
        with \<open>modified_locals c = Some l\<close> b x a e y rets cond B E show ?thesis by (cases z) (simp add: instrument_def)
      qed
    qed
  qed
qed

end
