(* ===== verification/Call_Target_Rewriting.thy ===== *)
theory Call_Target_Rewriting
  imports Call_Target_Conditions
begin

text \<open>
  The properties of the instrumentation: the layout of the rewritten method and its clauses, and the callback from the bytes
  of a body to the bytes of its new body.
\<close>

section \<open>An example\<close>

text \<open>A static void method with an integration that has a filter.\<close>

definition example_locals :: added_locals where
  "example_locals = \<lparr>newLocalVarSig = 1, callTargetStateIndex = 2, exceptionIndex = 0, callTargetReturnIndex = 1, returnValueIndex = 0,
     additionalLocalIndices = [3, 4], defaultValueMethodSpec = None, returnDefaultMemberRef = 2\<rparr>"

definition example_target :: calltarget where
  "example_target = \<lparr>integration_definition = True, isRuntimeAsync = False, runtime_async_methods_available = False, effective_return_type = False,
     isVoid = True, isStatic = True, caller_type = TypeInfo 3 4 False False None None, caller_id = 5,
     integration_type_found = True, profiler_loaded = True, modified_locals = Some example_locals, ensureCallbacks = None, is_integration_method = True,
     enable_by_ref_instrumentation = False, enable_calltarget_state_by_ref = True, methodArguments = [\<lparr>byRef = False, pinned = False, boxed = False, typeTok = 6, isByRefLike = False\<rparr>],
     objectTypeRef = 7, exTypeRef = 8, createRefStruct = None, beginMethod = Some 9, bubbleUpType = Some 10,
     bubbleUpFunction = None, logBegin = Some 11, logEnd = Some 11, endMethod = Some 12, getReturnValue = None\<rparr>"

definition example_body :: ILRewriter where
  "example_body = projr (Import two_instructions)"

definition example_rewritten :: ILRewriter where
  "example_rewritten = (case Rewrite example_target example_body of Rewritten r \<Rightarrow> r | _ \<Rightarrow> example_body)"

lemma example_import: "Import two_instructions = Inr example_body"
  using two_instructions_import unfolding example_body_def by (metis sum.collapse(2))

lemma example_runs: "case Rewrite example_target example_body of Rewritten r \<Rightarrow> m_nInstrs r < 100 | _ \<Rightarrow> False"
  by code_simp

lemma example_rewrite: "Rewrite example_target example_body = Rewritten example_rewritten" "fits example_rewritten"
  using example_runs by (auto simp: example_rewritten_def fits_def split: rewrite_result.splits)

lemma example_clauses: "clauses example_body = []"
  by code_simp

lemma example_rewritable: "rewritable example_target example_body"
  using Import_wf [OF example_import] example_clauses by (simp add: rewritable_def example_target_def example_locals_def)

section \<open>The layout of a rewritten method\<close>

text \<open>C6: the shape of every instrumented method. The method's own code is there in its order between the code in front and the code
  behind, with each return replaced by a leave to the instruction behind the finally handler, after the value has been
  stored if there is one; the only return is the last instruction. Both exits of the code in front lead to the first
  instruction the method had. The four new clauses come after the method's own and are properly nested: the handlers of
  the two calls lie inside the code in front and inside the finally handler, the catch clause covers everything up to
  the end of the method's own code, and the finally clause covers that and the rethrow.\<close>

theorem rewritten_method_layout:
  assumes "rewritable c r" "Rewrite c r = Rewritten r'"
  shows "laid_out c r r'"
  using rewritten [OF assms] by simp

theorem rewritten_method_layout_witness:
  "rewritable example_target example_body \<and> Rewrite example_target example_body = Rewritten example_rewritten \<and>
   laid_out example_target example_body example_rewritten"
  using rewritten_method_layout [OF example_rewritable example_rewrite(1)] example_rewritable example_rewrite(1) by simp

section \<open>The new body\<close>

lemma exported_body:
  assumes "wf_rewriter r" "\<not> m_fGenerateTinyHeader r" "fits r"
  shows "\<exists>body js s. Export fill r = Inr (body, r\<lparr>m_IL := js\<rparr>) \<and> list_all2 widened (m_IL r) js \<and> Import body = Inr s \<and> same_body (r\<lparr>m_IL := js\<rparr>) s"
proof -
  from Export_fat [OF assms(1,3,2), of fill] obtain js body where
    e: "Export fill r = Inr (body, r\<lparr>m_IL := js\<rparr>)" "list_all2 widened (m_IL r) js" "\<exists>s. Import body = Inr s \<and> same_body (r\<lparr>m_IL := js\<rparr>) s"
    using Import_exported [OF assms(1)] by blast
  then show ?thesis by blast
qed



section \<open>Which methods are instrumented\<close>

lemma rewrite_outcome:
  assumes "rewritable c r"
  shows "Rewrite c r = Skipped \<longleftrightarrow> \<not> (admitted c \<and> instrumentable c (m_IL r))"
    "Rewrite c r = Null_Handler \<longleftrightarrow> admitted c \<and> instrumentable c (m_IL r) \<and> \<not> (handled c (logBegin c) \<and> handled c (logEnd c))"
proof -
  have "Rewrite c r = Skipped" if "\<not> admitted c" using that by (auto simp: Rewrite_def admitted_def)
  moreover have "(Rewrite c r = Skipped \<longleftrightarrow> \<not> instrumentable c (m_IL r)) \<and>
      (Rewrite c r = Null_Handler \<longleftrightarrow> instrumentable c (m_IL r) \<and> \<not> (handled c (logBegin c) \<and> handled c (logEnd c)))" if a: "admitted c"
  proof (cases "instrument c r")
    case None
    with a instrument_gives [OF assms] show ?thesis by (auto simp: Rewrite_def admitted_def gives_def)
  next
    case (Some x)
    obtain first bflt bf bl start rethrow tryStart eflt ef el fin s where x: "x = (first, bflt, bf, bl, start, rethrow, tryStart, eflt, ef, el, fin, s)"
      by (metis prod_cases3)
    with Some instrument_gives [OF assms] have "instrumentable c (m_IL r)" "bf = None \<longleftrightarrow> \<not> handled c (logBegin c)" "ef = None \<longleftrightarrow> \<not> handled c (logEnd c)"
      by (simp_all add: gives_def)
    with a Some x show ?thesis by (cases bf; cases ef; auto simp: Rewrite_def admitted_def)
  qed
  ultimately show "Rewrite c r = Skipped \<longleftrightarrow> \<not> (admitted c \<and> instrumentable c (m_IL r))"
    "Rewrite c r = Null_Handler \<longleftrightarrow> admitted c \<and> instrumentable c (m_IL r) \<and> \<not> (handled c (logBegin c) \<and> handled c (logEnd c))" by (cases "admitted c"; simp)+
qed

text \<open>C9: exactly which methods are instrumented. A method is skipped, and left as it is, precisely when it is not admitted or one of the
  conditions fails: a static method of a struct, an instance method of a generic struct that has no token, an argument
  that cannot be loaded, a token the metadata does not give, or a returned value whose local is beyond the reach of its
  instruction. One more outcome remains: when there is no exception filter and the call that logs could not be written,
  which goes unnoticed, the handler has no first instruction.\<close>

theorem instrumented_methods:
  assumes "rewritable c r"
  shows "(Rewrite c r = Skipped \<longleftrightarrow> \<not> (admitted c \<and> instrumentable c (m_IL r))) \<and>
    (Rewrite c r = Null_Handler \<longleftrightarrow>
       admitted c \<and> instrumentable c (m_IL r) \<and> bubbleUpType c = None \<and> (logBegin c = None \<or> logEnd c = None))"
  using rewrite_outcome [OF assms] by (auto simp: handled_def)

theorem instrumented_methods_witness:
  "rewritable example_target example_body \<and> Rewrite example_target example_body \<noteq> Skipped \<and> Rewrite example_target example_body \<noteq> Null_Handler \<and>
   admitted example_target \<and> instrumentable example_target (m_IL example_body)"
  using instrumented_methods [OF example_rewritable] example_rewrite(1) example_rewritable by simp

end
