(* ===== verification/Local_Signature.thy ===== *)
theory Local_Signature
  imports Signature_Parser Call_Target_Conditions
begin

text \<open>
  The local variables of an instrumented method (\<open>CallTargetTokens::ModifyLocalSig\<close> with
  \<open>TracerTokens::GetAdditionalLocalsCount\<close> and \<open>TracerTokens::AddAdditionalLocals\<close>): a new signature is written into a buffer
  of 500 bytes, the locals of the method first, those of the instrumentation behind them. What the metadata
  interfaces answer is a record. A read outside the old signature or a write outside the buffer is a fault.
\<close>

section \<open>Writing the signature\<close>

definition signatureBufferSize :: nat where "signatureBufferSize = 500"
definition IMAGE_CEE_CS_CALLCONV_LOCAL_SIG :: byte where "IMAGE_CEE_CS_CALLCONV_LOCAL_SIG = 0x07"

datatype 'a sig_result = Failed | Fault | Modified 'a

text \<open>A nil token of the old signature is an empty signature; a void method has no return signature.\<close>

record local_tokens =
  base_tokens :: bool
  original_signature :: "byte list option"
  callTargetStateTypeRef :: u32
  exceptionTypeRef :: u32
  callTargetRefStructTypeRef :: u32
  return_signature :: "byte list option"
  callTargetReturnSignature :: "byte list option"
  void_return_type :: u32
  by_ref_instrumentation :: bool
  by_ref_like :: "bool list"
  new_token :: "nat option"

record new_locals =
  nl_signature :: "byte list"
  nl_token :: nat
  nl_callTargetStateIndex :: nat
  nl_exceptionIndex :: nat
  nl_callTargetReturnIndex :: nat
  nl_returnValueIndex :: nat
  nl_additionalLocalIndices :: "nat list"

definition token_bytes :: "u32 \<Rightarrow> byte list" where
  "token_bytes tk = (case CorSigCompressToken tk of None \<Rightarrow> [] | Some bs \<Rightarrow> bs)"

definition class_local :: "u32 \<Rightarrow> byte list" where
  "class_local tk = ELEMENT_TYPE_CLASS # token_bytes tk"

definition value_local :: "u32 \<Rightarrow> byte list" where
  "value_local tk = ELEMENT_TYPE_VALUETYPE # token_bytes tk"

text \<open>The bytes so far, up to the offset of the next one.\<close>

definition put :: "byte list \<Rightarrow> byte list \<Rightarrow> byte list option" where
  "put newSignatureBuffer bs =
     (if length newSignatureBuffer + length bs \<le> signatureBufferSize then Some (newSignatureBuffer @ bs) else None)"

definition GetAdditionalLocalsCount :: "local_tokens \<Rightarrow> nat" where
  "GetAdditionalLocalsCount t = 2 + (if by_ref_instrumentation t then count_list (by_ref_like t) True else 0)"

fun add_ref_structs :: "u32 \<Rightarrow> bool list \<Rightarrow> byte list \<Rightarrow> nat \<Rightarrow> (byte list \<times> nat) option" where
  "add_ref_structs tk [] buf signatureSize = Some (buf, signatureSize)"
| "add_ref_structs tk (like # args) buf signatureSize =
     (if \<not> like then add_ref_structs tk args buf signatureSize
      else let signatureSize = signatureSize + 1 + length (token_bytes tk)
           in if signatureSize > signatureBufferSize then Some (buf, signatureSize)
              else Option.bind (put buf (value_local tk)) (\<lambda>buf. add_ref_structs tk args buf signatureSize))"

definition AddAdditionalLocals :: "local_tokens \<Rightarrow> byte list \<Rightarrow> nat \<Rightarrow> (byte list \<times> nat) option" where
  "AddAdditionalLocals t buf signatureSize =
     (let signatureSize = signatureSize + 2 * (1 + length (token_bytes (exceptionTypeRef t)))
      in if signatureSize > signatureBufferSize then Some (buf, signatureSize)
         else do {
           buf \<leftarrow> put buf (class_local (exceptionTypeRef t));
           buf \<leftarrow> put buf (class_local (exceptionTypeRef t));
           if by_ref_instrumentation t then add_ref_structs (callTargetRefStructTypeRef t) (by_ref_like t) buf signatureSize
           else Some (buf, signatureSize)
         })"

text \<open>The last local of a signature that has been rewritten before.\<close>

definition already_modified :: "local_tokens \<Rightarrow> byte list \<Rightarrow> bool" where
  "already_modified t orig \<longleftrightarrow>
     (let len = length (token_bytes (callTargetStateTypeRef t))
      in length orig > len \<and> orig ! (length orig - len - 1) = ELEMENT_TYPE_VALUETYPE \<and>
         drop (length orig - len) orig = token_bytes (callTargetStateTypeRef t))"

text \<open>The bytes of the new signature, with the new number of locals.\<close>

definition write_signature :: "local_tokens \<Rightarrow> byte list \<Rightarrow> byte list \<Rightarrow> byte list \<Rightarrow> byte list \<Rightarrow> nat \<Rightarrow> (byte list \<times> nat) option" where
  "write_signature t count old ret callTargetReturn newSignatureSize = do {
     buf \<leftarrow> put [] [IMAGE_CEE_CS_CALLCONV_LOCAL_SIG];
     buf \<leftarrow> put buf count;
     buf \<leftarrow> put buf old;
     buf \<leftarrow> put buf ret;
     buf \<leftarrow> put buf (class_local (exceptionTypeRef t));
     buf \<leftarrow> put buf callTargetReturn;
     (buf, newSignatureSize) \<leftarrow> AddAdditionalLocals t buf newSignatureSize;
     if newSignatureSize > signatureBufferSize then Some (buf, newSignatureSize)
     else do {
       buf \<leftarrow> put buf (value_local (callTargetStateTypeRef t));
       Some (buf, newSignatureSize)
     }
   }"

definition ModifyLocalSig :: "local_tokens \<Rightarrow> new_locals sig_result" where
  "ModifyLocalSig t =
     (if \<not> base_tokens t then Failed
      else case original_signature t of
        None \<Rightarrow> Failed
      | Some orig \<Rightarrow>
          if already_modified t orig then Failed
          else let
            additionalLocalsCount = GetAdditionalLocalsCount t;
            ret = (case return_signature t of None \<Rightarrow> [] | Some r \<Rightarrow> r);
            isVoid = (return_signature t = None);
            newLocalsCount = 3 + additionalLocalsCount + (if isVoid then 0 else 1)
          in case (if isVoid then Some (value_local (void_return_type t)) else callTargetReturnSignature t) of
            None \<Rightarrow> Failed
          | Some callTargetReturn \<Rightarrow>
              (case (if orig = [] then Some (0, 0) else CorSigUncompressData_size (tl orig)) of
                 None \<Rightarrow> Fault
               | Some (oldLocalsLen, oldLocals) \<Rightarrow>
                   let
                     newLocalsCount = of_nat newLocalsCount + oldLocals;
                     newLocals = CorSigCompressData newLocalsCount;
                     newLocalsLen = (case newLocals of None \<Rightarrow> - 1 | Some bs \<Rightarrow> of_nat (length bs));
                     newSignatureSize = of_nat (length orig + length ret + (1 + length (token_bytes (exceptionTypeRef t))) +
                       length callTargetReturn + (1 + length (token_bytes (callTargetStateTypeRef t)))) :: u32;
                     newSignatureSize = unat (newSignatureSize + (if orig = [] then 2 else newLocalsLen - oldLocalsLen))
                   in if newSignatureSize > signatureBufferSize then Failed
                      else case newLocals of
                        None \<Rightarrow> Fault
                      | Some count \<Rightarrow>
                          if orig \<noteq> [] \<and> length orig < 1 + unat oldLocalsLen then Fault
                          else case write_signature t count (drop (1 + unat oldLocalsLen) orig) ret callTargetReturn newSignatureSize of
                             None \<Rightarrow> Fault
                           | Some (buf, newSignatureSize) \<Rightarrow>
                               if newSignatureSize > signatureBufferSize \<or> length buf \<noteq> newSignatureSize then Failed
                               else case new_token t of
                                 None \<Rightarrow> Failed
                               | Some token \<Rightarrow>
                                   let indexStart = 3 + additionalLocalsCount; n = unat newLocalsCount
                                   in Modified \<lparr>nl_signature = buf, nl_token = token, nl_callTargetStateIndex = n - 1,
                                        nl_exceptionIndex = n - indexStart, nl_callTargetReturnIndex = n - (indexStart - 1),
                                        nl_returnValueIndex = (if isVoid then 2 ^ 32 - 1 else n - (indexStart + 1)),
                                        nl_additionalLocalIndices = map (\<lambda>i. n - (indexStart - 2 - i)) [0..<additionalLocalsCount]\<rparr>))"

section \<open>Sizes\<close>

lemma token_bytes_eq: "CorSigCompressToken tk = Some (token_bytes tk)"
  using compress_defined [of "encoded_token tk"] encoded_token_small [of tk]
  by (auto simp: token_bytes_def compress_token_eq split: option.splits)

lemma local_builds: "build (Token ClassMode tk) = Some (class_local tk)" "build (Token ValueTypeMode tk) = Some (value_local tk)"
  by (simp_all add: TokenType_eq token_bytes_eq class_local_def value_local_def)

lemma put_some: "length buf + length bs \<le> signatureBufferSize \<Longrightarrow> put buf bs = Some (buf @ bs)"
  by (simp add: put_def)

text \<open>
  As long as the size counts at least the bytes written, nothing is written outside the buffer: the references are added
  one by one until the size exceeds it.
\<close>

lemma add_ref_structs_result:
  assumes "length buf \<le> m"
  shows "\<exists>buf' m'. add_ref_structs tk ls buf m = Some (buf', m') \<and>
    (m + count_list ls True * (1 + length (token_bytes tk)) \<le> signatureBufferSize \<longrightarrow>
       m' = m + count_list ls True * (1 + length (token_bytes tk)) \<and>
       buf' = buf @ concat (replicate (count_list ls True) (value_local tk))) \<and>
    (signatureBufferSize < m + count_list ls True * (1 + length (token_bytes tk)) \<longrightarrow> m \<le> signatureBufferSize \<longrightarrow> signatureBufferSize < m')"
  using assms
proof (induction ls arbitrary: buf m)
  case (Cons l ls)
  let ?n = "1 + length (token_bytes tk)"
  show ?case
  proof (cases "l \<and> m + ?n \<le> signatureBufferSize")
    case True
    have "length (buf @ value_local tk) \<le> m + ?n" using Cons.prems by (simp add: value_local_def)
    from Cons.IH [OF this] obtain buf' m' where
      "add_ref_structs tk ls (buf @ value_local tk) (m + ?n) = Some (buf', m')"
      "m + ?n + count_list ls True * ?n \<le> signatureBufferSize \<longrightarrow> m' = m + ?n + count_list ls True * ?n \<and>
         buf' = (buf @ value_local tk) @ concat (replicate (count_list ls True) (value_local tk))"
      "signatureBufferSize < m + ?n + count_list ls True * ?n \<longrightarrow> m + ?n \<le> signatureBufferSize \<longrightarrow> signatureBufferSize < m'" by blast
    moreover have "put buf (value_local tk) = Some (buf @ value_local tk)" using True Cons.prems by (intro put_some) (simp add: value_local_def)
    ultimately show ?thesis using True by (auto simp: algebra_simps)
  next
    case False
    then show ?thesis using Cons by (auto simp: not_le)
  qed
qed simp

lemma put_chain: "length buf + length bs \<le> signatureBufferSize \<Longrightarrow> Option.bind (put buf bs) f = f (buf @ bs)"
  by (simp add: put_def)

definition refs :: "local_tokens \<Rightarrow> nat" where
  "refs t = (if by_ref_instrumentation t then count_list (by_ref_like t) True else 0)"

definition extra_size :: "local_tokens \<Rightarrow> nat" where
  "extra_size t = 2 * length (class_local (exceptionTypeRef t)) + refs t * length (value_local (callTargetRefStructTypeRef t))"

definition extra_types :: "local_tokens \<Rightarrow> byte list list" where
  "extra_types t = [class_local (exceptionTypeRef t), class_local (exceptionTypeRef t)] @ replicate (refs t) (value_local (callTargetRefStructTypeRef t))"

lemma extra_size: "length (concat (extra_types t)) = extra_size t"
  by (simp add: extra_types_def extra_size_def length_concat sum_list_replicate)

lemma AddAdditionalLocals_result:
  assumes "length buf \<le> m" "m \<le> signatureBufferSize"
  shows "\<exists>buf' m'. AddAdditionalLocals t buf m = Some (buf', m') \<and>
    (m + extra_size t \<le> signatureBufferSize \<longrightarrow> m' = m + extra_size t \<and> buf' = buf @ concat (extra_types t)) \<and>
    (signatureBufferSize < m + extra_size t \<longrightarrow> signatureBufferSize < m')"
proof -
  let ?e = "class_local (exceptionTypeRef t)"
  have e: "length ?e = 1 + length (token_bytes (exceptionTypeRef t))" by (simp add: class_local_def)
  have r: "length (value_local (callTargetRefStructTypeRef t)) = 1 + length (token_bytes (callTargetRefStructTypeRef t))" by (simp add: value_local_def)
  show ?thesis
  proof (cases "m + 2 * length ?e \<le> signatureBufferSize")
    case True
    have "length (buf @ ?e @ ?e) \<le> m + 2 * length ?e" using assms by simp
    from add_ref_structs_result [OF this, of "callTargetRefStructTypeRef t" "by_ref_like t"] obtain buf' m' where
      a: "add_ref_structs (callTargetRefStructTypeRef t) (by_ref_like t) (buf @ ?e @ ?e) (m + 2 * length ?e) = Some (buf', m')"
      "m + 2 * length ?e + count_list (by_ref_like t) True * length (value_local (callTargetRefStructTypeRef t)) \<le> signatureBufferSize \<longrightarrow>
         m' = m + 2 * length ?e + count_list (by_ref_like t) True * length (value_local (callTargetRefStructTypeRef t)) \<and>
         buf' = (buf @ ?e @ ?e) @ concat (replicate (count_list (by_ref_like t) True) (value_local (callTargetRefStructTypeRef t)))"
      "signatureBufferSize < m + 2 * length ?e + count_list (by_ref_like t) True * length (value_local (callTargetRefStructTypeRef t)) \<longrightarrow>
         m + 2 * length ?e \<le> signatureBufferSize \<longrightarrow> signatureBufferSize < m'" unfolding r by blast
    have run: "AddAdditionalLocals t buf m =
        (if by_ref_instrumentation t then add_ref_structs (callTargetRefStructTypeRef t) (by_ref_like t) (buf @ ?e @ ?e) (m + 2 * length ?e)
         else Some (buf @ ?e @ ?e, m + 2 * length ?e))"
      using True assms unfolding AddAdditionalLocals_def Let_def e by (simp add: put_chain e)
    show ?thesis
    proof (cases "by_ref_instrumentation t")
      case b: True
      show ?thesis using a True run b by (simp add: extra_size_def extra_types_def refs_def)
    next
      case False
      then show ?thesis using run True by (simp add: extra_size_def extra_types_def refs_def)
    qed
  next
    case False
    then show ?thesis using e by (auto simp: AddAdditionalLocals_def Let_def extra_size_def)
  qed
qed

definition signature_head :: "local_tokens \<Rightarrow> byte list \<Rightarrow> byte list \<Rightarrow> byte list \<Rightarrow> byte list \<Rightarrow> byte list" where
  "signature_head t count old ret callTargetReturn =
     IMAGE_CEE_CS_CALLCONV_LOCAL_SIG # count @ old @ ret @ class_local (exceptionTypeRef t) @ callTargetReturn"

lemma write_signature_result:
  assumes "length (signature_head t count old ret callTargetReturn) + length (value_local (callTargetStateTypeRef t)) \<le> m" "m \<le> signatureBufferSize"
  shows "\<exists>buf m'. write_signature t count old ret callTargetReturn m = Some (buf, m') \<and>
    (m + extra_size t \<le> signatureBufferSize \<longrightarrow> m' = m + extra_size t \<and>
       buf = signature_head t count old ret callTargetReturn @ concat (extra_types t) @ value_local (callTargetStateTypeRef t)) \<and>
    (signatureBufferSize < m + extra_size t \<longrightarrow> signatureBufferSize < m')"
proof -
  let ?h = "signature_head t count old ret callTargetReturn" and ?s = "value_local (callTargetStateTypeRef t)"
  have "length ?h \<le> m" using assms by simp
  from AddAdditionalLocals_result [OF this assms(2), of t] obtain buf' m' where a: "AddAdditionalLocals t ?h m = Some (buf', m')"
    "m + extra_size t \<le> signatureBufferSize \<longrightarrow> m' = m + extra_size t \<and> buf' = ?h @ concat (extra_types t)"
    "signatureBufferSize < m + extra_size t \<longrightarrow> signatureBufferSize < m'" by blast
  have "write_signature t count old ret callTargetReturn m =
      (case AddAdditionalLocals t ?h m of None \<Rightarrow> None
       | Some (buf, m') \<Rightarrow> if m' > signatureBufferSize then Some (buf, m') else Option.bind (put buf ?s) (\<lambda>buf. Some (buf, m')))"
    using assms unfolding write_signature_def by (simp add: put_chain signature_head_def split: option.split)
  moreover have "length (?h @ concat (extra_types t)) + length ?s \<le> m + extra_size t" using assms(1) extra_size [of t] by simp
  ultimately show ?thesis using a by (cases "m + extra_size t \<le> signatureBufferSize") (auto simp: put_chain)
qed

section \<open>What the new signature should be\<close>

text \<open>
  A signature of local variables is the calling convention, their number, and their types. The specification of the new
  signature does not mention sizes: the types of the instrumentation are appended, the result is the signature of all of
  them, if it fits and the metadata has a token for it.
\<close>

definition serialised :: "byte list list \<Rightarrow> byte list option" where
  "serialised tys = map_option (\<lambda>count. IMAGE_CEE_CS_CALLCONV_LOCAL_SIG # count @ concat tys) (CorSigCompressData (of_nat (length tys)))"

definition signature_of :: "byte list list \<Rightarrow> byte list \<Rightarrow> bool" where
  "signature_of olds orig \<longleftrightarrow> orig = [] \<and> olds = [] \<or> serialised olds = Some orig"

definition callTargetReturn_local :: "local_tokens \<Rightarrow> byte list option" where
  "callTargetReturn_local t =
     (if return_signature t = None then Some (value_local (void_return_type t)) else callTargetReturnSignature t)"

definition return_locals :: "local_tokens \<Rightarrow> byte list list" where
  "return_locals t = (case return_signature t of None \<Rightarrow> [] | Some r \<Rightarrow> [r])"

definition added_types :: "local_tokens \<Rightarrow> byte list \<Rightarrow> byte list list" where
  "added_types t callTargetReturn = return_locals t @ [class_local (exceptionTypeRef t), callTargetReturn] @ extra_types t @
     [value_local (callTargetStateTypeRef t)]"

definition appended_locals :: "local_tokens \<Rightarrow> nat \<Rightarrow> byte list \<Rightarrow> nat \<Rightarrow> new_locals" where
  "appended_locals t n blob token =
     (let r = length (return_locals t)
      in \<lparr>nl_signature = blob, nl_token = token, nl_callTargetStateIndex = n + r + 2 + (2 + refs t),
          nl_exceptionIndex = n + r, nl_callTargetReturnIndex = n + r + 1,
          nl_returnValueIndex = (if return_signature t = None then 2 ^ 32 - 1 else n),
          nl_additionalLocalIndices = map (\<lambda>i. n + r + 2 + i) [0..<2 + refs t]\<rparr>)"

definition append_locals :: "local_tokens \<Rightarrow> byte list list \<Rightarrow> byte list \<Rightarrow> new_locals sig_result" where
  "append_locals t olds callTargetReturn =
     (case serialised (olds @ added_types t callTargetReturn) of
        None \<Rightarrow> Failed
      | Some blob \<Rightarrow>
          if signatureBufferSize < length blob then Failed
          else case new_token t of None \<Rightarrow> Failed | Some token \<Rightarrow> Modified (appended_locals t (length olds) blob token))"

section \<open>The new signature is what it should be\<close>

lemma locals_count: "GetAdditionalLocalsCount t = 2 + refs t"
  by (simp add: GetAdditionalLocalsCount_def refs_def)

lemma added_count: "length (added_types t cr) = 3 + GetAdditionalLocalsCount t + (if return_signature t = None then 0 else 1)"
  by (simp add: added_types_def return_locals_def extra_types_def locals_count split: option.split)

lemma added_head:
  "signature_head t count old (concat (return_locals t)) cr @ concat (extra_types t) @ value_local (callTargetStateTypeRef t) =
     IMAGE_CEE_CS_CALLCONV_LOCAL_SIG # count @ old @ concat (added_types t cr)"
  by (simp add: signature_head_def added_types_def)

lemma return_bytes: "(case return_signature t of None \<Rightarrow> [] | Some r \<Rightarrow> r) = concat (return_locals t)"
  by (simp add: return_locals_def split: option.split)

lemma serialised_small:
  assumes "length tys < 128"
  shows "serialised tys = Some (IMAGE_CEE_CS_CALLCONV_LOCAL_SIG # of_nat (length tys) # concat tys)"
proof -
  have "(of_nat (length tys) :: u32) \<le> 0x7F" using assms by (simp add: word_le_nat_alt unat_of_nat)
  moreover have "take_bit 32 (length tys) = length tys" using assms by (simp add: take_bit_nat_eq_self)
  ultimately show ?thesis by (simp add: serialised_def CorSigCompressData_def unsigned_of_nat)
qed

text \<open>What is read from the old signature, and the size computed from it.\<close>

lemma old_locals_read:
  assumes "signature_of olds orig" "length olds \<le> 0x1FFFFFFF" "length orig < 2 ^ 32"
  shows "\<exists>len. (if orig = [] then Some (0, 0) else CorSigUncompressData_size (tl orig)) = Some (len, of_nat (length olds)) \<and>
     drop (1 + unat len) orig = concat olds \<and> \<not> (orig \<noteq> [] \<and> length orig < 1 + unat len) \<and>
     (orig \<noteq> [] \<longrightarrow> length orig = 1 + unat len + length (concat olds))"
proof (cases "orig = []")
  case True
  then show ?thesis using assms by (auto simp: signature_of_def serialised_def)
next
  case False
  then obtain enc where e: "CorSigCompressData (of_nat (length olds)) = Some enc" "orig = IMAGE_CEE_CS_CALLCONV_LOCAL_SIG # enc @ concat olds"
    using assms by (auto simp: signature_of_def serialised_def)
  have l: "length enc \<in> {1, 2, 4}" using compress_length [OF e(1)] .
  then have "length enc \<le> unat (0xff :: u32)" by auto
  from uncompress_checked_compress [OF e(1) this, of "concat olds"]
  have "CorSigUncompressData_size (tl orig) = Some (of_nat (length enc), of_nat (length olds))"
    by (simp add: CorSigUncompressData_size_def e(2))
  moreover have "unat (of_nat (length enc) :: u32) = length enc" using l by auto
  ultimately show ?thesis using e(2) by (intro exI [of _ "of_nat (length enc)"]) simp
qed

lemma small_nat: "n < 2 ^ 32 \<Longrightarrow> unat (of_nat n :: u32) = n"
  by (simp add: unat_of_nat)

lemma size_in_words: "(of_nat (1 + unat len + a) :: u32) + (of_nat b - len) = of_nat (1 + a + b)"
  by (simp add: algebra_simps)

lemma new_size:
  assumes "orig \<noteq> [] \<longrightarrow> length orig = 1 + unat len + length (concat olds)" "orig = [] \<longrightarrow> olds = [] \<and> len = 0 \<and> length count = 1"
    and "1 + length (concat olds) + r + length count < 2 ^ 32"
  shows "unat ((of_nat (length orig + r) :: u32) + (if orig = [] then 2 else of_nat (length count) - len)) = 1 + length (concat olds) + r + length count"
proof (cases "orig = []")
  case True
  then have "(of_nat (length orig + r) :: u32) + 2 = of_nat (2 + r)" "2 + r < 2 ^ 32" using assms by simp_all
  then show ?thesis using True assms small_nat [of "2 + r"] by (simp add: add.commute)
next
  case False
  then have "length orig + r = 1 + unat len + (length (concat olds) + r)" using assms(1) by simp
  then have "(of_nat (length orig + r) :: u32) + (of_nat (length count) - len) = of_nat (1 + (length (concat olds) + r) + length count)"
    using size_in_words by metis
  moreover have "unat (of_nat (1 + (length (concat olds) + r) + length count) :: u32) = 1 + (length (concat olds) + r) + length count"
    by (rule small_nat) (use assms in simp)
  ultimately show ?thesis unfolding if_not_P [OF False] by (simp only: add.assoc)
qed

text \<open>The computation after the guards: the old locals are known to be \<open>olds\<close>, the number to be \<open>count\<close>.\<close>

definition finish_signature :: "local_tokens \<Rightarrow> byte list list \<Rightarrow> byte list \<Rightarrow> byte list \<Rightarrow> nat \<Rightarrow> new_locals sig_result" where
  "finish_signature t olds cr count m =
     (if m > signatureBufferSize then Failed
      else case write_signature t count (concat olds) (concat (return_locals t)) cr m of
        None \<Rightarrow> Fault
      | Some (buf, m) \<Rightarrow>
          if m > signatureBufferSize \<or> length buf \<noteq> m then Failed
          else case new_token t of
            None \<Rightarrow> Failed
          | Some token \<Rightarrow> Modified (appended_locals t (length olds) buf token))"

lemma finish_signature_result:
  assumes "m = length (signature_head t count (concat olds) (concat (return_locals t)) cr) + length (value_local (callTargetStateTypeRef t))"
    and "blob = IMAGE_CEE_CS_CALLCONV_LOCAL_SIG # count @ concat (olds @ added_types t cr)"
  shows "finish_signature t olds cr count m =
    (if signatureBufferSize < length blob then Failed
     else case new_token t of None \<Rightarrow> Failed | Some token \<Rightarrow> Modified (appended_locals t (length olds) blob token))"
proof -
  have blob: "blob = signature_head t count (concat olds) (concat (return_locals t)) cr @ concat (extra_types t) @ value_local (callTargetStateTypeRef t)"
    unfolding added_head by (simp add: assms(2))
  have size: "length blob = m + extra_size t" unfolding blob using extra_size [of t] by (simp add: assms(1))
  show ?thesis
  proof (cases "m \<le> signatureBufferSize")
    case True
    from write_signature_result [OF eq_refl [OF assms(1) [symmetric]] True] show ?thesis
      unfolding finish_signature_def size
      by (elim exE conjE) (cases "m + extra_size t \<le> signatureBufferSize"; simp add: blob [symmetric] size)
  next
    case False
    then show ?thesis by (simp add: finish_signature_def size)
  qed
qed

lemma ModifyLocalSig_finish:
  assumes t: "base_tokens t" "original_signature t = Some orig" "\<not> already_modified t orig" "callTargetReturn_local t = Some cr"
    and olds: "signature_of olds orig" "length orig < 2 ^ 32" "length (olds @ added_types t cr) \<le> 0x1FFFFFFF"
    and count: "CorSigCompressData (of_nat (length (olds @ added_types t cr))) = Some count" "orig = [] \<longrightarrow> length count = 1"
    and m: "m = length (signature_head t count (concat olds) (concat (return_locals t)) cr) + length (value_local (callTargetStateTypeRef t))"
      "m < 2 ^ 32"
  shows "ModifyLocalSig t = finish_signature t olds cr count m"
proof -
  have cr: "(if return_signature t = None then Some (value_local (void_return_type t)) else callTargetReturnSignature t) = Some cr"
    using t(4) by (simp add: callTargetReturn_local_def)
  let ?k = "3 + GetAdditionalLocalsCount t + (if return_signature t = None then 0 else 1)"
  have "length olds \<le> 0x1FFFFFFF" using olds(3) by simp
  from old_locals_read [OF olds(1) this olds(2)] obtain len where
    read: "(if orig = [] then Some (0, 0) else CorSigUncompressData_size (tl orig)) = Some (len, of_nat (length olds))"
    and rest: "drop (1 + unat len) orig = concat olds" "\<not> (orig \<noteq> [] \<and> length orig < 1 + unat len)"
    and len: "orig \<noteq> [] \<longrightarrow> length orig = 1 + unat len + length (concat olds)" by blast
  have empty: "orig = [] \<longrightarrow> olds = [] \<and> len = 0 \<and> length count = 1"
    using olds(1) count(2) read by (auto simp: signature_of_def serialised_def)
  have k: "?k + length olds = length (olds @ added_types t cr)" by (simp add: added_count)
  have n: "(of_nat ?k + of_nat (length olds) :: u32) = of_nat (length (olds @ added_types t cr))" unfolding k [symmetric] by simp
  have un: "unat (of_nat (length (olds @ added_types t cr)) :: u32) = ?k + length olds" unfolding k using olds(3) by (intro small_nat) simp
  let ?r = "length (concat (return_locals t)) + (1 + length (token_bytes (exceptionTypeRef t))) + length cr + (1 + length (token_bytes (callTargetStateTypeRef t)))"
  have m': "m = 1 + length (concat olds) + ?r + length count" unfolding m by (simp add: signature_head_def class_local_def value_local_def)
  have size: "unat ((of_nat (length orig + length (concat (return_locals t)) + (1 + length (token_bytes (exceptionTypeRef t))) + length cr + (1 + length (token_bytes (callTargetStateTypeRef t)))) :: u32) +
      (if orig = [] then 2 else of_nat (length count) - len)) = m"
    using new_size [OF len empty, of ?r] m(2) unfolding m' by (simp add: add.assoc)
  have indices: "map (\<lambda>i. ?k + length olds - (3 + GetAdditionalLocalsCount t - 2 - i)) [0..<GetAdditionalLocalsCount t] =
      map (\<lambda>i. length olds + length (return_locals t) + 2 + i) [0..<2 + refs t]"
    by (auto simp: locals_count return_locals_def split: option.split)
  show ?thesis
    unfolding ModifyLocalSig_def finish_signature_def appended_locals_def
    using t(1) by (simp only: t option.case cr not_True_eq_False if_False Let_def read prod.case return_bytes n count(1) size rest un indices)
      (simp add: return_locals_def locals_count split: option.split)
qed

lemma modify_appends:
  assumes "base_tokens t" "original_signature t = Some orig" "\<not> already_modified t orig" "callTargetReturn_local t = Some cr"
    and "signature_of olds orig" "length (concat (olds @ added_types t cr)) < 2 ^ 30" "length (olds @ added_types t cr) \<le> 0x1FFFFFFF"
    and "orig \<noteq> [] \<or> length (added_types t cr) < 128"
  shows "ModifyLocalSig t = append_locals t olds cr"
proof -
  let ?n = "length (olds @ added_types t cr)"
  have "(of_nat ?n :: u32) \<le> 0x1FFFFFFF" using assms(7) small_nat [of ?n] by (simp add: word_le_nat_alt del: length_append)
  then obtain count where count: "CorSigCompressData (of_nat ?n) = Some count" using compress_defined by blast
  have l: "length count \<le> 4" using compress_length [OF count] by auto
  have single: "orig = [] \<longrightarrow> length count = 1"
  proof
    assume "orig = []"
    then have "olds = []" "?n < 128" using assms by (auto simp: signature_of_def serialised_def)
    then show "length count = 1" using count small_nat [of ?n] by (auto simp: CorSigCompressData_def word_le_nat_alt split: if_splits)
  qed
  have "length orig < 2 ^ 32"
  proof (cases "orig = []")
    case False
    then obtain enc where "CorSigCompressData (of_nat (length olds)) = Some enc" "orig = IMAGE_CEE_CS_CALLCONV_LOCAL_SIG # enc @ concat olds"
      using assms(5) by (auto simp: signature_of_def serialised_def)
    with compress_length [OF this(1)] assms(6) show ?thesis by auto
  qed simp
  moreover have "length (signature_head t count (concat olds) (concat (return_locals t)) cr) + length (value_local (callTargetStateTypeRef t)) < 2 ^ 32"
    using assms(6) l by (simp add: signature_head_def added_types_def)
  ultimately have "ModifyLocalSig t = finish_signature t olds cr count
      (length (signature_head t count (concat olds) (concat (return_locals t)) cr) + length (value_local (callTargetStateTypeRef t)))"
    by (intro ModifyLocalSig_finish [OF assms(1-5) _ assms(7) count single refl])
  then show ?thesis unfolding finish_signature_result [OF refl refl] by (simp only: append_locals_def serialised_def count option.map option.case)
qed


section \<open>Reading the new signature back\<close>

definition type_bytes :: "byte list \<Rightarrow> bool" where
  "type_bytes b \<longleftrightarrow> (\<exists>ty. build ty = Some b \<and> parameter ty)"

lemma token_locals_are_types: "type_bytes (class_local tk)" "type_bytes (value_local tk)"
proof -
  have "parameter (Token m tk)" for m by (simp add: parameter_def)
  with local_builds show "type_bytes (class_local tk)" "type_bytes (value_local tk)" unfolding type_bytes_def by blast+
qed

lemma added_are_types:
  assumes "\<forall>r. return_signature t = Some r \<longrightarrow> type_bytes r" "type_bytes cr"
  shows "list_all type_bytes (added_types t cr)"
  using assms by (auto simp: added_types_def return_locals_def extra_types_def token_locals_are_types list_all_iff split: option.split)

lemma serialised_parses:
  assumes "serialised tys = Some blob" "list_all type_bytes tys" "length tys < 2 ^ 32" "length blob < 2 ^ 32"
  shows "\<exists>segs. TryParseLocals blob [] = (S_OK, segs) \<and> map (GetSignature blob) segs = tys"
proof -
  obtain count where count: "CorSigCompressData (of_nat (length tys)) = Some count" "blob = IMAGE_CEE_CS_CALLCONV_LOCAL_SIG # count @ concat tys"
    using assms(1) by (auto simp: serialised_def)
  have "\<exists>ts. list_all2 (\<lambda>ty b. build ty = Some b \<and> parameter ty) ts tys"
    using assms(2) by (induction tys) (auto simp: type_bytes_def intro: list_all2_Cons [THEN iffD2])
  then obtain ts where "list_all2 (\<lambda>ty b. build ty = Some b \<and> parameter ty) ts tys" by blast
  from parse_locals_build [OF this, of blob "IMAGE_CEE_CS_CALLCONV_LOCAL_SIG # count" "[]"] assms(4) count(2)
  obtain segs where segs: "parse_locals (length tys) blob (concat tys) [] = (S_OK, segs)" "map (GetSignature blob) segs = tys" by auto
  have "ParseByte blob = Some (LocalVarSig, count @ concat tys)"
    by (simp add: count(2) IMAGE_CEE_CS_CALLCONV_LOCAL_SIG_def LocalVarSig_def)
  then show ?thesis using segs ParseNumber_compress [OF count(1)] small_nat [OF assms(3)] by (simp add: TryParseLocals_def)
qed

definition indices_name_locals :: "local_tokens \<Rightarrow> byte list \<Rightarrow> new_locals \<Rightarrow> byte list list \<Rightarrow> bool" where
  "indices_name_locals t cr r tys \<longleftrightarrow>
     nl_callTargetStateIndex r < length tys \<and>
     (\<forall>ret. return_signature t = Some ret \<longrightarrow> tys ! nl_returnValueIndex r = ret) \<and>
     tys ! nl_exceptionIndex r = class_local (exceptionTypeRef t) \<and> tys ! nl_callTargetReturnIndex r = cr \<and>
     map (\<lambda>i. tys ! i) (nl_additionalLocalIndices r) =
       [class_local (exceptionTypeRef t), class_local (exceptionTypeRef t)] @ replicate (refs t) (value_local (callTargetRefStructTypeRef t)) \<and>
     tys ! nl_callTargetStateIndex r = value_local (callTargetStateTypeRef t)"

lemma indices_name_appended: "indices_name_locals t cr (appended_locals t (length olds) blob token) (olds @ added_types t cr)"
proof -
  let ?tys = "olds @ added_types t cr" and ?n = "length olds" and ?r = "length (return_locals t)"
  let ?rest = "[class_local (exceptionTypeRef t), cr] @ extra_types t @ [value_local (callTargetStateTypeRef t)]"
  have extras: "length (extra_types t) = 2 + refs t" by (simp add: extra_types_def)
  have "?tys = (olds @ return_locals t) @ ?rest" by (simp add: added_types_def)
  then have nth: "?tys ! (?n + ?r + j) = ?rest ! j" for j using nth_append_length_plus [of "olds @ return_locals t" ?rest j] by simp
  have "?tys ! ?n = r" if "return_signature t = Some r" for r using that by (simp add: added_types_def return_locals_def)
  moreover have "?tys ! (?n + ?r) = class_local (exceptionTypeRef t)" "?tys ! (?n + ?r + 1) = cr" using nth [of 0] nth [of 1] by simp_all
  moreover have "?tys ! (?n + ?r + 2 + (2 + refs t)) = value_local (callTargetStateTypeRef t)"
    using nth [of "2 + (2 + refs t)"] extras nth_append_length [of "extra_types t"] by (simp add: add.assoc)
  moreover have "map (\<lambda>i. ?tys ! (?n + ?r + 2 + i)) [0..<2 + refs t] = extra_types t"
  proof (rule nth_equalityI)
    fix i assume "i < length (map (\<lambda>i. ?tys ! (?n + ?r + 2 + i)) [0..<2 + refs t])"
    then show "map (\<lambda>i. ?tys ! (?n + ?r + 2 + i)) [0..<2 + refs t] ! i = extra_types t ! i"
      using nth [of "2 + i"] extras nth_append [of "extra_types t" _ i] by (simp add: add.assoc del: upt_Suc)
  qed (simp add: extras)
  moreover have "?n + ?r + 2 + (2 + refs t) < length ?tys" by (simp add: added_types_def extras)
  ultimately show ?thesis
    by (simp add: indices_name_locals_def appended_locals_def Let_def extra_types_def o_def del: upt_Suc)
qed

lemma modified_appended:
  assumes "ModifyLocalSig t = Modified r" "original_signature t = Some orig" "callTargetReturn_local t = Some cr"
    and "signature_of olds orig" "length (concat (olds @ added_types t cr)) < 2 ^ 30" "length (olds @ added_types t cr) \<le> 0x1FFFFFFF"
    and "orig \<noteq> [] \<or> length (added_types t cr) < 128"
  obtains blob token where "serialised (olds @ added_types t cr) = Some blob" "length blob \<le> signatureBufferSize"
    "new_token t = Some token" "r = appended_locals t (length olds) blob token"
proof -
  have t: "base_tokens t" "\<not> already_modified t orig" using assms(1,2) by (auto simp: ModifyLocalSig_def split: if_splits)
  have "append_locals t olds cr = Modified r"
    using modify_appends [OF t(1) assms(2) t(2) assms(3-7)] assms(1) by simp
  then show thesis using that by (auto simp: append_locals_def split: option.splits if_splits)
qed


text \<open>A method with an integer and a string local that returns an integer and takes one ref struct.\<close>

definition example_tokens :: local_tokens where
  "example_tokens = \<lparr>base_tokens = True, original_signature = Some [0x07, 2, 0x08, 0x0e], callTargetStateTypeRef = 0x01000003,
     exceptionTypeRef = 0x01000002, callTargetRefStructTypeRef = 0x01000004, return_signature = Some [0x08],
     callTargetReturnSignature = Some [0x15, 0x11, 0x15, 1, 0x08], void_return_type = 0x01000006, by_ref_instrumentation = True,
     by_ref_like = [False, True], new_token = Some 0x11000001\<rparr>"

lemma example_bytes:
  "token_bytes 0x01000002 = [0x09]" "token_bytes 0x01000003 = [0x0d]" "token_bytes 0x01000004 = [0x11]" "token_bytes 0x01000006 = [0x19]"
  by code_simp+

lemma example_signature: "signature_of [[0x08], [0x0e]] [0x07, 2, 0x08, 0x0e]" "callTargetReturn_local example_tokens = Some [0x15, 0x11, 0x15, 1, 0x08]"
  by (simp_all add: signature_of_def serialised_small IMAGE_CEE_CS_CALLCONV_LOCAL_SIG_def callTargetReturn_local_def example_tokens_def)

lemma example_added:
  "added_types example_tokens [0x15, 0x11, 0x15, 1, 0x08] = [[0x08], [0x12, 0x09], [0x15, 0x11, 0x15, 1, 0x08], [0x12, 0x09], [0x12, 0x09], [0x11, 0x11], [0x11, 0x0d]]"
  by (simp add: added_types_def return_locals_def extra_types_def refs_def class_local_def value_local_def example_bytes example_tokens_def)

lemma example_types: "type_bytes [0x08]" "type_bytes [0x0e]" "type_bytes [0x15, 0x11, 0x15, 1, 0x08]"
proof -
  have "build (Builtin Int32T) = Some [0x08]" "build (Builtin StringT) = Some [0x0e]"
    "build (Inst ValueTypeMode 0x01000005 [Builtin Int32T]) = Some [0x15, 0x11, 0x15, 1, 0x08]" by code_simp+
  moreover have "parameter (Builtin Int32T)" "parameter (Builtin StringT)" "parameter (Inst ValueTypeMode 0x01000005 [Builtin Int32T])"
    by (simp_all add: parameter_def)
  ultimately show "type_bytes [0x08]" "type_bytes [0x0e]" "type_bytes [0x15, 0x11, 0x15, 1, 0x08]" unfolding type_bytes_def by blast+
qed

definition example_result :: new_locals where
  "example_result = \<lparr>nl_signature = [0x07, 9, 0x08, 0x0e, 0x08, 0x12, 0x09, 0x15, 0x11, 0x15, 1, 0x08, 0x12, 0x09, 0x12, 0x09, 0x11, 0x11, 0x11, 0x0d],
     nl_token = 0x11000001, nl_callTargetStateIndex = 8, nl_exceptionIndex = 3, nl_callTargetReturnIndex = 4, nl_returnValueIndex = 2,
     nl_additionalLocalIndices = [5, 6, 7]\<rparr>"

lemma example_fields:
  "base_tokens example_tokens" "original_signature example_tokens = Some [0x07, 2, 0x08, 0x0e]"
  "return_signature example_tokens = Some [0x08]" "new_token example_tokens = Some 0x11000001"
  "return_locals example_tokens = [[0x08]]" "refs example_tokens = 1"
  by (simp_all add: example_tokens_def return_locals_def refs_def)

lemma example_not_modified: "\<not> already_modified example_tokens [0x07, 2, 0x08, 0x0e]"
  by (simp add: already_modified_def example_bytes example_tokens_def)

lemma example_appended: "append_locals example_tokens [[0x08], [0x0e]] [0x15, 0x11, 0x15, 1, 0x08] = Modified example_result"
  by (simp add: append_locals_def example_added serialised_small signatureBufferSize_def IMAGE_CEE_CS_CALLCONV_LOCAL_SIG_def
    appended_locals_def example_fields example_result_def upt_rec)

lemma example_bounds:
  "length (concat ([[0x08], [0x0e]] @ added_types example_tokens [0x15, 0x11, 0x15, 1, 0x08])) < 2 ^ 30"
  "length ([[0x08], [0x0e]] @ added_types example_tokens [0x15, 0x11, 0x15, 1, 0x08]) \<le> 0x1FFFFFFF"
  "[0x07, 2, 0x08, 0x0e :: byte] \<noteq> [] \<or> length (added_types example_tokens [0x15, 0x11, 0x15, 1, 0x08]) < 128"
  by (simp_all add: example_added)

lemmas example_conditions = example_fields(1,2) example_not_modified example_signature(2,1) example_bounds


lemma example_modified: "ModifyLocalSig example_tokens = Modified example_result"
  using modify_appends [OF example_conditions] by (simp only: example_appended)


section \<open>The locals serve the instrumentation\<close>

text \<open>The locals as the rewriting uses them; \<open>spec\<close> and \<open>ref\<close> are the tokens of the initial values.\<close>

definition rewriting_locals :: "nat option \<Rightarrow> nat \<Rightarrow> new_locals \<Rightarrow> added_locals" where
  "rewriting_locals spec ref r = \<lparr>newLocalVarSig = nl_token r, callTargetStateIndex = nl_callTargetStateIndex r, exceptionIndex = nl_exceptionIndex r,
     callTargetReturnIndex = nl_callTargetReturnIndex r, returnValueIndex = nl_returnValueIndex r,
     additionalLocalIndices = nl_additionalLocalIndices r, defaultValueMethodSpec = spec, returnDefaultMemberRef = ref\<rparr>"

definition local_slots :: "calltarget \<Rightarrow> added_locals \<Rightarrow> nat list" where
  "local_slots c l = (if isVoid c then [] else [returnValueIndex l]) @ [exceptionIndex l, callTargetReturnIndex l] @ additionalLocalIndices l @ [callTargetStateIndex l]"

definition same_method :: "calltarget \<Rightarrow> local_tokens \<Rightarrow> bool" where
  "same_method c t \<longleftrightarrow> isVoid c = (return_signature t = None) \<and> enable_by_ref_instrumentation c = by_ref_instrumentation t \<and>
     by_ref_like t = map isByRefLike (methodArguments c)"

lemma type_bytes_not_empty: "type_bytes b \<Longrightarrow> b \<noteq> []"
  unfolding type_bytes_def using ParseParamOrLocal_build(2) by blast

lemma fewer_types_than_bytes: "list_all type_bytes tys \<Longrightarrow> length tys \<le> length (concat tys)"
proof (induction tys)
  case (Cons b tys)
  then have "0 < length b" using type_bytes_not_empty [of b] by simp
  moreover have "length tys \<le> length (concat tys)" using Cons by simp
  ultimately show ?case unfolding concat.simps length_append list.size by linarith
qed simp

lemma serialised_size: "serialised tys = Some blob \<Longrightarrow> length (concat tys) < length blob"
  by (auto simp: serialised_def)

lemma upt_in_parts: "[n..<n + (r + 2 + m + 1)] = [n..<n + r] @ [n + r, n + r + 1] @ [n + r + 2..<n + r + 2 + m] @ [n + r + 2 + m]"
proof -
  have "[n..<n + (r + 2 + m + 1)] = [n..<n + r] @ [n + r..<n + r + 2 + m + 1]"
    using upt_add_eq_append [of n "n + r" "2 + m + 1"] by (simp only: le_add1 add.assoc simp_thms)
  also have "[n + r..<n + r + 2 + m + 1] = [n + r..<n + r + 2] @ [n + r + 2..<n + r + 2 + m + 1]"
    using upt_add_eq_append [of "n + r" "n + r + 2" "m + 1"] by (simp only: le_add1 add.assoc simp_thms)
  also have "[n + r + 2..<n + r + 2 + m + 1] = [n + r + 2..<n + r + 2 + m] @ [n + r + 2 + m]" by simp
  also have "[n + r..<n + r + 2] = [n + r, n + r + 1]" by (simp add: upt_rec)
  finally show ?thesis by (simp only: append_assoc)
qed

lemma appended_slots:
  assumes "same_method c t" "l = rewriting_locals spec ref (appended_locals t n blob token)"
  shows "local_slots c l = [n..<n + length (added_types t cr)]"
proof -
  let ?r = "length (return_locals t)" and ?m = "2 + refs t"
  have r: "(if isVoid c then [] else [n]) = [n..<n + ?r]" using assms(1) by (auto simp: same_method_def return_locals_def split: option.split)
  have len: "length (added_types t cr) = ?r + 2 + ?m + 1" by (simp add: added_types_def extra_types_def)
  note upt = upt_in_parts [of n ?r ?m]
  have adds: "map (\<lambda>i. n + ?r + 2 + i) [0..<?m] = [n + ?r + 2..<n + ?r + 2 + ?m]"
    using map_add_upt [of "n + ?r + 2" ?m] by (simp add: add.commute)
  have "local_slots c l = (if isVoid c then [] else [n]) @ [n + ?r, n + ?r + 1] @ map (\<lambda>i. n + ?r + 2 + i) [0..<?m] @ [n + ?r + 2 + ?m]"
    using assms(1) by (simp add: local_slots_def assms(2) rewriting_locals_def appended_locals_def Let_def same_method_def)
  then show ?thesis unfolding len upt r adds by (simp only:)
qed

text \<open>The locals serve the instrumentation. The indices handed to the rewriting are exactly the slots behind the
  method's own locals, each once and all of them there; a returned value can always be stored, as there are fewer than 500
  locals; and there is precisely one local for each by-ref-like argument. So no method is skipped for want of a local.\<close>

theorem new_locals_suffice:
  assumes "ModifyLocalSig t = Modified r" "original_signature t = Some orig" "callTargetReturn_local t = Some cr"
    and "signature_of olds orig" "length (concat (olds @ added_types t cr)) < 2 ^ 30" "length (olds @ added_types t cr) \<le> 0x1FFFFFFF"
    and "orig \<noteq> [] \<or> length (added_types t cr) < 128"
    and "list_all type_bytes olds" "\<forall>ret. return_signature t = Some ret \<longrightarrow> type_bytes ret" "type_bytes cr"
    and "same_method c t" "l = rewriting_locals spec ref r"
  shows "local_slots c l = [length olds..<length (olds @ added_types t cr)] \<and> length (olds @ added_types t cr) < 500 \<and>
    returns_storable c l is \<and>
    length (drop 2 (additionalLocalIndices l)) = (if enable_by_ref_instrumentation c then length (filter isByRefLike (methodArguments c)) else 0)"
proof -
  from modified_appended [OF assms(1-7)] obtain blob token where r: "serialised (olds @ added_types t cr) = Some blob"
    "length blob \<le> signatureBufferSize" "r = appended_locals t (length olds) blob token" by blast
  have "list_all type_bytes (olds @ added_types t cr)" using added_are_types [OF assms(9,10)] assms(8) by simp
  then have small: "length (olds @ added_types t cr) < 500"
    using fewer_types_than_bytes serialised_size [OF r(1)] r(2) unfolding signatureBufferSize_def by (meson le_less_trans less_le_trans)
  then have "returnValueIndex l = length olds \<or> isVoid c" "length olds < 500"
    using assms(11) by (auto simp: assms(12) r(3) rewriting_locals_def appended_locals_def Let_def same_method_def)
  then have "returns_storable c l is" by (auto simp: returns_storable_def)
  moreover have "count_list (map isByRefLike xs) True = length (filter isByRefLike xs)" for xs :: "argument list" by (induction xs) simp_all
  then have "length (drop 2 (additionalLocalIndices l)) = (if enable_by_ref_instrumentation c then length (filter isByRefLike (methodArguments c)) else 0)"
    using assms(11) by (simp add: assms(12) r(3) rewriting_locals_def appended_locals_def Let_def same_method_def refs_def) arith
  ultimately show ?thesis
    using small appended_slots [OF assms(11) assms(12) [unfolded r(3)], of cr] by simp
qed

definition example_caller :: calltarget where
  "example_caller = \<lparr>integration_definition = True, isRuntimeAsync = False, runtime_async_methods_available = False, effective_return_type = True,
     isVoid = False, isStatic = True, caller_type = TypeInfo 3 4 False False None None, caller_id = 5,
     integration_type_found = True, profiler_loaded = True, modified_locals = Some (rewriting_locals (Some 13) 2 example_result),
     ensureCallbacks = None, is_integration_method = True, enable_by_ref_instrumentation = True, enable_calltarget_state_by_ref = True,
     methodArguments = [\<lparr>byRef = False, pinned = False, boxed = False, typeTok = 6, isByRefLike = False\<rparr>,
       \<lparr>byRef = False, pinned = False, boxed = False, typeTok = 14, isByRefLike = True\<rparr>],
     objectTypeRef = 7, exTypeRef = 8, createRefStruct = Some 15, beginMethod = Some 9, bubbleUpType = Some 10,
     bubbleUpFunction = None, logBegin = Some 11, logEnd = Some 11, endMethod = Some 12, getReturnValue = Some 16\<rparr>"

lemma example_same_method: "same_method example_caller example_tokens"
  by (simp add: same_method_def example_caller_def example_tokens_def)

theorem new_locals_suffice_witness:
  "local_slots example_caller (rewriting_locals (Some 13) 2 example_result) = [2..<9] \<and>
   returns_storable example_caller (rewriting_locals (Some 13) 2 example_result) []"
proof -
  have "list_all type_bytes [[0x08], [0x0e]]" "\<forall>ret. return_signature example_tokens = Some ret \<longrightarrow> type_bytes ret"
    by (simp_all add: example_types example_fields)
  from new_locals_suffice [OF example_modified example_fields(2) example_signature(2,1) example_bounds this example_types(3) example_same_method refl]
  show ?thesis by (simp add: example_added)
qed

section \<open>128 locals without a signature\<close>

text \<open>
  A method without a signature to which 128 or more locals are added is not covered: their number takes two bytes, and
  only one is counted. The size that is compared with the buffer is then one byte short. With a size of exactly 500, 244
  ref structs, the last byte of the signature is written behind the buffer.
\<close>

definition many_ref_structs :: local_tokens where
  "many_ref_structs = example_tokens\<lparr>original_signature := Some [], return_signature := None, by_ref_like := replicate 244 True\<rparr>"

lemma count_list_replicate: "count_list (replicate n x) x = n"
  by (induction n) simp_all

lemma buffer_overrun: "ModifyLocalSig many_ref_structs = Fault"
proof -
  let ?t = many_ref_structs
  have fields: "base_tokens ?t" "original_signature ?t = Some []" "return_signature ?t = None" "by_ref_instrumentation ?t" "\<not> already_modified ?t []"
    "value_local (callTargetStateTypeRef ?t) = [0x11, 0x0d]" "value_local (void_return_type ?t) = [0x11, 0x19]" "class_local (exceptionTypeRef ?t) = [0x12, 0x09]"
    "token_bytes (exceptionTypeRef ?t) = [0x09]" "token_bytes (callTargetStateTypeRef ?t) = [0x0d]"
    "value_local (callTargetRefStructTypeRef ?t) = [0x11, 0x11]" "refs ?t = 244"
    by (simp_all add: many_ref_structs_def example_tokens_def already_modified_def value_local_def class_local_def example_bytes refs_def count_list_replicate)
  have count: "CorSigCompressData (of_nat 249) = Some [0x80, 0xf9]" by code_simp
  let ?head = "[0x07, 0x80, 0xf9, 0x12, 0x09, 0x11, 0x19] :: byte list"
  have head: "signature_head ?t [0x80, 0xf9] [] [] [0x11, 0x19] = ?head"
    by (simp add: signature_head_def fields IMAGE_CEE_CS_CALLCONV_LOCAL_SIG_def)
  have "length ?head \<le> 8" "8 \<le> signatureBufferSize" by (simp_all add: signatureBufferSize_def)
  from AddAdditionalLocals_result [OF this, of ?t] obtain buf where
    add: "AddAdditionalLocals ?t ?head 8 = Some (buf, 500)" "length buf = 499"
    using extra_size [of ?t] by (auto simp: extra_size_def fields signatureBufferSize_def)
  then have "write_signature ?t [0x80, 0xf9] [] [] [0x11, 0x19] 8 = None"
    by (simp add: write_signature_def put_def signatureBufferSize_def IMAGE_CEE_CS_CALLCONV_LOCAL_SIG_def fields)
  then show ?thesis
    using fields count by (simp add: ModifyLocalSig_def locals_count signatureBufferSize_def)
qed

end
