(* ===== verification/Integration_Definitions.thy ===== *)
theory Integration_Definitions
  imports Mini_Utf
begin

text \<open>
  What is to be instrumented (\<open>integration.h\<close>, \<open>tracer_integration_definition.cpp\<close>, \<open>CorProfiler::RegisterCallTargetDefinitions\<close>):
  versions, references to types and methods, the definitions the managed side registers, and the definitions a user writes
  as a configuration of traced methods. Of an assembly reference only the name takes part in the matching; the cache of parsed references is left out.
\<close>

section \<open>Versions\<close>

record Version =
  v_major :: u16
  v_minor :: u16
  v_build :: u16
  v_revision :: u16

definition version_less :: "Version \<Rightarrow> Version \<Rightarrow> bool" where
  "version_less a b =
     (if v_major a < v_major b then True
      else if v_major a = v_major b \<and> v_minor a < v_minor b then True
      else if v_major a = v_major b \<and> v_minor a = v_minor b \<and> v_build a < v_build b then True
      else False)"

definition version_greater :: "Version \<Rightarrow> Version \<Rightarrow> bool" where "version_greater a b \<longleftrightarrow> version_less b a"
definition version_le :: "Version \<Rightarrow> Version \<Rightarrow> bool" where "version_le a b \<longleftrightarrow> \<not> version_greater a b"
definition version_ge :: "Version \<Rightarrow> Version \<Rightarrow> bool" where "version_ge a b \<longleftrightarrow> \<not> version_less a b"

text \<open>The order is lexicographic on the first three numbers; the revision takes no part in it.\<close>

lemma version_le_lexicographic:
  "version_le a b \<longleftrightarrow> v_major a < v_major b \<or> v_major a = v_major b \<and>
     (v_minor a < v_minor b \<or> v_minor a = v_minor b \<and> v_build a \<le> v_build b)"
  by (auto simp: version_le_def version_greater_def version_less_def)

lemma version_ge_le: "version_ge a b \<longleftrightarrow> version_le b a"
  by (simp add: version_ge_def version_le_def version_greater_def)

lemma version_le_trans: "version_le a b \<Longrightarrow> version_le b c \<Longrightarrow> version_le a c"
  by (auto simp: version_le_lexicographic)

lemma version_le_total: "version_le a b \<or> version_le b a"
  by (auto simp: version_le_lexicographic not_less)

section \<open>References and definitions\<close>

record TypeReference =
  type_assembly_name :: wstring
  tr_name :: wstring
  min_version :: Version
  max_version :: Version

text \<open>The name in front of the first comma; it is cut at its last space, not only freed of spaces at its end.\<close>

definition GetNameFromAssemblyReferenceString :: "wstring \<Rightarrow> wstring" where
  "GetNameFromAssemblyReferenceString wstr =
     (let name = takeWhile (\<lambda>c. c \<noteq> 0x2C) wstr
      in if 0x20 \<in> set name then take (length name - 1 - length (takeWhile (\<lambda>c. c \<noteq> 0x20) (rev name))) name else name)"

lemma assembly_name_cut: "GetNameFromAssemblyReferenceString (WStr ''A B, Version=1.0.0.0'') = WStr ''A''"
  by (simp add: GetNameFromAssemblyReferenceString_def WStr_def Let_def)

definition TypeReference_new :: "wstring \<Rightarrow> wstring \<Rightarrow> Version \<Rightarrow> Version \<Rightarrow> TypeReference" where
  "TypeReference_new assembly type_name minVersion maxVersion =
     \<lparr>type_assembly_name = GetNameFromAssemblyReferenceString assembly, tr_name = type_name, min_version = minVersion, max_version = maxVersion\<rparr>"

record MethodReference =
  target_type :: TypeReference
  method_name :: wstring
  signature_types :: "wstring list"

record IntegrationDefinition =
  categories :: u32
  enabled_categories :: u32
  target_method :: MethodReference
  integration_type :: TypeReference
  is_derived :: bool
  is_interface :: bool
  is_exact_signature_match :: bool

definition IntegrationDefinition_new :: "MethodReference \<Rightarrow> TypeReference \<Rightarrow> bool \<Rightarrow> bool \<Rightarrow> bool \<Rightarrow> u32 \<Rightarrow> u32 \<Rightarrow> IntegrationDefinition" where
  "IntegrationDefinition_new target integration isDerived isInterface exact cats enabledCategories =
     \<lparr>categories = cats, enabled_categories = cats AND enabledCategories, target_method = target,
      integration_type = integration, is_derived = isDerived, is_interface = isInterface, is_exact_signature_match = exact\<rparr>"

definition GetEnabled :: "IntegrationDefinition \<Rightarrow> bool" where
  "GetEnabled d \<longleftrightarrow> enabled_categories d \<noteq> 0"

definition Update :: "IntegrationDefinition \<Rightarrow> IntegrationDefinition \<Rightarrow> IntegrationDefinition" where
  "Update other d = d\<lparr>enabled_categories := enabled_categories other\<rparr>"

section \<open>Definitions from the managed side\<close>

text \<open>A null pointer is \<open>None\<close>; the array of signature types is the list of its entries.\<close>

datatype CallTargetKind = Default_Kind | Derived_Kind | Interface_Kind | Unknown_Kind u8

record CallTargetDefinition2 =
  targetAssembly :: "wstring option"
  targetType :: "wstring option"
  targetMethod :: "wstring option"
  signatureTypes :: "wstring option list option"
  signatureTypesLength :: u16
  targetMinimum :: "u16 \<times> u16 \<times> u16"
  targetMaximum :: "u16 \<times> u16 \<times> u16"
  integrationAssembly :: "wstring option"
  integrationType :: "wstring option"
  cd_kind :: CallTargetKind
  cd_categories :: u32

definition no_version :: Version where
  "no_version = \<lparr>v_major = 0, v_minor = 0, v_build = 0, v_revision = 0\<rparr>"

definition target_version :: "u16 \<times> u16 \<times> u16 \<Rightarrow> Version" where
  "target_version v = (case v of (a, b, c) \<Rightarrow> \<lparr>v_major = a, v_minor = b, v_build = c, v_revision = 0\<rparr>)"

definition invalid_definition :: "CallTargetDefinition2 \<Rightarrow> bool" where
  "invalid_definition c \<longleftrightarrow>
     targetAssembly c = None \<or> targetType c = None \<or> targetMethod c = None \<or>
     integrationAssembly c = None \<or> integrationType c = None \<or>
     (signatureTypesLength c > 0 \<and> signatureTypes c = None) \<or> cd_categories c = 0 \<or>
     (cd_kind c \<noteq> Default_Kind \<and> cd_kind c \<noteq> Derived_Kind \<and> cd_kind c \<noteq> Interface_Kind)"

definition registered_definition :: "u32 \<Rightarrow> CallTargetDefinition2 \<Rightarrow> IntegrationDefinition" where
  "registered_definition enabledCategories c =
     IntegrationDefinition_new
       \<lparr>target_type = TypeReference_new (the (targetAssembly c)) (the (targetType c)) (target_version (targetMinimum c)) (target_version (targetMaximum c)),
        method_name = the (targetMethod c),
        signature_types = List.map_filter id (case signatureTypes c of None \<Rightarrow> [] | Some ts \<Rightarrow> take (unat (signatureTypesLength c)) ts)\<rparr>
       (TypeReference_new (the (integrationAssembly c)) (the (integrationType c)) no_version no_version)
       (cd_kind c = Derived_Kind) (cd_kind c = Interface_Kind) True (cd_categories c) enabledCategories"

definition registered_definitions :: "u32 \<Rightarrow> CallTargetDefinition2 list \<Rightarrow> IntegrationDefinition list" where
  "registered_definitions enabledCategories items =
     map (registered_definition enabledCategories) (filter (\<lambda>c. \<not> invalid_definition c) items)"

text \<open>The older form of a definition, whose kind is that of the call and which has no categories.\<close>

record CallTargetDefinition =
  ctd_targetAssembly :: wstring
  ctd_targetType :: wstring
  ctd_targetMethod :: wstring
  ctd_signatureTypes :: "wstring option list"
  ctd_targetMinimum :: "u16 \<times> u16 \<times> u16"
  ctd_targetMaximum :: "u16 \<times> u16 \<times> u16"
  ctd_integrationAssembly :: wstring
  ctd_integrationType :: wstring

definition added_definition :: "bool \<Rightarrow> bool \<Rightarrow> CallTargetDefinition \<Rightarrow> IntegrationDefinition" where
  "added_definition isDerived isInterface c =
     IntegrationDefinition_new
       \<lparr>target_type = TypeReference_new (ctd_targetAssembly c) (ctd_targetType c) (target_version (ctd_targetMinimum c)) (target_version (ctd_targetMaximum c)),
        method_name = ctd_targetMethod c, signature_types = List.map_filter id (ctd_signatureTypes c)\<rparr>
       (TypeReference_new (ctd_integrationAssembly c) (ctd_integrationType c) no_version no_version)
       isDerived isInterface True 1 (- 1)"

section \<open>Definitions from a configuration\<close>

fun split_from :: "u16 \<Rightarrow> wstring \<Rightarrow> wstring \<Rightarrow> wstring list" where
  "split_from delim part [] = [part]"
| "split_from delim part (c # s) = (if c = delim then part # split_from delim [] s else split_from delim (part @ [c]) s)"

definition Split :: "wstring \<Rightarrow> u16 \<Rightarrow> wstring list" where
  "Split s delim = split_from delim [] s"

fun find_from :: "u16 \<Rightarrow> wstring \<Rightarrow> nat \<Rightarrow> nat option" where
  "find_from c [] i = None"
| "find_from c (x # s) i = (if x = c then Some i else find_from c s (Suc i))"

definition find_first_of :: "wstring \<Rightarrow> u16 \<Rightarrow> nat \<Rightarrow> nat option" where
  "find_first_of s c pos = find_from c (drop pos s) pos"

abbreviation (input) open_bracket :: u16 where "open_bracket \<equiv> 0x5B"
abbreviation (input) close_bracket :: u16 where "close_bracket \<equiv> 0x5D"
abbreviation (input) semicolon :: u16 where "semicolon \<equiv> 0x3B"
abbreviation (input) comma :: u16 where "comma \<equiv> 0x2C"

definition tracemethodintegration_assemblyname :: wstring where
  "tracemethodintegration_assemblyname = WStr ''#TraceMethodFeature''"

definition method_definitions :: "wstring \<Rightarrow> wstring" where
  "method_definitions trace_method_type =
     (case find_first_of trace_method_type open_bracket 0 of
        None \<Rightarrow> []
      | Some firstOpenBracket \<Rightarrow>
          (case find_first_of trace_method_type close_bracket (firstOpenBracket + 1) of
             None \<Rightarrow> []
           | Some firstCloseBracket \<Rightarrow>
               (let secondOpenBracket = find_first_of trace_method_type open_bracket (firstOpenBracket + 1)
                in if secondOpenBracket = None \<or> firstCloseBracket < the secondOpenBracket
                   then take (firstCloseBracket - firstOpenBracket - 1) (drop (firstOpenBracket + 1) trace_method_type)
                   else [])))"

definition trace_definition :: "TypeReference \<Rightarrow> wstring \<Rightarrow> wstring \<Rightarrow> IntegrationDefinition" where
  "trace_definition integration type_name method =
     IntegrationDefinition_new
       \<lparr>target_type = TypeReference_new tracemethodintegration_assemblyname type_name no_version
          \<lparr>v_major = - 1, v_minor = - 1, v_build = - 1, v_revision = - 1\<rparr>,
        method_name = method, signature_types = []\<rparr>
       integration False False False 1 (- 1)"

definition GetIntegrationsFromTraceMethodsConfiguration :: "TypeReference \<Rightarrow> wstring \<Rightarrow> IntegrationDefinition list" where
  "GetIntegrationsFromTraceMethodsConfiguration integration configuration_string =
     concat (map (\<lambda>trace_method_type.
       if method_definitions trace_method_type = [] then []
       else map (trace_definition integration
              (case find_first_of trace_method_type open_bracket 0 of None \<Rightarrow> trace_method_type | Some p \<Rightarrow> take p trace_method_type))
            (Split (method_definitions trace_method_type) comma))
       (Split configuration_string semicolon))"

section \<open>A configuration is read as it is written\<close>

fun joined_by :: "u16 \<Rightarrow> wstring list \<Rightarrow> wstring" where
  "joined_by delim [] = []"
| "joined_by delim [s] = s"
| "joined_by delim (s # t # ts) = s @ delim # joined_by delim (t # ts)"

definition written_type :: "wstring \<times> wstring list \<Rightarrow> wstring" where
  "written_type tm = fst tm @ open_bracket # joined_by comma (snd tm) @ [close_bracket]"

definition written_configuration :: "(wstring \<times> wstring list) list \<Rightarrow> wstring" where
  "written_configuration tms = joined_by semicolon (map written_type tms)"

lemma split_from_plain: "delim \<notin> set s \<Longrightarrow> split_from delim p s = [p @ s]"
  by (induction s arbitrary: p) auto

lemma split_from_delim: "delim \<notin> set s \<Longrightarrow> split_from delim p (s @ delim # t) = (p @ s) # split_from delim [] t"
  by (induction s arbitrary: p) auto

lemma Split_joined: "ss \<noteq> [] \<Longrightarrow> \<forall>s \<in> set ss. delim \<notin> set s \<Longrightarrow> Split (joined_by delim ss) delim = ss"
  unfolding Split_def
  by (induction ss rule: joined_by.induct [of _ delim]) (auto simp: split_from_plain split_from_delim)

lemma find_from_plain: "c \<notin> set s \<Longrightarrow> find_from c s i = None"
  by (induction s arbitrary: i) auto

lemma find_from_hit: "c \<notin> set s \<Longrightarrow> find_from c (s @ c # t) i = Some (i + length s)"
  by (induction s arbitrary: i) auto

lemma set_joined: "set (joined_by delim ss) \<subseteq> insert delim (\<Union> (set ` set ss))"
  by (induction ss rule: joined_by.induct [of _ delim]) auto

text \<open>A name without the four separators, and a type with at least one method, not only the empty name.\<close>

definition plain_name :: "wstring \<Rightarrow> bool" where
  "plain_name s \<longleftrightarrow> set s \<inter> {open_bracket, close_bracket, semicolon, comma} = {}"

definition plain_type :: "wstring \<times> wstring list \<Rightarrow> bool" where
  "plain_type tm \<longleftrightarrow> plain_name (fst tm) \<and> list_all plain_name (snd tm) \<and> snd tm \<noteq> [] \<and> snd tm \<noteq> [[]]"

lemma joined_plain: "list_all plain_name ss \<Longrightarrow> c \<in> {open_bracket, close_bracket, semicolon} \<Longrightarrow> c \<notin> set (joined_by comma ss)"
  using set_joined [of comma ss] by (fastforce simp: plain_name_def list_all_iff)

lemma joined_empty: "ss \<noteq> [] \<Longrightarrow> ss \<noteq> [[]] \<Longrightarrow> joined_by delim ss \<noteq> []"
  by (induction ss rule: joined_by.induct [of _ delim]) auto

lemma written_type_parts:
  assumes "plain_type tm"
  shows "find_first_of (written_type tm) open_bracket 0 = Some (length (fst tm))"
    and "method_definitions (written_type tm) = joined_by comma (snd tm)"
    and "semicolon \<notin> set (written_type tm)"
proof -
  have n: "open_bracket \<notin> set (fst tm)" "semicolon \<notin> set (fst tm)" and
    j: "open_bracket \<notin> set (joined_by comma (snd tm))" "close_bracket \<notin> set (joined_by comma (snd tm))" "semicolon \<notin> set (joined_by comma (snd tm))"
    using assms joined_plain [of "snd tm"] by (auto simp: plain_type_def plain_name_def)
  show f: "find_first_of (written_type tm) open_bracket 0 = Some (length (fst tm))"
    using find_from_hit [OF n(1), of _ 0] by (simp add: find_first_of_def written_type_def)
  have r: "drop (Suc (length (fst tm))) (written_type tm) = joined_by comma (snd tm) @ [close_bracket]" by (simp add: written_type_def)
  have "find_first_of (written_type tm) close_bracket (length (fst tm) + 1) = Some (length (fst tm) + 1 + length (joined_by comma (snd tm)))"
    using find_from_hit [OF j(2)] by (simp add: find_first_of_def r)
  moreover have "find_first_of (written_type tm) open_bracket (length (fst tm) + 1) = None"
    using find_from_plain [of open_bracket "joined_by comma (snd tm) @ [close_bracket]"] j(1) by (simp add: find_first_of_def r)
  ultimately show "method_definitions (written_type tm) = joined_by comma (snd tm)"
    by (simp add: method_definitions_def f r)
  show "semicolon \<notin> set (written_type tm)" using n j by (simp add: written_type_def)
qed

text \<open>C15: a configuration of traced methods is read as it is written: types with their methods in brackets, in any number,
  become exactly one definition for each type and method, in their order.\<close>

theorem trace_configuration_round_trip:
  assumes "list_all plain_type tms"
  shows "GetIntegrationsFromTraceMethodsConfiguration integration (written_configuration tms) =
    concat (map (\<lambda>(type_name, methods). map (trace_definition integration type_name) methods) tms)"
proof (cases "tms = []")
  case True
  then show ?thesis
    by (simp add: GetIntegrationsFromTraceMethodsConfiguration_def written_configuration_def Split_def method_definitions_def find_first_of_def)
next
  case False
  have "Split (written_configuration tms) semicolon = map written_type tms"
    unfolding written_configuration_def using False assms written_type_parts(3) by (intro Split_joined) (auto simp: list_all_iff)
  moreover have "(if method_definitions (written_type tm) = [] then []
      else map (trace_definition integration
             (case find_first_of (written_type tm) open_bracket 0 of None \<Rightarrow> written_type tm | Some p \<Rightarrow> take p (written_type tm)))
           (Split (method_definitions (written_type tm)) comma)) = map (trace_definition integration (fst tm)) (snd tm)"
    if "tm \<in> set tms" for tm
  proof -
    have p: "plain_type tm" using that assms by (simp add: list_all_iff)
    then have "Split (joined_by comma (snd tm)) comma = snd tm" "joined_by comma (snd tm) \<noteq> []"
      using joined_empty by (auto simp: plain_type_def plain_name_def list_all_iff intro!: Split_joined)
    moreover have "take (length (fst tm)) (written_type tm) = fst tm" by (simp add: written_type_def)
    ultimately show ?thesis using written_type_parts [OF p] by simp
  qed
  ultimately show ?thesis unfolding GetIntegrationsFromTraceMethodsConfiguration_def
    by (simp add: o_def case_prod_unfold cong: map_cong)
qed

theorem trace_configuration_round_trip_witness:
  "length (GetIntegrationsFromTraceMethodsConfiguration \<lparr>type_assembly_name = [0x49], tr_name = [0x54], min_version = no_version, max_version = no_version\<rparr>
      (written_configuration [([0x41], [[0x61], [0x62]]), ([0x42], [[0x2A]])])) = 3"
  using trace_configuration_round_trip [of "[([0x41], [[0x61], [0x62]]), ([0x42], [[0x2A]])]" "\<lparr>type_assembly_name = [0x49], tr_name = [0x54], min_version = no_version, max_version = no_version\<rparr>"]
  by (simp add: plain_type_def plain_name_def)

end
