(* ===== verification/Rejit_Targets.thy ===== *)
theory Rejit_Targets
  imports Integration_Definitions "HOL-Library.Sublist"
begin

text \<open>
  Which methods of a module a definition asks to be instrumented (\<open>rejit_preprocessor.cpp\<close>): the type that is looked up by its
  name, or the types that derive from a class or implement an interface, and their methods by name and signature. What the
  metadata interfaces enumerate is a record; the state these functions change is in the next theory.
\<close>

section \<open>What the metadata of a module answers\<close>

record assembly_metadata =
  am_name :: wstring
  am_version :: Version

datatype type_scope = Assembly_Ref assembly_metadata | Other_Scope | Nil_Scope

text \<open>
  The token of an implemented interface with the answer to its properties: its scope and name, or its name. \<open>None\<close> is a
  failed call, also for the properties of the implementation, which come with whether the class is the type at hand.
\<close>

datatype interface_token = Type_Ref_Token "(type_scope \<times> wstring) option" | Type_Def_Token "wstring option" | Other_Token

type_synonym interface_impl = "(bool \<times> interface_token) option"

record ancestor =
  ancestor_name :: wstring
  ancestor_scope :: type_scope

record type_def =
  td_token :: nat
  td_ancestors :: "ancestor list"
  td_interfaces :: "interface_impl list"

text \<open>
  A method: whether its properties could be read, its name, and the names of its argument types, as \<open>GetTypeTokName\<close> prints
  the segments that \<open>TryParse\<close> found; \<open>None\<close> if the signature is not parsed.
\<close>

record method_def =
  method_token :: nat
  method_valid :: bool
  md_name :: wstring
  parsed_arguments :: "wstring list option"

record module_metadata =
  own_assembly :: assembly_metadata
  assembly_refs :: "assembly_metadata list"
  type_defs :: "type_def list"
  find_type_def :: "wstring \<Rightarrow> nat \<Rightarrow> nat option"
  methods_of :: "nat \<Rightarrow> method_def list"

record module_data =
  info_name :: wstring
  metadata :: "module_metadata option"

section \<open>Methods\<close>

definition tracemethodintegration_wildcardmethodname :: wstring where
  "tracemethodintegration_wildcardmethodname = WStr ''*''"

definition tracemethodintegration_wildcard_ignored_methods :: "wstring list" where
  "tracemethodintegration_wildcard_ignored_methods =
     map WStr [''.ctor'', ''.cctor'', ''Equals'', ''Finalize'', ''GetHashCode'', ''ToString'']"

definition tracemethodintegration_setterprefix :: wstring where "tracemethodintegration_setterprefix = WStr ''set_''"
definition tracemethodintegration_getterprefix :: wstring where "tracemethodintegration_getterprefix = WStr ''get_''"

definition wildcard_enabled :: "IntegrationDefinition \<Rightarrow> bool" where
  "wildcard_enabled d \<longleftrightarrow> method_name (target_method d) = tracemethodintegration_wildcardmethodname"

text \<open>The loop over the arguments; the number of signature types, less one, is computed in an unsigned type.\<close>

fun arguments_match :: "wstring list \<Rightarrow> wstring list \<Rightarrow> bool" where
  "arguments_match [] ts = True"
| "arguments_match (a # as) ts =
     (case ts of
        [] \<Rightarrow> False
      | t # ts \<Rightarrow> if a \<noteq> t \<and> t \<noteq> WStr ''_'' then False else arguments_match as ts)"

definition CheckExactSignatureMatch :: "wstring list \<Rightarrow> MethodReference \<Rightarrow> bool" where
  "CheckExactSignatureMatch args target =
     (let expected = (if signature_types target = [] then 2 ^ 64 - 1 else length (signature_types target) - 1)
      in if length args \<noteq> expected then False else arguments_match args (tl (signature_types target)))"

definition accepted :: "IntegrationDefinition \<Rightarrow> method_def \<Rightarrow> bool" where
  "accepted d m \<longleftrightarrow>
     (if \<not> method_valid m then False
      else case parsed_arguments m of
        None \<Rightarrow> False
      | Some args \<Rightarrow>
          if wildcard_enabled d \<and>
             (md_name m \<in> set tracemethodintegration_wildcard_ignored_methods \<or>
              prefix tracemethodintegration_setterprefix (md_name m) \<or> prefix tracemethodintegration_getterprefix (md_name m))
          then False
          else \<not> (is_exact_signature_match d \<and> \<not> CheckExactSignatureMatch args (target_method d)))"

definition EnumMethodsWithName :: "wstring \<Rightarrow> method_def list \<Rightarrow> method_def list" where
  "EnumMethodsWithName name ms = filter (\<lambda>m. md_name m = name) ms"

definition enumMethods :: "IntegrationDefinition \<Rightarrow> method_def list \<Rightarrow> method_def list" where
  "enumMethods d ms = (if wildcard_enabled d then ms else EnumMethodsWithName (method_name (target_method d)) ms)"

definition enumExplicitInterfaceMethods :: "IntegrationDefinition \<Rightarrow> method_def list \<Rightarrow> method_def list" where
  "enumExplicitInterfaceMethods d ms =
     EnumMethodsWithName (tr_name (target_type (target_method d)) @ WStr ''.'' @ method_name (target_method d)) ms"

section \<open>Types\<close>

definition assembly_matches :: "TypeReference \<Rightarrow> assembly_metadata \<Rightarrow> bool" where
  "assembly_matches t a \<longleftrightarrow>
     am_name a = type_assembly_name t \<and> version_le (min_version t) (am_version a) \<and> version_ge (max_version t) (am_version a)"

definition interface_matches :: "TypeReference \<Rightarrow> assembly_metadata \<Rightarrow> interface_impl \<Rightarrow> bool" where
  "interface_matches t own i =
     (case i of
        None \<Rightarrow> False
      | Some (same_class, token) \<Rightarrow>
          same_class \<and>
          (case token of
             Type_Ref_Token (Some (Assembly_Ref a, name)) \<Rightarrow> name = tr_name t \<and> assembly_matches t a
           | Type_Def_Token (Some name) \<Rightarrow> name = tr_name t \<and> assembly_matches t own
           | _ \<Rightarrow> False))"

text \<open>The class an instrumented type derives from: one step up, and never to one of the three roots.\<close>

definition ancestor_here :: "TypeReference \<Rightarrow> assembly_metadata \<Rightarrow> wstring \<Rightarrow> ancestor \<Rightarrow> bool" where
  "ancestor_here t own module_name a \<longleftrightarrow>
     ancestor_name a = tr_name t \<and>
     (case ancestor_scope a of
        Assembly_Ref r \<Rightarrow> assembly_matches t r
      | Other_Scope \<Rightarrow> False
      | Nil_Scope \<Rightarrow> module_name = type_assembly_name t \<and> version_le (min_version t) (am_version own) \<and> version_ge (max_version t) (am_version own))"

definition root_classes :: "wstring list" where
  "root_classes = map WStr [''System.ValueType'', ''System.Object'', ''System.Enum'']"

fun ancestor_matches :: "TypeReference \<Rightarrow> assembly_metadata \<Rightarrow> wstring \<Rightarrow> nat \<Rightarrow> ancestor list \<Rightarrow> bool" where
  "ancestor_matches t own module_name maxDepth [] = False"
| "ancestor_matches t own module_name maxDepth (a # as) =
     (if maxDepth = 0 then False
      else if ancestor_here t own module_name a then True
      else ancestor_matches t own module_name (maxDepth - 1)
             (case as of [] \<Rightarrow> [] | up # _ \<Rightarrow> if ancestor_name up \<in> set root_classes then [] else as))"

definition maxDepth :: nat where "maxDepth = 1"

definition rewrite_type :: "IntegrationDefinition \<Rightarrow> wstring \<Rightarrow> module_metadata \<Rightarrow> type_def \<Rightarrow> bool" where
  "rewrite_type d module_name md ty \<longleftrightarrow>
     (let t = target_type (target_method d); rewriteType = is_interface d \<and> list_ex (interface_matches t (own_assembly md)) (td_interfaces ty)
      in if is_derived d \<and> \<not> rewriteType then ancestor_matches t (own_assembly md) module_name maxDepth (td_ancestors ty) else rewriteType)"

text \<open>A nested type is found part by part.\<close>

fun find_nested :: "(wstring \<Rightarrow> nat \<Rightarrow> nat option) \<Rightarrow> wstring list \<Rightarrow> nat \<Rightarrow> nat option" where
  "find_nested look_up [] parentTypeDef = Some parentTypeDef"
| "find_nested look_up (namePart # parts) parentTypeDef =
     (case look_up namePart parentTypeDef of None \<Rightarrow> None | Some typeDef \<Rightarrow> find_nested look_up parts typeDef)"

definition mdTypeDefNil :: nat where "mdTypeDefNil = 0x02000000"

definition FindTypeDefByName :: "module_metadata \<Rightarrow> wstring \<Rightarrow> nat option" where
  "FindTypeDefByName md name = find_nested (find_type_def md) (Split name 0x2B) mdTypeDefNil"

section \<open>The targets of a definition\<close>

text \<open>
  The specification of what is requested: in a type, the first acceptable explicit implementation of the interface method if
  there is one, otherwise all acceptable methods; in a module, those of all types that are looked for.
\<close>

definition type_targets :: "IntegrationDefinition \<Rightarrow> method_def list \<Rightarrow> method_def list" where
  "type_targets d ms =
     (let explicit = (if is_interface d \<and> \<not> wildcard_enabled d then filter (accepted d) (enumExplicitInterfaceMethods d ms) else [])
      in if explicit \<noteq> [] then [hd explicit] else filter (accepted d) (enumMethods d ms))"

definition target_types :: "IntegrationDefinition \<Rightarrow> wstring \<Rightarrow> module_metadata \<Rightarrow> nat list" where
  "target_types d module_name md =
     (let t = target_type (target_method d)
      in if is_derived d \<or> is_interface d
         then (if am_name (own_assembly md) \<noteq> type_assembly_name t \<and> \<not> list_ex (assembly_matches t) (assembly_refs md) then []
               else map td_token (filter (rewrite_type d module_name md) (type_defs md)))
         else if type_assembly_name t \<noteq> tracemethodintegration_assemblyname \<and> type_assembly_name t \<noteq> module_name then []
         else if \<not> version_le (min_version t) (am_version (own_assembly md)) \<or> \<not> version_le (am_version (own_assembly md)) (max_version t) then []
         else case FindTypeDefByName md (tr_name t) of None \<Rightarrow> [] | Some typeDef \<Rightarrow> [typeDef])"

definition module_targets :: "module_data \<Rightarrow> IntegrationDefinition \<Rightarrow> method_def list" where
  "module_targets m d =
     (if \<not> GetEnabled d then []
      else case metadata m of
        None \<Rightarrow> []
      | Some md \<Rightarrow> concat (map (\<lambda>ty. type_targets d (methods_of md ty)) (target_types d (info_name m) md)))"

section \<open>Properties of the matching\<close>

lemma arguments_match_iff:
  "length args = length ts \<Longrightarrow> arguments_match args ts \<longleftrightarrow> list_all2 (\<lambda>a t. a = t \<or> t = WStr ''_'') args ts"
  by (induction args ts rule: list_induct2) auto

text \<open>A signature matches exactly when there is one type for each argument behind the return type, equal or a wildcard.\<close>

lemma CheckExactSignatureMatch_iff:
  assumes "length args < 2 ^ 32"
  shows "CheckExactSignatureMatch args target \<longleftrightarrow>
    (\<exists>ret ts. signature_types target = ret # ts \<and> list_all2 (\<lambda>a t. a = t \<or> t = WStr ''_'') args ts)"
proof (cases "signature_types target")
  case Nil
  then show ?thesis using assms by (simp add: CheckExactSignatureMatch_def)
next
  case (Cons r ts)
  then show ?thesis using arguments_match_iff [of args ts] by (auto simp: CheckExactSignatureMatch_def dest: list_all2_lengthD)
qed

text \<open>With the depth of one, only the direct base class counts.\<close>

lemma ancestor_matches_direct:
  "ancestor_matches t own n maxDepth as \<longleftrightarrow> as \<noteq> [] \<and> ancestor_here t own n (hd as)"
proof (cases as)
  case (Cons a up)
  then show ?thesis by (cases "(case up of [] \<Rightarrow> [] | x # _ \<Rightarrow> if ancestor_name x \<in> set root_classes then [] else up)") (simp_all add: maxDepth_def)
qed simp

lemma rewrite_type_iff:
  "rewrite_type d n md ty \<longleftrightarrow>
     is_interface d \<and> (\<exists>i \<in> set (td_interfaces ty). interface_matches (target_type (target_method d)) (own_assembly md) i) \<or>
     is_derived d \<and> td_ancestors ty \<noteq> [] \<and> ancestor_here (target_type (target_method d)) (own_assembly md) n (hd (td_ancestors ty))"
  by (auto simp: rewrite_type_def Let_def ancestor_matches_direct list_ex_iff)

lemma type_targets_accepted:
  assumes "x \<in> set (type_targets d ms)"
  shows "x \<in> set ms \<and> accepted d x"
proof -
  let ?e = "if is_interface d \<and> \<not> wildcard_enabled d then filter (accepted d) (enumExplicitInterfaceMethods d ms) else []"
  have "set ?e \<subseteq> {x \<in> set ms. accepted d x}" by (auto simp: enumExplicitInterfaceMethods_def EnumMethodsWithName_def)
  moreover have "set (filter (accepted d) (enumMethods d ms)) \<subseteq> {x \<in> set ms. accepted d x}"
    by (auto simp: enumMethods_def EnumMethodsWithName_def)
  moreover have "x = hd ?e \<and> ?e \<noteq> [] \<or> x \<in> set (filter (accepted d) (enumMethods d ms))"
    using assms unfolding type_targets_def Let_def by (cases "?e = []") auto
  ultimately show ?thesis using hd_in_set [of ?e] by blast
qed

lemma module_targets_enabled: "x \<in> set (module_targets m d) \<Longrightarrow> GetEnabled d"
  by (simp add: module_targets_def split: if_splits)

end
