(* ===== verification/Rejit_Registry.thy ===== *)
theory Rejit_Registry
  imports Rejit_Targets "HOL-Library.AList"
begin

text \<open>
  The registry of rejitted methods (\<open>rejit_handler.cpp\<close>, \<open>rejit_preprocessor.cpp\<close>): per module the methods that are to be
  rewritten, filled when a module is analysed and read when the runtime asks for the new body of a method. The hash maps
  are association lists; where the code iterates over one, the order of the list stands for the unspecified order.
\<close>

section \<open>Modules and methods\<close>

record rejit_method =
  m_methodDef :: nat
  m_integrationDefinition :: IntegrationDefinition
  m_functionInfo :: method_def

record rejit_module =
  module_has_metadata :: bool
  m_methods :: "(nat \<times> rejit_method) list"
  m_ngenProcessedInlinerModules :: "nat list"

record rejit =
  m_shutdown :: bool
  m_modules :: "(nat \<times> rejit_module) list"
  m_ngenInlinersModules :: "nat list"

definition RejitHandlerModule_new :: rejit_module where
  "RejitHandlerModule_new = \<lparr>module_has_metadata = False, m_methods = [], m_ngenProcessedInlinerModules = []\<rparr>"

definition GetOrAddModule :: "nat \<Rightarrow> rejit \<Rightarrow> rejit_module option \<times> rejit" where
  "GetOrAddModule moduleId s =
     (if m_shutdown s then (None, s)
      else case map_of (m_modules s) moduleId of
        Some moduleHandler \<Rightarrow> (Some moduleHandler, s)
      | None \<Rightarrow> (Some RejitHandlerModule_new, s\<lparr>m_modules := AList.update moduleId RejitHandlerModule_new (m_modules s)\<rparr>))"

definition set_module :: "nat \<Rightarrow> rejit_module \<Rightarrow> rejit \<Rightarrow> rejit" where
  "set_module moduleId h s = s\<lparr>m_modules := AList.update moduleId h (m_modules s)\<rparr>"

definition ContainsMethod :: "nat \<Rightarrow> rejit_module \<Rightarrow> bool" where
  "ContainsMethod methodDef h \<longleftrightarrow> map_of (m_methods h) methodDef \<noteq> None"

definition HasModuleAndMethod :: "nat \<Rightarrow> nat \<Rightarrow> rejit \<Rightarrow> bool" where
  "HasModuleAndMethod moduleId methodDef s \<longleftrightarrow>
     (if m_shutdown s then False
      else case map_of (m_modules s) moduleId of None \<Rightarrow> False | Some h \<Rightarrow> ContainsMethod methodDef h)"

definition RemoveModule :: "nat \<Rightarrow> rejit \<Rightarrow> rejit" where
  "RemoveModule moduleId s =
     (if m_shutdown s then s
      else s\<lparr>m_modules := AList.delete moduleId (m_modules s), m_ngenInlinersModules := removeAll moduleId (m_ngenInlinersModules s)\<rparr>)"

definition CreateMethodIfNotExists :: "IntegrationDefinition \<Rightarrow> method_def \<Rightarrow> rejit_module \<Rightarrow> rejit_module" where
  "CreateMethodIfNotExists request f h =
     (case map_of (m_methods h) (method_token f) of
        Some method \<Rightarrow>
          h\<lparr>m_methods := AList.update (method_token f)
             (method\<lparr>m_integrationDefinition := Update request (m_integrationDefinition method)\<rparr>) (m_methods h)\<rparr>
      | None \<Rightarrow>
          h\<lparr>m_methods := AList.update (method_token f)
             \<lparr>m_methodDef = method_token f, m_integrationDefinition = Update request request, m_functionInfo = f\<rparr> (m_methods h)\<rparr>)"

definition rejit_shut_down :: "rejit \<Rightarrow> rejit" where
  "rejit_shut_down s = s\<lparr>m_shutdown := True, m_modules := [], m_ngenInlinersModules := []\<rparr>"

section \<open>Analysing modules\<close>

text \<open>
  The loop over the methods of a type. It begins with the explicit implementations, if they are looked for, and goes over to
  the other methods when none of them was taken. A missing module handler ends it.
\<close>

definition take_method :: "IntegrationDefinition \<Rightarrow> nat \<Rightarrow> method_def \<Rightarrow> rejit \<Rightarrow> rejit option" where
  "take_method d moduleId f s =
     (case GetOrAddModule moduleId s of
        (None, s) \<Rightarrow> None
      | (Some moduleHandler, s) \<Rightarrow>
          let moduleHandler = (if module_has_metadata moduleHandler then moduleHandler else moduleHandler\<lparr>module_has_metadata := True\<rparr>)
          in Some (set_module moduleId (CreateMethodIfNotExists d f moduleHandler) s))"

function process_methods :: "IntegrationDefinition \<Rightarrow> nat \<Rightarrow> bool \<Rightarrow> method_def list \<Rightarrow> method_def list \<Rightarrow> rejit \<times> (nat \<times> nat) list \<Rightarrow> rejit \<times> (nat \<times> nat) list" where
  "process_methods d moduleId explicitMode [] regular (s, rejitRequests) =
     (if explicitMode then process_methods d moduleId False regular [] (s, rejitRequests) else (s, rejitRequests))"
| "process_methods d moduleId explicitMode (f # fs) regular (s, rejitRequests) =
     (if \<not> accepted d f then process_methods d moduleId explicitMode fs regular (s, rejitRequests)
      else case take_method d moduleId f s of
        None \<Rightarrow> (s, rejitRequests)
      | Some s \<Rightarrow>
          let rejitRequests = rejitRequests @ [(moduleId, method_token f)]
          in if explicitMode then (s, rejitRequests)
             else process_methods d moduleId explicitMode fs regular (s, rejitRequests))"
  by pat_completeness auto
termination by (relation "measures [\<lambda>(d, m, e, fs, rs, st). if e then 1 else 0, \<lambda>(d, m, e, fs, rs, st). length fs]") auto

definition ProcessTypeDefForRejit :: "IntegrationDefinition \<Rightarrow> nat \<Rightarrow> method_def list \<Rightarrow> rejit \<times> (nat \<times> nat) list \<Rightarrow> rejit \<times> (nat \<times> nat) list" where
  "ProcessTypeDefForRejit d moduleId ms st =
     (if is_interface d \<and> \<not> wildcard_enabled d
      then process_methods d moduleId True (enumExplicitInterfaceMethods d ms) (enumMethods d ms) st
      else process_methods d moduleId False (enumMethods d ms) [] st)"

fun process_types :: "IntegrationDefinition \<Rightarrow> nat \<Rightarrow> wstring \<Rightarrow> module_metadata \<Rightarrow> type_def list \<Rightarrow> rejit \<times> (nat \<times> nat) list \<Rightarrow> rejit \<times> (nat \<times> nat) list" where
  "process_types d moduleId module_name md [] st = st"
| "process_types d moduleId module_name md (ty # tys) st =
     process_types d moduleId module_name md tys
       (if rewrite_type d module_name md ty then ProcessTypeDefForRejit d moduleId (methods_of md (td_token ty)) st else st)"

text \<open>
  The loop over the definitions for one module. The metadata is loaded by the first definition that needs it; a module without
  metadata is given up.
\<close>

fun process_definitions :: "nat \<Rightarrow> module_data \<Rightarrow> IntegrationDefinition list \<Rightarrow> rejit \<times> (nat \<times> nat) list \<Rightarrow> rejit \<times> (nat \<times> nat) list" where
  "process_definitions moduleId m [] st = st"
| "process_definitions moduleId m (d # definitions) st =
     (if \<not> GetEnabled d then process_definitions moduleId m definitions st
      else let t = target_type (target_method d)
           in if is_derived d \<or> is_interface d
              then (case metadata m of
                      None \<Rightarrow> st
                    | Some md \<Rightarrow>
                        if am_name (own_assembly md) \<noteq> type_assembly_name t \<and> \<not> list_ex (assembly_matches t) (assembly_refs md)
                        then process_definitions moduleId m definitions st
                        else process_definitions moduleId m definitions (process_types d moduleId (info_name m) md (type_defs md) st))
              else if type_assembly_name t \<noteq> tracemethodintegration_assemblyname \<and> type_assembly_name t \<noteq> info_name m
              then process_definitions moduleId m definitions st
              else (case metadata m of
                      None \<Rightarrow> st
                    | Some md \<Rightarrow>
                        if version_greater (min_version t) (am_version (own_assembly md)) then process_definitions moduleId m definitions st
                        else if version_less (max_version t) (am_version (own_assembly md)) then process_definitions moduleId m definitions st
                        else case FindTypeDefByName md (tr_name t) of
                          None \<Rightarrow> process_definitions moduleId m definitions st
                        | Some typeDef \<Rightarrow>
                            process_definitions moduleId m definitions (ProcessTypeDefForRejit d moduleId (methods_of md typeDef) st)))"

fun process_modules :: "(nat \<Rightarrow> module_data) \<Rightarrow> nat list \<Rightarrow> IntegrationDefinition list \<Rightarrow> rejit \<times> (nat \<times> nat) list \<Rightarrow> rejit \<times> (nat \<times> nat) list" where
  "process_modules world [] definitions st = st"
| "process_modules world (moduleId # modules) definitions st =
     process_modules world modules definitions (process_definitions moduleId (world moduleId) definitions st)"

text \<open>The requests, which the caller passes on to the runtime or enqueues.\<close>

definition RequestRejitForLoadedModules :: "(nat \<Rightarrow> module_data) \<Rightarrow> nat list \<Rightarrow> IntegrationDefinition list \<Rightarrow> rejit \<Rightarrow> rejit \<times> (nat \<times> nat) list" where
  "RequestRejitForLoadedModules world modules definitions s =
     (if m_shutdown s then (s, []) else process_modules world modules definitions (s, []))"

section \<open>The callback of the runtime\<close>

definition mdMethodDefNil :: nat where "mdMethodDefNil = 0x06000000"

text \<open>The method whose rewriter runs, if one does; the function information and the rewriter are always there.\<close>

definition RejitMethod :: "nat \<Rightarrow> nat \<Rightarrow> rejit \<Rightarrow> rejit_method option \<times> rejit" where
  "RejitMethod moduleId methodId s =
     (case GetOrAddModule moduleId s of
        (None, s) \<Rightarrow> (None, s)
      | (Some moduleHandler, s) \<Rightarrow>
          (case map_of (m_methods moduleHandler) methodId of
             None \<Rightarrow> (None, s)
           | Some methodHandler \<Rightarrow>
               if m_methodDef methodHandler = mdMethodDefNil then (None, s)
               else if moduleId = 0 then (None, s)
               else if \<not> module_has_metadata moduleHandler then (None, s)
               else (Some methodHandler, s)))"

section \<open>Inliners in precompiled modules\<close>

text \<open>The answer to the enumeration of the methods that inline a method: a list, possibly incomplete, or a failure.\<close>

datatype inliner_answer = Inliners "(nat \<times> nat) list" bool | Inliners_Incomplete | Inliners_Failed

definition RequestRejitForInlinersInModule :: "inliner_answer \<Rightarrow> bool \<times> (nat \<times> nat) list list" where
  "RequestRejitForInlinersInModule answer =
     (case answer of
        Inliners methods incompleteData \<Rightarrow> (\<not> incompleteData, if methods \<noteq> [] then [methods] else [])
      | Inliners_Incomplete \<Rightarrow> (False, [])
      | Inliners_Failed \<Rightarrow> (True, []))"

fun inliners_of_methods :: "(nat \<Rightarrow> inliner_answer) \<Rightarrow> nat list \<Rightarrow> bool \<times> (nat \<times> nat) list list" where
  "inliners_of_methods ask [] = (True, [])"
| "inliners_of_methods ask (t # ts) =
     (case RequestRejitForInlinersInModule (ask t) of
        (False, items) \<Rightarrow> (False, items)
      | (True, items) \<Rightarrow> (case inliners_of_methods ask ts of (success, rest) \<Rightarrow> (success, items @ rest)))"

definition module_inliners :: "(nat \<Rightarrow> inliner_answer) \<Rightarrow> nat \<Rightarrow> rejit_module \<Rightarrow> rejit_module \<times> (nat \<times> nat) list list" where
  "module_inliners ask inliner h =
     (if inliner \<in> set (m_ngenProcessedInlinerModules h) then (h, [])
      else case inliners_of_methods ask (map fst (m_methods h)) of
        (success, items) \<Rightarrow>
          (if success then h\<lparr>m_ngenProcessedInlinerModules := inliner # m_ngenProcessedInlinerModules h\<rparr> else h, items))"

fun modules_inliners :: "(nat \<Rightarrow> nat \<Rightarrow> nat \<Rightarrow> inliner_answer) \<Rightarrow> nat \<Rightarrow> (nat \<times> rejit_module) list \<Rightarrow> (nat \<times> rejit_module) list \<times> (nat \<times> nat) list list" where
  "modules_inliners ask inliner [] = ([], [])"
| "modules_inliners ask inliner ((moduleId, h) # ms) =
     (case module_inliners (ask inliner moduleId) inliner h of
        (h, items) \<Rightarrow> (case modules_inliners ask inliner ms of (ms, rest) \<Rightarrow> ((moduleId, h) # ms, items @ rest)))"

fun inliners_loop :: "(nat \<Rightarrow> nat \<Rightarrow> nat \<Rightarrow> inliner_answer) \<Rightarrow> nat list \<Rightarrow> (nat \<times> rejit_module) list \<Rightarrow> (nat \<times> rejit_module) list \<times> (nat \<times> nat) list list" where
  "inliners_loop ask [] ms = (ms, [])"
| "inliners_loop ask (i # is) ms =
     (case modules_inliners ask i ms of
        (ms, items) \<Rightarrow> (case inliners_loop ask is ms of (ms, rest) \<Rightarrow> (ms, items @ rest)))"

definition AddNGenInlinerModule :: "(nat \<Rightarrow> nat \<Rightarrow> nat \<Rightarrow> inliner_answer) \<Rightarrow> nat \<Rightarrow> rejit \<Rightarrow> rejit \<times> (nat \<times> nat) list list" where
  "AddNGenInlinerModule ask moduleId s =
     (if m_shutdown s then (s, [])
      else case inliners_loop ask (m_ngenInlinersModules s) (m_modules s) of
        (ms, items) \<Rightarrow>
          if moduleId \<in> set (m_ngenInlinersModules s) then (s\<lparr>m_modules := ms\<rparr>, items)
          else case modules_inliners ask moduleId ms of
            (ms, rest) \<Rightarrow> (s\<lparr>m_modules := ms, m_ngenInlinersModules := m_ngenInlinersModules s @ [moduleId]\<rparr>, items @ rest))"

section \<open>The rejitters in order of priority\<close>

datatype RejitterPriority = Critical | High | Normal | Low

fun priority_code :: "RejitterPriority \<Rightarrow> nat" where
  "priority_code Critical = 0" | "priority_code High = 1" | "priority_code Normal = 2" | "priority_code Low = 3"

fun RegisterRejitter :: "RejitterPriority \<Rightarrow> RejitterPriority list \<Rightarrow> RejitterPriority list" where
  "RegisterRejitter r [] = [r]"
| "RegisterRejitter r (x # xs) = (if priority_code x > priority_code r then r # x # xs else x # RegisterRejitter r xs)"

lemma RegisterRejitter_set: "set (RegisterRejitter r xs) = insert r (set xs)"
  by (induction xs) auto

lemma RegisterRejitter_sorted: "sorted (map priority_code xs) \<Longrightarrow> sorted (map priority_code (RegisterRejitter r xs))"
  by (induction xs) (auto simp: RegisterRejitter_set)

section \<open>The analysis requests the targets\<close>

definition record_method :: "IntegrationDefinition \<Rightarrow> nat \<Rightarrow> method_def \<Rightarrow> rejit \<Rightarrow> rejit" where
  "record_method d moduleId f s = (case take_method d moduleId f s of None \<Rightarrow> s | Some s \<Rightarrow> s)"

definition record_methods :: "IntegrationDefinition \<Rightarrow> nat \<Rightarrow> method_def list \<Rightarrow> rejit \<Rightarrow> rejit" where
  "record_methods d moduleId fs s = fold (record_method d moduleId) fs s"

lemma take_method_record: "\<not> m_shutdown s \<Longrightarrow> take_method d moduleId f s = Some (record_method d moduleId f s)"
  by (auto simp: take_method_def record_method_def GetOrAddModule_def Let_def split: prod.splits option.splits)

lemma record_method_shutdown [simp]: "m_shutdown (record_method d moduleId f s) = m_shutdown s"
  by (auto simp: take_method_def record_method_def GetOrAddModule_def set_module_def Let_def split: prod.splits option.splits)

lemma record_methods_shutdown [simp]: "m_shutdown (record_methods d moduleId fs s) = m_shutdown s"
  unfolding record_methods_def by (induction fs arbitrary: s) auto

lemma record_methods_none [simp]: "record_methods d m [] s = s"
  by (simp add: record_methods_def)

lemma record_methods_append: "record_methods d m (xs @ ys) s = record_methods d m ys (record_methods d m xs s)"
  by (simp add: record_methods_def)

abbreviation (input) requests_for :: "nat \<Rightarrow> method_def list \<Rightarrow> (nat \<times> nat) list" where
  "requests_for moduleId fs \<equiv> map (\<lambda>f. (moduleId, method_token f)) fs"

lemma process_methods_regular:
  "\<not> m_shutdown s \<Longrightarrow> process_methods d moduleId False fs [] (s, reqs) =
     (record_methods d moduleId (filter (accepted d) fs) s, reqs @ requests_for moduleId (filter (accepted d) fs))"
  by (induction fs arbitrary: s reqs) (simp_all add: take_method_record record_methods_def)

lemma process_methods_explicit:
  "\<not> m_shutdown s \<Longrightarrow> process_methods d moduleId True fs regular (s, reqs) =
     (let taken = (if filter (accepted d) fs \<noteq> [] then [hd (filter (accepted d) fs)] else filter (accepted d) regular)
      in (record_methods d moduleId taken s, reqs @ requests_for moduleId taken))"
proof (induction fs)
  case Nil
  then show ?case by (simp add: process_methods_regular Let_def)
next
  case (Cons f fs)
  then show ?case by (simp add: take_method_record record_methods_def Let_def)
qed

lemma ProcessTypeDefForRejit_targets:
  "\<not> m_shutdown s \<Longrightarrow> ProcessTypeDefForRejit d moduleId ms (s, reqs) =
     (record_methods d moduleId (type_targets d ms) s, reqs @ requests_for moduleId (type_targets d ms))"
  by (simp add: ProcessTypeDefForRejit_def type_targets_def process_methods_regular process_methods_explicit Let_def)

lemma process_types_targets:
  "\<not> m_shutdown s \<Longrightarrow> process_types d moduleId n md tys (s, reqs) =
     (let fs = concat (map (\<lambda>ty. type_targets d (methods_of md (td_token ty))) (filter (rewrite_type d n md) tys))
      in (record_methods d moduleId fs s, reqs @ requests_for moduleId fs))"
  by (induction tys arbitrary: s reqs) (simp_all add: ProcessTypeDefForRejit_targets record_methods_append Let_def)

definition record_definitions :: "nat \<Rightarrow> module_data \<Rightarrow> IntegrationDefinition list \<Rightarrow> rejit \<Rightarrow> rejit" where
  "record_definitions moduleId m ds s = fold (\<lambda>d. record_methods d moduleId (module_targets m d)) ds s"

lemma record_definitions_shutdown [simp]: "m_shutdown (record_definitions moduleId m ds s) = m_shutdown s"
  unfolding record_definitions_def by (induction ds arbitrary: s) auto

lemma no_metadata_no_targets: "metadata m = None \<Longrightarrow> module_targets m d = []"
  by (simp add: module_targets_def)

lemma record_nothing: "record_definitions moduleId m ds s = s" if "metadata m = None"
  unfolding record_definitions_def using that by (induction ds) (simp_all add: no_metadata_no_targets record_methods_def)

lemma process_definitions_targets:
  "\<not> m_shutdown s \<Longrightarrow> process_definitions moduleId m ds (s, reqs) =
     (record_definitions moduleId m ds s, reqs @ concat (map (\<lambda>d. requests_for moduleId (module_targets m d)) ds))"
proof (induction ds arbitrary: s reqs)
  case (Cons d ds)
  show ?case
  proof (cases "metadata m")
    case None
    have "process_definitions moduleId m ds (s, reqs) = (s, reqs)" using Cons None by (simp add: record_nothing no_metadata_no_targets)
    then show ?thesis using None by (simp add: record_nothing no_metadata_no_targets Let_def)
  next
    case (Some md)
    let ?st = "(record_methods d moduleId (module_targets m d) s, reqs @ requests_for moduleId (module_targets m d))"
    have "process_definitions moduleId m (d # ds) (s, reqs) = process_definitions moduleId m ds ?st"
      using Some Cons.prems
      by (auto simp: module_targets_def target_types_def Let_def process_types_targets ProcessTypeDefForRejit_targets o_def
        version_ge_le version_le_def version_greater_def split: option.splits)
    then show ?thesis using Cons.IH [of "fst ?st" "snd ?st"] Cons.prems by (simp add: record_definitions_def)
  qed
qed (simp add: record_definitions_def)

definition record_modules :: "(nat \<Rightarrow> module_data) \<Rightarrow> nat list \<Rightarrow> IntegrationDefinition list \<Rightarrow> rejit \<Rightarrow> rejit" where
  "record_modules world ms ds s = fold (\<lambda>m. record_definitions m (world m) ds) ms s"

definition all_targets :: "(nat \<Rightarrow> module_data) \<Rightarrow> nat list \<Rightarrow> IntegrationDefinition list \<Rightarrow> (nat \<times> nat) list" where
  "all_targets world ms ds = concat (map (\<lambda>m. concat (map (\<lambda>d. requests_for m (module_targets (world m) d)) ds)) ms)"

lemma process_modules_targets:
  "\<not> m_shutdown s \<Longrightarrow> process_modules world ms ds (s, reqs) = (record_modules world ms ds s, reqs @ all_targets world ms ds)"
  by (induction ms arbitrary: s reqs) (simp_all add: process_definitions_targets record_modules_def all_targets_def)

lemma analysis:
  "\<not> m_shutdown s \<Longrightarrow> RequestRejitForLoadedModules world ms ds s = (record_modules world ms ds s, all_targets world ms ds)"
  by (simp add: RequestRejitForLoadedModules_def process_modules_targets)

section \<open>What the registry holds\<close>

text \<open>A method is held when the callback of the runtime finds it: the module has its metadata and an entry for the token.\<close>

definition holds_method :: "rejit \<Rightarrow> nat \<Rightarrow> nat \<Rightarrow> bool" where
  "holds_method s m t \<longleftrightarrow> (\<exists>h rm. map_of (m_modules s) m = Some h \<and> map_of (m_methods h) t = Some rm)"

text \<open>Every entry comes from a definition that is enabled and has the method as a target.\<close>

definition entry_sound :: "(nat \<Rightarrow> module_data) \<Rightarrow> nat \<Rightarrow> nat \<Rightarrow> rejit_method \<Rightarrow> bool" where
  "entry_sound world m t rm \<longleftrightarrow> m_methodDef rm = t \<and> method_token (m_functionInfo rm) = t \<and>
     m_functionInfo rm \<in> set (module_targets (world m) (m_integrationDefinition rm))"

definition registry_sound :: "(nat \<Rightarrow> module_data) \<Rightarrow> rejit \<Rightarrow> bool" where
  "registry_sound world s \<longleftrightarrow>
     (\<forall>m h t rm. map_of (m_modules s) m = Some h \<longrightarrow> map_of (m_methods h) t = Some rm \<longrightarrow> module_has_metadata h \<and> entry_sound world m t rm)"

lemma registry_soundI:
  "(\<And>m h t rm. map_of (m_modules s) m = Some h \<Longrightarrow> map_of (m_methods h) t = Some rm \<Longrightarrow> module_has_metadata h \<and> entry_sound world m t rm) \<Longrightarrow>
   registry_sound world s"
  by (simp add: registry_sound_def)

lemma registry_soundD:
  "registry_sound world s \<Longrightarrow> map_of (m_modules s) m = Some h \<Longrightarrow> map_of (m_methods h) t = Some rm \<Longrightarrow> module_has_metadata h \<and> entry_sound world m t rm"
  by (simp add: registry_sound_def)

lemma Update_fields [simp]:
  "target_method (Update d d') = target_method d'" "is_interface (Update d d') = is_interface d'" "is_derived (Update d d') = is_derived d'"
  "is_exact_signature_match (Update d d') = is_exact_signature_match d'" "GetEnabled (Update d d') = GetEnabled d"
  by (simp_all add: Update_def GetEnabled_def)

lemma Update_matching [simp]:
  "wildcard_enabled (Update d d') = wildcard_enabled d'" "accepted (Update d d') = accepted d'"
  "rewrite_type (Update d d') n md = rewrite_type d' n md"
  by (auto simp: wildcard_enabled_def accepted_def rewrite_type_def fun_eq_iff cong: option.case_cong)

lemma module_targets_Update: "GetEnabled d \<Longrightarrow> GetEnabled d' \<Longrightarrow> module_targets m (Update d d') = module_targets m d'"
  unfolding module_targets_def target_types_def type_targets_def enumMethods_def enumExplicitInterfaceMethods_def Update_fields Update_matching
  by simp

definition module_in :: "rejit \<Rightarrow> nat \<Rightarrow> rejit_module" where
  "module_in s m = (case map_of (m_modules s) m of None \<Rightarrow> RejitHandlerModule_new | Some h \<Rightarrow> h)"

lemma record_method_modules:
  assumes "\<not> m_shutdown s"
  shows "map_of (m_modules (record_method d m f s)) =
    (map_of (m_modules s))(m \<mapsto> CreateMethodIfNotExists d f ((module_in s m)\<lparr>module_has_metadata := True\<rparr>))"
proof -
  have keep: "h\<lparr>module_has_metadata := True\<rparr> = h" if "module_has_metadata h" for h :: rejit_module using that by simp
  then show ?thesis using assms
    by (auto simp: record_method_def take_method_def GetOrAddModule_def set_module_def module_in_def Let_def update_conv' keep split: option.splits)
qed

lemma CreateMethodIfNotExists_methods:
  "map_of (m_methods (CreateMethodIfNotExists d f h)) = (map_of (m_methods h))(method_token f \<mapsto>
     (case map_of (m_methods h) (method_token f) of
        None \<Rightarrow> \<lparr>m_methodDef = method_token f, m_integrationDefinition = Update d d, m_functionInfo = f\<rparr>
      | Some rm \<Rightarrow> rm\<lparr>m_integrationDefinition := Update d (m_integrationDefinition rm)\<rparr>))"
  "module_has_metadata (CreateMethodIfNotExists d f h) = module_has_metadata h"
  by (auto simp: CreateMethodIfNotExists_def update_conv' split: option.splits)

lemma module_in_methods: "map_of (m_methods (module_in s m)) t = Some rm \<longleftrightarrow> (\<exists>h. map_of (m_modules s) m = Some h \<and> map_of (m_methods h) t = Some rm)"
  by (auto simp: module_in_def RejitHandlerModule_new_def split: option.splits)

lemma holds_module_in: "holds_method s m t \<longleftrightarrow> map_of (m_methods (module_in s m)) t \<noteq> None"
  unfolding holds_method_def using module_in_methods [of s m t] by auto

lemma record_method_holds:
  assumes "\<not> m_shutdown s"
  shows "holds_method (record_method d m f s) m' t \<longleftrightarrow> m' = m \<and> t = method_token f \<or> holds_method s m' t"
proof -
  have "module_in (record_method d m f s) m' =
      (if m' = m then CreateMethodIfNotExists d f ((module_in s m)\<lparr>module_has_metadata := True\<rparr>) else module_in s m')"
    unfolding module_in_def [of "record_method d m f s"] record_method_modules [OF assms] by (simp add: module_in_def)
  then show ?thesis by (auto simp: holds_module_in CreateMethodIfNotExists_methods)
qed

lemma record_method_sound:
  assumes "\<not> m_shutdown s" "registry_sound world s" "f \<in> set (module_targets (world m) d)"
  shows "registry_sound world (record_method d m f s)"
proof (rule registry_soundI)
  fix m' h t rm assume h: "map_of (m_modules (record_method d m f s)) m' = Some h" and rm: "map_of (m_methods h) t = Some rm"
  have d: "GetEnabled d" using assms(3) by (rule module_targets_enabled)
  show "module_has_metadata h \<and> entry_sound world m' t rm"
  proof (cases "m' = m")
    case False
    then show ?thesis using h rm assms(2) by (auto simp: record_method_modules [OF assms(1)] dest: registry_soundD)
  next
    case True
    then have h': "h = CreateMethodIfNotExists d f ((module_in s m)\<lparr>module_has_metadata := True\<rparr>)"
      using h by (simp add: record_method_modules [OF assms(1)])
    have old: "entry_sound world m t' rm'" if "map_of (m_methods (module_in s m)) t' = Some rm'" for t' rm'
      using that assms(2) by (auto simp: module_in_methods dest: registry_soundD)
    have "entry_sound world m t rm"
    proof (cases "t = method_token f")
      case t: True
      show ?thesis
      proof (cases "map_of (m_methods (module_in s m)) t")
        case None
        then show ?thesis using rm t assms(3) d unfolding h'
          by (auto simp: CreateMethodIfNotExists_methods entry_sound_def module_targets_Update)
      next
        case (Some rm')
        from old [OF this] have o: "entry_sound world m t rm'" .
        then have "GetEnabled (m_integrationDefinition rm')" by (auto simp: entry_sound_def dest: module_targets_enabled)
        with Some rm t o d show ?thesis unfolding h'
          by (auto simp: CreateMethodIfNotExists_methods entry_sound_def module_targets_Update)
      qed
    next
      case False
      then show ?thesis using rm old unfolding h' by (auto simp: CreateMethodIfNotExists_methods)
    qed
    then show ?thesis using True by (simp add: h' CreateMethodIfNotExists_methods)
  qed
qed

lemma record_methods_holds:
  "\<not> m_shutdown s \<Longrightarrow> holds_method (record_methods d m fs s) m' t \<longleftrightarrow> m' = m \<and> t \<in> method_token ` set fs \<or> holds_method s m' t"
  unfolding record_methods_def by (induction fs arbitrary: s) (auto simp: record_method_holds)

lemma record_methods_sound:
  "\<not> m_shutdown s \<Longrightarrow> registry_sound world s \<Longrightarrow> set fs \<subseteq> set (module_targets (world m) d) \<Longrightarrow> registry_sound world (record_methods d m fs s)"
  unfolding record_methods_def by (induction fs arbitrary: s) (auto simp: record_method_sound)

lemma record_definitions_holds:
  "\<not> m_shutdown s \<Longrightarrow> holds_method (record_definitions m md ds s) m' t \<longleftrightarrow>
     m' = m \<and> (\<exists>d \<in> set ds. t \<in> method_token ` set (module_targets md d)) \<or> holds_method s m' t"
  unfolding record_definitions_def by (induction ds arbitrary: s) (auto simp: record_methods_holds)

lemma record_definitions_sound:
  "\<not> m_shutdown s \<Longrightarrow> registry_sound world s \<Longrightarrow> registry_sound world (record_definitions m (world m) ds s)"
  unfolding record_definitions_def by (induction ds arbitrary: s) (auto simp: record_methods_sound)

lemma record_modules_shutdown [simp]: "m_shutdown (record_modules world ms ds s) = m_shutdown s"
  unfolding record_modules_def by (induction ms arbitrary: s) auto

lemma record_modules_holds:
  "\<not> m_shutdown s \<Longrightarrow> holds_method (record_modules world ms ds s) m t \<longleftrightarrow> (m, t) \<in> set (all_targets world ms ds) \<or> holds_method s m t"
  unfolding record_modules_def
proof (induction ms arbitrary: s)
  case (Cons m' ms)
  then show ?case by (auto simp: record_definitions_holds all_targets_def)
qed (simp add: all_targets_def)

lemma record_modules_sound:
  "\<not> m_shutdown s \<Longrightarrow> registry_sound world s \<Longrightarrow> registry_sound world (record_modules world ms ds s)"
  unfolding record_modules_def by (induction ms arbitrary: s) (auto simp: record_definitions_sound)

text \<open>C14: an analysis requests exactly the targets. Whatever modules and definitions it is given, with its loops over types,
  ancestors, interfaces and methods and all the ways they are left early, the requests are the targets of every enabled
  definition in every module, in order, and the registry holds exactly what it held before and the requested methods.\<close>

theorem analysis_requests_targets:
  assumes "\<not> m_shutdown s" "RequestRejitForLoadedModules world ms ds s = (s', reqs)"
  shows "reqs = concat (map (\<lambda>m. concat (map (\<lambda>d. map (\<lambda>f. (m, method_token f)) (module_targets (world m) d)) ds)) ms) \<and>
    (\<forall>m t. holds_method s' m t \<longleftrightarrow> (m, t) \<in> set reqs \<or> holds_method s m t)"
  using analysis [OF assms(1), of world ms ds] assms record_modules_holds [OF assms(1), of world ms ds]
  by (auto simp: all_targets_def)

text \<open>A module with one type, an interface, implemented once explicitly and once by a method of the same name.\<close>

definition example_method :: "nat \<Rightarrow> wstring \<Rightarrow> method_def" where
  "example_method t name = \<lparr>method_token = t, method_valid = True, md_name = name, parsed_arguments = Some []\<rparr>"

definition example_type :: TypeReference where
  "example_type = TypeReference_new (WStr ''A'') (WStr ''I'') no_version no_version"

definition example_definition :: IntegrationDefinition where
  "example_definition = IntegrationDefinition_new \<lparr>target_type = example_type, method_name = WStr ''M'', signature_types = [WStr ''System.Void'']\<rparr>
     example_type False True True 1 1"

definition example_world :: "nat \<Rightarrow> module_data" where
  "example_world m = \<lparr>info_name = WStr ''A'', metadata = Some \<lparr>own_assembly = \<lparr>am_name = WStr ''A'', am_version = no_version\<rparr>,
     assembly_refs = [], type_defs = [\<lparr>td_token = 2, td_ancestors = [], td_interfaces = [Some (True, Type_Def_Token (Some (WStr ''I'')))]\<rparr>],
     find_type_def = (\<lambda>_ _. None), methods_of = (\<lambda>_. [example_method 5 (WStr ''M''), example_method 6 (WStr ''I.M'')])\<rparr>\<rparr>"

lemma example_targets: "module_targets (example_world m) example_definition = [example_method 6 (WStr ''I.M'')]"
  by (simp add: module_targets_def example_world_def example_definition_def example_type_def example_method_def TypeReference_new_def
    IntegrationDefinition_new_def GetNameFromAssemblyReferenceString_def WStr_def GetEnabled_def target_types_def rewrite_type_def Let_def
    interface_matches_def assembly_matches_def version_le_def version_ge_def version_greater_def version_less_def
    type_targets_def wildcard_enabled_def tracemethodintegration_wildcardmethodname_def enumExplicitInterfaceMethods_def EnumMethodsWithName_def
    accepted_def CheckExactSignatureMatch_def)

definition example_registry :: rejit where
  "example_registry = \<lparr>m_shutdown = False, m_modules = [], m_ngenInlinersModules = []\<rparr>"

theorem analysis_requests_targets_witness:
  "snd (RequestRejitForLoadedModules example_world [1, 2] [example_definition] example_registry) = [(1, 6), (2, 6)]"
proof -
  obtain s' reqs where r: "RequestRejitForLoadedModules example_world [1, 2] [example_definition] example_registry = (s', reqs)" by fastforce
  have "\<not> m_shutdown example_registry" by (simp add: example_registry_def)
  from analysis_requests_targets [OF this r] have "reqs = [(1, 6), (2, 6)]" by (simp add: example_targets) (simp add: example_method_def)
  then show ?thesis unfolding r by simp
qed

section \<open>Reading the registry\<close>

lemma GetOrAddModule_holds: "holds_method (snd (GetOrAddModule m s)) m' t \<longleftrightarrow> holds_method s m' t"
  by (auto simp: GetOrAddModule_def holds_method_def update_conv' RejitHandlerModule_new_def split: option.splits)

lemma GetOrAddModule_sound: "registry_sound world s \<Longrightarrow> registry_sound world (snd (GetOrAddModule m s))"
  by (auto simp: GetOrAddModule_def registry_sound_def update_conv' RejitHandlerModule_new_def split: option.splits if_splits)

lemma GetOrAddModule_shutdown [simp]: "m_shutdown (snd (GetOrAddModule m s)) = m_shutdown s"
  by (auto simp: GetOrAddModule_def split: option.splits)

lemma RejitMethod_state: "snd (RejitMethod m t s) = snd (GetOrAddModule m s)"
  by (auto simp: RejitMethod_def split: prod.splits option.splits)

lemma HasModuleAndMethod_iff: "HasModuleAndMethod m t s \<longleftrightarrow> \<not> m_shutdown s \<and> holds_method s m t"
  by (auto simp: HasModuleAndMethod_def holds_method_def ContainsMethod_def split: option.splits)

text \<open>A held method is rewritten by a definition that is enabled and has it as a target.\<close>

lemma RejitMethod_held:
  assumes "\<not> m_shutdown s" "registry_sound world s" "holds_method s m t" "m \<noteq> 0" "t \<noteq> mdMethodDefNil"
  shows "\<exists>rm. fst (RejitMethod m t s) = Some rm \<and> entry_sound world m t rm"
proof -
  from assms(3) obtain h rm where h: "map_of (m_modules s) m = Some h" "map_of (m_methods h) t = Some rm" by (auto simp: holds_method_def)
  with registry_soundD [OF assms(2) h] assms(1,4,5) show ?thesis by (auto simp: RejitMethod_def GetOrAddModule_def entry_sound_def)
qed

lemma RemoveModule_holds: "holds_method (RemoveModule m s) m' t \<longleftrightarrow> holds_method s m' t \<and> (m' = m \<longrightarrow> m_shutdown s)"
  by (auto simp: RemoveModule_def holds_method_def delete_conv')

lemma RemoveModule_sound: "registry_sound world s \<Longrightarrow> registry_sound world (RemoveModule m s)"
  by (auto simp: RemoveModule_def registry_sound_def delete_conv' split: if_splits)

lemma RemoveModule_shutdown [simp]: "m_shutdown (RemoveModule m s) = m_shutdown s"
  by (simp add: RemoveModule_def)

text \<open>Looking for inliners changes neither the methods nor the metadata of any module.\<close>

definition same_methods :: "(nat \<times> rejit_module) list \<Rightarrow> (nat \<times> rejit_module) list \<Rightarrow> bool" where
  "same_methods xs ys \<longleftrightarrow> list_all2 (\<lambda>(k, h) (k', h'). k = k' \<and> m_methods h = m_methods h' \<and> module_has_metadata h = module_has_metadata h') xs ys"

lemma same_methods_refl: "same_methods xs xs"
  by (auto simp: same_methods_def intro: list_all2_refl)

lemma same_methods_trans: "same_methods xs ys \<Longrightarrow> same_methods ys zs \<Longrightarrow> same_methods xs zs"
  unfolding same_methods_def by (rule list_all2_trans) (auto split: prod.splits)

lemma modules_inliners_same: "same_methods xs (fst (modules_inliners ask i xs))"
  by (induction xs) (auto simp: same_methods_def module_inliners_def split: prod.splits)

lemma inliners_loop_same: "same_methods xs (fst (inliners_loop ask is xs))"
proof (induction "is" arbitrary: xs)
  case (Cons i "is")
  then show ?case using same_methods_trans [OF modules_inliners_same [of xs ask i] Cons [of "fst (modules_inliners ask i xs)"]]
    by (auto split: prod.splits)
qed (simp add: same_methods_refl)

lemma AddNGenInlinerModule_same:
  "same_methods (m_modules s) (m_modules (fst (AddNGenInlinerModule ask m s)))" "m_shutdown (fst (AddNGenInlinerModule ask m s)) = m_shutdown s"
  using inliners_loop_same [of "m_modules s" ask "m_ngenInlinersModules s"]
    same_methods_trans [OF inliners_loop_same [of "m_modules s" ask "m_ngenInlinersModules s"] modules_inliners_same [of _ ask m]]
  by (auto simp: AddNGenInlinerModule_def same_methods_refl split: prod.splits)

lemma same_methods_map_of:
  "same_methods xs ys \<Longrightarrow> rel_option (\<lambda>h h'. m_methods h = m_methods h' \<and> module_has_metadata h = module_has_metadata h') (map_of xs m) (map_of ys m)"
  unfolding same_methods_def by (induction rule: list_all2_induct) auto

lemma same_methods_keep:
  assumes "same_methods (m_modules s) (m_modules s')"
  shows "holds_method s' m t \<longleftrightarrow> holds_method s m t" "registry_sound world s \<Longrightarrow> registry_sound world s'"
proof -
  note r = same_methods_map_of [OF assms]
  show "holds_method s' m t \<longleftrightarrow> holds_method s m t"
    using r [of m] by (auto simp: holds_method_def elim!: option.rel_cases)
  show "registry_sound world s'" if "registry_sound world s"
  proof (rule registry_soundI)
    fix m h' t rm assume a: "map_of (m_modules s') m = Some h'" "map_of (m_methods h') t = Some rm"
    from r [of m] a obtain h where "map_of (m_modules s) m = Some h" "m_methods h = m_methods h'" "module_has_metadata h = module_has_metadata h'"
      by (auto elim: option.rel_cases)
    with registry_soundD [OF that, of m h t rm] a show "module_has_metadata h' \<and> entry_sound world m t rm" by simp
  qed
qed

end
