(* ===== verification/Rejit_Pipeline.thy ===== *)
theory Rejit_Pipeline
  imports Rejit_Registry Prelude
begin

text \<open>
  From registrations and loaded modules to requests (\<open>cor_profiler.cpp\<close>, \<open>rejit_handler.cpp\<close>, \<open>rejit_work_offloader.cpp\<close>).
  Callbacks of the runtime and calls of the managed side enqueue analyses, one thread works them off in their order. What a
  call does between taking the locks of the module and definition collections and releasing them, or waiting, is one
  step; so is one item of work. A call that waits for a result while it holds a lock excludes the others.
\<close>

section \<open>Modules that take part\<close>

record module_info =
  mi_valid :: bool
  mi_flags :: u32

definition COR_PRF_MODULE_NGEN :: u32 where "COR_PRF_MODULE_NGEN = 0x2"
definition COR_PRF_MODULE_DYNAMIC :: u32 where "COR_PRF_MODULE_DYNAMIC = 0x4"
definition COR_PRF_MODULE_RESOURCE :: u32 where "COR_PRF_MODULE_RESOURCE = 0x10"
definition COR_PRF_MODULE_WINDOWS_RUNTIME :: u32 where "COR_PRF_MODULE_WINDOWS_RUNTIME = 0x40"

definition IsNGEN :: "module_info \<Rightarrow> bool" where "IsNGEN i \<longleftrightarrow> mi_flags i AND COR_PRF_MODULE_NGEN \<noteq> 0"
definition IsDynamic :: "module_info \<Rightarrow> bool" where "IsDynamic i \<longleftrightarrow> mi_flags i AND COR_PRF_MODULE_DYNAMIC \<noteq> 0"
definition IsResource :: "module_info \<Rightarrow> bool" where "IsResource i \<longleftrightarrow> mi_flags i AND COR_PRF_MODULE_RESOURCE \<noteq> 0"
definition IsWindowsRuntime :: "module_info \<Rightarrow> bool" where "IsWindowsRuntime i \<longleftrightarrow> mi_flags i AND COR_PRF_MODULE_WINDOWS_RUNTIME \<noteq> 0"

definition skip_assembly_prefixes :: "wstring list" where
  "skip_assembly_prefixes = map WStr
     [''Microsoft.AI'', ''Microsoft.ApplicationInsights'', ''Microsoft.Build'', ''Microsoft.CSharp'', ''Microsoft.Extensions'',
      ''Microsoft.Web.Compilation.Snapshots'', ''System.Core'', ''System.Console'', ''System.Collections'', ''System.ComponentModel'',
      ''System.Diagnostics'', ''System.Drawing'', ''System.EnterpriseServices'', ''System.IO'', ''System.Runtime'', ''System.Text'',
      ''System.Threading'', ''System.Xml'']"

definition include_assemblies :: "wstring list" where
  "include_assemblies = map WStr [''Microsoft.Extensions.Logging'', ''Microsoft.Extensions.Logging.Abstractions'']"

definition skip_assemblies :: "wstring list" where
  "skip_assemblies = map WStr
     [''mscorlib'', ''netstandard'', ''System.Configuration'', ''Microsoft.AspNetCore.Razor.Language'',
      ''Microsoft.AspNetCore.Mvc.RazorPages'', ''Anonymously Hosted DynamicMethods Assembly'', ''ISymWrapper'']"

definition mscorlib_assemblyName :: wstring where "mscorlib_assemblyName = WStr ''mscorlib''"
definition system_private_corelib_assemblyName :: wstring where "system_private_corelib_assemblyName = WStr ''System.Private.CoreLib''"
definition loader_assemblyName :: wstring where "loader_assemblyName = WStr ''OpenTelemetry.AutoInstrumentation.Loader''"
definition managed_profiler_name :: wstring where "managed_profiler_name = WStr ''OpenTelemetry.AutoInstrumentation''"

definition StartsWith :: "wstring \<Rightarrow> wstring \<Rightarrow> bool" where
  "StartsWith str pre \<longleftrightarrow> length pre \<le> length str \<and> take (length pre) str = pre"

fun skipped_by_prefix :: "wstring \<Rightarrow> wstring list \<Rightarrow> bool" where
  "skipped_by_prefix name [] = False"
| "skipped_by_prefix name (p # ps) =
     (if StartsWith name p then \<not> name \<in> set include_assemblies else skipped_by_prefix name ps)"

record environment =
  world :: "nat \<Rightarrow> module_data"
  infos :: "nat \<Rightarrow> module_info"
  assembly_redirection_enabled :: bool
  inliner_answers :: "nat \<Rightarrow> nat \<Rightarrow> nat \<Rightarrow> inliner_answer"

datatype admission = Refused | Corlib | Admitted

definition admit_corlib :: "environment \<Rightarrow> bool \<Rightarrow> nat \<Rightarrow> admission option" where
  "admit_corlib env corlib_loaded m =
     (let name = info_name (world env m)
      in if \<not> corlib_loaded \<and> (name = mscorlib_assemblyName \<or> name = system_private_corelib_assemblyName)
         then Some (if metadata (world env m) = None then Refused else Corlib) else None)"

definition admit_module :: "environment \<Rightarrow> bool \<Rightarrow> nat \<Rightarrow> admission" where
  "admit_module env corlib_loaded m =
     (let name = info_name (world env m); i = infos env m
      in case admit_corlib env corlib_loaded m of
        Some a \<Rightarrow> a
      | None \<Rightarrow>
         if name = loader_assemblyName then Refused
         else if IsWindowsRuntime i then Refused
         else if IsResource i then Refused
         else if IsDynamic i then Refused
         else if \<not> assembly_redirection_enabled env \<and> name \<in> set skip_assemblies then Refused
         else if \<not> assembly_redirection_enabled env \<and> skipped_by_prefix name skip_assembly_prefixes then Refused
         else if (assembly_redirection_enabled env \<or> name = managed_profiler_name) \<and> metadata (world env m) = None then Refused
         else if name = managed_profiler_name then Refused
         else Admitted)"

section \<open>The state\<close>

text \<open>An analysis carries the number of the promise its result goes to; requests for inliners have no promise.\<close>

datatype work = Terminating | Requests "(nat \<times> nat) list" | Analysis "nat list" "IntegrationDefinition list" nat

text \<open>
  Who holds the lock of the definition ids while waiting: a registration, a configuration of traced methods, whose
  definitions are stored only afterwards, or the shutdown. The latter two hold the lock of the modules too.
\<close>

datatype waiting = Registration nat | Tracing nat "IntegrationDefinition list" | Closing

record cor_profiler =
  is_attached :: bool
  rejit_handler :: bool
  corlib_module_loaded :: bool
  definitions_ids :: "wstring list"
  integration_definitions :: "IntegrationDefinition list"
  module_ids :: "nat list"
  offloader_queue :: "work list"
  offloader_running :: bool
  registry :: rejit
  requested :: "(nat \<times> nat) list"
  promises :: nat
  resolved :: "nat list"
  holder :: "waiting option"

definition profiler_initial :: cor_profiler where
  "profiler_initial = \<lparr>is_attached = True, rejit_handler = True, corlib_module_loaded = False, definitions_ids = [], integration_definitions = [],
     module_ids = [], offloader_queue = [], offloader_running = True,
     registry = \<lparr>m_shutdown = False, m_modules = [], m_ngenInlinersModules = []\<rparr>,
     requested = [], promises = 0, resolved = [], holder = None\<rparr>"

definition modules_locked :: "cor_profiler \<Rightarrow> bool" where
  "modules_locked s \<longleftrightarrow> (case holder s of None \<Rightarrow> False | Some (Registration p) \<Rightarrow> False | Some _ \<Rightarrow> True)"

section \<open>The worker\<close>

definition RequestRejit :: "(nat \<times> nat) list \<Rightarrow> cor_profiler \<Rightarrow> cor_profiler" where
  "RequestRejit methods s = (if m_shutdown (registry s) then s else if methods = [] then s else s\<lparr>requested := requested s @ methods\<rparr>)"

definition run_item :: "environment \<Rightarrow> work \<Rightarrow> cor_profiler \<Rightarrow> cor_profiler" where
  "run_item env item s =
     (case item of
        Terminating \<Rightarrow> s\<lparr>offloader_running := False\<rparr>
      | Requests methods \<Rightarrow> RequestRejit methods s
      | Analysis modules definitions p \<Rightarrow>
          (case RequestRejitForLoadedModules (world env) modules definitions (registry s) of
             (reg, rejitRequests) \<Rightarrow>
               let s = RequestRejit rejitRequests (s\<lparr>registry := reg\<rparr>) in s\<lparr>resolved := resolved s @ [p]\<rparr>))"

definition offload_step :: "environment \<Rightarrow> cor_profiler \<Rightarrow> cor_profiler" where
  "offload_step env s =
     (if \<not> offloader_running s then s
      else case offloader_queue s of [] \<Rightarrow> s | item # rest \<Rightarrow> run_item env item (s\<lparr>offloader_queue := rest\<rparr>))"

section \<open>Calls and callbacks\<close>

definition EnqueueForRejit :: "(nat \<times> nat) list \<Rightarrow> cor_profiler \<Rightarrow> cor_profiler" where
  "EnqueueForRejit methods s =
     (if m_shutdown (registry s) \<or> methods = [] then s else s\<lparr>offloader_queue := offloader_queue s @ [Requests methods]\<rparr>)"

definition EnqueueRequestRejitForLoadedModules :: "nat list \<Rightarrow> IntegrationDefinition list \<Rightarrow> cor_profiler \<Rightarrow> cor_profiler" where
  "EnqueueRequestRejitForLoadedModules modules definitions s =
     (let p = promises s; s = s\<lparr>promises := Suc p\<rparr>
      in if m_shutdown (registry s) then s\<lparr>resolved := resolved s @ [p]\<rparr>
         else if modules = [] \<or> definitions = [] then s\<lparr>resolved := resolved s @ [p]\<rparr>
         else s\<lparr>offloader_queue := offloader_queue s @ [Analysis modules definitions p]\<rparr>)"

definition add_ngen_inliner_module :: "environment \<Rightarrow> nat \<Rightarrow> cor_profiler \<Rightarrow> cor_profiler" where
  "add_ngen_inliner_module env m s =
     (case AddNGenInlinerModule (inliner_answers env) m (registry s) of
        (reg, items) \<Rightarrow> fold EnqueueForRejit items (s\<lparr>registry := reg\<rparr>))"

definition module_admitted :: "nat \<Rightarrow> cor_profiler \<Rightarrow> cor_profiler" where
  "module_admitted m s =
     (let s = s\<lparr>module_ids := module_ids s @ [m]\<rparr>
      in if integration_definitions s \<noteq> [] then EnqueueRequestRejitForLoadedModules [m] (integration_definitions s) s else s)"

definition ModuleLoadFinished :: "environment \<Rightarrow> nat \<Rightarrow> cor_profiler \<Rightarrow> cor_profiler" where
  "ModuleLoadFinished env m s =
     (if \<not> is_attached s \<or> \<not> rejit_handler s then s
      else if \<not> mi_valid (infos env m) then s
      else let s = (if IsNGEN (infos env m) then add_ngen_inliner_module env m s else s)
           in case admit_module env (corlib_module_loaded s) m of
                Refused \<Rightarrow> s
              | Corlib \<Rightarrow> s\<lparr>corlib_module_loaded := True\<rparr>
              | Admitted \<Rightarrow> module_admitted m s)"

definition ModuleUnloadStarted :: "nat \<Rightarrow> cor_profiler \<Rightarrow> cor_profiler" where
  "ModuleUnloadStarted m s =
     (if \<not> is_attached s then s
      else s\<lparr>registry := (if rejit_handler s then RemoveModule m (registry s) else registry s), module_ids := removeAll m (module_ids s)\<rparr>)"

definition RegisterCallTargetDefinitions :: "wstring \<Rightarrow> CallTargetDefinition2 list \<Rightarrow> u32 \<Rightarrow> cor_profiler \<Rightarrow> cor_profiler" where
  "RegisterCallTargetDefinitions i items enabledCategories s =
     (if i \<in> set (definitions_ids s) then s
      else if \<not> rejit_handler s then s
      else let definitions = registered_definitions enabledCategories items; p = promises s;
               s = s\<lparr>definitions_ids := definitions_ids s @ [i], integration_definitions := integration_definitions s @ definitions\<rparr>
           in if definitions \<noteq> []
              then (EnqueueRequestRejitForLoadedModules (module_ids s) definitions s)\<lparr>holder := Some (Registration p)\<rparr> else s)"

definition InternalAddInstrumentation :: "wstring \<Rightarrow> CallTargetDefinition list \<Rightarrow> bool \<Rightarrow> bool \<Rightarrow> cor_profiler \<Rightarrow> cor_profiler" where
  "InternalAddInstrumentation i items isDerived isInterface s =
     (if i \<in> set (definitions_ids s) then s
      else if \<not> rejit_handler s then s
      else let definitions = map (added_definition isDerived isInterface) items;
               s = s\<lparr>definitions_ids := definitions_ids s @ [i]\<rparr>
           in if definitions \<noteq> []
              then (let s = EnqueueRequestRejitForLoadedModules (module_ids s) definitions s
                    in s\<lparr>integration_definitions := integration_definitions s @ definitions\<rparr>)
              else s)"

definition InitializeTraceMethods :: "wstring \<Rightarrow> TypeReference \<Rightarrow> wstring \<Rightarrow> cor_profiler \<Rightarrow> cor_profiler" where
  "InitializeTraceMethods i integration configuration_string s =
     (if i \<in> set (definitions_ids s) then s
      else if \<not> rejit_handler s then s
      else let definitions = GetIntegrationsFromTraceMethodsConfiguration integration configuration_string
           in (EnqueueRequestRejitForLoadedModules (module_ids s) definitions s)\<lparr>holder := Some (Tracing (promises s) definitions)\<rparr>)"

text \<open>The end of a wait.\<close>

definition wait_over :: "cor_profiler \<Rightarrow> bool" where
  "wait_over s \<longleftrightarrow>
     (case holder s of
        None \<Rightarrow> False
      | Some (Registration p) \<Rightarrow> p \<in> set (resolved s)
      | Some (Tracing p _) \<Rightarrow> p \<in> set (resolved s)
      | Some Closing \<Rightarrow> \<not> offloader_running s)"

definition finish_wait :: "cor_profiler \<Rightarrow> cor_profiler" where
  "finish_wait s =
     (case holder s of
        Some (Tracing _ definitions) \<Rightarrow> s\<lparr>integration_definitions := integration_definitions s @ definitions, holder := None\<rparr>
      | Some Closing \<Rightarrow> s\<lparr>registry := rejit_shut_down (registry s), rejit_handler := False, holder := None\<rparr>
      | _ \<Rightarrow> s\<lparr>holder := None\<rparr>)"

definition begin_shutdown :: "cor_profiler \<Rightarrow> cor_profiler" where
  "begin_shutdown s =
     (if rejit_handler s then s\<lparr>offloader_queue := offloader_queue s @ [Terminating], holder := Some Closing\<rparr> else s)"

definition GetReJITParameters :: "nat \<Rightarrow> nat \<Rightarrow> cor_profiler \<Rightarrow> cor_profiler" where
  "GetReJITParameters m t s = (if is_attached s then s\<lparr>registry := snd (RejitMethod m t (registry s))\<rparr> else s)"

inductive profiler_step :: "environment \<Rightarrow> cor_profiler \<Rightarrow> cor_profiler \<Rightarrow> bool" for env where
  load: "\<not> modules_locked s \<Longrightarrow> profiler_step env s (ModuleLoadFinished env m s)"
| unload: "\<not> modules_locked s \<Longrightarrow> profiler_step env s (ModuleUnloadStarted m s)"
| ngen: "\<not> modules_locked s \<Longrightarrow> is_attached s \<Longrightarrow> rejit_handler s \<Longrightarrow> profiler_step env s (add_ngen_inliner_module env m s)"
| register: "holder s = None \<Longrightarrow> profiler_step env s (RegisterCallTargetDefinitions i items enabledCategories s)"
| add: "holder s = None \<Longrightarrow> profiler_step env s (InternalAddInstrumentation i old_items isDerived isInterface s)"
| trace: "holder s = None \<Longrightarrow> profiler_step env s (InitializeTraceMethods i integration configuration_string s)"
| continue: "wait_over s \<Longrightarrow> profiler_step env s (finish_wait s)"
| worker: "profiler_step env s (offload_step env s)"
| callback: "profiler_step env s (GetReJITParameters m t s)"
| detach: "profiler_step env s (s\<lparr>is_attached := False\<rparr>)"
| shutdown: "holder s = None \<Longrightarrow> \<not> is_attached s \<Longrightarrow> profiler_step env s (begin_shutdown s)"

abbreviation profiler_reachable :: "environment \<Rightarrow> cor_profiler \<Rightarrow> bool" where
  "profiler_reachable env \<equiv> reach (\<lambda>s. s = profiler_initial) (profiler_step env)"

end
