(* ===== verification/Rejit_Delivery.thy ===== *)
theory Rejit_Delivery
  imports Rejit_Pipeline
begin

text \<open>
  What the pipeline delivers: every integration reaches every module, whatever the order in which definitions are registered
  and modules are loaded; every wait ends; every promise is kept once.
\<close>

section \<open>The effects of the operations\<close>

lemma fold_EnqueueForRejit:
  "fold EnqueueForRejit items s =
     (if m_shutdown (registry s) then s else s\<lparr>offloader_queue := offloader_queue s @ map Requests (filter (\<lambda>i. i \<noteq> []) items)\<rparr>)"
  by (induction items arbitrary: s) (simp_all add: EnqueueForRejit_def)

lemma add_ngen_effect:
  "\<exists>reg items. add_ngen_inliner_module env m s = s\<lparr>registry := reg, offloader_queue := offloader_queue s @ map Requests items\<rparr> \<and>
     same_methods (m_modules (registry s)) (m_modules reg) \<and> m_shutdown reg = m_shutdown (registry s) \<and> (m_shutdown reg \<longrightarrow> items = [])"
proof -
  obtain reg items where r: "AddNGenInlinerModule (inliner_answers env) m (registry s) = (reg, items)" by fastforce
  have "same_methods (m_modules (registry s)) (m_modules reg)" "m_shutdown reg = m_shutdown (registry s)"
    using AddNGenInlinerModule_same [where ask = "inliner_answers env" and m = m and s = "registry s"] by (simp_all add: r)
  moreover have "add_ngen_inliner_module env m s =
      s\<lparr>registry := reg, offloader_queue := offloader_queue s @ map Requests (if m_shutdown reg then [] else filter (\<lambda>i. i \<noteq> []) items)\<rparr>"
    by (simp add: add_ngen_inliner_module_def r fold_EnqueueForRejit)
  ultimately show ?thesis
    by - (rule exI [of _ reg], rule exI [of _ "if m_shutdown reg then [] else filter (\<lambda>i. i \<noteq> []) items"], simp)
qed

text \<open>An analysis is enqueued, or there is nothing to analyse and its promise is kept at once.\<close>

lemma enqueue_effect:
  "EnqueueRequestRejitForLoadedModules ms ds s =
     (if m_shutdown (registry s) \<or> ms = [] \<or> ds = [] then s\<lparr>promises := Suc (promises s), resolved := resolved s @ [promises s]\<rparr>
      else s\<lparr>promises := Suc (promises s), offloader_queue := offloader_queue s @ [Analysis ms ds (promises s)]\<rparr>)"
  by (simp add: EnqueueRequestRejitForLoadedModules_def Let_def)

section \<open>Invariants\<close>

definition closing_queue :: "cor_profiler \<Rightarrow> bool" where
  "closing_queue s \<longleftrightarrow>
     offloader_running s \<and> (\<exists>q. offloader_queue s = q @ [Terminating] \<and> Terminating \<notin> set q) \<or> \<not> offloader_running s \<and> offloader_queue s = []"

definition life :: "cor_profiler \<Rightarrow> bool" where
  "life s \<longleftrightarrow> m_shutdown (registry s) = (\<not> rejit_handler s) \<and> (holder s \<noteq> None \<longrightarrow> rejit_handler s) \<and>
     (if \<not> rejit_handler s then \<not> offloader_running s \<and> offloader_queue s = []
      else if holder s = Some Closing then closing_queue s
      else offloader_running s \<and> Terminating \<notin> set (offloader_queue s))"

definition queue_promises :: "work list \<Rightarrow> nat list" where
  "queue_promises q = concat (map (\<lambda>i. case i of Analysis _ _ p \<Rightarrow> [p] | _ \<Rightarrow> []) q)"

definition awaited :: "cor_profiler \<Rightarrow> nat set" where
  "awaited s = (case holder s of Some (Registration p) \<Rightarrow> {p} | Some (Tracing p _) \<Rightarrow> {p} | _ \<Rightarrow> {})"

definition promises_counted :: "cor_profiler \<Rightarrow> bool" where
  "promises_counted s \<longleftrightarrow> distinct (resolved s @ queue_promises (offloader_queue s)) \<and>
     set (resolved s) \<union> set (queue_promises (offloader_queue s)) = {..<promises s} \<and> awaited s \<subseteq> {..<promises s}"

definition known :: "cor_profiler \<Rightarrow> IntegrationDefinition set" where
  "known s = set (integration_definitions s) \<union> (case holder s of Some (Tracing _ ds) \<Rightarrow> set ds | _ \<Rightarrow> {})"

definition queued :: "cor_profiler \<Rightarrow> nat \<Rightarrow> IntegrationDefinition \<Rightarrow> bool" where
  "queued s m d \<longleftrightarrow> (\<exists>ms ds p. Analysis ms ds p \<in> set (offloader_queue s) \<and> m \<in> set ms \<and> d \<in> set ds)"

definition covered :: "environment \<Rightarrow> cor_profiler \<Rightarrow> nat \<Rightarrow> IntegrationDefinition \<Rightarrow> bool" where
  "covered env s m d \<longleftrightarrow>
     (\<forall>x \<in> set (module_targets (world env m) d). (m, method_token x) \<in> set (requested s) \<and> holds_method (registry s) m (method_token x))"

definition coverage :: "environment \<Rightarrow> cor_profiler \<Rightarrow> bool" where
  "coverage env s \<longleftrightarrow> (rejit_handler s \<longrightarrow> (\<forall>m \<in> set (module_ids s). \<forall>d \<in> known s. queued s m d \<or> covered env s m d))"

definition delivery_inv :: "environment \<Rightarrow> cor_profiler \<Rightarrow> bool" where
  "delivery_inv env s \<longleftrightarrow> life s \<and> promises_counted s \<and> registry_sound (world env) (registry s) \<and> coverage env s"

lemma queue_promises_simps [simp]:
  "queue_promises [] = []" "queue_promises (Analysis ms ds p # q) = p # queue_promises q"
  "queue_promises (Requests rq # q) = queue_promises q" "queue_promises (Terminating # q) = queue_promises q"
  "queue_promises (q @ q') = queue_promises q @ queue_promises q'" "queue_promises (map Requests items) = []"
proof -
  show "queue_promises (map Requests items) = []" by (induction items) (simp_all add: queue_promises_def)
qed (simp_all add: queue_promises_def)

lemma delivery_init: "s = profiler_initial \<Longrightarrow> delivery_inv env s"
  by (simp add: delivery_inv_def life_def promises_counted_def registry_sound_def coverage_def profiler_initial_def awaited_def)

text \<open>What was covered or queued stays so when requests and methods are only added.\<close>

lemma coverage_mono:
  assumes "coverage env s" "rejit_handler s' \<Longrightarrow> rejit_handler s" "set (module_ids s') \<subseteq> set (module_ids s)" "known s' \<subseteq> known s"
    and "\<And>m d. m \<in> set (module_ids s') \<Longrightarrow> queued s m d \<Longrightarrow> queued s' m d \<or> covered env s' m d"
    and "set (requested s) \<subseteq> set (requested s')"
    and "\<And>m t. m \<in> set (module_ids s') \<Longrightarrow> holds_method (registry s) m t \<Longrightarrow> holds_method (registry s') m t"
  shows "coverage env s'"
  unfolding coverage_def
proof (intro impI ballI)
  fix m d assume a: "rejit_handler s'" "m \<in> set (module_ids s')" "d \<in> known s'"
  then have "queued s m d \<or> covered env s m d" using assms(1-4) by (auto simp: coverage_def)
  then show "queued s' m d \<or> covered env s' m d"
  proof
    assume "covered env s m d"
    then have "covered env s' m d" using assms(6) assms(7) [OF a(2)] by (auto simp: covered_def)
    then show ?thesis ..
  qed (rule assms(5) [OF a(2)])
qed

lemma queued_more: "queued s m d \<Longrightarrow> set (offloader_queue s) \<subseteq> set (offloader_queue s') \<Longrightarrow> queued s' m d"
  by (auto simp: queued_def)

lemma coverage_more:
  assumes "coverage env s" "rejit_handler s' = rejit_handler s" "module_ids s' = module_ids s" "known s' = known s"
    and "set (offloader_queue s) \<subseteq> set (offloader_queue s')" "requested s' = requested s" "registry s' = registry s"
  shows "coverage env s'"
proof (rule coverage_mono [OF assms(1)])
  show "queued s' m d \<or> covered env s' m d" if "queued s m d" for m d using queued_more [OF that assms(5)] ..
qed (simp_all add: assms)

lemma delivery_invD: "delivery_inv env s \<Longrightarrow> life s" "delivery_inv env s \<Longrightarrow> coverage env s"
  by (simp_all add: delivery_inv_def)

subsection \<open>Looking for inliners\<close>

lemma ngen_keeps:
  assumes "delivery_inv env s" "\<not> modules_locked s" "rejit_handler s"
  shows "delivery_inv env (add_ngen_inliner_module env m s)"
proof -
  from add_ngen_effect [of env m s] obtain reg items where
    e: "add_ngen_inliner_module env m s = s\<lparr>registry := reg, offloader_queue := offloader_queue s @ map Requests items\<rparr>"
    "same_methods (m_modules (registry s)) (m_modules reg)" "m_shutdown reg = m_shutdown (registry s)" by blast
  have "holder s \<noteq> Some Closing" using assms(2) by (auto simp: modules_locked_def)
  then have "life (add_ngen_inliner_module env m s)" using assms(1,3) e by (auto simp: delivery_inv_def life_def)
  moreover have "promises_counted (add_ngen_inliner_module env m s)" using assms(1) e by (simp add: delivery_inv_def promises_counted_def awaited_def)
  moreover have "registry_sound (world env) reg" using assms(1) same_methods_keep(2) [OF e(2)] by (simp add: delivery_inv_def)
  moreover have "coverage env (add_ngen_inliner_module env m s)"
  proof (rule coverage_mono [of env s])
    show "coverage env s" using assms(1) by (simp add: delivery_inv_def)
    show "known (add_ngen_inliner_module env m s) \<subseteq> known s" by (simp add: e(1) known_def)
    show "queued (add_ngen_inliner_module env m s) m' d \<or> covered env (add_ngen_inliner_module env m s) m' d" if "queued s m' d" for m' d
      using queued_more [OF that] by (simp add: e(1))
    show "holds_method (registry (add_ngen_inliner_module env m s)) m' t" if "holds_method (registry s) m' t" for m' t
      using that same_methods_keep(1) [OF e(2)] by (simp add: e(1))
  qed (simp_all add: e(1))
  ultimately show ?thesis using e by (simp add: delivery_inv_def)
qed

lemma ngen_fields [simp]:
  "module_ids (add_ngen_inliner_module env m s) = module_ids s" "holder (add_ngen_inliner_module env m s) = holder s"
  "integration_definitions (add_ngen_inliner_module env m s) = integration_definitions s" "rejit_handler (add_ngen_inliner_module env m s) = rejit_handler s"
  "corlib_module_loaded (add_ngen_inliner_module env m s) = corlib_module_loaded s"
  using add_ngen_effect [of env m s] by auto

subsection \<open>Modules and definitions\<close>

text \<open>New pairs of modules and definitions, analysed by what is enqueued.\<close>

lemma enqueue_keeps:
  assumes inv: "delivery_inv env s" and h: "rejit_handler s" "holder s \<noteq> Some Closing"
    and s': "s' = (EnqueueRequestRejitForLoadedModules ms ds s)\<lparr>module_ids := ms', integration_definitions := ds', definitions_ids := ids, holder := w\<rparr>"
    and w: "w = holder s \<or> (\<exists>t. w = Some t \<and> t \<noteq> Closing \<and> awaited s' \<subseteq> {promises s})"
    and new: "\<And>m d. m \<in> set ms' \<Longrightarrow> d \<in> known s' \<Longrightarrow> m \<in> set (module_ids s) \<and> d \<in> known s \<or> m \<in> set ms \<and> d \<in> set ds"
  shows "delivery_inv env s'"
proof -
  let ?e = "EnqueueRequestRejitForLoadedModules ms ds s"
  have l: "\<not> m_shutdown (registry s)" "offloader_running s" "Terminating \<notin> set (offloader_queue s)"
    using inv h by (auto simp: delivery_inv_def life_def)
  have "w \<noteq> Some Closing" using w h by auto
  then have "life s'" using l h by (simp add: s' life_def enqueue_effect)
  moreover have "promises_counted s'"
  proof -
    have "awaited s' \<subseteq> {..promises s}" using w inv
      by (auto simp: delivery_inv_def promises_counted_def awaited_def s' lessThan_def)
    moreover have "{..<Suc n} = insert n {..<n}" for n by (rule lessThan_Suc)
    moreover have "distinct (resolved s @ queue_promises (offloader_queue s))"
      "set (resolved s) \<union> set (queue_promises (offloader_queue s)) = {..<promises s}"
      using inv by (simp_all add: delivery_inv_def promises_counted_def)
    moreover from this(2) have "promises s \<notin> set (resolved s) \<union> set (queue_promises (offloader_queue s))" by simp
    ultimately show ?thesis unfolding promises_counted_def
      by (auto simp: s' enqueue_effect)
  qed
  moreover have "registry s' = registry s" "requested s' = requested s" by (simp_all add: s' enqueue_effect)
  moreover have "coverage env s'"
    unfolding coverage_def
  proof (intro impI ballI)
    fix m d assume "m \<in> set (module_ids s')" "d \<in> known s'"
    then have "m \<in> set ms'" "d \<in> known s'" by (simp_all add: s')
    from new [OF this] show "queued s' m d \<or> covered env s' m d"
    proof
      assume "m \<in> set (module_ids s) \<and> d \<in> known s"
      with inv h(1) have "queued s m d \<or> covered env s m d" by (auto simp: delivery_inv_def coverage_def)
      moreover have "queued s m d \<Longrightarrow> queued s' m d" by (auto simp: queued_def s' enqueue_effect)
      ultimately show ?thesis by (auto simp: covered_def s' enqueue_effect)
    next
      assume "m \<in> set ms \<and> d \<in> set ds"
      then have "Analysis ms ds (promises s) \<in> set (offloader_queue s')" using l by (auto simp: s' enqueue_effect)
      with \<open>m \<in> set ms \<and> d \<in> set ds\<close> show ?thesis by (auto simp: queued_def)
    qed
  qed
  ultimately show ?thesis using inv by (simp add: delivery_inv_def)
qed

lemma known_None: "holder s = None \<Longrightarrow> known s = set (integration_definitions s)"
  by (simp add: known_def)

lemma not_locked: "\<not> modules_locked s \<Longrightarrow> holder s \<noteq> Some Closing" "\<not> modules_locked s \<Longrightarrow> known s = set (integration_definitions s)"
  by (auto simp: modules_locked_def known_def split: option.splits waiting.splits)

text \<open>The invariant looks at some fields only.\<close>

lemma delivery_inv_cong:
  assumes "registry s' = registry s" "rejit_handler s' = rejit_handler s" "holder s' = holder s" "offloader_running s' = offloader_running s"
    "offloader_queue s' = offloader_queue s" "resolved s' = resolved s" "promises s' = promises s"
    "integration_definitions s' = integration_definitions s" "module_ids s' = module_ids s" "requested s' = requested s"
  shows "delivery_inv env s' = delivery_inv env s"
proof -
  have "closing_queue s' = closing_queue s" "known s' = known s" "queued s' = queued s" "awaited s' = awaited s" "covered env s' = covered env s"
    using assms by (auto simp: closing_queue_def known_def queued_def awaited_def covered_def fun_eq_iff)
  then show ?thesis using assms by (simp add: delivery_inv_def life_def promises_counted_def coverage_def)
qed

lemma ids_keep: "delivery_inv env s \<Longrightarrow> delivery_inv env (s\<lparr>definitions_ids := i\<rparr>)"
  by (subst delivery_inv_cong [of _ s]) simp_all

lemma register_keeps:
  assumes "delivery_inv env s" "holder s = None"
  shows "delivery_inv env (RegisterCallTargetDefinitions i items enabledCategories s)"
proof (cases "i \<in> set (definitions_ids s) \<or> \<not> rejit_handler s \<or> registered_definitions enabledCategories items = []")
  case True
  then show ?thesis using assms(1) ids_keep [OF assms(1)] by (auto simp: RegisterCallTargetDefinitions_def Let_def)
next
  case False
  let ?ds = "registered_definitions enabledCategories items"
  have e: "RegisterCallTargetDefinitions i items enabledCategories s =
      (EnqueueRequestRejitForLoadedModules (module_ids s) ?ds s)\<lparr>module_ids := module_ids s,
        integration_definitions := integration_definitions s @ ?ds, definitions_ids := definitions_ids s @ [i], holder := Some (Registration (promises s))\<rparr>"
    using False by (simp add: RegisterCallTargetDefinitions_def Let_def enqueue_effect)
  show ?thesis
    by (rule enqueue_keeps [OF assms(1) _ _ e]) (use False assms(2) in \<open>auto simp: e awaited_def known_def\<close>)
qed

lemma add_keeps:
  assumes "delivery_inv env s" "holder s = None"
  shows "delivery_inv env (InternalAddInstrumentation i items isDerived isInterface s)"
proof (cases "i \<in> set (definitions_ids s) \<or> \<not> rejit_handler s \<or> items = []")
  case True
  then show ?thesis using assms(1) ids_keep [OF assms(1)] by (auto simp: InternalAddInstrumentation_def Let_def)
next
  case False
  let ?ds = "map (added_definition isDerived isInterface) items"
  have e: "InternalAddInstrumentation i items isDerived isInterface s =
      (EnqueueRequestRejitForLoadedModules (module_ids s) ?ds s)\<lparr>module_ids := module_ids s,
        integration_definitions := integration_definitions s @ ?ds, definitions_ids := definitions_ids s @ [i], holder := holder s\<rparr>"
    using False by (simp add: InternalAddInstrumentation_def Let_def enqueue_effect)
  show ?thesis
    by (rule enqueue_keeps [OF assms(1) _ _ e]) (use False assms(2) in \<open>auto simp: e awaited_def known_def enqueue_effect\<close>)
qed

lemma trace_keeps:
  assumes "delivery_inv env s" "holder s = None"
  shows "delivery_inv env (InitializeTraceMethods i integration conf s)"
proof (cases "i \<in> set (definitions_ids s) \<or> \<not> rejit_handler s")
  case True
  then show ?thesis using assms(1) by (auto simp: InitializeTraceMethods_def)
next
  case False
  let ?ds = "GetIntegrationsFromTraceMethodsConfiguration integration conf"
  have e: "InitializeTraceMethods i integration conf s =
      (EnqueueRequestRejitForLoadedModules (module_ids s) ?ds s)\<lparr>module_ids := module_ids s,
        integration_definitions := integration_definitions s, definitions_ids := definitions_ids s, holder := Some (Tracing (promises s) ?ds)\<rparr>"
    using False by (simp add: InitializeTraceMethods_def Let_def enqueue_effect)
  show ?thesis
    by (rule enqueue_keeps [OF assms(1) _ _ e]) (use False assms(2) in \<open>auto simp: e awaited_def known_def\<close>)
qed

lemma load_keeps:
  assumes "delivery_inv env s" "\<not> modules_locked s"
  shows "delivery_inv env (ModuleLoadFinished env m s)"
proof (cases "is_attached s \<and> rejit_handler s \<and> mi_valid (infos env m)")
  case False
  then show ?thesis using assms(1) by (auto simp: ModuleLoadFinished_def)
next
  case True
  define t where "t = (if IsNGEN (infos env m) then add_ngen_inliner_module env m s else s)"
  have t: "delivery_inv env t" "rejit_handler t" "\<not> modules_locked t"
    using ngen_keeps [OF assms] assms True by (auto simp: t_def modules_locked_def)
  have load: "ModuleLoadFinished env m s = (case admit_module env (corlib_module_loaded t) m of
      Refused \<Rightarrow> t | Corlib \<Rightarrow> t\<lparr>corlib_module_loaded := True\<rparr>
    | Admitted \<Rightarrow> (if integration_definitions t \<noteq> []
        then EnqueueRequestRejitForLoadedModules [m] (integration_definitions t) (t\<lparr>module_ids := module_ids t @ [m]\<rparr>)
        else t\<lparr>module_ids := module_ids t @ [m]\<rparr>))"
    unfolding ModuleLoadFinished_def module_admitted_def Let_def t_def [symmetric] using True by (simp split: admission.split)
  show ?thesis
  proof (cases "admit_module env (corlib_module_loaded t) m")
    case Refused
    then show ?thesis using load t by simp
  next
    case Corlib
    then show ?thesis using load t(1) delivery_inv_cong [of "t\<lparr>corlib_module_loaded := True\<rparr>" t env] by simp
  next
    case Admitted
    show ?thesis
    proof (cases "integration_definitions t = []")
      case None: True
      then have "known (t\<lparr>module_ids := module_ids t @ [m]\<rparr>) = {}" using not_locked(2) [OF t(3)] by (simp add: known_def)
      then have "coverage env (t\<lparr>module_ids := module_ids t @ [m]\<rparr>)" by (simp add: coverage_def)
      then show ?thesis using load Admitted None t(1) not_locked(1) [OF t(3)]
        by (simp add: delivery_inv_def life_def promises_counted_def awaited_def)
    next
      case Some: False
      have e: "ModuleLoadFinished env m s = (EnqueueRequestRejitForLoadedModules [m] (integration_definitions t) t)\<lparr>module_ids := module_ids t @ [m],
          integration_definitions := integration_definitions t, definitions_ids := definitions_ids t, holder := holder t\<rparr>"
        using load Admitted Some by (simp add: enqueue_effect)
      show ?thesis
        by (rule enqueue_keeps [OF t(1,2) not_locked(1) [OF t(3)] e]) (use not_locked(2) [OF t(3)] in \<open>auto simp: e known_def enqueue_effect\<close>)
    qed
  qed
qed

subsection \<open>Unloading, the runtime's callback, detaching\<close>

lemma unload_keeps:
  assumes "delivery_inv env s" "\<not> modules_locked s"
  shows "delivery_inv env (ModuleUnloadStarted m s)"
proof -
  have "life (ModuleUnloadStarted m s)" using assms(1) not_locked(1) [OF assms(2)]
    by (auto simp: ModuleUnloadStarted_def delivery_inv_def life_def)
  moreover have "promises_counted (ModuleUnloadStarted m s)" using assms(1)
    by (simp add: ModuleUnloadStarted_def delivery_inv_def promises_counted_def awaited_def)
  moreover have "registry_sound (world env) (registry (ModuleUnloadStarted m s))"
    using assms(1) RemoveModule_sound [of "world env" "registry s" m] by (simp add: ModuleUnloadStarted_def delivery_inv_def)
  moreover have "coverage env (ModuleUnloadStarted m s)"
  proof (rule coverage_mono [of env s])
    show "coverage env s" using assms(1) by (simp add: delivery_inv_def)
    show "known (ModuleUnloadStarted m s) \<subseteq> known s" by (simp add: ModuleUnloadStarted_def known_def)
    show "queued (ModuleUnloadStarted m s) m' d \<or> covered env (ModuleUnloadStarted m s) m' d" if "queued s m' d" for m' d
      using queued_more [OF that] by (simp add: ModuleUnloadStarted_def)
    show "holds_method (registry (ModuleUnloadStarted m s)) m' t"
      if "m' \<in> set (module_ids (ModuleUnloadStarted m s))" "holds_method (registry s) m' t" for m' t
      using that by (auto simp: ModuleUnloadStarted_def RemoveModule_holds split: if_splits)
  qed (auto simp: ModuleUnloadStarted_def split: if_splits)
  ultimately show ?thesis by (simp add: delivery_inv_def)
qed

lemma callback_keeps:
  assumes "delivery_inv env s"
  shows "delivery_inv env (GetReJITParameters m t s)"
proof -
  have "life (GetReJITParameters m t s)" "promises_counted (GetReJITParameters m t s)"
    using assms by (auto simp: GetReJITParameters_def delivery_inv_def life_def closing_queue_def promises_counted_def awaited_def RejitMethod_state cong: if_cong)
  moreover have "registry_sound (world env) (registry (GetReJITParameters m t s))"
    using assms GetOrAddModule_sound [of "world env" "registry s" m] by (simp add: GetReJITParameters_def delivery_inv_def RejitMethod_state)
  moreover have "coverage env (GetReJITParameters m t s)"
  proof (rule coverage_mono [of env s])
    show "coverage env s" using assms(1) by (simp add: delivery_inv_def)
    show "known (GetReJITParameters m t s) \<subseteq> known s" by (simp add: GetReJITParameters_def known_def)
    show "queued (GetReJITParameters m t s) m' d \<or> covered env (GetReJITParameters m t s) m' d" if "queued s m' d" for m' d
      using queued_more [OF that] by (simp add: GetReJITParameters_def)
    show "holds_method (registry (GetReJITParameters m t s)) m' t'" if "holds_method (registry s) m' t'" for m' t'
      using that by (simp add: GetReJITParameters_def RejitMethod_state GetOrAddModule_holds)
  qed (auto simp: GetReJITParameters_def split: if_splits)
  ultimately show ?thesis by (simp add: delivery_inv_def)
qed

subsection \<open>The worker\<close>

lemma RequestRejit_effect:
  "RequestRejit ms s = (if m_shutdown (registry s) then s else s\<lparr>requested := requested s @ ms\<rparr>)"
  by (simp add: RequestRejit_def)

lemma run_analysis:
  "\<not> m_shutdown (registry s) \<Longrightarrow> run_item env (Analysis ms ds p) s =
     s\<lparr>registry := record_modules (world env) ms ds (registry s), requested := requested s @ all_targets (world env) ms ds, resolved := resolved s @ [p]\<rparr>"
  by (simp add: run_item_def analysis RequestRejit_effect Let_def)

lemma all_targets_member: "m \<in> set ms \<Longrightarrow> d \<in> set ds \<Longrightarrow> x \<in> set (module_targets (w m) d) \<Longrightarrow> (m, method_token x) \<in> set (all_targets w ms ds)"
  by (auto simp: all_targets_def)

lemma worker_keeps:
  assumes inv: "delivery_inv env s"
  shows "delivery_inv env (offload_step env s)"
proof (cases "offloader_running s \<and> offloader_queue s \<noteq> []")
  case False
  then show ?thesis using inv by (auto simp: offload_step_def split: list.split)
next
  case True
  then obtain item rest where q: "offloader_queue s = item # rest" by (meson neq_Nil_conv)
  define t where "t = s\<lparr>offloader_queue := rest\<rparr>"
  have step: "offload_step env s = run_item env item t" using True q by (simp add: offload_step_def t_def)
  have alive: "rejit_handler s" "\<not> m_shutdown (registry s)" using inv True by (auto simp: delivery_inv_def life_def split: if_splits)
  have closing: "item # rest = q' @ [Terminating] \<Longrightarrow> item \<noteq> Terminating \<Longrightarrow> \<exists>q''. rest = q'' @ [Terminating] \<and> q' = item # q''" for q'
    by (cases q') auto
  have life: "life (t\<lparr>registry := reg, requested := rq, resolved := rs\<rparr>)" if "item \<noteq> Terminating" "m_shutdown reg = m_shutdown (registry s)" for reg rq rs
  proof (cases "holder s = Some Closing")
    case c: True
    then obtain q' where "item # rest = q' @ [Terminating]" "Terminating \<notin> set q'"
      using delivery_invD(1) [OF inv] True alive q by (auto simp: life_def closing_queue_def)
    with closing [OF this(1) that(1)] obtain q'' where "rest = q'' @ [Terminating]" "Terminating \<notin> set q''" by auto
    then show ?thesis using delivery_invD(1) [OF inv] True alive c that(2) by (simp add: life_def t_def closing_queue_def)
  next
    case False
    then show ?thesis using delivery_invD(1) [OF inv] True alive that(2) q by (simp add: life_def t_def)
  qed
  show ?thesis
  proof (cases item)
    case Terminating
    have c: "holder s = Some Closing" using inv alive q Terminating by (auto simp: delivery_inv_def life_def split: if_splits)
    then have "rest = []" using inv alive True q Terminating by (auto simp: delivery_inv_def life_def closing_queue_def Cons_eq_append_conv)
    then have no: "\<not> queued s m d" for m d using q Terminating by (simp add: queued_def)
    have "coverage env (offload_step env s)"
      by (rule coverage_mono [OF delivery_invD(2) [OF inv]]) (simp_all add: no, simp_all add: step Terminating run_item_def t_def known_def)
    then show ?thesis using inv c alive q Terminating \<open>rest = []\<close>
      by (simp add: delivery_inv_def life_def closing_queue_def promises_counted_def awaited_def step run_item_def t_def)
  next
    case (Requests ms)
    have e: "offload_step env s = t\<lparr>requested := requested s @ ms\<rparr>" using alive by (simp add: step Requests run_item_def RequestRejit_effect t_def)
    have "life (offload_step env s)" using life [where reg = "registry s" and rq = "requested s @ ms" and rs = "resolved s"] Requests by (simp add: e t_def)
    moreover have "promises_counted (offload_step env s)" using inv q Requests by (simp add: delivery_inv_def promises_counted_def awaited_def e t_def)
    moreover have "coverage env (offload_step env s)"
    proof (rule coverage_mono [of env s])
      show "coverage env s" using inv by (simp add: delivery_inv_def)
      show "known (offload_step env s) \<subseteq> known s" by (simp add: e t_def known_def)
      show "queued (offload_step env s) m d \<or> covered env (offload_step env s) m d" if "queued s m d" for m d
        using that q Requests by (auto simp: queued_def e t_def)
    qed (simp_all add: e t_def)
    ultimately show ?thesis using inv by (simp add: delivery_inv_def e t_def)
  next
    case (Analysis ms ds p)
    have e: "offload_step env s = t\<lparr>registry := record_modules (world env) ms ds (registry s),
        requested := requested s @ all_targets (world env) ms ds, resolved := resolved s @ [p]\<rparr>"
      using alive run_analysis [of t env ms ds p] by (simp add: step Analysis t_def)
    have "life (offload_step env s)" using life Analysis by (simp add: e)
    moreover have "promises_counted (offload_step env s)" using inv q Analysis by (auto simp: delivery_inv_def promises_counted_def awaited_def e t_def)
    moreover have "coverage env (offload_step env s)"
    proof (rule coverage_mono [of env s])
      show "coverage env s" using inv by (simp add: delivery_inv_def)
      show "known (offload_step env s) \<subseteq> known s" by (simp add: e t_def known_def)
      show "queued (offload_step env s) m d \<or> covered env (offload_step env s) m d" if "queued s m d" for m d
      proof (cases "m \<in> set ms \<and> d \<in> set ds")
        case True
        then show ?thesis using alive by (auto simp: covered_def e t_def record_modules_holds all_targets_member)
      next
        case False
        then show ?thesis using that q Analysis by (auto simp: queued_def e t_def)
      qed
    qed (use alive in \<open>auto simp: e t_def record_modules_holds\<close>)
    moreover have "registry_sound (world env) (registry (offload_step env s))"
      using inv alive record_modules_sound [of "registry s" "world env" ms ds] by (simp add: delivery_inv_def e)
    ultimately show ?thesis by (simp add: delivery_inv_def)
  qed
qed

subsection \<open>Waits and the shutdown\<close>

lemma finish_keeps:
  assumes inv: "delivery_inv env s" and "wait_over s"
  shows "delivery_inv env (finish_wait s)"
proof -
  obtain w where w: "holder s = Some w" using assms(2) by (auto simp: wait_over_def split: option.splits)
  then have alive: "rejit_handler s" using inv by (simp add: delivery_inv_def life_def)
  show ?thesis
  proof (cases w)
    case (Registration p)
    then have "coverage env (finish_wait s)" using w
      by (intro coverage_more [OF delivery_invD(2) [OF inv]]) (simp_all add: finish_wait_def known_def)
    then show ?thesis using inv w Registration alive
      by (simp add: delivery_inv_def life_def promises_counted_def awaited_def finish_wait_def)
  next
    case (Tracing p ds)
    then have "coverage env (finish_wait s)" using w
      by (intro coverage_more [OF delivery_invD(2) [OF inv]]) (simp_all add: finish_wait_def known_def)
    then show ?thesis using inv w Tracing alive
      by (simp add: delivery_inv_def life_def promises_counted_def awaited_def finish_wait_def)
  next
    case Closing
    then have "\<not> offloader_running s" using assms(2) w by (simp add: wait_over_def)
    moreover from this have "offloader_queue s = []" using delivery_invD(1) [OF inv] w Closing alive by (simp add: life_def closing_queue_def)
    ultimately show ?thesis using inv w Closing alive
      by (simp add: delivery_inv_def life_def closing_queue_def promises_counted_def awaited_def finish_wait_def rejit_shut_down_def registry_sound_def coverage_def)
  qed
qed

lemma shutdown_keeps:
  assumes inv: "delivery_inv env s" and "holder s = None"
  shows "delivery_inv env (begin_shutdown s)"
proof (cases "rejit_handler s")
  case True
  have "coverage env (begin_shutdown s)" using assms(2)
    by (intro coverage_more [OF delivery_invD(2) [OF inv]]) (auto simp: begin_shutdown_def known_def)
  then show ?thesis using inv assms(2) True
    by (simp add: delivery_inv_def life_def closing_queue_def promises_counted_def awaited_def begin_shutdown_def)
qed (use inv in \<open>simp add: begin_shutdown_def\<close>)

lemma delivery_step:
  assumes "delivery_inv env s" "profiler_step env s t"
  shows "delivery_inv env t"
  using assms(2)
proof cases
  case detach
  then show ?thesis using assms(1) delivery_inv_cong [of "s\<lparr>is_attached := False\<rparr>" s env] by simp
qed (use assms(1) load_keeps unload_keeps register_keeps add_keeps trace_keeps finish_keeps worker_keeps callback_keeps shutdown_keeps ngen_keeps in auto)

interpretation delivery: step_invariant "\<lambda>s. s = profiler_initial" "profiler_step env" "delivery_inv env" for env
  by unfold_locales (auto intro: delivery_init delivery_step)

section \<open>Working off the queue\<close>

lemma run_item_fields [simp]:
  "module_ids (run_item env item s) = module_ids s" "integration_definitions (run_item env item s) = integration_definitions s"
  "holder (run_item env item s) = holder s" "rejit_handler (run_item env item s) = rejit_handler s" "promises (run_item env item s) = promises s"
  "offloader_queue (run_item env item s) = offloader_queue s"
  "item \<noteq> Terminating \<Longrightarrow> offloader_running (run_item env item s) = offloader_running s"
  by (auto simp: run_item_def RequestRejit_def Let_def split: work.split prod.split)

lemma worker_step_fields [simp]:
  "module_ids (offload_step env s) = module_ids s" "integration_definitions (offload_step env s) = integration_definitions s"
  "holder (offload_step env s) = holder s" "rejit_handler (offload_step env s) = rejit_handler s" "promises (offload_step env s) = promises s"
  by (auto simp: offload_step_def split: list.split)

abbreviation drained :: "environment \<Rightarrow> cor_profiler \<Rightarrow> cor_profiler" where
  "drained env s \<equiv> (offload_step env ^^ length (offloader_queue s)) s"

lemma drained_queue:
  "offloader_running s \<Longrightarrow> Terminating \<notin> set (butlast (offloader_queue s)) \<Longrightarrow> offloader_queue (drained env s) = []"
proof (induction "offloader_queue s" arbitrary: s)
  case (Cons item rest)
  let ?t = "offload_step env s"
  have step: "?t = run_item env item (s\<lparr>offloader_queue := rest\<rparr>)" using Cons(2,3) by (simp add: offload_step_def flip: Cons(2))
  have drain: "drained env s = drained env ?t" by (simp add: step funpow_swap1 flip: Cons(2))
  show ?case
  proof (cases "rest = []")
    case True
    then show ?thesis unfolding drain by (simp add: step)
  next
    case False
    then have "item \<noteq> Terminating" "Terminating \<notin> set (butlast rest)" using Cons(4) by (auto simp flip: Cons(2))
    then show ?thesis unfolding drain using Cons(1) [of ?t] Cons(3) by (simp add: step)
  qed
qed simp

lemma worker_steps_fields [simp]:
  "module_ids ((offload_step env ^^ n) s) = module_ids s" "integration_definitions ((offload_step env ^^ n) s) = integration_definitions s"
  "holder ((offload_step env ^^ n) s) = holder s" "rejit_handler ((offload_step env ^^ n) s) = rejit_handler s"
  "promises ((offload_step env ^^ n) s) = promises s"
  by (induction n) simp_all

lemma worker_steps_keep: "delivery_inv env s \<Longrightarrow> delivery_inv env ((offload_step env ^^ n) s)"
  by (induction n) (simp_all add: worker_keeps)

text \<open>As long as the handler is there, all that is queued is worked off.\<close>

lemma drained_all:
  assumes "delivery_inv env s" "rejit_handler s"
  shows "offloader_queue (drained env s) = []" "delivery_inv env (drained env s)"
proof -
  show "delivery_inv env (drained env s)" using assms(1) by (rule worker_steps_keep)
  have "offloader_queue s = [] \<or> offloader_running s \<and> Terminating \<notin> set (butlast (offloader_queue s))"
    using delivery_invD(1) [OF assms(1)] assms(2) by (auto simp: life_def closing_queue_def dest: in_set_butlastD split: if_splits)
  then show "offloader_queue (drained env s) = []" using drained_queue by auto
qed

section \<open>The properties\<close>

text \<open>C12: every integration reaches every module. Whatever modules were loaded and unloaded and definitions registered before, in any
  order and by any of the calls: once the worker has worked off what is queued, every method of a loaded module that is a
  target of a registered definition has been requested from the runtime, is kept from being inlined, and the runtime's
  callback finds it with a definition that is enabled and has the method as a target.\<close>

theorem every_integration_reaches_every_module:
  assumes "profiler_reachable env s" "rejit_handler s" "m \<in> set (module_ids s)" "d \<in> set (integration_definitions s)"
    and "x \<in> set (module_targets (world env m) d)" "m \<noteq> 0" "method_token x \<noteq> mdMethodDefNil"
  shows "(m, method_token x) \<in> set (requested (drained env s)) \<and>
    HasModuleAndMethod m (method_token x) (registry (drained env s)) \<and>
    (\<exists>rm. fst (RejitMethod m (method_token x) (registry (drained env s))) = Some rm \<and> entry_sound (world env) m (method_token x) rm)"
proof -
  have inv: "delivery_inv env s" using assms(1) by (rule delivery.reach_inv)
  note t = drained_all [OF inv assms(2)]
  have "d \<in> known (drained env s)" using assms(4) by (simp add: known_def)
  moreover have "\<not> queued (drained env s) m d" by (simp add: queued_def t(1))
  ultimately have "covered env (drained env s) m d" using t(2) assms(2,3) by (auto simp: delivery_inv_def coverage_def)
  then have "(m, method_token x) \<in> set (requested (drained env s))" "holds_method (registry (drained env s)) m (method_token x)"
    using assms(5) by (auto simp: covered_def)
  moreover have "\<not> m_shutdown (registry (drained env s))" "registry_sound (world env) (registry (drained env s))"
    using t(2) assms(2) by (auto simp: delivery_inv_def life_def)
  ultimately show ?thesis using RejitMethod_held assms(6,7) by (simp add: HasModuleAndMethod_iff)
qed


section \<open>An example\<close>

definition example_environment :: environment where
  "example_environment = \<lparr>world = example_world, infos = (\<lambda>_. \<lparr>mi_valid = True, mi_flags = 1\<rparr>), assembly_redirection_enabled = False,
     inliner_answers = (\<lambda>_ _ _. Inliners_Failed)\<rparr>"

definition example_item :: CallTargetDefinition where
  "example_item = \<lparr>ctd_targetAssembly = WStr ''A'', ctd_targetType = WStr ''I'', ctd_targetMethod = WStr ''M'', ctd_signatureTypes = [Some (WStr ''System.Void'')],
     ctd_targetMinimum = (0, 0, 0), ctd_targetMaximum = (0, 0, 0), ctd_integrationAssembly = WStr ''A'', ctd_integrationType = WStr ''I''\<rparr>"

definition example_registered :: cor_profiler where
  "example_registered = InternalAddInstrumentation [0x61] [example_item] False True profiler_initial"

definition example_loaded :: cor_profiler where
  "example_loaded = ModuleLoadFinished example_environment 1 example_registered"

definition example_waiting :: cor_profiler where
  "example_waiting = InitializeTraceMethods [0x62] example_type [0x54, 0x5B, 0x6D, 0x5D] example_loaded"

lemma example_item_definition: "added_definition False True example_item = example_definition"
  by (simp add: added_definition_def example_item_def example_definition_def example_type_def IntegrationDefinition_new_def target_version_def
    no_version_def map_filter_simps)

lemma example_registered_state:
  "example_registered = profiler_initial\<lparr>definitions_ids := [[0x61]], integration_definitions := [example_definition], promises := 1, resolved := [0]\<rparr>"
  by (simp add: example_registered_def InternalAddInstrumentation_def example_item_definition profiler_initial_def enqueue_effect)

lemma example_admitted: "admit_module example_environment False 1 = Admitted"
proof -
  have n: "info_name (world example_environment 1) = WStr ''A''" by (simp add: example_environment_def example_world_def)
  have "\<not> skipped_by_prefix (WStr ''A'') skip_assembly_prefixes"
    by (simp add: skip_assembly_prefixes_def StartsWith_def WStr_def)
  then show ?thesis
    by (simp add: admit_module_def admit_corlib_def n) (simp add: example_environment_def example_world_def IsWindowsRuntime_def IsResource_def IsDynamic_def
      COR_PRF_MODULE_WINDOWS_RUNTIME_def COR_PRF_MODULE_RESOURCE_def COR_PRF_MODULE_DYNAMIC_def skip_assemblies_def mscorlib_assemblyName_def
      system_private_corelib_assemblyName_def loader_assemblyName_def managed_profiler_name_def WStr_def)
qed

lemma example_loaded_state:
  "example_loaded = profiler_initial\<lparr>definitions_ids := [[0x61]], integration_definitions := [example_definition], module_ids := [1],
     promises := 2, resolved := [0], offloader_queue := [Analysis [1] [example_definition] 1]\<rparr>"
proof -
  have "mi_valid (infos example_environment 1)" "\<not> IsNGEN (infos example_environment 1)"
    by (simp_all add: example_environment_def IsNGEN_def COR_PRF_MODULE_NGEN_def)
  then show ?thesis using example_admitted
    by (simp add: example_loaded_def ModuleLoadFinished_def module_admitted_def example_registered_state profiler_initial_def enqueue_effect)
qed

lemma example_reachable: "profiler_reachable example_environment example_loaded" "profiler_reachable example_environment example_waiting"
proof -
  have "profiler_step example_environment profiler_initial example_registered"
    unfolding example_registered_def by (rule profiler_step.add) (simp add: profiler_initial_def)
  then have "profiler_reachable example_environment example_registered"
    by (intro reach_step [OF reach_init]) auto
  moreover have "profiler_step example_environment example_registered example_loaded"
    unfolding example_loaded_def by (rule profiler_step.load) (simp add: example_registered_state profiler_initial_def modules_locked_def)
  ultimately show l: "profiler_reachable example_environment example_loaded" by (rule reach_step)
  have "profiler_step example_environment example_loaded example_waiting"
    unfolding example_waiting_def by (rule profiler_step.trace) (simp add: example_loaded_state profiler_initial_def)
  with l show "profiler_reachable example_environment example_waiting" by (rule reach_step)
qed

theorem every_integration_reaches_every_module_witness:
  "(1, 6) \<in> set (requested (drained example_environment example_loaded)) \<and>
   HasModuleAndMethod 1 6 (registry (drained example_environment example_loaded))"
proof -
  have "example_method 6 (WStr ''I.M'') \<in> set (module_targets (world example_environment 1) example_definition)"
    by (simp add: example_environment_def example_targets)
  moreover have "rejit_handler example_loaded" "1 \<in> set (module_ids example_loaded)" "example_definition \<in> set (integration_definitions example_loaded)"
    by (simp_all add: example_loaded_state profiler_initial_def)
  moreover have "method_token (example_method 6 (WStr ''I.M'')) = 6" "(1 :: nat) \<noteq> 0" "6 \<noteq> mdMethodDefNil"
    by (simp_all add: example_method_def mdMethodDefNil_def)
  ultimately show ?thesis
    using every_integration_reaches_every_module [OF example_reachable(1), of 1 example_definition "example_method 6 (WStr ''I.M'')"] by simp
qed


section \<open>Traced methods are never recorded\<close>

text \<open>
  A second configuration of traced methods under the same id is not refused: unlike the other two calls,
  \<open>InitializeTraceMethods\<close> tests the id and does not store it.
\<close>

lemma trace_id_not_recorded: "definitions_ids (InitializeTraceMethods i integration conf s) = definitions_ids s"
  by (simp add: InitializeTraceMethods_def enqueue_effect Let_def)

lemma other_ids_recorded:
  assumes "rejit_handler s"
  shows "i \<in> set (definitions_ids (RegisterCallTargetDefinitions i items e s))" "i \<in> set (definitions_ids (InternalAddInstrumentation i old_items x y s))"
  using assms by (auto simp: RegisterCallTargetDefinitions_def InternalAddInstrumentation_def enqueue_effect Let_def)

end
