(* ===== verification/Stack_Capture.thy ===== *)
theory Stack_Capture
  imports Stack_Walk_Guard
begin

text \<open>
  The capture of stacks on the two runtimes, in the x64 build for Windows: the orchestration (\<open>stack_capturer.cpp\<close>), the
  suspension guards (\<open>suspension_guards.cpp\<close>, \<open>thread_suspend.cpp\<close>), the capture of one thread (\<open>clr_runtime_capture.cpp\<close>,
  \<open>netfx_runtime_capture.cpp\<close>) and the walk of native frames (\<open>safe_native_walk_service.cpp\<close>). A run records the calls that
  leave the component; what they answer may depend on all calls before. A specification as an automaton over the calls says
  what must be suspended and probed when a stack is touched, and that everything is resumed.
\<close>

section \<open>Calls and answers\<close>

text \<open>The calls; a look-up reads the stack of the thread or the tables for one of its instructions. \<open>None\<close> is an exception.\<close>

datatype call =
    Suspend_Runtime hresult
  | Resume_Runtime
  | Thread_Info u64 hresult u32
  | Open_Thread u32 bool
  | Suspend_Thread u32 bool
  | Resume_Thread u32
  | Close_Thread u32
  | Get_Context u32 bool
  | Rtl_Probe ProbeResult
  | Canary_Probe u64 ProbeResult
  | Snapshot u64 "cpu_context option"
  | Look_Up u64
  | Frame captured_frame "hresult option"
  | Write_Log

record runtime_frame =
  rf_function :: u64
  rf_ip :: u64
  rf_info :: u64
  rf_contextSize :: u32

record walker_env =
  has_api :: bool
  stopping_seen :: "call list \<Rightarrow> bool"
  suspend_answer :: "call list \<Rightarrow> hresult"
  thread_info_answer :: "call list \<Rightarrow> u64 \<Rightarrow> hresult \<times> u32"
  open_answer :: "call list \<Rightarrow> u32 \<Rightarrow> bool"
  suspend_thread_answer :: "call list \<Rightarrow> u32 \<Rightarrow> bool"
  context_answer :: "call list \<Rightarrow> u32 \<Rightarrow> cpu_context option"
  rtl_probe_answer :: "call list \<Rightarrow> cpu_context \<Rightarrow> (ProbeResult \<times> cpu_context \<times> captured_frame) option"
  canary_probe_answer :: "call list \<Rightarrow> u64 \<Rightarrow> ProbeResult option"
  canary_now :: "call list \<Rightarrow> u64 \<times> u32"
  snapshot_frames :: "call list \<Rightarrow> u64 \<Rightarrow> cpu_context option \<Rightarrow> runtime_frame list"
  snapshot_answer :: "call list \<Rightarrow> hresult"
  function_answer :: "call list \<Rightarrow> u64 \<Rightarrow> (hresult \<times> u64) option"
  lookup_answer :: "call list \<Rightarrow> u64 \<Rightarrow> rtl_lookup option"
  system_module_answer :: "call list \<Rightarrow> u64 \<Rightarrow> bool option option"
  stack_answer :: "call list \<Rightarrow> u64 \<Rightarrow> u64 option"
  unwind_answer :: "call list \<Rightarrow> rtl_lookup \<Rightarrow> cpu_context \<Rightarrow> cpu_context option"
  callback :: "call list \<Rightarrow> captured_frame \<Rightarrow> hresult option"

text \<open>A run: the calls so far and the callback context.\<close>

record capture_run =
  call_log :: "call list"
  cb_frame :: captured_frame
  cancellationRequested :: bool

definition call_out :: "call \<Rightarrow> capture_run \<Rightarrow> capture_run" where
  "call_out c r = r\<lparr>call_log := call_log r @ [c]\<rparr>"

definition set_thread :: "u64 \<Rightarrow> capture_run \<Rightarrow> capture_run" where
  "set_thread tid r = r\<lparr>cb_frame := (cb_frame r)\<lparr>frame_threadId := tid\<rparr>\<rparr>"

section \<open>Callbacks and snapshots\<close>

definition InvokeCallback :: "walker_env \<Rightarrow> capture_run \<Rightarrow> hresult option \<times> capture_run" where
  "InvokeCallback env r =
     (let answer = callback env (call_log r) (cb_frame r); r = call_out (Frame (cb_frame r) answer) r
      in case answer of
           None \<Rightarrow> (None, r)
         | Some result \<Rightarrow> (Some result, if result = S_FALSE then r\<lparr>cancellationRequested := True\<rparr> else r))"

definition StackSnapshotCallbackDefault :: "walker_env \<Rightarrow> runtime_frame \<Rightarrow> capture_run \<Rightarrow> hresult option \<times> capture_run" where
  "StackSnapshotCallbackDefault env f r =
     InvokeCallback env (r\<lparr>cb_frame := (cb_frame r)\<lparr>functionId := rf_function f, instructionPointer := rf_ip f, frameInfo := rf_info f,
       contextSize := rf_contextSize f, isUnmanagedFrame := (rf_function f = 0 \<and> rf_ip f \<noteq> 0)\<rparr>\<rparr>)"

text \<open>The runtime hands out its frames as long as the callback answers \<open>S_OK\<close>.\<close>

fun deliver :: "walker_env \<Rightarrow> runtime_frame list \<Rightarrow> capture_run \<Rightarrow> unit option \<times> capture_run" where
  "deliver env [] r = (Some (), r)"
| "deliver env (f # fs) r =
     (case StackSnapshotCallbackDefault env f r of
        (None, r) \<Rightarrow> (None, r)
      | (Some hr, r) \<Rightarrow> if hr = S_OK then deliver env fs r else (Some (), r))"

definition DoStackSnapshot :: "walker_env \<Rightarrow> u64 \<Rightarrow> cpu_context option \<Rightarrow> capture_run \<Rightarrow> hresult option \<times> capture_run" where
  "DoStackSnapshot env tid seed r =
     (let r = call_out (Snapshot tid seed) r
      in case deliver env (snapshot_frames env (call_log r) tid seed) r of
           (None, r) \<Rightarrow> (None, r)
         | (Some _, r) \<Rightarrow> (Some (snapshot_answer env (call_log r)), r))"

definition DoStackSnapshot_unseeded :: "walker_env \<Rightarrow> u64 \<Rightarrow> capture_run \<Rightarrow> hresult option \<times> capture_run" where
  "DoStackSnapshot_unseeded env tid r = DoStackSnapshot env tid None (set_thread tid r)"

section \<open>Suspension guards\<close>

text \<open>A guard owns a thread handle or none; it resumes and closes what it owns.\<close>

record scoped_suspend =
  threadHandle :: "u32 option"
  suspended :: bool

definition ScopedThreadSuspend :: "walker_env \<Rightarrow> u32 \<Rightarrow> capture_run \<Rightarrow> scoped_suspend \<times> capture_run" where
  "ScopedThreadSuspend env os r =
     (let valid = open_answer env (call_log r) os; r = call_out (Open_Thread os valid) r
      in if \<not> valid then (\<lparr>threadHandle = None, suspended = False\<rparr>, r)
         else let ok = suspend_thread_answer env (call_log r) os; r = call_out (Suspend_Thread os ok) r
              in if ok then (\<lparr>threadHandle = Some os, suspended = True\<rparr>, r)
                 else (\<lparr>threadHandle = None, suspended = False\<rparr>, call_out (Close_Thread os) r))"

definition release_thread :: "scoped_suspend \<Rightarrow> capture_run \<Rightarrow> capture_run" where
  "release_thread g r =
     (case threadHandle g of
        None \<Rightarrow> r
      | Some os \<Rightarrow> call_out (Close_Thread os) (if suspended g then call_out (Resume_Thread os) r else r))"

definition move_guard :: "scoped_suspend \<Rightarrow> scoped_suspend \<times> scoped_suspend" where
  "move_guard other = (other, \<lparr>threadHandle = None, suspended = False\<rparr>)"

definition assign_guard :: "scoped_suspend \<Rightarrow> scoped_suspend \<Rightarrow> capture_run \<Rightarrow> scoped_suspend \<times> scoped_suspend \<times> capture_run" where
  "assign_guard this_guard other r = (case move_guard other of (new, old) \<Rightarrow> (new, old, release_thread this_guard r))"

definition GetContext_thread :: "walker_env \<Rightarrow> scoped_suspend \<Rightarrow> capture_run \<Rightarrow> cpu_context option \<times> capture_run" where
  "GetContext_thread env g r =
     (case threadHandle g of
        None \<Rightarrow> (None, r)
      | Some os \<Rightarrow>
          if \<not> suspended g then (None, r)
          else let answer = context_answer env (call_log r) os in (answer, call_out (Get_Context os (answer \<noteq> None)) r))"

section \<open>Walking native frames\<close>

record walk_result =
  walk_hr :: hresult
  seedCtx :: "cpu_context option"
  nativeFrameCount :: nat

definition kMaxDepth :: nat where "kMaxDepth = 512"

definition native_frame :: "rtl_lookup \<Rightarrow> bool option \<Rightarrow> u64 \<Rightarrow> captured_frame \<Rightarrow> captured_frame" where
  "native_frame l classification rip f =
     f\<lparr>functionId := 0, instructionPointer := frameIp l classification rip, frameInfo := 0, contextSize := 0, isUnmanagedFrame := True\<rparr>"

text \<open>How the loop ends: after a fault or an exception, or with a result. A result without a seed is a success once there are frames.\<close>

definition walk_faulted :: "nat \<Rightarrow> walk_result" where
  "walk_faulted n = \<lparr>walk_hr = (if n > 0 then S_OK else E_FAIL), seedCtx = None, nativeFrameCount = n\<rparr>"

definition walk_ended :: "hresult \<Rightarrow> nat \<Rightarrow> walk_result" where
  "walk_ended hr n = \<lparr>walk_hr = (if n > 0 then S_OK else hr), seedCtx = None, nativeFrameCount = n\<rparr>"

text \<open>One frame is unwound; \<open>None\<close> is a fault, \<open>Some None\<close> the end of the stack.\<close>

definition unwind_native :: "walker_env \<Rightarrow> call list \<Rightarrow> rtl_lookup \<Rightarrow> cpu_context \<Rightarrow> cpu_context option option" where
  "unwind_native env cs l ctx =
     (case rtFunc l of
        None \<Rightarrow>
          if Rsp ctx = 0 then Some None
          else map_option (\<lambda>w. Some (ctx\<lparr>Rip := w, Rsp := Rsp ctx + 8\<rparr>)) (stack_answer env cs (Rsp ctx))
      | Some _ \<Rightarrow> map_option Some (unwind_answer env cs l ctx))"

fun native_walk :: "walker_env \<Rightarrow> nat \<Rightarrow> cpu_context \<Rightarrow> nat \<Rightarrow> capture_run \<Rightarrow> walk_result \<times> capture_run" where
  "native_walk env 0 ctx n r = (walk_ended E_FAIL n, r)"
| "native_walk env (Suc depth) ctx n r =
     (if Rip ctx = 0 then (walk_ended E_FAIL n, r)
      else let r = call_out (Look_Up (Rip ctx)) r
           in case function_answer env (call_log r) (Rip ctx) of
                None \<Rightarrow> (walk_faulted n, call_out Write_Log r)
              | Some (fnHr, managedFuncId) \<Rightarrow>
                  if SUCCEEDED fnHr \<and> managedFuncId \<noteq> 0
                  then (\<lparr>walk_hr = S_OK, seedCtx = Some ctx, nativeFrameCount = n\<rparr>, r)
                  else case lookup_answer env (call_log r) (Rip ctx) of
                         None \<Rightarrow> (walk_faulted n, call_out Write_Log r)
                       | Some l \<Rightarrow>
                           case (if imageBase l \<noteq> 0 then system_module_answer env (call_log r) (imageBase l) else Some None) of
                             None \<Rightarrow> (walk_faulted n, call_out Write_Log r)
                           | Some classification \<Rightarrow>
                               case InvokeCallback env (r\<lparr>cb_frame := native_frame l classification (Rip ctx) (cb_frame r)\<rparr>) of
                                 (None, r) \<Rightarrow> (walk_faulted n, call_out Write_Log r)
                               | (Some cb, r) \<Rightarrow>
                                   if cb \<noteq> S_OK then (walk_ended (if cb = S_FALSE then S_OK else cb) n, r)
                                   else case unwind_native env (call_log r) l ctx of
                                          None \<Rightarrow> (walk_faulted (n + 1), call_out Write_Log r)
                                        | Some None \<Rightarrow> (walk_ended E_FAIL (n + 1), r)
                                        | Some (Some ctx') \<Rightarrow>
                                            if Rip ctx' = Rip ctx then (walk_ended E_FAIL (n + 1), r)
                                            else native_walk env depth ctx' (n + 1) r)"

definition WalkNativeUntilManaged :: "walker_env \<Rightarrow> cpu_context \<Rightarrow> capture_run \<Rightarrow> walk_result \<times> capture_run" where
  "WalkNativeUntilManaged env ctx r = native_walk env kMaxDepth ctx 0 r"

definition IssueSeededDss :: "walker_env \<Rightarrow> u64 \<Rightarrow> cpu_context \<Rightarrow> capture_run \<Rightarrow> hresult option \<times> capture_run" where
  "IssueSeededDss env tid seed r =
     (case DoStackSnapshot env tid (Some seed) r of
        (None, r) \<Rightarrow> (None, r)
      | (Some hr, r) \<Rightarrow> (Some (if hr = CORPROF_E_STACKSNAPSHOT_ABORTED then S_OK else hr), r))"

definition ContinueFromProbedFrame0 :: "walker_env \<Rightarrow> u64 \<Rightarrow> cpu_context \<Rightarrow> captured_frame \<Rightarrow> capture_run \<Rightarrow> hresult option \<times> capture_run" where
  "ContinueFromProbedFrame0 env tid ctx frame0 r =
     (if \<not> isUnmanagedFrame frame0
      then IssueSeededDss env tid ctx (call_out Write_Log (set_thread tid r))
      else case InvokeCallback env (set_thread tid ((call_out Write_Log r)\<lparr>cb_frame := frame0\<rparr>)) of
             (None, r) \<Rightarrow> (None, r)
           | (Some cbHr, r) \<Rightarrow>
               if cbHr = S_FALSE then (Some S_OK, r)
               else if FAILED cbHr then (Some cbHr, r)
               else case WalkNativeUntilManaged env ctx r of
                      (walkResult, r) \<Rightarrow>
                        if FAILED (walk_hr walkResult) \<and> nativeFrameCount walkResult = 0 then (Some (walk_hr walkResult), r)
                        else case seedCtx walkResult of
                               None \<Rightarrow> (Some (walk_hr walkResult), call_out Write_Log r)
                             | Some seed \<Rightarrow>
                                 (case IssueSeededDss env tid seed r of
                                    (None, r) \<Rightarrow> (None, r)
                                  | (Some hr, r) \<Rightarrow> (Some hr, call_out Write_Log r)))"

section \<open>One thread\<close>

text \<open>What is thrown inside the scope of the guards: a failed probe, caught outside; an exception of the callback passes by.\<close>

type_synonym scoped = "(ProbeResult + hresult option) \<times> capture_run"

definition rtl_probe :: "walker_env \<Rightarrow> cpu_context \<Rightarrow> capture_run \<Rightarrow> (ProbeResult + cpu_context \<times> captured_frame) \<times> capture_run" where
  "rtl_probe env ctx r =
     (case rtl_probe_answer env (call_log r) ctx of
        None \<Rightarrow> (Inl ProbeFailed, r)
      | Some (result, ctx', frame0) \<Rightarrow>
          (if result \<noteq> ProbeSuccess then Inl result else Inr (ctx', frame0), call_out (Rtl_Probe result) r))"

definition canary_probe :: "walker_env \<Rightarrow> u64 \<Rightarrow> capture_run \<Rightarrow> ProbeResult option \<times> capture_run" where
  "canary_probe env managedId r =
     (case canary_probe_answer env (call_log r) managedId of
        None \<Rightarrow> (Some ProbeFailed, r)
      | Some result \<Rightarrow> (if result \<noteq> ProbeSuccess then Some result else None, call_out (Canary_Probe managedId result) r))"

definition lift_run :: "hresult option \<times> capture_run \<Rightarrow> scoped" where
  "lift_run x = (Inr (fst x), snd x)"

definition clr_guarded :: "walker_env \<Rightarrow> u64 \<Rightarrow> scoped_suspend \<Rightarrow> capture_run \<Rightarrow> scoped" where
  "clr_guarded env tid target r =
     (if \<not> suspended target then (Inl ProbeFailed, r)
      else case GetContext_thread env target r of
             (None, r) \<Rightarrow> (Inl ProbeFailed, r)
           | (Some ctx, r) \<Rightarrow>
               (case rtl_probe env ctx r of
                  (Inl result, r) \<Rightarrow> (Inl result, r)
                | (Inr (ctx, frame0), r) \<Rightarrow> lift_run (ContinueFromProbedFrame0 env tid ctx frame0 r)))"

definition clr_CaptureStack :: "walker_env \<Rightarrow> u64 \<Rightarrow> capture_run \<Rightarrow> hresult option \<times> capture_run" where
  "clr_CaptureStack env tid r =
     (case DoStackSnapshot_unseeded env tid r of
        (None, r) \<Rightarrow> (None, r)
      | (Some hr, r) \<Rightarrow>
          if SUCCEEDED hr then (Some hr, r)
          else let r = call_out Write_Log r
               in case thread_info_answer env (call_log r) tid of
                    (osHr, osThreadId) \<Rightarrow>
                      let r = call_out (Thread_Info tid osHr osThreadId) r
                      in if FAILED osHr \<or> osThreadId = 0 then (Some hr, call_out Write_Log r)
                         else case ScopedThreadSuspend env osThreadId r of
                                (target, r) \<Rightarrow>
                                  (case clr_guarded env tid target r of
                                     (Inr result, r) \<Rightarrow> (result, release_thread target r)
                                   | (Inl probe, r) \<Rightarrow> (Some hr, call_out Write_Log (release_thread target r))))"

definition netfx_probed :: "walker_env \<Rightarrow> u64 \<Rightarrow> u64 \<Rightarrow> scoped_suspend \<Rightarrow> capture_run \<Rightarrow> scoped" where
  "netfx_probed env tid canaryId target r =
     (case GetContext_thread env target r of
        (None, r) \<Rightarrow> (Inl ProbeFailed, r)
      | (Some ctx, r) \<Rightarrow>
          (case rtl_probe env ctx r of
             (Inl result, r) \<Rightarrow> (Inl result, r)
           | (Inr (ctx, frame0), r) \<Rightarrow>
               (case canary_probe env canaryId r of
                  (Some result, r) \<Rightarrow> (Inl result, r)
                | (None, r) \<Rightarrow> lift_run (ContinueFromProbedFrame0 env tid ctx frame0 r))))"

definition netfx_guarded :: "walker_env \<Rightarrow> u64 \<Rightarrow> u64 \<times> u32 \<Rightarrow> scoped_suspend \<Rightarrow> capture_run \<Rightarrow> scoped" where
  "netfx_guarded env tid canary_id target r =
     (if \<not> suspended target then (Inl ProbeFailed, r)
      else case ScopedThreadSuspend env (snd canary_id) r of
             (canaryGuard, r) \<Rightarrow>
               (case (if \<not> suspended canaryGuard then (Inl ProbeFailed, r) else netfx_probed env tid (fst canary_id) target r) of
                  (result, r) \<Rightarrow> (result, release_thread canaryGuard r)))"

definition canary_valid :: "u64 \<times> u32 \<Rightarrow> bool" where
  "canary_valid c \<longleftrightarrow> fst c \<noteq> 0 \<and> snd c \<noteq> 0"

definition netfx_CaptureStack :: "walker_env \<Rightarrow> u64 \<Rightarrow> capture_run \<Rightarrow> hresult option \<times> capture_run" where
  "netfx_CaptureStack env tid r =
     (let canary_id = canary_now env (call_log r)
      in if \<not> canary_valid canary_id then (Some E_FAIL, call_out Write_Log r)
         else if fst canary_id = tid then (Some S_FALSE, r)
         else case thread_info_answer env (call_log r) tid of
                (hr, osThreadId) \<Rightarrow>
                  let r = call_out (Thread_Info tid hr osThreadId) r
                  in if FAILED hr \<or> osThreadId = 0 then (Some (if FAILED hr then hr else E_FAIL), call_out Write_Log r)
                     else case ScopedThreadSuspend env osThreadId r of
                            (target, r) \<Rightarrow>
                              (case netfx_guarded env tid canary_id target r of
                                 (Inr result, r) \<Rightarrow> (result, release_thread target r)
                               | (Inl probe, r) \<Rightarrow> (Some E_FAIL, call_out Write_Log (release_thread target r))))"

section \<open>All threads\<close>

datatype runtime_kind = Clr | NetFx

definition SuspendRuntime :: "walker_env \<Rightarrow> runtime_kind \<Rightarrow> capture_run \<Rightarrow> hresult \<times> capture_run" where
  "SuspendRuntime env k r =
     (case k of
        NetFx \<Rightarrow> (S_OK, r)
      | Clr \<Rightarrow>
          if \<not> has_api env then (E_FAIL, r)
          else let hr = suspend_answer env (call_log r); r = call_out (Suspend_Runtime hr) r
               in (hr, if FAILED hr then call_out Write_Log r else r))"

definition ResumeRuntime :: "walker_env \<Rightarrow> runtime_kind \<Rightarrow> capture_run \<Rightarrow> capture_run" where
  "ResumeRuntime env k r = (case k of NetFx \<Rightarrow> r | Clr \<Rightarrow> if \<not> has_api env then r else call_out Resume_Runtime r)"

definition CaptureStack :: "walker_env \<Rightarrow> runtime_kind \<Rightarrow> u64 \<Rightarrow> capture_run \<Rightarrow> hresult option \<times> capture_run" where
  "CaptureStack env k = (case k of Clr \<Rightarrow> clr_CaptureStack env | NetFx \<Rightarrow> netfx_CaptureStack env)"

fun capture_threads :: "walker_env \<Rightarrow> runtime_kind \<Rightarrow> u64 list \<Rightarrow> hresult \<Rightarrow> capture_run \<Rightarrow> hresult option \<times> capture_run" where
  "capture_threads env k [] captureResult r = (Some (if SUCCEEDED captureResult then S_OK else captureResult), r)"
| "capture_threads env k (tid # tids) captureResult r =
     (if stopping_seen env (call_log r) then (Some S_FALSE, r)
      else case CaptureStack env k tid r of
             (None, r) \<Rightarrow> (None, r)
           | (Some frameHr, r) \<Rightarrow>
               if stopping_seen env (call_log r) \<or> cancellationRequested r then (Some S_FALSE, r)
               else capture_threads env k tids (if FAILED frameHr \<and> SUCCEEDED captureResult then frameHr else captureResult) r)"

text \<open>The guard of the runtime resumes it on every way out, before an exception is reported.\<close>

definition CaptureStacks :: "walker_env \<Rightarrow> runtime_kind \<Rightarrow> u64 list \<Rightarrow> capture_run \<Rightarrow> hresult \<times> capture_run" where
  "CaptureStacks env k threads r =
     (if stopping_seen env (call_log r) then (S_FALSE, r)
      else if threads = [] then (S_OK, r)
      else case SuspendRuntime env k r of
             (hr, r) \<Rightarrow>
               if FAILED hr then (E_FAIL, call_out Write_Log r)
               else case (if stopping_seen env (call_log r) then (Some S_FALSE, r) else capture_threads env k threads S_OK r) of
                      (Some result, r) \<Rightarrow> (result, ResumeRuntime env k r)
                    | (None, r) \<Rightarrow> (E_FAIL, call_out Write_Log (ResumeRuntime env k r)))"

text \<open>The facade of the sampling loop, with a context of its own for each request.\<close>

definition walker_CaptureStacks :: "walker_env \<Rightarrow> runtime_kind option \<Rightarrow> bool \<Rightarrow> u64 list \<Rightarrow> call list \<Rightarrow> hresult \<times> call list" where
  "walker_CaptureStacks env capturer has_callback threads cs =
     (case capturer of
        None \<Rightarrow> (E_FAIL, cs)
      | Some k \<Rightarrow>
          if \<not> has_callback then (E_INVALIDARG, cs)
          else map_prod id call_log (CaptureStacks env k threads \<lparr>call_log = cs, cb_frame = empty_frame, cancellationRequested = False\<rparr>))"

section \<open>Shutdown\<close>

text \<open>The stop flag of the capturer with the guard of its runtime; the first request is passed on.\<close>

definition capturer_RequestShutdown :: "bool \<times> guard \<Rightarrow> bool \<times> guard" where
  "capturer_RequestShutdown s = (case s of (stopping, g) \<Rightarrow> if stopping then (stopping, g) else (True, RequestShutdown g))"

definition capturer_IsReady :: "guard \<Rightarrow> bool option" where
  "capturer_IsReady g = WaitForInitialization g"

text \<open>A capturer that was asked to stop is never ready again, and asking again changes nothing.\<close>

lemma capturer_stopped:
  assumes "capturer_RequestShutdown s = (stopping, g)" "\<not> fst s"
  shows "stopping" "capturer_IsReady g = Some False" "capturer_RequestShutdown (stopping, g) = (stopping, g)"
  using assms by (auto simp: capturer_RequestShutdown_def capturer_IsReady_def RequestShutdown_def WaitForInitialization_def split: prod.splits if_splits)

end
