(* ===== verification/Native_Walk.thy ===== *)
theory Native_Walk
  imports Stack_Capture
begin

text \<open>
  What the walk of native frames delivers: the probed frame, the native frames up to the first managed one, and from there the
  frames of the runtime, in this order; at most 512 native frames; and what becomes of an answer of the callback.
\<close>

section \<open>Delivered frames\<close>

definition frames_delivered :: "call list \<Rightarrow> captured_frame list" where
  "frames_delivered cs = concat (map (\<lambda>c. case c of Frame f _ \<Rightarrow> [f] | _ \<Rightarrow> []) cs)"

lemma frames_delivered_append [simp]: "frames_delivered (cs @ ds) = frames_delivered cs @ frames_delivered ds"
  by (simp add: frames_delivered_def)

lemma frames_call_out [simp]:
  "frames_delivered (call_log (call_out (Frame f a) r)) = frames_delivered (call_log r) @ [f]"
  "frames_delivered (call_log (call_out (Look_Up ip) r)) = frames_delivered (call_log r)"
  "frames_delivered (call_log (call_out Write_Log r)) = frames_delivered (call_log r)"
  "frames_delivered (call_log (call_out (Snapshot t s) r)) = frames_delivered (call_log r)"
  "frames_delivered (call_log (set_thread t r)) = frames_delivered (call_log r)"
  by (simp_all add: call_out_def set_thread_def frames_delivered_def)

lemma cb_call_out [simp]: "cb_frame (call_out c r) = cb_frame r" "cb_frame (set_thread t r) = (cb_frame r)\<lparr>frame_threadId := t\<rparr>"
  by (simp_all add: call_out_def set_thread_def)

text \<open>Answers that do not change with the calls before, and a callback that takes every frame.\<close>

definition steady :: "walker_env \<Rightarrow> bool" where
  "steady env \<longleftrightarrow> (\<forall>cs. function_answer env cs = function_answer env [] \<and> lookup_answer env cs = lookup_answer env [] \<and>
     system_module_answer env cs = system_module_answer env [] \<and> stack_answer env cs = stack_answer env [] \<and>
     unwind_answer env cs = unwind_answer env [] \<and> snapshot_frames env cs = snapshot_frames env [])"

definition takes_all :: "walker_env \<Rightarrow> bool" where
  "takes_all env \<longleftrightarrow> (\<forall>cs f. callback env cs f = Some S_OK)"

lemma unwind_steady: "steady env \<Longrightarrow> unwind_native env cs l ctx = unwind_native env [] l ctx"
  unfolding steady_def unwind_native_def by metis

definition managed_at :: "walker_env \<Rightarrow> u64 \<Rightarrow> bool" where
  "managed_at env ip \<longleftrightarrow> (\<exists>hr f. function_answer env [] ip = Some (hr, f) \<and> SUCCEEDED hr \<and> f \<noteq> 0)"

definition classification_at :: "walker_env \<Rightarrow> rtl_lookup \<Rightarrow> bool option option" where
  "classification_at env l = (if imageBase l \<noteq> 0 then system_module_answer env [] (imageBase l) else Some None)"

text \<open>
  The contexts of a stack from the first unwound frame to the first managed one: each but the last is native and unwinds to the
  next. They give the addresses under which native frames are reported.
\<close>

fun native_path :: "walker_env \<Rightarrow> cpu_context list \<Rightarrow> bool" where
  "native_path env [] = False"
| "native_path env [c] = (Rip c \<noteq> 0 \<and> managed_at env (Rip c))"
| "native_path env (c # d # cs) =
     (Rip c \<noteq> 0 \<and> function_answer env [] (Rip c) \<noteq> None \<and> \<not> managed_at env (Rip c) \<and> Rip d \<noteq> Rip c \<and>
      (case lookup_answer env [] (Rip c) of
         None \<Rightarrow> False
       | Some l \<Rightarrow> classification_at env l \<noteq> None \<and> unwind_native env [] l c = Some (Some d)) \<and>
      native_path env (d # cs))"

definition native_address :: "walker_env \<Rightarrow> cpu_context \<Rightarrow> u64" where
  "native_address env c =
     (case lookup_answer env [] (Rip c) of
        None \<Rightarrow> Rip c
      | Some l \<Rightarrow> (case classification_at env l of None \<Rightarrow> Rip c | Some classification \<Rightarrow> frameIp l classification (Rip c)))"

definition native_captured :: "u64 \<Rightarrow> u64 \<Rightarrow> captured_frame" where
  "native_captured tid ip = \<lparr>functionId = 0, instructionPointer = ip, frameInfo = 0, contextSize = 0, frame_threadId = tid, isUnmanagedFrame = True\<rparr>"

definition runtime_captured :: "u64 \<Rightarrow> runtime_frame \<Rightarrow> captured_frame" where
  "runtime_captured tid f = \<lparr>functionId = rf_function f, instructionPointer = rf_ip f, frameInfo = rf_info f, contextSize = rf_contextSize f,
     frame_threadId = tid, isUnmanagedFrame = (rf_function f = 0 \<and> rf_ip f \<noteq> 0)\<rparr>"

lemma native_frame_captured: "native_frame l c ip f = native_captured (frame_threadId f) (frameIp l c ip)"
  by (cases f) (simp add: native_frame_def native_captured_def)

section \<open>The walk\<close>

lemma InvokeCallback_taken:
  assumes "takes_all env"
  shows "InvokeCallback env r = (Some S_OK, call_out (Frame (cb_frame r) (Some S_OK)) r)"
  using assms by (simp add: InvokeCallback_def takes_all_def S_OK_def S_FALSE_def Let_def)

lemma deliver_taken:
  assumes "takes_all env"
  shows "\<exists>r'. deliver env fs r = (Some (), r') \<and> frame_threadId (cb_frame r') = frame_threadId (cb_frame r) \<and>
    frames_delivered (call_log r') = frames_delivered (call_log r) @ map (runtime_captured (frame_threadId (cb_frame r))) fs"
proof (induction fs arbitrary: r)
  case (Cons f fs)
  let ?f = "(cb_frame r)\<lparr>functionId := rf_function f, instructionPointer := rf_ip f, frameInfo := rf_info f,
       contextSize := rf_contextSize f, isUnmanagedFrame := (rf_function f = 0 \<and> rf_ip f \<noteq> 0)\<rparr>"
  have "?f = runtime_captured (frame_threadId (cb_frame r)) f" by (cases "cb_frame r") (simp add: runtime_captured_def)
  then have cb: "StackSnapshotCallbackDefault env f r =
      (Some S_OK, call_out (Frame (runtime_captured (frame_threadId (cb_frame r)) f) (Some S_OK)) (r\<lparr>cb_frame := runtime_captured (frame_threadId (cb_frame r)) f\<rparr>))"
    by (simp add: StackSnapshotCallbackDefault_def InvokeCallback_taken [OF assms])
  have tid: "frame_threadId (runtime_captured t f) = t" for t by (simp add: runtime_captured_def)
  from Cons [of "call_out (Frame (runtime_captured (frame_threadId (cb_frame r)) f) (Some S_OK)) (r\<lparr>cb_frame := runtime_captured (frame_threadId (cb_frame r)) f\<rparr>)"]
  show ?case by (auto simp: cb tid)
qed simp

lemma steadyD:
  assumes "steady env"
  shows "function_answer env cs = function_answer env []" "lookup_answer env cs = lookup_answer env []"
    "system_module_answer env cs = system_module_answer env []" "snapshot_frames env cs = snapshot_frames env []"
  using assms unfolding steady_def by blast+

lemma native_walk_step:
  assumes "steady env" "takes_all env" "Rip c \<noteq> 0" "function_answer env [] (Rip c) = Some (hr, f)" "\<not> (SUCCEEDED hr \<and> f \<noteq> 0)"
    and "lookup_answer env [] (Rip c) = Some l" "classification_at env l = Some cl" "unwind_native env [] l c = Some (Some d)" "Rip d \<noteq> Rip c"
    and F: "F = native_captured (frame_threadId (cb_frame r)) (frameIp l cl (Rip c))"
  shows "native_walk env (Suc depth) c n r =
    native_walk env depth d (n + 1) (call_out (Frame F (Some S_OK)) ((call_out (Look_Up (Rip c)) r)\<lparr>cb_frame := F\<rparr>))"
proof -
  have cl: "(if imageBase l \<noteq> 0 then system_module_answer env cs (imageBase l) else Some None) = Some cl" for cs
    using assms(7) steadyD(3) [OF assms(1), of cs] by (cases "imageBase l = 0") (simp_all add: classification_at_def)
  have f: "native_frame l cl (Rip c) (cb_frame (call_out (Look_Up (Rip c)) r)) = F" by (simp add: F native_frame_captured)
  let ?look = "call_out (Look_Up (Rip c)) r"
  let ?cs = "call_log ?look" and ?cs' = "call_log (call_out (Frame F (Some S_OK)) (?look\<lparr>cb_frame := F\<rparr>))"
  have "function_answer env ?cs (Rip c) = Some (hr, f)" "lookup_answer env ?cs (Rip c) = Some l" "unwind_native env ?cs' l c = Some (Some d)"
    using steadyD(1,2) [OF assms(1), of ?cs] unwind_steady [OF assms(1), of ?cs'] assms(4,6,8) by simp_all
  moreover have "cb_frame (?look\<lparr>cb_frame := F\<rparr>) = F" by simp
  ultimately show ?thesis
    unfolding native_walk.simps Let_def
    using assms(3,5,9) by (simp only: cl f InvokeCallback_taken [OF assms(2)] option.case prod.case if_False capture_run.simps simp_thms)
qed

lemma native_walk_path:
  assumes "steady env" "takes_all env" "native_path env cs" "length cs \<le> depth"
  shows "\<exists>r'. native_walk env depth (hd cs) n r = (\<lparr>walk_hr = S_OK, seedCtx = Some (last cs), nativeFrameCount = n + length cs - 1\<rparr>, r') \<and>
    frame_threadId (cb_frame r') = frame_threadId (cb_frame r) \<and>
    frames_delivered (call_log r') = frames_delivered (call_log r) @ map (native_captured (frame_threadId (cb_frame r)) \<circ> native_address env) (butlast cs)"
  using assms
proof (induction env cs arbitrary: depth n r rule: native_path.induct)
  case (2 env c)
  then obtain depth' where depth: "depth = Suc depth'" by (cases depth) auto
  obtain hr f where "function_answer env [] (Rip c) = Some (hr, f)" "SUCCEEDED hr" "f \<noteq> 0" "Rip c \<noteq> 0"
    using 2 by (auto simp: managed_at_def)
  then have "native_walk env depth c n r = (\<lparr>walk_hr = S_OK, seedCtx = Some c, nativeFrameCount = n\<rparr>, call_out (Look_Up (Rip c)) r)"
    unfolding depth native_walk.simps Let_def using steadyD(1) [OF 2(1), of "call_log (call_out (Look_Up (Rip c)) r)"] by simp
  then show ?case by simp
next
  case (3 env c d cs)
  then obtain depth' where depth: "depth = Suc depth'" "length (d # cs) \<le> depth'" by (cases depth) auto
  from 3(4) obtain hr f l cl where p: "Rip c \<noteq> 0" "function_answer env [] (Rip c) = Some (hr, f)" "\<not> (SUCCEEDED hr \<and> f \<noteq> 0)" "Rip d \<noteq> Rip c"
      "lookup_answer env [] (Rip c) = Some l" "classification_at env l = Some cl" "unwind_native env [] l c = Some (Some d)"
      "native_path env (d # cs)"
    by (auto simp: managed_at_def split: option.splits)
  let ?F = "native_captured (frame_threadId (cb_frame r)) (frameIp l cl (Rip c))"
  have tid: "frame_threadId ?F = frame_threadId (cb_frame r)" by (simp add: native_captured_def)
  have "native_address env c = frameIp l cl (Rip c)" using p by (simp add: native_address_def)
  then show ?case
    using 3(1) [OF 3(2,3) p(8) depth(2), of "n + 1" "call_out (Frame ?F (Some S_OK)) ((call_out (Look_Up (Rip c)) r)\<lparr>cb_frame := ?F\<rparr>)"]
      native_walk_step [OF 3(2,3) p(1,2,3,5,6,7,4) refl, of depth' n r]
    by (simp add: depth(1) tid del: native_walk.simps)
qed simp

lemma DoStackSnapshot_taken:
  assumes "steady env" "takes_all env"
  shows "\<exists>hr r'. DoStackSnapshot env tid seed r = (Some hr, r') \<and>
    frames_delivered (call_log r') = frames_delivered (call_log r) @ map (runtime_captured (frame_threadId (cb_frame r))) (snapshot_frames env [] tid seed)"
proof -
  let ?r = "call_out (Snapshot tid seed) r"
  obtain r' where "deliver env (snapshot_frames env [] tid seed) ?r = (Some (), r')"
    "frames_delivered (call_log r') = frames_delivered (call_log ?r) @ map (runtime_captured (frame_threadId (cb_frame ?r))) (snapshot_frames env [] tid seed)"
    using deliver_taken [OF assms(2), of "snapshot_frames env [] tid seed" ?r] by blast
  then show ?thesis using steadyD(4) [OF assms(1), of "call_log ?r"] by (simp add: DoStackSnapshot_def Let_def)
qed

lemma IssueSeededDss_taken:
  assumes "steady env" "takes_all env"
  shows "\<exists>hr r'. IssueSeededDss env tid seed r = (Some hr, r') \<and>
    frames_delivered (call_log r') = frames_delivered (call_log r) @ map (runtime_captured (frame_threadId (cb_frame r))) (snapshot_frames env [] tid (Some seed))"
  using DoStackSnapshot_taken [OF assms, of tid "Some seed" r] by (auto simp: IssueSeededDss_def)

text \<open>C22: a stack that begins in native code is delivered whole and in order. If the contexts from the first unwound frame lead to
  managed code within 512 native frames and the callback takes every frame, then the probed frame comes first, the native frames
  follow, each at its address, and the frames the runtime finds from the managed context come last, all under the thread that is
  walked.\<close>

theorem native_stack_delivered:
  assumes "steady env" "takes_all env" "native_path env cs" "length cs \<le> 512" "isUnmanagedFrame frame0"
  shows "\<exists>hr r'. ContinueFromProbedFrame0 env tid (hd cs) frame0 r = (Some hr, r') \<and>
    frames_delivered (call_log r') = frames_delivered (call_log r) @
      [frame0\<lparr>frame_threadId := tid\<rparr>] @
      map (native_captured tid \<circ> native_address env) (butlast cs) @
      map (runtime_captured tid) (snapshot_frames env [] tid (Some (last cs)))"
proof -
  let ?f = "frame0\<lparr>frame_threadId := tid\<rparr>"
  let ?r = "call_out (Frame ?f (Some S_OK)) (set_thread tid ((call_out Write_Log r)\<lparr>cb_frame := frame0\<rparr>))"
  have cb: "InvokeCallback env (set_thread tid ((call_out Write_Log r)\<lparr>cb_frame := frame0\<rparr>)) = (Some S_OK, ?r)"
    by (simp add: InvokeCallback_taken [OF assms(2)])
  obtain r2 where r2: "native_walk env kMaxDepth (hd cs) 0 ?r = (\<lparr>walk_hr = S_OK, seedCtx = Some (last cs), nativeFrameCount = 0 + length cs - 1\<rparr>, r2)"
    "frame_threadId (cb_frame r2) = tid"
    "frames_delivered (call_log r2) = frames_delivered (call_log ?r) @ map (native_captured tid \<circ> native_address env) (butlast cs)"
    using native_walk_path [OF assms(1-3), of kMaxDepth 0 ?r] assms(4) by (auto simp: kMaxDepth_def)
  obtain hr r3 where r3: "IssueSeededDss env tid (last cs) r2 = (Some hr, r3)"
    "frames_delivered (call_log r3) = frames_delivered (call_log r2) @ map (runtime_captured tid) (snapshot_frames env [] tid (Some (last cs)))"
    using IssueSeededDss_taken [OF assms(1,2), of tid "last cs" r2] r2(2) by auto
  have "S_OK \<noteq> S_FALSE" by (simp add: S_OK_def S_FALSE_def)
  then have "ContinueFromProbedFrame0 env tid (hd cs) frame0 r = (Some hr, call_out Write_Log r3)"
    using assms(5) by (simp add: ContinueFromProbedFrame0_def cb WalkNativeUntilManaged_def r2(1) r3(1))
  moreover have "frames_delivered (call_log ?r) = frames_delivered (call_log r) @ [?f]" by simp
  ultimately show ?thesis using r2(3) r3(2) by auto
qed

text \<open>No walk delivers more than 512 native frames, whatever is answered.\<close>

lemma native_walk_bounded: "nativeFrameCount (fst (native_walk env depth ctx n r)) \<le> n + depth"
proof (induction depth arbitrary: ctx n r)
  case (Suc depth)
  have "nativeFrameCount (fst (native_walk env depth c (n + 1) r)) \<le> n + Suc depth" for c r using Suc [of c "n + 1" r] by simp
  then show ?case
    unfolding native_walk.simps Let_def case_prod_beta
    by (simp add: walk_ended_def walk_faulted_def split: option.split del: native_walk.simps)
qed (simp add: walk_ended_def)

section \<open>Where the answers of the callback are lost\<close>

text \<open>
  The walk is to propagate a failure of the callback to its caller. It does so for the first native frame; once a frame
  was taken, the failure becomes a success.
\<close>

lemma failure_overwritten: "walk_hr (walk_ended hr n) = (if n > 0 then S_OK else hr)"
  by (simp add: walk_ended_def)

text \<open>
  A seeded snapshot that the callback ended counts as a success. The unseeded snapshot of the CLR does not: ended by the
  callback because of a shutdown, it is taken for a failure, and the fallback goes on to suspend and probe the thread.
\<close>

lemma cancelled_snapshot_falls_back:
  assumes "snapshot_frames env (call_log r @ [Snapshot tid None]) tid None = [f]" "\<And>cs fr. callback env cs fr = Some S_FALSE"
    and "\<And>cs. snapshot_answer env cs = CORPROF_E_STACKSNAPSHOT_ABORTED" "\<And>cs. thread_info_answer env cs tid = (S_OK, 7)" "\<And>cs. open_answer env cs 7"
    and "\<And>cs. suspend_thread_answer env cs 7" "\<And>cs. context_answer env cs 7 = None"
  shows "\<exists>fr. call_log (snd (clr_CaptureStack env tid r)) = call_log r @
    [Snapshot tid None, Frame fr (Some S_FALSE), Write_Log, Thread_Info tid S_OK 7, Open_Thread 7 True, Suspend_Thread 7 True,
     Get_Context 7 False, Resume_Thread 7, Close_Thread 7, Write_Log]"
proof -
  have "\<not> SUCCEEDED CORPROF_E_STACKSNAPSHOT_ABORTED" "S_FALSE \<noteq> S_OK"
    by (simp_all add: CORPROF_E_STACKSNAPSHOT_ABORTED_def SUCCEEDED_def S_OK_def S_FALSE_def)
  then show ?thesis
    by (simp add: clr_CaptureStack_def DoStackSnapshot_unseeded_def DoStackSnapshot_def StackSnapshotCallbackDefault_def InvokeCallback_def
      ScopedThreadSuspend_def clr_guarded_def GetContext_thread_def release_thread_def call_out_def set_thread_def Let_def assms)
qed

section \<open>An example\<close>

definition demo_context :: cpu_context where
  "demo_context = \<lparr>Rip = 100, Rsp = 8, other_registers = []\<rparr>"

definition demo_walker :: walker_env where
  "demo_walker = \<lparr>has_api = True, stopping_seen = (\<lambda>_. False), suspend_answer = (\<lambda>_. S_OK), thread_info_answer = (\<lambda>_ _. (S_OK, 7)),
     open_answer = (\<lambda>_ _. True), suspend_thread_answer = (\<lambda>_ _. True), context_answer = (\<lambda>_ _. Some demo_context),
     rtl_probe_answer = (\<lambda>_ _. Some (ProbeSuccess, demo_context, native_captured 0 90)), canary_probe_answer = (\<lambda>_ _. Some ProbeSuccess),
     canary_now = (\<lambda>_. (9, 3)), snapshot_frames = (\<lambda>_ _ _. [\<lparr>rf_function = 55, rf_ip = 200, rf_info = 0, rf_contextSize = 0\<rparr>]),
     snapshot_answer = (\<lambda>_. S_OK), function_answer = (\<lambda>_ ip. Some (if ip = 200 then (S_OK, 55) else (E_FAIL, 0))),
     lookup_answer = (\<lambda>_ _. Some \<lparr>imageBase = 0, rtFunc = None\<rparr>), system_module_answer = (\<lambda>_ _. Some None),
     stack_answer = (\<lambda>_ _. Some 200), unwind_answer = (\<lambda>_ _ _. None), callback = (\<lambda>_ _. Some S_OK)\<rparr>"

definition demo_run :: capture_run where
  "demo_run = \<lparr>call_log = [], cb_frame = empty_frame, cancellationRequested = False\<rparr>"

lemma demo_path: "native_path demo_walker [demo_context, demo_context\<lparr>Rip := 200, Rsp := 16\<rparr>]"
  by (simp add: managed_at_def classification_at_def unwind_native_def demo_walker_def demo_context_def)

theorem native_stack_delivered_witness:
  "\<exists>hr r'. ContinueFromProbedFrame0 demo_walker 5 demo_context (native_captured 0 90) demo_run = (Some hr, r') \<and>
     map instructionPointer (frames_delivered (call_log r')) = [90, 100, 200]"
proof -
  have "steady demo_walker" "takes_all demo_walker" by (simp_all add: steady_def takes_all_def demo_walker_def)
  from native_stack_delivered [OF this demo_path, of "native_captured 0 90" 5 demo_run]
  obtain hr r' where r': "ContinueFromProbedFrame0 demo_walker 5 demo_context (native_captured 0 90) demo_run = (Some hr, r')"
    "frames_delivered (call_log r') = frames_delivered (call_log demo_run) @ [(native_captured 0 90)\<lparr>frame_threadId := 5\<rparr>] @
      map (native_captured 5 \<circ> native_address demo_walker) [demo_context] @
      map (runtime_captured 5) (snapshot_frames demo_walker [] 5 (Some (demo_context\<lparr>Rip := 200, Rsp := 16\<rparr>)))"
    by (auto simp: native_captured_def)
  have "map instructionPointer (frames_delivered (call_log r')) = [90, 100, 200]"
    unfolding r'(2) by (simp add: demo_run_def frames_delivered_def native_captured_def native_address_def classification_at_def frameIp_def
      runtime_captured_def demo_walker_def demo_context_def)
  with r'(1) show ?thesis by (intro exI conjI)
qed

end
