(* ===== verification/Capture_Shield.thy ===== *)
theory Capture_Shield
  imports Native_Walk
begin

text \<open>
  What a capture may do when: an automaton over its calls, and the proof that every capture obeys it, whatever the runtime,
  the operating system and the callback answer.
\<close>

section \<open>The specification\<close>

record shield =
  sh_runtime :: bool
  sh_handles :: "u32 list"
  sh_threads :: "u32 list"
  sh_rtl :: bool
  sh_canary :: bool
  sh_target :: "(u64 \<times> u32) option"
  sh_owner :: "u64 option"

definition no_shield :: shield where
  "no_shield = \<lparr>sh_runtime = False, sh_handles = [], sh_threads = [], sh_rtl = False, sh_canary = False, sh_target = None, sh_owner = None\<rparr>"

text \<open>
  A thread's stack may be touched when its operating-system thread is suspended and its probe succeeded: on the CLR with
  the runtime suspended, on the .NET Framework with the canary suspended and probed as well.
\<close>

definition guarded :: "runtime_kind \<Rightarrow> u64 \<Rightarrow> shield \<Rightarrow> bool" where
  "guarded k tid sh \<longleftrightarrow>
     (case sh_target sh of
        None \<Rightarrow> False
      | Some (t, os) \<Rightarrow>
          t = tid \<and> sh_rtl sh \<and>
          (case k of Clr \<Rightarrow> sh_runtime sh \<and> sh_threads sh = [os] | NetFx \<Rightarrow> sh_canary sh \<and> length (sh_threads sh) = 2 \<and> last (sh_threads sh) = os))"

definition deliverable :: "runtime_kind \<Rightarrow> u64 \<Rightarrow> shield \<Rightarrow> bool" where
  "deliverable k tid sh \<longleftrightarrow> k = Clr \<and> sh_runtime sh \<and> sh_threads sh = [] \<or> guarded k tid sh"

text \<open>
  Handles and suspensions nest: a thread is suspended through the handle opened last, resumed before that handle is closed, and
  the runtime is resumed when all handles are closed. A frame bears the thread that is being walked.
\<close>

fun allowed :: "runtime_kind \<Rightarrow> u64 set \<Rightarrow> shield \<Rightarrow> call \<Rightarrow> shield option" where
  "allowed k ts sh (Suspend_Runtime hr) =
     (if k = Clr \<and> \<not> sh_runtime sh \<and> sh_handles sh = [] then Some (sh\<lparr>sh_runtime := SUCCEEDED hr\<rparr>) else None)"
| "allowed k ts sh Resume_Runtime = (if sh_runtime sh \<and> sh_handles sh = [] then Some (sh\<lparr>sh_runtime := False\<rparr>) else None)"
| "allowed k ts sh (Thread_Info tid hr os) =
     (if sh_handles sh = [] \<and> tid \<in> ts then Some (sh\<lparr>sh_target := Some (tid, os), sh_owner := Some tid\<rparr>) else None)"
| "allowed k ts sh (Open_Thread os ok) = Some (if ok then sh\<lparr>sh_handles := os # sh_handles sh\<rparr> else sh)"
| "allowed k ts sh (Suspend_Thread os ok) =
     (if (\<exists>hs. sh_handles sh = os # hs \<and> length hs = length (sh_threads sh))
      then Some (if ok then sh\<lparr>sh_threads := os # sh_threads sh, sh_rtl := False, sh_canary := False\<rparr> else sh) else None)"
| "allowed k ts sh (Resume_Thread os) =
     (if sh_threads sh \<noteq> [] \<and> hd (sh_threads sh) = os \<and> length (sh_handles sh) = length (sh_threads sh)
      then Some (sh\<lparr>sh_threads := tl (sh_threads sh), sh_rtl := False, sh_canary := False\<rparr>) else None)"
| "allowed k ts sh (Close_Thread os) =
     (if (\<exists>hs. sh_handles sh = os # hs \<and> length hs = length (sh_threads sh)) then Some (sh\<lparr>sh_handles := tl (sh_handles sh)\<rparr>) else None)"
| "allowed k ts sh (Get_Context os ok) =
     (if (\<exists>tid. sh_target sh = Some (tid, os)) \<and> os \<in> set (sh_threads sh) then Some sh else None)"
| "allowed k ts sh (Rtl_Probe result) = (if sh_threads sh \<noteq> [] then Some (sh\<lparr>sh_rtl := (result = ProbeSuccess)\<rparr>) else None)"
| "allowed k ts sh (Canary_Probe c result) =
     (if k = NetFx \<and> length (sh_threads sh) = 2 then Some (sh\<lparr>sh_canary := (result = ProbeSuccess)\<rparr>) else None)"
| "allowed k ts sh (Snapshot tid seed) =
     (if tid \<in> ts \<and> (if seed = None then deliverable k tid sh \<and> sh_threads sh = [] else guarded k tid sh)
      then Some (sh\<lparr>sh_owner := Some tid\<rparr>) else None)"
| "allowed k ts sh (Look_Up ip) = (if (\<exists>tid. sh_owner sh = Some tid \<and> guarded k tid sh) then Some sh else None)"
| "allowed k ts sh (Frame f answer) =
     (if sh_owner sh = Some (frame_threadId f) \<and> deliverable k (frame_threadId f) sh then Some sh else None)"
| "allowed k ts sh Write_Log = Some sh"

fun monitor :: "runtime_kind \<Rightarrow> u64 set \<Rightarrow> shield \<Rightarrow> call list \<Rightarrow> shield option" where
  "monitor k ts sh [] = Some sh"
| "monitor k ts sh (c # cs) = (case allowed k ts sh c of None \<Rightarrow> None | Some sh \<Rightarrow> monitor k ts sh cs)"

definition at_rest :: "shield \<Rightarrow> bool" where
  "at_rest sh \<longleftrightarrow> \<not> sh_runtime sh \<and> sh_handles sh = [] \<and> sh_threads sh = []"

lemma guarded_owner [simp]: "guarded k tid (sh\<lparr>sh_owner := t\<rparr>) = guarded k tid sh"
  by (simp add: guarded_def cong: option.case_cong prod.case_cong runtime_kind.case_cong)

lemma deliverable_owner [simp]: "deliverable k tid (sh\<lparr>sh_owner := t\<rparr>) = deliverable k tid sh"
  by (simp add: deliverable_def)

lemma monitor_append: "monitor k ts sh (cs @ ds) = (case monitor k ts sh cs of None \<Rightarrow> None | Some sh \<Rightarrow> monitor k ts sh ds)"
  by (induction cs arbitrary: sh) (auto split: option.splits)

section \<open>Runs under watch\<close>

definition watched :: "runtime_kind \<Rightarrow> u64 set \<Rightarrow> shield \<Rightarrow> capture_run \<Rightarrow> shield \<Rightarrow> bool" where
  "watched k ts start r sh \<longleftrightarrow> monitor k ts start (call_log r) = Some sh"

lemma watched_call: "watched k ts start r sh \<Longrightarrow> allowed k ts sh c = Some sh' \<Longrightarrow> watched k ts start (call_out c r) sh'"
  by (simp add: watched_def call_out_def monitor_append)

lemma watched_frame [simp]:
  "watched k ts start (r\<lparr>cb_frame := f\<rparr>) sh = watched k ts start r sh"
  "watched k ts start (r\<lparr>cancellationRequested := b\<rparr>) sh = watched k ts start r sh"
  "watched k ts start (set_thread tid r) sh = watched k ts start r sh"
  by (simp_all add: watched_def set_thread_def)

lemma watched_log [simp]: "watched k ts start r sh \<Longrightarrow> watched k ts start (call_out Write_Log r) sh"
  by (rule watched_call) simp_all

lemma run_thread [simp]:
  "frame_threadId (cb_frame (call_out c r)) = frame_threadId (cb_frame r)" "frame_threadId (cb_frame (set_thread tid r)) = tid"
  by (simp_all add: call_out_def set_thread_def)

text \<open>Delivery keeps the shield and the thread of the context.\<close>

abbreviation keeps_run :: "runtime_kind \<Rightarrow> u64 set \<Rightarrow> shield \<Rightarrow> u64 \<Rightarrow> shield \<Rightarrow> capture_run \<Rightarrow> bool" where
  "keeps_run k ts start tid sh r \<equiv> watched k ts start r sh \<and> frame_threadId (cb_frame r) = tid"

lemma InvokeCallback_keeps:
  assumes "keeps_run k ts start tid sh r" "sh_owner sh = Some tid" "deliverable k tid sh"
  shows "keeps_run k ts start tid sh (snd (InvokeCallback env r))"
proof -
  have "watched k ts start (call_out (Frame (cb_frame r) a) r) sh" for a
    by (rule watched_call) (use assms in auto)
  then show ?thesis using assms(1)
    by (auto simp: InvokeCallback_def Let_def split: option.split)
qed

lemma deliver_keeps:
  assumes "sh_owner sh = Some tid" "deliverable k tid sh"
  shows "keeps_run k ts start tid sh r \<Longrightarrow> keeps_run k ts start tid sh (snd (deliver env fs r))"
proof (induction fs arbitrary: r)
  case (Cons f fs)
  obtain res r' where r': "StackSnapshotCallbackDefault env f r = (res, r')" by fastforce
  have "keeps_run k ts start tid sh (snd (StackSnapshotCallbackDefault env f r))"
    unfolding StackSnapshotCallbackDefault_def by (rule InvokeCallback_keeps) (use Cons.prems assms in auto)
  then show ?case using Cons.IH [of r'] by (simp add: r' split: option.split)
qed simp

lemma DoStackSnapshot_keeps:
  assumes "keeps_run k ts start tid sh r" "allowed k ts sh (Snapshot tid seed) = Some (sh\<lparr>sh_owner := Some tid\<rparr>)"
    and "deliverable k tid sh"
  shows "keeps_run k ts start tid (sh\<lparr>sh_owner := Some tid\<rparr>) (snd (DoStackSnapshot env tid seed r))"
proof -
  have "keeps_run k ts start tid (sh\<lparr>sh_owner := Some tid\<rparr>) (call_out (Snapshot tid seed) r)"
    using assms(1) watched_call [OF _ assms(2)] by simp
  moreover have "deliverable k tid (sh\<lparr>sh_owner := Some tid\<rparr>)" using assms(3) by (simp add: deliverable_owner)
  ultimately have "keeps_run k ts start tid (sh\<lparr>sh_owner := Some tid\<rparr>) (snd (deliver env fs (call_out (Snapshot tid seed) r)))" for fs
    by (intro deliver_keeps) simp_all
  moreover obtain res r' where "deliver env (snapshot_frames env (call_log (call_out (Snapshot tid seed) r)) tid seed) (call_out (Snapshot tid seed) r) = (res, r')"
    by fastforce
  ultimately have "keeps_run k ts start tid (sh\<lparr>sh_owner := Some tid\<rparr>) r'" by (metis snd_conv)
  then show ?thesis using \<open>deliver env _ _ = (res, r')\<close>
    by (simp add: DoStackSnapshot_def Let_def split: option.split)
qed

lemma guarded_deliverable: "guarded k tid sh \<Longrightarrow> deliverable k tid sh"
  by (simp add: deliverable_def)

lemma native_walk_keeps:
  assumes "sh_owner sh = Some tid" "guarded k tid sh"
  shows "keeps_run k ts start tid sh r \<Longrightarrow> keeps_run k ts start tid sh (snd (native_walk env depth ctx n r))"
proof (induction depth arbitrary: ctx n r)
  case (Suc depth)
  let ?r = "call_out (Look_Up (Rip ctx)) r"
  have look: "keeps_run k ts start tid sh ?r" using Suc.prems assms watched_call [of k ts start r sh "Look_Up (Rip ctx)" sh] by auto
  have cb: "keeps_run k ts start tid sh (snd (InvokeCallback env (?r\<lparr>cb_frame := native_frame l c (Rip ctx) (cb_frame ?r)\<rparr>)))" for l c
    by (rule InvokeCallback_keeps) (use look assms guarded_deliverable in \<open>auto simp: native_frame_def\<close>)
  note more = cb Suc.IH [OF cb]
  show ?case
    unfolding native_walk.simps Let_def case_prod_beta using look Suc.prems more
    by (simp split: option.split del: native_walk.simps)
qed simp

lemma IssueSeededDss_keeps:
  assumes "keeps_run k ts start tid sh r" "sh_owner sh = Some tid" "guarded k tid sh" "tid \<in> ts"
  shows "keeps_run k ts start tid sh (snd (IssueSeededDss env tid seed r))"
proof -
  have own: "sh\<lparr>sh_owner := Some tid\<rparr> = sh" using assms(2) by simp
  have "keeps_run k ts start tid (sh\<lparr>sh_owner := Some tid\<rparr>) (snd (DoStackSnapshot env tid (Some seed) r))"
    by (rule DoStackSnapshot_keeps [OF assms(1)]) (use assms(3,4) guarded_deliverable in simp_all)
  then have "keeps_run k ts start tid sh (snd (DoStackSnapshot env tid (Some seed) r))" unfolding own .
  then show ?thesis by (auto simp: IssueSeededDss_def split: prod.split option.split)
qed

lemma ContinueFromProbedFrame0_keeps:
  assumes "watched k ts start r sh" "sh_owner sh = Some tid" "guarded k tid sh" "tid \<in> ts"
  shows "watched k ts start (snd (ContinueFromProbedFrame0 env tid ctx frame0 r)) sh"
proof (cases "isUnmanagedFrame frame0")
  case False
  then show ?thesis using assms IssueSeededDss_keeps [where sh = sh and tid = tid and r = "call_out Write_Log (set_thread tid r)"]
    by (simp add: ContinueFromProbedFrame0_def)
next
  case True
  obtain x r1 where r1: "InvokeCallback env (set_thread tid ((call_out Write_Log r)\<lparr>cb_frame := frame0\<rparr>)) = (x, r1)" by fastforce
  obtain w r2 where r2: "WalkNativeUntilManaged env ctx r1 = (w, r2)" by fastforce
  have "keeps_run k ts start tid sh (snd (InvokeCallback env (set_thread tid ((call_out Write_Log r)\<lparr>cb_frame := frame0\<rparr>))))"
    by (rule InvokeCallback_keeps) (use assms guarded_deliverable in auto)
  then have k1: "keeps_run k ts start tid sh r1" by (simp add: r1)
  then have "keeps_run k ts start tid sh (snd (WalkNativeUntilManaged env ctx r1))"
    unfolding WalkNativeUntilManaged_def by (rule native_walk_keeps [OF assms(2,3)])
  then have k2: "keeps_run k ts start tid sh r2" by (simp add: r2)
  have "keeps_run k ts start tid sh (snd (IssueSeededDss env tid seed r2))" for seed
    by (rule IssueSeededDss_keeps [OF k2 assms(2-4)])
  then have "watched k ts start r' sh" if "IssueSeededDss env tid seed r2 = (y, r')" for seed y r'
    using that by (metis snd_conv)
  then show ?thesis using True k1 k2
    by (auto simp: ContinueFromProbedFrame0_def r1 r2 split: option.split prod.split)
qed

section \<open>Guards and threads\<close>

text \<open>A guard suspends its thread or leaves everything as it was; releasing it restores the shield but for the probes.\<close>

definition suspended_more :: "u32 \<Rightarrow> shield \<Rightarrow> shield" where
  "suspended_more os sh = sh\<lparr>sh_handles := os # sh_handles sh, sh_threads := os # sh_threads sh, sh_rtl := False, sh_canary := False\<rparr>"

definition nested :: "shield \<Rightarrow> bool" where
  "nested sh \<longleftrightarrow> length (sh_handles sh) = length (sh_threads sh)"

lemma ScopedThreadSuspend_watched:
  assumes "watched k ts start r sh" "nested sh" "ScopedThreadSuspend env os r = (g, r')"
  shows "(suspended g \<and> threadHandle g = Some os \<and> watched k ts start r' (suspended_more os sh)) \<or>
    (\<not> suspended g \<and> threadHandle g = None \<and> watched k ts start r' sh)"
proof -
  define valid where "valid = open_answer env (call_log r) os"
  let ?r = "call_out (Open_Thread os valid) r"
  let ?sh = "sh\<lparr>sh_handles := os # sh_handles sh\<rparr>"
  have opened: "watched k ts start ?r (if valid then ?sh else sh)" by (rule watched_call [OF assms(1)]) simp
  have tried: "watched k ts start (call_out (Suspend_Thread os ok) ?r) (if ok then suspended_more os sh else ?sh)" if valid for ok
    by (rule watched_call [OF opened]) (use that assms(2) in \<open>simp add: suspended_more_def nested_def\<close>)
  have "watched k ts start (call_out (Close_Thread os) (call_out (Suspend_Thread os False) ?r)) sh" if valid
    by (rule watched_call [where sh = ?sh]) (use tried [of False] that assms(2) in \<open>simp_all add: nested_def\<close>)
  then show ?thesis using assms(3) opened tried [of True]
    by (auto simp: ScopedThreadSuspend_def Let_def split: if_splits simp flip: valid_def)
qed

lemma release_watched:
  assumes "watched k ts start r sh" "sh_handles sh = os # hs" "sh_threads sh = os # ths" "length hs = length ths"
    and "suspended g" "threadHandle g = Some os"
  shows "watched k ts start (release_thread g r) (sh\<lparr>sh_handles := hs, sh_threads := ths, sh_rtl := False, sh_canary := False\<rparr>)"
proof -
  let ?sh = "sh\<lparr>sh_threads := ths, sh_rtl := False, sh_canary := False\<rparr>"
  have "watched k ts start (call_out (Resume_Thread os) r) ?sh"
    by (rule watched_call [OF assms(1)]) (use assms(2-4) in simp)
  then have "watched k ts start (call_out (Close_Thread os) (call_out (Resume_Thread os) r)) (?sh\<lparr>sh_handles := hs\<rparr>)"
    by (rule watched_call) (use assms(2-4) in simp)
  moreover have "?sh\<lparr>sh_handles := hs\<rparr> = sh\<lparr>sh_handles := hs, sh_threads := ths, sh_rtl := False, sh_canary := False\<rparr>"
    by (cases sh) simp
  ultimately show ?thesis using assms(5,6) by (simp add: release_thread_def)
qed

lemma release_nothing: "threadHandle g = None \<Longrightarrow> release_thread g r = r"
  by (simp add: release_thread_def)

lemma GetContext_watched:
  assumes "watched k ts start r sh" "threadHandle g = Some os" "sh_target sh = Some (tid, os)" "os \<in> set (sh_threads sh)"
  shows "watched k ts start (snd (GetContext_thread env g r)) sh"
proof -
  have "watched k ts start (call_out (Get_Context os b) r) sh" for b
    by (rule watched_call [OF assms(1)]) (use assms(3,4) in simp)
  then show ?thesis using assms(1,2) by (simp add: GetContext_thread_def Let_def)
qed

lemma rtl_probe_watched:
  assumes "watched k ts start r sh" "sh_threads sh \<noteq> []"
  shows "\<exists>b. watched k ts start (snd (rtl_probe env ctx r)) (sh\<lparr>sh_rtl := b\<rparr>) \<and> (isl (fst (rtl_probe env ctx r)) \<or> b)"
proof (cases "rtl_probe_answer env (call_log r) ctx")
  case None
  then show ?thesis using assms(1) by (intro exI [of _ "sh_rtl sh"]) (simp add: rtl_probe_def)
next
  case (Some a)
  obtain result ctx' f where a: "a = (result, ctx', f)" by (cases a) auto
  have "watched k ts start (call_out (Rtl_Probe result) r) (sh\<lparr>sh_rtl := (result = ProbeSuccess)\<rparr>)"
    by (rule watched_call [OF assms(1)]) (use assms(2) in simp)
  then show ?thesis by (intro exI [of _ "result = ProbeSuccess"]) (simp add: rtl_probe_def Some a)
qed

lemma canary_probe_watched:
  assumes "watched k ts start r sh" "length (sh_threads sh) = 2" "k = NetFx"
  shows "\<exists>b. watched k ts start (snd (canary_probe env c r)) (sh\<lparr>sh_canary := b\<rparr>) \<and> (fst (canary_probe env c r) \<noteq> None \<or> b)"
proof (cases "canary_probe_answer env (call_log r) c")
  case None
  then show ?thesis using assms(1) by (intro exI [of _ "sh_canary sh"]) (simp add: canary_probe_def)
next
  case (Some result)
  have "watched k ts start (call_out (Canary_Probe c result) r) (sh\<lparr>sh_canary := (result = ProbeSuccess)\<rparr>)"
    by (rule watched_call [OF assms(1)]) (use assms(2,3) in simp)
  then show ?thesis by (intro exI [of _ "result = ProbeSuccess"]) (simp add: canary_probe_def Some)
qed

definition ready :: "runtime_kind \<Rightarrow> shield \<Rightarrow> bool" where
  "ready k sh \<longleftrightarrow> sh_runtime sh = (k = Clr) \<and> sh_handles sh = [] \<and> sh_threads sh = []"

text \<open>Inside the scope of a guard only the probes change.\<close>

abbreviation within :: "runtime_kind \<Rightarrow> u64 set \<Rightarrow> shield \<Rightarrow> shield \<Rightarrow> capture_run \<Rightarrow> bool" where
  "within k ts start sh r \<equiv> \<exists>a b. watched k ts start r (sh\<lparr>sh_rtl := a, sh_canary := b\<rparr>)"

lemma within_same: "watched k ts start r sh \<Longrightarrow> within k ts start sh r"
  by (rule exI [of _ "sh_rtl sh"], rule exI [of _ "sh_canary sh"]) simp

lemma clr_guarded_within:
  assumes "watched Clr ts start r sh" "sh = suspended_more os sh0" "ready Clr sh0" "sh_target sh = Some (tid, os)" "sh_owner sh = Some tid"
    and "threadHandle g = Some os" "tid \<in> ts"
  shows "within Clr ts start sh (snd (clr_guarded env tid g r))"
proof (cases "suspended g")
  case True
  have th: "sh_threads sh = [os]" "sh_runtime sh" using assms(2,3) by (simp_all add: suspended_more_def ready_def)
  obtain c r1 where r1: "GetContext_thread env g r = (c, r1)" by fastforce
  have w1: "watched Clr ts start r1 sh" using GetContext_watched [OF assms(1,6,4), of env] th r1 by simp
  show ?thesis
  proof (cases c)
    case None
    then show ?thesis using within_same [OF w1] True by (simp add: clr_guarded_def r1)
  next
    case (Some ctx)
    obtain x r2 where r2: "rtl_probe env ctx r1 = (x, r2)" by fastforce
    from rtl_probe_watched [OF w1, of env ctx] th r2 obtain b where b: "watched Clr ts start r2 (sh\<lparr>sh_rtl := b\<rparr>)" "isl x \<or> b" by auto
    show ?thesis
    proof (cases x)
      case (Inl result)
      then show ?thesis using True Some r1 r2 b(1) within_same [OF b(1)]
        by (simp add: clr_guarded_def)
    next
      case (Inr y)
      obtain ctx' frame0 where y: "y = (ctx', frame0)" by fastforce
      have "guarded Clr tid (sh\<lparr>sh_rtl := b\<rparr>)" using b(2) Inr th assms(4) by (simp add: guarded_def)
      then have "watched Clr ts start (snd (ContinueFromProbedFrame0 env tid ctx' frame0 r2)) (sh\<lparr>sh_rtl := b\<rparr>)"
        by (intro ContinueFromProbedFrame0_keeps [OF b(1)]) (use assms(5,7) in simp_all)
      then show ?thesis using True Some Inr y r1 r2
        using within_same [of Clr ts start _ "sh\<lparr>sh_rtl := b\<rparr>"] by (simp add: clr_guarded_def lift_run_def)
    qed
  qed
qed (use within_same [OF assms(1)] in \<open>simp add: clr_guarded_def\<close>)

lemma within_probed: "watched k ts start r (sh\<lparr>sh_rtl := a, sh_canary := b\<rparr>) \<Longrightarrow> within k ts start sh r"
  by blast

lemma netfx_probed_within:
  assumes "watched NetFx ts start r sh" "sh_threads sh = [c, os]" "sh_target sh = Some (tid, os)" "sh_owner sh = Some tid"
    and "threadHandle g = Some os" "tid \<in> ts"
  shows "within NetFx ts start sh (snd (netfx_probed env tid canaryId g r))"
proof -
  obtain cx r1 where r1: "GetContext_thread env g r = (cx, r1)" by fastforce
  have w1: "watched NetFx ts start r1 sh" using GetContext_watched [OF assms(1,5,3), of env] assms(2) r1 by simp
  show ?thesis
  proof (cases cx)
    case None
    then show ?thesis using within_same [OF w1] by (simp add: netfx_probed_def r1)
  next
    case (Some ctx)
    obtain x r2 where r2: "rtl_probe env ctx r1 = (x, r2)" by fastforce
    from rtl_probe_watched [OF w1, of env ctx] assms(2) r2 obtain a where
      a: "watched NetFx ts start r2 (sh\<lparr>sh_rtl := a\<rparr>)" "isl x \<or> a" by auto
    show ?thesis
    proof (cases x)
      case (Inl result)
      then show ?thesis using Some r1 r2 within_same [OF a(1)] by (simp add: netfx_probed_def)
    next
      case (Inr y)
      obtain ctx' frame0 where y: "y = (ctx', frame0)" by fastforce
      obtain p r3 where r3: "canary_probe env canaryId r2 = (p, r3)" by fastforce
      from canary_probe_watched [OF a(1), of env canaryId] assms(2) r3 obtain b where
        b: "watched NetFx ts start r3 (sh\<lparr>sh_rtl := a, sh_canary := b\<rparr>)" "p \<noteq> None \<or> b" by auto
      show ?thesis
      proof (cases p)
        case (Some result)
        then show ?thesis using \<open>cx = Some ctx\<close> Inr y r1 r2 r3 within_probed [OF b(1)] by (simp add: netfx_probed_def)
      next
        case None
        have "guarded NetFx tid (sh\<lparr>sh_rtl := a, sh_canary := b\<rparr>)" using a(2) b(2) Inr None assms(2,3) by (simp add: guarded_def)
        then have "watched NetFx ts start (snd (ContinueFromProbedFrame0 env tid ctx' frame0 r3)) (sh\<lparr>sh_rtl := a, sh_canary := b\<rparr>)"
          by (intro ContinueFromProbedFrame0_keeps [OF b(1)]) (use assms(4,6) in simp_all)
        then show ?thesis using \<open>cx = Some ctx\<close> Inr y None r1 r2 r3 within_probed
          by (simp add: netfx_probed_def lift_run_def)
      qed
    qed
  qed
qed

lemma netfx_guarded_within:
  assumes "watched NetFx ts start r sh" "sh = suspended_more os sh0" "ready NetFx sh0" "sh_target sh = Some (tid, os)" "sh_owner sh = Some tid"
    and "threadHandle g = Some os" "tid \<in> ts"
  shows "within NetFx ts start sh (snd (netfx_guarded env tid cid g r))"
proof (cases "suspended g")
  case True
  have sh: "sh_handles sh = [os]" "sh_threads sh = [os]" using assms(2,3) by (simp_all add: suspended_more_def ready_def)
  obtain cg r1 where r1: "ScopedThreadSuspend env (snd cid) r = (cg, r1)" by fastforce
  have "nested sh" using sh by (simp add: nested_def)
  from ScopedThreadSuspend_watched [OF assms(1) this r1] show ?thesis
  proof (elim disjE conjE)
    assume cg: "suspended cg" "threadHandle cg = Some (snd cid)" and w: "watched NetFx ts start r1 (suspended_more (snd cid) sh)"
    obtain x r2 where r2: "netfx_probed env tid (fst cid) g r1 = (x, r2)" by fastforce
    have "within NetFx ts start (suspended_more (snd cid) sh) (snd (netfx_probed env tid (fst cid) g r1))"
      by (rule netfx_probed_within [OF w]) (use sh assms(4-7) in \<open>simp_all add: suspended_more_def\<close>)
    then obtain a b where "watched NetFx ts start r2 ((suspended_more (snd cid) sh)\<lparr>sh_rtl := a, sh_canary := b\<rparr>)" by (auto simp: r2)
    from release_watched [OF this _ _ _ cg, of "[os]" "[os]"] sh
    have "watched NetFx ts start (release_thread cg r2) ((suspended_more (snd cid) sh)\<lparr>sh_rtl := a, sh_canary := b,
        sh_handles := [os], sh_threads := [os], sh_rtl := False, sh_canary := False\<rparr>)"
      by (simp add: suspended_more_def)
    moreover have "(suspended_more (snd cid) sh)\<lparr>sh_rtl := a, sh_canary := b,
        sh_handles := [os], sh_threads := [os], sh_rtl := False, sh_canary := False\<rparr> = sh\<lparr>sh_rtl := False, sh_canary := False\<rparr>"
      using sh by (cases sh) (simp add: suspended_more_def)
    ultimately have "watched NetFx ts start (release_thread cg r2) (sh\<lparr>sh_rtl := False, sh_canary := False\<rparr>)" by simp
    then show ?thesis using True cg r1 r2 within_probed by (simp add: netfx_guarded_def)
  next
    assume "\<not> suspended cg" "threadHandle cg = None" "watched NetFx ts start r1 sh"
    then show ?thesis using True r1 within_same by (simp add: netfx_guarded_def release_nothing)
  qed
qed (use within_same [OF assms(1)] in \<open>simp add: netfx_guarded_def\<close>)

text \<open>A thread: its guard is released on every way out.\<close>

abbreviation rests :: "runtime_kind \<Rightarrow> u64 set \<Rightarrow> shield \<Rightarrow> capture_run \<Rightarrow> bool" where
  "rests k ts start r \<equiv> \<exists>sh. watched k ts start r sh \<and> ready k sh"

lemma rests_log: "rests k ts start r \<Longrightarrow> rests k ts start (call_out Write_Log r)"
  using watched_log by blast

lemma scope_rests:
  assumes "ready k sh0" "ScopedThreadSuspend env os r = (g, r1)" "watched k ts start r sh0"
    and body: "\<And>sh. sh = suspended_more os sh0 \<Longrightarrow> watched k ts start r1 sh \<Longrightarrow> suspended g \<Longrightarrow> threadHandle g = Some os \<Longrightarrow>
      within k ts start sh r2"
    and refused: "\<not> suspended g \<Longrightarrow> r2 = r1"
  shows "rests k ts start (release_thread g r2)"
proof -
  have base: "sh_handles sh0 = []" "sh_threads sh0 = []" using assms(1) by (simp_all add: ready_def)
  have "nested sh0" using base by (simp add: nested_def)
  from ScopedThreadSuspend_watched [OF assms(3) this assms(2)] show ?thesis
  proof (elim disjE conjE)
    assume g: "suspended g" "threadHandle g = Some os" and w: "watched k ts start r1 (suspended_more os sh0)"
    from body [OF refl w g] obtain a b where "watched k ts start r2 ((suspended_more os sh0)\<lparr>sh_rtl := a, sh_canary := b\<rparr>)" by auto
    from release_watched [OF this _ _ _ g, of "[]" "[]"] base
    have "watched k ts start (release_thread g r2) (sh0\<lparr>sh_handles := [], sh_threads := [], sh_rtl := False, sh_canary := False\<rparr>)"
      by (simp add: suspended_more_def)
    moreover have "ready k (sh0\<lparr>sh_handles := [], sh_threads := [], sh_rtl := False, sh_canary := False\<rparr>)"
      using assms(1) by (simp add: ready_def)
    ultimately show ?thesis by blast
  next
    assume "\<not> suspended g" "threadHandle g = None" "watched k ts start r1 sh0"
    then show ?thesis using refused assms(1) by (auto simp: release_nothing)
  qed
qed

text \<open>Asking for the operating-system thread settles whose stack is walked.\<close>

lemma Thread_Info_watched:
  assumes "watched k ts start r sh" "ready k sh" "tid \<in> ts"
  obtains sh' where "watched k ts start (call_out (Thread_Info tid hr os) r) sh'" "ready k sh'" "sh_target sh' = Some (tid, os)" "sh_owner sh' = Some tid"
proof
  show "watched k ts start (call_out (Thread_Info tid hr os) r) (sh\<lparr>sh_target := Some (tid, os), sh_owner := Some tid\<rparr>)"
    by (rule watched_call [OF assms(1)]) (use assms(2,3) in \<open>simp add: ready_def\<close>)
qed (use assms(2) in \<open>simp_all add: ready_def\<close>)

lemma clr_CaptureStack_rests:
  assumes "rests Clr ts start r" "tid \<in> ts"
  shows "rests Clr ts start (snd (clr_CaptureStack env tid r))"
proof -
  from assms(1) obtain sh where w: "watched Clr ts start r sh" and r: "ready Clr sh" by blast
  obtain x r1 where r1: "DoStackSnapshot_unseeded env tid r = (x, r1)" by fastforce
  have d: "deliverable Clr tid sh" using r by (simp add: deliverable_def ready_def)
  have "keeps_run Clr ts start tid (sh\<lparr>sh_owner := Some tid\<rparr>) (snd (DoStackSnapshot_unseeded env tid r))"
    unfolding DoStackSnapshot_unseeded_def by (rule DoStackSnapshot_keeps) (use w r d assms(2) in \<open>simp_all add: ready_def\<close>)
  then have w1: "watched Clr ts start r1 (sh\<lparr>sh_owner := Some tid\<rparr>)" and q1: "ready Clr (sh\<lparr>sh_owner := Some tid\<rparr>)"
    using r by (simp_all add: r1 ready_def)
  show ?thesis
  proof (cases "\<exists>hr. x = Some hr \<and> FAILED hr")
    case False
    then show ?thesis using w1 q1 by (auto simp: clr_CaptureStack_def r1 split: option.split)
  next
    case True
    then obtain hr where hr: "x = Some hr" "FAILED hr" by blast
    let ?r = "call_out Write_Log r1"
    obtain osHr os where info: "thread_info_answer env (call_log ?r) tid = (osHr, os)" by fastforce
    obtain sh' where sh': "watched Clr ts start (call_out (Thread_Info tid osHr os) ?r) sh'" "ready Clr sh'" "sh_target sh' = Some (tid, os)"
        "sh_owner sh' = Some tid"
      using Thread_Info_watched [OF watched_log [OF w1] q1 assms(2)] by blast
    obtain g r2 where g: "ScopedThreadSuspend env os (call_out (Thread_Info tid osHr os) ?r) = (g, r2)" by fastforce
    obtain y r3 where y: "clr_guarded env tid g r2 = (y, r3)" by fastforce
    have "rests Clr ts start (release_thread g r3)"
    proof (rule scope_rests [OF sh'(2) g sh'(1)])
      show "within Clr ts start s r3" if "s = suspended_more os sh'" "watched Clr ts start r2 s" "suspended g" "threadHandle g = Some os" for s
        using clr_guarded_within [OF that(2,1) sh'(2) _ _ that(4) assms(2), of env] sh'(3,4) that(1) by (simp add: y suspended_more_def)
      show "r3 = r2" if "\<not> suspended g" using y that by (simp add: clr_guarded_def)
    qed
    note out = this rests_log [OF this]
    have "rests Clr ts start (call_out (Thread_Info tid osHr os) ?r)" using sh'(1,2) by blast
    then show ?thesis using hr out rests_log
      by (simp add: clr_CaptureStack_def r1 info g y Let_def split: sum.split)
  qed
qed

lemma netfx_CaptureStack_rests:
  assumes "rests NetFx ts start r" "tid \<in> ts"
  shows "rests NetFx ts start (snd (netfx_CaptureStack env tid r))"
proof (cases "canary_valid (canary_now env (call_log r)) \<and> fst (canary_now env (call_log r)) \<noteq> tid")
  case False
  then show ?thesis using assms(1) rests_log [OF assms(1)] by (auto simp: netfx_CaptureStack_def Let_def)
next
  case True
  let ?c = "canary_now env (call_log r)"
  from assms(1) obtain sh where w: "watched NetFx ts start r sh" and r: "ready NetFx sh" by blast
  obtain osHr os where info: "thread_info_answer env (call_log r) tid = (osHr, os)" by fastforce
  obtain sh' where sh': "watched NetFx ts start (call_out (Thread_Info tid osHr os) r) sh'" "ready NetFx sh'" "sh_target sh' = Some (tid, os)"
      "sh_owner sh' = Some tid"
    using Thread_Info_watched [OF w r assms(2)] by blast
  obtain g r2 where g: "ScopedThreadSuspend env os (call_out (Thread_Info tid osHr os) r) = (g, r2)" by fastforce
  obtain y r3 where y: "netfx_guarded env tid ?c g r2 = (y, r3)" by fastforce
  have "rests NetFx ts start (release_thread g r3)"
  proof (rule scope_rests [OF sh'(2) g sh'(1)])
    show "within NetFx ts start s r3" if "s = suspended_more os sh'" "watched NetFx ts start r2 s" "suspended g" "threadHandle g = Some os" for s
      using netfx_guarded_within [OF that(2,1) sh'(2) _ _ that(4) assms(2), of env ?c] sh'(3,4) that(1) by (simp add: y suspended_more_def)
    show "r3 = r2" if "\<not> suspended g" using y that by (simp add: netfx_guarded_def)
  qed
  note out = this rests_log [OF this]
  have "rests NetFx ts start (call_out (Thread_Info tid osHr os) r)" using sh'(1,2) by blast
  then show ?thesis using True out rests_log
    by (simp add: netfx_CaptureStack_def info g y Let_def split: sum.split)
qed

lemma capture_threads_rests:
  assumes "rests k ts start r" "set tids \<subseteq> ts"
  shows "rests k ts start (snd (capture_threads env k tids res r))"
  using assms
proof (induction tids arbitrary: res r)
  case (Cons tid tids)
  have "rests k ts start (snd (CaptureStack env k tid r))"
    using Cons.prems clr_CaptureStack_rests [of ts start r tid env] netfx_CaptureStack_rests [of ts start r tid env]
    by (cases k) (simp_all add: CaptureStack_def)
  then show ?case using Cons.IH Cons.prems by (simp add: case_prod_beta split: option.split)
qed simp

text \<open>The runtime.\<close>

abbreviation rested :: "runtime_kind \<Rightarrow> u64 set \<Rightarrow> shield \<Rightarrow> capture_run \<Rightarrow> bool" where
  "rested k ts start r \<equiv> \<exists>sh. watched k ts start r sh \<and> at_rest sh"

lemma rested_log: "rested k ts start r \<Longrightarrow> rested k ts start (call_out Write_Log r)"
  using watched_log by blast

lemma SuspendRuntime_watched:
  assumes "rested k ts start r" "SuspendRuntime env k r = (hr, r1)"
  shows "if SUCCEEDED hr then rests k ts start r1 \<and> (k = Clr \<longrightarrow> has_api env) else rested k ts start r1"
proof (cases "k = Clr \<and> has_api env")
  case False
  have "\<exists>sh. watched k ts start r sh \<and> at_rest sh" using assms(1) .
  then show ?thesis using assms(2) False
    by (cases k) (auto simp: SuspendRuntime_def ready_def at_rest_def)
next
  case True
  from assms(1) obtain sh where w: "watched k ts start r sh" and q: "at_rest sh" by blast
  let ?hr = "suspend_answer env (call_log r)"
  have "watched k ts start (call_out (Suspend_Runtime ?hr) r) (sh\<lparr>sh_runtime := SUCCEEDED ?hr\<rparr>)"
    by (rule watched_call [OF w]) (use True q in \<open>simp add: at_rest_def\<close>)
  then have "if SUCCEEDED ?hr then rests k ts start (call_out (Suspend_Runtime ?hr) r) else rested k ts start (call_out (Suspend_Runtime ?hr) r)"
    using True q by (auto simp: ready_def at_rest_def)
  then show ?thesis using assms(2) True rested_log [of k ts start "call_out (Suspend_Runtime ?hr) r"]
    by (simp add: SuspendRuntime_def Let_def split: if_splits)
qed

lemma ResumeRuntime_watched:
  assumes "rests k ts start r" "k = Clr \<longrightarrow> has_api env"
  shows "rested k ts start (ResumeRuntime env k r)"
proof (cases k)
  case NetFx
  then show ?thesis using assms(1) by (auto simp: ResumeRuntime_def ready_def at_rest_def)
next
  case Clr
  from assms(1) obtain sh where w: "watched k ts start r sh" and q: "ready k sh" by blast
  have "watched k ts start (call_out Resume_Runtime r) (sh\<lparr>sh_runtime := False\<rparr>)"
    by (rule watched_call [OF w]) (use q Clr in \<open>simp add: ready_def\<close>)
  then show ?thesis using Clr q assms(2) by (auto simp: ResumeRuntime_def ready_def at_rest_def)
qed

section \<open>The properties\<close>


lemma capture_threads_failed:
  "capture_threads env k tids res r = (Some hr, r') \<Longrightarrow> FAILED res \<Longrightarrow>
     hr = res \<or> hr = S_FALSE \<and> (stopping_seen env (call_log r') \<or> cancellationRequested r')"
  by (induction tids arbitrary: r) (auto split: if_splits prod.splits option.splits)

definition captured_well :: "walker_env \<Rightarrow> runtime_kind \<Rightarrow> u64 \<Rightarrow> bool" where
  "captured_well env k tid \<longleftrightarrow> (\<exists>r1 h r2. CaptureStack env k tid r1 = (Some h, r2) \<and> SUCCEEDED h)"

definition first_failure :: "walker_env \<Rightarrow> runtime_kind \<Rightarrow> u64 list \<Rightarrow> hresult \<Rightarrow> bool" where
  "first_failure env k tids hr \<longleftrightarrow>
     (\<exists>before tid later r1 r2. tids = before @ tid # later \<and> CaptureStack env k tid r1 = (Some hr, r2) \<and> (\<forall>t \<in> set before. captured_well env k t))"

lemma first_failure_Cons: "captured_well env k t \<Longrightarrow> first_failure env k tids hr \<Longrightarrow> first_failure env k (t # tids) hr"
  unfolding first_failure_def by (metis append_Cons set_ConsD)

lemma first_failure_here: "CaptureStack env k t r = (Some hr, r2) \<Longrightarrow> first_failure env k (t # tids) hr"
  unfolding first_failure_def by (metis append_Nil empty_iff list.set(1))

lemma capture_threads_answer:
  "capture_threads env k tids res r = (Some hr, r') \<Longrightarrow> SUCCEEDED res \<Longrightarrow>
     hr = S_OK \<and> (\<forall>t \<in> set tids. captured_well env k t) \<or>
     hr = S_FALSE \<and> (stopping_seen env (call_log r') \<or> cancellationRequested r') \<or>
     FAILED hr \<and> first_failure env k tids hr"
proof (induction tids arbitrary: res r)
  case (Cons t tids)
  show ?case
  proof (cases "stopping_seen env (call_log r)")
    case True
    then show ?thesis using Cons.prems by simp
  next
    case False
    then obtain h r1 where c: "CaptureStack env k t r = (Some h, r1)"
      using Cons.prems(1) by (auto split: prod.splits option.splits)
    show ?thesis
    proof (cases "stopping_seen env (call_log r1) \<or> cancellationRequested r1")
      case True
      then show ?thesis using Cons.prems(1) False c by auto
    next
      case on: False
      show ?thesis
      proof (cases "SUCCEEDED h")
        case True
        then have "captured_well env k t" using c by (auto simp: captured_well_def)
        then show ?thesis using Cons.IH [of res r1] Cons.prems False c on True first_failure_Cons by auto
      next
        case failed: False
        then have "capture_threads env k tids h r1 = (Some hr, r')" using Cons.prems False c on by simp
        from capture_threads_failed [OF this] failed show ?thesis using first_failure_here [OF c] by auto
      qed
    qed
  qed
qed auto


section \<open>An example\<close>

text \<open>On the .NET Framework, with a native frame, another one behind it and a managed one.\<close>

lemma demo_invoke: "InvokeCallback demo_walker r = (Some S_OK, call_out (Frame (cb_frame r) (Some S_OK)) r)"
  by (rule InvokeCallback_taken) (simp add: takes_all_def demo_walker_def)

lemma demo_walk:
  "\<exists>r'. ContinueFromProbedFrame0 demo_walker 5 demo_context (native_captured 0 90) r = (Some S_OK, r') \<and> cancellationRequested r' = cancellationRequested r"
proof -
  have S: "S_OK \<noteq> S_FALSE" "SUCCEEDED S_OK" "\<not> SUCCEEDED E_FAIL" "S_OK \<noteq> CORPROF_E_STACKSNAPSHOT_ABORTED"
    by (simp add: S_OK_def S_FALSE_def, simp, simp, simp add: S_OK_def CORPROF_E_STACKSNAPSHOT_ABORTED_def)
  have more: "cancellationRequested (call_out c r) = cancellationRequested r" "cancellationRequested (set_thread t r) = cancellationRequested r" for c t r
    by (simp_all add: call_out_def set_thread_def)
  have "\<exists>m. kMaxDepth = Suc (Suc m)" by (rule exI [of _ 510]) (simp add: kMaxDepth_def)
  then obtain m where depth: "kMaxDepth = Suc (Suc m)" ..
  have env: "function_answer demo_walker cs 100 = Some (E_FAIL, 0)" "function_answer demo_walker cs 200 = Some (S_OK, 55)"
    "lookup_answer demo_walker cs ip = Some \<lparr>imageBase = 0, rtFunc = None\<rparr>" "stack_answer demo_walker cs a = Some 200"
    "snapshot_frames demo_walker cs t s = [\<lparr>rf_function = 55, rf_ip = 200, rf_info = 0, rf_contextSize = 0\<rparr>]" "snapshot_answer demo_walker cs = S_OK"
    for cs ip a t s by (simp_all add: demo_walker_def)
  moreover have "isUnmanagedFrame (native_captured 0 90)" by (simp add: native_captured_def)
  ultimately show ?thesis using env
    by (simp add: depth ContinueFromProbedFrame0_def WalkNativeUntilManaged_def demo_invoke demo_context_def unwind_native_def IssueSeededDss_def
      DoStackSnapshot_def StackSnapshotCallbackDefault_def Let_def S more)
qed

lemma demo_capture:
  "CaptureStacks demo_walker NetFx [5] demo_run = (S_OK, snd (CaptureStacks demo_walker NetFx [5] demo_run))"
proof -
  have env: "\<not> stopping_seen demo_walker cs" "canary_now demo_walker cs = (9, 3)" "thread_info_answer demo_walker cs t = (S_OK, 7)"
    "open_answer demo_walker cs os" "suspend_thread_answer demo_walker cs os" "context_answer demo_walker cs os = Some demo_context"
    "rtl_probe_answer demo_walker cs c = Some (ProbeSuccess, demo_context, native_captured 0 90)" "canary_probe_answer demo_walker cs n = Some ProbeSuccess"
    for cs t os c n by (simp_all add: demo_walker_def)
  have more: "cancellationRequested (call_out c r) = cancellationRequested r" "cancellationRequested (release_thread g r) = cancellationRequested r" for c g r
    by (simp_all add: call_out_def release_thread_def split: option.split)
  obtain W where W: "ContinueFromProbedFrame0 demo_walker 5 demo_context (native_captured 0 90) r = (Some S_OK, W r)"
    "cancellationRequested (W r) = cancellationRequested r" for r
    using demo_walk by metis
  have "fst (netfx_CaptureStack demo_walker 5 demo_run) = Some S_OK \<and> \<not> cancellationRequested (snd (netfx_CaptureStack demo_walker 5 demo_run))"
    by (simp add: netfx_CaptureStack_def canary_valid_def ScopedThreadSuspend_def netfx_guarded_def netfx_probed_def GetContext_thread_def rtl_probe_def canary_probe_def
      lift_run_def env W Let_def more) (simp add: demo_run_def)
  then obtain r' where "netfx_CaptureStack demo_walker 5 demo_run = (Some S_OK, r')" "\<not> cancellationRequested r'"
    by (metis prod.collapse)
  then show ?thesis
    by (simp add: CaptureStacks_def SuspendRuntime_def ResumeRuntime_def CaptureStack_def env)
qed



end
