(* ===== verification/Canary_Thread.thy ===== *)
theory Canary_Thread
  imports Stack_Capture "HOL-Library.AList"
begin

text \<open>
  The canary of the .NET Framework capture (\<open>netfx_runtime_capture.cpp\<close>): the thread by which the health of stack snapshots is
  probed, elected by its name among the threads the runtime announces. The maps of the class, ordered by thread id, are
  association lists sorted when they are iterated.
\<close>

section \<open>Threads and their names\<close>

record canary_state =
  activeThreads :: "(u64 \<times> u32) list"
  threadNames :: "(u64 \<times> wstring) list"
  canary_snapshot :: "u64 \<times> u32"

definition canary_initial :: canary_state where
  "canary_initial = \<lparr>activeThreads = [], threadNames = [], canary_snapshot = (0, 0)\<rparr>"

definition canaryNamePrefix :: wstring where
  "canaryNamePrefix = map (\<lambda>c. of_nat (of_char c)) ''OpenTelemetry Profiler Canary Thread''"

definition IsCanaryThreadName :: "wstring \<Rightarrow> bool" where
  "IsCanaryThreadName name \<longleftrightarrow> take (length canaryNamePrefix) name = canaryNamePrefix"

fun first_canary :: "(u64 \<times> u32) list \<Rightarrow> (u64 \<times> wstring) list \<Rightarrow> u64 \<times> u32" where
  "first_canary active [] = (0, 0)"
| "first_canary active ((tid, name) # names) =
     (if \<not> IsCanaryThreadName name then first_canary active names
      else case map_of active tid of None \<Rightarrow> first_canary active names | Some os \<Rightarrow> (tid, os))"

definition ReelectCanaryLocked :: "canary_state \<Rightarrow> canary_state" where
  "ReelectCanaryLocked s = s\<lparr>canary_snapshot := first_canary (activeThreads s) (sort_key fst (threadNames s))\<rparr>"

definition OnThreadDestroyed :: "u64 \<Rightarrow> canary_state \<Rightarrow> canary_state" where
  "OnThreadDestroyed tid s =
     (let s = s\<lparr>activeThreads := AList.delete tid (activeThreads s), threadNames := AList.delete tid (threadNames s)\<rparr>
      in if fst (canary_snapshot s) \<noteq> tid then s else ReelectCanaryLocked s)"

text \<open>A name may be absent.\<close>

definition OnThreadNameChanged :: "u64 \<Rightarrow> wstring option \<Rightarrow> canary_state \<Rightarrow> canary_state" where
  "OnThreadNameChanged tid name s =
     (case name of
        None \<Rightarrow> s
      | Some name \<Rightarrow>
          if name = [] then s
          else let s = s\<lparr>threadNames := AList.update tid name (threadNames s)\<rparr>
               in if canary_valid (canary_snapshot s) \<or> \<not> IsCanaryThreadName name then s
                  else case map_of (activeThreads s) tid of None \<Rightarrow> s | Some os \<Rightarrow> s\<lparr>canary_snapshot := (tid, os)\<rparr>)"

definition OnThreadAssignedToOSThread :: "u64 \<Rightarrow> u32 \<Rightarrow> canary_state \<Rightarrow> canary_state" where
  "OnThreadAssignedToOSThread tid os s =
     (let s = s\<lparr>activeThreads := AList.update tid os (activeThreads s)\<rparr>
      in if canary_valid (canary_snapshot s) then s
         else case map_of (threadNames s) tid of
                None \<Rightarrow> s
              | Some name \<Rightarrow> if \<not> IsCanaryThreadName name then s else s\<lparr>canary_snapshot := (tid, os)\<rparr>)"

datatype thread_event = Destroyed u64 | Named u64 "wstring option" | Assigned u64 u32

fun thread_change :: "thread_event \<Rightarrow> canary_state \<Rightarrow> canary_state" where
  "thread_change (Destroyed tid) s = OnThreadDestroyed tid s"
| "thread_change (Named tid name) s = OnThreadNameChanged tid name s"
| "thread_change (Assigned tid os) s = OnThreadAssignedToOSThread tid os s"

text \<open>The runtime's ids of threads and the ids of operating-system threads are not zero.\<close>

fun proper_event :: "thread_event \<Rightarrow> bool" where
  "proper_event (Assigned tid os) = (tid \<noteq> 0 \<and> os \<noteq> 0)"
| "proper_event e = True"

definition canary_step :: "canary_state \<Rightarrow> canary_state \<Rightarrow> bool" where
  "canary_step s t \<longleftrightarrow> (\<exists>e. proper_event e \<and> t = thread_change e s)"

section \<open>The invariant\<close>

definition can_be_canary :: "canary_state \<Rightarrow> u64 \<Rightarrow> bool" where
  "can_be_canary s tid \<longleftrightarrow> (\<exists>name. map_of (threadNames s) tid = Some name \<and> IsCanaryThreadName name) \<and> map_of (activeThreads s) tid \<noteq> None"

definition canary_inv :: "canary_state \<Rightarrow> bool" where
  "canary_inv s \<longleftrightarrow> distinct (map fst (threadNames s)) \<and>
     (\<forall>tid os. map_of (activeThreads s) tid = Some os \<longrightarrow> tid \<noteq> 0 \<and> os \<noteq> 0) \<and>
     (\<forall>tid. can_be_canary s tid \<longrightarrow> canary_valid (canary_snapshot s)) \<and>
     (canary_valid (canary_snapshot s) \<longrightarrow> map_of (activeThreads s) (fst (canary_snapshot s)) \<noteq> None)"

lemma first_canary_found:
  "(tid, name) \<in> set names \<Longrightarrow> IsCanaryThreadName name \<Longrightarrow> map_of active tid \<noteq> None \<Longrightarrow>
     map_of active (fst (first_canary active names)) = Some (snd (first_canary active names))"
  by (induction active names rule: first_canary.induct) (auto split: option.split)

lemma first_canary_live:
  "first_canary active names = (0, 0) \<or> map_of active (fst (first_canary active names)) = Some (snd (first_canary active names))"
  by (induction active names rule: first_canary.induct) (auto split: option.split)

lemma ReelectCanaryLocked_inv:
  assumes "distinct (map fst (threadNames s))" "\<And>tid os. map_of (activeThreads s) tid = Some os \<Longrightarrow> tid \<noteq> 0 \<and> os \<noteq> 0"
  shows "canary_inv (ReelectCanaryLocked s)"
proof -
  let ?c = "first_canary (activeThreads s) (sort_key fst (threadNames s))"
  have "canary_valid ?c" if "can_be_canary s tid" for tid
  proof -
    from that obtain name where "(tid, name) \<in> set (sort_key fst (threadNames s))" "IsCanaryThreadName name" "map_of (activeThreads s) tid \<noteq> None"
      by (auto simp: can_be_canary_def dest: map_of_SomeD)
    from first_canary_found [OF this] show ?thesis using assms(2) by (auto simp: canary_valid_def)
  qed
  moreover have "map_of (activeThreads s) (fst ?c) \<noteq> None" if "canary_valid ?c"
    using first_canary_live [of "activeThreads s" "sort_key fst (threadNames s)"] that by (auto simp: canary_valid_def)
  ultimately show ?thesis using assms by (simp add: canary_inv_def ReelectCanaryLocked_def can_be_canary_def)
qed

lemma OnThreadDestroyed_inv: "canary_inv s \<Longrightarrow> canary_inv (OnThreadDestroyed tid s)"
proof -
  assume inv: "canary_inv s"
  let ?s = "s\<lparr>activeThreads := AList.delete tid (activeThreads s), threadNames := AList.delete tid (threadNames s)\<rparr>"
  have d: "distinct (map fst (threadNames ?s))" using inv by (simp add: canary_inv_def distinct_delete)
  have a: "tid' \<noteq> 0 \<and> os \<noteq> 0" if "map_of (activeThreads ?s) tid' = Some os" for tid' os
    using that inv by (auto simp: canary_inv_def delete_conv' split: if_splits)
  have e: "can_be_canary s t" if "can_be_canary ?s t" for t using that by (auto simp: can_be_canary_def delete_conv' split: if_splits)
  have v: "map_of (activeThreads ?s) t = map_of (activeThreads s) t" if "t \<noteq> tid" for t using that by (simp add: delete_conv')
  have "canary_inv ?s" if "fst (canary_snapshot s) \<noteq> tid"
    using inv d a e v [OF that] unfolding canary_inv_def by simp blast
  then show ?thesis using ReelectCanaryLocked_inv [OF d a] by (simp add: OnThreadDestroyed_def Let_def)
qed

text \<open>A change that leaves the canary alone, and an election.\<close>

lemma canary_inv_kept:
  assumes "canary_inv s" "distinct (map fst (threadNames t))" "\<And>tid os. map_of (activeThreads t) tid = Some os \<Longrightarrow> tid \<noteq> 0 \<and> os \<noteq> 0"
    and "canary_snapshot t = canary_snapshot s" "canary_valid (canary_snapshot s) \<or> (\<forall>tid. can_be_canary t tid \<longrightarrow> can_be_canary s tid)"
    and "\<And>tid. map_of (activeThreads s) tid \<noteq> None \<Longrightarrow> map_of (activeThreads t) tid \<noteq> None"
  shows "canary_inv t"
  using assms unfolding canary_inv_def by metis

lemma canary_inv_elected:
  assumes "distinct (map fst (threadNames t))" "\<And>tid os. map_of (activeThreads t) tid = Some os \<Longrightarrow> tid \<noteq> 0 \<and> os \<noteq> 0"
    and "canary_snapshot t = (tid, os)" "map_of (activeThreads t) tid = Some os"
  shows "canary_inv t"
  using assms unfolding canary_inv_def canary_valid_def by simp

lemma canary_invD:
  assumes "canary_inv s"
  shows "distinct (map fst (threadNames s))" "map_of (activeThreads s) tid = Some os \<Longrightarrow> tid \<noteq> 0 \<and> os \<noteq> 0"
  using assms unfolding canary_inv_def by blast+

lemma OnThreadNameChanged_inv:
  assumes inv: "canary_inv s"
  shows "canary_inv (OnThreadNameChanged tid name s)"
proof (cases "name = None \<or> name = Some []")
  case True
  then show ?thesis using inv by (auto simp: OnThreadNameChanged_def)
next
  case False
  then obtain n where n: "name = Some n" "n \<noteq> []" by auto
  let ?s = "s\<lparr>threadNames := AList.update tid n (threadNames s)\<rparr>"
  have d: "distinct (map fst (threadNames ?s))" using canary_invD(1) [OF inv] by (simp add: distinct_update)
  have a: "tid' \<noteq> 0 \<and> os \<noteq> 0" if "map_of (activeThreads ?s) tid' = Some os" for tid' os
    using canary_invD(2) [OF inv] that by simp
  have e: "can_be_canary s t" if "can_be_canary ?s t" "\<not> IsCanaryThreadName n \<or> map_of (activeThreads s) tid = None" for t
    using that by (cases "t = tid") (simp_all add: can_be_canary_def update_conv')
  show ?thesis
  proof (cases "canary_valid (canary_snapshot s) \<or> \<not> IsCanaryThreadName n \<or> map_of (activeThreads s) tid = None")
    case True
    have "canary_inv ?s" by (rule canary_inv_kept [OF inv d a]) (use True e in auto)
    then show ?thesis using True n by (auto simp: OnThreadNameChanged_def Let_def)
  next
    case False
    then obtain os where os: "map_of (activeThreads s) tid = Some os" by auto
    have "canary_inv (?s\<lparr>canary_snapshot := (tid, os)\<rparr>)" by (rule canary_inv_elected) (use d a os in simp_all)
    then show ?thesis using False n os by (simp add: OnThreadNameChanged_def Let_def)
  qed
qed

lemma OnThreadAssigned_inv:
  assumes inv: "canary_inv s" and "tid \<noteq> 0" "os \<noteq> 0"
  shows "canary_inv (OnThreadAssignedToOSThread tid os s)"
proof -
  let ?s = "s\<lparr>activeThreads := AList.update tid os (activeThreads s)\<rparr>"
  let ?named = "\<exists>name. map_of (threadNames s) tid = Some name \<and> IsCanaryThreadName name"
  have d: "distinct (map fst (threadNames ?s))" using canary_invD(1) [OF inv] by simp
  have a: "tid' \<noteq> 0 \<and> os' \<noteq> 0" if "map_of (activeThreads ?s) tid' = Some os'" for tid' os'
    using canary_invD(2) [OF inv, of tid' os'] that assms(2,3) by (cases "tid' = tid") (simp_all add: update_conv')
  have e: "can_be_canary s t" if "can_be_canary ?s t" "\<not> ?named" for t
    using that by (cases "t = tid") (simp_all add: can_be_canary_def update_conv')
  show ?thesis
  proof (cases "canary_valid (canary_snapshot s) \<or> \<not> ?named")
    case True
    have "canary_inv ?s" by (rule canary_inv_kept [OF inv d a]) (use True e in \<open>auto simp: update_conv'\<close>)
    then show ?thesis using True by (auto simp: OnThreadAssignedToOSThread_def Let_def split: option.split)
  next
    case False
    have "canary_inv (?s\<lparr>canary_snapshot := (tid, os)\<rparr>)" by (rule canary_inv_elected [where tid = tid and os = os]) (use d a in \<open>simp_all add: update_conv'\<close>)
    then show ?thesis using False by (auto simp: OnThreadAssignedToOSThread_def Let_def)
  qed
qed

interpretation canary: step_invariant "\<lambda>s. s = canary_initial" canary_step canary_inv
proof unfold_locales
  show "canary_inv s" if "s = canary_initial" for s
    using that by (simp add: canary_inv_def canary_initial_def can_be_canary_def canary_valid_def)
  show "canary_inv t" if "canary_inv s" "canary_step s t" for s t
  proof -
    from that(2) obtain e where "proper_event e" "t = thread_change e s" by (auto simp: canary_step_def)
    then show ?thesis using that(1) OnThreadDestroyed_inv OnThreadNameChanged_inv OnThreadAssigned_inv by (cases e) auto
  qed
qed

text \<open>There is a canary whenever there can be one. After any announcements of the runtime: if some live thread bears the
  canary's name, a canary is elected, and an elected canary is a live thread.\<close>

theorem canary_elected:
  assumes "reach (\<lambda>s. s = canary_initial) canary_step s"
  shows "(\<forall>tid name os. map_of (threadNames s) tid = Some name \<and> IsCanaryThreadName name \<and> map_of (activeThreads s) tid = Some os \<longrightarrow>
      canary_valid (canary_snapshot s)) \<and>
    (canary_valid (canary_snapshot s) \<longrightarrow> (\<exists>os. map_of (activeThreads s) (fst (canary_snapshot s)) = Some os))"
  using canary.reach_inv [OF assms] unfolding canary_inv_def can_be_canary_def by blast

text \<open>
  The canary keeps the operating-system thread it was elected with: when the runtime assigns the thread to another one, the
  table of threads follows and the canary does not.
\<close>

lemma canary_not_moved:
  assumes "canary_snapshot s = (tid, os)" "tid \<noteq> 0" "os \<noteq> 0"
  shows "canary_snapshot (OnThreadAssignedToOSThread tid os' s) = (tid, os)"
    "map_of (activeThreads (OnThreadAssignedToOSThread tid os' s)) tid = Some os'"
  using assms by (simp_all add: OnThreadAssignedToOSThread_def Let_def canary_valid_def update_conv')

section \<open>An example\<close>

definition example_canary :: canary_state where
  "example_canary = fold thread_change [Named 3 (Some canaryNamePrefix), Assigned 3 8, Assigned 4 9, Named 4 (Some canaryNamePrefix), Destroyed 3] canary_initial"

lemma canary_steps: "reach (\<lambda>s. s = canary_initial) canary_step s \<Longrightarrow> list_all proper_event es \<Longrightarrow>
    reach (\<lambda>s. s = canary_initial) canary_step (fold thread_change es s)"
proof (induction es arbitrary: s)
  case (Cons e es)
  then have "canary_step s (thread_change e s)" by (auto simp: canary_step_def)
  then show ?case using Cons reach_step [OF Cons.prems(1)] by simp
qed simp

theorem canary_elected_witness: "canary_valid (canary_snapshot example_canary) \<and> canary_snapshot example_canary = (4, 9)"
proof -
  have "reach (\<lambda>s. s = canary_initial) canary_step example_canary"
    unfolding example_canary_def by (rule canary_steps) (auto intro: reach_init)
  moreover have "IsCanaryThreadName canaryNamePrefix" by (simp add: IsCanaryThreadName_def)
  then have e: "map_of (threadNames example_canary) 4 = Some canaryNamePrefix" "map_of (activeThreads example_canary) 4 = Some 9"
    "canary_snapshot example_canary = (4, 9)"
    by (simp_all add: example_canary_def canary_initial_def OnThreadNameChanged_def OnThreadAssignedToOSThread_def OnThreadDestroyed_def
      ReelectCanaryLocked_def canary_valid_def Let_def canaryNamePrefix_def)
  ultimately show ?thesis using canary_elected [of example_canary] \<open>IsCanaryThreadName canaryNamePrefix\<close> by blast
qed

end
