(* ===== verification/Symbol_Resolver.thy ===== *)
theory Symbol_Resolver
  imports Prelude "HOL-Library.AList"
begin

text \<open>
  Names for native code (\<open>native_symbol_resolver.cpp\<close>): the module an address belongs to, its classification with the cache of
  it, and the nearest export of a system module. What the loader and the memory of an image hold is a parameter; \<open>None\<close> is a
  fault, or an answer that is not there.
\<close>

section \<open>Classified modules\<close>

record symbol_module =
  baseName :: wstring
  isSystem :: bool

record resolver_env =
  sysDir :: wstring
  to_lower :: "u16 \<Rightarrow> u16"
  module_path :: "u64 \<Rightarrow> wstring option"

type_synonym module_cache = "(u64 \<times> symbol_module) list"

definition kMaxModuleCacheSize :: nat where "kMaxModuleCacheSize = 256"
definition backslash :: u16 where "backslash = 0x5C"

definition classified :: "resolver_env \<Rightarrow> wstring \<Rightarrow> symbol_module" where
  "classified env path =
     \<lparr>baseName = rev (takeWhile (\<lambda>c. c \<noteq> backslash) (rev path)),
      isSystem = (sysDir env \<noteq> [] \<and> take (length (sysDir env)) (map (to_lower env) path) = sysDir env)\<rparr>"

text \<open>
  A module counts as a system module when its path begins with the text of the system directory, also where the name of the
  directory goes on.
\<close>

lemma system_by_prefix:
  "sysDir env \<noteq> [] \<Longrightarrow> map (to_lower env) prefix = sysDir env \<Longrightarrow> isSystem (classified env (prefix @ rest))"
  by (auto simp: classified_def)

text \<open>A full cache is emptied. Another thread may have entered the module meanwhile.\<close>

definition ClassifyAndCache :: "resolver_env \<Rightarrow> u64 \<Rightarrow> wstring \<Rightarrow> module_cache \<Rightarrow> symbol_module option \<times> module_cache" where
  "ClassifyAndCache env base path cache =
     (if path = [] then (None, cache)
      else case map_of cache base of
        Some info \<Rightarrow> (Some info, cache)
      | None \<Rightarrow>
          let cache = (if length cache \<ge> kMaxModuleCacheSize then [] else cache)
          in (Some (classified env path), AList.update base (classified env path) cache))"

text \<open>The buffer for a path holds 260 units with the terminator.\<close>

definition read_path :: "resolver_env \<Rightarrow> u64 \<Rightarrow> wstring option" where
  "read_path env base = map_option (take 259) (module_path env base)"

definition FetchClassification :: "resolver_env \<Rightarrow> u64 \<Rightarrow> module_cache \<Rightarrow> symbol_module option \<times> module_cache" where
  "FetchClassification env base cache =
     (case map_of cache base of
        Some info \<Rightarrow> (Some info, cache)
      | None \<Rightarrow> (case read_path env base of None \<Rightarrow> (None, cache) | Some path \<Rightarrow> ClassifyAndCache env base path cache))"

definition IsSystemModule :: "resolver_env \<Rightarrow> u64 \<Rightarrow> module_cache \<Rightarrow> bool option \<times> module_cache" where
  "IsSystemModule env base cache = (case FetchClassification env base cache of (info, cache) \<Rightarrow> (map_option isSystem info, cache))"

definition IsSystemModuleAtPath :: "resolver_env \<Rightarrow> u64 \<Rightarrow> wstring option \<Rightarrow> module_cache \<Rightarrow> bool option \<times> module_cache" where
  "IsSystemModuleAtPath env base path cache =
     (case path of
        None \<Rightarrow> (None, cache)
      | Some path \<Rightarrow>
          if path = [] then (None, cache)
          else case map_of cache base of
                 Some info \<Rightarrow> (Some (isSystem info), cache)
               | None \<Rightarrow> (case ClassifyAndCache env base path cache of (info, cache) \<Rightarrow> (map_option isSystem info, cache)))"

section \<open>Exports\<close>

text \<open>The headers and tables of an image, as the structures of the image format give them.\<close>

record export_image =
  e_magic :: u16
  e_lfanew :: u32
  nt_Signature :: u32
  NumberOfRvaAndSizes :: u32
  export_address :: u32
  export_size :: u32
  NumberOfFunctions :: u32
  NumberOfNames :: u32
  function_table :: "nat \<Rightarrow> u32 option"
  name_table :: "nat \<Rightarrow> u32 option"
  ordinal_table :: "nat \<Rightarrow> u16 option"
  string_at :: "u32 \<Rightarrow> byte list option"

definition IMAGE_DOS_SIGNATURE :: u16 where "IMAGE_DOS_SIGNATURE = 0x5A4D"
definition IMAGE_NT_SIGNATURE :: u32 where "IMAGE_NT_SIGNATURE = 0x4550"
definition IMAGE_DIRECTORY_ENTRY_EXPORT :: u32 where "IMAGE_DIRECTORY_ENTRY_EXPORT = 0"

definition forwarded :: "export_image \<Rightarrow> u32 \<Rightarrow> bool" where
  "forwarded img funcRva \<longleftrightarrow> export_address img \<le> funcRva \<and> funcRva < export_address img + export_size img"

text \<open>The loop over the names: the best address so far and the address of its name; \<open>None\<close> after a fault.\<close>

fun best_export :: "export_image \<Rightarrow> u32 \<Rightarrow> nat list \<Rightarrow> u32 \<times> u32 option \<Rightarrow> (u32 \<times> u32 option) option" where
  "best_export img rva [] best = Some best"
| "best_export img rva (i # is) best =
     (case ordinal_table img i of
        None \<Rightarrow> None
      | Some ordinal \<Rightarrow>
          if NumberOfFunctions img \<le> ucast ordinal then best_export img rva is best
          else case function_table img (unat ordinal) of
                 None \<Rightarrow> None
               | Some funcRva \<Rightarrow>
                   if forwarded img funcRva then best_export img rva is best
                   else if funcRva \<le> rva \<and> fst best < funcRva
                   then (case name_table img i of None \<Rightarrow> None | Some name \<Rightarrow> best_export img rva is (funcRva, Some name))
                   else best_export img rva is best)"

definition shortened :: "nat \<Rightarrow> byte list \<Rightarrow> byte list" where
  "shortened maxChars name = (if length name > maxChars then take (maxChars - 3) name @ [0x2E, 0x2E, 0x2E] else name)"

definition sane_headers :: "export_image \<Rightarrow> bool" where
  "sane_headers img \<longleftrightarrow> e_magic img = IMAGE_DOS_SIGNATURE \<and> 64 \<le> sint (e_lfanew img) \<and> sint (e_lfanew img) \<le> 0x10000000 \<and>
     nt_Signature img = IMAGE_NT_SIGNATURE \<and> IMAGE_DIRECTORY_ENTRY_EXPORT < NumberOfRvaAndSizes img \<and>
     export_address img \<noteq> 0 \<and> export_size img \<noteq> 0"

text \<open>The empty name stands for the length 0, no name.\<close>

definition FindExportNameForRva :: "export_image option \<Rightarrow> u32 \<Rightarrow> nat \<Rightarrow> byte list" where
  "FindExportNameForRva mapped rva nameBufSize =
     (if nameBufSize < 5 then []
      else case mapped of
        None \<Rightarrow> []
      | Some img \<Rightarrow>
          if \<not> sane_headers img then []
          else case best_export img rva [0..<unat (NumberOfNames img)] (0, None) of
                 None \<Rightarrow> []
               | Some (_, None) \<Rightarrow> []
               | Some (_, Some name) \<Rightarrow> (case string_at img name of None \<Rightarrow> [] | Some s \<Rightarrow> shortened (nameBufSize - 1) s))"

section \<open>Resolution\<close>

record symbol_env = resolver_env +
  unwind_base :: "u64 \<Rightarrow> u64 option"
  module_handle :: "u64 \<Rightarrow> u64 option option"
  image_at :: "u64 \<Rightarrow> export_image option"

definition kMaxSymbolLen :: nat where "kMaxSymbolLen = 256"
definition exclamation :: u16 where "exclamation = 0x21"

definition GetImageBaseForIp :: "symbol_env \<Rightarrow> u64 \<Rightarrow> u64" where
  "GetImageBaseForIp env ip =
     (if ip = 0 then 0
      else case unwind_base env ip of
        None \<Rightarrow> 0
      | Some imageBase \<Rightarrow>
          if imageBase \<noteq> 0 then imageBase
          else case module_handle env ip of None \<Rightarrow> 0 | Some None \<Rightarrow> 0 | Some (Some h) \<Rightarrow> h)"

definition AppendNarrow :: "wstring \<Rightarrow> byte list \<Rightarrow> wstring" where
  "AppendNarrow out s = out @ map ucast s"

definition ResolveViaExports :: "symbol_env \<Rightarrow> u64 \<Rightarrow> u64 \<Rightarrow> wstring \<Rightarrow> wstring option" where
  "ResolveViaExports env ip imageBase base_name =
     (let rva = ucast (ip - imageBase); exportName = FindExportNameForRva (image_at env imageBase) rva (kMaxSymbolLen + 1)
      in if exportName = [] then None
         else Some (AppendNarrow (if base_name \<noteq> [] then base_name @ [exclamation] else []) exportName))"

definition Resolve :: "symbol_env \<Rightarrow> u64 \<Rightarrow> module_cache \<Rightarrow> wstring option \<times> module_cache" where
  "Resolve env ip cache =
     (if ip = 0 then (None, cache)
      else let imageBase = GetImageBaseForIp env ip
           in if imageBase = 0 then (None, cache)
              else case FetchClassification (resolver_env.truncate env) imageBase cache of
                     (None, cache) \<Rightarrow> (None, cache)
                   | (Some info, cache) \<Rightarrow>
                       (if isSystem info then ResolveViaExports env ip imageBase (baseName info) else Some (baseName info), cache))"

section \<open>The nearest export\<close>

text \<open>A named export that starts at an address at or below the one asked for and is not forwarded to another module.\<close>

definition export_below :: "export_image \<Rightarrow> u32 \<Rightarrow> nat \<Rightarrow> u32 \<Rightarrow> bool" where
  "export_below img rva i f \<longleftrightarrow>
     (\<exists>ordinal. ordinal_table img i = Some ordinal \<and> ucast ordinal < NumberOfFunctions img \<and> function_table img (unat ordinal) = Some f) \<and>
     \<not> forwarded img f \<and> f \<le> rva \<and> 0 < f"

definition nearest_export :: "export_image \<Rightarrow> u32 \<Rightarrow> nat list \<Rightarrow> nat \<Rightarrow> u32 \<Rightarrow> bool" where
  "nearest_export img rva is i b \<longleftrightarrow>
     i \<in> set is \<and> export_below img rva i b \<and> (\<forall>j \<in> set is. \<forall>f. export_below img rva j f \<longrightarrow> f \<le> b \<and> (f = b \<longrightarrow> i \<le> j))"

lemma export_below_unique: "export_below img rva i f \<Longrightarrow> export_below img rva i g \<Longrightarrow> f = g"
  by (auto simp: export_below_def)

lemma nearest_here:
  assumes "export_below img rva i b" "\<forall>j \<in> set is. i \<le> j" "\<forall>j \<in> set is. \<forall>g. export_below img rva j g \<longrightarrow> g \<le> b"
  shows "nearest_export img rva (i # is) i b"
  using assms export_below_unique [OF assms(1)] unfolding nearest_export_def by (metis list.set_intros(1) order_refl set_ConsD)

lemma nearest_later:
  assumes "nearest_export img rva is i' b" "\<And>g. export_below img rva i g \<Longrightarrow> g < b"
  shows "nearest_export img rva (i # is) i' b"
  using assms unfolding nearest_export_def by (metis less_le list.set_intros(2) set_ConsD)

text \<open>The loop keeps what it has, and then no export is better, or ends with the nearest one.\<close>

lemma best_export_spec:
  "best_export img rva is best = Some (b, n) \<Longrightarrow> sorted is \<Longrightarrow>
     (b, n) = best \<and> (\<forall>i \<in> set is. \<forall>f. export_below img rva i f \<longrightarrow> f \<le> fst best) \<or>
     fst best < b \<and> (\<exists>i name. n = Some name \<and> name_table img i = Some name \<and> nearest_export img rva is i b)"
proof (induction "is" arbitrary: best)
  case (Cons i "is")
  have rest: "sorted is" "\<forall>j \<in> set is. i \<le> j" using Cons.prems(2) by auto
  obtain ordinal where o: "ordinal_table img i = Some ordinal" using Cons.prems(1) by (auto split: option.splits)
  have pos: "0 < f" if "fst best < f" for f using word_zero_le that by (rule le_less_trans)
  have below: "export_below img rva i f \<longleftrightarrow> \<not> NumberOfFunctions img \<le> ucast ordinal \<and> function_table img (unat ordinal) = Some f \<and>
      \<not> forwarded img f \<and> f \<le> rva \<and> 0 < f" for f
    using o by (auto simp: export_below_def not_le)
  consider (skip) "best_export img rva is best = Some (b, n)" "\<forall>f. export_below img rva i f \<longrightarrow> f \<le> fst best"
    | (new) f name where "best_export img rva is (f, Some name) = Some (b, n)" "name_table img i = Some name" "export_below img rva i f" "fst best < f"
  proof (cases "\<exists>f. export_below img rva i f \<and> fst best < f")
    case True
    then obtain f where f: "export_below img rva i f" "fst best < f" by blast
    then obtain name where "name_table img i = Some name" "best_export img rva is (f, Some name) = Some (b, n)"
      using Cons.prems(1) o unfolding below by (auto split: option.splits)
    then show ?thesis using f new by blast
  next
    case False
    have "best_export img rva is best = Some (b, n)"
    proof (cases "NumberOfFunctions img \<le> ucast ordinal")
      case True
      then show ?thesis using Cons.prems(1) o by simp
    next
      case inside: False
      then obtain f where f: "function_table img (unat ordinal) = Some f" using Cons.prems(1) o by (auto split: option.splits)
      then have "forwarded img f \<or> \<not> (f \<le> rva \<and> fst best < f)" using False inside pos unfolding below by blast
      then show ?thesis using Cons.prems(1) o f inside by (auto split: if_splits)
    qed
    moreover have "\<forall>f. export_below img rva i f \<longrightarrow> f \<le> fst best" using False by (meson not_le)
    ultimately show ?thesis by (rule skip)
  qed
  then show ?case
  proof cases
    case skip
    from Cons.IH [OF skip(1) rest(1)] show ?thesis
    proof
      assume "fst best < b \<and> (\<exists>i name. n = Some name \<and> name_table img i = Some name \<and> nearest_export img rva is i b)"
      then obtain i' name where i': "fst best < b" "n = Some name" "name_table img i' = Some name" "nearest_export img rva is i' b" by blast
      have "nearest_export img rva (i # is) i' b"
        by (rule nearest_later [OF i'(4)]) (use skip(2) i'(1) le_less_trans in blast)
      then show ?thesis using i' by blast
    next
      assume "(b, n) = best \<and> (\<forall>j \<in> set is. \<forall>f. export_below img rva j f \<longrightarrow> f \<le> fst best)"
      then show ?thesis using skip(2) by simp
    qed
  next
    case new
    from Cons.IH [OF new(1) rest(1)] show ?thesis
    proof
      assume keep: "(b, n) = (f, Some name) \<and> (\<forall>j \<in> set is. \<forall>g. export_below img rva j g \<longrightarrow> g \<le> fst (f, Some name))"
      then have "nearest_export img rva (i # is) i b" using new(3) rest(2) by (intro nearest_here) simp_all
      then show ?thesis using keep new(2,4) by auto
    next
      assume "fst (f, Some name) < b \<and> (\<exists>i name. n = Some name \<and> name_table img i = Some name \<and> nearest_export img rva is i b)"
      then obtain i' name' where i': "f < b" "n = Some name'" "name_table img i' = Some name'" "nearest_export img rva is i' b" by auto
      have "nearest_export img rva (i # is) i' b"
        by (rule nearest_later [OF i'(4)]) (use export_below_unique [OF new(3)] i'(1) in blast)
      then show ?thesis using i' new(4) less_trans by blast
    qed
  qed
qed auto

text \<open>C25: a native address is named after the nearest export. The name found for an address in an image is that of the export that
  starts closest below it, forwarders left aside, the first in the table among equals, shortened to the room there is; and without
  a fault no name is found only if there is no such export, or its name is empty.\<close>

theorem export_name_is_nearest:
  assumes "sane_headers img" "5 \<le> nameBufSize" "best_export img rva [0..<unat (NumberOfNames img)] (0, None) \<noteq> None"
  shows "(FindExportNameForRva (Some img) rva nameBufSize = [] \<longrightarrow>
      (\<forall>i < unat (NumberOfNames img). \<forall>f. \<not> export_below img rva i f) \<or>
      (\<exists>i b name. nearest_export img rva [0..<unat (NumberOfNames img)] i b \<and> name_table img i = Some name \<and> string_at img name \<in> {None, Some []})) \<and>
    (FindExportNameForRva (Some img) rva nameBufSize \<noteq> [] \<longrightarrow>
      (\<exists>i b name s. nearest_export img rva [0..<unat (NumberOfNames img)] i b \<and> name_table img i = Some name \<and> string_at img name = Some s \<and>
        FindExportNameForRva (Some img) rva nameBufSize = shortened (nameBufSize - 1) s \<and>
        length (FindExportNameForRva (Some img) rva nameBufSize) < nameBufSize))"
proof -
  let ?is = "[0..<unat (NumberOfNames img)]"
  obtain b n where bn: "best_export img rva ?is (0, None) = Some (b, n)" using assms(3) by auto
  have short: "length (shortened (nameBufSize - 1) s) < nameBufSize" "shortened (nameBufSize - 1) s = [] \<longleftrightarrow> s = []" for s
    using assms(2) by (auto simp: shortened_def)
  from best_export_spec [OF bn sorted_upt] show ?thesis
  proof (elim disjE conjE exE)
    assume "(b, n) = (0, None)" "\<forall>i \<in> set ?is. \<forall>f. export_below img rva i f \<longrightarrow> f \<le> fst (0 :: u32, None :: u32 option)"
    moreover have "\<not> export_below img rva i f \<or> \<not> f \<le> 0" for i f by (auto simp: export_below_def)
    ultimately have "\<forall>i < unat (NumberOfNames img). \<forall>f. \<not> export_below img rva i f" by fastforce
    moreover have "FindExportNameForRva (Some img) rva nameBufSize = []"
      using assms(1,2) bn \<open>(b, n) = (0, None)\<close> by (simp add: FindExportNameForRva_def)
    ultimately show ?thesis by simp
  next
    fix i name assume i: "n = Some name" "name_table img i = Some name" "nearest_export img rva ?is i b"
    have "FindExportNameForRva (Some img) rva nameBufSize = (case string_at img name of None \<Rightarrow> [] | Some s \<Rightarrow> shortened (nameBufSize - 1) s)"
      using assms(1,2) bn i(1) by (simp add: FindExportNameForRva_def)
    then show ?thesis using i(2,3) short by (cases "string_at img name") (auto simp: short)
  qed
qed

section \<open>The cache is transparent\<close>

definition module_truth :: "resolver_env \<Rightarrow> u64 \<Rightarrow> symbol_module option" where
  "module_truth env base = (case read_path env base of None \<Rightarrow> None | Some path \<Rightarrow> if path = [] then None else Some (classified env path))"

definition cache_true :: "resolver_env \<Rightarrow> module_cache \<Rightarrow> bool" where
  "cache_true env cache \<longleftrightarrow> (\<forall>base info. map_of cache base = Some info \<longrightarrow> module_truth env base = Some info) \<and> length cache \<le> kMaxModuleCacheSize"

lemma length_update_new: "map_of xs k = None \<Longrightarrow> length (AList.update k v xs) = Suc (length xs)"
  by (induction xs) (auto split: if_splits)

lemma ClassifyAndCache_true:
  assumes "cache_true env cache" "read_path env base = Some path"
  shows "fst (ClassifyAndCache env base path cache) = module_truth env base" "cache_true env (snd (ClassifyAndCache env base path cache))"
proof -
  let ?c = "if length cache \<ge> kMaxModuleCacheSize then [] else cache"
  have t: "path \<noteq> [] \<Longrightarrow> module_truth env base = Some (classified env path)" using assms(2) by (simp add: module_truth_def)
  have "length (AList.update base v ?c) \<le> kMaxModuleCacheSize" if "map_of cache base = None" for v
    using that by (auto simp: length_update_new kMaxModuleCacheSize_def)
  moreover have "\<forall>b i. map_of (AList.update base (classified env path) ?c) b = Some i \<longrightarrow> module_truth env b = Some i" if "path \<noteq> []"
    using assms(1) t [OF that] by (auto simp: cache_true_def update_conv' split: if_splits)
  ultimately have "cache_true env (AList.update base (classified env path) ?c)" if "path \<noteq> []" "map_of cache base = None"
    using that unfolding cache_true_def by blast
  then show "cache_true env (snd (ClassifyAndCache env base path cache))" using assms(1)
    by (cases "map_of cache base"; cases "path = []"; cases "kMaxModuleCacheSize \<le> length cache") (simp_all add: ClassifyAndCache_def Let_def)
  show "fst (ClassifyAndCache env base path cache) = module_truth env base"
  proof (cases "map_of cache base")
    case None
    then show ?thesis using assms(2) by (simp add: ClassifyAndCache_def Let_def module_truth_def)
  next
    case (Some info)
    then have "module_truth env base = Some info" using assms(1) by (simp add: cache_true_def)
    then show ?thesis using Some assms(2) by (auto simp: ClassifyAndCache_def module_truth_def)
  qed
qed

lemma FetchClassification_true:
  assumes "cache_true env cache"
  shows "fst (FetchClassification env base cache) = module_truth env base" "cache_true env (snd (FetchClassification env base cache))"
proof -
  have hit: "map_of cache base = Some i \<Longrightarrow> module_truth env base = Some i" for i using assms by (simp add: cache_true_def)
  show "fst (FetchClassification env base cache) = module_truth env base"
  proof (cases "map_of cache base")
    case None
    then show ?thesis using ClassifyAndCache_true(1) [OF assms, of base]
      by (cases "read_path env base") (simp_all add: FetchClassification_def module_truth_def)
  qed (use hit in \<open>simp add: FetchClassification_def\<close>)
  show "cache_true env (snd (FetchClassification env base cache))"
    using assms ClassifyAndCache_true(2) [OF assms] by (auto simp: FetchClassification_def split: option.split)
qed

text \<open>The uses of the resolver: by the walk, by the probe with the path it has read, by the sampler.\<close>

datatype resolver_use = By_Address u64 | By_Path u64 "wstring option" | By_Symbol u64

fun resolver_change :: "symbol_env \<Rightarrow> resolver_use \<Rightarrow> module_cache \<Rightarrow> module_cache" where
  "resolver_change env (By_Address base) cache = snd (IsSystemModule (resolver_env.truncate env) base cache)"
| "resolver_change env (By_Path base path) cache = snd (IsSystemModuleAtPath (resolver_env.truncate env) base path cache)"
| "resolver_change env (By_Symbol ip) cache = snd (Resolve env ip cache)"

fun honest_use :: "symbol_env \<Rightarrow> resolver_use \<Rightarrow> bool" where
  "honest_use env (By_Path base path) = (path = None \<or> path = read_path (resolver_env.truncate env) base)"
| "honest_use env u = True"

lemma AtPath_true:
  assumes "cache_true env cache" "path = read_path env base"
  shows "fst (IsSystemModuleAtPath env base path cache) = map_option isSystem (module_truth env base)"
    "cache_true env (snd (IsSystemModuleAtPath env base path cache))"
proof -
  have hit: "map_of cache base = Some i \<Longrightarrow> module_truth env base = Some i" for i using assms by (simp add: cache_true_def)
  show "fst (IsSystemModuleAtPath env base path cache) = map_option isSystem (module_truth env base)"
    using hit ClassifyAndCache_true(1) [OF assms(1), of base] assms(2)
    by (auto simp: IsSystemModuleAtPath_def module_truth_def case_prod_beta split: option.split)
  show "cache_true env (snd (IsSystemModuleAtPath env base path cache))"
    using assms ClassifyAndCache_true(2) [OF assms(1), of base] by (auto simp: IsSystemModuleAtPath_def case_prod_beta split: option.split)
qed

lemma Resolve_true:
  assumes "cache_true (resolver_env.truncate env) cache"
  shows "fst (Resolve env ip cache) =
      (if ip = 0 \<or> GetImageBaseForIp env ip = 0 then None
       else case module_truth (resolver_env.truncate env) (GetImageBaseForIp env ip) of
         None \<Rightarrow> None
       | Some info \<Rightarrow> if isSystem info then ResolveViaExports env ip (GetImageBaseForIp env ip) (baseName info) else Some (baseName info))"
    "cache_true (resolver_env.truncate env) (snd (Resolve env ip cache))"
  using FetchClassification_true [OF assms, of "GetImageBaseForIp env ip"] assms
  by (auto simp: Resolve_def Let_def split: prod.split option.split)

lemma resolver_change_true:
  assumes "cache_true (resolver_env.truncate env) cache" "honest_use env u"
  shows "cache_true (resolver_env.truncate env) (resolver_change env u cache)"
proof (cases u)
  case (By_Address base)
  then show ?thesis using FetchClassification_true(2) [OF assms(1), of base] by (simp add: IsSystemModule_def case_prod_beta)
next
  case (By_Path base path)
  then show ?thesis using assms AtPath_true(2) [OF assms(1), of path base] by (cases path) (auto simp: IsSystemModuleAtPath_def)
qed (use Resolve_true(2) [OF assms(1)] in simp)


section \<open>An example\<close>

definition example_image :: export_image where
  "example_image = \<lparr>e_magic = 0x5A4D, e_lfanew = 128, nt_Signature = 0x4550, NumberOfRvaAndSizes = 16, export_address = 1000, export_size = 100,
     NumberOfFunctions = 3, NumberOfNames = 3, function_table = (\<lambda>i. Some ([16, 1010, 32] ! i)), name_table = (\<lambda>i. Some (of_nat (2000 + i))),
     ordinal_table = (\<lambda>i. Some (of_nat i)), string_at = (\<lambda>a. if a = 2000 then Some [0x41] else if a = 2002 then Some [0x43] else None)\<rparr>"

lemma example_best: "best_export example_image 40 [0..<unat (NumberOfNames example_image)] (0, None) = Some (32, Some 2002)"
proof -
  have "[0..<unat (NumberOfNames example_image)] = [0, 1, 2]" by (simp add: example_image_def upt_rec)
  then show ?thesis by (simp add: example_image_def forwarded_def)
qed

theorem export_name_is_nearest_witness:
  "\<exists>i b. nearest_export example_image 40 [0..<unat (NumberOfNames example_image)] i b \<and> FindExportNameForRva (Some example_image) 40 257 = [0x43]"
proof -
  have s: "sane_headers example_image"
    by (simp add: sane_headers_def example_image_def IMAGE_DOS_SIGNATURE_def IMAGE_NT_SIGNATURE_def IMAGE_DIRECTORY_ENTRY_EXPORT_def)
  have f: "FindExportNameForRva (Some example_image) 40 257 = [0x43]"
    using s by (simp add: FindExportNameForRva_def example_best) (simp add: example_image_def shortened_def)
  then show ?thesis using export_name_is_nearest [of example_image 257 40] s example_best by auto
qed

definition example_resolver :: symbol_env where
  "example_resolver = \<lparr>sysDir = [0x43], to_lower = (\<lambda>c. c), module_path = (\<lambda>base. if base = 4096 then Some [0x43, 0x5C, 0x61] else None),
     unwind_base = (\<lambda>ip. Some 4096), module_handle = (\<lambda>ip. None), image_at = (\<lambda>base. Some example_image)\<rparr>"


end
