(* ===== verification/Spec2Isabelle.thy ===== *)
theory Spec2Isabelle
  imports Shutdown_Admission Runtime_Sampler Stack_Walk_Guard Attribute_Blob Signature_Names Sample_Capture Call_Target_Rewriting Local_Signature Rejit_Delivery Capture_Shield Canary_Thread Symbol_Resolver
begin

text \<open>
  \<^bold>\<open>The native part of OpenTelemetry .NET automatic instrumentation.\<close>

  The program is a CLR profiler: a native library (\<open>src/src/OpenTelemetry.AutoInstrumentation.Native\<close>) the .NET runtime
  loads into an application. It has two jobs. It changes the application's code and metadata so that calls are traced
  and so that assembly references point at the versions the instrumentation brings along; and it samples the
  application, taking the stacks of its threads at intervals and handing them, encoded, to a managed exporter.
  This development models the sampler from its control plane down to the bytes the exporter reads, and of the first
  job the instrumentation of method bodies and the parts that compute on names, signatures and metadata blobs.

  \<^bold>\<open>How the parts interact.\<close> A configuration arrives at the runtime sampler service, which commits it as a transaction
  (\<open>Runtime_Sampler\<close>) and drives the profiler's control plane: the worker thread, its schedule and the EventPipe session
  of allocation sampling (\<open>Sampler_Control\<close>, \<open>Allocation_Sampler\<close>). The worker runs one cohort after the other
  (\<open>Sample_Capture\<close>): it prepares storage for the stacks (\<open>Stack_Storage\<close>), takes the frames the stack walker delivers,
  which suspends threads and walks native code itself (\<open>Stack_Capture\<close>) once the stack walk guard has probed the first
  native frame (\<open>Stack_Walk_Guard\<close>), names the functions through a cache
  (\<open>Name_Cache\<close>, with the printing of signatures in \<open>Signature_Names\<close>), writes a batch (\<open>Sample_Buffer\<close>,
  \<open>Sample_Batch\<close>) and publishes it in one of the buffers the exporter reads (\<open>Sample_Exchange\<close>, \<open>Sample_Reader\<close>).
  Which threads are sampled often depends on the traces the application selected (\<open>Trace_Selection\<close>). Every entry into the
  library passes the shutdown admission gate (\<open>Shutdown_Admission\<close>). A method is rewritten by decoding its body
  (\<open>Method_Body\<close>), importing it into a list of instructions, inserting instructions and exporting it again (\<open>Il_Rewriter\<close>,
  \<open>Il_Wrapper\<close>); what is inserted to call an integration before and after the method is \<open>Call_Target\<close>.
  Which methods are rewritten is decided before: the managed side registers definitions (\<open>Integration_Definitions\<close>), the
  runtime reports modules, and both enqueue analyses for one worker thread (\<open>Rejit_Pipeline\<close>), which finds the methods a
  definition targets (\<open>Rejit_Targets\<close>), records them and asks the runtime for a new compilation (\<open>Rejit_Registry\<close>); the
  runtime then asks for the new body of a recorded method.

  \<^bold>\<open>The theories and the code.\<close>

  \<^item> \<open>Prelude\<close>: machine integers, \<open>HRESULT\<close>, the transition-system locales (\<open>reach\<close>, invariants, latches) and the
    byte arithmetic the components share.
  \<^item> \<open>Shutdown_Admission\<close>: \<open>shutdown_admission.cpp\<close>. The 64-bit gate word and one program counter per thread; each atomic
    operation is a step. A wait that has returned excludes admissions for good, the count is exact and never runs into
    the closing bit, and no wake-up is lost.
  \<^item> \<open>Allocation_Sampler\<close>, \<open>Sampler_Control\<close>: the sub-sampler, the configuration mailbox, the cohort schedule, the worker's
    start and the terminal shutdown of \<open>continuous_profiler.cpp\<close>.
  \<^item> \<open>Runtime_Sampler\<close>: \<open>runtime_sampler_configuration.cpp\<close>, \<open>runtime_sampler_service.cpp\<close> and the entry points of
    \<open>interop.cpp\<close>: atomicity of transactions, authority, and that the sampler runs what was committed.
  \<^item> \<open>Stack_Walk_Guard\<close>: \<open>stack_walk_guard.cpp\<close> (x64). The caller, the worker and the probe stages as one state; memory
    of the caller is written only while it waits, and a timeout names the call that blocks.
  \<^item> \<open>Stack_Capture\<close>, \<open>Native_Walk\<close>, \<open>Capture_Shield\<close>: \<open>stack_capturer.cpp\<close>, \<open>clr_runtime_capture.cpp\<close>,
    \<open>netfx_runtime_capture.cpp\<close>, \<open>safe_native_walk_service.cpp\<close> and \<open>thread_suspend.cpp\<close> (x64, Windows). A run records the
    calls it makes; every answer may depend on all calls before. \<open>Capture_Shield\<close> states as an automaton over the calls what
    must be suspended and probed when a stack is touched and that all is resumed, and proves that every capture obeys it;
    \<open>Native_Walk\<close> says which frames the walk of native code delivers (at most 512).
  \<^item> \<open>Canary_Thread\<close>: the election of the thread by which snapshots are probed on the .NET Framework.
  \<^item> \<open>Symbol_Resolver\<close>: \<open>native_symbol_resolver.cpp\<close>: the nearest export, and the cache of modules that changes no answer.
  \<^item> \<open>Sample_Buffer\<close>, \<open>Sample_Reader\<close>, \<open>Sample_Batch\<close>: the writer \<open>ThreadSamplesBuffer\<close>, the reader
    \<open>SampleNativeFormatParser.cs\<close> of the test application, the code that writes a batch, and the round trip.
  \<^item> \<open>Sample_Exchange\<close>: the two slots, the allocation and the selective buffer, behind the locales \<open>mailbox\<close> (a bounded
    first-in-first-out queue) and \<open>byte_pipe\<close>; the pair of slots refines the queue.
  \<^item> \<open>Name_Cache\<close>: \<open>NameCache\<close> with its list nodes and iterators and \<open>NamingHelper\<close>, behind the locale \<open>lru_cache\<close>; the cache
    holds exactly the most recently used keys.
  \<^item> \<open>Stack_Storage\<close>: \<open>ThreadStacksBuffer\<close>: the budget of frame storage and its fair reservation.
  \<^item> \<open>Trace_Selection\<close>: span contexts, thread names and the traces selected for frequent sampling with their expiry.
  \<^item> \<open>Sample_Capture\<close>: \<open>CaptureFunctionIdentifiersForThreads\<close> and \<open>CaptureSamples\<close>, composed from the parts above; the
    property below follows a captured frame to the reader.
  \<^item> \<open>Cor_Sig\<close>: the signature compression of \<open>cor.h\<close> and its decoders. \<open>Mini_Utf\<close>: \<open>miniutf.cpp\<close> and the string
    conversions of \<open>string_utils.cpp\<close>.
  \<^item> \<open>Signature_Builder\<close>, \<open>Signature_Parser\<close>, \<open>Signature_Names\<close>: \<open>signature_builder.h\<close> and the signature parsing and type
    printing of \<open>clr_helpers.cpp\<close>: what the builder writes is parsed back, flagged and printed as the type it was.
  \<^item> \<open>Type_Name_Parser\<close>, \<open>Type_Name_Rewriter\<close>, \<open>Attribute_Blob\<close>: the redirection of assembly versions inside
    assembly-qualified type names and inside \<open>UnsafeAccessorType\<close> attribute blobs.
  \<^item> \<open>Il_Opcodes\<close>, \<open>Method_Body\<close>: the opcode tables of \<open>opcode.def\<close> and the method-body format of \<open>corhdr.h\<close> and
    \<open>corhlpr.cpp\<close>, tiny and fat headers, small and fat exception sections.
  \<^item> \<open>Il_Rewriter\<close>, \<open>Il_Wrapper\<close>: \<open>il_rewriter.cpp\<close> and \<open>il_rewriter_wrapper.cpp\<close>. The ring of instructions is a list with
    identities (0 is the sentinel); a branch and an exception clause hold identities.
  \<^item> \<open>Il_Round_Trip\<close>, \<open>Il_Bodies\<close>, \<open>Il_Imported\<close>, \<open>Il_Rewriting\<close>: export lays code out that import reads back; whole bodies
    with their clauses; what import accepts is well-formed; every operation keeps it so, and therefore a rewritten
    method always exports, inside its buffer and in boundedly many rounds, to bytes that are the rewritten program.
  \<^item> \<open>Call_Target\<close>: \<open>TracerMethodRewriter::Rewrite\<close> (\<open>tracer_method_rewriter.cpp\<close>) with the operations of
    \<open>calltarget_tokens.cpp\<close> and \<open>tracer_tokens.cpp\<close> that insert instructions. What the metadata interfaces answer is the
    record \<open>calltarget\<close>; a failed answer is \<open>None\<close>.
  \<^item> \<open>Call_Target_Blocks\<close>, \<open>Call_Target_Parts\<close>: the inserted code as blocks with rules for each operation (\<open>ok\<close>: what holds
    of a result), for the code in front of a method and the code behind it.
  \<^item> \<open>Call_Target_Method\<close>, \<open>Call_Target_Conditions\<close>, \<open>Call_Target_Rewriting\<close>: the layout of an instrumented method and its
    clauses, the conditions under which every step has a result (\<open>gives\<close>), and the properties: the layout, the new
    body read back, and which methods are instrumented.
  \<^item> \<open>Local_Signature\<close>: \<open>CallTargetTokens::ModifyLocalSig\<close> with the additional locals of \<open>tracer_tokens.cpp\<close>. The signature
    written byte by byte equals the specification that appends the types of the instrumentation; the parser of
    \<open>Signature_Parser\<close> reads it back; the indices are the slots the rewriting of \<open>Call_Target\<close> needs, and they suffice.
  \<^item> \<open>Integration_Definitions\<close>: the types of \<open>integration.h\<close> and \<open>tracer_integration_definition.cpp\<close>, the definitions that
    \<open>cor_profiler.cpp\<close> makes of what is registered, and the configuration of traced methods with its round trip.
  \<^item> \<open>Rejit_Targets\<close>, \<open>Rejit_Registry\<close>: \<open>rejit_preprocessor.cpp\<close> and the module and method handlers of \<open>rejit_handler.cpp\<close>.
    \<open>module_targets\<close> says which methods of a module a definition targets; the analysis with its loops and early exits
    requests exactly these, and the registry holds exactly what was requested.
  \<^item> \<open>Rejit_Pipeline\<close>, \<open>Rejit_Delivery\<close>: the callbacks and registrations of \<open>cor_profiler.cpp\<close>, the work queue of
    \<open>rejit_work_offloader.cpp\<close> with its promises and the shutdown, as one step relation: every integration reaches every
    loaded module whatever the order of events, and every wait ends.

  \<^bold>\<open>How the model is made.\<close> State is passed explicitly (records with the fields of the class); code that runs under one
  lock is one step; concurrent code is a step relation over program counters. Raises, early returns and null
  results are branches (\<open>option\<close> or sum types). Machine integers keep their width as words where the code computes with
  them; sizes bounded far below their width are naturals. Everything the code asks of the CLR, of the operating system
  or of a library is an argument: clocks, random draws, \<open>HRESULT\<close>s, delivered frames, metadata names, the capacity an
  allocator provides. Hypotheses on such arguments are named in the theorems (an allocator gives at least what it is
  asked for; a function keeps its name).

  \<^bold>\<open>Bounds and termination.\<close> No fuel is used: loops over the bytes of a signature, a name or a batch terminate because
  every round consumes input, and the export loop because every round widens a branch, which is proved with each
  \<open>function\<close>. The limits that appear in theorems are the
  code's constants: 200 KiB per sample buffer, 9999 string codes, 512 units per string, 5000 cached names, 32768 frames
  in 1024 stacks of 512, 50 selected traces of fifteen minutes; rewriting assumes less than 2 to the 31st bytes of code.

  \<^bold>\<open>Not modelled.\<close> The emission of metadata tokens and signatures into the CLR and the profiler callbacks other than those
  named above; the version, culture and key inside the string of an
  assembly reference, which library expressions extract and no matching uses; the timed waits of a loading module, which
  only delay it; a module that is unloaded during its own analysis, which the analysis as one step excludes; the
  stack walker of the runtime itself, the unwinder and the loader (their answers are inputs); that the frames
  \<open>Sample_Capture\<close> takes as input are those \<open>Stack_Capture\<close> delivers; the capture in builds other than x64 for Windows; the readers of allocation and selective
  samples, logging, and the managed code. Heap exhaustion and exceptions are modelled only where the code has a branch
  for them.
\<close>

section \<open>From the stack walker to the reader\<close>

text \<open>C8: what a cohort captures reaches the reader. After any history of cohorts, reads and changes by the
  application, a capture of all threads either leaves the pending batches alone, and then something stood in its way
  (shutdown, an aborted capture, no frames, no free slot, or a batch that may not fit), or it appends exactly one batch
  with its sampling interval; the reader decodes that batch to exactly the captured stacks with the names, traces and
  selections of their threads; and every captured stack consists of frames the stack walker delivered for that thread,
  each as the function it was resolved to, in the order of delivery.\<close>

theorem captured_samples_reach_the_reader:
  assumes "list_all (regular name) es" "fold cohort_step es capture_initial = s"
    and "regular name (Cohort inp Continuous cfg)"
    and "CaptureSamples inp Continuous (SelectiveEnabled cfg) interval s = t"
  shows "pending (cpu_slots t) = pending (cpu_slots s) \<and> \<not> unhindered inp s t \<or>
    (\<exists>bytes. pending (cpu_slots t) = pending (cpu_slots s) @ [(bytes, interval)] \<and>
       ParseThreadSamples getString background (SelectiveEnabled cfg) (bytes @ junk) (length bytes) =
         Some (expected_samples getString background (view_of inp s) (SelectiveEnabled cfg) (batch_now inp) 0 (stacks_of (storage t))) \<and>
       (\<forall>(tid, stack) \<in> set (stacks_of (storage t)). subseq stack (frames_of inp tid (delivered inp))))"
proof -
  have "worker_ok name s" using worker_history_ok [OF worker_initial_ok assms(1)] assms(2) by simp
  moreover have "name_source inp = name" "\<And>n. n \<le> reserve_of inp n" using assms(3) by simp_all
  ultimately consider "pending (cpu_slots t) = pending (cpu_slots s) \<and> \<not> unhindered inp s t"
    | stats w where "captured_from inp (delivered inp) (storage t)" "\<not> IsOverflowed w"
      "ResolveSymbolsForAllThreads (view_of inp s) (SelectiveEnabled cfg) (batch_now inp) stats (stacks_of (storage t)) = w"
      "pending (cpu_slots t) = pending (cpu_slots s) @ [(buffer w, interval)]"
    using continuous_cohort [of inp s "SelectiveEnabled cfg" interval] assms(4) unfolding Let_def by blast
  then show ?thesis
  proof cases
    case 1
    then show ?thesis by blast
  next
    case (2 stats w)
    show ?thesis
    proof (intro disjI2 exI conjI)
      show "pending (cpu_slots t) = pending (cpu_slots s) @ [(buffer w, interval)]" by (rule 2(4))
      show "ParseThreadSamples getString background (SelectiveEnabled cfg) (buffer w @ junk) (length (buffer w)) =
        Some (expected_samples getString background (view_of inp s) (SelectiveEnabled cfg) (batch_now inp) 0 (stacks_of (storage t)))"
        by (rule reader_decodes [OF 2(3,2)])
      show "\<forall>(tid, stack) \<in> set (stacks_of (storage t)). subseq stack (frames_of inp tid (delivered inp))"
        using 2(1) by (auto simp: captured_from_def stacks_of_def)
    qed
  qed
qed

theorem captured_samples_reach_the_reader_witness:
  "\<exists>bytes. pending (cpu_slots (CaptureSamples demo_input Continuous False 1000 capture_initial)) =
     pending (cpu_slots capture_initial) @ [(bytes, 1000)]"
proof -
  let ?cfg = "\<lparr>cpuSamplingInterval = 1000, selectiveSamplingInterval = 0, config_version = 1\<rparr>"
  have "regular (\<lambda>_. [0x66]) (Cohort demo_input Continuous ?cfg)" by (simp add: demo_input_def)
  moreover have "\<not> SelectiveEnabled ?cfg" by (simp add: SelectiveEnabled_def)
  ultimately show ?thesis
    using captured_samples_reach_the_reader [of "\<lambda>_. [0x66]" "[]" capture_initial demo_input ?cfg 1000
        "CaptureSamples demo_input Continuous False 1000 capture_initial" "\<lambda>bs. bs" "[9]" "[]"] demo_unhindered
    by auto
qed

end
